(* ===== verification/Go_Prelude.thy ===== *)
theory Go_Prelude
  imports Main "HOL-Library.Char_ord" "HOL-Library.List_Lexorder" "HOL-Library.Product_Lexorder"
begin

text \<open>
  What the modelled Go code uses of the language and of its standard library: byte strings
  (\<open>strings\<close>), decimal conversion (\<open>strconv\<close>), first-wins deduplication over a
  \<open>map[string]struct{}\<close>, and the generic list and string lemmas the component theories
  share.

  A Go \<open>string\<close> is a byte sequence and is modelled by \<^typ>\<open>string\<close>, whose characters are
  bytes. A Go \<open>int\<close> is modelled by \<^typ>\<open>int\<close>; where the source converts to a fixed width the
  component theories use \<open>word\<close> types. A nil and an empty slice are both the empty list.
  \<open>ToLower\<close>, \<open>ToUpper\<close> and \<open>EqualFold\<close> are modelled on ASCII: bytes outside the letters are kept, so the
  case folding of non-ASCII runes is not covered. \<open>TrimSpace\<close> covers every rune of Unicode's
  White\_Space property, by its UTF-8 encoding.
\<close>

section \<open>Automation shared by the components\<close>

named_theorems go_string \<open>rewrite rules for the string functions\<close>
named_theorems span_simps \<open>facts on port spans and the ports they cover\<close>
named_theorems rule_simps \<open>facts on egress rules that normalisation and merging keep\<close>

type_synonym span = "int \<times> int"

section \<open>Characters\<close>

definition byte_of :: "char \<Rightarrow> nat" where
  "byte_of c = of_char c"

definition is_digit :: "char \<Rightarrow> bool" where
  "is_digit c \<longleftrightarrow> 48 \<le> byte_of c \<and> byte_of c \<le> 57"

definition is_lower :: "char \<Rightarrow> bool" where
  "is_lower c \<longleftrightarrow> 97 \<le> byte_of c \<and> byte_of c \<le> 122"

definition is_upper :: "char \<Rightarrow> bool" where
  "is_upper c \<longleftrightarrow> 65 \<le> byte_of c \<and> byte_of c \<le> 90"

definition lower_char :: "char \<Rightarrow> char" where
  "lower_char c = (if is_upper c then char_of (byte_of c + 32) else c)"

definition upper_char :: "char \<Rightarrow> char" where
  "upper_char c = (if is_lower c then char_of (byte_of c - 32) else c)"

section \<open>Package strings\<close>

definition ToLower :: "string \<Rightarrow> string" where
  "ToLower s = map lower_char s"

definition ToUpper :: "string \<Rightarrow> string" where
  "ToUpper s = map upper_char s"

definition EqualFold :: "string \<Rightarrow> string \<Rightarrow> bool" where
  "EqualFold s t \<longleftrightarrow> ToLower s = ToLower t"

definition HasPrefix :: "string \<Rightarrow> string \<Rightarrow> bool" where
  "HasPrefix s p \<longleftrightarrow> take (length p) s = p"

definition HasSuffix :: "string \<Rightarrow> string \<Rightarrow> bool" where
  "HasSuffix s p \<longleftrightarrow> HasPrefix (rev s) (rev p)"

definition TrimPrefix :: "string \<Rightarrow> string \<Rightarrow> string" where
  "TrimPrefix s p = (if HasPrefix s p then drop (length p) s else s)"

definition TrimSuffix :: "string \<Rightarrow> string \<Rightarrow> string" where
  "TrimSuffix s p = (if HasSuffix s p then take (length s - length p) s else s)"

text \<open>\<open>Cut\<close> at a one-byte separator: the parts before and after its first occurrence.\<close>

fun cut_byte :: "char \<Rightarrow> string \<Rightarrow> (string \<times> string) option" where
  "cut_byte x [] = None"
| "cut_byte x (c # cs) =
     (if c = x then Some ([], cs)
      else (case cut_byte x cs of None \<Rightarrow> None | Some (l, r) \<Rightarrow> Some (c # l, r)))"

text \<open>\<open>ReplaceAll\<close> of a one-byte pattern.\<close>

definition replace_byte :: "char \<Rightarrow> string \<Rightarrow> string \<Rightarrow> string" where
  "replace_byte x t s = concat (map (\<lambda>c. if c = x then t else [c]) s)"

fun Join :: "string list \<Rightarrow> string \<Rightarrow> string" where
  "Join [] sep = []"
| "Join [s] sep = s"
| "Join (s # ss) sep = s @ sep @ Join ss sep"

text \<open>
  The UTF-8 encodings of the runes \<open>unicode.IsSpace\<close> accepts: the six ASCII ones, U+0085,
  U+00A0, U+1680, U+2000 to U+200A, U+2028, U+2029, U+202F, U+205F and U+3000.
\<close>

definition bytes :: "nat list \<Rightarrow> string" where
  "bytes ns = map char_of ns"

definition space_encodings :: "string list" where
  "space_encodings =
     map (\<lambda>n. bytes [n]) [9, 10, 11, 12, 13, 32] @
     [bytes [194, 133], bytes [194, 160], bytes [225, 154, 128]] @
     map (\<lambda>n. bytes [226, 128, n])
       [128, 129, 130, 131, 132, 133, 134, 135, 136, 137, 138, 168, 169, 175] @
     [bytes [226, 129, 159], bytes [227, 128, 128]]"

fun strip_one :: "string list \<Rightarrow> string \<Rightarrow> string option" where
  "strip_one [] s = None"
| "strip_one (p # ps) s =
     (if p \<noteq> [] \<and> HasPrefix s p then Some (drop (length p) s) else strip_one ps s)"

lemma strip_one_length: "strip_one ps s = Some t \<Longrightarrow> length t < length s"
proof (induction ps s rule: strip_one.induct)
  case (2 p ps s)
  show ?case
  proof (cases "p \<noteq> [] \<and> HasPrefix s p")
    case True
    then have "s \<noteq> []" by (auto simp: HasPrefix_def)
    with True 2(2) show ?thesis by auto
  next
    case False
    then have "strip_one ps s = Some t" using 2(2) by auto
    with False show ?thesis by (rule 2(1))
  qed
qed simp

function strip_all :: "string list \<Rightarrow> string \<Rightarrow> string" where
  "strip_all ps s = (case strip_one ps s of None \<Rightarrow> s | Some t \<Rightarrow> strip_all ps t)"
  by pat_completeness auto
termination
  by (relation "measure (\<lambda>(ps, s). length s)") (auto simp: strip_one_length)

declare strip_all.simps [simp del]

definition TrimSpace :: "string \<Rightarrow> string" where
  "TrimSpace s =
     rev (strip_all (map rev space_encodings) (rev (strip_all space_encodings s)))"

section \<open>Package strconv\<close>

definition digit_char :: "nat \<Rightarrow> char" where
  "digit_char d = char_of (48 + d)"

fun itoa_nat :: "nat \<Rightarrow> string" where
  "itoa_nat n =
     (if n < 10 then [digit_char n] else itoa_nat (n div 10) @ [digit_char (n mod 10)])"

declare itoa_nat.simps [simp del]

definition Itoa :: "int \<Rightarrow> string" where
  "Itoa i = (if i < 0 then CHR ''-'' # itoa_nat (nat (- i)) else itoa_nat (nat i))"

fun digits_val :: "nat \<Rightarrow> string \<Rightarrow> nat option" where
  "digits_val acc [] = Some acc"
| "digits_val acc (c # cs) =
     (if is_digit c then digits_val (acc * 10 + (byte_of c - 48)) cs else None)"

text \<open>
  \<open>Atoi\<close>: an optional sign, then one or more digits; a value outside the 64-bit range is a
  range error. The callers only look at whether there is an error.
\<close>

definition atoi_unsigned :: "string \<Rightarrow> nat option" where
  "atoi_unsigned s = (if s = [] then None else digits_val 0 s)"

definition Atoi :: "string \<Rightarrow> int option" where
  "Atoi s =
     (case s of
        [] \<Rightarrow> None
      | c # cs \<Rightarrow>
          if c = CHR ''-'' then
            (case atoi_unsigned cs of
               Some n \<Rightarrow> if n \<le> 2 ^ 63 then Some (- int n) else None
             | None \<Rightarrow> None)
          else
            (case atoi_unsigned (if c = CHR ''+'' then cs else s) of
               Some n \<Rightarrow> if n < 2 ^ 63 then Some (int n) else None
             | None \<Rightarrow> None))"

section \<open>First-wins deduplication\<close>

text \<open>
  The loop \<open>if seen[key(x)] { continue }; seen[key(x)] = true; out = append(out, x)\<close>: every
  element whose key was not seen before, in input order.
\<close>

fun dedup_by :: "('a \<Rightarrow> 'k) \<Rightarrow> 'k list \<Rightarrow> 'a list \<Rightarrow> 'a list" where
  "dedup_by f seen [] = []"
| "dedup_by f seen (x # xs) =
     (if f x \<in> set seen then dedup_by f seen xs else x # dedup_by f (f x # seen) xs)"

section \<open>Upserts through an index map\<close>

text \<open>
  The pattern \<open>index[key(x)] = i\<close> over a slice, then for each incoming element either
  \<open>out[i] = comb(out[i], p)\<close> or \<open>index[key(p)] = len(out); out = append(out, p)\<close>. A later
  element overwrites the index entry of an earlier one with the same key.
\<close>

fun build_index :: "('a \<Rightarrow> 'k) \<Rightarrow> nat \<Rightarrow> 'a list \<Rightarrow> ('k \<rightharpoonup> nat) \<Rightarrow> ('k \<rightharpoonup> nat)" where
  "build_index key i [] m = m"
| "build_index key i (x # xs) m = build_index key (Suc i) xs (m(key x \<mapsto> i))"

definition upsert ::
  "('a \<Rightarrow> 'k) \<Rightarrow> ('a \<Rightarrow> 'a \<Rightarrow> 'a) \<Rightarrow> ('k \<rightharpoonup> nat) \<times> 'a list \<Rightarrow> 'a \<Rightarrow> ('k \<rightharpoonup> nat) \<times> 'a list" where
  "upsert key comb st p =
     (case st of (index, out) \<Rightarrow>
        (case index (key p) of
           Some i \<Rightarrow> (index, out[i := comb (out ! i) p])
         | None \<Rightarrow> (index(key p \<mapsto> length out), out @ [p])))"

text \<open>The element a key denotes in such a slice: the last one that carries it.\<close>

fun last_with :: "('a \<Rightarrow> 'k) \<Rightarrow> 'k \<Rightarrow> 'a list \<Rightarrow> 'a option" where
  "last_with key k [] = None"
| "last_with key k (x # xs) =
     (case last_with key k xs of
        Some y \<Rightarrow> Some y
      | None \<Rightarrow> if key x = k then Some x else None)"

section \<open>Lemmas\<close>

subsection \<open>Characters and case folding\<close>

lemma byte_of_bound: "byte_of c < 256"
  unfolding byte_of_def by (metis of_char_of nat_of_char_less_256)

lemma byte_of_char_of: "n < 256 \<Longrightarrow> byte_of (char_of n) = n"
  by (simp add: byte_of_def)

lemma lower_char_idem [simp]: "lower_char (lower_char c) = lower_char c"
  by (auto simp: lower_char_def is_upper_def byte_of_char_of)

lemma upper_char_idem [simp]: "upper_char (upper_char c) = upper_char c"
  by (auto simp: upper_char_def is_lower_def byte_of_char_of)

lemma ToLower_idem [simp, go_string]: "ToLower (ToLower s) = ToLower s"
  by (simp add: ToLower_def)

lemma ToUpper_idem [simp, go_string]: "ToUpper (ToUpper s) = ToUpper s"
  by (simp add: ToUpper_def)

lemma length_ToLower [simp]: "length (ToLower s) = length s"
  by (simp add: ToLower_def)

lemma ToUpper_eq_Nil [simp]: "ToUpper s = [] \<longleftrightarrow> s = []"
  by (simp add: ToUpper_def)

subsection \<open>Decimal conversion\<close>

lemma byte_of_digit_char: "d < 10 \<Longrightarrow> byte_of (digit_char d) = 48 + d"
  by (simp add: digit_char_def byte_of_char_of)

lemma digit_char_eval:
  "digit_char 0 = CHR ''0''" "digit_char 1 = CHR ''1''" "digit_char (Suc 0) = CHR ''1''"
  "digit_char 2 = CHR ''2''" "digit_char 3 = CHR ''3''" "digit_char 4 = CHR ''4''"
  "digit_char 5 = CHR ''5''" "digit_char 6 = CHR ''6''" "digit_char 7 = CHR ''7''"
  "digit_char 8 = CHR ''8''" "digit_char 9 = CHR ''9''"
  by code_simp+

lemmas itoa_eval = Itoa_def itoa_nat.simps digit_char_eval

lemma is_digit_digit_char [simp]: "d < 10 \<Longrightarrow> is_digit (digit_char d)"
  by (simp add: is_digit_def byte_of_digit_char)

lemma itoa_nat_digits: "c \<in> set (itoa_nat n) \<Longrightarrow> is_digit c"
proof (induction n rule: itoa_nat.induct)
  case (1 n)
  then show ?case by (auto simp: itoa_nat.simps [of n] split: if_splits)
qed

lemma itoa_nat_not_Nil [simp]: "itoa_nat n \<noteq> []"
  by (subst itoa_nat.simps) simp

lemma digits_val_append:
  "digits_val a (s @ t) = (case digits_val a s of None \<Rightarrow> None | Some v \<Rightarrow> digits_val v t)"
  by (induction a s rule: digits_val.induct) auto

lemma digits_val_itoa: "digits_val 0 (itoa_nat n) = Some n"
proof (induction n rule: itoa_nat.induct)
  case (1 n)
  show ?case
  proof (cases "n < 10")
    case True
    then show ?thesis by (simp add: itoa_nat.simps [of n] byte_of_digit_char)
  next
    case False
    with 1 have "digits_val 0 (itoa_nat (n div 10)) = Some (n div 10)" by simp
    with False show ?thesis
      by (simp add: itoa_nat.simps [of n] digits_val_append byte_of_digit_char)
  qed
qed

lemma itoa_nat_inj: "itoa_nat m = itoa_nat n \<longleftrightarrow> m = n"
  by (metis digits_val_itoa option.inject)

lemma is_digit_no_sign: "is_digit c \<Longrightarrow> c \<noteq> CHR ''-'' \<and> c \<noteq> CHR ''+''"
  by (auto simp: is_digit_def byte_of_def)

lemma Atoi_Itoa: "0 \<le> i \<Longrightarrow> i < 2 ^ 63 \<Longrightarrow> Atoi (Itoa i) = Some i"
proof -
  assume i: "0 \<le> i" "i < 2 ^ 63"
  obtain c cs where s: "itoa_nat (nat i) = c # cs" by (cases "itoa_nat (nat i)") auto
  then have "is_digit c" using itoa_nat_digits [of c "nat i"] by simp
  then have "c \<noteq> CHR ''-''" "c \<noteq> CHR ''+''" using is_digit_no_sign by auto
  moreover have "digits_val 0 (c # cs) = Some (nat i)" using digits_val_itoa [of "nat i"] s by simp
  moreover have "nat i < 2 ^ 63" using i by (simp add: nat_less_iff)
  ultimately show ?thesis
    using i s by (simp add: Atoi_def Itoa_def atoi_unsigned_def)
qed

lemma Itoa_inj: "0 \<le> i \<Longrightarrow> 0 \<le> j \<Longrightarrow> Itoa i = Itoa j \<longleftrightarrow> i = j"
  by (simp add: Itoa_def itoa_nat_inj) linarith

lemma Itoa_digits: "0 \<le> i \<Longrightarrow> c \<in> set (Itoa i) \<Longrightarrow> is_digit c"
  by (simp add: Itoa_def itoa_nat_digits)

lemma Itoa_not_Nil [simp]: "Itoa i \<noteq> []"
  by (simp add: Itoa_def)

subsection \<open>Trimming and cutting\<close>

lemma strip_one_None:
  assumes "s = [] \<or> (\<forall>p \<in> set ps. p \<noteq> [] \<longrightarrow> hd p \<noteq> hd s)"
  shows "strip_one ps s = None"
  using assms
proof (induction ps)
  case (Cons p ps)
  have "\<not> (p \<noteq> [] \<and> HasPrefix s p)"
  proof
    assume a: "p \<noteq> [] \<and> HasPrefix s p"
    then obtain c q where "p = c # q" by (cases p) auto
    with a have "s \<noteq> []" "hd s = hd p" by (cases s; auto simp: HasPrefix_def)+
    with Cons.prems a show False by auto
  qed
  moreover have "strip_one ps s = None" using Cons by auto
  ultimately show ?case by auto
qed simp

lemma strip_all_id: "strip_one ps s = None \<Longrightarrow> strip_all ps s = s"
  by (simp add: strip_all.simps [of ps s])

lemma strip_all_fix: "strip_one ps (strip_all ps s) = None"
proof (induction ps s rule: strip_all.induct)
  case (1 ps s)
  then show ?case
    by (cases "strip_one ps s") (auto simp: strip_all.simps [of ps s])
qed

lemma strip_one_suffix: "strip_one ps s = Some t \<Longrightarrow> \<exists>u. s = u @ t"
  by (induction ps s rule: strip_one.induct)
    (auto split: if_splits intro: append_take_drop_id [symmetric])

lemma strip_all_suffix: "\<exists>u. s = u @ strip_all ps s"
proof (induction ps s rule: strip_all.induct)
  case (1 ps s)
  show ?case
  proof (cases "strip_one ps s")
    case None
    then show ?thesis by (simp add: strip_all_id)
  next
    case (Some t)
    then obtain u where u: "s = u @ t" using strip_one_suffix by blast
    obtain v where "t = v @ strip_all ps t" using 1 Some by blast
    moreover have "strip_all ps s = strip_all ps t"
      using Some by (simp add: strip_all.simps [of ps s])
    ultimately have "s = (u @ v) @ strip_all ps s" using u by simp
    then show ?thesis by blast
  qed
qed

lemma TrimSpace_id:
  assumes "s \<noteq> [] \<Longrightarrow> \<forall>p \<in> set space_encodings. p \<noteq> [] \<longrightarrow> hd p \<noteq> hd s \<and> last p \<noteq> last s"
  shows "TrimSpace s = s"
proof -
  have "strip_one space_encodings s = None" using assms by (intro strip_one_None) auto
  moreover have "strip_one (map rev space_encodings) (rev s) = None"
    using assms by (intro strip_one_None) (auto simp: hd_rev)
  ultimately show ?thesis by (simp add: TrimSpace_def strip_all_id)
qed

definition is_graph :: "char \<Rightarrow> bool" where
  "is_graph c \<longleftrightarrow> 33 \<le> byte_of c \<and> byte_of c \<le> 126"

lemma space_encodings_graph:
  "\<forall>p \<in> set space_encodings. p \<noteq> [] \<and>
     (\<forall>c. is_graph c \<longrightarrow> hd p \<noteq> c \<and> last p \<noteq> c)"
  by (auto simp: space_encodings_def bytes_def is_graph_def byte_of_def)

lemma TrimSpace_graph_ends:
  "s \<noteq> [] \<Longrightarrow> is_graph (hd s) \<Longrightarrow> is_graph (last s) \<Longrightarrow> TrimSpace s = s"
  using space_encodings_graph by (intro TrimSpace_id) fastforce

lemma TrimSpace_Nil [simp]: "TrimSpace [] = []"
  by (rule TrimSpace_id) simp

lemmas char_eval = is_graph_def is_digit_def is_lower_def is_upper_def byte_of_def
  lower_char_def upper_char_def

lemma TrimSpace_digit_ends:
  "s \<noteq> [] \<Longrightarrow> is_digit (hd s) \<Longrightarrow> is_digit (last s) \<Longrightarrow> TrimSpace s = s"
  by (rule TrimSpace_graph_ends) (auto simp: is_digit_def is_graph_def)

lemma TrimSpace_Itoa [simp]: "0 \<le> i \<Longrightarrow> TrimSpace (Itoa i) = Itoa i"
  by (intro TrimSpace_digit_ends) (auto intro: Itoa_digits)

lemma HasPrefix_append: "HasPrefix s p \<longleftrightarrow> (\<exists>t. s = p @ t)"
proof
  assume "HasPrefix s p"
  then have "s = p @ drop (length p) s"
    by (metis HasPrefix_def append_take_drop_id)
  then show "\<exists>t. s = p @ t" ..
qed (auto simp: HasPrefix_def)

lemma HasSuffix_append: "HasSuffix q p \<longleftrightarrow> (\<exists>t. q = t @ p)"
proof -
  have "HasSuffix q p \<longleftrightarrow> (\<exists>t. rev q = rev p @ t)" by (simp add: HasSuffix_def HasPrefix_append)
  also have "\<dots> \<longleftrightarrow> (\<exists>t. q = t @ p)" by (metis rev_append rev_rev_ident)
  finally show ?thesis .
qed

lemma find_append: "find P (xs @ ys) = (case find P xs of None \<Rightarrow> find P ys | Some x \<Rightarrow> Some x)"
  by (induction xs) auto

lemma Join_snoc: "Join (xs @ [s]) sep = (if xs = [] then s else Join xs sep @ sep @ s)"
proof (induction xs)
  case (Cons x xs)
  then show ?case by (cases xs) auto
qed simp

lemma strip_one_chars:
  "strip_one ps s = Some t \<Longrightarrow> set s \<subseteq> set t \<union> \<Union> (set ` set ps)"
  by (induction ps s rule: strip_one.induct) (auto simp: HasPrefix_append split: if_splits)

lemma strip_all_chars: "set s \<subseteq> set (strip_all ps s) \<union> \<Union> (set ` set ps)"
proof (induction ps s rule: strip_all.induct)
  case (1 ps s)
  then show ?case
    using strip_one_chars [of ps s]
    by (cases "strip_one ps s") (fastforce simp: strip_all.simps [of ps s])+
qed

lemma TrimSpace_chars: "set s \<subseteq> set (TrimSpace s) \<union> \<Union> (set ` set space_encodings)"
proof -
  have "set (strip_all space_encodings s) \<subseteq> set (TrimSpace s) \<union> \<Union> (set ` set space_encodings)"
    using strip_all_chars [of "rev (strip_all space_encodings s)" "map rev space_encodings"]
    by (simp add: TrimSpace_def)
  then show ?thesis using strip_all_chars [of s space_encodings] by auto
qed

lemma TrimSpace_graph_char:
  assumes "is_graph c"
  shows "c \<in> set (TrimSpace s) \<longleftrightarrow> c \<in> set s"
proof -
  have "\<forall>p \<in> set space_encodings. c \<notin> set p"
    using assms by (auto simp: space_encodings_def bytes_def is_graph_def byte_of_def)
  moreover have "set (TrimSpace s) \<subseteq> set s"
    using strip_all_suffix [of "rev (strip_all space_encodings s)" "map rev space_encodings"]
      strip_all_suffix [of s space_encodings]
    unfolding TrimSpace_def by (metis set_append set_rev Un_upper2 subset_trans)
  ultimately show ?thesis using TrimSpace_chars [of s] by auto
qed

lemma strip_one_prefix: "strip_one ps (u @ v) = None \<Longrightarrow> strip_one ps u = None"
  by (induction ps) (auto simp: HasPrefix_append split: if_splits)

lemma TrimSpace_prefix: "\<exists>v. strip_all space_encodings s = TrimSpace s @ v"
proof -
  let ?t = "strip_all space_encodings s"
  obtain u where "rev ?t = u @ strip_all (map rev space_encodings) (rev ?t)"
    using strip_all_suffix by blast
  from arg_cong [OF this, of rev] show ?thesis by (auto simp: TrimSpace_def)
qed

lemma TrimSpace_idem [simp, go_string]: "TrimSpace (TrimSpace s) = TrimSpace s"
proof -
  obtain v where "strip_all space_encodings s = TrimSpace s @ v" using TrimSpace_prefix by blast
  then have "strip_one space_encodings (TrimSpace s) = None"
    using strip_all_fix [of space_encodings s] strip_one_prefix by metis
  moreover have "strip_one (map rev space_encodings) (rev (TrimSpace s)) = None"
    by (simp add: TrimSpace_def strip_all_fix)
  ultimately show ?thesis
    by (simp add: TrimSpace_def [of "TrimSpace s"] strip_all_id)
qed

definition caseless :: "string \<Rightarrow> bool" where
  "caseless p \<longleftrightarrow> (\<forall>c \<in> set p. \<not> is_upper c \<and> \<not> is_lower c)"

lemma upper_char_caseless:
  "\<not> is_upper x \<Longrightarrow> \<not> is_lower x \<Longrightarrow> upper_char c = x \<longleftrightarrow> c = x"
  by (auto simp: upper_char_def is_upper_def is_lower_def byte_of_char_of)

lemma HasPrefix_ToUpper: "caseless p \<Longrightarrow> HasPrefix (ToUpper s) p \<longleftrightarrow> HasPrefix s p"
proof (induction p arbitrary: s)
  case (Cons x p)
  then show ?case
    by (cases s) (auto simp: HasPrefix_def ToUpper_def caseless_def upper_char_caseless)
qed (simp add: HasPrefix_def)

lemma strip_one_ToUpper:
  "\<forall>p \<in> set ps. caseless p \<Longrightarrow> strip_one ps (ToUpper s) = map_option ToUpper (strip_one ps s)"
proof (induction ps)
  case (Cons p ps)
  have "drop n (ToUpper s) = ToUpper (drop n s)" for n by (simp add: ToUpper_def drop_map)
  with Cons show ?case by (auto simp: HasPrefix_ToUpper)
qed simp

lemma strip_all_ToUpper:
  "\<forall>p \<in> set ps. caseless p \<Longrightarrow> strip_all ps (ToUpper s) = ToUpper (strip_all ps s)"
proof (induction ps s rule: strip_all.induct)
  case (1 ps s)
  then show ?case
    by (cases "strip_one ps s")
      (auto simp: strip_all.simps [of ps s] strip_all.simps [of ps "ToUpper s"] strip_one_ToUpper)
qed

lemma space_encodings_caseless: "\<forall>p \<in> set space_encodings. caseless p"
  by (auto simp: space_encodings_def bytes_def caseless_def is_upper_def is_lower_def byte_of_def)

lemma TrimSpace_ToUpper [go_string]: "TrimSpace (ToUpper s) = ToUpper (TrimSpace s)"
proof -
  have "\<forall>p \<in> set (map rev space_encodings). caseless p"
    using space_encodings_caseless by (auto simp: caseless_def)
  then show ?thesis
    using space_encodings_caseless
    by (simp add: TrimSpace_def strip_all_ToUpper rev_map [symmetric] ToUpper_def
        flip: strip_all_ToUpper [unfolded ToUpper_def])
qed

lemma cut_byte_None: "cut_byte x s = None \<longleftrightarrow> x \<notin> set s"
  by (induction x s rule: cut_byte.induct) (auto split: option.splits)

lemma cut_byte_absent [simp]: "x \<notin> set s \<Longrightarrow> cut_byte x s = None"
  by (simp add: cut_byte_None)

lemma cut_byte_append: "x \<notin> set l \<Longrightarrow> cut_byte x (l @ x # r) = Some (l, r)"
  by (induction l) auto

lemma cut_byte_Some: "cut_byte x s = Some (l, r) \<Longrightarrow> s = l @ x # r \<and> x \<notin> set l"
  by (induction x s arbitrary: l rule: cut_byte.induct) (auto split: if_splits option.splits)

lemma last_sep_eq:
  fixes a :: string
  assumes "a @ x # p = b @ x # q" "x \<notin> set p" "x \<notin> set q"
  shows "a = b \<and> p = q"
proof -
  have "rev p @ x # rev a = rev q @ x # rev b"
    using arg_cong [OF assms(1), of rev] by simp
  then have "cut_byte x (rev p @ x # rev a) = cut_byte x (rev q @ x # rev b)" by simp
  then show ?thesis using assms(2,3) by (simp add: cut_byte_append)
qed

subsection \<open>Deduplication\<close>

lemma dedup_by_distinct: "distinct (map f (dedup_by f seen xs))"
  and dedup_by_unseen: "f ` set (dedup_by f seen xs) \<inter> set seen = {}"
proof -
  have "distinct (map f (dedup_by f seen xs)) \<and> f ` set (dedup_by f seen xs) \<inter> set seen = {}"
    by (induction f seen xs rule: dedup_by.induct) auto
  then show "distinct (map f (dedup_by f seen xs))"
    "f ` set (dedup_by f seen xs) \<inter> set seen = {}" by auto
qed

lemma dedup_by_subset: "set (dedup_by f seen xs) \<subseteq> set xs"
  by (induction f seen xs rule: dedup_by.induct) auto

lemma dedup_by_keys: "f ` set (dedup_by f seen xs) = f ` set xs - set seen"
  by (induction f seen xs rule: dedup_by.induct) auto

lemma dedup_by_id:
  "distinct (map f xs) \<Longrightarrow> f ` set xs \<inter> set seen = {} \<Longrightarrow> dedup_by f seen xs = xs"
  by (induction f seen xs rule: dedup_by.induct) auto

lemma dedup_by_cong_seen:
  "set seen = set seen' \<Longrightarrow> dedup_by f seen xs = dedup_by f seen' xs"
proof (induction xs arbitrary: seen seen')
  case (Cons x xs)
  have "dedup_by f (f x # seen) xs = dedup_by f (f x # seen') xs"
    by (rule Cons.IH) (simp add: Cons.prems)
  moreover have "dedup_by f seen xs = dedup_by f seen' xs" by (rule Cons.IH [OF Cons.prems])
  moreover have "f x \<in> set seen \<longleftrightarrow> f x \<in> set seen'" by (simp only: Cons.prems)
  ultimately show ?case by simp
qed simp

subsection \<open>Upserts\<close>

definition index_ok :: "('a \<Rightarrow> 'k) \<Rightarrow> ('k \<rightharpoonup> nat) \<Rightarrow> 'a list \<Rightarrow> bool" where
  "index_ok key m xs \<longleftrightarrow>
     (\<forall>k. case m k of
        None \<Rightarrow> k \<notin> key ` set xs
      | Some i \<Rightarrow> i < length xs \<and> key (xs ! i) = k \<and>
          (\<forall>j. i < j \<and> j < length xs \<longrightarrow> key (xs ! j) \<noteq> k))"

lemma index_okI:
  assumes "\<And>k. m k = None \<Longrightarrow> k \<notin> key ` set xs"
    and "\<And>k i. m k = Some i \<Longrightarrow> i < length xs \<and> key (xs ! i) = k \<and>
      (\<forall>j. i < j \<and> j < length xs \<longrightarrow> key (xs ! j) \<noteq> k)"
  shows "index_ok key m xs"
  using assms by (auto simp: index_ok_def split: option.split)

lemma index_ok_Some:
  "index_ok key m xs \<Longrightarrow> m k = Some i \<Longrightarrow> i < length xs \<and> key (xs ! i) = k"
  by (auto simp: index_ok_def dest: spec [of _ k])

lemma index_ok_later:
  "index_ok key m xs \<Longrightarrow> m k = Some i \<Longrightarrow> i < j \<Longrightarrow> j < length xs \<Longrightarrow> key (xs ! j) \<noteq> k"
  unfolding index_ok_def by (drule spec [of _ k]) simp

lemma index_ok_None: "index_ok key m xs \<Longrightarrow> m k = None \<longleftrightarrow> k \<notin> key ` set xs"
proof (cases "m k")
  case (Some i)
  assume "index_ok key m xs"
  from index_ok_Some [OF this Some] show ?thesis using Some by force
qed (auto simp: index_ok_def dest: spec [of _ k])

lemma index_ok_snoc:
  assumes "index_ok key m xs"
  shows "index_ok key (m(key p \<mapsto> length xs)) (xs @ [p])"
proof (rule index_okI, goal_cases)
  case (1 k)
  then show ?case using index_ok_None [OF assms, of k] by (auto split: if_splits)
next
  case (2 k i)
  then show ?case using assms
    by (auto simp: index_ok_def nth_append less_Suc_eq split: if_splits dest!: spec [of _ k])
qed

lemma index_ok_build:
  "index_ok key m ys \<Longrightarrow> index_ok key (build_index key (length ys) xs m) (ys @ xs)"
proof (induction xs arbitrary: m ys)
  case (Cons x xs)
  from Cons.IH [OF index_ok_snoc [OF Cons.prems, of x]] show ?case
    by (simp del: fun_upd_apply)
qed simp

lemma index_ok_build_index: "index_ok key (build_index key 0 xs Map.empty) xs"
  using index_ok_build [of key Map.empty "[]" xs] by (simp add: index_ok_def)

lemma index_ok_update:
  assumes "index_ok key m xs" "m k = Some i" "key y = k"
  shows "index_ok key m (xs[i := y])"
proof -
  have i: "i < length xs" "key (xs ! i) = k" using index_ok_Some [OF assms(1,2)] by auto
  have eq: "map key (xs[i := y]) = map key xs"
    using i assms(3) list_update_id [of "map key xs" i] by (simp add: map_update)
  have "key (xs[i := y] ! j) = key (xs ! j)" if "j < length xs" for j
    using arg_cong [OF eq, of "\<lambda>l. l ! j"] that by simp
  moreover have "key ` set (xs[i := y]) = key ` set xs"
    using arg_cong [OF eq, of set] by simp
  ultimately show ?thesis
    using assms(1) by (fastforce simp: index_ok_def split: option.splits)
qed

lemma last_with_None: "last_with key k xs = None \<longleftrightarrow> k \<notin> key ` set xs"
  by (induction xs) (auto split: option.splits)

lemma last_with_Some: "last_with key k xs = Some x \<Longrightarrow> x \<in> set xs \<and> key x = k"
  by (induction xs) (auto split: option.splits if_splits)

lemma last_with_snoc:
  "last_with key k (xs @ [p]) = (if key p = k then Some p else last_with key k xs)"
  by (induction xs) (auto split: option.splits)

lemma last_with_append:
  "last_with key k (xs @ ys) =
     (case last_with key k ys of Some y \<Rightarrow> Some y | None \<Rightarrow> last_with key k xs)"
  by (induction xs) (auto split: option.splits)

lemma last_with_nth:
  assumes "i < length xs" "key (xs ! i) = k" "\<forall>j. i < j \<and> j < length xs \<longrightarrow> key (xs ! j) \<noteq> k"
  shows "last_with key k xs = Some (xs ! i)"
proof -
  have "last_with key k (drop (Suc i) xs) = None"
  proof -
    have "key y \<noteq> k" if y: "y \<in> set (drop (Suc i) xs)" for y
    proof -
      obtain n where "n < length xs - Suc i" "y = xs ! (Suc i + n)"
        using y by (auto simp: in_set_conv_nth)
      then show ?thesis using assms(3) by simp
    qed
    then show ?thesis by (auto simp: last_with_None)
  qed
  then have "last_with key k (xs ! i # drop (Suc i) xs) = Some (xs ! i)" using assms(2) by simp
  then show ?thesis
    using id_take_nth_drop [OF assms(1)] last_with_append [of key k "take i xs"]
    by (metis option.simps(5))
qed

lemma last_with_index:
  "index_ok key m xs \<Longrightarrow> last_with key k xs = map_option ((!) xs) (m k)"
proof (cases "m k")
  case None
  assume "index_ok key m xs"
  with None show ?thesis using index_ok_None [of key m xs k] by (auto simp: last_with_None)
next
  case (Some i)
  assume ok: "index_ok key m xs"
  have "last_with key k xs = Some (xs ! i)"
    using index_ok_Some [OF ok Some] index_ok_later [OF ok Some] by (intro last_with_nth) auto
  with Some show ?thesis by simp
qed

lemma last_with_distinct:
  assumes "distinct (map key xs)" "x \<in> set xs"
  shows "last_with key (key x) xs = Some x"
  using assms
proof (induction xs)
  case (Cons y xs)
  show ?case
  proof (cases "x = y")
    case True
    with Cons.prems have "last_with key (key x) xs = None" by (auto simp: last_with_None)
    with True show ?thesis by simp
  next
    case False
    with Cons show ?thesis by auto
  qed
qed simp

text \<open>
  Interface of an upsert whose combination keeps the key: every fold over \<open>upsert\<close> is
  described by what each key denotes afterwards.
\<close>

locale keyed_upsert =
  fixes key :: "'a \<Rightarrow> 'k"
    and comb :: "'a \<Rightarrow> 'a \<Rightarrow> 'a"
  assumes key_comb: "key x = key y \<Longrightarrow> key (comb x y) = key x"
begin

lemma upsert_ok:
  assumes "index_ok key m xs"
  shows "index_ok key (fst (upsert key comb (m, xs) p)) (snd (upsert key comb (m, xs) p))"
proof (cases "m (key p)")
  case None
  then show ?thesis using index_ok_snoc [OF assms] by (simp add: upsert_def)
next
  case (Some i)
  then have "key (comb (xs ! i) p) = key p"
    using key_comb index_ok_Some [OF assms Some] by simp
  then show ?thesis using index_ok_update [OF assms Some] Some by (simp add: upsert_def)
qed

lemma upsert_lookup:
  assumes "index_ok key m xs"
  shows "last_with key k (snd (upsert key comb (m, xs) p)) =
    (if k = key p
     then Some (case last_with key k xs of None \<Rightarrow> p | Some x \<Rightarrow> comb x p)
     else last_with key k xs)"
proof (cases "m (key p)")
  case None
  then have "last_with key (key p) xs = None"
    using index_ok_None [OF assms, of "key p"] by (simp add: last_with_None)
  with None show ?thesis by (auto simp: upsert_def last_with_snoc)
next
  case (Some i)
  have "i < length xs" "key (xs ! i) = key p" using index_ok_Some [OF assms Some] by auto
  moreover have "j \<noteq> i" if "m k = Some j" "k \<noteq> key p" for j
    using index_ok_Some [OF assms that(1)] calculation that(2) by auto
  ultimately show ?thesis
    using last_with_index [OF assms, of k] last_with_index [OF upsert_ok [OF assms, of p], of k] Some
    by (cases "m k") (auto simp: upsert_def nth_list_update)
qed

lemma upsert_keys:
  assumes "index_ok key m xs"
  shows "map key (snd (upsert key comb (m, xs) p)) =
    map key xs @ (if key p \<in> key ` set xs then [] else [key p])"
proof (cases "m (key p)")
  case None
  then show ?thesis using index_ok_None [OF assms, of "key p"] by (auto simp: upsert_def)
next
  case (Some i)
  then have "i < length xs" "key (xs ! i) = key p" "key p \<in> key ` set xs"
    using index_ok_Some [OF assms Some] index_ok_None [OF assms, of "key p"] by auto
  then show ?thesis
    using Some key_comb list_update_id [of "map key xs" i] by (simp add: upsert_def map_update)
qed

lemma upserts_ok:
  "index_ok key m xs \<Longrightarrow>
   index_ok key (fst (foldl (upsert key comb) (m, xs) ps)) (snd (foldl (upsert key comb) (m, xs) ps))"
proof (induction ps arbitrary: m xs)
  case (Cons p ps)
  obtain m' xs' where u: "upsert key comb (m, xs) p = (m', xs')" by fastforce
  have "index_ok key m' xs'" using upsert_ok [OF Cons.prems, of p] u by simp
  from Cons.IH [OF this] show ?case using u by simp
qed simp

lemma upserts_lookup:
  assumes "index_ok key m xs"
  shows "last_with key k (snd (foldl (upsert key comb) (m, xs) ps)) =
    foldl (\<lambda>r p. Some (case r of None \<Rightarrow> p | Some x \<Rightarrow> comb x p)) (last_with key k xs)
      (filter (\<lambda>p. key p = k) ps)"
  using assms
proof (induction ps arbitrary: m xs)
  case (Cons p ps)
  obtain m' xs' where u: "upsert key comb (m, xs) p = (m', xs')" by fastforce
  have "index_ok key m' xs'" using upsert_ok [OF Cons.prems, of p] u by simp
  from Cons.IH [OF this] show ?case
    using u upsert_lookup [OF Cons.prems, of k p] by auto
qed simp

lemma upserts_prefix:
  assumes "index_ok key m xs"
  shows "\<exists>new. map key (snd (foldl (upsert key comb) (m, xs) ps)) = map key xs @ new \<and>
    distinct new \<and> set new = key ` set ps - key ` set xs"
  using assms
proof (induction ps arbitrary: m xs)
  case (Cons p ps)
  obtain m' xs' where u: "upsert key comb (m, xs) p = (m', xs')" by fastforce
  have "index_ok key m' xs'" using upsert_ok [OF Cons.prems, of p] u by simp
  from Cons.IH [OF this] obtain new where
    new: "map key (snd (foldl (upsert key comb) (m', xs') ps)) = map key xs' @ new"
      "distinct new" "set new = key ` set ps - key ` set xs'" by blast
  have ks: "map key xs' = map key xs @ (if key p \<in> key ` set xs then [] else [key p])"
    using upsert_keys [OF Cons.prems, of p] u by simp
  from arg_cong [OF this, of set] have
    "key ` set xs' = key ` set xs \<union> (if key p \<in> key ` set xs then {} else {key p})" by simp
  then show ?case using new ks u
    by (intro exI [of _ "(if key p \<in> key ` set xs then [] else [key p]) @ new"]) auto
qed simp

end

end
