(* ===== verification/Go_Net.thy ===== *)
theory Go_Net
  imports Go_Prelude
begin

text \<open>
  Package \<open>net\<close> as the firewall uses it: \<open>ParseIP\<close>, \<open>ParseCIDR\<close> and \<open>IP.To4\<close>, on
  addresses that are lists of sixteen bytes. The parsers follow \<open>net/netip.ParseAddr\<close>, its
  IPv4 field scanner and its IPv6 loop. An address with a zone is rejected by both \<open>net\<close>
  functions, so a percent sign makes parsing fail at once.
\<close>

section \<open>IPv4\<close>

text \<open>
  \<open>ipv4_scan val fields digLen prev s\<close>: the value of the octet being read, the octets already
  read, its number of digits, the byte before \<open>s\<close>, and what is left.
\<close>

fun ipv4_scan :: "nat \<Rightarrow> nat list \<Rightarrow> nat \<Rightarrow> char option \<Rightarrow> string \<Rightarrow> nat list option" where
  "ipv4_scan val fields digLen prev [] =
     (if length fields < 3 then None else Some (fields @ [val]))"
| "ipv4_scan val fields digLen prev (c # cs) =
     (if is_digit c then
        (if digLen = 1 \<and> val = 0 then None
         else let v = val * 10 + (byte_of c - 48) in
           if v > 255 then None else ipv4_scan v fields (Suc digLen) (Some c) cs)
      else if c = CHR ''.'' then
        (if prev = None \<or> cs = [] \<or> prev = Some (CHR ''.'') then None
         else if length fields = 3 then None
         else ipv4_scan 0 (fields @ [val]) 0 (Some c) cs)
      else None)"

definition parseIPv4Fields :: "string \<Rightarrow> nat list option" where
  "parseIPv4Fields s = ipv4_scan 0 [] 0 None s"

section \<open>IPv6\<close>

definition hex_val :: "char \<Rightarrow> nat option" where
  "hex_val c =
     (if is_digit c then Some (byte_of c - 48)
      else if 97 \<le> byte_of c \<and> byte_of c \<le> 102 then Some (byte_of c - 87)
      else if 65 \<le> byte_of c \<and> byte_of c \<le> 70 then Some (byte_of c - 55)
      else None)"

fun hex_run :: "nat \<Rightarrow> nat \<Rightarrow> string \<Rightarrow> (nat \<times> nat \<times> string) option" where
  "hex_run off acc [] = Some (off, acc, [])"
| "hex_run off acc (c # cs) =
     (case hex_val c of
        None \<Rightarrow> Some (off, acc, c # cs)
      | Some d \<Rightarrow> if off > 3 then None else hex_run (Suc off) (acc * 16 + d) cs)"

text \<open>
  The loop over colon-separated groups: the bytes written so far, the position of the
  ellipsis, the rest of the input. It ends with what it read and what it left unread.
\<close>

function ipv6_loop ::
  "nat list \<Rightarrow> nat option \<Rightarrow> string \<Rightarrow> (nat list \<times> nat option \<times> string) option" where
  "ipv6_loop ip ell s =
     (if length ip \<ge> 16 then Some (ip, ell, s)
      else
        (case hex_run 0 0 s of
           None \<Rightarrow> None
         | Some (off, acc, rest) \<Rightarrow>
             if off = 0 then None
             else if rest \<noteq> [] \<and> hd rest = CHR ''.'' then
               (if ell = None \<and> length ip \<noteq> 12 then None
                else if length ip + 4 > 16 then None
                else (case parseIPv4Fields s of
                        None \<Rightarrow> None
                      | Some f \<Rightarrow> Some (ip @ f, ell, [])))
             else
               (let ip' = ip @ [acc div 256, acc mod 256] in
                if rest = [] then Some (ip', ell, [])
                else if hd rest \<noteq> CHR '':'' then None
                else if tl rest = [] then None
                else
                  (let s1 = tl rest in
                   if hd s1 = CHR '':'' then
                     (if ell \<noteq> None then None
                      else if tl s1 = [] then Some (ip', Some (length ip'), [])
                      else ipv6_loop ip' (Some (length ip')) (tl s1))
                   else ipv6_loop ip' ell s1))))"
  by pat_completeness auto
termination
  by (relation "measure (\<lambda>(ip, ell, s). 16 - length ip)") auto

declare ipv6_loop.simps [simp del]

definition parseIPv6 :: "string \<Rightarrow> nat list option" where
  "parseIPv6 s0 =
     (if CHR ''%'' \<in> set s0 then None
      else
        (let lead = HasPrefix s0 ''::''; s = (if lead then drop 2 s0 else s0) in
         if lead \<and> s = [] then Some (replicate 16 0)
         else
           (case ipv6_loop [] (if lead then Some 0 else None) s of
              None \<Rightarrow> None
            | Some (ip, ell, rest) \<Rightarrow>
                if rest \<noteq> [] then None
                else if length ip < 16 then
                  (case ell of
                     None \<Rightarrow> None
                   | Some e \<Rightarrow> Some (take e ip @ replicate (16 - length ip) 0 @ drop e ip))
                else if ell \<noteq> None then None
                else Some ip)))"

section \<open>net.ParseIP, net.ParseCIDR and IP.To4\<close>

datatype ip_addr = V4 "nat list" | V6 "nat list"

fun ParseAddr_at :: "string \<Rightarrow> string \<Rightarrow> ip_addr option" where
  "ParseAddr_at s [] = None"
| "ParseAddr_at s (c # cs) =
     (if c = CHR ''.'' then map_option V4 (parseIPv4Fields s)
      else if c = CHR '':'' then map_option V6 (parseIPv6 s)
      else if c = CHR ''%'' then None
      else ParseAddr_at s cs)"

definition ParseAddr :: "string \<Rightarrow> ip_addr option" where
  "ParseAddr s = ParseAddr_at s s"

fun As16 :: "ip_addr \<Rightarrow> nat list" where
  "As16 (V4 b) = replicate 10 0 @ [255, 255] @ b"
| "As16 (V6 b) = b"

fun addr_bytes :: "ip_addr \<Rightarrow> nat list" where
  "addr_bytes (V4 b) = b"
| "addr_bytes (V6 b) = b"

fun BitLen :: "ip_addr \<Rightarrow> nat" where
  "BitLen (V4 b) = 32"
| "BitLen (V6 b) = 128"

definition ParseIP :: "string \<Rightarrow> nat list option" where
  "ParseIP s = map_option As16 (ParseAddr s)"

text \<open>\<open>netip.ParseAddr\<close> keeps the zone of a v6 address.\<close>

fun netip_ParseAddr_at :: "string \<Rightarrow> string \<Rightarrow> (ip_addr \<times> string) option" where
  "netip_ParseAddr_at s [] = None"
| "netip_ParseAddr_at s (c # cs) =
     (if c = CHR ''.'' then map_option (\<lambda>b. (V4 b, [])) (parseIPv4Fields s)
      else if c = CHR '':'' then
        (case cut_byte (CHR ''%'') s of
           None \<Rightarrow> map_option (\<lambda>b. (V6 b, [])) (parseIPv6 s)
         | Some (a, zone) \<Rightarrow> if zone = [] then None else map_option (\<lambda>b. (V6 b, zone)) (parseIPv6 a))
      else if c = CHR ''%'' then None
      else netip_ParseAddr_at s cs)"

definition netip_ParseAddr :: "string \<Rightarrow> (ip_addr \<times> string) option" where
  "netip_ParseAddr s = netip_ParseAddr_at s s"

text \<open>\<open>To4\<close> of a \<open>net.IP\<close>, a byte slice or nil.\<close>

definition To4 :: "nat list option \<Rightarrow> nat list option" where
  "To4 ip =
     (case ip of
        None \<Rightarrow> None
      | Some b \<Rightarrow>
          if length b = 4 then Some b
          else if length b = 16 \<and> take 12 b = replicate 10 0 @ [255, 255] then Some (drop 12 b)
          else None)"

text \<open>\<open>IP.String\<close>: dotted decimal, or hexadecimal groups with the first longest run of zeros elided.\<close>

definition hex_digit :: "nat \<Rightarrow> char" where
  "hex_digit n = ''0123456789abcdef'' ! (n mod 16)"

fun hex_nat :: "nat \<Rightarrow> string" where
  "hex_nat n = (if n < 16 then [hex_digit n] else hex_nat (n div 16) @ [hex_digit n])"

declare hex_nat.simps [simp del]

fun groups16 :: "nat list \<Rightarrow> nat list" where
  "groups16 (a # b # bs) = (a * 256 + b) # groups16 bs"
| "groups16 _ = []"

text \<open>The first of the longest runs of at least two zero groups: its start and length.\<close>

definition zero_run :: "nat list \<Rightarrow> nat \<times> nat" where
  "zero_run gs =
     foldl (\<lambda>(s, l) i. let n = length (takeWhile (\<lambda>g. g = 0) (drop i gs))
                       in if n \<ge> 2 \<and> n > l then (i, n) else (s, l)) (0, 0) [0..<length gs]"

definition ipv6_string :: "nat list \<Rightarrow> string" where
  "ipv6_string b =
     (let gs = groups16 b; (s, l) = zero_run gs in
      if l = 0 then Join (map hex_nat gs) '':''
      else Join (map hex_nat (take s gs)) '':'' @ ''::'' @ Join (map hex_nat (drop (s + l) gs)) '':'')"

definition IP_String :: "nat list \<Rightarrow> string" where
  "IP_String b =
     (case To4 (Some b) of
        Some v4 \<Rightarrow> Join (map (\<lambda>x. Itoa (int x)) v4) ''.''
      | None \<Rightarrow> ipv6_string b)"

text \<open>\<open>dtoi\<close>: the decimal value of the leading digits and what follows them.\<close>

fun dtoi_run :: "nat \<Rightarrow> string \<Rightarrow> (nat \<times> string) option" where
  "dtoi_run n [] = Some (n, [])"
| "dtoi_run n (c # cs) =
     (if is_digit c then
        (let m = n * 10 + (byte_of c - 48) in
         if m \<ge> 16777215 then None else dtoi_run m cs)
      else Some (n, c # cs))"

definition ParseCIDR :: "string \<Rightarrow> (ip_addr \<times> nat) option" where
  "ParseCIDR s =
     (case cut_byte (CHR ''/'') s of
        None \<Rightarrow> None
      | Some (addr, msk) \<Rightarrow>
          (case ParseAddr addr of
             None \<Rightarrow> None
           | Some a \<Rightarrow>
               if msk = [] \<or> \<not> is_digit (hd msk) then None
               else (case dtoi_run 0 msk of
                       None \<Rightarrow> None
                     | Some (n, rest) \<Rightarrow>
                         if rest \<noteq> [] \<or> n > BitLen a then None else Some (a, n))))"

section \<open>Well-formedness of what the parsers return\<close>

lemma ipv4_scan_fields:
  assumes "ipv4_scan val fields digLen prev s = Some bs" "length fields \<le> 3"
    "val < 256" "\<forall>b \<in> set fields. b < 256"
  shows "length bs = 4 \<and> (\<forall>b \<in> set bs. b < 256)"
  using assms
proof (induction val fields digLen prev s rule: ipv4_scan.induct)
  case (2 val fields digLen prev c cs)
  show ?case
  proof (cases "is_digit c")
    case True
    let ?v = "val * 10 + (byte_of c - 48)"
    from True "2.prems"(1) have lead: "\<not> (digLen = 1 \<and> val = 0)" and v: "\<not> ?v > 255"
      and next_scan: "ipv4_scan ?v fields (Suc digLen) (Some c) cs = Some bs"
      by (simp_all add: Let_def split: if_split_asm)
    from v have "?v < 256" by simp
    then show ?thesis
      using "2.IH"(1) [OF True lead refl v next_scan "2.prems"(2) _ "2.prems"(4)] by simp
  next
    case False
    with "2.prems"(1) have c: "c = CHR ''.''"
      and prev: "\<not> (prev = None \<or> cs = [] \<or> prev = Some (CHR ''.''))"
      and len: "length fields \<noteq> 3"
      and next_scan: "ipv4_scan 0 (fields @ [val]) 0 (Some c) cs = Some bs"
      by (simp_all split: if_split_asm)
    show ?thesis
      using "2.IH"(2) [OF False c prev len next_scan] len "2.prems"(2-4) by auto
  qed
qed (auto split: if_splits)

lemma parseIPv4Fields_length: "parseIPv4Fields s = Some bs \<Longrightarrow> length bs = 4"
  using ipv4_scan_fields [of 0 "[]" 0 None s bs] by (simp add: parseIPv4Fields_def)

lemma ipv6_loop_length:
  assumes "ipv6_loop ip ell s = Some (ip', ell', rest)" "length ip \<le> 16" "even (length ip)"
    "case ell of None \<Rightarrow> True | Some e \<Rightarrow> e \<le> length ip"
  shows "length ip' \<le> 16 \<and> (case ell' of None \<Rightarrow> True | Some e \<Rightarrow> e \<le> length ip')"
  using assms
proof (induction ip ell s rule: ipv6_loop.induct)
  case (1 ip ell s)
  show ?case
  proof (cases "length ip \<ge> 16")
    case True
    with "1.prems" show ?thesis by (auto simp: ipv6_loop.simps [of ip ell s])
  next
    case False
    then have small: "length ip \<le> 14" using "1.prems"(3) by presburger
    from False "1.prems"(1) obtain off acc rst where run: "hex_run 0 0 s = Some (off, acc, rst)"
      by (auto simp: ipv6_loop.simps [of ip ell s] split: option.splits)
    with False "1.prems"(1) have off: "off \<noteq> 0"
      by (cases "off = 0") (simp_all add: ipv6_loop.simps [of ip ell s])
    show ?thesis
    proof (cases "rst \<noteq> [] \<and> hd rst = CHR ''.''")
      case True
      with False "1.prems" run off show ?thesis
        by (auto simp: ipv6_loop.simps [of ip ell s] split: if_splits option.splits
            dest: parseIPv4Fields_length)
    next
      case dot: False
      let ?ip = "ip @ [acc div 256, acc mod 256]"
      note IH = "1.IH" [OF False run refl refl off dot refl]
      show ?thesis
      proof (cases "rst = []")
        case True
        with False "1.prems" run off small show ?thesis
          by (auto simp: ipv6_loop.simps [of ip ell s] Let_def split: option.splits)
      next
        case rst: False
        with False "1.prems"(1) run off dot have colon: "hd rst = CHR '':''" "tl rst \<noteq> []"
          by (auto simp: ipv6_loop.simps [of ip ell s] Let_def split: if_splits)
        show ?thesis
        proof (cases "hd (tl rst) = CHR '':''")
          case True
          with False "1.prems" run off dot rst colon small IH(1) show ?thesis
            by (auto simp: ipv6_loop.simps [of ip ell s] Let_def split: if_splits)
        next
          case False
          with \<open>\<not> length ip \<ge> 16\<close> "1.prems" run off dot rst colon small IH(2)
          show ?thesis
            by (auto simp: ipv6_loop.simps [of ip ell s] Let_def split: if_splits option.splits)
        qed
      qed
    qed
  qed
qed

lemma parseIPv6_length: "parseIPv6 s = Some bs \<Longrightarrow> length bs = 16"
  using ipv6_loop_length [of "[]" "Some 0" "drop 2 s"] ipv6_loop_length [of "[]" None s]
  by (fastforce simp: parseIPv6_def Let_def split: if_splits option.splits)

lemma ParseIP_length: "ParseIP s = Some bs \<Longrightarrow> length bs = 16"
proof -
  have "ParseAddr_at s t = Some a \<Longrightarrow> length (As16 a) = 16" for t a
    by (induction s t rule: ParseAddr_at.induct)
      (auto split: if_splits dest: parseIPv4Fields_length parseIPv6_length)
  then show "ParseIP s = Some bs \<Longrightarrow> length bs = 16"
    by (auto simp: ParseIP_def ParseAddr_def)
qed

lemma To4_length: "To4 ip = Some b \<Longrightarrow> length b = 4"
  by (auto simp: To4_def split: option.splits if_splits)

end
