(* ===== verification/Egress_Config.thy ===== *)
theory Egress_Config
  imports Go_Prelude
begin

text \<open>
  The egress-rule data model and its port specification: \<open>EgressRule\<close> and \<open>PathRule\<close> of
  \<open>internal/config/schema.go\<close>, the port parser of \<open>internal/config/egress_port.go\<close>, and the
  wire mapping with the shared rule semantics of \<open>api/admin/v1/conversion.go\<close>.

  The formatted error texts are values of error datatypes, one constructor per message with
  the values it prints.
\<close>

section \<open>Interface: a codec\<close>

text \<open>
  A printer and a parser that agree on the valid values. Port specifications, wire messages
  and packed addresses are instances; the client lemmas are proved once here.
\<close>

locale codec =
  fixes enc :: "'a \<Rightarrow> 'b"
    and dec :: "'b \<Rightarrow> 'a option"
    and valid :: "'a \<Rightarrow> bool"
  assumes dec_enc: "valid x \<Longrightarrow> dec (enc x) = Some x"
begin

lemma enc_inj: "valid x \<Longrightarrow> valid y \<Longrightarrow> enc x = enc y \<longleftrightarrow> x = y"
  by (metis dec_enc option.inject)

lemma map_enc_distinct: "\<forall>x \<in> set xs. valid x \<Longrightarrow> distinct (map enc xs) \<longleftrightarrow> distinct xs"
  by (auto simp: distinct_map inj_on_def enc_inj)

end

section \<open>Rules\<close>

record PathRule =
  Path :: string
  PathAction :: string
  Methods :: "string list"

record EgressRule =
  Dst :: string
  Proto :: string
  Port :: string
  Action :: string
  PathRules :: "PathRule list"
  PathDefault :: string
  InsecureSkipTLSVerify :: bool

section \<open>Port specifications\<close>

definition maxPort :: int where
  "maxPort = 65535"

datatype port_num_error = ExpectedLoHi | NotANumber | OutOfRange int

datatype port_spec_error =
    LowPort string port_num_error
  | HighPort string port_num_error
  | NotOrdered string int int
  | BadPort string port_num_error

definition parsePortNumber :: "string \<Rightarrow> port_num_error + int" where
  "parsePortNumber s =
     (if s = [] then Inl ExpectedLoHi
      else (case Atoi s of
              None \<Rightarrow> Inl NotANumber
            | Some p \<Rightarrow> if p < 1 \<or> p > maxPort then Inl (OutOfRange maxPort) else Inr p))"

text \<open>The result \<open>(lo, hi, set)\<close>, or the error.\<close>

definition ParsePortSpec :: "string \<Rightarrow> port_spec_error + (int \<times> int \<times> bool)" where
  "ParsePortSpec s0 =
     (let s = TrimSpace s0 in
      if s = [] then Inr (0, 0, False)
      else
        (case cut_byte (CHR ''-'') s of
           Some (left, right) \<Rightarrow>
             (case parsePortNumber (TrimSpace left) of
                Inl e \<Rightarrow> Inl (LowPort s e)
              | Inr lo \<Rightarrow>
                  (case parsePortNumber (TrimSpace right) of
                     Inl e \<Rightarrow> Inl (HighPort s e)
                   | Inr hi \<Rightarrow> if lo > hi then Inl (NotOrdered s lo hi) else Inr (lo, hi, True)))
         | None \<Rightarrow>
             (case parsePortNumber s of
                Inl e \<Rightarrow> Inl (BadPort s e)
              | Inr p \<Rightarrow> Inr (p, p, True))))"

definition ValidatePortSpec :: "EgressRule \<Rightarrow> port_spec_error option" where
  "ValidatePortSpec r = (case ParsePortSpec (Port r) of Inl e \<Rightarrow> Some e | Inr _ \<Rightarrow> None)"

definition PortSpan :: "EgressRule \<Rightarrow> (int \<times> int) option" where
  "PortSpan r =
     (case ParsePortSpec (Port r) of
        Inl e \<Rightarrow> None
      | Inr (lo, hi, isset) \<Rightarrow> if \<not> isset then None else Some (lo, hi))"

definition SinglePort :: "EgressRule \<Rightarrow> int option" where
  "SinglePort r =
     (case PortSpan r of
        None \<Rightarrow> None
      | Some (lo, hi) \<Rightarrow> if lo \<noteq> hi then None else Some lo)"

section \<open>Wire messages and shared rule semantics\<close>

record PbPathRule =
  PbPath :: string
  PbPathAction :: string
  PbMethods :: "string list"

record PbEgressRule =
  PbDst :: string
  PbProto :: string
  PbPort :: string
  PbAction :: string
  PbPathRules :: "PbPathRule list"
  PbPathDefault :: string

definition EgressRuleToProto :: "EgressRule \<Rightarrow> PbEgressRule" where
  "EgressRuleToProto r =
     \<lparr>PbDst = Dst r, PbProto = Proto r, PbPort = Port r, PbAction = Action r,
      PbPathRules =
        map (\<lambda>p. \<lparr>PbPath = Path p, PbPathAction = PathAction p, PbMethods = Methods p\<rparr>)
          (PathRules r),
      PbPathDefault = PathDefault r\<rparr>"

definition EgressRuleFromProto :: "PbEgressRule \<Rightarrow> EgressRule" where
  "EgressRuleFromProto r =
     \<lparr>Dst = PbDst r, Proto = PbProto r, Port = PbPort r, Action = PbAction r,
      PathRules =
        map (\<lambda>p. \<lparr>Path = PbPath p, PathAction = PbPathAction p, Methods = PbMethods p\<rparr>)
          (PbPathRules r),
      PathDefault = PbPathDefault r, InsecureSkipTLSVerify = False\<rparr>"

definition EgressRulesToProto :: "EgressRule list \<Rightarrow> PbEgressRule list" where
  "EgressRulesToProto rs = map EgressRuleToProto rs"

definition EgressRulesFromProto :: "PbEgressRule list \<Rightarrow> EgressRule list" where
  "EgressRulesFromProto rs = map EgressRuleFromProto rs"

definition IsHTTPFamilyProto :: "string \<Rightarrow> bool" where
  "IsHTTPFamilyProto proto \<longleftrightarrow>
     ToLower proto \<in> set [''http'', ''https'', ''ws'', ''wss'']"

definition EffectivePathDefault :: "EgressRule \<Rightarrow> string" where
  "EffectivePathDefault r =
     (if PathDefault r \<noteq> [] then PathDefault r
      else if \<exists>pr \<in> set (PathRules r). EqualFold (PathAction pr) ''allow'' then ''deny''
      else ''allow'')"

section \<open>Port specifications: soundness\<close>

lemma parsePortNumber_range: "parsePortNumber s = Inr p \<Longrightarrow> 1 \<le> p \<and> p \<le> 65535"
  by (auto simp: parsePortNumber_def maxPort_def split: if_splits option.splits)

lemma parsePortNumber_Itoa: "1 \<le> p \<Longrightarrow> p \<le> 65535 \<Longrightarrow> parsePortNumber (Itoa p) = Inr p"
  using Atoi_Itoa [of p] by (simp add: parsePortNumber_def maxPort_def)

lemma ParsePortSpec_set_range:
  "ParsePortSpec s = Inr (lo, hi, True) \<Longrightarrow> 1 \<le> lo \<and> lo \<le> hi \<and> hi \<le> 65535"
  by (auto simp: ParsePortSpec_def Let_def split: if_splits option.splits sum.splits
      dest: parsePortNumber_range)

lemma ParsePortSpec_unset:
  "ParsePortSpec s = Inr (lo, hi, False) \<longleftrightarrow> TrimSpace s = [] \<and> lo = 0 \<and> hi = 0"
  by (auto simp: ParsePortSpec_def Let_def split: if_splits option.splits sum.splits)

lemma digits_val_digits: "digits_val a s = Some v \<Longrightarrow> c \<in> set s \<Longrightarrow> is_digit c"
  by (induction a s rule: digits_val.induct) (auto split: if_splits)

lemma Atoi_chars:
  "Atoi s = Some v \<Longrightarrow> c \<in> set s \<Longrightarrow> is_digit c \<or> c = CHR ''-'' \<or> c = CHR ''+''"
  by (auto simp: Atoi_def atoi_unsigned_def split: list.splits if_splits option.splits
      dest: digits_val_digits)

lemma parsePortNumber_no_colon: "parsePortNumber s = Inr p \<Longrightarrow> CHR '':'' \<notin> set s"
  using Atoi_chars [of s _ "CHR '':''"]
  by (auto simp: parsePortNumber_def is_digit_def byte_of_def split: if_splits option.splits)

lemma ParsePortSpec_no_colon:
  assumes "ParsePortSpec s = Inr v"
  shows "CHR '':'' \<notin> set s"
proof -
  have g: "is_graph (CHR '':'')" by (simp add: is_graph_def byte_of_def)
  have "CHR '':'' \<notin> set (TrimSpace s)"
  proof (cases "cut_byte (CHR ''-'') (TrimSpace s)")
    case None
    then show ?thesis
      using assms by (auto simp: ParsePortSpec_def Let_def split: if_splits sum.splits
          dest: parsePortNumber_no_colon)
  next
    case (Some lr)
    obtain l r where lr: "lr = (l, r)" by (cases lr)
    have "TrimSpace s = l @ CHR ''-'' # r" using cut_byte_Some Some lr by blast
    moreover have "CHR '':'' \<notin> set (TrimSpace l)" "CHR '':'' \<notin> set (TrimSpace r)"
      using assms Some lr
      by (auto simp: ParsePortSpec_def Let_def split: if_splits sum.splits
          dest: parsePortNumber_no_colon)
    ultimately show ?thesis by (simp add: TrimSpace_graph_char [OF g])
  qed
  then show ?thesis by (simp add: TrimSpace_graph_char [OF g])
qed

lemma PortSpan_range [span_simps]:
  "PortSpan r = Some (lo, hi) \<Longrightarrow> 1 \<le> lo \<and> lo \<le> hi \<and> hi \<le> 65535"
  by (auto simp: PortSpan_def split: sum.splits if_splits dest: ParsePortSpec_set_range)

lemma SinglePort_iff: "SinglePort r = Some p \<longleftrightarrow> PortSpan r = Some (p, p)"
  by (auto simp: SinglePort_def split: option.splits)

lemma PortSpan_cong: "Port r = Port r' \<Longrightarrow> PortSpan r = PortSpan r'"
  by (simp add: PortSpan_def)

lemma ParsePortSpec_Nil [simp]: "ParsePortSpec [] = Inr (0, 0, False)"
proof -
  have "TrimSpace [] = []" by (rule TrimSpace_id) simp
  then show ?thesis by (simp add: ParsePortSpec_def)
qed

text \<open>
  Theorem: every port specification the parser accepts denotes a non-empty inclusive range inside
  1..65535, and the unset outcome is returned exactly for a blank specification: no malformed
  value falls back to the protocol default.
\<close>

theorem ParsePortSpec_sound:
  "case ParsePortSpec s of
     Inl e \<Rightarrow> TrimSpace s \<noteq> []
   | Inr (lo, hi, isset) \<Rightarrow>
       if isset then TrimSpace s \<noteq> [] \<and> 1 \<le> lo \<and> lo \<le> hi \<and> hi \<le> 65535
       else TrimSpace s = [] \<and> lo = 0 \<and> hi = 0"
proof (cases "ParsePortSpec s")
  case (Inl e)
  then have "TrimSpace s \<noteq> []" by (auto simp: ParsePortSpec_def)
  with Inl show ?thesis by simp
next
  case (Inr t)
  obtain lo hi isset where t: "t = (lo, hi, isset)" by (cases t)
  have "isset \<Longrightarrow> TrimSpace s \<noteq> []" using Inr t by (auto simp: ParsePortSpec_def)
  then show ?thesis
    using Inr t ParsePortSpec_set_range [of s lo hi] ParsePortSpec_unset [of s lo hi]
    by (cases isset) auto
qed

section \<open>The wire mapping\<close>

interpretation path_rule_codec: codec
  "\<lambda>p. \<lparr>PbPath = Path p, PbPathAction = PathAction p, PbMethods = Methods p\<rparr>"
  "\<lambda>p. Some \<lparr>Path = PbPath p, PathAction = PbPathAction p, Methods = PbMethods p\<rparr>"
  "\<lambda>_. True"
  by unfold_locales simp

lemma EgressRuleFromProto_ToProto:
  "EgressRuleFromProto (EgressRuleToProto r) = r\<lparr>InsecureSkipTLSVerify := False\<rparr>"
proof -
  have "map (\<lambda>x. \<lparr>Path = Path x, PathAction = PathAction x, Methods = Methods x\<rparr>) ps = ps"
    for ps :: "PathRule list"
    using path_rule_codec.dec_enc by (intro map_idI) simp
  then show ?thesis
    by (cases r) (simp add: EgressRuleFromProto_def EgressRuleToProto_def comp_def)
qed

interpretation rule_codec: codec EgressRuleToProto "\<lambda>m. Some (EgressRuleFromProto m)"
  "\<lambda>r. \<not> InsecureSkipTLSVerify r"
  by unfold_locales (simp add: EgressRuleFromProto_ToProto)

text \<open>
  C36: sending a rule over the wire and back restores every field but
  \<open>InsecureSkipTLSVerify\<close>, which is always cleared; a whole batch round-trips element by
  element.
\<close>

theorem EgressRules_wire_roundtrip:
  "EgressRulesFromProto (EgressRulesToProto rs) =
     map (\<lambda>r. r\<lparr>InsecureSkipTLSVerify := False\<rparr>) rs"
  by (simp add: EgressRulesFromProto_def EgressRulesToProto_def EgressRuleFromProto_ToProto)

lemma EffectivePathDefault_modes:
  assumes "PathDefault r = []"
  shows "EffectivePathDefault r = ''deny'' \<longleftrightarrow>
      (\<exists>pr \<in> set (PathRules r). EqualFold (PathAction pr) ''allow'')"
    and "EffectivePathDefault r = ''allow'' \<longleftrightarrow>
      (\<forall>pr \<in> set (PathRules r). \<not> EqualFold (PathAction pr) ''allow'')"
  using assms by (auto simp: EffectivePathDefault_def)

end
