(* ===== verification/Firewall_Domain.thy ===== *)
theory Firewall_Domain
  imports Go_Net Egress_Config
begin

text \<open>
  Destinations and actions of egress rules: the classifiers of
  \<open>controlplane/firewall/coredns_config.go\<close> (IP, CIDR, wildcard, normal form) and the
  destination validator of \<open>rules_store.go\<close>, with a declarative grammar the validator is
  proved equivalent to.
\<close>

section \<open>Classifiers\<close>

definition isIPOrCIDR :: "string \<Rightarrow> bool" where
  "isIPOrCIDR s \<longleftrightarrow> ParseIP s \<noteq> None \<or> ParseCIDR s \<noteq> None"

definition isCIDR :: "string \<Rightarrow> bool" where
  "isCIDR s \<longleftrightarrow> ParseIP s = None \<and> ParseCIDR s \<noteq> None"

definition normalizeDomain :: "string \<Rightarrow> string" where
  "normalizeDomain d = TrimSuffix (TrimPrefix d ''.'') ''.''"

definition isWildcardDomain :: "string \<Rightarrow> bool" where
  "isWildcardDomain d \<longleftrightarrow> HasPrefix d ''.''"

definition isAllowDomain :: "EgressRule \<Rightarrow> bool" where
  "isAllowDomain r \<longleftrightarrow>
     (let action = ToLower (Action r) in
      \<not> (action \<noteq> ''allow'' \<and> action \<noteq> []) \<and> \<not> isIPOrCIDR (Dst r))"

definition isDenyRule :: "EgressRule \<Rightarrow> bool" where
  "isDenyRule r \<longleftrightarrow> EqualFold (Action r) ''deny'' \<and> \<not> isIPOrCIDR (Dst r)"

definition isDenyAction :: "string \<Rightarrow> bool" where
  "isDenyAction action \<longleftrightarrow> ToLower action = ''deny''"

definition isOpaqueProto :: "string \<Rightarrow> bool" where
  "isOpaqueProto proto \<longleftrightarrow> ToLower proto \<in> set [''tcp'', ''ssh'', ''udp'']"

section \<open>ValidateDst\<close>

datatype dst_error =
    EmptyDestination
  | InvalidDestination string
  | WildcardOnIP string
  | DestinationTooLong string
  | LabelStartsWithHyphen string
  | EmptyOrHyphenLabel string
  | LabelTooLong string
  | UppercaseLetter string
  | InvalidCharacter string char
  | TrailingEmptyLabel string
  | LastLabelEndsWithHyphen string
  | LastLabelTooLong string
  | PurelyNumeric string

text \<open>The byte loop of \<open>ValidateDst\<close>: the previous byte, whether a non-digit was seen, the
  length of the label being read, and the bytes left.\<close>

fun dst_scan :: "string \<Rightarrow> char \<Rightarrow> bool \<Rightarrow> nat \<Rightarrow> string \<Rightarrow> dst_error option" where
  "dst_scan dst prev nonNumeric partlen [] =
     (if prev = CHR ''.'' then Some (TrailingEmptyLabel dst)
      else if prev = CHR ''-'' then Some (LastLabelEndsWithHyphen dst)
      else if partlen > 63 then Some (LastLabelTooLong dst)
      else if \<not> nonNumeric then Some (PurelyNumeric dst)
      else None)"
| "dst_scan dst prev nonNumeric partlen (c # cs) =
     (if is_lower c \<or> c = CHR ''_'' then dst_scan dst c True (Suc partlen) cs
      else if is_digit c then dst_scan dst c nonNumeric (Suc partlen) cs
      else if c = CHR ''-'' then
        (if prev = CHR ''.'' then Some (LabelStartsWithHyphen dst)
         else dst_scan dst c True (Suc partlen) cs)
      else if c = CHR ''.'' then
        (if prev = CHR ''.'' \<or> prev = CHR ''-'' then Some (EmptyOrHyphenLabel dst)
         else if partlen > 63 then Some (LabelTooLong dst)
         else dst_scan dst c nonNumeric 0 cs)
      else if is_upper c then Some (UppercaseLetter dst)
      else Some (InvalidCharacter dst c))"

definition ValidateDst :: "string \<Rightarrow> dst_error option" where
  "ValidateDst dst =
     (if dst = [] then Some EmptyDestination
      else
        (let normalized = normalizeDomain dst in
         if normalized = [] then Some (InvalidDestination dst)
         else if isIPOrCIDR normalized then
           (if HasPrefix dst ''.'' then Some (WildcardOnIP dst) else None)
         else if length normalized > 253 then Some (DestinationTooLong dst)
         else dst_scan dst (CHR ''.'') False 0 normalized))"

section \<open>The grammar of domain names\<close>

fun split_on :: "char \<Rightarrow> string \<Rightarrow> string list" where
  "split_on x [] = [[]]"
| "split_on x (c # cs) =
     (if c = x then [] # split_on x cs
      else (case split_on x cs of [] \<Rightarrow> [[c]] | l # ls \<Rightarrow> (c # l) # ls))"

definition label_char :: "char \<Rightarrow> bool" where
  "label_char c \<longleftrightarrow> is_lower c \<or> is_digit c \<or> c = CHR ''_'' \<or> c = CHR ''-''"

definition wf_label :: "string \<Rightarrow> bool" where
  "wf_label l \<longleftrightarrow>
     l \<noteq> [] \<and> length l \<le> 63 \<and> (\<forall>c \<in> set l. label_char c) \<and>
     hd l \<noteq> CHR ''-'' \<and> last l \<noteq> CHR ''-''"

definition wf_domain :: "string \<Rightarrow> bool" where
  "wf_domain d \<longleftrightarrow>
     length d \<le> 253 \<and> (\<forall>l \<in> set (split_on (CHR ''.'') d). wf_label l) \<and>
     (\<exists>c \<in> set d. \<not> is_digit c \<and> c \<noteq> CHR ''.'')"

lemma split_on_not_Nil [simp]: "split_on x s \<noteq> []"
  by (induction x s rule: split_on.induct) (auto split: list.splits)

lemma split_on_append:
  assumes "x \<notin> set l"
  shows "split_on x (l @ s) = (l @ hd (split_on x s)) # tl (split_on x s)"
  using assms by (induction l) (auto split: list.splits)

lemma split_on_prefix_sep: "x \<notin> set l \<Longrightarrow> split_on x (l @ x # s) = l # split_on x s"
  by (simp add: split_on_append)

lemma label_char_dot [simp]: "\<not> label_char (CHR ''.'')"
  by (simp add: label_char_def is_lower_def is_digit_def byte_of_def)

text \<open>
  The loop's state in terms of the label \<open>l\<close> read so far: the scan accepts what is left
  exactly when every label from \<open>l\<close> on is well-formed and a non-digit turns up.
\<close>

lemma dst_scan_labels:
  assumes "\<forall>c \<in> set l. label_char c" "l \<noteq> [] \<longrightarrow> hd l \<noteq> CHR ''-''"
    "prev = (if l = [] then CHR ''.'' else last l)"
  shows "dst_scan dst prev nn (length l) s = None \<longleftrightarrow>
    (\<forall>k \<in> set (split_on (CHR ''.'') (l @ s)). wf_label k) \<and>
    (nn \<or> (\<exists>c \<in> set s. \<not> is_digit c \<and> c \<noteq> CHR ''.''))"
  using assms
proof (induction s arbitrary: l prev nn)
  case Nil
  have "CHR ''.'' \<notin> set l" using Nil.prems(1) label_char_dot by blast
  then have "split_on (CHR ''.'') l = [l]" using split_on_append [of "CHR ''.''" l "[]"] by simp
  moreover have "l \<noteq> [] \<Longrightarrow> last l \<noteq> CHR ''.''"
    using Nil.prems(1) label_char_dot by (metis last_in_set)
  ultimately show ?case using Nil.prems by (auto simp: wf_label_def)
next
  case (Cons c s)
  have nodot: "CHR ''.'' \<notin> set l" using Cons.prems(1) label_char_dot by blast
  then have lastnodot: "l \<noteq> [] \<Longrightarrow> last l \<noteq> CHR ''.''" by (metis last_in_set)
  have snoc: "dst_scan dst c nn' (length (l @ [c])) s = None \<longleftrightarrow>
      (\<forall>k \<in> set (split_on (CHR ''.'') (l @ c # s)). wf_label k) \<and>
      (nn' \<or> (\<exists>c \<in> set s. \<not> is_digit c \<and> c \<noteq> CHR ''.''))"
    if "label_char c" "l = [] \<Longrightarrow> c \<noteq> CHR ''-''" for nn'
    using Cons.IH [of "l @ [c]" c nn'] Cons.prems that by (cases l) auto
  consider (alpha) "is_lower c \<or> c = CHR ''_''" | (digit) "is_digit c" | (hyphen) "c = CHR ''-''"
    | (dot) "c = CHR ''.''" | (bad) "\<not> label_char c" "c \<noteq> CHR ''.''"
    by (auto simp: label_char_def)
  then show ?case
  proof cases
    case alpha
    then have "label_char c" "\<not> is_digit c" "c \<noteq> CHR ''-''" "c \<noteq> CHR ''.''"
      by (auto simp: label_char_def is_lower_def is_digit_def byte_of_def)
    then show ?thesis using alpha snoc [of True] by auto
  next
    case digit
    then have "label_char c" "\<not> is_lower c" "c \<noteq> CHR ''_''" "c \<noteq> CHR ''-''"
      by (auto simp: label_char_def is_lower_def is_digit_def byte_of_def)
    then show ?thesis using digit snoc [of nn] by auto
  next
    case hyphen
    then have c: "label_char c" "\<not> is_lower c" "\<not> is_digit c" "c \<noteq> CHR ''.''"
      by (auto simp: label_char_def is_lower_def is_digit_def byte_of_def)
    show ?thesis
    proof (cases "l = []")
      case True
      have "\<not> wf_label (hd (split_on (CHR ''.'') (c # s)))"
        using hyphen by (auto simp: wf_label_def split: list.splits)
      then have "\<not> (\<forall>k \<in> set (split_on (CHR ''.'') (c # s)). wf_label k)"
        using list.set_sel(1) [OF split_on_not_Nil] by blast
      then show ?thesis using True hyphen c Cons.prems(3) by auto
    next
      case False
      then show ?thesis using hyphen c snoc [of True] lastnodot Cons.prems(3) by auto
    qed
  next
    case dot
    then have c: "\<not> is_lower c" "\<not> is_digit c"
      by (auto simp: is_lower_def is_digit_def byte_of_def)
    have sp: "split_on (CHR ''.'') (l @ c # s) = l # split_on (CHR ''.'') s"
      using split_on_prefix_sep [OF nodot] dot by simp
    have "dst_scan dst c nn 0 s = None \<longleftrightarrow>
        (\<forall>k \<in> set (split_on (CHR ''.'') s). wf_label k) \<and>
        (nn \<or> (\<exists>c \<in> set s. \<not> is_digit c \<and> c \<noteq> CHR ''.''))"
      using Cons.IH [of "[]" c nn] dot by simp
    then show ?thesis
      using dot c sp Cons.prems lastnodot by (auto simp: wf_label_def)
  next
    case bad
    then have "\<not> (\<forall>k \<in> set (split_on (CHR ''.'') (l @ c # s)). wf_label k)"
      using nodot by (auto simp: split_on_append wf_label_def split: list.splits)
    then show ?thesis using bad by (auto simp: label_char_def)
  qed
qed

lemma dst_scan_wf:
  "length d \<le> 253 \<Longrightarrow> dst_scan dst (CHR ''.'') False 0 d = None \<longleftrightarrow> wf_domain d"
  using dst_scan_labels [of "[]" "CHR ''.''" dst False d] by (auto simp: wf_domain_def)

text \<open>
  C35: the destination validator accepts exactly the IP and CIDR literals without a wildcard
  dot and the names whose normal form is a well-formed domain: at most 253 bytes, labels of
  1 to 63 bytes over lower-case letters, digits, underscore and hyphen, no label starting or
  ending with a hyphen, and not purely numeric.
\<close>

theorem ValidateDst_iff_grammar:
  "ValidateDst dst = None \<longleftrightarrow>
     (if isIPOrCIDR (normalizeDomain dst) then \<not> isWildcardDomain dst
      else wf_domain (normalizeDomain dst))"
proof -
  have nil: "normalizeDomain [] = []"
    by (simp add: normalizeDomain_def TrimPrefix_def TrimSuffix_def HasPrefix_def HasSuffix_def)
  have "\<not> isIPOrCIDR []"
    by (simp add: isIPOrCIDR_def ParseIP_def ParseCIDR_def ParseAddr_def)
  moreover have "\<not> wf_domain []" by (simp add: wf_domain_def)
  moreover have "length (normalizeDomain dst) \<le> 253" if "wf_domain (normalizeDomain dst)"
    using that by (simp add: wf_domain_def)
  ultimately show ?thesis
    using nil dst_scan_wf [of "normalizeDomain dst" dst]
    by (cases "isIPOrCIDR (normalizeDomain dst)"; cases "length (normalizeDomain dst) \<le> 253")
      (auto simp: ValidateDst_def Let_def isWildcardDomain_def)
qed

section \<open>Lemmas on the classifiers\<close>

lemma isCIDR_isIPOrCIDR: "isCIDR d \<Longrightarrow> isIPOrCIDR d"
  by (auto simp: isCIDR_def isIPOrCIDR_def)

lemma isIPOrCIDR_cases: "isIPOrCIDR d \<longleftrightarrow> ParseIP d \<noteq> None \<or> isCIDR d"
  by (auto simp: isCIDR_def isIPOrCIDR_def)

lemma deny_allow_exclusive [rule_simps]: "isDenyAction (Action r) \<Longrightarrow> \<not> isAllowDomain r"
  by (auto simp: isDenyAction_def isAllowDomain_def)

lemma isDenyRule_iff: "isDenyRule r \<longleftrightarrow> isDenyAction (Action r) \<and> \<not> isIPOrCIDR (Dst r)"
proof -
  have "ToLower ''deny'' = ''deny''" by code_simp
  then show ?thesis by (auto simp: isDenyRule_def isDenyAction_def EqualFold_def)
qed

lemma isOpaqueProto_not_http: "isOpaqueProto p \<Longrightarrow> \<not> IsHTTPFamilyProto p"
  by (auto simp: isOpaqueProto_def IsHTTPFamilyProto_def)

end
