(* ===== verification/Port_Spans.thy ===== *)
theory Port_Spans
  imports Egress_Config
begin

text \<open>
  Inclusive port spans: the merge, carve, compare and print helpers of
  \<open>controlplane/firewall/rules_store.go\<close> and \<open>lowestSpanOverlap\<close> of \<open>envoy_config.go\<close>,
  proved exact against the set of ports a span list covers.
\<close>

section \<open>Operations\<close>

text \<open>The loop of \<open>mergeOverlappingSpans\<close>: the last merged span and the spans still to read.\<close>

fun merge_run :: "span \<Rightarrow> span list \<Rightarrow> span list" where
  "merge_run cur [] = [cur]"
| "merge_run cur (s # ss) =
     (if fst s \<le> snd cur
      then merge_run (fst cur, if snd s > snd cur then snd s else snd cur) ss
      else cur # merge_run s ss)"

definition mergeOverlappingSpans :: "span list \<Rightarrow> span list" where
  "mergeOverlappingSpans spans =
     (if length spans \<le> 1 then spans
      else (case sort spans of [] \<Rightarrow> [] | s # ss \<Rightarrow> merge_run s ss))"

text \<open>The inner loop of \<open>subtractSpans\<close>: what is left of \<open>[lo, hi]\<close> under the sorted denies.\<close>

fun carve :: "int \<Rightarrow> int \<Rightarrow> span list \<Rightarrow> span list" where
  "carve lo hi [] = (if lo \<le> hi then [(lo, hi)] else [])"
| "carve lo hi (d # ds) =
     (if snd d < lo \<or> fst d > hi then carve lo hi ds
      else
        (let pre = (if fst d > lo then [(lo, fst d - 1)] else []);
             lo' = (if snd d + 1 > lo then snd d + 1 else lo)
         in pre @ (if lo' > hi then [] else carve lo' hi ds)))"

definition subtractSpans :: "span list \<Rightarrow> span list \<Rightarrow> span list" where
  "subtractSpans allow deny =
     (if deny = [] then allow
      else concat (map (\<lambda>a. carve (fst a) (snd a) (sort deny)) allow))"

definition mergedSpansChanged :: "span list \<Rightarrow> span list \<Rightarrow> bool" where
  "mergedSpansChanged spans merged \<longleftrightarrow> length merged < length spans"

definition spansEqual :: "span list \<Rightarrow> span list \<Rightarrow> bool" where
  "spansEqual a b \<longleftrightarrow> length a = length b \<and> (\<forall>i < length a. a ! i = b ! i)"

definition formatSpan :: "span \<Rightarrow> string" where
  "formatSpan sp =
     (if fst sp = snd sp then Itoa (fst sp) else Itoa (fst sp) @ ''-'' @ Itoa (snd sp))"

definition formatSpans :: "span list \<Rightarrow> string" where
  "formatSpans spans = Join (map formatSpan spans) '',''"

text \<open>One step of the double loop of \<open>lowestSpanOverlap\<close>; \<open>-1\<close> stands for no overlap yet.\<close>

definition overlap_step :: "span \<Rightarrow> int \<Rightarrow> span \<Rightarrow> int" where
  "overlap_step sa best sb =
     (let lo = (if fst sb > fst sa then fst sb else fst sa);
          hi = (if snd sb < snd sa then snd sb else snd sa)
      in if lo \<le> hi \<and> (best = -1 \<or> lo < best) then lo else best)"

definition lowestSpanOverlap :: "span list \<Rightarrow> span list \<Rightarrow> int option" where
  "lowestSpanOverlap a b =
     (let best = foldl (\<lambda>best sa. foldl (overlap_step sa) best b) (-1) a
      in if best = -1 then None else Some best)"

section \<open>The ports a span list covers\<close>

definition ports_of :: "span \<Rightarrow> int set" where
  "ports_of sp = {fst sp..snd sp}"

definition covered :: "span list \<Rightarrow> int set" where
  "covered ss = (\<Union>s \<in> set ss. ports_of s)"

definition valid_span :: "span \<Rightarrow> bool" where
  "valid_span sp \<longleftrightarrow> 1 \<le> fst sp \<and> fst sp \<le> snd sp \<and> snd sp \<le> 65535"

definition valid_spans :: "span list \<Rightarrow> bool" where
  "valid_spans ss \<longleftrightarrow> (\<forall>s \<in> set ss. valid_span s)"

text \<open>A canonical span list: valid spans, ascending, no port covered twice.\<close>

definition disjoint_spans :: "span list \<Rightarrow> bool" where
  "disjoint_spans ss \<longleftrightarrow> valid_spans ss \<and> sorted_wrt (\<lambda>a b. snd a < fst b) ss"

lemma covered_simps [simp, span_simps]:
  "covered [] = {}"
  "covered (s # ss) = ports_of s \<union> covered ss"
  "covered (ss @ ts) = covered ss \<union> covered ts"
  by (auto simp: covered_def)

lemma covered_concat: "covered (concat xss) = (\<Union>xs \<in> set xss. covered xs)"
  by (auto simp: covered_def)

lemma covered_set_cong: "set ss = set ts \<Longrightarrow> covered ss = covered ts"
  by (simp add: covered_def)

lemma valid_spans_simps [simp, span_simps]:
  "valid_spans []"
  "valid_spans (s # ss) \<longleftrightarrow> valid_span s \<and> valid_spans ss"
  "valid_spans (ss @ ts) \<longleftrightarrow> valid_spans ss \<and> valid_spans ts"
  by (auto simp: valid_spans_def)

lemma valid_spans_sort [simp]: "valid_spans (sort ss) \<longleftrightarrow> valid_spans ss"
  by (simp add: valid_spans_def)

lemma covered_sort [simp]: "covered (sort ss) = covered ss"
  by (simp add: covered_def)

lemma disjoint_spans_Nil [simp]: "disjoint_spans []"
  by (simp add: disjoint_spans_def)

lemma disjoint_spans_Cons [simp]:
  "disjoint_spans (s # ss) \<longleftrightarrow>
     valid_span s \<and> (\<forall>t \<in> set ss. snd s < fst t) \<and> disjoint_spans ss"
  by (auto simp: disjoint_spans_def)

lemma disjoint_spans_append:
  "disjoint_spans (ss @ ts) \<longleftrightarrow>
     disjoint_spans ss \<and> disjoint_spans ts \<and> (\<forall>s \<in> set ss. \<forall>t \<in> set ts. snd s < fst t)"
  by (auto simp: disjoint_spans_def sorted_wrt_append)

lemma disjoint_spans_valid: "disjoint_spans ss \<Longrightarrow> valid_spans ss"
  by (simp add: disjoint_spans_def)

lemma disjoint_spans_distinct: "disjoint_spans ss \<Longrightarrow> distinct ss"
  by (induction ss) (auto simp: valid_span_def)

lemma disjoint_spans_sorted: "disjoint_spans ss \<Longrightarrow> sorted ss"
  by (induction ss) (force simp: valid_span_def less_eq_prod_def)+

lemma disjoint_spans_unique:
  assumes "disjoint_spans ss" "s \<in> set ss" "t \<in> set ss" "p \<in> ports_of s" "p \<in> ports_of t"
  shows "s = t"
  using assms by (induction ss) (fastforce simp: ports_of_def)+

section \<open>Merging\<close>

lemma merge_run_correct:
  assumes "valid_span l" "valid_spans ss" "sorted (map fst (l # ss))"
  shows "covered (merge_run l ss) = ports_of l \<union> covered ss"
    and "disjoint_spans (merge_run l ss)"
    and "\<forall>t \<in> set (merge_run l ss). fst l \<le> fst t"
proof -
  have "covered (merge_run l ss) = ports_of l \<union> covered ss \<and> disjoint_spans (merge_run l ss) \<and>
      (\<forall>t \<in> set (merge_run l ss). fst l \<le> fst t)"
    using assms
  proof (induction l ss rule: merge_run.induct)
    case (2 l s ss)
    show ?case
    proof (cases "fst s \<le> snd l")
      case True
      let ?m = "(fst l, if snd s > snd l then snd s else snd l)"
      have pre: "valid_span ?m" "valid_spans ss" "sorted (map fst (?m # ss))"
        using "2.prems" by (auto simp: valid_span_def)
      have "ports_of ?m = ports_of l \<union> ports_of s"
        using True "2.prems" by (auto simp: ports_of_def valid_span_def)
      then show ?thesis using "2.IH"(1) [OF True pre] True by auto
    next
      case False
      have pre: "valid_span s" "valid_spans ss" "sorted (map fst (s # ss))"
        using "2.prems" by auto
      show ?thesis using "2.IH"(2) [OF False pre] False "2.prems" by force
    qed
  qed auto
  then show "covered (merge_run l ss) = ports_of l \<union> covered ss"
    "disjoint_spans (merge_run l ss)" "\<forall>t \<in> set (merge_run l ss). fst l \<le> fst t"
    by auto
qed

lemma sorted_map_fst: "sorted (ss :: span list) \<Longrightarrow> sorted (map fst ss)"
  by (induction ss) (auto simp: less_eq_prod_def less_le)

lemma mergeOverlappingSpans_correct:
  assumes "valid_spans ss"
  shows covered_merge: "covered (mergeOverlappingSpans ss) = covered ss"
    and disjoint_merge: "disjoint_spans (mergeOverlappingSpans ss)"
proof -
  have "covered (mergeOverlappingSpans ss) = covered ss \<and> disjoint_spans (mergeOverlappingSpans ss)"
  proof (cases "length ss \<le> 1")
    case True
    then obtain s where "ss = [] \<or> ss = [s]" by (cases ss) auto
    then show ?thesis using assms by (auto simp: mergeOverlappingSpans_def)
  next
    case False
    then obtain s ts where st: "sort ss = s # ts"
      by (cases "sort ss") (auto dest: arg_cong [where f = length])
    have v: "valid_span s" "valid_spans ts"
      using assms st valid_spans_sort [of ss] by auto
    have "sorted (s # ts)" using sorted_sort [of ss] st by metis
    then have "sorted (map fst (s # ts))" by (rule sorted_map_fst)
    note m = merge_run_correct [OF v this]
    have "covered ss = ports_of s \<union> covered ts" using covered_sort [of ss] st by simp
    then show ?thesis using False st m by (simp add: mergeOverlappingSpans_def)
  qed
  then show "covered (mergeOverlappingSpans ss) = covered ss"
    "disjoint_spans (mergeOverlappingSpans ss)" by auto
qed

lemma merge_run_id: "disjoint_spans (l # ss) \<Longrightarrow> merge_run l ss = l # ss"
  by (induction l ss rule: merge_run.induct) (auto simp: not_le)

lemma mergeOverlappingSpans_id: "disjoint_spans ss \<Longrightarrow> mergeOverlappingSpans ss = ss"
proof -
  assume d: "disjoint_spans ss"
  then have "sort ss = ss" by (simp add: disjoint_spans_sorted sort_key_id_if_sorted)
  then show ?thesis
    using d by (auto simp: mergeOverlappingSpans_def merge_run_id split: list.splits)
qed

lemma merge_Nil [simp]: "mergeOverlappingSpans [] = []"
  by (simp add: mergeOverlappingSpans_def)

lemma merge_eq_Nil [simp]: "mergeOverlappingSpans ss = [] \<longleftrightarrow> ss = []"
proof -
  have "merge_run l ts \<noteq> []" for l ts by (induction l ts rule: merge_run.induct) auto
  then show ?thesis
    by (auto simp: mergeOverlappingSpans_def split: list.splits dest: arg_cong [where f = length])
qed

section \<open>Carving\<close>

lemma carve_correct:
  assumes "1 \<le> lo" "hi \<le> 65535" "lo \<le> hi" "valid_spans ds" "sorted (map fst ds)"
  shows "covered (carve lo hi ds) = {lo..hi} - covered ds \<and> disjoint_spans (carve lo hi ds) \<and>
    (\<forall>t \<in> set (carve lo hi ds). lo \<le> fst t \<and> snd t \<le> hi)"
  using assms
proof (induction lo hi ds rule: carve.induct)
  case (1 lo hi)
  then show ?case by (auto simp: ports_of_def valid_span_def)
next
  case (2 lo hi d ds)
  have rest: "valid_spans ds" "sorted (map fst ds)" and d: "valid_span d"
    and later: "\<forall>e \<in> set ds. fst d \<le> fst e"
    using "2.prems" by auto
  show ?case
  proof (cases "snd d < lo \<or> fst d > hi")
    case True
    then have "{lo..hi} - ports_of d = {lo..hi}" by (auto simp: ports_of_def)
    then show ?thesis using True "2.IH"(1) [OF True "2.prems"(1-3) rest] by (auto simp: Diff_Un)
  next
    case False
    let ?pre = "if fst d > lo then [(lo, fst d - 1)] else []"
    let ?rest = "if snd d + 1 > hi then [] else carve (snd d + 1) hi ds"
    from False have lo': "(if snd d + 1 > lo then snd d + 1 else lo) = snd d + 1" by auto
    have eq: "carve lo hi (d # ds) = ?pre @ ?rest"
      using False lo' by (simp add: Let_def)
    have pre: "covered ?pre = {lo..hi} \<inter> {p. p < fst d}" "disjoint_spans ?pre"
      "\<forall>t \<in> set ?pre. lo \<le> fst t \<and> snd t < fst d \<and> snd t \<le> hi"
      using False "2.prems"(1,2) d by (auto simp: ports_of_def valid_span_def)
    have above: "covered ds \<inter> {p. p < fst d} = {}"
      using later by (force simp: covered_def ports_of_def)
    have r: "covered ?rest = ({lo..hi} \<inter> {p. p > snd d}) - covered ds \<and> disjoint_spans ?rest \<and>
        (\<forall>t \<in> set ?rest. snd d < fst t \<and> snd t \<le> hi)"
    proof (cases "snd d + 1 > hi")
      case False
      have ge: "1 \<le> snd d + 1" using d by (simp add: valid_span_def)
      have "{snd d + 1..hi} = {lo..hi} \<inter> {p. p > snd d}"
        using \<open>\<not> (snd d < lo \<or> fst d > hi)\<close> by auto
      then show ?thesis
        using "2.IH"(2) [OF \<open>\<not> (snd d < lo \<or> fst d > hi)\<close> refl refl] lo' False ge rest "2.prems"(2)
        by auto
    qed auto
    have "{lo..hi} - covered (d # ds) =
        ({lo..hi} \<inter> {p. p < fst d}) \<union> (({lo..hi} \<inter> {p. p > snd d}) - covered ds)"
      using above by (auto simp: ports_of_def)
    moreover have "\<forall>s \<in> set ?pre. \<forall>t \<in> set ?rest. snd s < fst t"
      using pre(3) r d by (fastforce simp: valid_span_def)
    moreover have "\<forall>t \<in> set ?rest. lo \<le> fst t"
      using r \<open>\<not> (snd d < lo \<or> fst d > hi)\<close> by force
    ultimately show ?thesis
      unfolding eq using pre r by (simp add: disjoint_spans_append del: carve.simps) auto
  qed
qed

lemma subtractSpans_covered:
  assumes "valid_spans allow" "valid_spans deny"
  shows "covered (subtractSpans allow deny) = covered allow - covered deny"
proof (cases "deny = []")
  case False
  have "covered (carve (fst a) (snd a) (sort deny)) = ports_of a - covered deny"
    if "a \<in> set allow" for a
    using carve_correct [of "fst a" "snd a" "sort deny"] that assms sorted_map_fst [of "sort deny"]
    by (auto simp: valid_spans_def valid_span_def ports_of_def)
  then show ?thesis using False by (auto simp: subtractSpans_def covered_concat covered_def)
qed (simp add: subtractSpans_def)

lemma subtractSpans_disjoint:
  assumes "disjoint_spans allow" "valid_spans deny"
  shows "disjoint_spans (subtractSpans allow deny)"
proof (cases "deny = []")
  case False
  have "disjoint_spans (concat (map (\<lambda>a. carve (fst a) (snd a) (sort deny)) allow)) \<and>
      (\<forall>t \<in> set (concat (map (\<lambda>a. carve (fst a) (snd a) (sort deny)) allow)).
         \<exists>a \<in> set allow. fst a \<le> fst t \<and> snd t \<le> snd a)"
    using assms(1)
  proof (induction allow)
    case (Cons a allow)
    have "disjoint_spans (carve (fst a) (snd a) (sort deny)) \<and>
        (\<forall>t \<in> set (carve (fst a) (snd a) (sort deny)). fst a \<le> fst t \<and> snd t \<le> snd a)"
      using carve_correct [of "fst a" "snd a" "sort deny"] Cons.prems assms(2)
        sorted_map_fst [of "sort deny"] by (auto simp: valid_span_def)
    then show ?case using Cons by (fastforce simp: disjoint_spans_append)
  qed simp
  then show ?thesis using False by (simp add: subtractSpans_def)
qed (use assms in \<open>simp add: subtractSpans_def\<close>)

lemma subtractSpans_within:
  assumes "valid_spans allow" "valid_spans deny" "t \<in> set (subtractSpans allow deny)"
  shows "\<exists>a \<in> set allow. fst a \<le> fst t \<and> snd t \<le> snd a"
proof (cases "deny = []")
  case True
  then show ?thesis using assms(3) by (auto simp: subtractSpans_def)
next
  case False
  then obtain a where a: "a \<in> set allow" "t \<in> set (carve (fst a) (snd a) (sort deny))"
    using assms(3) by (auto simp: subtractSpans_def)
  moreover have "valid_span a" using assms(1) a(1) by (auto simp: valid_spans_def)
  ultimately show ?thesis
    using carve_correct [of "fst a" "snd a" "sort deny"] assms(2) sorted_map_fst [of "sort deny"]
    by (auto simp: valid_span_def)
qed

lemma carve_disjoint_id:
  "lo \<le> hi \<Longrightarrow> {lo..hi} \<inter> covered ds = {} \<Longrightarrow> valid_spans ds \<Longrightarrow> carve lo hi ds = [(lo, hi)]"
proof (induction ds)
  case (Cons d ds)
  then have "ports_of d \<inter> {lo..hi} = {}" by auto
  then have "snd d < lo \<or> fst d > hi"
    using Cons.prems by (fastforce simp: ports_of_def valid_span_def)
  then show ?case using Cons by auto
qed simp

lemma subtractSpans_id:
  assumes "valid_spans allow" "valid_spans deny" "covered allow \<inter> covered deny = {}"
  shows "subtractSpans allow deny = allow"
proof (cases "deny = []")
  case False
  have "carve (fst a) (snd a) (sort deny) = [a]" if "a \<in> set allow" for a
    using that assms carve_disjoint_id [of "fst a" "snd a" "sort deny"]
    by (auto simp: valid_spans_def valid_span_def covered_def ports_of_def)
  then have "concat (map (\<lambda>a. carve (fst a) (snd a) (sort deny)) allow) = allow"
    by (induction allow) auto
  then show ?thesis using False by (simp add: subtractSpans_def)
qed (simp add: subtractSpans_def)

section \<open>Lowest overlap\<close>

definition overlap_best :: "int \<Rightarrow> int set \<Rightarrow> bool" where
  "overlap_best best S \<longleftrightarrow>
     (if best = -1 then S = {} else best \<in> S \<and> (\<forall>p \<in> S. best \<le> p))"

lemma overlap_step_best:
  assumes "valid_span sa" "valid_span sb" "overlap_best best S"
  shows "overlap_best (overlap_step sa best sb) (S \<union> (ports_of sa \<inter> ports_of sb))"
proof -
  let ?lo = "if fst sb > fst sa then fst sb else fst sa"
  let ?hi = "if snd sb < snd sa then snd sb else snd sa"
  have both: "ports_of sa \<inter> ports_of sb = {?lo..?hi}" by (auto simp: ports_of_def)
  have "?lo \<noteq> -1" using assms(1,2) by (simp add: valid_span_def)
  then show ?thesis
    using assms(3) unfolding both
    by (cases "?lo \<le> ?hi"; cases "best = -1"; cases "?lo < best")
      (auto simp: overlap_best_def overlap_step_def Let_def simp del: atLeastAtMost_iff,
       auto)
qed

lemma overlap_inner_best:
  assumes "valid_span sa" "valid_spans b" "overlap_best best S"
  shows "overlap_best (foldl (overlap_step sa) best b) (S \<union> (ports_of sa \<inter> covered b))"
  using assms(2,3)
proof (induction b arbitrary: best S)
  case (Cons sb b)
  have "overlap_best (overlap_step sa best sb) (S \<union> (ports_of sa \<inter> ports_of sb))"
    using Cons.prems assms(1) by (intro overlap_step_best) auto
  then have "overlap_best (foldl (overlap_step sa) (overlap_step sa best sb) b)
      ((S \<union> (ports_of sa \<inter> ports_of sb)) \<union> (ports_of sa \<inter> covered b))"
    using Cons by auto
  moreover have "(S \<union> (ports_of sa \<inter> ports_of sb)) \<union> (ports_of sa \<inter> covered b) =
      S \<union> (ports_of sa \<inter> covered (sb # b))" by auto
  ultimately show ?case by simp
qed simp

lemma overlap_outer_best:
  assumes "valid_spans a" "valid_spans b" "overlap_best best S"
  shows "overlap_best (foldl (\<lambda>best sa. foldl (overlap_step sa) best b) best a)
    (S \<union> (covered a \<inter> covered b))"
  using assms(1,3)
proof (induction a arbitrary: best S)
  case (Cons sa a)
  have "overlap_best (foldl (overlap_step sa) best b) (S \<union> (ports_of sa \<inter> covered b))"
    using Cons.prems assms(2) by (intro overlap_inner_best) auto
  then have "overlap_best
      (foldl (\<lambda>best sa. foldl (overlap_step sa) best b) (foldl (overlap_step sa) best b) a)
      ((S \<union> (ports_of sa \<inter> covered b)) \<union> (covered a \<inter> covered b))"
    using Cons by auto
  moreover have "(S \<union> (ports_of sa \<inter> covered b)) \<union> (covered a \<inter> covered b) =
      S \<union> (covered (sa # a) \<inter> covered b)" by auto
  ultimately show ?case by simp
qed simp

lemma lowestSpanOverlap_cases:
  assumes "valid_spans a" "valid_spans b"
  shows "case lowestSpanOverlap a b of
      None \<Rightarrow> covered a \<inter> covered b = {}
    | Some p \<Rightarrow> p \<in> covered a \<inter> covered b \<and> (\<forall>q \<in> covered a \<inter> covered b. p \<le> q)"
  using overlap_outer_best [OF assms, of "-1" "{}"]
  by (auto simp: lowestSpanOverlap_def Let_def overlap_best_def split: if_splits)

lemma lowestSpanOverlap_None:
  "valid_spans a \<Longrightarrow> valid_spans b \<Longrightarrow>
     lowestSpanOverlap a b = None \<longleftrightarrow> covered a \<inter> covered b = {}"
  using lowestSpanOverlap_cases [of a b] by (auto split: option.splits)

section \<open>Printing\<close>

lemma is_digit_not_dash: "is_digit c \<Longrightarrow> c \<noteq> CHR ''-''"
  by (simp add: is_digit_no_sign)

lemma dash_notin_Itoa: "0 \<le> i \<Longrightarrow> CHR ''-'' \<notin> set (Itoa i)"
  using Itoa_digits is_digit_not_dash by blast

lemma TrimSpace_formatSpan: "valid_span sp \<Longrightarrow> TrimSpace (formatSpan sp) = formatSpan sp"
proof -
  assume v: "valid_span sp"
  have "hd (formatSpan sp) = hd (Itoa (fst sp))" "last (formatSpan sp) = last (Itoa (snd sp))"
    by (auto simp: formatSpan_def)
  moreover have "is_digit (hd (Itoa (fst sp)))" "is_digit (last (Itoa (snd sp)))"
    using v Itoa_digits [of "fst sp" "hd (Itoa (fst sp))"] Itoa_digits [of "snd sp" "last (Itoa (snd sp))"]
    by (simp_all add: valid_span_def)
  ultimately show ?thesis by (intro TrimSpace_digit_ends) (auto simp: formatSpan_def)
qed

lemma ParsePortSpec_formatSpan:
  assumes "valid_span sp"
  shows "ParsePortSpec (formatSpan sp) = Inr (fst sp, snd sp, True)"
proof -
  have r: "1 \<le> fst sp" "fst sp \<le> snd sp" "snd sp \<le> 65535" using assms by (auto simp: valid_span_def)
  show ?thesis
  proof (cases "fst sp = snd sp")
    case True
    have "cut_byte (CHR ''-'') (formatSpan sp) = None"
      using True r dash_notin_Itoa [of "fst sp"] by (simp add: formatSpan_def)
    then show ?thesis
      using True r TrimSpace_formatSpan [OF assms] parsePortNumber_Itoa [of "fst sp"]
      by (simp add: ParsePortSpec_def Let_def) (simp add: formatSpan_def)
  next
    case False
    then have "cut_byte (CHR ''-'') (formatSpan sp) = Some (Itoa (fst sp), Itoa (snd sp))"
      using r cut_byte_append [OF dash_notin_Itoa [of "fst sp"]] by (simp add: formatSpan_def)
    then show ?thesis
      using r TrimSpace_formatSpan [OF assms] parsePortNumber_Itoa [of "fst sp"]
        parsePortNumber_Itoa [of "snd sp"]
      by (simp add: ParsePortSpec_def Let_def) (simp add: formatSpan_def split: if_splits)
  qed
qed

lemma PortSpan_formatSpan [simp]:
  "valid_span sp \<Longrightarrow> PortSpan (r\<lparr>Port := formatSpan sp\<rparr>) = Some sp"
  by (simp add: PortSpan_def ParsePortSpec_formatSpan)

lemma PortSpan_valid: "PortSpan r = Some sp \<Longrightarrow> valid_span sp"
  using PortSpan_range [of r "fst sp" "snd sp"] by (simp add: valid_span_def)

interpretation span_codec: codec formatSpan
  "\<lambda>s. case ParsePortSpec s of
          Inl e \<Rightarrow> None
        | Inr (lo, hi, isset) \<Rightarrow> if isset then Some (lo, hi) else None"
  valid_span
  by unfold_locales (simp add: ParsePortSpec_formatSpan)

lemma formatSpan_no_colon: "valid_span sp \<Longrightarrow> CHR '':'' \<notin> set (formatSpan sp)"
proof
  assume v: "valid_span sp" and "CHR '':'' \<in> set (formatSpan sp)"
  then have "is_digit (CHR '':'')"
    using Itoa_digits [of "fst sp"] Itoa_digits [of "snd sp"]
    by (auto simp: formatSpan_def valid_span_def split: if_splits)
  then show False by (simp add: is_digit_def byte_of_def)
qed

section \<open>Properties\<close>

text \<open>
  Theorem: merging spans covers exactly the same ports, and its result is canonical: valid spans
  in ascending order with no port in two of them, so no listener is emitted twice.
\<close>

theorem mergeOverlappingSpans_exact:
  assumes "valid_spans ss"
  shows "covered (mergeOverlappingSpans ss) = covered ss \<and>
    disjoint_spans (mergeOverlappingSpans ss)"
  using mergeOverlappingSpans_correct [OF assms] by simp

theorem mergeOverlappingSpans_exact_witness:
  "covered (mergeOverlappingSpans [(9000, 9100), (443, 443), (9050, 9200)]) =
     covered [(9000, 9100), (443, 443), (9050, 9200)] \<and>
   disjoint_spans (mergeOverlappingSpans [(9000, 9100), (443, 443), (9050, 9200)])"
  by (rule mergeOverlappingSpans_exact) (simp add: valid_span_def)

text \<open>
  Theorem: carving removes exactly the denied ports, whatever the order of the deny spans: a port
  is left in the result if and only if it was allowed and is in no deny span. On canonical
  allow spans the result is canonical again.
\<close>

theorem subtractSpans_exact:
  assumes "valid_spans allow" "valid_spans deny"
  shows "covered (subtractSpans allow deny) = covered allow - covered deny \<and>
    (disjoint_spans allow \<longrightarrow> disjoint_spans (subtractSpans allow deny))"
  using subtractSpans_covered [OF assms] subtractSpans_disjoint assms(2) by blast

theorem subtractSpans_exact_witness:
  "covered (subtractSpans [(45, 50)] [(47, 47), (40, 45)]) = covered [(45, 50)] - covered [(47, 47), (40, 45)] \<and>
   subtractSpans [(45, 50)] [(47, 47), (40, 45)] = [(46, 46), (48, 50)]"
proof
  show "covered (subtractSpans [(45, 50)] [(47, 47), (40, 45)]) =
      covered [(45, 50)] - covered [(47, 47), (40, 45)]"
    using subtractSpans_exact [of "[(45, 50)]" "[(47, 47), (40, 45)]"]
    by (simp add: valid_span_def del: covered_simps)
  show "subtractSpans [(45, 50)] [(47, 47), (40, 45)] = [(46, 46), (48, 50)]" by code_simp
qed

text \<open>
  Theorem: printing a port span and parsing it back is the identity on valid spans, single ports
  and ranges alike.
\<close>

theorem port_spec_roundtrip:
  assumes "valid_span sp"
  shows "ParsePortSpec (formatSpan sp) = Inr (fst sp, snd sp, True)"
  using assms by (rule ParsePortSpec_formatSpan)

theorem port_spec_roundtrip_witness:
  "ParsePortSpec (formatSpan (9000, 9100)) = Inr (9000, 9100, True) \<and>
   formatSpan (9000, 9100) = ''9000-9100''"
proof
  show "ParsePortSpec (formatSpan (9000, 9100)) = Inr (9000, 9100, True)"
    using port_spec_roundtrip [of "(9000, 9100)"] by (simp add: valid_span_def)
  show "formatSpan (9000, 9100) = ''9000-9100''"
    by (simp add: formatSpan_def itoa_eval)
qed

text \<open>
  Theorem: the overlap search returns the lowest port present in both span sets, and reports no
  overlap exactly when the sets share no port.
\<close>

theorem lowestSpanOverlap_lowest:
  assumes "valid_spans a" "valid_spans b"
  shows "case lowestSpanOverlap a b of
      None \<Rightarrow> covered a \<inter> covered b = {}
    | Some p \<Rightarrow> p \<in> covered a \<inter> covered b \<and> (\<forall>q \<in> covered a \<inter> covered b. p \<le> q)"
  using assms by (rule lowestSpanOverlap_cases)

theorem lowestSpanOverlap_lowest_witness:
  "lowestSpanOverlap [(10, 20), (5, 6)] [(15, 30), (6, 6)] = Some 6 \<and>
   6 \<in> covered [(10, 20), (5, 6)] \<inter> covered [(15, 30), (6, 6)]"
proof -
  have "lowestSpanOverlap [(10, 20), (5, 6)] [(15, 30), (6, 6)] = Some 6" by code_simp
  then show ?thesis
    using lowestSpanOverlap_lowest [of "[(10, 20), (5, 6)]" "[(15, 30), (6, 6)]"]
    by (simp add: valid_span_def)
qed

end
