(* ===== verification/Rules_Store.thy ===== *)
theory Rules_Store
  imports Firewall_Domain Port_Spans
begin

text \<open>
  Validation, normalisation and merging of single egress rules, from
  \<open>controlplane/firewall/rules_store.go\<close>: what the control plane accepts from a client
  (\<open>ValidateRule\<close> and its helpers), the canonical form every stored rule has
  (\<open>NormalizeRule\<close>), the identity of a rule (\<open>RuleKey\<close>) and the merge of an incoming rule into
  a stored one (\<open>MergeRule\<close>).

  Whether a regular expression compiles is decided by Go's \<open>regexp\<close> engine. The validators
  take that decision as an argument \<open>compiles\<close> and the theorems hold for every such function.
\<close>

section \<open>Validation\<close>

datatype path_error =
    NoLeadingSlash string
  | NotAURLPath string
  | RegexNotAnchored string
  | RegexDoesNotCompile string

datatype rule_error =
    BadDst dst_error
  | InvalidPort string port_spec_error
  | InvalidField string string
  | EmptyPath
  | BadPath path_error
  | BadMethod string

text \<open>The pattern \<open>^[A-Za-z][A-Za-z-]*$\<close>.\<close>

definition methodTokenRe :: "string \<Rightarrow> bool" where
  "methodTokenRe s =
     (case s of
        [] \<Rightarrow> False
      | c # cs \<Rightarrow> (is_upper c \<or> is_lower c) \<and>
          list_all (\<lambda>d. is_upper d \<or> is_lower d \<or> d = CHR ''-'') cs)"

definition validateMethod :: "string \<Rightarrow> rule_error option" where
  "validateMethod m = (if \<not> methodTokenRe (TrimSpace m) then Some (BadMethod m) else None)"

definition regexPathMarker :: string where
  "regexPathMarker = ''~''"

text \<open>The pattern \<open>^[A-Za-z0-9._~!$&'()*+,;=:@/%-]+$\<close>; 0x27 is the quote.\<close>

definition literalPathChars :: "string \<Rightarrow> bool" where
  "literalPathChars s \<longleftrightarrow>
     s \<noteq> [] \<and>
     list_all (\<lambda>c. is_upper c \<or> is_lower c \<or> is_digit c \<or>
       c \<in> set (''._~!$&()*+,;=:@/%-'' @ [CHR 0x27])) s"

definition validatePathRulePath :: "(string \<Rightarrow> bool) \<Rightarrow> string \<Rightarrow> path_error option" where
  "validatePathRulePath compiles path =
     (if \<not> HasPrefix path regexPathMarker then
        (if \<not> HasPrefix path ''/'' then Some (NoLeadingSlash path)
         else if \<not> literalPathChars path then Some (NotAURLPath path)
         else None)
      else
        (let rx = TrimPrefix path regexPathMarker; anchored = TrimPrefix rx ''^'' in
         if \<not> HasPrefix anchored ''/'' then Some (RegexNotAnchored path)
         else if \<not> compiles rx then Some (RegexDoesNotCompile path)
         else None))"

definition validateActionField :: "string \<Rightarrow> string \<Rightarrow> rule_error option" where
  "validateActionField name val =
     (if ToLower val \<in> set [[], ''allow'', ''deny''] then None
      else Some (InvalidField name val))"

text \<open>The first error of a loop body over a slice.\<close>

fun first_error :: "('a \<Rightarrow> 'e option) \<Rightarrow> 'a list \<Rightarrow> 'e option" where
  "first_error f [] = None"
| "first_error f (x # xs) = (case f x of Some e \<Rightarrow> Some e | None \<Rightarrow> first_error f xs)"

definition validate_path_rule :: "(string \<Rightarrow> bool) \<Rightarrow> PathRule \<Rightarrow> rule_error option" where
  "validate_path_rule compiles pr =
     (if TrimSpace (Path pr) = [] then Some EmptyPath
      else
        (case validatePathRulePath compiles (Path pr) of
           Some e \<Rightarrow> Some (BadPath e)
         | None \<Rightarrow>
             (case validateActionField ''path rule action'' (PathAction pr) of
                Some e \<Rightarrow> Some e
              | None \<Rightarrow> first_error validateMethod (Methods pr))))"

definition ValidateRule :: "(string \<Rightarrow> bool) \<Rightarrow> EgressRule \<Rightarrow> rule_error option" where
  "ValidateRule compiles r =
     (case ValidateDst (Dst r) of
        Some e \<Rightarrow> Some (BadDst e)
      | None \<Rightarrow>
          (case ValidatePortSpec r of
             Some e \<Rightarrow> Some (InvalidPort (Port r) e)
           | None \<Rightarrow>
               (case validateActionField ''action'' (Action r) of
                  Some e \<Rightarrow> Some e
                | None \<Rightarrow>
                    (case validateActionField ''path_default'' (PathDefault r) of
                       Some e \<Rightarrow> Some e
                     | None \<Rightarrow> first_error (validate_path_rule compiles) (PathRules r)))))"

section \<open>Normalisation\<close>

definition normalizeMethods :: "string list \<Rightarrow> string list" where
  "normalizeMethods methods =
     (if methods = [] then []
      else
        (let out = dedup_by id [] (filter (\<lambda>m. m \<noteq> []) (map (\<lambda>m. ToUpper (TrimSpace m)) methods))
         in if out = [] then [] else sort out))"

definition default_port :: "string \<Rightarrow> string" where
  "default_port proto =
     (if ToLower proto \<in> set [''https'', ''wss''] then ''443''
      else if ToLower proto \<in> set [''http'', ''ws''] then ''80''
      else if ToLower proto = ''ssh'' then ''22''
      else [])"

definition NormalizeRule :: "EgressRule \<Rightarrow> EgressRule" where
  "NormalizeRule r0 =
     (let r1 = (if ToLower (Proto r0) = ''tls'' then r0\<lparr>Proto := ''https''\<rparr> else r0);
          r2 = (if Proto r1 = [] then r1\<lparr>Proto := ''https''\<rparr> else r1);
          r3 = (if Action r2 = [] then r2\<lparr>Action := ''allow''\<rparr> else r2);
          r4 = (if Port r3 = [] then r3\<lparr>Port := default_port (Proto r3)\<rparr> else r3)
      in if PathRules r4 \<noteq> []
         then r4\<lparr>PathRules := map (\<lambda>p. p\<lparr>Methods := normalizeMethods (Methods p)\<rparr>) (PathRules r4)\<rparr>
         else r4)"

section \<open>Identity and merging\<close>

definition RuleKey :: "EgressRule \<Rightarrow> string" where
  "RuleKey r = Dst r @ '':'' @ Proto r @ '':'' @ Port r"

definition mergePathRules :: "PathRule list \<Rightarrow> PathRule list \<Rightarrow> PathRule list" where
  "mergePathRules existing incoming =
     (if incoming = [] then existing
      else snd (foldl (upsert Path (\<lambda>old p. p)) (build_index Path 0 existing Map.empty, existing)
             incoming))"

definition MergeRule :: "EgressRule \<Rightarrow> EgressRule \<Rightarrow> EgressRule" where
  "MergeRule existing incoming =
     (let out = existing\<lparr>Action := Action incoming\<rparr>;
          out = (if PathDefault incoming \<noteq> [] then out\<lparr>PathDefault := PathDefault incoming\<rparr> else out)
      in out\<lparr>PathRules := mergePathRules (PathRules existing) (PathRules incoming)\<rparr>)"

section \<open>Warnings\<close>

datatype warning =
    SkippingEmptyDomain string
  | SkippingBadPort string string port_spec_error
  | IgnoringPathRules string string string
  | CoalescedOverlapping string string
  | DenyWins string string string string

definition pathRuleEnforcementWarning :: "EgressRule \<Rightarrow> warning option" where
  "pathRuleEnforcementWarning r =
     (if IsHTTPFamilyProto (Proto r) \<or> PathRules r = [] then None
      else
        (let hasMethods = list_ex (\<lambda>pr. Methods pr \<noteq> []) (PathRules r);
             what = (if hasMethods then ''path/method rules'' else ''path rules'')
         in Some (IgnoringPathRules what (Dst r) (Proto r))))"

section \<open>Lemmas on normalisation\<close>

lemma first_error_None: "first_error f xs = None \<longleftrightarrow> (\<forall>x \<in> set xs. f x = None)"
  by (induction xs) (auto split: option.splits)

lemma normalizeMethods_set:
  "set (normalizeMethods ms) = {m. m \<noteq> [] \<and> m \<in> (\<lambda>m. ToUpper (TrimSpace m)) ` set ms}"
proof -
  have "set (dedup_by id [] xs) = set xs" for xs :: "string list"
    using dedup_by_keys [of id "[]" xs] by simp
  then have "dedup_by id [] xs = [] \<longleftrightarrow> xs = []" "set (dedup_by id [] xs) = set xs"
    for xs :: "string list"
    by (metis set_empty)+
  then show ?thesis by (auto simp: normalizeMethods_def Let_def image_iff filter_empty_conv)
qed

lemma normalizeMethods_canonical:
  "sorted (normalizeMethods ms) \<and> distinct (normalizeMethods ms)"
  using dedup_by_distinct [of id "[]"] by (auto simp: normalizeMethods_def Let_def)

lemma normalizeMethods_idem [simp]: "normalizeMethods (normalizeMethods ms) = normalizeMethods ms"
proof (rule sorted_distinct_set_unique)
  have "ToUpper (TrimSpace m) = m" if "m \<in> set (normalizeMethods ms)" for m
    using that by (auto simp: normalizeMethods_set TrimSpace_ToUpper)
  moreover have "m \<noteq> []" if "m \<in> set (normalizeMethods ms)" for m
    using that by (auto simp: normalizeMethods_set)
  ultimately show "set (normalizeMethods (normalizeMethods ms)) = set (normalizeMethods ms)"
    unfolding normalizeMethods_set [of "normalizeMethods ms"] by force
qed (simp_all add: normalizeMethods_canonical)

lemma NormalizeRule_fields [rule_simps]:
  "Dst (NormalizeRule r) = Dst r"
  "Proto (NormalizeRule r) =
     (if ToLower (Proto r) = ''tls'' \<or> Proto r = [] then ''https'' else Proto r)"
  "Action (NormalizeRule r) = (if Action r = [] then ''allow'' else Action r)"
  "Port (NormalizeRule r) = (if Port r = [] then default_port (Proto (NormalizeRule r)) else Port r)"
  "PathRules (NormalizeRule r) =
     map (\<lambda>p. p\<lparr>Methods := normalizeMethods (Methods p)\<rparr>) (PathRules r)"
  "PathDefault (NormalizeRule r) = PathDefault r"
  "InsecureSkipTLSVerify (NormalizeRule r) = InsecureSkipTLSVerify r"
  by (simp_all add: NormalizeRule_def Let_def)

lemma EgressRule_eqI:
  fixes r s :: EgressRule
  assumes "Dst r = Dst s" "Proto r = Proto s" "Port r = Port s" "Action r = Action s"
    "PathRules r = PathRules s" "PathDefault r = PathDefault s"
    "InsecureSkipTLSVerify r = InsecureSkipTLSVerify s"
  shows "r = s"
  using assms by (cases r, cases s) simp

lemma NormalizeRule_idem: "NormalizeRule (NormalizeRule r) = NormalizeRule r"
proof -
  have "ToLower ''https'' \<noteq> ''tls''" by code_simp
  then show ?thesis
    by (intro EgressRule_eqI) (auto simp: NormalizeRule_fields)
qed

lemma isDenyAction_NormalizeRule [rule_simps]:
  "isDenyAction (Action (NormalizeRule r)) = isDenyAction (Action r)"
proof -
  have "ToLower ''allow'' \<noteq> ''deny''" "ToLower [] \<noteq> ''deny''" by code_simp+
  then show ?thesis by (auto simp: isDenyAction_def NormalizeRule_fields)
qed

lemma ParsePortSpec_defaults [simp]:
  "ParsePortSpec ''443'' = Inr (443, 443, True)" "ParsePortSpec ''80'' = Inr (80, 80, True)"
  "ParsePortSpec ''22'' = Inr (22, 22, True)"
  using ParsePortSpec_formatSpan [of "(443, 443)"] ParsePortSpec_formatSpan [of "(80, 80)"]
    ParsePortSpec_formatSpan [of "(22, 22)"]
  by (simp_all add: formatSpan_def itoa_eval valid_span_def)

lemma ValidatePortSpec_NormalizeRule [rule_simps]:
  "ValidatePortSpec (NormalizeRule r) = ValidatePortSpec r"
  by (auto simp: ValidatePortSpec_def NormalizeRule_fields default_port_def)

lemma RuleKey_eq:
  assumes "CHR '':'' \<notin> set (Proto r)" "CHR '':'' \<notin> set (Proto s)"
    "CHR '':'' \<notin> set (Port r)" "CHR '':'' \<notin> set (Port s)"
  shows "RuleKey r = RuleKey s \<longleftrightarrow> Dst r = Dst s \<and> Proto r = Proto s \<and> Port r = Port s"
proof
  assume "RuleKey r = RuleKey s"
  then have "(Dst r @ '':'' @ Proto r) @ CHR '':'' # Port r = (Dst s @ '':'' @ Proto s) @ CHR '':'' # Port s"
    by (simp add: RuleKey_def)
  from last_sep_eq [OF this assms(3,4)]
  have "Dst r @ CHR '':'' # Proto r = Dst s @ CHR '':'' # Proto s" "Port r = Port s" by auto
  with last_sep_eq [OF this(1) assms(1,2)] show "Dst r = Dst s \<and> Proto r = Proto s \<and> Port r = Port s"
    by simp
qed (simp add: RuleKey_def)

section \<open>Lemmas on merging\<close>

interpretation path_upsert: keyed_upsert Path "\<lambda>old p. p"
  by unfold_locales simp

lemma RuleKey_MergeRule [rule_simps]: "RuleKey (MergeRule x y) = RuleKey x"
  by (simp add: MergeRule_def RuleKey_def Let_def)

interpretation rule_upsert: keyed_upsert RuleKey MergeRule
  by unfold_locales (simp add: RuleKey_MergeRule)

lemma foldl_replace:
  "foldl (\<lambda>r p. Some (case r of None \<Rightarrow> p | Some x \<Rightarrow> p)) z ps =
     (if ps = [] then z else Some (last ps))"
  by (induction ps rule: rev_induct) (auto split: option.splits)

lemma last_with_filter:
  "last_with key k xs =
     (let fs = filter (\<lambda>x. key x = k) xs in if fs = [] then None else Some (last fs))"
  by (induction xs rule: rev_induct) (auto simp: last_with_snoc Let_def)

lemma mergePathRules_lookup:
  "last_with Path q (mergePathRules existing incoming) =
     (case last_with Path q incoming of Some p \<Rightarrow> Some p | None \<Rightarrow> last_with Path q existing)"
proof (cases "incoming = []")
  case False
  then show ?thesis
    using path_upsert.upserts_lookup [OF index_ok_build_index [of Path existing], of q incoming]
    by (auto simp: mergePathRules_def foldl_replace last_with_filter [of _ _ incoming] Let_def)
qed (simp add: mergePathRules_def)

lemma mergePathRules_paths:
  "\<exists>new. map Path (mergePathRules existing incoming) = map Path existing @ new \<and>
     distinct new \<and> set new = Path ` set incoming - Path ` set existing"
proof (cases "incoming = []")
  case False
  then show ?thesis
    using path_upsert.upserts_prefix [OF index_ok_build_index [of Path existing], of incoming]
    by (simp add: mergePathRules_def)
qed (simp add: mergePathRules_def)

section \<open>Lemmas on validation\<close>

lemma ValidateRule_parts:
  assumes "ValidateRule compiles r = None"
  shows "ValidateDst (Dst r) = None" "ValidatePortSpec r = None"
    "\<forall>pr \<in> set (PathRules r). validate_path_rule compiles pr = None"
  using assms by (auto simp: ValidateRule_def first_error_None split: option.splits)

lemma upper_upper_char: "is_upper c \<or> is_lower c \<Longrightarrow> is_upper (upper_char c)"
  by (auto simp: upper_char_def is_upper_def is_lower_def byte_of_char_of)

lemma methodTokenRe_ToUpper:
  assumes "methodTokenRe s"
  shows "ToUpper s \<noteq> [] \<and> is_upper (hd (ToUpper s)) \<and>
    (\<forall>c \<in> set (ToUpper s). is_upper c \<or> c = CHR ''-'')"
proof -
  have "upper_char (CHR ''-'') = CHR ''-''" by code_simp
  then show ?thesis
    using assms upper_upper_char
    by (auto simp: methodTokenRe_def ToUpper_def list_all_iff split: list.splits)
qed

definition anchored_path :: "(string \<Rightarrow> bool) \<Rightarrow> string \<Rightarrow> bool" where
  "anchored_path compiles path \<longleftrightarrow>
     (\<exists>t. path = CHR ''/'' # t) \<or>
     (\<exists>rx. path = CHR ''~'' # rx \<and> compiles rx \<and> (\<exists>t. rx = CHR ''/'' # t \<or> rx = ''^/'' @ t))"

lemma validatePathRulePath_anchored:
  assumes "validatePathRulePath compiles path = None"
  shows "anchored_path compiles path"
proof (cases "HasPrefix path regexPathMarker")
  case False
  then show ?thesis using assms
    by (auto simp: validatePathRulePath_def anchored_path_def HasPrefix_append split: if_splits)
next
  case True
  then obtain rx where p: "path = CHR ''~'' # rx"
    by (auto simp: HasPrefix_append regexPathMarker_def)
  then have "TrimPrefix path regexPathMarker = rx"
    by (simp add: TrimPrefix_def HasPrefix_def regexPathMarker_def)
  then have rx: "HasPrefix (TrimPrefix rx ''^'') ''/''" "compiles rx"
    using assms True by (auto simp: validatePathRulePath_def Let_def split: if_splits)
  then show ?thesis
    using p by (auto simp: anchored_path_def TrimPrefix_def HasPrefix_append split: if_splits)
qed

section \<open>Properties\<close>

text \<open>
  Theorem: normalisation is idempotent and keeps the destination, the allow/deny decision and the
  validity of the port specification, so a stored rule is a fixed point of the canonical form.
\<close>

theorem NormalizeRule_canonical:
  "NormalizeRule (NormalizeRule r) = NormalizeRule r \<and>
   Dst (NormalizeRule r) = Dst r \<and>
   isDenyAction (Action (NormalizeRule r)) = isDenyAction (Action r) \<and>
   ValidatePortSpec (NormalizeRule r) = ValidatePortSpec r"
  by (simp add: NormalizeRule_idem isDenyAction_NormalizeRule ValidatePortSpec_NormalizeRule
      NormalizeRule_fields(1))

text \<open>
  Theorem: in a rule the validator accepts, every path rule is anchored at the path root (a
  literal starting with a slash, or a regex that compiles and starts with a slash or a caret
  and a slash), and after normalisation every method is a non-empty token of upper-case
  letters and hyphens starting with a letter, so it cannot inject regex syntax into the
  generated method matcher.
\<close>

theorem accepted_path_rules_safe:
  assumes "ValidateRule compiles r = None" "pr \<in> set (PathRules (NormalizeRule r))"
  shows "anchored_path compiles (Path pr) \<and>
    (\<forall>m \<in> set (Methods pr).
      m \<noteq> [] \<and> is_upper (hd m) \<and> (\<forall>c \<in> set m. is_upper c \<or> c = CHR ''-''))"
proof
  from assms(2) obtain p where p: "p \<in> set (PathRules r)" "pr = p\<lparr>Methods := normalizeMethods (Methods p)\<rparr>"
    by (auto simp: NormalizeRule_fields)
  have ok: "validate_path_rule compiles p = None" using ValidateRule_parts(3) [OF assms(1)] p by simp
  then have "validatePathRulePath compiles (Path p) = None"
    by (auto simp: validate_path_rule_def split: if_splits option.splits)
  then show "anchored_path compiles (Path pr)" using validatePathRulePath_anchored p by simp
  have ms: "\<forall>m \<in> set (Methods p). methodTokenRe (TrimSpace m)"
    using ok
    by (auto simp: validate_path_rule_def first_error_None validateMethod_def
        split: if_splits option.splits)
  show "\<forall>m \<in> set (Methods pr).
      m \<noteq> [] \<and> is_upper (hd m) \<and> (\<forall>c \<in> set m. is_upper c \<or> c = CHR ''-'')"
    using ms methodTokenRe_ToUpper p(2) by (fastforce simp: normalizeMethods_set)
qed

text \<open>A concrete rule the witnesses evaluate.\<close>

definition sample_rule :: EgressRule where
  "sample_rule =
     \<lparr>Dst = ''api.example.com'', Proto = [], Port = [], Action = [],
      PathRules = [\<lparr>Path = ''/v1'', PathAction = ''allow'', Methods = [''post'', ''GET'', ''Post'']\<rparr>],
      PathDefault = [], InsecureSkipTLSVerify = False\<rparr>"

lemmas ascii_eval = TrimSpace_graph_ends char_eval ToLower_def ToUpper_def

lemma sample_rule_dst: "ValidateDst ''api.example.com'' = None"
  by code_simp

lemma sample_rule_valid: "ValidateRule (\<lambda>_. True) sample_rule = None"
  by (simp add: ValidateRule_def sample_rule_def sample_rule_dst ValidatePortSpec_def
      validateActionField_def validate_path_rule_def validatePathRulePath_def validateMethod_def
      HasPrefix_def regexPathMarker_def literalPathChars_def methodTokenRe_def ascii_eval)

lemma sample_rule_paths:
  "PathRules (NormalizeRule sample_rule) =
     [\<lparr>Path = ''/v1'', PathAction = ''allow'', Methods = [''GET'', ''POST'']\<rparr>]"
proof -
  have "ToUpper ''post'' = ''POST''" "ToUpper ''GET'' = ''GET''" "ToUpper ''Post'' = ''POST''"
    by code_simp+
  then show ?thesis
    by (simp add: NormalizeRule_fields sample_rule_def normalizeMethods_def TrimSpace_graph_ends
        char_eval)
qed

theorem accepted_path_rules_safe_witness:
  "ValidateRule (\<lambda>_. True) sample_rule = None \<and>
   anchored_path (\<lambda>_. True) ''/v1'' \<and>
   list_all (\<lambda>m. m \<noteq> [] \<and> is_upper (hd m)) [''GET'', ''POST'']"
  using accepted_path_rules_safe [OF sample_rule_valid,
      of "\<lparr>Path = ''/v1'', PathAction = ''allow'', Methods = [''GET'', ''POST'']\<rparr>"]
  by (simp add: sample_rule_valid sample_rule_paths)

text \<open>
  Theorem: merging an incoming rule into a stored one keeps the stored identity and TLS
  setting, takes the incoming action, keeps the stored path default when the incoming one is
  unset, and for every path the merged rule decides like the incoming rule if that names the
  path and like the stored one otherwise; stored paths keep their order and new ones are
  appended once each.
\<close>

theorem MergeRule_spec:
  "RuleKey (MergeRule existing incoming) = RuleKey existing \<and>
   InsecureSkipTLSVerify (MergeRule existing incoming) = InsecureSkipTLSVerify existing \<and>
   Action (MergeRule existing incoming) = Action incoming \<and>
   PathDefault (MergeRule existing incoming) =
     (if PathDefault incoming = [] then PathDefault existing else PathDefault incoming) \<and>
   (\<forall>q. last_with Path q (PathRules (MergeRule existing incoming)) =
     (case last_with Path q (PathRules incoming) of
        Some p \<Rightarrow> Some p
      | None \<Rightarrow> last_with Path q (PathRules existing))) \<and>
   (\<exists>new. map Path (PathRules (MergeRule existing incoming)) = map Path (PathRules existing) @ new \<and>
     distinct new \<and> set new = Path ` set (PathRules incoming) - Path ` set (PathRules existing))"
proof -
  have "PathRules (MergeRule existing incoming) =
      mergePathRules (PathRules existing) (PathRules incoming)"
    by (simp add: MergeRule_def Let_def)
  then show ?thesis
    using mergePathRules_lookup [of _ "PathRules existing" "PathRules incoming"]
      mergePathRules_paths [of "PathRules existing" "PathRules incoming"]
    by (simp add: MergeRule_def RuleKey_def Let_def)
qed

end
