(* ===== verification/Opaque_Conflicts.thy ===== *)
theory Opaque_Conflicts
  imports Rules_Store
begin

text \<open>
  The canonical rule set: \<open>resolveOpaquePortConflicts\<close>, \<open>NormalizeAndDedup\<close> and
  \<open>rulesCanonicalEqual\<close> of \<open>controlplane/firewall/rules_store.go\<close>. Opaque rules (tcp, ssh,
  udp) with a port are grouped by destination and protocol; within a group overlapping spans of
  one action are merged and denied ports are carved out of the allowed ones.

  A group holds the first rule of each action as the template of the rules it emits. The
  pointers \<open>allowTmpl\<close> and \<open>denyTmpl\<close> are options; lemma \<open>group_of_templates\<close> shows that a
  template is present whenever there is a span to emit with it, so the source's dereferences
  are safe and the empty branch of the model is never taken with spans left.
\<close>

section \<open>Resolving opaque port conflicts\<close>

record group =
  allowTmpl :: "EgressRule option"
  denyTmpl :: "EgressRule option"
  allowSpans :: "span list"
  denySpans :: "span list"

datatype slot = SlotRule EgressRule | SlotGroup string

definition empty_group :: group where
  "empty_group = \<lparr>allowTmpl = None, denyTmpl = None, allowSpans = [], denySpans = []\<rparr>"

definition group_key :: "EgressRule \<Rightarrow> string" where
  "group_key r = normalizeDomain (Dst r) @ [CHR 0x00] @ ToLower (Proto r)"

definition group_add :: "group \<Rightarrow> EgressRule \<Rightarrow> span \<Rightarrow> group" where
  "group_add g r sp =
     (if isDenyAction (Action r) then
        g\<lparr>denyTmpl := (case denyTmpl g of None \<Rightarrow> Some r | Some t \<Rightarrow> Some t),
          denySpans := denySpans g @ [sp]\<rparr>
      else
        g\<lparr>allowTmpl := (case allowTmpl g of None \<Rightarrow> Some r | Some t \<Rightarrow> Some t),
          allowSpans := allowSpans g @ [sp]\<rparr>)"

definition group_step ::
  "(string \<rightharpoonup> group) \<times> slot list \<Rightarrow> EgressRule \<Rightarrow> (string \<rightharpoonup> group) \<times> slot list" where
  "group_step st r =
     (case st of (groups, order) \<Rightarrow>
        (case PortSpan r of
           None \<Rightarrow> (groups, order @ [SlotRule r])
         | Some sp \<Rightarrow>
             if \<not> isOpaqueProto (Proto r) then (groups, order @ [SlotRule r])
             else
               (let key = group_key r in
                (case groups key of
                   None \<Rightarrow> (groups(key \<mapsto> group_add empty_group r sp), order @ [SlotGroup key])
                 | Some g \<Rightarrow> (groups(key \<mapsto> group_add g r sp), order)))))"

definition carve_set :: "span list \<Rightarrow> span list \<Rightarrow> span list" where
  "carve_set mergedAllow mergedDeny =
     filter (\<lambda>sp. \<not> (fst sp = snd sp \<and> (fst sp, fst sp) \<in> set mergedAllow)) mergedDeny"

definition emit_with :: "EgressRule option \<Rightarrow> span list \<Rightarrow> EgressRule list" where
  "emit_with tmpl sps =
     (case tmpl of None \<Rightarrow> [] | Some t \<Rightarrow> map (\<lambda>sp. t\<lparr>Port := formatSpan sp\<rparr>) sps)"

definition emit_group :: "group \<Rightarrow> EgressRule list \<times> warning list" where
  "emit_group g =
     (let mergedDeny = mergeOverlappingSpans (denySpans g);
          mergedAllow = mergeOverlappingSpans (allowSpans g);
          carveDeny = carve_set mergedAllow mergedDeny;
          allowOut = subtractSpans mergedAllow carveDeny;
          (dst, proto) =
            (case denyTmpl g of
               Some t \<Rightarrow> (Dst t, ToLower (Proto t))
             | None \<Rightarrow>
                 (case allowTmpl g of Some t \<Rightarrow> (Dst t, ToLower (Proto t)) | None \<Rightarrow> ([], [])));
          w1 = (if mergedSpansChanged (allowSpans g) mergedAllow \<or>
                   mergedSpansChanged (denySpans g) mergedDeny
                then [CoalescedOverlapping proto dst] else []);
          w2 = (if mergedDeny \<noteq> [] \<and> \<not> spansEqual mergedAllow allowOut
                then [DenyWins proto dst (formatSpans mergedDeny) (formatSpans allowOut)] else [])
      in (emit_with (denyTmpl g) mergedDeny @ emit_with (allowTmpl g) allowOut, w1 @ w2))"

definition emit_slot :: "(string \<rightharpoonup> group) \<Rightarrow> slot \<Rightarrow> EgressRule list \<times> warning list" where
  "emit_slot groups s =
     (case s of
        SlotRule r \<Rightarrow> ([r], [])
      | SlotGroup key \<Rightarrow> (case groups key of None \<Rightarrow> ([], []) | Some g \<Rightarrow> emit_group g))"

definition resolveOpaquePortConflicts :: "EgressRule list \<Rightarrow> EgressRule list \<times> warning list" where
  "resolveOpaquePortConflicts rules =
     (let (groups, order) = foldl group_step (Map.empty, []) rules
      in (concat (map (fst \<circ> emit_slot groups) order), concat (map (snd \<circ> emit_slot groups) order)))"

section \<open>NormalizeAndDedup\<close>

definition action_key :: "EgressRule \<Rightarrow> string" where
  "action_key r =
     RuleKey r @ [CHR 0x00] @ (if isDenyAction (Action r) then ''deny'' else ''allow'')"

fun normalize_loop :: "string list \<Rightarrow> EgressRule list \<Rightarrow> EgressRule list \<times> warning list" where
  "normalize_loop seen [] = ([], [])"
| "normalize_loop seen (r0 # rs) =
     (let r = NormalizeRule r0 in
      if normalizeDomain (Dst r) = [] then
        (let (out, ws) = normalize_loop seen rs in (out, SkippingEmptyDomain (Dst r) # ws))
      else
        (case ValidatePortSpec r of
           Some e \<Rightarrow>
             (let (out, ws) = normalize_loop seen rs
              in (out, SkippingBadPort (Dst r) (Proto r) e # ws))
         | None \<Rightarrow>
             (let w = (case pathRuleEnforcementWarning r of None \<Rightarrow> [] | Some w \<Rightarrow> [w]) in
              if action_key r \<in> set seen then
                (let (out, ws) = normalize_loop seen rs in (out, w @ ws))
              else
                (let (out, ws) = normalize_loop (action_key r # seen) rs in (r # out, w @ ws)))))"

definition NormalizeAndDedup :: "EgressRule list \<Rightarrow> EgressRule list \<times> warning list" where
  "NormalizeAndDedup rules =
     (let (out, warnings) = normalize_loop [] rules;
          (out, resolveWarnings) = resolveOpaquePortConflicts out
      in (out, warnings @ resolveWarnings))"

text \<open>
  The order-independent comparison sorts both sides by key and action. The source's sort is
  not stable; lemma \<open>rulesCanonicalEqual_set\<close> below only speaks of lists without two rules of
  one key, where every sort gives the same list.
\<close>

definition rulesCanonicalEqual :: "EgressRule list \<Rightarrow> EgressRule list \<Rightarrow> bool" where
  "rulesCanonicalEqual a b \<longleftrightarrow>
     length a = length b \<and> sort_key action_key a = sort_key action_key b"

section \<open>The group a rule set denotes\<close>

definition grouped :: "EgressRule \<Rightarrow> bool" where
  "grouped r \<longleftrightarrow> PortSpan r \<noteq> None \<and> isOpaqueProto (Proto r)"

definition members :: "string \<Rightarrow> EgressRule list \<Rightarrow> EgressRule list" where
  "members k rs = filter (\<lambda>r. grouped r \<and> group_key r = k) rs"

definition spans :: "bool \<Rightarrow> EgressRule list \<Rightarrow> span list" where
  "spans deny ms = map (\<lambda>r. the (PortSpan r)) (filter (\<lambda>r. isDenyAction (Action r) = deny) ms)"

definition group_of :: "EgressRule list \<Rightarrow> group" where
  "group_of ms =
     \<lparr>allowTmpl = find (\<lambda>r. \<not> isDenyAction (Action r)) ms,
      denyTmpl = find (\<lambda>r. isDenyAction (Action r)) ms,
      allowSpans = spans False ms, denySpans = spans True ms\<rparr>"

fun slots :: "string set \<Rightarrow> EgressRule list \<Rightarrow> slot list" where
  "slots seen [] = []"
| "slots seen (r # rs) =
     (if \<not> grouped r then SlotRule r # slots seen rs
      else if group_key r \<in> seen then slots seen rs
      else SlotGroup (group_key r) # slots (insert (group_key r) seen) rs)"

lemma members_simps [simp]:
  "members k [] = []"
  "members k (r # rs) = (if grouped r \<and> group_key r = k then r # members k rs else members k rs)"
  "members k (rs @ rs') = members k rs @ members k rs'"
  by (auto simp: members_def)

lemma members_grouped: "r \<in> set (members k rs) \<longleftrightarrow> r \<in> set rs \<and> grouped r \<and> group_key r = k"
  by (auto simp: members_def)

lemma group_of_Nil: "group_of [] = empty_group"
  by (simp add: group_of_def empty_group_def spans_def)

lemma group_of_snoc: "group_of (ms @ [r]) = group_add (group_of ms) r (the (PortSpan r))"
  by (auto simp: group_of_def group_add_def spans_def find_append split: option.splits)

lemma slots_snoc:
  "slots seen (rs @ [r]) = slots seen rs @
     (if \<not> grouped r then [SlotRule r]
      else if group_key r \<in> seen \<or> members (group_key r) rs \<noteq> [] then []
      else [SlotGroup (group_key r)])"
  by (induction rs arbitrary: seen) auto

lemma group_fold:
  "foldl group_step (Map.empty, []) rs =
     (\<lambda>k. if members k rs = [] then None else Some (group_of (members k rs)), slots {} rs)"
proof (induction rs rule: rev_induct)
  case (snoc r rs)
  show ?case
  proof (cases "grouped r")
    case False
    then show ?thesis
      using snoc by (auto simp: group_step_def grouped_def slots_snoc split: option.splits)
  next
    case True
    then obtain sp where "PortSpan r = Some sp" "isOpaqueProto (Proto r)"
      by (auto simp: grouped_def)
    then show ?thesis
      using snoc True
      by (auto simp: group_step_def slots_snoc group_of_snoc Let_def fun_eq_iff
          group_of_snoc [of "[]", simplified] group_of_Nil split: option.splits)
  qed
qed simp

definition block :: "EgressRule list \<Rightarrow> EgressRule list" where
  "block ms = fst (emit_group (group_of ms))"

definition slot_rules :: "EgressRule list \<Rightarrow> slot \<Rightarrow> EgressRule list" where
  "slot_rules rs s = (case s of SlotRule r \<Rightarrow> [r] | SlotGroup k \<Rightarrow> block (members k rs))"

lemma SlotGroup_in_slots: "SlotGroup k \<in> set (slots seen rs) \<longleftrightarrow> k \<notin> seen \<and> members k rs \<noteq> []"
  by (induction rs arbitrary: seen) auto

lemma SlotRule_in_slots: "SlotRule r \<in> set (slots seen rs) \<longleftrightarrow> r \<in> set rs \<and> \<not> grouped r"
  by (induction rs arbitrary: seen) auto

definition slot_keys :: "slot list \<Rightarrow> string list" where
  "slot_keys ss = concat (map (\<lambda>s. case s of SlotRule r \<Rightarrow> [] | SlotGroup k \<Rightarrow> [k]) ss)"

lemma slot_keys_simps [simp]:
  "slot_keys [] = []"
  "slot_keys (SlotRule r # ss) = slot_keys ss"
  "slot_keys (SlotGroup k # ss) = k # slot_keys ss"
  by (auto simp: slot_keys_def)

lemma set_slot_keys: "k \<in> set (slot_keys ss) \<longleftrightarrow> SlotGroup k \<in> set ss"
  by (induction ss) (auto simp: slot_keys_def split: slot.splits)

lemma distinct_slot_keys: "distinct (slot_keys (slots seen rs))"
  by (induction rs arbitrary: seen) (auto simp: set_slot_keys SlotGroup_in_slots)

lemma resolve_rules:
  "fst (resolveOpaquePortConflicts rs) = concat (map (slot_rules rs) (slots {} rs))"
proof -
  have "(fst \<circ> emit_slot (\<lambda>k. if members k rs = [] then None else Some (group_of (members k rs)))) s =
      slot_rules rs s" if "s \<in> set (slots {} rs)" for s
    using that
    by (cases s rule: slot.exhaust)
      (auto simp: emit_slot_def slot_rules_def block_def SlotGroup_in_slots)
  then show ?thesis
    by (simp add: resolveOpaquePortConflicts_def group_fold cong: map_cong)
qed

text \<open>
  An output made of blocks, one per slot, each block holding only rules of its own group: the
  members of a group are its block, and the slots can be read back.
\<close>

lemma members_blocks:
  assumes "distinct (slot_keys ss)"
    and "\<forall>r. SlotRule r \<in> set ss \<longrightarrow> f (SlotRule r) = [r] \<and> \<not> grouped r"
    and "\<forall>k r. SlotGroup k \<in> set ss \<longrightarrow> r \<in> set (f (SlotGroup k)) \<longrightarrow> grouped r \<and> group_key r = k"
  shows "members k (concat (map f ss)) = (if SlotGroup k \<in> set ss then f (SlotGroup k) else [])"
  using assms
proof (induction ss)
  case (Cons s ss)
  have IH: "members k (concat (map f ss)) = (if SlotGroup k \<in> set ss then f (SlotGroup k) else [])"
    using Cons by (cases s) auto
  show ?case
  proof (cases s)
    case (SlotRule r)
    then show ?thesis using IH Cons.prems(2) by simp
  next
    case (SlotGroup j)
    have j: "members k (f s) = (if k = j then f s else [])"
      using Cons.prems(3) SlotGroup
      by (auto simp: members_def filter_id_conv filter_empty_conv)
    then show ?thesis
      using IH SlotGroup Cons.prems(1) by (auto simp: set_slot_keys)
  qed
qed simp

lemma slots_skip:
  assumes "\<forall>r \<in> set xs. grouped r \<and> group_key r \<in> seen"
  shows "slots seen (xs @ ys) = slots seen ys"
  using assms by (induction xs) auto

lemma slots_blocks:
  assumes "distinct (slot_keys ss)" "seen \<inter> set (slot_keys ss) = {}"
    and "\<forall>r. SlotRule r \<in> set ss \<longrightarrow> f (SlotRule r) = [r] \<and> \<not> grouped r"
    and "\<forall>k. SlotGroup k \<in> set ss \<longrightarrow> f (SlotGroup k) \<noteq> []"
    and "\<forall>k r. SlotGroup k \<in> set ss \<longrightarrow> r \<in> set (f (SlotGroup k)) \<longrightarrow> grouped r \<and> group_key r = k"
  shows "slots seen (concat (map f ss)) = ss"
  using assms
proof (induction ss arbitrary: seen)
  case (Cons s ss)
  show ?case
  proof (cases s)
    case (SlotRule r)
    then have "slots seen (concat (map f ss)) = ss" using Cons by auto
    then show ?thesis using SlotRule Cons.prems(3) by simp
  next
    case (SlotGroup k)
    then obtain x xs where f: "f s = x # xs" using Cons.prems(4) by (cases "f s") auto
    have x: "grouped x" "group_key x = k" "\<forall>r \<in> set xs. grouped r \<and> group_key r \<in> insert k seen"
      using Cons.prems(5) SlotGroup f by auto
    have "slots (insert k seen) (concat (map f ss)) = ss"
      using Cons SlotGroup by auto
    then show ?thesis using f x SlotGroup Cons.prems(2) slots_skip [OF x(3)] by auto
  qed
qed simp

section \<open>What a group emits\<close>

definition deny_out :: "EgressRule list \<Rightarrow> span list" where
  "deny_out ms = mergeOverlappingSpans (spans True ms)"

definition allow_out :: "EgressRule list \<Rightarrow> span list" where
  "allow_out ms =
     (let allow = mergeOverlappingSpans (spans False ms)
      in subtractSpans allow (carve_set allow (deny_out ms)))"

lemma block_eq:
  "block ms =
     emit_with (find (\<lambda>r. isDenyAction (Action r)) ms) (deny_out ms) @
     emit_with (find (\<lambda>r. \<not> isDenyAction (Action r)) ms) (allow_out ms)"
  by (simp add: block_def emit_group_def group_of_def deny_out_def allow_out_def Let_def
      split: prod.splits)

lemma spans_simps [simp]:
  "spans d [] = []"
  "spans d (r # ms) =
     (if isDenyAction (Action r) = d then the (PortSpan r) # spans d ms else spans d ms)"
  "spans d (ms @ ms') = spans d ms @ spans d ms'"
  by (auto simp: spans_def)

lemma spans_eq_Nil: "spans d ms = [] \<longleftrightarrow> (\<forall>r \<in> set ms. isDenyAction (Action r) \<noteq> d)"
  by (auto simp: spans_def filter_empty_conv)

lemma valid_spans_spans: "\<forall>r \<in> set ms. grouped r \<Longrightarrow> valid_spans (spans d ms)"
  by (auto simp: valid_spans_def spans_def grouped_def intro: PortSpan_valid)

lemma valid_spans_subset: "valid_spans ss \<Longrightarrow> set ts \<subseteq> set ss \<Longrightarrow> valid_spans ts"
  by (auto simp: valid_spans_def)

lemma carve_set_subset: "set (carve_set a d) \<subseteq> set d"
  by (auto simp: carve_set_def)

lemma group_out:
  assumes "\<forall>r \<in> set ms. grouped r"
  shows disjoint_deny_out: "disjoint_spans (deny_out ms)"
    and disjoint_allow_out: "disjoint_spans (allow_out ms)"
    and covered_deny_out: "covered (deny_out ms) = covered (spans True ms)"
    and covered_allow_out: "covered (allow_out ms) =
      covered (spans False ms) -
      covered (carve_set (mergeOverlappingSpans (spans False ms)) (deny_out ms))"
proof -
  note v = valid_spans_spans [OF assms]
  show d: "disjoint_spans (deny_out ms)" by (simp add: deny_out_def disjoint_merge v)
  then have c: "valid_spans (carve_set (mergeOverlappingSpans (spans False ms)) (deny_out ms))"
    using valid_spans_subset [OF disjoint_spans_valid carve_set_subset] by blast
  have a: "disjoint_spans (mergeOverlappingSpans (spans False ms))" by (simp add: disjoint_merge v)
  show "disjoint_spans (allow_out ms)" using subtractSpans_disjoint [OF a c]
    by (simp add: allow_out_def Let_def)
  show "covered (deny_out ms) = covered (spans True ms)" by (simp add: deny_out_def covered_merge v)
  show "covered (allow_out ms) = covered (spans False ms) -
      covered (carve_set (mergeOverlappingSpans (spans False ms)) (deny_out ms))"
    using subtractSpans_covered [OF disjoint_spans_valid [OF a] c]
    by (simp add: allow_out_def Let_def covered_merge v)
qed

lemma group_clash:
  assumes "\<forall>r \<in> set ms. grouped r" "p \<in> covered (allow_out ms)" "p \<in> covered (deny_out ms)"
  shows "(p, p) \<in> set (mergeOverlappingSpans (spans False ms)) \<and> (p, p) \<in> set (deny_out ms)"
proof -
  obtain d where d: "d \<in> set (deny_out ms)" "p \<in> ports_of d"
    using assms(3) by (auto simp: covered_def)
  have "d \<notin> set (carve_set (mergeOverlappingSpans (spans False ms)) (deny_out ms))"
    using assms(2) d(2) unfolding covered_allow_out [OF assms(1)] by (auto simp: covered_def)
  then have "fst d = snd d \<and> (fst d, fst d) \<in> set (mergeOverlappingSpans (spans False ms))"
    using d by (auto simp: carve_set_def)
  then show ?thesis using d by (cases d) (auto simp: ports_of_def)
qed

lemma spans_emit_with:
  assumes "valid_spans sps" "\<And>t. tmpl = Some t \<Longrightarrow> isDenyAction (Action t) = d"
  shows "spans e (emit_with tmpl sps) = (if d = e \<and> tmpl \<noteq> None then sps else [])"
  using assms by (cases tmpl; induction sps) (auto simp: emit_with_def)

lemma find_deny: "find (\<lambda>r. isDenyAction (Action r)) ms = Some t \<Longrightarrow> t \<in> set ms \<and> isDenyAction (Action t)"
  and find_allow: "find (\<lambda>r. \<not> isDenyAction (Action r)) ms = Some t \<Longrightarrow> t \<in> set ms \<and> \<not> isDenyAction (Action t)"
  by (auto simp: find_Some_iff)

lemma group_of_templates:
  "denySpans (group_of ms) \<noteq> [] \<Longrightarrow> denyTmpl (group_of ms) \<noteq> None"
  "allowSpans (group_of ms) \<noteq> [] \<Longrightarrow> allowTmpl (group_of ms) \<noteq> None"
  by (auto simp: group_of_def spans_eq_Nil find_None_iff)

lemma subtractSpans_Nil [simp]: "subtractSpans [] d = []"
  by (simp add: subtractSpans_def)

lemma out_templates:
  "find (\<lambda>r. isDenyAction (Action r)) ms = None \<Longrightarrow> deny_out ms = []"
  "find (\<lambda>r. \<not> isDenyAction (Action r)) ms = None \<Longrightarrow> allow_out ms = []"
proof -
  show "deny_out ms = []" if "find (\<lambda>r. isDenyAction (Action r)) ms = None"
  proof -
    have "spans True ms = []" using that by (auto simp: find_None_iff spans_eq_Nil)
    then show ?thesis by (simp add: deny_out_def)
  qed
  show "allow_out ms = []" if "find (\<lambda>r. \<not> isDenyAction (Action r)) ms = None"
  proof -
    have "spans False ms = []" using that by (auto simp: find_None_iff spans_eq_Nil)
    then show ?thesis by (simp add: allow_out_def)
  qed
qed

lemma spans_block:
  assumes "\<forall>r \<in> set ms. grouped r"
  shows "spans True (block ms) = deny_out ms" "spans False (block ms) = allow_out ms"
proof -
  note v = disjoint_spans_valid [OF disjoint_deny_out [OF assms]]
    disjoint_spans_valid [OF disjoint_allow_out [OF assms]]
  have d: "spans e (emit_with (find (\<lambda>r. isDenyAction (Action r)) ms) (deny_out ms)) =
      (if e then deny_out ms else [])" for e
    using spans_emit_with [OF v(1), of "find (\<lambda>r. isDenyAction (Action r)) ms" True e]
      find_deny [of ms] out_templates(1) [of ms] by (cases e) auto
  have a: "spans e (emit_with (find (\<lambda>r. \<not> isDenyAction (Action r)) ms) (allow_out ms)) =
      (if e then [] else allow_out ms)" for e
    using spans_emit_with [OF v(2), of "find (\<lambda>r. \<not> isDenyAction (Action r)) ms" False e]
      find_allow [of ms] out_templates(2) [of ms] by (cases e) auto
  show "spans True (block ms) = deny_out ms" "spans False (block ms) = allow_out ms"
    by (simp_all add: block_eq d a)
qed

lemma emit_with_grouped:
  assumes "r \<in> set (emit_with tmpl sps)" "valid_spans sps"
    "\<And>t. tmpl = Some t \<Longrightarrow> grouped t \<and> group_key t = k"
  shows "grouped r \<and> group_key r = k"
  using assms by (auto simp: emit_with_def grouped_def group_key_def valid_spans_def split: option.splits)

lemma block_grouped:
  assumes "\<forall>r \<in> set ms. grouped r \<and> group_key r = k" "r \<in> set (block ms)"
  shows "grouped r \<and> group_key r = k"
proof -
  have g: "\<forall>r \<in> set ms. grouped r" using assms by auto
  have d: "grouped t \<and> group_key t = k" if "find (\<lambda>r. isDenyAction (Action r)) ms = Some t" for t
    using find_deny [OF that] assms(1) by simp
  have a: "grouped t \<and> group_key t = k" if "find (\<lambda>r. \<not> isDenyAction (Action r)) ms = Some t" for t
    using find_allow [OF that] assms(1) by simp
  from assms(2) consider
      "r \<in> set (emit_with (find (\<lambda>r. isDenyAction (Action r)) ms) (deny_out ms))"
    | "r \<in> set (emit_with (find (\<lambda>r. \<not> isDenyAction (Action r)) ms) (allow_out ms))"
    unfolding block_eq by auto
  then show ?thesis
  proof cases
    case 1
    then show ?thesis
      by (rule emit_with_grouped [OF _ disjoint_spans_valid [OF disjoint_deny_out [OF g]] d])
  next
    case 2
    then show ?thesis
      by (rule emit_with_grouped [OF _ disjoint_spans_valid [OF disjoint_allow_out [OF g]] a])
  qed
qed

lemma block_members: "r \<in> set (block (members k rs)) \<Longrightarrow> grouped r \<and> group_key r = k"
  by (rule block_grouped [of "members k rs"]) (auto simp: members_grouped)

lemma block_not_Nil:
  assumes "\<forall>r \<in> set ms. grouped r" "ms \<noteq> []"
  shows "block ms \<noteq> []"
proof
  assume "block ms = []"
  then have "deny_out ms = []" "allow_out ms = []" using spans_block [OF assms(1)] by auto
  then have "spans True ms = []" "mergeOverlappingSpans (spans False ms) = []"
    by (auto simp: deny_out_def allow_out_def carve_set_def subtractSpans_def)
  then have "spans True ms = []" "spans False ms = []" by auto
  with assms(2) show False by (cases ms) (auto split: if_splits)
qed

lemma members_resolve:
  "members k (fst (resolveOpaquePortConflicts rs)) =
     (if members k rs = [] then [] else block (members k rs))"
proof -
  have "members k (concat (map (slot_rules rs) (slots {} rs))) =
      (if SlotGroup k \<in> set (slots {} rs) then slot_rules rs (SlotGroup k) else [])"
  proof (rule members_blocks)
    show "\<forall>k r. SlotGroup k \<in> set (slots {} rs) \<longrightarrow> r \<in> set (slot_rules rs (SlotGroup k)) \<longrightarrow>
        grouped r \<and> group_key r = k"
      by (auto simp: slot_rules_def dest: block_members)
  qed (auto simp: distinct_slot_keys SlotRule_in_slots slot_rules_def)
  then show ?thesis by (simp add: resolve_rules SlotGroup_in_slots slot_rules_def)
qed

section \<open>Resolving twice changes nothing\<close>

lemma allow_out_single:
  assumes "\<forall>r \<in> set ms. grouped r" "p \<in> covered (allow_out ms)" "p \<in> covered (deny_out ms)"
  shows "(p, p) \<in> set (allow_out ms)"
proof -
  let ?allow = "mergeOverlappingSpans (spans False ms)"
  note v = valid_spans_spans [OF assms(1), of False]
  have c: "valid_spans (carve_set ?allow (deny_out ms))"
    using valid_spans_subset [OF disjoint_spans_valid [OF disjoint_deny_out [OF assms(1)]]
        carve_set_subset] .
  obtain s where s: "s \<in> set (allow_out ms)" "p \<in> ports_of s"
    using assms(2) by (auto simp: covered_def)
  have "\<exists>a \<in> set ?allow. fst a \<le> fst s \<and> snd s \<le> snd a"
    using subtractSpans_within [OF disjoint_spans_valid [OF disjoint_merge [OF v]] c] s(1)
    by (simp add: allow_out_def Let_def)
  then obtain a where a: "a \<in> set ?allow" "fst a \<le> fst s" "snd s \<le> snd a" by blast
  have "a = (p, p)"
    using disjoint_spans_unique [OF disjoint_merge [OF v] a(1), of "(p, p)" p] s(2) a
      group_clash [OF assms] by (auto simp: ports_of_def)
  then have "s = (p, p)" using a s(2) by (cases s) (auto simp: ports_of_def)
  with s(1) show ?thesis by simp
qed

lemma out_block:
  assumes "\<forall>r \<in> set ms. grouped r"
  shows "deny_out (block ms) = deny_out ms" "allow_out (block ms) = allow_out ms"
proof -
  note d = disjoint_deny_out [OF assms] and a = disjoint_allow_out [OF assms]
  show deny: "deny_out (block ms) = deny_out ms"
    using mergeOverlappingSpans_id [OF d] spans_block(1) [OF assms]
    by (simp add: deny_out_def [of "block ms"])
  have "covered (allow_out ms) \<inter> covered (carve_set (allow_out ms) (deny_out ms)) = {}"
  proof (rule ccontr)
    assume "\<not> ?thesis"
    then obtain p sp where p: "p \<in> covered (allow_out ms)" "p \<in> ports_of sp"
        "sp \<in> set (deny_out ms)" "\<not> (fst sp = snd sp \<and> (fst sp, fst sp) \<in> set (allow_out ms))"
      by (auto simp: covered_def carve_set_def)
    then have cd: "p \<in> covered (deny_out ms)" by (auto simp: covered_def)
    have "sp = (p, p)"
      using disjoint_spans_unique [OF d p(3), of "(p, p)" p] group_clash [OF assms p(1) cd] p(2)
      by (auto simp: ports_of_def)
    then show False using allow_out_single [OF assms p(1) cd] p(4) by simp
  qed
  then have "subtractSpans (allow_out ms) (carve_set (allow_out ms) (deny_out ms)) = allow_out ms"
    using valid_spans_subset [OF disjoint_spans_valid [OF d] carve_set_subset]
    by (intro subtractSpans_id disjoint_spans_valid [OF a]) auto
  then show "allow_out (block ms) = allow_out ms"
    using mergeOverlappingSpans_id [OF a] spans_block(2) [OF assms] deny
    by (simp add: allow_out_def [of "block ms"] Let_def)
qed

lemma find_emit_with:
  assumes "sps \<noteq> []" "P (t\<lparr>Port := formatSpan (hd sps)\<rparr>)"
  shows "find P (emit_with (Some t) sps @ xs) = Some (t\<lparr>Port := formatSpan (hd sps)\<rparr>)"
  using assms by (cases sps) (auto simp: emit_with_def)

lemma emit_with_Port: "emit_with (Some (t\<lparr>Port := p\<rparr>)) sps = emit_with (Some t) sps"
  by (simp add: emit_with_def)

lemma emit_with_Nil [simp]: "emit_with tmpl [] = []"
  by (cases tmpl) (auto simp: emit_with_def)

lemma emit_block_deny:
  "emit_with (find (\<lambda>r. isDenyAction (Action r)) (block ms)) (deny_out ms) =
   emit_with (find (\<lambda>r. isDenyAction (Action r)) ms) (deny_out ms)"
proof (cases "deny_out ms = []")
  case False
  then obtain t where t: "find (\<lambda>r. isDenyAction (Action r)) ms = Some t"
    using out_templates(1) [of ms] by (cases "find (\<lambda>r. isDenyAction (Action r)) ms") auto
  then show ?thesis
    using find_emit_with [OF False, of "\<lambda>r. isDenyAction (Action r)" t] find_deny [OF t]
    by (simp add: block_eq emit_with_Port)
qed simp

lemma emit_block_allow:
  "emit_with (find (\<lambda>r. \<not> isDenyAction (Action r)) (block ms)) (allow_out ms) =
   emit_with (find (\<lambda>r. \<not> isDenyAction (Action r)) ms) (allow_out ms)"
proof (cases "allow_out ms = []")
  case False
  then obtain t where t: "find (\<lambda>r. \<not> isDenyAction (Action r)) ms = Some t"
    using out_templates(2) [of ms] by (cases "find (\<lambda>r. \<not> isDenyAction (Action r)) ms") auto
  have "find (\<lambda>r. \<not> isDenyAction (Action r))
      (emit_with (find (\<lambda>r. isDenyAction (Action r)) ms) (deny_out ms)) = None"
    using find_deny [of ms] by (auto simp: find_None_iff emit_with_def split: option.splits)
  then show ?thesis
    using t find_emit_with [OF False, of "\<lambda>r. \<not> isDenyAction (Action r)" t "[]"] find_allow [OF t]
    by (simp add: block_eq find_append emit_with_Port)
qed simp

lemma block_idem:
  assumes "\<forall>r \<in> set ms. grouped r"
  shows "emit_group (group_of (block ms)) = (block ms, [])"
proof -
  have "block (block ms) = block ms"
    unfolding block_eq [of "block ms"] out_block [OF assms] emit_block_deny emit_block_allow
    by (rule block_eq [symmetric])
  then have f: "fst (emit_group (group_of (block ms))) = block ms" by (simp add: block_def)
  have "mergeOverlappingSpans (deny_out ms) = deny_out ms"
    "mergeOverlappingSpans (allow_out ms) = allow_out ms"
    using disjoint_deny_out [OF assms] disjoint_allow_out [OF assms]
    by (simp_all add: mergeOverlappingSpans_id)
  moreover have "subtractSpans (allow_out ms) (carve_set (allow_out ms) (deny_out ms)) = allow_out ms"
    using out_block [OF assms] spans_block [OF assms] calculation
    by (simp add: allow_out_def [of "block ms"] Let_def)
  ultimately have "snd (emit_group (group_of (block ms))) = []"
    using spans_block [OF assms]
    by (simp add: emit_group_def group_of_def mergedSpansChanged_def spansEqual_def Let_def
        split: prod.splits)
  with f show ?thesis by (metis prod.collapse)
qed

lemma slots_resolve:
  "slots {} (fst (resolveOpaquePortConflicts rs)) = slots {} rs"
  unfolding resolve_rules
proof (rule slots_blocks)
  show "\<forall>k. SlotGroup k \<in> set (slots {} rs) \<longrightarrow> slot_rules rs (SlotGroup k) \<noteq> []"
    using block_not_Nil by (auto simp: slot_rules_def SlotGroup_in_slots members_grouped)
  show "\<forall>k r. SlotGroup k \<in> set (slots {} rs) \<longrightarrow> r \<in> set (slot_rules rs (SlotGroup k)) \<longrightarrow>
      grouped r \<and> group_key r = k"
    by (auto simp: slot_rules_def dest: block_members)
qed (auto simp: distinct_slot_keys SlotRule_in_slots slot_rules_def)

lemma concat_Nils: "(\<And>x. x \<in> set xs \<Longrightarrow> f x = []) \<Longrightarrow> concat (map f xs) = []"
  by simp

lemma resolve_idem:
  "resolveOpaquePortConflicts (fst (resolveOpaquePortConflicts rs)) =
     (fst (resolveOpaquePortConflicts rs), [])"
proof -
  let ?out = "fst (resolveOpaquePortConflicts rs)"
  let ?groups = "\<lambda>k. if members k ?out = [] then None else Some (group_of (members k ?out))"
  have e: "emit_slot ?groups s = (slot_rules rs s, [])" if "s \<in> set (slots {} rs)" for s
  proof (cases s)
    case (SlotGroup k)
    then have "members k rs \<noteq> []" using that by (simp add: SlotGroup_in_slots)
    moreover have "\<forall>r \<in> set (members k rs). grouped r" by (simp add: members_grouped)
    ultimately show ?thesis
      using SlotGroup block_idem block_not_Nil
      by (simp add: emit_slot_def slot_rules_def members_resolve)
  qed (simp add: emit_slot_def slot_rules_def)
  have "concat (map (fst \<circ> emit_slot ?groups) (slots {} rs)) = ?out"
    using e by (simp add: resolve_rules cong: map_cong)
  moreover have "concat (map (snd \<circ> emit_slot ?groups) (slots {} rs)) = []"
    using e by (intro concat_Nils) simp
  ultimately show ?thesis
    unfolding resolveOpaquePortConflicts_def [of ?out] group_fold slots_resolve by simp
qed

section \<open>Rules that are not grouped\<close>

definition slot_singles :: "slot list \<Rightarrow> EgressRule list" where
  "slot_singles ss = concat (map (\<lambda>s. case s of SlotRule r \<Rightarrow> [r] | SlotGroup k \<Rightarrow> []) ss)"

lemma slot_singles_slots: "slot_singles (slots seen rs) = filter (\<lambda>r. \<not> grouped r) rs"
  by (induction rs arbitrary: seen) (auto simp: slot_singles_def)

lemma resolve_ungrouped:
  "filter (\<lambda>r. \<not> grouped r) (fst (resolveOpaquePortConflicts rs)) = filter (\<lambda>r. \<not> grouped r) rs"
proof -
  have "filter (\<lambda>r. \<not> grouped r) (slot_rules rs s) =
      (case s of SlotRule r \<Rightarrow> [r] | SlotGroup k \<Rightarrow> [])" if "s \<in> set (slots {} rs)" for s
    using that
    by (cases s rule: slot.exhaust)
      (auto simp: slot_rules_def SlotRule_in_slots filter_empty_conv dest: block_members)
  then have "concat (map (filter (\<lambda>r. \<not> grouped r) \<circ> slot_rules rs) (slots {} rs)) =
      slot_singles (slots {} rs)"
    by (simp add: slot_singles_def cong: map_cong)
  then show ?thesis by (simp add: resolve_rules filter_concat slot_singles_slots)
qed

section \<open>The ports a rule set decides\<close>

definition decided_ports :: "bool \<Rightarrow> string \<Rightarrow> EgressRule list \<Rightarrow> int set" where
  "decided_ports deny k rs = covered (spans deny (members k rs))"

lemma decided_ports_iff:
  "p \<in> decided_ports deny k rs \<longleftrightarrow>
     (\<exists>r \<in> set rs. grouped r \<and> group_key r = k \<and> isDenyAction (Action r) = deny \<and>
        p \<in> ports_of (the (PortSpan r)))"
  by (auto simp: decided_ports_def covered_def spans_def members_def)

text \<open>The ports allowed and denied by exactly one single-port span each.\<close>

definition single_clashes :: "string \<Rightarrow> EgressRule list \<Rightarrow> int set" where
  "single_clashes k rs =
     {p. (p, p) \<in> set (mergeOverlappingSpans (spans False (members k rs))) \<and>
         (p, p) \<in> set (mergeOverlappingSpans (spans True (members k rs)))}"

lemma resolve_ports:
  fixes k rs
  defines "out \<equiv> fst (resolveOpaquePortConflicts rs)"
  shows "decided_ports True k out = decided_ports True k rs"
    and "decided_ports False k out \<subseteq> decided_ports False k rs"
    and "decided_ports False k rs - decided_ports True k rs \<subseteq> decided_ports False k out"
    and "decided_ports False k out \<inter> decided_ports True k out \<subseteq> single_clashes k rs"
    and "disjoint_spans (spans d (members k out))"
proof -
  let ?ms = "members k rs"
  have g: "\<forall>r \<in> set ?ms. grouped r" by (simp add: members_grouped)
  have sp: "spans True (members k out) = deny_out ?ms" "spans False (members k out) = allow_out ?ms"
    using spans_block [OF g] unfolding out_def members_resolve
    by (auto simp: deny_out_def allow_out_def Let_def)
  show "decided_ports True k out = decided_ports True k rs" by (simp add: decided_ports_def sp covered_deny_out [OF g])
  show "decided_ports False k out \<subseteq> decided_ports False k rs" by (auto simp: decided_ports_def sp covered_allow_out [OF g])
  have "covered (carve_set (mergeOverlappingSpans (spans False ?ms)) (deny_out ?ms)) \<subseteq>
      covered (deny_out ?ms)"
    by (auto simp: covered_def carve_set_def)
  then show "decided_ports False k rs - decided_ports True k rs \<subseteq> decided_ports False k out"
    using covered_deny_out [OF g] by (auto simp: decided_ports_def sp covered_allow_out [OF g])
  show "decided_ports False k out \<inter> decided_ports True k out \<subseteq> single_clashes k rs"
    using group_clash [OF g] by (auto simp: decided_ports_def sp single_clashes_def deny_out_def)
  show "disjoint_spans (spans d (members k out))"
    using disjoint_deny_out [OF g] disjoint_allow_out [OF g] sp by (cases d) auto
qed

section \<open>The normalising loop\<close>

definition keepable :: "EgressRule \<Rightarrow> bool" where
  "keepable r \<longleftrightarrow> normalizeDomain (Dst r) \<noteq> [] \<and> ValidatePortSpec r = None"

definition kept :: "EgressRule list \<Rightarrow> EgressRule list" where
  "kept rs = filter keepable (map NormalizeRule rs)"

lemma normalize_loop_dedup:
  "fst (normalize_loop seen rs) = dedup_by action_key seen (kept rs)"
proof (induction rs arbitrary: seen)
  case (Cons r rs)
  show ?case
  proof (cases "keepable (NormalizeRule r)")
    case True
    then have k: "kept (r # rs) = NormalizeRule r # kept rs" by (simp add: kept_def)
    show ?thesis
      using True Cons.IH [of seen] Cons.IH [of "action_key (NormalizeRule r) # seen"]
      unfolding k keepable_def by (simp add: Let_def split_beta)
  next
    case False
    then have k: "kept (r # rs) = kept rs" by (simp add: kept_def)
    show ?thesis
      using False Cons.IH [of seen] unfolding k keepable_def
      by (auto simp: Let_def split_beta split: option.splits)
  qed
qed (simp add: kept_def)

lemma NormalizeAndDedup_rules:
  "fst (NormalizeAndDedup rs) = fst (resolveOpaquePortConflicts (dedup_by action_key [] (kept rs)))"
  using normalize_loop_dedup [of "[]" rs]
  by (simp add: NormalizeAndDedup_def split_beta Let_def)

definition canonical_rule :: "EgressRule \<Rightarrow> bool" where
  "canonical_rule r \<longleftrightarrow> NormalizeRule r = r \<and> keepable r"

lemma kept_canonical: "r \<in> set (kept rs) \<Longrightarrow> canonical_rule r"
  by (auto simp: kept_def canonical_rule_def NormalizeRule_idem)

lemma kept_id: "\<forall>r \<in> set rs. canonical_rule r \<Longrightarrow> kept rs = rs"
  by (induction rs) (auto simp: kept_def canonical_rule_def)

lemma formatSpan_not_Nil [simp]: "formatSpan sp \<noteq> []"
  by (simp add: formatSpan_def)

lemma NormalizeRule_Port:
  assumes "NormalizeRule t = t" "p \<noteq> []"
  shows "NormalizeRule (t\<lparr>Port := p\<rparr>) = t\<lparr>Port := p\<rparr>"
proof -
  have f: "ToLower (Proto t) = ''tls'' \<or> Proto t = [] \<Longrightarrow> Proto t = ''https''"
    "Action t = [] \<Longrightarrow> Action t = ''allow''"
    "map (\<lambda>p. p\<lparr>Methods := normalizeMethods (Methods p)\<rparr>) (PathRules t) = PathRules t"
    using arg_cong [OF assms(1), of Proto] arg_cong [OF assms(1), of Action]
      arg_cong [OF assms(1), of PathRules]
    by (auto simp: NormalizeRule_fields split: if_splits)
  show ?thesis
    using f assms(2) by (intro EgressRule_eqI) (auto simp: NormalizeRule_fields)
qed

lemma ValidatePortSpec_formatSpan:
  "valid_span sp \<Longrightarrow> ValidatePortSpec (t\<lparr>Port := formatSpan sp\<rparr>) = None"
  by (simp add: ValidatePortSpec_def ParsePortSpec_formatSpan)

lemma emit_with_set:
  "r \<in> set (emit_with tmpl sps) \<longleftrightarrow>
     (\<exists>t sp. tmpl = Some t \<and> sp \<in> set sps \<and> r = t\<lparr>Port := formatSpan sp\<rparr>)"
  by (cases tmpl) (auto simp: emit_with_def)

lemma block_set:
  assumes "\<forall>r \<in> set ms. grouped r" "r \<in> set (block ms)"
  shows "\<exists>t \<in> set ms. \<exists>sp. valid_span sp \<and> r = t\<lparr>Port := formatSpan sp\<rparr>"
proof -
  have v: "\<forall>sp \<in> set (deny_out ms) \<union> set (allow_out ms). valid_span sp"
    using disjoint_spans_valid [OF disjoint_deny_out [OF assms(1)]]
      disjoint_spans_valid [OF disjoint_allow_out [OF assms(1)]] by (auto simp: valid_spans_def)
  from assms(2) show ?thesis
    unfolding block_eq set_append Un_iff emit_with_set using v find_deny find_allow by blast
qed

lemma resolve_set:
  assumes "r \<in> set (fst (resolveOpaquePortConflicts rs))"
  shows "r \<in> set rs \<or> (\<exists>t \<in> set rs. \<exists>sp. valid_span sp \<and> r = t\<lparr>Port := formatSpan sp\<rparr>)"
proof -
  obtain s where s: "s \<in> set (slots {} rs)" "r \<in> set (slot_rules rs s)"
    using assms by (auto simp: resolve_rules)
  show ?thesis
  proof (cases s)
    case (SlotRule r')
    then show ?thesis using s by (simp add: slot_rules_def SlotRule_in_slots)
  next
    case (SlotGroup k)
    have g: "\<forall>r \<in> set (members k rs). grouped r" by (simp add: members_grouped)
    have "r \<in> set (block (members k rs))" using s SlotGroup by (simp add: slot_rules_def)
    moreover have "set (members k rs) \<subseteq> set rs" by (simp add: members_def)
    ultimately show ?thesis using block_set [OF g] by blast
  qed
qed

lemma resolve_canonical:
  assumes "\<forall>r \<in> set rs. canonical_rule r"
  shows "\<forall>r \<in> set (fst (resolveOpaquePortConflicts rs)). canonical_rule r"
  using resolve_set [of _ rs] assms
  by (fastforce simp: canonical_rule_def keepable_def NormalizeRule_Port ValidatePortSpec_formatSpan)

section \<open>The identity of a canonical rule\<close>

definition ident :: "EgressRule \<Rightarrow> string \<times> string \<times> string \<times> bool" where
  "ident r = (Dst r, Proto r, Port r, isDenyAction (Action r))"

lemma ident_grouped: "ident r = ident s \<Longrightarrow> grouped r \<longleftrightarrow> grouped s"
  by (simp add: ident_def grouped_def PortSpan_cong [of r s])

lemma ident_cong:
  assumes "ident r = ident s"
  shows "group_key r = group_key s" "isDenyAction (Action r) = isDenyAction (Action s)"
    "PortSpan r = PortSpan s"
  using assms by (auto simp: ident_def group_key_def intro: PortSpan_cong)

definition plain_rule :: "EgressRule \<Rightarrow> bool" where
  "plain_rule r \<longleftrightarrow> CHR '':'' \<notin> set (Proto r)"

lemma keepable_no_colon: "keepable r \<Longrightarrow> CHR '':'' \<notin> set (Port r)"
  using ParsePortSpec_no_colon [of "Port r"]
  by (auto simp: keepable_def ValidatePortSpec_def split: sum.splits)

lemma action_key_RuleKey:
  assumes "action_key r = action_key s"
  shows "RuleKey r = RuleKey s \<and> isDenyAction (Action r) = isDenyAction (Action s)"
proof -
  let ?a = "\<lambda>r. if isDenyAction (Action r) then ''deny'' else ''allow''"
  have "RuleKey r @ CHR 0x00 # ?a r = RuleKey s @ CHR 0x00 # ?a s"
    using assms by (simp add: action_key_def)
  then have "RuleKey r = RuleKey s \<and> ?a r = ?a s" by (rule last_sep_eq) simp_all
  then show ?thesis by (auto split: if_splits)
qed

lemma action_key_eq:
  assumes "keepable r" "keepable s" "plain_rule r" "plain_rule s"
  shows "action_key r = action_key s \<longleftrightarrow> ident r = ident s"
proof
  assume "action_key r = action_key s"
  from action_key_RuleKey [OF this]
  show "ident r = ident s"
    using RuleKey_eq [of r s] keepable_no_colon assms
    by (auto simp: plain_rule_def ident_def split: if_splits)
qed (auto simp: action_key_def RuleKey_def ident_def)

lemma distinct_ident_parts:
  assumes "distinct (map ident (filter (\<lambda>r. \<not> grouped r) xs))"
    "\<forall>k. distinct (map ident (members k xs))"
  shows "distinct (map ident xs)"
  using assms
proof (induction xs)
  case (Cons r xs)
  have IH: "distinct (map ident xs)"
  proof (rule Cons.IH)
    show "distinct (map ident (filter (\<lambda>r. \<not> grouped r) xs))"
      using Cons.prems(1) by (auto split: if_splits)
    show "\<forall>k. distinct (map ident (members k xs))"
      using Cons.prems(2) by (metis distinct.simps(2) list.simps(9) members_simps(2))
  qed
  have "ident r \<noteq> ident s" if "s \<in> set xs" for s
  proof
    assume e: "ident r = ident s"
    show False
    proof (cases "grouped r")
      case True
      then have "s \<in> set (members (group_key r) xs)"
        using that ident_grouped [OF e] ident_cong(1) [OF e] by (simp add: members_grouped)
      then show False
        using Cons.prems(2) [THEN spec, of "group_key r"] True e by auto
    next
      case False
      then show False using Cons.prems(1) that e ident_grouped [OF e] by auto
    qed
  qed
  with IH show ?case by auto
qed simp

lemma distinct_emit_with:
  assumes "disjoint_spans sps"
  shows "distinct (map ident (emit_with tmpl sps))"
proof (cases tmpl)
  case (Some t)
  have "distinct (map formatSpan sps)"
    using span_codec.map_enc_distinct disjoint_spans_valid [OF assms] disjoint_spans_distinct [OF assms]
    by (simp add: valid_spans_def)
  then show ?thesis
    using Some by (auto simp: emit_with_def ident_def comp_def distinct_map inj_on_def)
qed (simp add: emit_with_def)

lemma distinct_block:
  assumes "\<forall>r \<in> set ms. grouped r"
  shows "distinct (map ident (block ms))"
proof -
  let ?D = "emit_with (find (\<lambda>r. isDenyAction (Action r)) ms) (deny_out ms)"
  let ?A = "emit_with (find (\<lambda>r. \<not> isDenyAction (Action r)) ms) (allow_out ms)"
  have d: "isDenyAction (Action r)" if "r \<in> set ?D" for r
    using that find_deny [of ms] by (auto simp: emit_with_set)
  have a: "\<not> isDenyAction (Action r)" if "r \<in> set ?A" for r
    using that find_allow [of ms] by (auto simp: emit_with_set)
  have "ident ` set ?D \<inter> ident ` set ?A = {}"
  proof (rule ccontr)
    assume "\<not> ?thesis"
    then obtain r s where "r \<in> set ?D" "s \<in> set ?A" "ident r = ident s" by fastforce
    then show False using d a ident_cong(2) by metis
  qed
  then show ?thesis
    using distinct_emit_with [OF disjoint_deny_out [OF assms]]
      distinct_emit_with [OF disjoint_allow_out [OF assms]]
    unfolding block_eq map_append distinct_append set_map by blast
qed

lemma distinct_resolve:
  assumes "distinct (map ident rs)"
  shows "distinct (map ident (fst (resolveOpaquePortConflicts rs)))"
proof (rule distinct_ident_parts)
  show "distinct (map ident (filter (\<lambda>r. \<not> grouped r) (fst (resolveOpaquePortConflicts rs))))"
    using assms by (simp add: resolve_ungrouped distinct_map_filter)
  show "\<forall>k. distinct (map ident (members k (fst (resolveOpaquePortConflicts rs))))"
    using distinct_block by (simp add: members_resolve members_grouped)
qed

lemma action_key_distinct:
  assumes "\<forall>r \<in> set rs. keepable r \<and> plain_rule r"
  shows "distinct (map action_key rs) \<longleftrightarrow> distinct (map ident rs)"
  using assms action_key_eq by (auto simp: distinct_map inj_on_def)

lemma plain_kept: "\<forall>r \<in> set rs. plain_rule r \<Longrightarrow> \<forall>r \<in> set (kept rs). plain_rule r"
  by (auto simp: kept_def plain_rule_def NormalizeRule_fields split: if_splits)

lemma plain_resolve:
  "\<forall>r \<in> set rs. plain_rule r \<Longrightarrow> \<forall>r \<in> set (fst (resolveOpaquePortConflicts rs)). plain_rule r"
  using resolve_set [of _ rs] by (fastforce simp: plain_rule_def)

lemma NormalizeAndDedup_canonical:
  assumes "\<forall>r \<in> set rs. plain_rule r"
  shows "\<forall>r \<in> set (fst (NormalizeAndDedup rs)). canonical_rule r \<and> plain_rule r"
    and "distinct (map action_key (fst (NormalizeAndDedup rs)))"
proof -
  let ?in = "dedup_by action_key [] (kept rs)"
  have sub: "set ?in \<subseteq> set (kept rs)" by (rule dedup_by_subset)
  then have c: "\<forall>r \<in> set ?in. canonical_rule r" and pl: "\<forall>r \<in> set ?in. plain_rule r"
    using kept_canonical plain_kept [OF assms] by blast+
  show cp: "\<forall>r \<in> set (fst (NormalizeAndDedup rs)). canonical_rule r \<and> plain_rule r"
    using resolve_canonical [OF c] plain_resolve [OF pl] unfolding NormalizeAndDedup_rules by blast
  have "distinct (map action_key ?in)" by (rule dedup_by_distinct)
  then have "distinct (map ident ?in)"
    using action_key_distinct [of ?in] c pl by (simp add: canonical_rule_def)
  then have "distinct (map ident (fst (NormalizeAndDedup rs)))"
    unfolding NormalizeAndDedup_rules by (rule distinct_resolve)
  then show "distinct (map action_key (fst (NormalizeAndDedup rs)))"
    using action_key_distinct [of "fst (NormalizeAndDedup rs)"] cp by (simp add: canonical_rule_def)
qed

lemma NormalizeAndDedup_fixpoint:
  assumes "\<forall>r \<in> set rs. canonical_rule r" "distinct (map action_key rs)"
  shows "fst (NormalizeAndDedup rs) = fst (resolveOpaquePortConflicts rs)"
  using assms by (simp add: NormalizeAndDedup_rules kept_id dedup_by_id)

lemma NormalizeAndDedup_idem:
  assumes "\<forall>r \<in> set rs. plain_rule r"
  shows "fst (NormalizeAndDedup (fst (NormalizeAndDedup rs))) = fst (NormalizeAndDedup rs)"
proof -
  let ?in = "dedup_by action_key [] (kept rs)"
  have "fst (NormalizeAndDedup (fst (NormalizeAndDedup rs))) =
      fst (resolveOpaquePortConflicts (fst (NormalizeAndDedup rs)))"
    using NormalizeAndDedup_canonical [OF assms] by (intro NormalizeAndDedup_fixpoint) auto
  also have "\<dots> = fst (NormalizeAndDedup rs)"
    unfolding NormalizeAndDedup_rules [of rs] by (simp add: resolve_idem)
  finally show ?thesis .
qed

lemma ports_dedup:
  assumes "\<forall>r \<in> set rs. keepable r \<and> plain_rule r"
  shows "decided_ports d k (dedup_by action_key [] rs) = decided_ports d k rs"
proof -
  have ex: "\<exists>s \<in> set (dedup_by action_key [] rs). ident s = ident r" if "r \<in> set rs" for r
  proof -
    have "action_key r \<in> action_key ` set (dedup_by action_key [] rs)"
      using that dedup_by_keys [of action_key "[]" rs] by simp
    then obtain s where "s \<in> set (dedup_by action_key [] rs)" "action_key s = action_key r" by force
    then show ?thesis
      using action_key_eq [of s r] assms that dedup_by_subset [of action_key "[]" rs] by blast
  qed
  have "decided_ports d k rs \<subseteq> decided_ports d k (dedup_by action_key [] rs)"
  proof (intro subsetI)
    fix p
    assume "p \<in> decided_ports d k rs"
    then obtain r where r: "r \<in> set rs" "grouped r" "group_key r = k"
        "isDenyAction (Action r) = d" "p \<in> ports_of (the (PortSpan r))"
      unfolding decided_ports_iff by blast
    obtain s where s: "s \<in> set (dedup_by action_key [] rs)" "ident s = ident r" using ex r(1) by blast
    show "p \<in> decided_ports d k (dedup_by action_key [] rs)"
      unfolding decided_ports_iff using s r ident_grouped [OF s(2)] ident_cong [OF s(2)] by auto
  qed
  moreover have "decided_ports d k (dedup_by action_key [] rs) \<subseteq> decided_ports d k rs"
    using dedup_by_subset [of action_key "[]" rs] unfolding decided_ports_iff subset_iff by blast
  ultimately show ?thesis by blast
qed

lemma NormalizeAndDedup_ports:
  assumes "\<forall>r \<in> set rs. plain_rule r"
  defines "out \<equiv> fst (NormalizeAndDedup rs)"
  shows "decided_ports True k out = decided_ports True k (kept rs)"
    and "decided_ports False k out \<subseteq> decided_ports False k (kept rs)"
    and "decided_ports False k (kept rs) - decided_ports True k (kept rs) \<subseteq> decided_ports False k out"
proof -
  have "\<forall>r \<in> set (kept rs). keepable r \<and> plain_rule r"
    using kept_canonical plain_kept [OF assms(1)] by (auto simp: canonical_rule_def)
  note d = ports_dedup [OF this]
  show "decided_ports True k out = decided_ports True k (kept rs)"
    "decided_ports False k out \<subseteq> decided_ports False k (kept rs)"
    "decided_ports False k (kept rs) - decided_ports True k (kept rs) \<subseteq> decided_ports False k out"
    using resolve_ports(1-3) [of k "dedup_by action_key [] (kept rs)"]
    unfolding out_def NormalizeAndDedup_rules d by auto
qed

section \<open>Order-independent comparison\<close>

lemma sort_key_unique:
  fixes f :: "'a \<Rightarrow> 'b :: linorder"
  assumes "distinct (map f a)" "distinct (map f b)" "set a = set b"
  shows "sort_key f a = sort_key f b"
proof (rule map_sorted_distinct_set_unique [of f])
  show "inj_on f (set (sort_key f a) \<union> set (sort_key f b))"
    using assms by (simp add: distinct_map)
qed (use assms in \<open>simp_all add: distinct_map\<close>)

lemma rulesCanonicalEqual_set:
  assumes "distinct (map action_key a)" "distinct (map action_key b)"
  shows "rulesCanonicalEqual a b \<longleftrightarrow> set a = set b"
proof
  assume "rulesCanonicalEqual a b"
  then have "set (sort_key action_key a) = set (sort_key action_key b)"
    by (simp only: rulesCanonicalEqual_def)
  then show "set a = set b" by simp
next
  assume e: "set a = set b"
  have "distinct a" "distinct b" using assms by (auto simp: distinct_map)
  then have "length a = length b" using e distinct_card by metis
  then show "rulesCanonicalEqual a b"
    using sort_key_unique [OF assms e] by (simp add: rulesCanonicalEqual_def)
qed

section \<open>Accepted rules are not dropped\<close>

fun is_skip :: "warning \<Rightarrow> bool" where
  "is_skip (SkippingEmptyDomain d) \<longleftrightarrow> True"
| "is_skip (SkippingBadPort d p e) \<longleftrightarrow> True"
| "is_skip w \<longleftrightarrow> False"

lemma emit_group_no_skip: "w \<in> set (snd (emit_group g)) \<Longrightarrow> \<not> is_skip w"
  by (auto simp: emit_group_def Let_def split_beta split: if_splits)

lemma resolve_no_skip: "w \<in> set (snd (resolveOpaquePortConflicts rs)) \<Longrightarrow> \<not> is_skip w"
proof -
  have "w \<in> set (snd (emit_slot groups s)) \<Longrightarrow> \<not> is_skip w" for groups s
    by (cases s) (auto simp: emit_slot_def emit_group_no_skip split: option.splits)
  then show "w \<in> set (snd (resolveOpaquePortConflicts rs)) \<Longrightarrow> \<not> is_skip w"
    by (auto simp: resolveOpaquePortConflicts_def split_beta)
qed

lemma normalize_loop_no_skip:
  "\<forall>r \<in> set rs. keepable (NormalizeRule r) \<Longrightarrow>
   w \<in> set (snd (normalize_loop seen rs)) \<Longrightarrow> \<not> is_skip w"
  by (induction rs arbitrary: seen)
    (auto simp: keepable_def Let_def split_beta pathRuleEnforcementWarning_def
      split: option.splits if_splits)

lemma accepted_keepable:
  assumes "ValidateRule compiles r = None"
  shows "keepable (NormalizeRule r)"
proof -
  have "wf_domain d \<Longrightarrow> d \<noteq> []" for d by (auto simp: wf_domain_def)
  moreover have "\<not> isIPOrCIDR []"
    by (simp add: isIPOrCIDR_def ParseIP_def ParseCIDR_def ParseAddr_def)
  ultimately have "normalizeDomain (Dst r) \<noteq> []"
    using ValidateRule_parts(1) [OF assms]
    by (auto simp: ValidateDst_def Let_def split: if_splits)
  then show ?thesis
    using ValidateRule_parts(2) [OF assms]
    by (simp add: keepable_def NormalizeRule_fields ValidatePortSpec_NormalizeRule)
qed

lemma dedup_survivor:
  assumes "\<forall>r \<in> set rs. keepable r \<and> plain_rule r" "r \<in> set rs" "\<not> grouped r"
  shows "\<exists>s \<in> set (fst (resolveOpaquePortConflicts (dedup_by action_key [] rs))). ident s = ident r"
proof -
  have "action_key r \<in> action_key ` set (dedup_by action_key [] rs)"
    using assms(2) dedup_by_keys [of action_key "[]" rs] by simp
  then obtain s where s: "s \<in> set (dedup_by action_key [] rs)" "action_key s = action_key r" by force
  then have e: "ident s = ident r"
    using action_key_eq [of s r] assms(1,2) dedup_by_subset [of action_key "[]" rs] by blast
  then have "s \<in> set (filter (\<lambda>r. \<not> grouped r) (dedup_by action_key [] rs))"
    using s(1) assms(3) ident_grouped [OF e] by simp
  then have "s \<in> set (fst (resolveOpaquePortConflicts (dedup_by action_key [] rs)))"
    using arg_cong [OF resolve_ungrouped [of "dedup_by action_key [] rs"], of set] by auto
  with e show ?thesis by blast
qed

section \<open>Properties\<close>

text \<open>
  C13: deny always wins when opaque port conflicts are resolved. For every destination and
  protocol, exactly the denied ports stay denied, no port becomes allowed, a port that is
  allowed and not denied stays allowed, and a port can only stay both allowed and denied if
  both sides name it as a single port. The emitted spans of one action never overlap, and
  every rule without a port or with another protocol is kept verbatim and in order.
\<close>

theorem resolve_deny_wins:
  fixes rs :: "EgressRule list" and k :: string
  defines "out \<equiv> fst (resolveOpaquePortConflicts rs)"
  shows "decided_ports True k out = decided_ports True k rs \<and>
    decided_ports False k out \<subseteq> decided_ports False k rs \<and>
    decided_ports False k rs - decided_ports True k rs \<subseteq> decided_ports False k out \<and>
    decided_ports False k out \<inter> decided_ports True k out \<subseteq> single_clashes k rs \<and>
    disjoint_spans (spans True (members k out)) \<and>
    disjoint_spans (spans False (members k out)) \<and>
    filter (\<lambda>r. \<not> grouped r) out = filter (\<lambda>r. \<not> grouped r) rs"
  unfolding out_def using resolve_ports(1-4) [of k rs] resolve_ports(5) [of _ k rs] resolve_ungrouped [of rs]
  by blast

text \<open>
  Theorem: canonicalisation is stable. On rules whose protocol token has no colon, the canonical
  set has one rule per key and action, every rule of it is its own normal form, and
  canonicalising again returns the same list, so reading, canonicalising and writing the store
  back never drifts.
\<close>

theorem NormalizeAndDedup_stable:
  assumes "\<forall>r \<in> set rs. plain_rule r"
  shows "fst (NormalizeAndDedup (fst (NormalizeAndDedup rs))) = fst (NormalizeAndDedup rs) \<and>
    distinct (map action_key (fst (NormalizeAndDedup rs))) \<and>
    map NormalizeRule (fst (NormalizeAndDedup rs)) = fst (NormalizeAndDedup rs)"
  using NormalizeAndDedup_idem [OF assms] NormalizeAndDedup_canonical [OF assms]
  by (auto simp: canonical_rule_def intro: map_idI)

definition tcp_rule :: "string \<Rightarrow> string \<Rightarrow> string \<Rightarrow> EgressRule" where
  "tcp_rule dst port action =
     \<lparr>Dst = dst, Proto = ''tcp'', Port = port, Action = action, PathRules = [],
      PathDefault = [], InsecureSkipTLSVerify = False\<rparr>"

definition sample_rules :: "EgressRule list" where
  "sample_rules =
     [tcp_rule ''db.local'' (formatSpan (45, 50)) [], tcp_rule ''db.local'' (formatSpan (47, 47)) ''deny'']"

lemma sample_rules_plain: "\<forall>r \<in> set sample_rules. plain_rule r"
  by (simp add: sample_rules_def plain_rule_def tcp_rule_def)

theorem NormalizeAndDedup_stable_witness:
  "list_all plain_rule sample_rules \<and>
   fst (NormalizeAndDedup (fst (NormalizeAndDedup sample_rules))) = fst (NormalizeAndDedup sample_rules)"
  using NormalizeAndDedup_stable [OF sample_rules_plain] sample_rules_plain
  unfolding list_all_iff by blast

text \<open>
  Theorem: two canonical rule lists compare equal exactly when they hold the same rules, in
  whatever order, so the write and reconcile gate of the rule store fires exactly on a change.
\<close>

theorem rulesCanonicalEqual_iff:
  assumes "\<forall>r \<in> set rs. plain_rule r" "\<forall>r \<in> set rs'. plain_rule r"
  shows "rulesCanonicalEqual (fst (NormalizeAndDedup rs)) (fst (NormalizeAndDedup rs')) \<longleftrightarrow>
    set (fst (NormalizeAndDedup rs)) = set (fst (NormalizeAndDedup rs'))"
  using NormalizeAndDedup_canonical(2) [OF assms(1)] NormalizeAndDedup_canonical(2) [OF assms(2)]
  by (rule rulesCanonicalEqual_set)

theorem rulesCanonicalEqual_iff_witness:
  "list_all plain_rule sample_rules \<and>
   (rulesCanonicalEqual (fst (NormalizeAndDedup sample_rules)) (fst (NormalizeAndDedup sample_rules)) \<longleftrightarrow>
    set (fst (NormalizeAndDedup sample_rules)) = set (fst (NormalizeAndDedup sample_rules)))"
  using rulesCanonicalEqual_iff [OF sample_rules_plain sample_rules_plain] sample_rules_plain
  unfolding list_all_iff by blast

text \<open>
  Theorem: a rule the validator accepts is never dropped by canonicalisation. No skip warning is
  produced; every accepted rule outside the opaque groups survives under its identity; the
  ports an accepted opaque deny rule names are denied afterwards.
\<close>

theorem accepted_rules_survive:
  assumes "\<forall>r \<in> set rs. ValidateRule compiles r = None \<and> plain_rule r"
  shows "(\<forall>w \<in> set (snd (NormalizeAndDedup rs)). \<not> is_skip w) \<and>
    (\<forall>r \<in> NormalizeRule ` set rs.
       (\<not> grouped r \<longrightarrow> (\<exists>s \<in> set (fst (NormalizeAndDedup rs)). ident s = ident r)) \<and>
       (grouped r \<and> isDenyAction (Action r) \<longrightarrow>
          ports_of (the (PortSpan r)) \<subseteq> decided_ports True (group_key r) (fst (NormalizeAndDedup rs))))"
proof (intro conjI ballI)
  fix w
  assume "w \<in> set (snd (NormalizeAndDedup rs))"
  moreover have "\<forall>r \<in> set rs. keepable (NormalizeRule r)" using accepted_keepable assms by blast
  ultimately show "\<not> is_skip w"
    using normalize_loop_no_skip [of rs w "[]"] resolve_no_skip [of w]
    by (auto simp: NormalizeAndDedup_def Let_def split_beta)
next
  fix r
  assume "r \<in> NormalizeRule ` set rs"
  then have r: "r \<in> set (kept rs)" using accepted_keepable assms by (auto simp: kept_def)
  have pl: "\<forall>r \<in> set rs. plain_rule r" using assms by blast
  then have "\<forall>r \<in> set (kept rs). keepable r \<and> plain_rule r"
    using kept_canonical plain_kept by (auto simp: canonical_rule_def)
  from dedup_survivor [OF this r]
  show "\<not> grouped r \<longrightarrow> (\<exists>s \<in> set (fst (NormalizeAndDedup rs)). ident s = ident r)"
    by (simp add: NormalizeAndDedup_rules)
  show "grouped r \<and> isDenyAction (Action r) \<longrightarrow>
      ports_of (the (PortSpan r)) \<subseteq> decided_ports True (group_key r) (fst (NormalizeAndDedup rs))"
    unfolding NormalizeAndDedup_ports(1) [OF pl] using r by (auto simp: decided_ports_iff)
qed

lemma sample_rule_plain: "\<forall>r \<in> set [sample_rule]. ValidateRule (\<lambda>_. True) r = None \<and> plain_rule r"
  by (simp add: sample_rule_valid) (simp add: plain_rule_def sample_rule_def)

lemma sample_rule_ungrouped: "\<not> grouped (NormalizeRule sample_rule)"
  by (simp add: grouped_def isOpaqueProto_def NormalizeRule_fields sample_rule_def ascii_eval)

theorem accepted_rules_survive_witness:
  "\<exists>s \<in> set (fst (NormalizeAndDedup [sample_rule])). ident s = ident (NormalizeRule sample_rule)"
  using accepted_rules_survive [OF sample_rule_plain] sample_rule_ungrouped by auto

end
