(* ===== verification/Envoy_Layout.thy ===== *)
theory Envoy_Layout
  imports Opaque_Conflicts
begin

text \<open>
  The port layout of the generated Envoy configuration and the checks that guard it:
  \<open>EnvoyPorts\<close>, the dedicated-listener assignment \<open>TCPMappings\<close>/\<open>UDPMappings\<close> of
  \<open>controlplane/firewall/envoy_types.go\<close>, and the fail-closed checks of \<open>envoy_config.go\<close>
  (\<open>checkProtoCollisions\<close>, \<open>checkOpaquePortActionConflicts\<close>, \<open>validateDedicatedLayout\<close>,
  \<open>validateProtoDstSupport\<close>).

  A Go map that a check iterates in sorted key order is the sorted list of its keys with a
  lookup function.
\<close>

section \<open>Ports\<close>

record EnvoyPorts =
  EgressPort :: int
  TCPPortBase :: int
  UDPPortBase :: int
  HealthPort :: int

datatype layout_error =
    PortOutOfRange string int
  | PortsCollide string string int
  | BandOverflow int string int
  | BandHitsInfra string int int string int
  | BandsOverlap int int int int
  | ProtoCollision string int "string list"
  | ActionConflict string string int
  | UDPToCIDR string

definition named_ports :: "EnvoyPorts \<Rightarrow> (string \<times> int) list" where
  "named_ports p =
     [(''EgressPort'', EgressPort p), (''TCPPortBase'', TCPPortBase p),
      (''UDPPortBase'', UDPPortBase p), (''HealthPort'', HealthPort p)]"

fun port_clash :: "(int \<rightharpoonup> string) \<Rightarrow> (string \<times> int) list \<Rightarrow> layout_error option" where
  "port_clash seen [] = None"
| "port_clash seen ((name, port) # ns) =
     (case seen port of
        Some prev \<Rightarrow> Some (PortsCollide prev name port)
      | None \<Rightarrow> port_clash (seen(port \<mapsto> name)) ns)"

definition EnvoyPorts_Validate :: "EnvoyPorts \<Rightarrow> layout_error option" where
  "EnvoyPorts_Validate p =
     (case first_error (\<lambda>(name, port).
             if port \<le> 0 \<or> port > 65535 then Some (PortOutOfRange name port) else None)
             (named_ports p) of
        Some e \<Rightarrow> Some e
      | None \<Rightarrow> port_clash Map.empty (named_ports p))"

definition defaultDestPort :: int where "defaultDestPort = 443"
definition sshDefaultPort :: int where "sshDefaultPort = 22"
definition defaultHTTPPort :: int where "defaultHTTPPort = 80"
definition envoyAdminPort :: int where "envoyAdminPort = 9901"

section \<open>Dedicated listeners\<close>

record TCPMapping =
  MDst :: string
  DstPort :: int
  EnvoyPort :: int

definition tcpDefaultPort :: "EgressRule \<Rightarrow> int" where
  "tcpDefaultPort r =
     (case SinglePort r of
        Some p \<Rightarrow> p
      | None \<Rightarrow> if EqualFold (Proto r) ''ssh'' then sshDefaultPort else defaultDestPort)"

definition udpDefaultPort :: "EgressRule \<Rightarrow> int" where
  "udpDefaultPort r = (case SinglePort r of Some p \<Rightarrow> p | None \<Rightarrow> defaultDestPort)"

definition dedicatedPorts :: "EgressRule \<Rightarrow> (EgressRule \<Rightarrow> int) \<Rightarrow> int list" where
  "dedicatedPorts r portFn = (case PortSpan r of Some (lo, hi) \<Rightarrow> [lo..hi] | None \<Rightarrow> [portFn r])"

fun map_ports :: "string \<Rightarrow> int \<Rightarrow> int \<Rightarrow> int list \<Rightarrow> TCPMapping list" where
  "map_ports dst base idx [] = []"
| "map_ports dst base idx (p # ps) =
     \<lparr>MDst = dst, DstPort = p, EnvoyPort = base + idx\<rparr> # map_ports dst base (idx + 1) ps"

fun mappings_from ::
  "int \<Rightarrow> (string \<Rightarrow> bool) \<Rightarrow> (EgressRule \<Rightarrow> int) \<Rightarrow> (string \<Rightarrow> bool) \<Rightarrow> int \<Rightarrow> EgressRule list \<Rightarrow>
   TCPMapping list" where
  "mappings_from base protoMatch portFn skipDst idx [] = []"
| "mappings_from base protoMatch portFn skipDst idx (r # rs) =
     (if skipDst (Dst r) then mappings_from base protoMatch portFn skipDst idx rs
      else if \<not> protoMatch (ToLower (Proto r)) then mappings_from base protoMatch portFn skipDst idx rs
      else
        (let ps = dedicatedPorts r portFn
         in map_ports (normalizeDomain (Dst r)) base idx ps @
            mappings_from base protoMatch portFn skipDst (idx + int (length ps)) rs))"

definition dedicatedMappings ::
  "EgressRule list \<Rightarrow> int \<Rightarrow> (string \<Rightarrow> bool) \<Rightarrow> (EgressRule \<Rightarrow> int) \<Rightarrow> (string \<Rightarrow> bool) \<Rightarrow>
   TCPMapping list" where
  "dedicatedMappings rules base protoMatch portFn skipDst =
     mappings_from base protoMatch portFn skipDst 0 rules"

definition TCPMappings :: "EgressRule list \<Rightarrow> EnvoyPorts \<Rightarrow> TCPMapping list" where
  "TCPMappings rules ports =
     dedicatedMappings rules (TCPPortBase ports) (\<lambda>p. p = ''ssh'' \<or> p = ''tcp'') tcpDefaultPort isCIDR"

definition UDPMappings :: "EgressRule list \<Rightarrow> EnvoyPorts \<Rightarrow> TCPMapping list" where
  "UDPMappings rules ports =
     dedicatedMappings rules (UDPPortBase ports) (\<lambda>p. p = ''udp'') udpDefaultPort isCIDR"

definition dedicatedPortKey :: "string \<Rightarrow> int \<Rightarrow> string" where
  "dedicatedPortKey host port = host @ '':'' @ Itoa port"

section \<open>Protocol helpers\<close>

definition effectiveDstPort :: "EgressRule \<Rightarrow> int" where
  "effectiveDstPort r =
     (case SinglePort r of
        Some p \<Rightarrow> p
      | None \<Rightarrow>
          if ToLower (Proto r) \<in> set [''http'', ''ws''] then defaultHTTPPort
          else if ToLower (Proto r) = ''ssh'' then sshDefaultPort
          else defaultDestPort)"

definition canonicalProto :: "string \<Rightarrow> string" where
  "canonicalProto p0 =
     (let p = ToLower p0 in
      if p \<in> set [[], ''tls''] then ''https''
      else if p = ''ws'' then ''http''
      else if p = ''wss'' then ''https''
      else p)"

definition baseProto :: "string \<Rightarrow> string" where
  "baseProto p0 =
     (let p = ToLower p0 in if p = ''ws'' then ''http'' else if p = ''wss'' then ''https'' else p)"

definition originKey :: "EgressRule \<Rightarrow> string" where
  "originKey r = Dst r @ '':'' @ Itoa (effectiveDstPort r)"

section \<open>Checks\<close>

definition stack_span :: "EgressRule \<Rightarrow> span" where
  "stack_span r =
     (case PortSpan r of Some sp \<Rightarrow> sp | None \<Rightarrow> (effectiveDstPort r, effectiveDstPort r))"

definition builds_stack :: "EgressRule \<Rightarrow> bool" where
  "builds_stack r \<longleftrightarrow> \<not> (isDenyAction (Action r) \<and> \<not> isOpaqueProto (Proto r))"

definition byHost :: "EgressRule list \<Rightarrow> string \<Rightarrow> string \<Rightarrow> span list" where
  "byHost rules host proto =
     map stack_span
       (filter (\<lambda>r. builds_stack r \<and> normalizeDomain (Dst r) = host \<and> canonicalProto (Proto r) = proto)
         rules)"

definition stack_hosts :: "EgressRule list \<Rightarrow> string list" where
  "stack_hosts rules = sort (remdups (map (\<lambda>r. normalizeDomain (Dst r)) (filter builds_stack rules)))"

definition stack_protos :: "EgressRule list \<Rightarrow> string \<Rightarrow> string list" where
  "stack_protos rules host =
     sort (remdups (map (\<lambda>r. canonicalProto (Proto r))
       (filter (\<lambda>r. builds_stack r \<and> normalizeDomain (Dst r) = host) rules)))"

fun pairs :: "'a list \<Rightarrow> ('a \<times> 'a) list" where
  "pairs [] = []"
| "pairs (x # xs) = map (Pair x) xs @ pairs xs"

definition checkProtoCollisions :: "EgressRule list \<Rightarrow> layout_error option" where
  "checkProtoCollisions rules =
     first_error (\<lambda>h.
       first_error (\<lambda>(p, q).
         (case lowestSpanOverlap (byHost rules h p) (byHost rules h q) of
            Some port \<Rightarrow> Some (ProtoCollision h port [p, q])
          | None \<Rightarrow> None)) (pairs (stack_protos rules h))) (stack_hosts rules)"

definition conflict_pair :: "EgressRule \<Rightarrow> string \<times> string" where
  "conflict_pair r = (normalizeDomain (Dst r), ToLower (Proto r))"

definition action_spans :: "bool \<Rightarrow> EgressRule list \<Rightarrow> string \<times> string \<Rightarrow> span list" where
  "action_spans deny rules k =
     map (\<lambda>r. the (PortSpan r))
       (filter (\<lambda>r. isOpaqueProto (Proto r) \<and> PortSpan r \<noteq> None \<and> conflict_pair r = k \<and>
          isDenyAction (Action r) = deny) rules)"

definition conflict_keys :: "EgressRule list \<Rightarrow> (string \<times> string) list" where
  "conflict_keys rules =
     sort (remdups (filter (\<lambda>k. action_spans True rules k \<noteq> [] \<and> action_spans False rules k \<noteq> [])
       (map conflict_pair rules)))"

definition checkOpaquePortActionConflicts :: "EgressRule list \<Rightarrow> layout_error option" where
  "checkOpaquePortActionConflicts rules =
     first_error (\<lambda>k.
       (case lowestSpanOverlap (action_spans False rules k) (action_spans True rules k) of
          Some port \<Rightarrow> Some (ActionConflict (snd k) (fst k) port)
        | None \<Rightarrow> None)) (conflict_keys rules)"

definition validateDedicatedLayout :: "EgressRule list \<Rightarrow> EnvoyPorts \<Rightarrow> layout_error option" where
  "validateDedicatedLayout rules ports =
     (let tcp = TCPMappings rules ports; udp = UDPMappings rules ports;
          bands = [(''tcp/ssh'', TCPPortBase ports, int (length tcp)),
                   (''raw udp'', UDPPortBase ports, int (length udp))];
          infra = [(''EgressPort'', EgressPort ports), (''HealthPort'', HealthPort ports),
                   (''admin'', envoyAdminPort)]
      in (case first_error (\<lambda>(name, base, n).
               if n > 0 \<and> base + n - 1 > 65535 then Some (BandOverflow n name base) else None) bands of
            Some e \<Rightarrow> Some e
          | None \<Rightarrow>
              (case first_error (\<lambda>(name, base, n).
                   if n = 0 then None
                   else first_error (\<lambda>(iname, port).
                     if port \<ge> base \<and> port \<le> base + n - 1
                     then Some (BandHitsInfra name base (base + n - 1) iname port) else None) infra) bands of
                 Some e \<Rightarrow> Some e
               | None \<Rightarrow>
                   if tcp \<noteq> [] \<and> udp \<noteq> [] then
                     (let tLo = TCPPortBase ports; tHi = TCPPortBase ports + int (length tcp) - 1;
                          uLo = UDPPortBase ports; uHi = UDPPortBase ports + int (length udp) - 1
                      in if tLo \<le> uHi \<and> uLo \<le> tHi then Some (BandsOverlap tLo tHi uLo uHi) else None)
                   else None)))"

definition validateProtoDstSupport :: "EgressRule list \<Rightarrow> layout_error option" where
  "validateProtoDstSupport rules =
     first_error (\<lambda>r.
       if ToLower (Action r) \<noteq> ''allow'' \<and> ToLower (Action r) \<noteq> [] then None
       else if ToLower (Proto r) = ''udp'' \<and> isCIDR (Dst r) then Some (UDPToCIDR (Dst r))
       else None) rules"

section \<open>Lemmas on the assignment of listener ports\<close>

lemma length_map_ports [simp]: "length (map_ports dst base idx ps) = length ps"
  by (induction dst base idx ps rule: map_ports.induct) auto

lemma map_ports_ports:
  "map EnvoyPort (map_ports dst base idx ps) = map (\<lambda>i. base + idx + int i) [0..<length ps]"
proof (induction dst base idx ps rule: map_ports.induct)
  case (2 dst base idx p ps)
  have "map (\<lambda>i. base + (idx + 1) + int i) [0..<length ps] =
      map (\<lambda>i. base + idx + int i) (map Suc [0..<length ps])" by simp
  also have "map Suc [0..<length ps] = [1..<Suc (length ps)]" by (simp add: map_Suc_upt)
  finally show ?case using 2 by (simp add: upt_conv_Cons del: upt_Suc)
qed simp

lemma mappings_from_ports:
  "map EnvoyPort (mappings_from base pm pf sk idx rs) =
     map (\<lambda>i. base + idx + int i) [0..<length (mappings_from base pm pf sk idx rs)]"
proof (induction base pm pf sk idx rs rule: mappings_from.induct)
  case (2 base pm pf sk idx r rs)
  let ?n = "length (dedicatedPorts r pf)"
  let ?m = "length (mappings_from base pm pf sk (idx + int ?n) rs)"
  have "map (\<lambda>i. base + idx + int i) [0..<?n + ?m] =
      map (\<lambda>i. base + idx + int i) [0..<?n] @ map (\<lambda>i. base + (idx + int ?n) + int i) [0..<?m]"
    by (rule nth_equalityI) (auto simp: nth_append)
  then show ?case using 2 by (auto simp: Let_def map_ports_ports)
qed simp

lemma dedicatedMappings_ports:
  "map EnvoyPort (dedicatedMappings rs base pm pf sk) =
     map (\<lambda>i. base + int i) [0..<length (dedicatedMappings rs base pm pf sk)]"
  using mappings_from_ports [of base pm pf sk 0 rs] by (simp add: dedicatedMappings_def)

lemma dedicatedMappings_distinct: "distinct (map EnvoyPort (dedicatedMappings rs base pm pf sk))"
  by (simp add: dedicatedMappings_ports distinct_map inj_on_def)

lemma dedicatedMappings_band:
  "m \<in> set (dedicatedMappings rs base pm pf sk) \<Longrightarrow>
     base \<le> EnvoyPort m \<and> EnvoyPort m \<le> base + int (length (dedicatedMappings rs base pm pf sk)) - 1"
proof -
  assume "m \<in> set (dedicatedMappings rs base pm pf sk)"
  then have "EnvoyPort m \<in> set (map EnvoyPort (dedicatedMappings rs base pm pf sk))" by simp
  then show ?thesis unfolding dedicatedMappings_ports by auto
qed

lemma map_ports_set:
  "m \<in> set (map_ports dst base idx ps) \<Longrightarrow> MDst m = dst \<and> DstPort m \<in> set ps"
  by (induction dst base idx ps rule: map_ports.induct) auto

lemma mappings_from_keys:
  "map (\<lambda>m. (MDst m, DstPort m)) (mappings_from base pm pf sk idx rs) =
     concat (map (\<lambda>r. map (Pair (normalizeDomain (Dst r))) (dedicatedPorts r pf))
       (filter (\<lambda>r. \<not> sk (Dst r) \<and> pm (ToLower (Proto r))) rs))"
proof (induction base pm pf sk idx rs rule: mappings_from.induct)
  case (2 base pm pf sk idx r rs)
  have "map (\<lambda>m. (MDst m, DstPort m)) (map_ports dst base idx ps) = map (Pair dst) ps" for dst base idx ps
    by (induction dst base idx ps rule: map_ports.induct) auto
  then show ?case using 2 by (auto simp: Let_def)
qed simp

section \<open>Lemmas on the checks\<close>

lemma port_clash_None:
  "port_clash seen ns = None \<longleftrightarrow>
     distinct (map snd ns) \<and> (\<forall>n \<in> set ns. seen (snd n) = None)"
proof (induction ns arbitrary: seen)
  case (Cons n ns)
  obtain name port where n: "n = (name, port)" by (cases n)
  have "port_clash (seen(port \<mapsto> name)) ns = None \<longleftrightarrow>
      distinct (map snd ns) \<and> (\<forall>n \<in> set ns. snd n \<noteq> port \<and> seen (snd n) = None)"
    unfolding Cons.IH by auto
  then show ?case using n by (cases "seen port") auto
qed simp

lemma case_error_None: "(case x of Some y \<Rightarrow> Some (f y) | None \<Rightarrow> None) = None \<longleftrightarrow> x = None"
  by (cases x) auto

lemma valid_ports_default [simp]:
  "valid_span (defaultDestPort, defaultDestPort)" "valid_span (sshDefaultPort, sshDefaultPort)"
  "valid_span (defaultHTTPPort, defaultHTTPPort)"
  by (auto simp: valid_span_def defaultDestPort_def sshDefaultPort_def defaultHTTPPort_def)

lemma effectiveDstPort_valid: "valid_span (effectiveDstPort r, effectiveDstPort r)"
  by (auto simp: effectiveDstPort_def SinglePort_iff split: option.splits intro: PortSpan_valid)

lemma stack_span_valid: "valid_span (stack_span r)"
  by (auto simp: stack_span_def effectiveDstPort_valid split: option.splits intro: PortSpan_valid)

lemma in_pairs: "(x, y) \<in> set (pairs xs) \<Longrightarrow> x \<in> set xs \<and> y \<in> set xs"
  by (induction xs) auto

lemma pairs_complete: "x \<in> set xs \<Longrightarrow> y \<in> set xs \<Longrightarrow> x \<noteq> y \<Longrightarrow> (x, y) \<in> set (pairs xs) \<or> (y, x) \<in> set (pairs xs)"
  by (induction xs) auto

lemma pairs_distinct: "distinct xs \<Longrightarrow> (x, y) \<in> set (pairs xs) \<Longrightarrow> x \<noteq> y"
  by (induction xs) (auto dest: in_pairs)

lemma covered_byHost:
  "covered (byHost rules h p) =
     (\<Union>r \<in> {r \<in> set rules. builds_stack r \<and> normalizeDomain (Dst r) = h \<and> canonicalProto (Proto r) = p}.
        ports_of (stack_span r))"
  by (auto simp: byHost_def covered_def)

lemma valid_byHost: "valid_spans (byHost rules h p)"
  by (auto simp: valid_spans_def byHost_def stack_span_valid)

text \<open>No port of a host is claimed by two protocols.\<close>

definition collision_free :: "EgressRule list \<Rightarrow> bool" where
  "collision_free rules \<longleftrightarrow>
     (\<forall>r \<in> set rules. \<forall>s \<in> set rules.
        builds_stack r \<and> builds_stack s \<and> normalizeDomain (Dst r) = normalizeDomain (Dst s) \<and>
        canonicalProto (Proto r) \<noteq> canonicalProto (Proto s) \<longrightarrow>
        ports_of (stack_span r) \<inter> ports_of (stack_span s) = {})"

lemma collision_free_byHost:
  "collision_free rules \<longleftrightarrow>
     (\<forall>h p q. p \<noteq> q \<longrightarrow> covered (byHost rules h p) \<inter> covered (byHost rules h q) = {})"
  unfolding collision_free_def covered_byHost by fastforce

lemma checkProtoCollisions_pairs:
  "checkProtoCollisions rules = None \<longleftrightarrow>
     (\<forall>h \<in> set (stack_hosts rules). \<forall>(p, q) \<in> set (pairs (stack_protos rules h)).
        covered (byHost rules h p) \<inter> covered (byHost rules h q) = {})"
  unfolding checkProtoCollisions_def first_error_None split_beta case_error_None
    lowestSpanOverlap_None [OF valid_byHost valid_byHost] ..

lemma covered_byHost_empty:
  assumes "h \<notin> set (stack_hosts rules) \<or> p \<notin> set (stack_protos rules h)"
  shows "covered (byHost rules h p) = {}"
  using assms unfolding covered_byHost by (auto simp: stack_hosts_def stack_protos_def)

lemma checkProtoCollisions_iff_free: "checkProtoCollisions rules = None \<longleftrightarrow> collision_free rules"
proof
  assume "collision_free rules"
  moreover have "distinct (stack_protos rules h)" for h by (simp add: stack_protos_def)
  ultimately show "checkProtoCollisions rules = None"
    unfolding checkProtoCollisions_pairs collision_free_byHost split_beta
    using pairs_distinct by (metis prod.collapse)
next
  assume c: "checkProtoCollisions rules = None"
  show "collision_free rules"
    unfolding collision_free_byHost
  proof (intro allI impI)
    fix h p q :: string
    assume "p \<noteq> q"
    show "covered (byHost rules h p) \<inter> covered (byHost rules h q) = {}"
    proof (cases "h \<in> set (stack_hosts rules) \<and> p \<in> set (stack_protos rules h) \<and> q \<in> set (stack_protos rules h)")
      case True
      then have "(p, q) \<in> set (pairs (stack_protos rules h)) \<or> (q, p) \<in> set (pairs (stack_protos rules h))"
        using pairs_complete \<open>p \<noteq> q\<close> by metis
      then show ?thesis using c True unfolding checkProtoCollisions_pairs by blast
    next
      case False
      then show ?thesis using covered_byHost_empty by blast
    qed
  qed
qed

lemma opaque_no_nul: "isOpaqueProto p \<Longrightarrow> CHR 0x00 \<notin> set (ToLower p)"
  by (auto simp: isOpaqueProto_def)

lemma group_key_pair:
  assumes "isOpaqueProto (Proto r)" "isOpaqueProto (Proto s)"
  shows "group_key r = group_key s \<longleftrightarrow> conflict_pair r = conflict_pair s"
  using last_sep_eq [of "normalizeDomain (Dst r)" "CHR 0x00" "ToLower (Proto r)"
      "normalizeDomain (Dst s)" "ToLower (Proto s)"] assms
  by (auto simp: group_key_def conflict_pair_def opaque_no_nul)

lemma covered_action_spans:
  "covered (action_spans d rules k) =
     (\<Union>r \<in> {r \<in> set rules. grouped r \<and> conflict_pair r = k \<and> isDenyAction (Action r) = d}.
        ports_of (the (PortSpan r)))"
  by (auto simp: action_spans_def covered_def grouped_def)

lemma valid_action_spans: "valid_spans (action_spans d rules k)"
  by (auto simp: valid_spans_def action_spans_def intro: PortSpan_valid)

lemma decided_ports_pair:
  assumes "r \<in> set rules" "grouped r"
  shows "covered (action_spans d rules (conflict_pair r)) = decided_ports d (group_key r) rules"
proof -
  have "conflict_pair s = conflict_pair r \<longleftrightarrow> group_key s = group_key r" if "grouped s" for s
    using group_key_pair [of s r] that assms(2) by (simp add: grouped_def)
  then have "{s \<in> set rules. grouped s \<and> conflict_pair s = conflict_pair r \<and> isDenyAction (Action s) = d} =
      {s \<in> set rules. grouped s \<and> group_key s = group_key r \<and> isDenyAction (Action s) = d}"
    by blast
  then show ?thesis unfolding covered_action_spans set_eq_iff decided_ports_iff by blast
qed

definition actions_disjoint :: "EgressRule list \<Rightarrow> bool" where
  "actions_disjoint rules \<longleftrightarrow>
     (\<forall>k. decided_ports False k rules \<inter> decided_ports True k rules = {})"

lemma checkOpaquePortActionConflicts_keys:
  "checkOpaquePortActionConflicts rules = None \<longleftrightarrow>
     (\<forall>k. covered (action_spans False rules k) \<inter> covered (action_spans True rules k) = {})"
proof -
  have "k \<in> set (conflict_keys rules)"
    if "covered (action_spans False rules k) \<inter> covered (action_spans True rules k) \<noteq> {}" for k
  proof -
    have ne: "action_spans False rules k \<noteq> []" "action_spans True rules k \<noteq> []" using that by auto
    then have "k \<in> set (map conflict_pair rules)" by (auto simp: action_spans_def filter_empty_conv)
    with ne show ?thesis by (simp add: conflict_keys_def)
  qed
  then show ?thesis
    unfolding checkOpaquePortActionConflicts_def first_error_None case_error_None
      lowestSpanOverlap_None [OF valid_action_spans valid_action_spans] by blast
qed

lemma checkOpaquePortActionConflicts_iff_disjoint:
  "checkOpaquePortActionConflicts rules = None \<longleftrightarrow> actions_disjoint rules"
proof
  assume c: "checkOpaquePortActionConflicts rules = None"
  show "actions_disjoint rules"
    unfolding actions_disjoint_def
  proof (intro allI equals0I)
    fix k p
    assume p: "p \<in> decided_ports False k rules \<inter> decided_ports True k rules"
    then obtain r where "r \<in> set rules" "grouped r" "group_key r = k" by (auto simp: decided_ports_iff)
    then show False
      using p c decided_ports_pair [of r rules] unfolding checkOpaquePortActionConflicts_keys by blast
  qed
next
  assume a: "actions_disjoint rules"
  show "checkOpaquePortActionConflicts rules = None"
    unfolding checkOpaquePortActionConflicts_keys
  proof (intro allI equals0I)
    fix k p
    assume p: "p \<in> covered (action_spans False rules k) \<inter> covered (action_spans True rules k)"
    then obtain r where "r \<in> set rules" "grouped r" "conflict_pair r = k"
      by (auto simp: covered_action_spans)
    then show False
      using p a decided_ports_pair [of r rules] unfolding actions_disjoint_def by blast
  qed
qed

lemma validateDedicatedLayout_None:
  assumes "validateDedicatedLayout rules ports = None"
  defines "t \<equiv> int (length (TCPMappings rules ports))" and "u \<equiv> int (length (UDPMappings rules ports))"
  shows "t > 0 \<Longrightarrow> TCPPortBase ports + t - 1 \<le> 65535"
    and "u > 0 \<Longrightarrow> UDPPortBase ports + u - 1 \<le> 65535"
    and "t > 0 \<Longrightarrow> p \<in> {EgressPort ports, HealthPort ports, envoyAdminPort} \<Longrightarrow>
      \<not> (TCPPortBase ports \<le> p \<and> p \<le> TCPPortBase ports + t - 1)"
    and "u > 0 \<Longrightarrow> p \<in> {EgressPort ports, HealthPort ports, envoyAdminPort} \<Longrightarrow>
      \<not> (UDPPortBase ports \<le> p \<and> p \<le> UDPPortBase ports + u - 1)"
    and "t > 0 \<Longrightarrow> u > 0 \<Longrightarrow>
      \<not> (TCPPortBase ports \<le> UDPPortBase ports + u - 1 \<and> UDPPortBase ports \<le> TCPPortBase ports + t - 1)"
  using assms(1) unfolding t_def u_def
  by (auto simp: validateDedicatedLayout_def Let_def split: if_splits option.splits)

definition dedicated_listeners :: "EgressRule list \<Rightarrow> EnvoyPorts \<Rightarrow> TCPMapping list" where
  "dedicated_listeners rules ports = TCPMappings rules ports @ UDPMappings rules ports"

lemma TCPMappings_band:
  "m \<in> set (TCPMappings rules ports) \<Longrightarrow> TCPPortBase ports \<le> EnvoyPort m \<and>
     EnvoyPort m \<le> TCPPortBase ports + int (length (TCPMappings rules ports)) - 1 \<and>
     int (length (TCPMappings rules ports)) > 0"
  using dedicatedMappings_band length_pos_if_in_set [of m] unfolding TCPMappings_def by auto

lemma UDPMappings_band:
  "m \<in> set (UDPMappings rules ports) \<Longrightarrow> UDPPortBase ports \<le> EnvoyPort m \<and>
     EnvoyPort m \<le> UDPPortBase ports + int (length (UDPMappings rules ports)) - 1 \<and>
     int (length (UDPMappings rules ports)) > 0"
  using dedicatedMappings_band length_pos_if_in_set [of m] unfolding UDPMappings_def by auto

lemma layout_distinct:
  assumes "validateDedicatedLayout rules ports = None"
  shows "distinct (map EnvoyPort (dedicated_listeners rules ports))"
proof -
  note v = validateDedicatedLayout_None(5) [OF assms]
  have "EnvoyPort m \<noteq> EnvoyPort n"
    if "m \<in> set (TCPMappings rules ports)" "n \<in> set (UDPMappings rules ports)" for m n
    using v TCPMappings_band [OF that(1)] UDPMappings_band [OF that(2)] by auto
  moreover have "distinct (map EnvoyPort (TCPMappings rules ports))"
    "distinct (map EnvoyPort (UDPMappings rules ports))"
    by (simp_all add: TCPMappings_def UDPMappings_def dedicatedMappings_distinct)
  ultimately show ?thesis by (auto simp: dedicated_listeners_def)
qed

lemma layout_bounds:
  assumes "EnvoyPorts_Validate ports = None" "validateDedicatedLayout rules ports = None"
    "m \<in> set (dedicated_listeners rules ports)"
  shows "1 \<le> EnvoyPort m \<and> EnvoyPort m \<le> 65535 \<and>
    EnvoyPort m \<notin> {EgressPort ports, HealthPort ports, envoyAdminPort}"
proof -
  have base: "1 \<le> TCPPortBase ports" "1 \<le> UDPPortBase ports"
    using assms(1)
    by (auto simp: EnvoyPorts_Validate_def named_ports_def split: option.splits if_splits)
  from assms(3) consider "m \<in> set (TCPMappings rules ports)" | "m \<in> set (UDPMappings rules ports)"
    by (auto simp: dedicated_listeners_def)
  then show ?thesis
  proof cases
    case 1
    show ?thesis
      using TCPMappings_band [OF 1] validateDedicatedLayout_None(1) [OF assms(2)]
        validateDedicatedLayout_None(3) [OF assms(2)] base(1) by force
  next
    case 2
    show ?thesis
      using UDPMappings_band [OF 2] validateDedicatedLayout_None(2) [OF assms(2)]
        validateDedicatedLayout_None(4) [OF assms(2)] base(2) by force
  qed
qed

section \<open>Destinations of the dedicated listeners\<close>

lemma distinct_concat_map:
  assumes "\<And>x. x \<in> set xs \<Longrightarrow> distinct (f x)" "sorted_wrt (\<lambda>x y. set (f x) \<inter> set (f y) = {}) xs"
  shows "distinct (concat (map f xs))"
  using assms by (induction xs) auto

lemma sorted_wrt_filter_mono:
  assumes "sorted_wrt P xs" "\<And>x y. x \<in> set xs \<Longrightarrow> y \<in> set xs \<Longrightarrow> Q x \<Longrightarrow> Q y \<Longrightarrow> P x y \<Longrightarrow> R x y"
  shows "sorted_wrt R (filter Q xs)"
  using assms by (induction xs) auto

lemma same_action_disjoint:
  assumes "\<forall>d k. disjoint_spans (spans d (members k xs))"
  shows "sorted_wrt (\<lambda>r s. grouped r \<and> grouped s \<and> group_key r = group_key s \<and>
      isDenyAction (Action r) = isDenyAction (Action s) \<longrightarrow>
      ports_of (the (PortSpan r)) \<inter> ports_of (the (PortSpan s)) = {}) xs"
  using assms
proof (induction xs)
  case (Cons r xs)
  have "disjoint_spans (spans d (members k xs))" for d k
    using Cons.prems [THEN spec, THEN spec, of d k] by (auto split: if_splits)
  moreover have "ports_of (the (PortSpan r)) \<inter> ports_of (the (PortSpan s)) = {}"
    if s: "s \<in> set xs" "grouped r" "grouped s" "group_key r = group_key s"
      "isDenyAction (Action r) = isDenyAction (Action s)" for s
  proof -
    have "the (PortSpan s) \<in> set (spans (isDenyAction (Action r)) (members (group_key r) xs))"
      using s by (auto simp: spans_def members_grouped)
    then show ?thesis
      using Cons.prems [THEN spec, THEN spec, of "isDenyAction (Action r)" "group_key r"] s(2)
      by (auto simp: ports_of_def)
  qed
  ultimately show ?case using Cons.IH by auto
qed simp

lemma opaque_canonicalProto: "isOpaqueProto p \<Longrightarrow> canonicalProto p = ToLower p"
  by (auto simp: isOpaqueProto_def canonicalProto_def)

lemma grouped_stack: "grouped r \<Longrightarrow> builds_stack r \<and> stack_span r = the (PortSpan r)"
  by (auto simp: grouped_def builds_stack_def stack_span_def)

lemma group_ports_disjoint:
  assumes "collision_free xs" "actions_disjoint xs" "r \<in> set xs" "s \<in> set xs" "grouped r" "grouped s"
    "normalizeDomain (Dst r) = normalizeDomain (Dst s)"
    "group_key r = group_key s \<Longrightarrow> isDenyAction (Action r) = isDenyAction (Action s) \<Longrightarrow>
      ports_of (the (PortSpan r)) \<inter> ports_of (the (PortSpan s)) = {}"
  shows "ports_of (the (PortSpan r)) \<inter> ports_of (the (PortSpan s)) = {}"
proof (cases "group_key r = group_key s")
  case True
  show ?thesis
  proof (cases "isDenyAction (Action r) = isDenyAction (Action s)")
    case False
    have "ports_of (the (PortSpan t)) \<subseteq> decided_ports (isDenyAction (Action t)) (group_key t) xs"
      if "t \<in> set xs" "grouped t" for t
      using that by (auto simp: decided_ports_iff)
    then show ?thesis
      using False True assms(2-6) unfolding actions_disjoint_def by (cases "isDenyAction (Action r)") fastforce+
  qed (rule assms(8) [OF True])
next
  case False
  then have "canonicalProto (Proto r) \<noteq> canonicalProto (Proto s)"
    using assms(5-7) by (auto simp: grouped_def opaque_canonicalProto group_key_def)
  then show ?thesis
    using assms grouped_stack unfolding collision_free_def by metis
qed

definition ports_set :: "EgressRule list \<Rightarrow> bool" where
  "ports_set rules \<longleftrightarrow> (\<forall>r \<in> set rules. isOpaqueProto (Proto r) \<longrightarrow> PortSpan r \<noteq> None)"

lemma mappings_keys_distinct:
  assumes "collision_free xs" "actions_disjoint xs" "ports_set xs"
    "\<forall>d k. disjoint_spans (spans d (members k xs))" "\<And>p. pm (ToLower p) \<Longrightarrow> isOpaqueProto p"
  shows "distinct (map (\<lambda>m. (MDst m, DstPort m)) (dedicatedMappings xs base pm pf sk))"
proof -
  let ?L = "filter (\<lambda>r. \<not> sk (Dst r) \<and> pm (ToLower (Proto r))) xs"
  let ?f = "\<lambda>r. map (Pair (normalizeDomain (Dst r))) (dedicatedPorts r pf)"
  have f: "set (?f r) = {normalizeDomain (Dst r)} \<times> ports_of (the (PortSpan r)) \<and> distinct (?f r)"
    if "grouped r" for r
    using that
    by (auto simp: grouped_def dedicatedPorts_def ports_of_def distinct_map inj_on_def)
  have g: "grouped r" if "r \<in> set xs" "pm (ToLower (Proto r))" for r
    using assms(3,5) that by (simp add: ports_set_def grouped_def)
  have "sorted_wrt (\<lambda>r s. set (?f r) \<inter> set (?f s) = {}) ?L"
  proof (rule sorted_wrt_filter_mono [OF same_action_disjoint [OF assms(4)]])
    fix r s
    assume rs: "r \<in> set xs" "s \<in> set xs" "\<not> sk (Dst r) \<and> pm (ToLower (Proto r))"
      "\<not> sk (Dst s) \<and> pm (ToLower (Proto s))"
      and d: "grouped r \<and> grouped s \<and> group_key r = group_key s \<and>
        isDenyAction (Action r) = isDenyAction (Action s) \<longrightarrow>
        ports_of (the (PortSpan r)) \<inter> ports_of (the (PortSpan s)) = {}"
    have gr: "grouped r" "grouped s" using g rs by auto
    have "normalizeDomain (Dst r) = normalizeDomain (Dst s) \<Longrightarrow>
        ports_of (the (PortSpan r)) \<inter> ports_of (the (PortSpan s)) = {}"
      using group_ports_disjoint [OF assms(1,2) rs(1,2) gr] d gr by blast
    moreover have "set (?f r) = {normalizeDomain (Dst r)} \<times> ports_of (the (PortSpan r))"
      "set (?f s) = {normalizeDomain (Dst s)} \<times> ports_of (the (PortSpan s))"
      using f [OF gr(1)] f [OF gr(2)] by blast+
    ultimately show "set (?f r) \<inter> set (?f s) = {}"
      by (simp only: Times_Int_Times) (metis Int_emptyI Times_empty singletonD)
  qed
  moreover have "distinct (?f r)" if "r \<in> set ?L" for r
    using f [OF g [of r]] that by simp
  ultimately have "distinct (concat (map ?f ?L))" by (intro distinct_concat_map)
  then show ?thesis by (simp only: dedicatedMappings_def mappings_from_keys)
qed

section \<open>Properties\<close>

text \<open>
  Theorem: the port layout check accepts exactly the layouts whose four base ports lie in
  1..65535 and are pairwise different.
\<close>

theorem EnvoyPorts_Validate_iff:
  "EnvoyPorts_Validate p = None \<longleftrightarrow>
     {EgressPort p, TCPPortBase p, UDPPortBase p, HealthPort p} \<subseteq> {1..65535} \<and>
     distinct [EgressPort p, TCPPortBase p, UDPPortBase p, HealthPort p]"
proof -
  let ?range = "\<lambda>(name, port). if port \<le> 0 \<or> port > 65535 then Some (PortOutOfRange name port) else None"
  have "first_error ?range (named_ports p) = None \<longleftrightarrow>
      {EgressPort p, TCPPortBase p, UDPPortBase p, HealthPort p} \<subseteq> {1..65535}"
    by (auto simp: first_error_None named_ports_def split: if_splits)
  moreover have "port_clash Map.empty (named_ports p) = None \<longleftrightarrow>
      distinct [EgressPort p, TCPPortBase p, UDPPortBase p, HealthPort p]"
    unfolding port_clash_None by (simp add: named_ports_def)
  ultimately show ?thesis
    unfolding EnvoyPorts_Validate_def by (auto split: option.split)
qed

text \<open>
  Theorem: when the generator's layout checks pass, every dedicated listener port is a real port
  (so the 16-bit conversion in the route table cannot wrap), no two dedicated listeners, tcp or
  udp, share one, and none is the egress, health or admin port.
\<close>

theorem dedicated_layout_sound:
  assumes "EnvoyPorts_Validate ports = None" "validateDedicatedLayout rules ports = None"
  shows "distinct (map EnvoyPort (dedicated_listeners rules ports)) \<and>
    EnvoyPort ` set (dedicated_listeners rules ports) \<subseteq>
      {1..65535} - {EgressPort ports, HealthPort ports, envoyAdminPort}"
  using layout_distinct [OF assms(2)] layout_bounds [OF assms] by auto

definition sample_ports :: EnvoyPorts where
  "sample_ports = \<lparr>EgressPort = 10000, TCPPortBase = 10001, UDPPortBase = 20000, HealthPort = 18901\<rparr>"

lemma PortSpan_tcp_rule [simp]:
  "valid_span sp \<Longrightarrow> PortSpan (tcp_rule dst (formatSpan sp) a) = Some sp"
  using PortSpan_formatSpan [of sp "tcp_rule dst [] a"] by (simp add: tcp_rule_def)

lemma sample_dst: "\<not> isCIDR ''db.local''" "normalizeDomain ''db.local'' = ''db.local''"
  by code_simp+

lemma tcp_lower: "ToLower ''tcp'' = ''tcp''"
  by code_simp

lemmas tcp_rule_eval = dedicatedMappings_def TCPMappings_def UDPMappings_def dedicatedPorts_def
  sample_dst tcp_lower

lemma tcp_rule_fields [simp]:
  "Dst (tcp_rule d p a) = d" "Proto (tcp_rule d p a) = ''tcp''" "Action (tcp_rule d p a) = a"
  by (simp_all add: tcp_rule_def)

definition sample_one :: "EgressRule list" where
  "sample_one = [tcp_rule ''db.local'' (formatSpan (45, 47)) []]"

lemma sample_mappings:
  "TCPMappings sample_one sample_ports =
     [\<lparr>MDst = ''db.local'', DstPort = 45, EnvoyPort = 10001\<rparr>,
      \<lparr>MDst = ''db.local'', DstPort = 46, EnvoyPort = 10002\<rparr>,
      \<lparr>MDst = ''db.local'', DstPort = 47, EnvoyPort = 10003\<rparr>]"
  "UDPMappings sample_one sample_ports = []"
  by (simp_all add: sample_one_def tcp_rule_eval valid_span_def sample_ports_def upto.simps)

lemma sample_layout:
  "EnvoyPorts_Validate sample_ports = None" "validateDedicatedLayout sample_one sample_ports = None"
  unfolding validateDedicatedLayout_def sample_mappings
  by (simp_all add: EnvoyPorts_Validate_def named_ports_def sample_ports_def envoyAdminPort_def)

theorem dedicated_layout_sound_witness:
  "EnvoyPorts_Validate sample_ports = None \<and>
   validateDedicatedLayout sample_one sample_ports = None \<and>
   distinct (map EnvoyPort (dedicated_listeners sample_one sample_ports))"
  using dedicated_layout_sound [OF sample_layout] sample_layout by blast

text \<open>
  Theorem: the protocol collision check passes exactly when no port of a host is claimed by two
  different canonical protocols, counting port ranges and protocol defaults.
\<close>

theorem checkProtoCollisions_iff: "checkProtoCollisions rules = None \<longleftrightarrow> collision_free rules"
  by (rule checkProtoCollisions_iff_free)

text \<open>
  Theorem: deny wins on the whole path from the stored rules to a configuration the generator
  accepts. If the action check passes on the canonical rules, then for every destination and
  opaque protocol the canonical set denies exactly the ports some kept rule denies, and allows
  exactly the ports some kept rule allows and none denies.
\<close>

theorem canonical_deny_wins:
  assumes "\<forall>r \<in> set rs. plain_rule r"
    "checkOpaquePortActionConflicts (fst (NormalizeAndDedup rs)) = None"
  shows "decided_ports True k (fst (NormalizeAndDedup rs)) = decided_ports True k (kept rs) \<and>
    decided_ports False k (fst (NormalizeAndDedup rs)) =
      decided_ports False k (kept rs) - decided_ports True k (kept rs)"
proof -
  have "decided_ports False k (fst (NormalizeAndDedup rs)) \<inter>
      decided_ports True k (fst (NormalizeAndDedup rs)) = {}"
    using assms(2) unfolding checkOpaquePortActionConflicts_iff_disjoint actions_disjoint_def by blast
  then show ?thesis using NormalizeAndDedup_ports [OF assms(1), of k] by blast
qed

lemma deny_empty: "\<not> isDenyAction []"
  by (simp add: isDenyAction_def ToLower_def)

lemma sample_single: "\<forall>r \<in> set sample_one. plain_rule r"
  by (simp add: sample_one_def plain_rule_def)

lemma action_check_deny_only:
  assumes "\<forall>r \<in> set rules. \<not> isDenyAction (Action r)"
  shows "checkOpaquePortActionConflicts rules = None"
  using assms unfolding checkOpaquePortActionConflicts_iff_disjoint actions_disjoint_def
  by (auto simp: decided_ports_iff)

lemma NormalizeAndDedup_actions:
  assumes "r \<in> set (fst (NormalizeAndDedup rs))"
  shows "\<exists>s \<in> set rs. Action r = Action (NormalizeRule s) \<and> Proto r = Proto (NormalizeRule s)"
  using resolve_set [of r "dedup_by action_key [] (kept rs)"] assms
    dedup_by_subset [of action_key "[]" "kept rs"]
  by (fastforce simp: NormalizeAndDedup_rules kept_def)

lemma sample_out:
  assumes "r \<in> set (fst (NormalizeAndDedup sample_one))"
  shows "Proto r = ''tcp'' \<and> \<not> isDenyAction (Action r)"
proof -
  have "Action r = Action (NormalizeRule (hd sample_one))" "Proto r = Proto (NormalizeRule (hd sample_one))"
    using NormalizeAndDedup_actions [OF assms] by (auto simp: sample_one_def)
  then show ?thesis
    using isDenyAction_NormalizeRule [of "hd sample_one"]
    by (simp add: sample_one_def NormalizeRule_fields(2) tcp_lower deny_empty)
qed

lemma sample_grouped:
  assumes "r \<in> set (kept sample_one)"
  shows "grouped r"
proof -
  have "r = NormalizeRule (hd sample_one)" using assms by (auto simp: kept_def sample_one_def split: if_splits)
  moreover have "PortSpan (NormalizeRule (hd sample_one)) = Some (45, 47)"
    using PortSpan_cong [of "NormalizeRule (hd sample_one)" "hd sample_one"]
    by (simp add: NormalizeRule_fields(4) sample_one_def valid_span_def)
      (simp add: tcp_rule_def)
  ultimately show ?thesis
    by (simp add: grouped_def isOpaqueProto_def NormalizeRule_fields(2) sample_one_def tcp_lower)
qed

lemma sample_checks:
  "checkProtoCollisions (fst (NormalizeAndDedup sample_one)) = None"
  "checkOpaquePortActionConflicts (fst (NormalizeAndDedup sample_one)) = None"
  "ports_set (fst (NormalizeAndDedup sample_one))"
proof -
  show "checkOpaquePortActionConflicts (fst (NormalizeAndDedup sample_one)) = None"
    using sample_out by (intro action_check_deny_only) blast
  show "checkProtoCollisions (fst (NormalizeAndDedup sample_one)) = None"
    using sample_out unfolding checkProtoCollisions_iff_free collision_free_def by metis
  have "PortSpan r \<noteq> None" if "r \<in> set (fst (NormalizeAndDedup sample_one))" for r
    using resolve_set [of r "dedup_by action_key [] (kept sample_one)"] that sample_grouped
      dedup_by_subset [of action_key "[]" "kept sample_one"]
    by (auto simp: NormalizeAndDedup_rules grouped_def subset_iff)
  then show "ports_set (fst (NormalizeAndDedup sample_one))" by (simp add: ports_set_def)
qed

theorem canonical_deny_wins_witness:
  "decided_ports False (group_key (tcp_rule ''db.local'' [] [])) (fst (NormalizeAndDedup sample_one)) =
   decided_ports False (group_key (tcp_rule ''db.local'' [] [])) (kept sample_one) -
   decided_ports True (group_key (tcp_rule ''db.local'' [] [])) (kept sample_one)"
  using canonical_deny_wins [OF sample_single sample_checks(2)] by blast

text \<open>
  Theorem: on a canonical rule set that passes the collision and action checks and names a port
  on every opaque rule, no two dedicated tcp listeners and no two dedicated udp listeners serve
  the same destination and port, so each connection has one listener it can be redirected to.
\<close>

theorem dedicated_destinations_unique:
  assumes "checkProtoCollisions (fst (NormalizeAndDedup rs)) = None"
    "checkOpaquePortActionConflicts (fst (NormalizeAndDedup rs)) = None"
    "ports_set (fst (NormalizeAndDedup rs))"
  shows "distinct (map (\<lambda>m. (MDst m, DstPort m)) (TCPMappings (fst (NormalizeAndDedup rs)) ports)) \<and>
    distinct (map (\<lambda>m. (MDst m, DstPort m)) (UDPMappings (fst (NormalizeAndDedup rs)) ports))"
proof -
  have d: "\<forall>d k. disjoint_spans (spans d (members k (fst (NormalizeAndDedup rs))))"
    unfolding NormalizeAndDedup_rules using resolve_ports(5) by blast
  note c = assms(1) [unfolded checkProtoCollisions_iff_free]
    assms(2) [unfolded checkOpaquePortActionConflicts_iff_disjoint] assms(3) d
  show ?thesis
    unfolding TCPMappings_def UDPMappings_def
    by (intro conjI mappings_keys_distinct [OF c]) (auto simp: isOpaqueProto_def)
qed

theorem dedicated_destinations_unique_witness:
  "distinct (map (\<lambda>m. (MDst m, DstPort m))
     (TCPMappings (fst (NormalizeAndDedup sample_one)) sample_ports))"
  using dedicated_destinations_unique [OF sample_checks] by blast

section \<open>An opaque rule without a port\<close>

definition unset_tcp :: EgressRule where
  "unset_tcp = tcp_rule ''db.local'' [] ''allow''"

definition set_tcp :: EgressRule where
  "set_tcp = tcp_rule ''db.local'' (formatSpan (443, 443)) ''allow''"

lemma unset_tcp_span: "PortSpan unset_tcp = None" "PortSpan set_tcp = Some (443, 443)"
  by (simp_all add: unset_tcp_def set_tcp_def PortSpan_def tcp_rule_def ParsePortSpec_formatSpan valid_span_def)

lemma allow_lower: "ToLower ''allow'' = ''allow''"
  by code_simp

lemma unset_tcp_canonical: "\<forall>r \<in> set [unset_tcp, set_tcp]. canonical_rule r"
proof -
  have "NormalizeRule unset_tcp = unset_tcp" "NormalizeRule set_tcp = set_tcp"
    by (rule EgressRule_eqI;
        simp add: NormalizeRule_fields unset_tcp_def set_tcp_def tcp_lower default_port_def;
        simp add: tcp_rule_def)+
  moreover have "keepable unset_tcp" "keepable set_tcp"
    by (simp_all add: keepable_def unset_tcp_def set_tcp_def ValidatePortSpec_def sample_dst)
      (simp_all add: tcp_rule_def ParsePortSpec_formatSpan valid_span_def)
  ultimately show ?thesis by (simp add: canonical_rule_def)
qed

lemma block_single:
  assumes "\<not> isDenyAction (Action r)" "PortSpan r = Some sp" "Port r = formatSpan sp"
  shows "block [r] = [r]"
proof -
  have "valid_span sp" using PortSpan_valid [OF assms(2)] .
  then have "mergeOverlappingSpans [sp] = [sp]" by (intro mergeOverlappingSpans_id) simp
  then show ?thesis
    using assms
    by (simp add: block_eq deny_out_def allow_out_def emit_with_def carve_set_def subtractSpans_def)
qed

lemma unset_tcp_out: "fst (NormalizeAndDedup [unset_tcp, set_tcp]) = [unset_tcp, set_tcp]"
proof -
  have d: "\<not> isDenyAction ''allow''" by (simp add: isDenyAction_def allow_lower)
  have g: "\<not> grouped unset_tcp" "grouped set_tcp"
    by (simp_all add: grouped_def unset_tcp_span) (simp add: set_tcp_def isOpaqueProto_def tcp_lower)
  have "block [set_tcp] = [set_tcp]"
    using unset_tcp_span by (intro block_single) (simp_all add: set_tcp_def tcp_rule_def d)
  then have "fst (resolveOpaquePortConflicts [unset_tcp, set_tcp]) = [unset_tcp, set_tcp]"
    using g by (simp add: resolve_rules slot_rules_def)
  moreover have "distinct (map action_key [unset_tcp, set_tcp])"
    by (simp add: action_key_def RuleKey_def unset_tcp_def set_tcp_def)
      (simp add: tcp_rule_def formatSpan_not_Nil [symmetric])
  ultimately show ?thesis using NormalizeAndDedup_fixpoint [OF unset_tcp_canonical] by simp
qed

text \<open>
  Theorem: an opaque rule without a port is not coalesced with an explicit rule for the default
  port. A tcp rule with an unset port and a tcp rule for port 443 on the same host pass
  canonicalisation and both conflict checks, and still get two dedicated listeners for one
  destination and port.
\<close>

theorem unset_port_not_coalesced:
  "checkProtoCollisions (fst (NormalizeAndDedup [unset_tcp, set_tcp])) = None \<and>
   checkOpaquePortActionConflicts (fst (NormalizeAndDedup [unset_tcp, set_tcp])) = None \<and>
   map (\<lambda>m. (MDst m, DstPort m)) (TCPMappings (fst (NormalizeAndDedup [unset_tcp, set_tcp])) ports) =
     [(''db.local'', 443), (''db.local'', 443)]"
proof (intro conjI)
  have "\<not> isDenyAction ''allow''" by (simp add: isDenyAction_def allow_lower)
  then show "checkOpaquePortActionConflicts (fst (NormalizeAndDedup [unset_tcp, set_tcp])) = None"
    unfolding unset_tcp_out by (intro action_check_deny_only) (simp add: unset_tcp_def set_tcp_def)
  show "checkProtoCollisions (fst (NormalizeAndDedup [unset_tcp, set_tcp])) = None"
    unfolding unset_tcp_out checkProtoCollisions_iff_free
    by (simp add: collision_free_def unset_tcp_def set_tcp_def)
  have "ToLower ''ssh'' = ''ssh''" by code_simp
  then have "tcpDefaultPort unset_tcp = 443"
    by (simp add: tcpDefaultPort_def SinglePort_def unset_tcp_span EqualFold_def defaultDestPort_def)
      (simp add: unset_tcp_def tcp_lower)
  then show "map (\<lambda>m. (MDst m, DstPort m)) (TCPMappings (fst (NormalizeAndDedup [unset_tcp, set_tcp])) ports) =
     [(''db.local'', 443), (''db.local'', 443)]"
    unfolding unset_tcp_out TCPMappings_def dedicatedMappings_def mappings_from_keys
    by (simp add: dedicatedPorts_def unset_tcp_span)
      (simp add: unset_tcp_def set_tcp_def sample_dst tcp_lower)
qed

end
