(* ===== verification/Routes.thy ===== *)
theory Routes
  imports Envoy_Layout "HOL-Library.Word"
begin

unbundle bit_operations_syntax

text \<open>
  The projection of the rule set into the kernel route table:
  \<open>RoutesFromRules\<close> and \<open>SeedDomainsFromRules\<close> of \<open>controlplane/firewall/rules_store.go\<close>, with
  the hash and the address packing of \<open>controlplane/firewall/ebpf/types.go\<close>. Hashes, packed
  addresses and ports are machine words of their Go widths.

  \<open>binary.NativeEndian\<close> is little-endian, as on the two architectures the program is built for
  (amd64 and arm64). Each route is computed together with the destination name and port it
  stands for; the Go function returns the routes only, and the hash it puts in their place is
  not injective.
\<close>

section \<open>Hashing and packing\<close>

fun fnv1a :: "32 word \<Rightarrow> string \<Rightarrow> 32 word" where
  "fnv1a h [] = h"
| "fnv1a h (c # cs) = fnv1a ((h XOR word_of_nat (byte_of c)) * 16777619) cs"

definition DomainHash :: "string \<Rightarrow> 32 word" where
  "DomainHash domain = fnv1a 2166136261 (ToLower domain)"

definition le_Uint32 :: "nat list \<Rightarrow> 32 word" where
  "le_Uint32 b =
     word_of_nat (b ! 0 + 256 * (b ! 1) + 65536 * (b ! 2) + 16777216 * (b ! 3))"

definition IPToUint32 :: "nat list option \<Rightarrow> 32 word" where
  "IPToUint32 ip = (case To4 ip of None \<Rightarrow> 0 | Some b \<Rightarrow> le_Uint32 b)"

definition Uint32ToIP :: "32 word \<Rightarrow> nat list" where
  "Uint32ToIP n =
     (let v = unat n
      in [v mod 256, v div 256 mod 256, v div 65536 mod 256, v div 16777216 mod 256])"

definition IPToBytes16 :: "nat list option \<Rightarrow> nat list" where
  "IPToBytes16 ip =
     (case ip of
        None \<Rightarrow> replicate 16 0
      | Some b \<Rightarrow>
          (case To4 ip of
             Some v4 \<Rightarrow> v4 @ replicate 12 0
           | None \<Rightarrow> if length b = 16 then b else replicate 16 0))"

text \<open>
  \<open>CIDRToAddrMask\<close> converts address and mask with \<open>To4\<close> and reads four bytes of the result;
  for an IPv6 network both are nil and the read panics.
\<close>

datatype cidr_result = CIDRError | CIDRPanic | CIDROk "32 word" "32 word"

definition mask_bytes :: "nat \<Rightarrow> nat list" where
  "mask_bytes n = map (\<lambda>i. 256 - 2 ^ (8 - min 8 (n - 8 * i))) [0..<4]"

definition and_bytes :: "nat list \<Rightarrow> nat list \<Rightarrow> nat list" where
  "and_bytes xs ys = map2 (AND) xs ys"

definition CIDRToAddrMask :: "string \<Rightarrow> cidr_result" where
  "CIDRToAddrMask cidr =
     (case ParseCIDR cidr of
        None \<Rightarrow> CIDRError
      | Some (V4 b, n) \<Rightarrow> CIDROk (le_Uint32 (and_bytes b (mask_bytes n))) (le_Uint32 (mask_bytes n))
      | Some (V6 b, n) \<Rightarrow> CIDRPanic)"

section \<open>Routes\<close>

record Route =
  RHash :: "32 word"
  RDstPort :: "16 word"
  REnvoyPort :: "16 word"
  RL4Proto :: "8 word"
  SeedIP :: "32 word"

definition L4ProtoTCP :: "8 word" where "L4ProtoTCP = 1"
definition L4ProtoUDP :: "8 word" where "L4ProtoUDP = 2"

type_synonym route_target = "string \<times> int \<times> 8 word"

definition mappingRoute :: "TCPMapping \<Rightarrow> 8 word \<Rightarrow> Route" where
  "mappingRoute m proto =
     \<lparr>RHash = DomainHash (MDst m), RDstPort = word_of_int (DstPort m),
      REnvoyPort = word_of_int (EnvoyPort m), RL4Proto = proto,
      SeedIP = (case To4 (ParseIP (MDst m)) of None \<Rightarrow> 0 | Some v4 \<Rightarrow> IPToUint32 (Some v4))\<rparr>"

definition egress_route :: "EnvoyPorts \<Rightarrow> string \<Rightarrow> int \<Rightarrow> 8 word \<Rightarrow> Route" where
  "egress_route ports dst port proto =
     \<lparr>RHash = DomainHash dst, RDstPort = word_of_int port,
      REnvoyPort = word_of_int (EgressPort ports), RL4Proto = proto, SeedIP = 0\<rparr>"

definition mapping_pass :: "TCPMapping list \<Rightarrow> 8 word \<Rightarrow> (route_target \<times> Route) list" where
  "mapping_pass ms proto =
     map (\<lambda>m. ((MDst m, DstPort m, proto), mappingRoute m proto)) (filter (\<lambda>m. MDst m \<noteq> []) ms)"

definition dest_key :: "string \<Rightarrow> int \<Rightarrow> string" where
  "dest_key dst port = dst @ '':'' @ Itoa port"

text \<open>What the third pass takes from a rule: its domain and port, if it is an allow rule for a
  domain, not opaque, with a single port.\<close>

definition tls_target :: "EgressRule \<Rightarrow> (string \<times> int) option" where
  "tls_target r =
     (let action = ToLower (Action r); proto = ToLower (Proto r); dst = normalizeDomain (Dst r) in
      if action \<noteq> ''allow'' \<and> action \<noteq> [] then None
      else if proto = ''ssh'' \<or> proto = ''tcp'' then None
      else if proto = ''udp'' then None
      else if isIPOrCIDR (Dst r) then None
      else if dst = [] then None
      else (case SinglePort r of None \<Rightarrow> None | Some port \<Rightarrow> Some (dst, port)))"

fun tls_pass ::
  "EnvoyPorts \<Rightarrow> string list \<Rightarrow> string list \<Rightarrow> EgressRule list \<Rightarrow> (route_target \<times> Route) list" where
  "tls_pass ports seen udpSeen [] = []"
| "tls_pass ports seen udpSeen (r # rs) =
     (case tls_target r of
        None \<Rightarrow> tls_pass ports seen udpSeen rs
      | Some (dst, port) \<Rightarrow>
          (let key = dest_key dst port; proto = ToLower (Proto r) in
           if key \<in> set seen then tls_pass ports seen udpSeen rs
           else
             ((dst, port, L4ProtoTCP), egress_route ports dst port L4ProtoTCP) #
             (if (proto = ''https'' \<or> proto = ''wss'') \<and> key \<notin> set udpSeen then
                ((dst, port, L4ProtoUDP), egress_route ports dst port L4ProtoUDP) #
                tls_pass ports (key # seen) (key # udpSeen) rs
              else tls_pass ports (key # seen) udpSeen rs)))"

definition keyed_routes :: "EgressRule list \<Rightarrow> EnvoyPorts \<Rightarrow> (route_target \<times> Route) list" where
  "keyed_routes rules ports =
     (let tcp = mapping_pass (TCPMappings rules ports) L4ProtoTCP;
          udp = mapping_pass (UDPMappings rules ports) L4ProtoUDP;
          udpSeen = map (\<lambda>m. dest_key (MDst m) (DstPort m))
            (filter (\<lambda>m. MDst m \<noteq> []) (UDPMappings rules ports))
      in tcp @ udp @ tls_pass ports [] udpSeen rules)"

definition RoutesFromRules :: "EgressRule list \<Rightarrow> EnvoyPorts \<Rightarrow> Route list" where
  "RoutesFromRules rules ports = map snd (keyed_routes rules ports)"

definition SeedDomainsFromRules :: "EgressRule list \<Rightarrow> EnvoyPorts \<Rightarrow> string list" where
  "SeedDomainsFromRules rules ports =
     dedup_by id [] (filter (\<lambda>d. To4 (ParseIP d) \<noteq> None)
       (map MDst (TCPMappings rules ports) @ map MDst (UDPMappings rules ports)))"

section \<open>Packing lemmas\<close>

definition ipv4_bytes :: "nat list \<Rightarrow> bool" where
  "ipv4_bytes b \<longleftrightarrow> length b = 4 \<and> (\<forall>x \<in> set b. x < 256)"

lemma ipv4_bytes_cases:
  assumes "ipv4_bytes b"
  obtains w x y z where "b = [w, x, y, z]" "w < 256" "x < 256" "y < 256" "z < 256"
proof -
  from assms obtain w x y z where "b = [w, x, y, z]"
    by (auto simp: ipv4_bytes_def length_Suc_conv numeral_eq_Suc)
  with assms that show ?thesis by (auto simp: ipv4_bytes_def)
qed

lemma Uint32ToIP_IPToUint32:
  assumes "ipv4_bytes b"
  shows "Uint32ToIP (IPToUint32 (Some b)) = b"
proof -
  obtain w x y z where b: "b = [w, x, y, z]" "w < 256" "x < 256" "y < 256" "z < 256"
    using ipv4_bytes_cases [OF assms] .
  obtain v where v: "v = w + 256 * x + 65536 * y + 16777216 * z" by blast
  have "v < 2 ^ 32" using b v by simp
  then have "unat (word_of_nat v :: 32 word) = v"
    by (simp add: unat_of_nat take_bit_nat_eq_self)
  moreover have "v mod 256 = w" "v div 256 mod 256 = x" "v div 65536 mod 256 = y"
    "v div 16777216 mod 256 = z"
  proof -
    have n: "v = w + 256 * (x + 256 * (y + 256 * z))" using v by simp
    have d: "v div 65536 = v div 256 div 256" "v div 16777216 = v div 256 div 256 div 256"
      by (simp_all add: div_mult2_eq [symmetric])
    have q: "(a + 256 * m) mod 256 = a" "(a + 256 * m) div 256 = m" if "a < 256" for a m :: nat
      using that by simp_all
    have v1: "v div 256 = x + 256 * (y + 256 * z)" "v mod 256 = w"
      unfolding n by (rule q [OF b(2)])+
    have v2: "v div 256 div 256 = y + 256 * z" "v div 256 mod 256 = x"
      unfolding v1 by (rule q [OF b(3)])+
    have v3: "v div 256 div 256 div 256 = z" "v div 256 div 256 mod 256 = y"
      unfolding v2 by (rule q [OF b(4)])+
    show "v mod 256 = w" "v div 256 mod 256 = x" "v div 65536 mod 256 = y"
      "v div 16777216 mod 256 = z"
      unfolding d v1(2) v2(2) v3 using b(5) by simp_all
  qed
  moreover have "IPToUint32 (Some b) = word_of_nat v"
    using b(1) v by (simp add: IPToUint32_def To4_def le_Uint32_def)
  ultimately show ?thesis using b(1) by (simp add: Uint32ToIP_def Let_def)
qed

interpretation ip_codec: codec "\<lambda>b. IPToUint32 (Some b)" "\<lambda>n. Some (Uint32ToIP n)" ipv4_bytes
  by unfold_locales (simp add: Uint32ToIP_IPToUint32)

lemma uint_port16: "0 \<le> p \<Longrightarrow> p \<le> 65535 \<Longrightarrow> uint (word_of_int p :: 16 word) = p"
  by (simp add: uint_word_of_int_eq take_bit_int_eq_self)

lemma L4_distinct [simp]: "L4ProtoTCP \<noteq> L4ProtoUDP" "L4ProtoUDP \<noteq> L4ProtoTCP"
  by (simp_all add: L4ProtoTCP_def L4ProtoUDP_def)

section \<open>The mapping passes\<close>

lemma mapping_rule:
  assumes "m \<in> set (dedicatedMappings rs base pm pf sk)"
  shows "\<exists>r \<in> set rs. pm (ToLower (Proto r)) \<and> \<not> sk (Dst r) \<and> MDst m = normalizeDomain (Dst r) \<and>
    DstPort m \<in> set (dedicatedPorts r pf)"
proof -
  have "(MDst m, DstPort m) \<in> set (map (\<lambda>m. (MDst m, DstPort m)) (dedicatedMappings rs base pm pf sk))"
    using assms by auto
  then show ?thesis unfolding dedicatedMappings_def mappings_from_keys by auto
qed

lemma default_ports_valid:
  "1 \<le> tcpDefaultPort r \<and> tcpDefaultPort r \<le> 65535" "1 \<le> udpDefaultPort r \<and> udpDefaultPort r \<le> 65535"
  by (auto simp: tcpDefaultPort_def udpDefaultPort_def SinglePort_iff sshDefaultPort_def
      defaultDestPort_def split: option.splits dest: PortSpan_range)

lemma dedicatedPorts_valid:
  assumes "p \<in> set (dedicatedPorts r pf)" "1 \<le> pf r \<and> pf r \<le> 65535"
  shows "1 \<le> p \<and> p \<le> 65535"
  using assms by (auto simp: dedicatedPorts_def split: option.splits dest: PortSpan_range)

lemma DstPort_valid:
  "m \<in> set (TCPMappings rs ports) \<Longrightarrow> 1 \<le> DstPort m \<and> DstPort m \<le> 65535"
  "m \<in> set (UDPMappings rs ports) \<Longrightarrow> 1 \<le> DstPort m \<and> DstPort m \<le> 65535"
proof -
  assume "m \<in> set (TCPMappings rs ports)"
  then obtain r where "DstPort m \<in> set (dedicatedPorts r tcpDefaultPort)"
    unfolding TCPMappings_def using mapping_rule by blast
  then show "1 \<le> DstPort m \<and> DstPort m \<le> 65535"
    using dedicatedPorts_valid default_ports_valid(1) by blast
next
  assume "m \<in> set (UDPMappings rs ports)"
  then obtain r where "DstPort m \<in> set (dedicatedPorts r udpDefaultPort)"
    unfolding UDPMappings_def using mapping_rule by blast
  then show "1 \<le> DstPort m \<and> DstPort m \<le> 65535"
    using dedicatedPorts_valid default_ports_valid(2) by blast
qed

lemma mapping_pass_keys:
  "map fst (mapping_pass ms proto) =
     map (\<lambda>m. (MDst m, DstPort m, proto)) (filter (\<lambda>m. MDst m \<noteq> []) ms)"
  by (simp add: mapping_pass_def comp_def)

lemma mapping_pass_distinct:
  assumes "distinct (map (\<lambda>m. (MDst m, DstPort m)) ms)"
  shows "distinct (map fst (mapping_pass ms proto))"
proof -
  have "distinct (map (\<lambda>m. (MDst m, DstPort m)) (filter (\<lambda>m. MDst m \<noteq> []) ms))"
    using assms by (rule distinct_map_filter)
  then show ?thesis by (auto simp: mapping_pass_keys distinct_map inj_on_def)
qed

section \<open>The TLS pass\<close>

lemma tls_pass_keys:
  assumes "((d, p, l), rt) \<in> set (tls_pass ports seen udpSeen rs)"
  shows "(l = L4ProtoTCP \<and> dest_key d p \<notin> set seen \<or> l = L4ProtoUDP \<and> dest_key d p \<notin> set udpSeen) \<and>
    dest_key d p \<notin> set seen \<and> rt = egress_route ports d p l \<and> (\<exists>r \<in> set rs. tls_target r = Some (d, p))"
  using assms
proof (induction rs arbitrary: seen udpSeen)
  case (Cons r rs)
  show ?case
  proof (cases "tls_target r")
    case None
    then show ?thesis using Cons by auto
  next
    case (Some dp)
    obtain e q where dp: "dp = (e, q)" by (cases dp)
    let ?k = "dest_key e q"
    show ?thesis
    proof (cases "?k \<in> set seen")
      case True
      then have "((d, p, l), rt) \<in> set (tls_pass ports seen udpSeen rs)"
        using Cons.prems Some dp by simp
      from Cons.IH [OF this] show ?thesis by auto
    next
      case False
      then consider
          "d = e" "p = q" "l = L4ProtoTCP" "rt = egress_route ports d p l"
        | "d = e" "p = q" "l = L4ProtoUDP" "?k \<notin> set udpSeen" "rt = egress_route ports d p l"
        | "((d, p, l), rt) \<in> set (tls_pass ports (?k # seen) (?k # udpSeen) rs)"
        | "((d, p, l), rt) \<in> set (tls_pass ports (?k # seen) udpSeen rs)"
        using Cons.prems Some dp by (auto simp: Let_def split: if_splits)
      then show ?thesis
      proof cases
        case 3
        from Cons.IH [OF this] show ?thesis by auto
      next
        case 4
        from Cons.IH [OF this] show ?thesis by auto
      qed (use False Some dp in auto)
    qed
  qed
qed simp

lemma tls_pass_distinct: "distinct (map fst (tls_pass ports seen udpSeen rs))"
proof (induction ports seen udpSeen rs rule: tls_pass.induct)
  case (2 ports seen udpSeen r rs)
  show ?case
  proof (cases "tls_target r")
    case (Some dp)
    obtain d p where dp: "dp = (d, p)" by (cases dp)
    let ?k = "dest_key d p"
    have new: "(d, p, l) \<notin> fst ` set (tls_pass ports (?k # seen) us rs)" for l us
      using tls_pass_keys [of d p l _ ports "?k # seen" us rs] by force
    show ?thesis
      using 2 Some dp new [of L4ProtoTCP] new [of L4ProtoUDP] by (auto simp: Let_def)
  qed (use 2 in auto)
qed simp

lemma tls_target_props:
  assumes "tls_target r = Some (d, p)"
  shows "d = normalizeDomain (Dst r)" "d \<noteq> []" "SinglePort r = Some p" "builds_stack r"
    "stack_span r = (p, p)" "\<not> isOpaqueProto (Proto r)" "1 \<le> p \<and> p \<le> 65535"
proof -
  have t: "d = normalizeDomain (Dst r)" "d \<noteq> []" "SinglePort r = Some p"
    "\<not> isOpaqueProto (Proto r)" "ToLower (Action r) = ''allow'' \<or> ToLower (Action r) = []"
    using assms by (auto simp: tls_target_def Let_def isOpaqueProto_def split: if_splits option.splits)
  then have "\<not> isDenyAction (Action r)" by (auto simp: isDenyAction_def)
  moreover have "PortSpan r = Some (p, p)" using t(3) by (simp add: SinglePort_iff)
  ultimately show "d = normalizeDomain (Dst r)" "d \<noteq> []" "SinglePort r = Some p" "builds_stack r"
    "stack_span r = (p, p)" "\<not> isOpaqueProto (Proto r)" "1 \<le> p \<and> p \<le> 65535"
    using t PortSpan_range [of r p p] by (auto simp: builds_stack_def stack_span_def)
qed

lemma canonicalProto_opaque_iff:
  "isOpaqueProto p \<Longrightarrow> canonicalProto p = canonicalProto q \<Longrightarrow> isOpaqueProto q"
  by (auto simp: isOpaqueProto_def canonicalProto_def Let_def split: if_splits)

lemma tcp_tls_apart:
  assumes "collision_free rs" "ports_set rs" "m \<in> set (TCPMappings rs ports)"
    "s \<in> set rs" "tls_target s = Some (MDst m, DstPort m)"
  shows False
proof -
  obtain r where r: "r \<in> set rs" "ToLower (Proto r) = ''ssh'' \<or> ToLower (Proto r) = ''tcp''"
    "MDst m = normalizeDomain (Dst r)" "DstPort m \<in> set (dedicatedPorts r tcpDefaultPort)"
    using mapping_rule assms(3) unfolding TCPMappings_def by blast
  have o: "isOpaqueProto (Proto r)" using r(2) by (auto simp: isOpaqueProto_def)
  then have g: "grouped r" using assms(2) r(1) by (simp add: ports_set_def grouped_def)
  then have "DstPort m \<in> ports_of (stack_span r)"
    using r(4) grouped_stack [OF g]
    by (auto simp: dedicatedPorts_def ports_of_def grouped_def)
  moreover note t = tls_target_props [OF assms(5)]
  moreover have "DstPort m \<in> ports_of (stack_span s)" using t(5) by (simp add: ports_of_def)
  moreover have "canonicalProto (Proto r) \<noteq> canonicalProto (Proto s)"
    using canonicalProto_opaque_iff [OF o] t(6) by blast
  moreover have "builds_stack r" "normalizeDomain (Dst r) = normalizeDomain (Dst s)"
    using grouped_stack [OF g] r(3) t(1) by simp_all
  ultimately show False
    using assms(1) [unfolded collision_free_def, rule_format, OF r(1) assms(4)] by auto
qed

lemma keyed_routes_distinct:
  assumes "collision_free rs" "ports_set rs"
    "distinct (map (\<lambda>m. (MDst m, DstPort m)) (TCPMappings rs ports))"
    "distinct (map (\<lambda>m. (MDst m, DstPort m)) (UDPMappings rs ports))"
  shows "distinct (map fst (keyed_routes rs ports))"
proof -
  let ?us = "map (\<lambda>m. dest_key (MDst m) (DstPort m)) (filter (\<lambda>m. MDst m \<noteq> []) (UDPMappings rs ports))"
  let ?tls = "tls_pass ports [] ?us rs"
  have tcp: "fst ` set (mapping_pass (TCPMappings rs ports) L4ProtoTCP) \<inter> fst ` set ?tls = {}"
  proof (intro equals0I)
    fix t
    assume "t \<in> fst ` set (mapping_pass (TCPMappings rs ports) L4ProtoTCP) \<inter> fst ` set ?tls"
    then obtain m rt where m: "m \<in> set (TCPMappings rs ports)"
        "((MDst m, DstPort m, L4ProtoTCP), rt) \<in> set ?tls"
      by (force simp: mapping_pass_def)
    from tls_pass_keys [OF m(2)] obtain s where "s \<in> set rs" "tls_target s = Some (MDst m, DstPort m)"
      by blast
    then show False using tcp_tls_apart [OF assms(1,2) m(1)] by blast
  qed
  have udp: "fst ` set (mapping_pass (UDPMappings rs ports) L4ProtoUDP) \<inter> fst ` set ?tls = {}"
  proof (intro equals0I)
    fix t
    assume "t \<in> fst ` set (mapping_pass (UDPMappings rs ports) L4ProtoUDP) \<inter> fst ` set ?tls"
    then obtain m rt where m: "m \<in> set (UDPMappings rs ports)" "MDst m \<noteq> []"
        "((MDst m, DstPort m, L4ProtoUDP), rt) \<in> set ?tls"
      by (force simp: mapping_pass_def)
    from tls_pass_keys [OF m(3)] m(1,2) show False by auto
  qed
  have "fst ` set (mapping_pass (TCPMappings rs ports) L4ProtoTCP) \<inter>
      fst ` set (mapping_pass (UDPMappings rs ports) L4ProtoUDP) = {}"
    by (auto simp: mapping_pass_def)
  then show ?thesis
    using mapping_pass_distinct [OF assms(3)] mapping_pass_distinct [OF assms(4)] tls_pass_distinct tcp udp
    unfolding keyed_routes_def Let_def map_append distinct_append set_map by auto
qed

section \<open>Seeds\<close>

lemma set_dedup_id: "set (dedup_by id [] xs) = set xs"
  using dedup_by_keys [of id "[]" xs] by simp

lemma SeedDomains_set:
  "set (SeedDomainsFromRules rs ports) =
     {d \<in> MDst ` set (dedicated_listeners rs ports). To4 (ParseIP d) \<noteq> None}"
  unfolding SeedDomainsFromRules_def set_dedup_id by (auto simp: dedicated_listeners_def)

lemma ParseIP_Nil [simp]: "ParseIP [] = None"
  by (simp add: ParseIP_def ParseAddr_def)

lemma IPToUint32_seed: "IPToUint32 ip \<noteq> 0 \<Longrightarrow> ip \<noteq> None"
  by (cases ip) (auto simp: IPToUint32_def To4_def)

lemma tls_pass_unseeded: "t \<in> set (tls_pass ports seen us rs) \<Longrightarrow> SeedIP (snd t) = 0"
proof -
  assume "t \<in> set (tls_pass ports seen us rs)"
  moreover obtain d p l rt where "t = ((d, p, l), rt)" by (cases t) auto
  ultimately show ?thesis using tls_pass_keys [of d p l rt ports seen us rs] by (simp add: egress_route_def)
qed

lemma mapping_pass_seeded:
  "{rt \<in> snd ` set (mapping_pass ms proto). SeedIP rt \<noteq> 0} =
     (\<lambda>m. mappingRoute m proto) ` {m \<in> set ms. IPToUint32 (To4 (ParseIP (MDst m))) \<noteq> 0}"
proof -
  have e: "SeedIP (mappingRoute m proto) = IPToUint32 (To4 (ParseIP (MDst m)))" for m
    by (auto simp: mappingRoute_def IPToUint32_def To4_def split: option.splits)
  have "MDst m \<noteq> []" if "IPToUint32 (To4 (ParseIP (MDst m))) \<noteq> 0" for m
    using that by (auto simp: IPToUint32_def To4_def)
  then show ?thesis using e by (force simp: mapping_pass_def)
qed

lemma seeded_hashes:
  "RHash ` {rt \<in> snd ` set (mapping_pass ms proto). SeedIP rt \<noteq> 0} =
     DomainHash ` {d \<in> MDst ` set ms. IPToUint32 (To4 (ParseIP d)) \<noteq> 0}"
  unfolding mapping_pass_seeded by (auto simp: mappingRoute_def image_iff)

section \<open>Properties\<close>

text \<open>
  Theorem: the route table has one entry per destination, port and transport. On canonical rules
  that pass the generator's collision and action checks and name a port on every opaque rule,
  no two routes are written for the same domain, port and transport, so no route silently
  replaces another.
\<close>

theorem one_route_per_destination:
  assumes "checkProtoCollisions (fst (NormalizeAndDedup rs)) = None"
    "checkOpaquePortActionConflicts (fst (NormalizeAndDedup rs)) = None"
    "ports_set (fst (NormalizeAndDedup rs))"
  shows "distinct (map fst (keyed_routes (fst (NormalizeAndDedup rs)) ports))"
proof -
  let ?out = "fst (NormalizeAndDedup rs)"
  have d: "\<forall>d k. disjoint_spans (spans d (members k ?out))"
    unfolding NormalizeAndDedup_rules using resolve_ports(5) by blast
  note c = assms(1) [unfolded checkProtoCollisions_iff_free]
    assms(2) [unfolded checkOpaquePortActionConflicts_iff_disjoint] assms(3)
  show ?thesis
    by (intro keyed_routes_distinct c(1,3); unfold TCPMappings_def UDPMappings_def;
        rule mappings_keys_distinct [OF c d]) (auto simp: isOpaqueProto_def)
qed

theorem one_route_per_destination_witness:
  "distinct (map fst (keyed_routes (fst (NormalizeAndDedup sample_one)) sample_ports))"
  by (rule one_route_per_destination [OF sample_checks])

text \<open>
  C23: routes and listeners stay in lockstep and nothing wraps. When the layout checks pass,
  every route carries its destination port, hash and transport unchanged through the 16-bit
  conversions and points either at the egress listener or at the dedicated listener assigned to
  exactly that destination and port.
\<close>

theorem routes_point_to_listeners:
  assumes "EnvoyPorts_Validate ports = None" "validateDedicatedLayout rules ports = None"
    "((d, p, l), rt) \<in> set (keyed_routes rules ports)"
  shows "RHash rt = DomainHash d \<and> uint (RDstPort rt) = p \<and> RL4Proto rt = l \<and>
    (uint (REnvoyPort rt) = EgressPort ports \<or>
     (\<exists>m \<in> set (if l = L4ProtoTCP then TCPMappings rules ports else UDPMappings rules ports).
        MDst m = d \<and> DstPort m = p \<and> uint (REnvoyPort rt) = EnvoyPort m))"
proof -
  have eg: "0 \<le> EgressPort ports \<and> EgressPort ports \<le> 65535"
    using assms(1)
    by (auto simp: EnvoyPorts_Validate_def named_ports_def split: option.splits if_splits)
  have b: "uint (word_of_int (EnvoyPort m) :: 16 word) = EnvoyPort m"
    if "m \<in> set (dedicated_listeners rules ports)" for m
    using layout_bounds [OF assms(1,2) that] by (intro uint_port16) auto
  from assms(3) consider
      (tcp) m where "m \<in> set (TCPMappings rules ports)" "d = MDst m" "p = DstPort m" "l = L4ProtoTCP"
        "rt = mappingRoute m l"
    | (udp) m where "m \<in> set (UDPMappings rules ports)" "d = MDst m" "p = DstPort m" "l = L4ProtoUDP"
        "rt = mappingRoute m l"
    | (tls) us where "((d, p, l), rt) \<in> set (tls_pass ports [] us rules)"
    by (auto simp: keyed_routes_def Let_def mapping_pass_def)
  then show ?thesis
  proof cases
    case tcp
    then show ?thesis
      using b [of m] DstPort_valid(1) [OF tcp(1)] uint_port16 [of p]
      by (auto simp: mappingRoute_def dedicated_listeners_def)
  next
    case udp
    then show ?thesis
      using b [of m] DstPort_valid(2) [OF udp(1)] uint_port16 [of p]
      by (auto simp: mappingRoute_def dedicated_listeners_def)
  next
    case tls
    from tls_pass_keys [OF this] obtain r where "rt = egress_route ports d p l" "tls_target r = Some (d, p)"
      by blast
    then show ?thesis
      using tls_target_props(7) [of r d p] eg uint_port16 [of p] uint_port16 [of "EgressPort ports"]
      by (simp add: egress_route_def)
  qed
qed

lemma sample_route:
  "((''db.local'', 45, L4ProtoTCP),
    mappingRoute \<lparr>MDst = ''db.local'', DstPort = 45, EnvoyPort = 10001\<rparr> L4ProtoTCP)
   \<in> set (keyed_routes sample_one sample_ports)"
  by (simp add: keyed_routes_def Let_def mapping_pass_def sample_mappings)

theorem routes_point_to_listeners_witness:
  "uint (RDstPort (mappingRoute \<lparr>MDst = ''db.local'', DstPort = 45, EnvoyPort = 10001\<rparr> L4ProtoTCP)) = 45"
  using routes_point_to_listeners [OF sample_layout sample_route] by blast

text \<open>
  Theorem: the reverse-DNS seed list names exactly the IP destinations the route table seeds:
  the hashes of the seeded routes are the hashes of the listed addresses, leaving out only the
  all-zero address, whose packed form is the no-seed mark. The list has no duplicates.
\<close>

theorem seed_domains_exact:
  "distinct (SeedDomainsFromRules rules ports) \<and>
   RHash ` {rt \<in> set (RoutesFromRules rules ports). SeedIP rt \<noteq> 0} =
   DomainHash ` {d \<in> set (SeedDomainsFromRules rules ports). IPToUint32 (To4 (ParseIP d)) \<noteq> 0}"
proof -
  have "distinct (SeedDomainsFromRules rules ports)"
    unfolding SeedDomainsFromRules_def using dedup_by_distinct [of id "[]"] by simp
  moreover have "{rt \<in> set (RoutesFromRules rules ports). SeedIP rt \<noteq> 0} =
      {rt \<in> snd ` set (mapping_pass (TCPMappings rules ports) L4ProtoTCP). SeedIP rt \<noteq> 0} \<union>
      {rt \<in> snd ` set (mapping_pass (UDPMappings rules ports) L4ProtoUDP). SeedIP rt \<noteq> 0}"
    using tls_pass_unseeded by (auto simp: RoutesFromRules_def keyed_routes_def Let_def)
  moreover have "{d \<in> set (SeedDomainsFromRules rules ports). IPToUint32 (To4 (ParseIP d)) \<noteq> 0} =
      {d \<in> MDst ` set (TCPMappings rules ports). IPToUint32 (To4 (ParseIP d)) \<noteq> 0} \<union>
      {d \<in> MDst ` set (UDPMappings rules ports). IPToUint32 (To4 (ParseIP d)) \<noteq> 0}"
    unfolding SeedDomains_set using IPToUint32_seed by (auto simp: dedicated_listeners_def)
  ultimately show ?thesis by (simp add: image_Un seeded_hashes)
qed

text \<open>
  Theorem: packing an IPv4 address into the 32-bit word the kernel maps use loses nothing, and
  unpacking gives the address back.
\<close>

theorem ipv4_pack_roundtrip:
  assumes "ipv4_bytes b"
  shows "Uint32ToIP (IPToUint32 (Some b)) = b"
  using ip_codec.dec_enc [OF assms] by simp

theorem ipv4_pack_roundtrip_witness:
  "ipv4_bytes [10, 0, 0, 7] \<and> Uint32ToIP (IPToUint32 (Some [10, 0, 0, 7])) = [10, 0, 0, 7]"
proof -
  have b: "ipv4_bytes [10, 0, 0, 7]" by (simp add: ipv4_bytes_def)
  from ipv4_pack_roundtrip [OF b] b show ?thesis by blast
qed

end
