(* ===== verification/Action_Queue.thy ===== *)
theory Action_Queue
  imports Go_Prelude
begin

text \<open>
  The serialising action queue of \<open>controlplane/firewall/queue.go\<close>: one worker goroutine runs
  the submitted closures in order, collapses consecutive reconcile requests into one execution,
  and answers every submitter once.

  The state is the queue's fields together with what the goroutines share. A reply channel is
  a number; \<open>sent\<close> holds the results written to each channel, and \<open>fresh\<close> is the next channel
  number. \<open>inflight\<close> is the item the worker has popped and is executing, with the channels it
  will answer; \<open>exited\<close> is the closed \<open>done\<close> channel. \<open>accepted\<close> and \<open>served\<close> record the channels
  in the order of acceptance and of reply, and do not influence the behaviour. A closure is a
  function of the cancellation flag and of the state of the world it acts on.

  Every critical section of the source is one step: \<open>Submit\<close>, \<open>Close\<close> up to the wait on \<open>done\<close>,
  the worker's pop under the lock, and the execution with its replies, so that submissions and a
  close can fall between the pop and the replies. The worker's exit is a step of its own.
\<close>

section \<open>Kinds and results\<close>

datatype ActionKind =
    ActionUnknown | ActionBringup | ActionTeardown | ActionReconcile | ActionRead
  | ActionEnable | ActionDisable | ActionBypass

definition Coalesces :: "ActionKind \<Rightarrow> bool" where
  "Coalesces k \<longleftrightarrow> k = ActionReconcile"

fun ActionKind_String :: "ActionKind \<Rightarrow> string" where
  "ActionKind_String ActionBringup = ''bringup''"
| "ActionKind_String ActionTeardown = ''teardown''"
| "ActionKind_String ActionReconcile = ''reconcile''"
| "ActionKind_String ActionRead = ''read''"
| "ActionKind_String ActionEnable = ''enable''"
| "ActionKind_String ActionDisable = ''disable''"
| "ActionKind_String ActionBypass = ''bypass''"
| "ActionKind_String ActionUnknown = ''unknown''"

datatype queue_error = ErrClosed | ErrNilClosure | ErrClosurePanic string | ClosureErr string

record 'v ActionResult =
  Value :: "'v option"
  Err :: "queue_error option"

text \<open>What running a closure can do: return a value and possibly an error, or panic.\<close>

datatype 'v outcome = Returned "'v option" "string option" | Panicked string

type_synonym ('w, 'v) ActionFunc = "bool \<Rightarrow> 'w \<Rightarrow> 'w \<times> 'v outcome"

record ('w, 'v) actionItem =
  kind :: ActionKind
  fn :: "('w, 'v) ActionFunc"
  reply :: nat

record ('w, 'v) ActionQueue =
  buffer :: "('w, 'v) actionItem list"
  closed :: bool
  inflight :: "(('w, 'v) actionItem \<times> nat list) option"
  exited :: bool
  sent :: "nat \<Rightarrow> 'v ActionResult list"
  fresh :: nat
  world :: 'w
  accepted :: "nat list"
  served :: "nat list"

definition NewActionQueue :: "'w \<Rightarrow> ('w, 'v) ActionQueue" where
  "NewActionQueue w =
     \<lparr>buffer = [], closed = False, inflight = None, exited = False, sent = (\<lambda>_. []), fresh = 0,
      world = w, accepted = [], served = []\<rparr>"

section \<open>Operations\<close>

definition err_result :: "queue_error \<Rightarrow> 'v ActionResult" where
  "err_result e = \<lparr>Value = None, Err = Some e\<rparr>"

definition send :: "nat list \<Rightarrow> 'v ActionResult \<Rightarrow> ('w, 'v) ActionQueue \<Rightarrow> ('w, 'v) ActionQueue" where
  "send chans r q = q\<lparr>sent := (\<lambda>c. if c \<in> set chans then sent q c @ [r] else sent q c)\<rparr>"

definition Submit ::
  "('w, 'v) ActionQueue \<Rightarrow> ActionKind \<Rightarrow> ('w, 'v) ActionFunc option \<Rightarrow> ('w, 'v) ActionQueue \<times> nat" where
  "Submit q k f =
     (let c = fresh q; q' = q\<lparr>fresh := Suc c\<rparr> in
      (case f of
         None \<Rightarrow> (send [c] (err_result ErrNilClosure) q', c)
       | Some g \<Rightarrow>
           if closed q then (send [c] (err_result ErrClosed) q', c)
           else (q'\<lparr>buffer := buffer q @ [\<lparr>kind = k, fn = g, reply = c\<rparr>],
                    accepted := accepted q @ [c]\<rparr>, c)))"

definition Close :: "('w, 'v) ActionQueue \<Rightarrow> ('w, 'v) ActionQueue" where
  "Close q = (if closed q then q else q\<lparr>closed := True\<rparr>)"

definition popHead :: "('w, 'v) actionItem list \<Rightarrow> ('w, 'v) actionItem \<times> ('w, 'v) actionItem list" where
  "popHead b = (hd b, tl b)"

fun pop_peers ::
  "ActionKind \<Rightarrow> ('w, 'v) actionItem list \<Rightarrow> nat list \<times> ('w, 'v) actionItem list" where
  "pop_peers k [] = ([], [])"
| "pop_peers k (i # is) =
     (if kind i = k then (let (rs, rest) = pop_peers k is in (reply i # rs, rest)) else ([], i # is))"

text \<open>The body of \<open>next\<close> once the wait is over: nothing if the buffer is empty.\<close>

definition next_batch ::
  "('w, 'v) actionItem list \<Rightarrow> (('w, 'v) actionItem \<times> nat list \<times> ('w, 'v) actionItem list) option" where
  "next_batch b =
     (if b = [] then None
      else
        (let (head, rest) = popHead b in
         if Coalesces (kind head) then
           (let (rs, rest') = pop_peers (kind head) rest in Some (head, reply head # rs, rest'))
         else Some (head, [reply head], rest)))"

definition execute :: "('w, 'v) actionItem \<Rightarrow> bool \<Rightarrow> 'w \<Rightarrow> 'w \<times> 'v ActionResult" where
  "execute item cancelled w =
     (case fn item cancelled w of
        (w', Panicked p) \<Rightarrow> (w', err_result (ErrClosurePanic p))
      | (w', Returned v (Some e)) \<Rightarrow> (w', err_result (ClosureErr e))
      | (w', Returned v None) \<Rightarrow> (w', \<lparr>Value = v, Err = None\<rparr>))"

text \<open>The worker's two steps: pop under the lock, then execute and answer.\<close>

definition next_step :: "('w, 'v) ActionQueue \<Rightarrow> ('w, 'v) ActionQueue option" where
  "next_step q =
     (if exited q \<or> inflight q \<noteq> None then None
      else
        (case next_batch (buffer q) of
           Some (head, replies, rest) \<Rightarrow> Some (q\<lparr>buffer := rest, inflight := Some (head, replies)\<rparr>)
         | None \<Rightarrow> if closed q then Some (q\<lparr>exited := True\<rparr>) else None))"

definition finish_step :: "('w, 'v) ActionQueue \<Rightarrow> ('w, 'v) ActionQueue option" where
  "finish_step q =
     (case inflight q of
        None \<Rightarrow> None
      | Some (item, replies) \<Rightarrow>
          (let (w, r) = execute item (closed q) (world q)
           in Some (send replies r (q\<lparr>inflight := None, world := w, served := served q @ replies\<rparr>))))"

text \<open>The loop \<open>run\<close>, for at most the given number of worker steps; it stops early when the worker
  waits or has exited.\<close>

definition worker_step :: "('w, 'v) ActionQueue \<Rightarrow> ('w, 'v) ActionQueue option" where
  "worker_step q = (case finish_step q of Some q' \<Rightarrow> Some q' | None \<Rightarrow> next_step q)"

fun run :: "nat \<Rightarrow> ('w, 'v) ActionQueue \<Rightarrow> ('w, 'v) ActionQueue" where
  "run 0 q = q"
| "run (Suc n) q = (case worker_step q of None \<Rightarrow> q | Some q' \<Rightarrow> run n q')"

section \<open>The transition system\<close>

inductive qstep :: "('w, 'v) ActionQueue \<Rightarrow> ('w, 'v) ActionQueue \<Rightarrow> bool" where
  submit: "qstep q (fst (Submit q k f))"
| close: "qstep q (Close q)"
| pick: "next_step q = Some q' \<Longrightarrow> qstep q q'"
| finish: "finish_step q = Some q' \<Longrightarrow> qstep q q'"

inductive qreach :: "'w \<Rightarrow> ('w, 'v) ActionQueue \<Rightarrow> bool" for w where
  init: "qreach w (NewActionQueue w)"
| step: "qreach w q \<Longrightarrow> qstep q q' \<Longrightarrow> qreach w q'"

inductive_cases qstepE: "qstep q q'"

section \<open>Interface: a queue popped in batches\<close>

fun pop_all :: "('q \<Rightarrow> ('a list \<times> 'q) option) \<Rightarrow> nat \<Rightarrow> 'q \<Rightarrow> 'a list" where
  "pop_all pop 0 q = []"
| "pop_all pop (Suc n) q = (case pop q of None \<Rightarrow> [] | Some (b, q') \<Rightarrow> b @ pop_all pop n q')"

locale batch_queue =
  fixes items :: "'q \<Rightarrow> 'a list"
    and pop :: "'q \<Rightarrow> ('a list \<times> 'q) option"
  assumes pop_None: "pop q = None \<longleftrightarrow> items q = []"
    and pop_Some: "pop q = Some (b, q') \<Longrightarrow> b \<noteq> [] \<and> items q = b @ items q'"
begin

lemma pop_shrinks: "pop q = Some (b, q') \<Longrightarrow> length (items q') < length (items q)"
  using pop_Some by fastforce

lemma pop_all_fifo: "length (items q) \<le> n \<Longrightarrow> pop_all pop n q = items q"
proof (induction n arbitrary: q)
  case (Suc n)
  show ?case
  proof (cases "pop q")
    case None
    then have "items q = []" using pop_None by blast
    with None show ?thesis by simp
  next
    case (Some bq)
    obtain b q' where bq: "bq = (b, q')" by (cases bq)
    then have "length (items q') \<le> n" using pop_shrinks Some Suc.prems by fastforce
    then show ?thesis using Suc.IH Some bq pop_Some by auto
  qed
qed (use pop_None in auto)

end

lemma pop_peers_split:
  "pop_peers k is = (rs, rest) \<Longrightarrow> map reply is = rs @ map reply rest \<and>
     (\<exists>ps. is = ps @ rest \<and> map reply ps = rs \<and> (\<forall>p \<in> set ps. kind p = k))"
proof (induction "is" arbitrary: rs)
  case (Cons i "is")
  show ?case
  proof (cases "kind i = k")
    case True
    obtain rs' where p: "pop_peers k is = (rs', rest)" "rs = reply i # rs'"
      using Cons.prems True by (auto split: prod.splits)
    from Cons.IH [OF p(1)] obtain ps where
      "map reply is = rs' @ map reply rest" "is = ps @ rest" "map reply ps = rs'" "\<forall>p \<in> set ps. kind p = k"
      by blast
    then show ?thesis using p True by (intro conjI exI [of _ "i # ps"]) auto
  next
    case False
    then show ?thesis using Cons.prems by auto
  qed
qed simp

lemma next_batch_Some:
  assumes "next_batch b = Some (head, replies, rest)"
  shows "replies \<noteq> []" "map reply b = replies @ map reply rest" "head \<in> set b" "hd replies = reply head"
    "\<exists>ps. b = (head # ps) @ rest \<and> replies = map reply (head # ps) \<and>
      (ps \<noteq> [] \<longrightarrow> kind head = ActionReconcile) \<and> (\<forall>p \<in> set ps. kind p = kind head)"
proof -
  obtain h t where b: "b = h # t" using assms by (cases b) (auto simp: next_batch_def)
  show "replies \<noteq> []" "map reply b = replies @ map reply rest" "head \<in> set b" "hd replies = reply head"
    "\<exists>ps. b = (head # ps) @ rest \<and> replies = map reply (head # ps) \<and>
      (ps \<noteq> [] \<longrightarrow> kind head = ActionReconcile) \<and> (\<forall>p \<in> set ps. kind p = kind head)"
    using assms b pop_peers_split [of "kind h" t]
    by (fastforce simp: next_batch_def popHead_def Coalesces_def split: if_splits prod.splits)+
qed

lemma next_batch_None: "next_batch b = None \<longleftrightarrow> b = []"
  by (auto simp: next_batch_def Let_def split: prod.splits)

interpretation worker_queue: batch_queue "map reply"
  "\<lambda>b. case next_batch b of None \<Rightarrow> None | Some (head, replies, rest) \<Rightarrow> Some (replies, rest)"
proof (unfold_locales, goal_cases)
  case (1 q)
  show ?case using next_batch_None [of q] by (auto split: option.splits)
next
  case (2 q b q')
  then obtain head where "next_batch q = Some (head, b, q')" by (auto split: option.splits)
  then show ?case using next_batch_Some(1,2) [of q head b q'] by blast
qed

section \<open>Invariant\<close>

text \<open>The channels the queue still owes a reply: those of the running batch, then the buffer.\<close>

definition pending :: "('w, 'v) ActionQueue \<Rightarrow> nat list" where
  "pending q = (case inflight q of None \<Rightarrow> [] | Some (i, rs) \<Rightarrow> rs) @ map reply (buffer q)"

definition batch_ok :: "('w, 'v) actionItem \<times> nat list \<Rightarrow> bool" where
  "batch_ok b \<longleftrightarrow> snd b \<noteq> [] \<and> hd (snd b) = reply (fst b) \<and>
     (length (snd b) > 1 \<longrightarrow> kind (fst b) = ActionReconcile)"

definition queue_inv :: "('w, 'v) ActionQueue \<Rightarrow> bool" where
  "queue_inv q \<longleftrightarrow>
     accepted q = served q @ pending q \<and> distinct (served q @ pending q) \<and>
     set (served q @ pending q) \<subseteq> {..<fresh q} \<and>
     (\<forall>c. length (sent q c) = (if c < fresh q \<and> c \<notin> set (pending q) then 1 else 0)) \<and>
     (exited q \<longrightarrow> closed q \<and> pending q = [] \<and> inflight q = None) \<and>
     (\<forall>b. inflight q = Some b \<longrightarrow> batch_ok b)"

lemma queue_exactly:
  "queue_inv q \<Longrightarrow> length (sent q c) = (if c < fresh q \<and> c \<notin> set (pending q) then 1 else 0)"
  unfolding queue_inv_def by blast

lemma queue_inv_init: "queue_inv (NewActionQueue w)"
  by (simp add: queue_inv_def NewActionQueue_def pending_def)

lemma send_simps [simp]:
  "buffer (send cs r q) = buffer q" "closed (send cs r q) = closed q"
  "inflight (send cs r q) = inflight q" "exited (send cs r q) = exited q"
  "fresh (send cs r q) = fresh q" "world (send cs r q) = world q"
  "accepted (send cs r q) = accepted q" "served (send cs r q) = served q"
  "sent (send cs r q) c = (if c \<in> set cs then sent q c @ [r] else sent q c)"
  by (simp_all add: send_def)

lemma pending_cong:
  "inflight q = inflight q' \<Longrightarrow> buffer q = buffer q' \<Longrightarrow> pending q = pending q'"
  by (simp add: pending_def)

lemma queue_inv_reject:
  assumes "queue_inv q"
  shows "queue_inv (send [fresh q] r (q\<lparr>fresh := Suc (fresh q)\<rparr>))"
proof -
  have p: "pending (send [fresh q] r (q\<lparr>fresh := Suc (fresh q)\<rparr>)) = pending q"
    by (rule pending_cong) simp_all
  have n: "fresh q \<notin> set (pending q)" using assms by (auto simp: queue_inv_def)
  have l: "length (sent q c) = (if c < fresh q \<and> c \<notin> set (pending q) then 1 else 0)" for c
    using assms by (simp add: queue_inv_def)
  have "length (sent (send [fresh q] r (q\<lparr>fresh := Suc (fresh q)\<rparr>)) c) =
      (if c < Suc (fresh q) \<and> c \<notin> set (pending q) then 1 else 0)" for c
    using l [of c] n by (cases "c = fresh q") (auto simp del: length_0_conv)
  then show ?thesis using assms unfolding queue_inv_def p by auto
qed

lemma queue_inv_Submit: "queue_inv q \<Longrightarrow> queue_inv (fst (Submit q k f))"
proof -
  assume i: "queue_inv q"
  show ?thesis
  proof (cases "f = None \<or> closed q")
    case True
    then show ?thesis using queue_inv_reject [OF i] by (auto simp: Submit_def Let_def split: option.splits)
  next
    case False
    then obtain g where f: "f = Some g" and c: "\<not> closed q" by auto
    let ?q = "fst (Submit q k f)"
    have p: "pending ?q = pending q @ [fresh q]"
      using f c by (simp add: Submit_def Let_def pending_def)
    have "fresh q \<notin> set (served q @ pending q)" using i by (auto simp: queue_inv_def)
    moreover have "length (sent q c) = (if c < fresh q \<and> c \<notin> set (pending q) then 1 else 0)" for c
      using i by (simp add: queue_inv_def)
    then have "length (sent ?q c) = (if c < fresh ?q \<and> c \<notin> set (pending ?q) then 1 else 0)" for c
      using f c unfolding p by (auto simp: Submit_def Let_def less_Suc_eq simp del: length_0_conv)
    ultimately show ?thesis
      using i f c unfolding queue_inv_def p by (auto simp: Submit_def Let_def less_Suc_eq)
  qed
qed

lemma queue_inv_Close: "queue_inv q \<Longrightarrow> queue_inv (Close q)"
proof -
  assume i: "queue_inv q"
  have "pending (Close q) = pending q" by (rule pending_cong) (simp_all add: Close_def)
  then show ?thesis using i unfolding queue_inv_def by (cases "closed q") (simp_all add: Close_def)
qed

lemma queue_inv_next:
  assumes "queue_inv q" "next_step q = Some q'"
  shows "queue_inv q'"
proof (cases "next_batch (buffer q)")
  case None
  then have "q' = q\<lparr>exited := True\<rparr>" "closed q" "inflight q = None" "buffer q = []"
    using assms(2) next_batch_None [of "buffer q"]
    by (auto simp: next_step_def simp del: split_paired_Ex split_paired_All split: if_splits)
  then show ?thesis using assms(1) by (simp add: queue_inv_def pending_def)
next
  case (Some t)
  obtain head replies rest where t: "t = (head, replies, rest)" by (cases t)
  have q': "q' = q\<lparr>buffer := rest, inflight := Some (head, replies)\<rparr>" "inflight q = None" "\<not> exited q"
    using assms(2) Some t
    by (auto simp: next_step_def simp del: split_paired_Ex split_paired_All split: if_splits)
  note nb = next_batch_Some [OF Some [unfolded t]]
  have p: "pending q' = pending q" using q' nb(2) by (simp add: pending_def)
  have "batch_ok (head, replies)" using nb(1,4,5) by (auto simp: batch_ok_def)
  then show ?thesis using assms(1) q' unfolding queue_inv_def p by simp
qed

lemma queue_inv_finish:
  assumes "queue_inv q" "finish_step q = Some q'"
  shows "queue_inv q'"
proof -
  obtain item replies where f: "inflight q = Some (item, replies)"
    using assms(2) by (auto simp: finish_step_def split: option.splits)
  obtain w r where e: "execute item (closed q) (world q) = (w, r)" by fastforce
  have q': "q' = send replies r (q\<lparr>inflight := None, world := w, served := served q @ replies\<rparr>)"
    using assms(2) f e by (simp add: finish_step_def)
  have p: "pending q = replies @ pending q'" using f q' by (simp add: pending_def)
  have s: "served q' = served q @ replies" "accepted q' = accepted q" "fresh q' = fresh q"
    "inflight q' = None" "closed q' = closed q" "exited q' = exited q"
    and sent: "\<And>c. length (sent q' c) = length (sent q c) + (if c \<in> set replies then 1 else 0)"
    using q' by simp_all
  have d: "distinct (served q @ replies @ pending q')" "set replies \<subseteq> {..<fresh q}"
    using assms(1) unfolding queue_inv_def p by auto
  have "length (sent q' c) = (if c < fresh q \<and> c \<notin> set (pending q') then 1 else 0)" for c
    using assms(1) d unfolding queue_inv_def sent p by (cases "c \<in> set replies") auto
  then show ?thesis
    using assms(1) f unfolding queue_inv_def s p by auto
qed

lemma queue_inv_reach: "qreach w q \<Longrightarrow> queue_inv q"
proof (induction rule: qreach.induct)
  case (step q q')
  from step.hyps(2) step.IH show ?case
    by (cases rule: qstep.cases)
      (auto intro: queue_inv_Submit queue_inv_Close queue_inv_next queue_inv_finish)
qed (rule queue_inv_init)

section \<open>Draining\<close>

definition work_left :: "('w, 'v) ActionQueue \<Rightarrow> nat" where
  "work_left q = 2 * length (buffer q) + (if inflight q = None then 0 else 1)"

lemma worker_step_reach: "worker_step q = Some q' \<Longrightarrow> qstep q q'"
  by (auto simp: worker_step_def intro: qstep.intros split: option.splits)

lemma worker_step_closed:
  assumes "worker_step q = Some q'" "closed q"
  shows "closed q' \<and> fresh q' = fresh q \<and> (exited q' \<or> work_left q' < work_left q)"
proof (cases "inflight q")
  case None
  then have n: "next_step q = Some q'"
    using assms(1) by (simp add: worker_step_def finish_step_def)
  show ?thesis
  proof (cases "next_batch (buffer q)")
    case None
    then show ?thesis using n assms(2) by (auto simp: next_step_def split: if_splits)
  next
    case (Some t)
    obtain head replies rest where t: "t = (head, replies, rest)" by (cases t)
    have "length (buffer q) > length rest"
      using next_batch_Some(5) [OF Some [unfolded t]] by auto
    then show ?thesis
      using n Some t assms(2) \<open>inflight q = None\<close> by (auto simp: next_step_def work_left_def split: if_splits)
  qed
next
  case (Some b)
  obtain item replies where b: "b = (item, replies)" by (cases b)
  obtain w r where "execute item (closed q) (world q) = (w, r)" by fastforce
  then have "q' = send replies r (q\<lparr>inflight := None, world := w, served := served q @ replies\<rparr>)"
    using assms(1) Some b by (simp add: worker_step_def finish_step_def)
  then show ?thesis using assms(2) Some by (simp add: work_left_def)
qed

lemma worker_step_None:
  assumes "closed q" "worker_step q = None"
  shows "exited q"
  using assms
  by (auto simp: worker_step_def finish_step_def next_step_def next_batch_None split_beta Let_def
      split: option.splits if_splits)

lemma run_drains:
  assumes "queue_inv q" "closed q" "work_left q < n"
  shows "exited (run n q) \<and> fresh (run n q) = fresh q \<and> queue_inv (run n q)"
  using assms
proof (induction n arbitrary: q)
  case (Suc n)
  show ?case
  proof (cases "worker_step q")
    case None
    then show ?thesis using worker_step_None Suc.prems by auto
  next
    case (Some q')
    note c = worker_step_closed [OF Some Suc.prems(2)]
    have i: "queue_inv q'"
      using worker_step_reach [OF Some] Suc.prems(1)
      by (cases rule: qstep.cases)
        (auto intro: queue_inv_Submit queue_inv_Close queue_inv_next queue_inv_finish)
    show ?thesis
    proof (cases "exited q'")
      case True
      then have "worker_step q' = None"
        using i by (auto simp: worker_step_def finish_step_def next_step_def queue_inv_def)
      then have "run n q' = q'" by (cases n) auto
      then show ?thesis using Some True i c by simp
    next
      case False
      then have "work_left q' < n" using c Suc.prems(3) by simp
      then show ?thesis using Suc.IH [OF i] c Some by simp
    qed
  qed
qed simp

section \<open>Properties\<close>

text \<open>
  C33: in every reachable state, each reply channel that was handed out holds exactly one
  result if its item is neither waiting nor running, and none otherwise; no channel is ever
  answered twice, and once the worker has exited every channel has been answered.
\<close>

theorem queue_exactly_one_reply:
  assumes "qreach w q"
  shows "length (sent q c) = (if c < fresh q \<and> c \<notin> set (pending q) then 1 else 0) \<and>
    (exited q \<longrightarrow> pending q = [])"
  using queue_inv_reach [OF assms] by (auto simp: queue_inv_def)

text \<open>
  Theorem: replies are delivered in the order of acceptance, across all kinds: the accepted
  channels are at any time the answered ones followed by the running batch and the buffer, and
  a batch of more than one submitter only ever forms for reconcile actions.
\<close>

theorem queue_fifo:
  assumes "qreach w q"
  shows "accepted q = served q @ pending q \<and> distinct (accepted q) \<and>
    (inflight q = Some (item, replies) \<and> length replies > 1 \<longrightarrow> kind item = ActionReconcile)"
  using queue_inv_reach [OF assms] by (auto simp: queue_inv_def batch_ok_def)

text \<open>
  Theorem: popping a batch takes the head of the buffer and, for a reconcile head only, the
  directly following reconcile items; everything behind them keeps its place. Popping until the
  buffer is empty yields every submitter once, in order.
\<close>

theorem next_batch_coalesces:
  "(case next_batch b of
      None \<Rightarrow> b = []
    | Some (head, replies, rest) \<Rightarrow>
        \<exists>ps. b = (head # ps) @ rest \<and> replies = map reply (head # ps) \<and>
          list_all (\<lambda>p. kind p = ActionReconcile \<and> kind head = ActionReconcile) ps) \<and>
   pop_all (\<lambda>b. case next_batch b of None \<Rightarrow> None | Some (head, replies, rest) \<Rightarrow> Some (replies, rest))
     (length b) b = map reply b"
proof (rule conjI)
  show "case next_batch b of
      None \<Rightarrow> b = []
    | Some (head, replies, rest) \<Rightarrow>
        \<exists>ps. b = (head # ps) @ rest \<and> replies = map reply (head # ps) \<and>
          list_all (\<lambda>p. kind p = ActionReconcile \<and> kind head = ActionReconcile) ps"
  proof (cases "next_batch b")
    case (Some t)
    obtain head replies rest where t: "t = (head, replies, rest)" by (cases t)
    from next_batch_Some(5) [OF Some [unfolded t]] obtain ps where
      "b = (head # ps) @ rest" "replies = map reply (head # ps)"
      and k: "ps \<noteq> [] \<longrightarrow> kind head = ActionReconcile" "\<forall>p \<in> set ps. kind p = kind head" by blast
    moreover have "list_all (\<lambda>p. kind p = ActionReconcile \<and> kind head = ActionReconcile) ps"
      unfolding list_all_iff using k by (metis empty_iff list.set(1))
    ultimately show ?thesis using Some t by (simp only: option.case prod.case) blast
  next
    case None
    then have "b = []" by (simp add: next_batch_None)
    with None show ?thesis by simp
  qed
qed (use worker_queue.pop_all_fifo [of b "length b"] in simp)

text \<open>
  Theorem: a closed queue drains. From any reachable closed state the worker exits after a
  bounded number of its own steps, and then every channel handed out before has exactly one
  result: no submitter is left waiting.
\<close>

theorem closed_queue_drains:
  assumes "qreach w q" "closed q" "n = 2 * length (buffer q) + 2" "c < fresh q"
  shows "exited (run n q) \<and> length (sent (run n q) c) = 1"
proof -
  have "work_left q < n" using assms(3) by (simp add: work_left_def)
  from run_drains [OF queue_inv_reach [OF assms(1)] assms(2) this]
  show ?thesis using assms(4) by (auto simp: queue_inv_def)
qed

text \<open>
  Theorem: once closed, the queue stays closed and accepts nothing: a submission is answered at
  once with the closed error, and neither the buffer nor the running batch changes.
\<close>

theorem closed_queue_rejects:
  assumes "qreach w q" "closed q" "qstep q q'"
  shows "closed q' \<and>
    (let (q'', c) = Submit q k (Some f) in
       sent q'' c = [err_result ErrClosed] \<and> buffer q'' = buffer q \<and> inflight q'' = inflight q \<and>
       accepted q'' = accepted q)"
proof -
  have "closed q'"
    using assms(3,2)
  proof (cases rule: qstep.cases)
    case pick
    then show ?thesis using assms(2)
      by (auto simp: next_step_def split: if_splits option.splits)
  next
    case finish
    then show ?thesis using assms(2)
      by (auto simp: finish_step_def split_beta Let_def split: option.splits)
  qed (auto simp: Submit_def Close_def Let_def split: option.splits)
  moreover have "length (sent q (fresh q)) = 0"
    using queue_exactly [OF queue_inv_reach [OF assms(1)], of "fresh q"] by simp
  ultimately show ?thesis using assms(2) by (simp add: Submit_def Let_def)
qed

section \<open>Witnesses\<close>

definition sample_queue :: "(nat, nat) ActionQueue" where
  "sample_queue =
     Close (fst (Submit (fst (Submit (NewActionQueue 5) ActionReconcile
       (Some (\<lambda>c w. (Suc w, Returned (Some w) None)))))
       ActionReconcile (Some (\<lambda>c w. (w, Panicked ''boom'')))))"

lemma sample_queue_reach: "qreach 5 sample_queue"
  unfolding sample_queue_def by (intro qreach.step [OF _ qstep.close] qreach.step [OF _ qstep.submit] qreach.init)

lemma sample_queue_state: "closed sample_queue" "length (buffer sample_queue) = 2" "fresh sample_queue = 2"
  by (simp_all add: sample_queue_def Submit_def Close_def NewActionQueue_def Let_def)

theorem queue_exactly_one_reply_witness: "length (sent sample_queue 7) = 0"
  using queue_exactly_one_reply [OF sample_queue_reach, of 7] by (simp add: sample_queue_state)

theorem queue_fifo_witness: "accepted sample_queue = served sample_queue @ pending sample_queue"
  using queue_fifo [OF sample_queue_reach] by blast

theorem closed_queue_drains_witness:
  "exited (run 6 sample_queue) \<and> length (sent (run 6 sample_queue) 1) = 1"
  using closed_queue_drains [OF sample_queue_reach sample_queue_state(1), of 6 1]
  by (simp add: sample_queue_state)

theorem closed_queue_rejects_witness:
  "let (q, c) = Submit sample_queue ActionRead (Some (\<lambda>c w. (w, Panicked ''x''))) in
     sent q c = [err_result ErrClosed] \<and> buffer q = buffer sample_queue"
  using closed_queue_rejects [OF sample_queue_reach sample_queue_state(1) qstep.close,
      of ActionRead "\<lambda>c w. (w, Panicked ''x'')"]
  by (auto simp: Let_def split: prod.splits)

end
