(* ===== verification/Rule_Handler.thy ===== *)
theory Rule_Handler
  imports Routes Action_Queue
begin

text \<open>
  The rule RPCs of \<open>controlplane/firewall/handler.go\<close> over the rule store: adding, removing and
  listing rules, the reconcile closure they queue, and the per-rule statuses of
  \<open>rule_status.go\<close>.

  The store is \<open>internal/storage\<close>'s: \<open>Set\<close> changes the in-memory tree, \<open>Write\<close> flushes it to
  the file, and every reader sees the in-memory tree. A transaction takes the outcome of its
  three operations as an argument, so that each error path is a branch; encoding a rule list to
  YAML and decoding it back is taken to be the identity. The whole closure of \<open>Txn\<close> runs under
  the transaction lock and is one step.
\<close>

section \<open>Statuses\<close>

datatype addStatus = addStatusUnspecified | addStatusAdded | addStatusModified | addStatusUnchanged

datatype removeStatus =
  removeStatusUnspecified | removeStatusRemoved | removeStatusPathRemoved | removeStatusNotFound

datatype pb_add_status = ADD_UNSPECIFIED | ADD_ADDED | ADD_MODIFIED | ADD_UNCHANGED

datatype pb_remove_status = REMOVE_UNSPECIFIED | REMOVE_REMOVED | REMOVE_PATH_REMOVED | REMOVE_NOT_FOUND

fun toProtoAddStatus :: "addStatus \<Rightarrow> pb_add_status" where
  "toProtoAddStatus addStatusAdded = ADD_ADDED"
| "toProtoAddStatus addStatusModified = ADD_MODIFIED"
| "toProtoAddStatus addStatusUnchanged = ADD_UNCHANGED"
| "toProtoAddStatus addStatusUnspecified = ADD_UNSPECIFIED"

definition toProtoAddStatuses :: "addStatus list \<Rightarrow> pb_add_status list" where
  "toProtoAddStatuses ss = map toProtoAddStatus ss"

fun toProtoRemoveStatus :: "removeStatus \<Rightarrow> pb_remove_status" where
  "toProtoRemoveStatus removeStatusRemoved = REMOVE_REMOVED"
| "toProtoRemoveStatus removeStatusPathRemoved = REMOVE_PATH_REMOVED"
| "toProtoRemoveStatus removeStatusNotFound = REMOVE_NOT_FOUND"
| "toProtoRemoveStatus removeStatusUnspecified = REMOVE_UNSPECIFIED"

definition anyAddChange :: "addStatus list \<Rightarrow> bool" where
  "anyAddChange ss \<longleftrightarrow> list_ex (\<lambda>s. s = addStatusAdded \<or> s = addStatusModified) ss"

section \<open>The rule store\<close>

record rule_store =
  mem :: "EgressRule list"
  disk :: "EgressRule list"

record store_io =
  get_fails :: bool
  set_fails :: bool
  write_fails :: bool

definition healthy :: store_io where
  "healthy = \<lparr>get_fails = False, set_fails = False, write_fails = False\<rparr>"

datatype store_error = ReadingRules | UpdatingRules | WritingRules

definition getRules :: "store_io \<Rightarrow> rule_store \<Rightarrow> store_error + EgressRule list" where
  "getRules io s = (if get_fails io then Inl ReadingRules else Inr (mem s))"

definition writeRules :: "store_io \<Rightarrow> rule_store \<Rightarrow> EgressRule list \<Rightarrow> store_error option \<times> rule_store" where
  "writeRules io s rules =
     (if set_fails io then (Some UpdatingRules, s)
      else if write_fails io then (Some WritingRules, s\<lparr>mem := rules\<rparr>)
      else (None, \<lparr>mem = rules, disk = rules\<rparr>))"

section \<open>Adding rules\<close>

definition add_step ::
  "(string \<rightharpoonup> nat) \<times> EgressRule list \<Rightarrow> EgressRule \<Rightarrow> ((string \<rightharpoonup> nat) \<times> EgressRule list) \<times> addStatus" where
  "add_step st r =
     (case st of (index, existing) \<Rightarrow>
        (case index (RuleKey r) of
           Some j \<Rightarrow>
             (let merged = MergeRule (existing ! j) r in
              if existing ! j = merged then ((index, existing), addStatusUnchanged)
              else ((index, existing[j := merged]), addStatusModified))
         | None \<Rightarrow>
             ((index(RuleKey r \<mapsto> length existing), existing @ [r]), addStatusAdded)))"

fun add_loop ::
  "(string \<rightharpoonup> nat) \<times> EgressRule list \<Rightarrow> EgressRule list \<Rightarrow> EgressRule list \<times> addStatus list" where
  "add_loop st [] = (snd st, [])"
| "add_loop st (r # rs) =
     (let (st', status) = add_step st r; (existing, statuses) = add_loop st' rs
      in (existing, status # statuses))"

definition addRulesToStore ::
  "store_io \<Rightarrow> rule_store \<Rightarrow> EgressRule list \<Rightarrow> (store_error + addStatus list) \<times> rule_store" where
  "addRulesToStore io s rules =
     (case getRules io s of
        Inl e \<Rightarrow> (Inl e, s)
      | Inr stored \<Rightarrow>
          (let before = fst (NormalizeAndDedup stored);
               (existing, statuses) =
                 add_loop (build_index RuleKey 0 before Map.empty, before) (map NormalizeRule rules);
               after = fst (NormalizeAndDedup existing)
           in if rulesCanonicalEqual before after
              then (Inr (map (\<lambda>_. addStatusUnchanged) statuses), s)
              else
                (case writeRules io s after of
                   (Some e, s') \<Rightarrow> (Inl e, s')
                 | (None, s') \<Rightarrow> (Inr statuses, s'))))"

section \<open>Removing rules\<close>

definition removeRuleFromStore ::
  "store_io \<Rightarrow> rule_store \<Rightarrow> EgressRule \<Rightarrow> (store_error + bool) \<times> rule_store" where
  "removeRuleFromStore io s toRemove =
     (let targetKey = RuleKey (NormalizeRule toRemove) in
      (case getRules io s of
         Inl e \<Rightarrow> (Inl e, s)
       | Inr stored \<Rightarrow>
           (let normalized = fst (NormalizeAndDedup stored);
                matched = list_ex (\<lambda>r. RuleKey r = targetKey) normalized;
                filtered = filter (\<lambda>r. RuleKey r \<noteq> targetKey) normalized
            in if \<not> matched then (Inr False, s)
               else
                 (case writeRules io s filtered of
                    (Some e, s') \<Rightarrow> (Inl e, s')
                  | (None, s') \<Rightarrow> (Inr True, s')))))"

fun first_index :: "('a \<Rightarrow> bool) \<Rightarrow> 'a list \<Rightarrow> nat option" where
  "first_index P [] = None"
| "first_index P (x # xs) = (if P x then Some 0 else map_option Suc (first_index P xs))"

definition removePathRuleFromStore ::
  "store_io \<Rightarrow> rule_store \<Rightarrow> EgressRule \<Rightarrow> string \<Rightarrow> (store_error + bool) \<times> rule_store" where
  "removePathRuleFromStore io s toRemove path =
     (let targetKey = RuleKey (NormalizeRule toRemove) in
      (case getRules io s of
         Inl e \<Rightarrow> (Inl e, s)
       | Inr stored \<Rightarrow>
           (let normalized = fst (NormalizeAndDedup stored) in
            (case first_index (\<lambda>r. RuleKey r = targetKey) normalized of
               None \<Rightarrow> (Inr False, s)
             | Some idx \<Rightarrow>
                 (let r = normalized ! idx;
                      matched = list_ex (\<lambda>p. Path p = path) (PathRules r);
                      filtered = filter (\<lambda>p. Path p \<noteq> path) (PathRules r)
                  in if \<not> matched then (Inr False, s)
                     else
                       (case writeRules io s (normalized[idx := r\<lparr>PathRules := filtered\<rparr>]) of
                          (Some e, s') \<Rightarrow> (Inl e, s')
                        | (None, s') \<Rightarrow> (Inr True, s')))))))"

section \<open>The reconcile closure\<close>

text \<open>
  The stack and the eBPF manager as the handler calls them: \<open>Status\<close>, \<open>Reload\<close> and
  \<open>SyncRoutes\<close> with their outcomes. \<open>envoy_rules\<close> is the rule set the running Envoy was last
  configured from and \<open>route_map\<close> the routes last synchronised; a failing call leaves its part
  unchanged.
\<close>

record firewall =
  rstore :: rule_store
  running :: bool
  envoy_rules :: "EgressRule list"
  route_map :: "Route list"

record stack_io =
  status_err :: "string option"
  reload_err :: "string option"
  sync_err :: "string option"

datatype handler_error =
    ErrStackProbe string | ReloadFailed string | ErrRouteSync string
  | ErrRuleInvalid "(nat \<times> string \<times> rule_error) list" | ErrRuleStoreWrite store_error | ErrQueueClosed

definition routesFromStore :: "EnvoyPorts \<Rightarrow> firewall \<Rightarrow> Route list" where
  "routesFromStore ports fw = RoutesFromRules (fst (NormalizeAndDedup (mem (rstore fw)))) ports"

definition reconcileStackClosure ::
  "EnvoyPorts \<Rightarrow> stack_io \<Rightarrow> firewall \<Rightarrow> (handler_error list + bool) \<times> firewall" where
  "reconcileStackClosure ports io fw =
     (case status_err io of
        Some e \<Rightarrow> (Inl [ErrStackProbe e], fw)
      | None \<Rightarrow>
          if \<not> running fw then (Inr False, fw)
          else
            (let (errs1, fw1) =
                   (case reload_err io of
                      Some e \<Rightarrow> ([ReloadFailed e], fw)
                    | None \<Rightarrow> ([], fw\<lparr>envoy_rules := fst (NormalizeAndDedup (mem (rstore fw)))\<rparr>));
                 (errs2, fw2) =
                   (case sync_err io of
                      Some e \<Rightarrow> (errs1 @ [ErrRouteSync e], fw1)
                    | None \<Rightarrow> (errs1, fw1\<lparr>route_map := routesFromStore ports fw1\<rparr>))
             in if errs2 \<noteq> [] then (Inl errs2, fw2) else (Inr True, fw2)))"

section \<open>RPCs\<close>

text \<open>
  \<open>submit\<close> hands the reconcile closure to the queue and waits; a closed queue answers with
  its own error and the closure does not run.
\<close>

definition submit_reconcile ::
  "bool \<Rightarrow> EnvoyPorts \<Rightarrow> stack_io \<Rightarrow> firewall \<Rightarrow> (handler_error list + bool) \<times> firewall" where
  "submit_reconcile queueClosed ports io fw =
     (if queueClosed then (Inl [ErrQueueClosed], fw) else reconcileStackClosure ports io fw)"

fun invalid_rules :: "(string \<Rightarrow> bool) \<Rightarrow> nat \<Rightarrow> EgressRule list \<Rightarrow> (nat \<times> string \<times> rule_error) list" where
  "invalid_rules compiles i [] = []"
| "invalid_rules compiles i (r # rs) =
     (case ValidateRule compiles r of
        Some e \<Rightarrow> (i, Dst r, e) # invalid_rules compiles (Suc i) rs
      | None \<Rightarrow> invalid_rules compiles (Suc i) rs)"

definition FirewallAddRules ::
  "(string \<Rightarrow> bool) \<Rightarrow> bool \<Rightarrow> EnvoyPorts \<Rightarrow> store_io \<Rightarrow> stack_io \<Rightarrow> firewall \<Rightarrow> PbEgressRule list \<Rightarrow>
   (handler_error list + pb_add_status list \<times> bool) \<times> firewall" where
  "FirewallAddRules compiles queueClosed ports sio io fw req =
     (let rules = EgressRulesFromProto req; invalid = invalid_rules compiles 0 rules in
      if invalid \<noteq> [] then (Inl [ErrRuleInvalid invalid], fw)
      else
        (case addRulesToStore sio (rstore fw) rules of
           (Inl e, s) \<Rightarrow> (Inl [ErrRuleStoreWrite e], fw\<lparr>rstore := s\<rparr>)
         | (Inr statuses, s) \<Rightarrow>
             (let fw = fw\<lparr>rstore := s\<rparr> in
              if \<not> anyAddChange statuses then (Inr (toProtoAddStatuses statuses, False), fw)
              else
                (case submit_reconcile queueClosed ports io fw of
                   (Inl e, fw) \<Rightarrow> (Inl e, fw)
                 | (Inr restarted, fw) \<Rightarrow> (Inr (toProtoAddStatuses statuses, restarted), fw)))))"

definition FirewallRemoveRule ::
  "bool \<Rightarrow> EnvoyPorts \<Rightarrow> store_io \<Rightarrow> stack_io \<Rightarrow> firewall \<Rightarrow> string \<Rightarrow> string \<Rightarrow> string \<Rightarrow> string \<Rightarrow>
   (handler_error list + bool \<times> pb_remove_status) \<times> firewall" where
  "FirewallRemoveRule queueClosed ports sio io fw dst proto port path =
     (let rule = \<lparr>Dst = dst, Proto = proto, Port = port, Action = [], PathRules = [],
                  PathDefault = [], InsecureSkipTLSVerify = False\<rparr>;
          pathMode = (path \<noteq> []);
          (res, s) = (if pathMode then removePathRuleFromStore sio (rstore fw) rule path
                      else removeRuleFromStore sio (rstore fw) rule);
          fw = fw\<lparr>rstore := s\<rparr>
      in (case res of
            Inl e \<Rightarrow> (Inl [ErrRuleStoreWrite e], fw)
          | Inr matched \<Rightarrow>
              if \<not> matched then (Inr (False, toProtoRemoveStatus removeStatusNotFound), fw)
              else
                (case submit_reconcile queueClosed ports io fw of
                   (Inl e, fw) \<Rightarrow> (Inl e, fw)
                 | (Inr restarted, fw) \<Rightarrow>
                     (Inr (restarted, toProtoRemoveStatus
                        (if pathMode then removeStatusPathRemoved else removeStatusRemoved)), fw))))"

definition FirewallListRules ::
  "bool \<Rightarrow> firewall \<Rightarrow> handler_error list + PbEgressRule list" where
  "FirewallListRules queueClosed fw =
     (if queueClosed then Inl [ErrQueueClosed]
      else Inr (EgressRulesToProto (fst (NormalizeAndDedup (mem (rstore fw))))))"

definition FirewallReload ::
  "bool \<Rightarrow> EnvoyPorts \<Rightarrow> stack_io \<Rightarrow> firewall \<Rightarrow> (handler_error list + bool) \<times> firewall" where
  "FirewallReload queueClosed ports io fw = submit_reconcile queueClosed ports io fw"

definition FirewallSyncRoutes ::
  "bool \<Rightarrow> EnvoyPorts \<Rightarrow> stack_io \<Rightarrow> firewall \<Rightarrow> (handler_error list + 32 word) \<times> firewall" where
  "FirewallSyncRoutes queueClosed ports io fw =
     (case submit_reconcile queueClosed ports io fw of
        (Inl e, fw) \<Rightarrow> (Inl e, fw)
      | (Inr _, fw) \<Rightarrow> (Inr (word_of_nat (length (routesFromStore ports fw))), fw))"

section \<open>Lemmas on adding\<close>

lemma add_step_upsert: "fst (add_step st r) = upsert RuleKey MergeRule st r"
  by (auto simp: add_step_def upsert_def Let_def split: prod.splits option.splits)

lemma add_loop_upsert: "fst (add_loop st rs) = snd (foldl (upsert RuleKey MergeRule) st rs)"
  by (induction rs arbitrary: st) (simp_all add: Let_def split_beta add_step_upsert)

lemma add_loop_length: "length (snd (add_loop st rs)) = length rs"
  by (induction rs arbitrary: st) (simp_all add: Let_def split_beta)

lemma add_step_unchanged: "snd (add_step st r) = addStatusUnchanged \<Longrightarrow> fst (add_step st r) = st"
  by (auto simp: add_step_def Let_def split: prod.splits option.splits if_splits)

lemma add_step_status: "snd (add_step st r) \<noteq> addStatusUnspecified"
  by (auto simp: add_step_def Let_def split: prod.splits option.splits)

lemma add_loop_unchanged: "\<not> anyAddChange (snd (add_loop st rs)) \<Longrightarrow> fst (add_loop st rs) = snd st"
proof (induction rs arbitrary: st)
  case (Cons r rs)
  obtain st' status where a: "add_step st r = (st', status)" by fastforce
  have "status = addStatusUnchanged"
    using Cons.prems a add_step_status [of st r] by (cases status) (auto simp: anyAddChange_def Let_def split_beta)
  then have "st' = st" using add_step_unchanged [of st r] a by simp
  moreover have "\<not> anyAddChange (snd (add_loop st' rs))"
    using Cons.prems a by (auto simp: anyAddChange_def Let_def split_beta)
  ultimately show ?case using Cons.IH a by (simp add: Let_def split_beta)
qed simp

lemma plain_MergeRule: "plain_rule x \<Longrightarrow> plain_rule (MergeRule x y)"
  by (simp add: plain_rule_def MergeRule_def Let_def)

lemma plain_NormalizeRule: "plain_rule r \<Longrightarrow> plain_rule (NormalizeRule r)"
  by (auto simp: plain_rule_def NormalizeRule_fields)

lemma upsert_set:
  assumes "index_ok key m xs"
  shows "set (snd (upsert key comb (m, xs) p)) \<subseteq> set xs \<union> {p} \<union> {comb x p |x. x \<in> set xs}"
proof (cases "m (key p)")
  case None
  then show ?thesis by (auto simp: upsert_def)
next
  case (Some i)
  have "i < length xs" using index_ok_Some [OF assms Some] by simp
  then show ?thesis
    using Some set_update_subset_insert [of xs i "comb (xs ! i) p"] nth_mem by (fastforce simp: upsert_def)
qed

lemma upserts_plain:
  assumes "index_ok RuleKey m xs" "\<forall>x \<in> set xs. plain_rule x" "\<forall>r \<in> set rs. plain_rule r"
  shows "\<forall>x \<in> set (snd (foldl (upsert RuleKey MergeRule) (m, xs) rs)). plain_rule x"
  using assms
proof (induction rs arbitrary: m xs)
  case (Cons r rs)
  obtain m' xs' where u: "upsert RuleKey MergeRule (m, xs) r = (m', xs')" by fastforce
  have "index_ok RuleKey m' xs'" using rule_upsert.upsert_ok [OF Cons.prems(1), of r] u by simp
  moreover have "\<forall>x \<in> set xs'. plain_rule x"
    using upsert_set [OF Cons.prems(1), of MergeRule r] u Cons.prems(2,3) plain_MergeRule by auto
  ultimately show ?case using Cons.IH Cons.prems(3) u by simp
qed simp

definition canonical_rules :: "EgressRule list \<Rightarrow> EgressRule list" where
  "canonical_rules rs = fst (NormalizeAndDedup rs)"

definition merged_rules :: "EgressRule list \<Rightarrow> EgressRule list \<Rightarrow> EgressRule list" where
  "merged_rules before rules =
     snd (foldl (upsert RuleKey MergeRule) (build_index RuleKey 0 before Map.empty, before)
       (map NormalizeRule rules))"

lemma addRulesToStore_eq:
  "addRulesToStore io s rules =
     (if get_fails io then (Inl ReadingRules, s)
      else
        (let before = canonical_rules (mem s);
             after = canonical_rules (merged_rules before rules);
             statuses = snd (add_loop (build_index RuleKey 0 before Map.empty, before) (map NormalizeRule rules))
         in if rulesCanonicalEqual before after
            then (Inr (replicate (length rules) addStatusUnchanged), s)
            else
              (case writeRules io s after of
                 (Some e, s') \<Rightarrow> (Inl e, s')
               | (None, s') \<Rightarrow> (Inr statuses, s'))))"
  by (simp add: addRulesToStore_def getRules_def Let_def split_beta add_loop_upsert merged_rules_def
      canonical_rules_def add_loop_length map_replicate_const)

lemma canonical_plain:
  assumes "\<forall>r \<in> set rs. plain_rule r"
  shows "\<forall>r \<in> set (canonical_rules rs). plain_rule r" "distinct (map action_key (canonical_rules rs))"
    "canonical_rules (canonical_rules rs) = canonical_rules rs"
    "\<forall>r \<in> set (canonical_rules rs). canonical_rule r"
  using NormalizeAndDedup_canonical [OF assms] NormalizeAndDedup_idem [OF assms]
  by (simp_all add: canonical_rules_def)

lemma merged_plain:
  assumes "\<forall>r \<in> set before. plain_rule r" "\<forall>r \<in> set rules. plain_rule r"
  shows "\<forall>r \<in> set (merged_rules before rules). plain_rule r"
  unfolding merged_rules_def using assms plain_NormalizeRule
  by (intro upserts_plain index_ok_build_index) auto

lemma anyAddChange_replicate [simp]: "\<not> anyAddChange (replicate n addStatusUnchanged)"
  by (auto simp: anyAddChange_def list_ex_iff)

lemma equal_canonical_refl: "rulesCanonicalEqual a a"
  by (simp add: rulesCanonicalEqual_def)

section \<open>Lemmas on merging a normal rule\<close>

lemma mergePathRules_set: "set (mergePathRules a b) \<subseteq> set a \<union> set b"
proof (cases "b = []")
  case False
  have "set (snd (foldl (upsert Path (\<lambda>old p. p)) (m, xs) ps)) \<subseteq> set xs \<union> set ps"
    if "index_ok Path m xs" for m and xs ps :: "PathRule list"
    using that
  proof (induction ps arbitrary: m xs)
    case (Cons p ps)
    obtain m' xs' where u: "upsert Path (\<lambda>old p. p) (m, xs) p = (m', xs')" by fastforce
    have "index_ok Path m' xs'" using path_upsert.upsert_ok [OF Cons.prems, of p] u by simp
    moreover have "set xs' \<subseteq> set xs \<union> {p}"
      using upsert_set [OF Cons.prems, of "\<lambda>old p. p" p] u by auto
    ultimately show ?case using Cons.IH [of m' xs'] u by auto
  qed simp
  from this [OF index_ok_build_index] False show ?thesis by (simp add: mergePathRules_def)
qed (simp add: mergePathRules_def)

lemma NormalizeRule_fix_iff:
  "NormalizeRule r = r \<longleftrightarrow>
     (ToLower (Proto r) = ''tls'' \<or> Proto r = [] \<longrightarrow> Proto r = ''https'') \<and> Action r \<noteq> [] \<and>
     (Port r = [] \<longrightarrow> default_port (Proto r) = []) \<and>
     (\<forall>p \<in> set (PathRules r). normalizeMethods (Methods p) = Methods p)"
proof
  assume n: "NormalizeRule r = r"
  have "map (\<lambda>p. p\<lparr>Methods := normalizeMethods (Methods p)\<rparr>) (PathRules r) = PathRules r"
    using arg_cong [OF n, of PathRules] by (simp add: NormalizeRule_fields)
  then have "\<forall>p \<in> set (PathRules r). p\<lparr>Methods := normalizeMethods (Methods p)\<rparr> = p"
    by (simp add: map_eq_conv [where g = id, simplified])
  then have "\<forall>p \<in> set (PathRules r). normalizeMethods (Methods p) = Methods p"
    by (metis PathRule.select_convs(3) PathRule.surjective PathRule.update_convs(3))
  then show "(ToLower (Proto r) = ''tls'' \<or> Proto r = [] \<longrightarrow> Proto r = ''https'') \<and> Action r \<noteq> [] \<and>
     (Port r = [] \<longrightarrow> default_port (Proto r) = []) \<and>
     (\<forall>p \<in> set (PathRules r). normalizeMethods (Methods p) = Methods p)"
    using arg_cong [OF n, of Proto] arg_cong [OF n, of Action]
      NormalizeRule_fields(4) [of r, unfolded n]
    by (auto simp: NormalizeRule_fields(2,3) split: if_splits)
next
  assume a: "(ToLower (Proto r) = ''tls'' \<or> Proto r = [] \<longrightarrow> Proto r = ''https'') \<and> Action r \<noteq> [] \<and>
     (Port r = [] \<longrightarrow> default_port (Proto r) = []) \<and>
     (\<forall>p \<in> set (PathRules r). normalizeMethods (Methods p) = Methods p)"
  then have p: "Proto (NormalizeRule r) = Proto r" by (auto simp: NormalizeRule_fields)
  have "map (\<lambda>p. p\<lparr>Methods := normalizeMethods (Methods p)\<rparr>) (PathRules r) = PathRules r"
    using a by (intro map_idI) simp
  then show "NormalizeRule r = r"
    using a p by (intro EgressRule_eqI) (auto simp: NormalizeRule_fields)
qed

lemma MergeRule_normal:
  assumes "NormalizeRule x = x" "NormalizeRule y = y"
  shows "NormalizeRule (MergeRule x y) = MergeRule x y"
proof -
  have f: "Proto (MergeRule x y) = Proto x" "Action (MergeRule x y) = Action y"
    "Port (MergeRule x y) = Port x"
    "PathRules (MergeRule x y) = mergePathRules (PathRules x) (PathRules y)"
    by (simp_all add: MergeRule_def Let_def)
  show ?thesis
    using assms mergePathRules_set [of "PathRules x" "PathRules y"]
    unfolding NormalizeRule_fix_iff f by blast
qed

lemma single_merge:
  assumes "\<forall>x \<in> set before. canonical_rule x \<and> plain_rule x" "distinct (map RuleKey before)"
    "plain_rule r" "keepable (NormalizeRule r)" "\<not> grouped (NormalizeRule r)"
  defines "x \<equiv> (case last_with RuleKey (RuleKey (NormalizeRule r)) before of
      None \<Rightarrow> NormalizeRule r | Some y \<Rightarrow> MergeRule y (NormalizeRule r))"
  shows "x \<in> set (canonical_rules (merged_rules before [r]))"
proof -
  let ?r = "NormalizeRule r" and ?out = "merged_rules before [r]"
  note ok = index_ok_build_index [of RuleKey before]
  have out: "?out = snd (upsert RuleKey MergeRule (build_index RuleKey 0 before Map.empty, before) ?r)"
    by (simp add: merged_rules_def)
  have "last_with RuleKey (RuleKey ?r) ?out = Some x"
    unfolding out rule_upsert.upsert_lookup [OF ok] x_def by simp
  then have x: "x \<in> set ?out" using last_with_Some by metis
  have dk: "distinct (map RuleKey ?out)"
    unfolding out rule_upsert.upsert_keys [OF ok] using assms(2) by auto
  have norm: "NormalizeRule z = z" if "z \<in> set ?out" for z
  proof -
    have "z \<in> set before \<union> {?r} \<union> {MergeRule y ?r |y. y \<in> set before}"
      using upsert_set [OF ok, of MergeRule ?r] that unfolding out by blast
    then show ?thesis
      using assms(1) MergeRule_normal [OF _ NormalizeRule_idem]
      by (auto simp: canonical_rule_def NormalizeRule_idem)
  qed
  have key_eq: "Dst x = Dst ?r \<and> Proto x = Proto ?r \<and> Port x = Port ?r"
  proof (cases "last_with RuleKey (RuleKey ?r) before")
    case None
    then show ?thesis by (simp add: x_def)
  next
    case (Some y)
    then have y: "y \<in> set before" "RuleKey y = RuleKey ?r" using last_with_Some [OF Some] by blast+
    then have "Dst y = Dst ?r \<and> Proto y = Proto ?r \<and> Port y = Port ?r"
      using RuleKey_eq [of y ?r] assms(1,4) plain_NormalizeRule [OF assms(3)] keepable_no_colon
      by (auto simp: plain_rule_def canonical_rule_def)
    then show ?thesis using Some by (simp add: x_def MergeRule_def Let_def)
  qed
  then have kx: "keepable x" "\<not> grouped x"
    using assms(4,5) PortSpan_cong [of x ?r]
    by (auto simp: keepable_def grouped_def ValidatePortSpec_def)
  have "map NormalizeRule ?out = ?out" using norm by (simp add: map_idI)
  then have kept: "kept ?out = filter keepable ?out" by (simp add: kept_def)
  have "distinct (map RuleKey (kept ?out))" unfolding kept using dk by (rule distinct_map_filter)
  then have "distinct (map action_key (kept ?out))"
    unfolding distinct_map inj_on_def using action_key_RuleKey by blast
  then have "dedup_by action_key [] (kept ?out) = kept ?out" by (intro dedup_by_id) auto
  then have "canonical_rules ?out = fst (resolveOpaquePortConflicts (kept ?out))"
    by (simp add: canonical_rules_def NormalizeAndDedup_rules)
  moreover have "x \<in> set (filter (\<lambda>r. \<not> grouped r) (kept ?out))" using x kx by (simp add: kept)
  ultimately show ?thesis using arg_cong [OF resolve_ungrouped [of "kept ?out"], of set] by auto
qed

section \<open>Properties\<close>

text \<open>
  Theorem: the write gate of an add. When adding succeeds, the statuses report a change exactly
  when the canonical rule set changes; then the new canonical set is both in memory and on disk,
  and otherwise the store is untouched. There is one status per submitted rule.
\<close>

theorem add_rules_gate:
  assumes "addRulesToStore io s rules = (Inr statuses, s')"
    "\<forall>r \<in> set (mem s). plain_rule r" "\<forall>r \<in> set rules. plain_rule r"
  shows "length statuses = length rules \<and>
    (if anyAddChange statuses
     then set (canonical_rules (mem s')) \<noteq> set (canonical_rules (mem s)) \<and>
       disk s' = mem s' \<and> canonical_rules (mem s') = mem s' \<and>
       mem s' = canonical_rules (merged_rules (canonical_rules (mem s)) rules)
     else s' = s \<and>
       set (canonical_rules (merged_rules (canonical_rules (mem s)) rules)) = set (canonical_rules (mem s)))"
proof -
  let ?before = "canonical_rules (mem s)"
  let ?merged = "merged_rules ?before rules"
  let ?after = "canonical_rules ?merged"
  let ?st = "(build_index RuleKey 0 ?before Map.empty, ?before)"
  note b = canonical_plain [OF assms(2)]
  note m = merged_plain [OF b(1) assms(3)]
  note a = canonical_plain [OF m]
  have eq: "rulesCanonicalEqual ?before ?after \<longleftrightarrow> set ?before = set ?after"
    by (rule rulesCanonicalEqual_set [OF b(2) a(2)])
  show ?thesis
  proof (cases "rulesCanonicalEqual ?before ?after")
    case True
    then have "statuses = replicate (length rules) addStatusUnchanged" "s' = s"
      using assms(1) by (auto simp: addRulesToStore_eq Let_def split: if_splits)
    then show ?thesis using True eq by simp
  next
    case False
    then have st: "statuses = snd (add_loop ?st (map NormalizeRule rules))"
      and s': "s' = \<lparr>mem = ?after, disk = ?after\<rparr>"
      using assms(1)
      by (auto simp: addRulesToStore_eq Let_def writeRules_def split: if_splits)
    have "anyAddChange statuses"
    proof (rule ccontr)
      assume "\<not> ?thesis"
      then have "?merged = ?before"
        using add_loop_unchanged [of ?st "map NormalizeRule rules"]
        by (simp add: st add_loop_upsert merged_rules_def)
      then show False using False b(3) equal_canonical_refl by simp
    qed
    then show ?thesis using False eq s' st a(3) by (auto simp: add_loop_length)
  qed
qed

definition empty_fw :: firewall where
  "empty_fw =
     \<lparr>rstore = \<lparr>mem = [], disk = []\<rparr>, running = False, envoy_rules = [], route_map = []\<rparr>"

lemma canonical_rules_Nil [simp]: "canonical_rules [] = []"
  by (simp add: canonical_rules_def NormalizeAndDedup_def resolveOpaquePortConflicts_def)

lemma sample_merged: "NormalizeRule sample_rule \<in> set (canonical_rules (merged_rules [] [sample_rule]))"
  using single_merge [of "[]" sample_rule] accepted_keepable [OF sample_rule_valid] sample_rule_plain
    sample_rule_ungrouped by simp

lemma sample_add:
  "addRulesToStore healthy \<lparr>mem = [], disk = []\<rparr> [sample_rule] =
     (Inr [addStatusAdded],
      \<lparr>mem = canonical_rules (merged_rules [] [sample_rule]),
       disk = canonical_rules (merged_rules [] [sample_rule])\<rparr>)"
proof -
  have "\<not> rulesCanonicalEqual [] (canonical_rules (merged_rules [] [sample_rule]))"
    using sample_merged by (auto simp: rulesCanonicalEqual_def)
  then show ?thesis
    by (simp add: addRulesToStore_eq healthy_def writeRules_def add_step_def Let_def)
qed

theorem add_rules_gate_witness:
  "addRulesToStore healthy \<lparr>mem = [], disk = []\<rparr> [sample_rule] =
     (Inr [addStatusAdded],
      \<lparr>mem = canonical_rules (merged_rules [] [sample_rule]),
       disk = canonical_rules (merged_rules [] [sample_rule])\<rparr>) \<and>
   set (canonical_rules (canonical_rules (merged_rules [] [sample_rule]))) \<noteq> {}"
  using add_rules_gate [OF sample_add] sample_rule_plain sample_add
  by (auto simp: anyAddChange_def)

text \<open>
  C15: an added rule takes effect. After a successful add of one accepted rule outside the
  opaque protocols to a store without two rules of one key, the canonical rule set holds the
  rule merged into the stored rule of its key, or the rule itself if the key is new, with the
  added action.
\<close>

theorem added_rule_effective:
  assumes "addRulesToStore io s [r] = (Inr statuses, s')" "\<forall>x \<in> set (mem s). plain_rule x"
    "distinct (map RuleKey (canonical_rules (mem s)))"
    "ValidateRule compiles r = None" "plain_rule r" "\<not> grouped (NormalizeRule r)"
  shows "(case last_with RuleKey (RuleKey (NormalizeRule r)) (canonical_rules (mem s)) of
            None \<Rightarrow> NormalizeRule r
          | Some y \<Rightarrow> MergeRule y (NormalizeRule r)) \<in> set (canonical_rules (mem s'))"
proof -
  let ?before = "canonical_rules (mem s)"
  let ?after = "canonical_rules (merged_rules ?before [r])"
  note b = canonical_plain [OF assms(2)]
  have x: "(case last_with RuleKey (RuleKey (NormalizeRule r)) ?before of
            None \<Rightarrow> NormalizeRule r | Some y \<Rightarrow> MergeRule y (NormalizeRule r)) \<in> set ?after"
    using single_merge [OF _ assms(3,5) accepted_keepable [OF assms(4)] assms(6)] b(1,4) by blast
  have pl: "\<forall>r' \<in> set [r]. plain_rule r'" using assms(5) by simp
  have m: "\<forall>x \<in> set (merged_rules ?before [r]). plain_rule x" by (rule merged_plain [OF b(1) pl])
  show ?thesis
  proof (cases "rulesCanonicalEqual ?before ?after")
    case True
    then have "s' = s" using assms(1) by (auto simp: addRulesToStore_eq Let_def split: if_splits)
    moreover have "set ?before = set ?after"
      using True rulesCanonicalEqual_set [OF b(2) canonical_plain(2) [OF m]] by simp
    ultimately show ?thesis using x by simp
  next
    case False
    then have "mem s' = ?after"
      using assms(1) by (auto simp: addRulesToStore_eq Let_def writeRules_def split: if_splits)
    then show ?thesis using x canonical_plain(3) [OF m] by simp
  qed
qed

theorem added_rule_effective_witness:
  "NormalizeRule sample_rule \<in>
     set (canonical_rules (canonical_rules (merged_rules [] [sample_rule])))"
  using added_rule_effective [OF sample_add, of "\<lambda>_. True"] sample_rule_plain sample_rule_ungrouped by simp

text \<open>
  C16: an add is all or nothing. If any rule of the request is invalid, the RPC fails with
  the position and error of every invalid rule and neither the store, the stack nor the routes
  change.
\<close>

theorem add_rejects_invalid:
  assumes "r \<in> set (EgressRulesFromProto req)" "ValidateRule compiles r \<noteq> None"
  shows "\<exists>es. FirewallAddRules compiles qc ports sio io fw req = (Inl [ErrRuleInvalid es], fw) \<and>
    {(i, d, e). (i, d, e) \<in> set es} =
      {(i, Dst (EgressRulesFromProto req ! i), e) |i e.
         i < length req \<and> ValidateRule compiles (EgressRulesFromProto req ! i) = Some e}"
proof -
  have len: "length (EgressRulesFromProto req) = length req" by (simp add: EgressRulesFromProto_def)
  have "set (invalid_rules compiles k rs) =
      {(k + i, Dst (rs ! i), e) |i e. i < length rs \<and> ValidateRule compiles (rs ! i) = Some e}" for k rs
  proof (induction rs arbitrary: k)
    case (Cons r rs)
    have "{(k + i, Dst ((r # rs) ! i), e) |i e. i < length (r # rs) \<and> ValidateRule compiles ((r # rs) ! i) = Some e} =
        {(k, Dst r, e) |e. ValidateRule compiles r = Some e} \<union>
        {(Suc k + i, Dst (rs ! i), e) |i e. i < length rs \<and> ValidateRule compiles (rs ! i) = Some e}"
      by (auto simp: less_Suc_eq_0_disj)
    then show ?case using Cons.IH [of "Suc k"] by (auto split: option.splits)
  qed simp
  note inv = this [of 0 "EgressRulesFromProto req"]
  obtain i e where "i < length (EgressRulesFromProto req)"
    "ValidateRule compiles (EgressRulesFromProto req ! i) = Some e"
    using assms by (auto simp: in_set_conv_nth)
  then have "invalid_rules compiles 0 (EgressRulesFromProto req) \<noteq> []" using inv by fastforce
  then show ?thesis using inv len by (auto simp: FirewallAddRules_def Let_def)
qed

definition bad_request :: "PbEgressRule list" where
  "bad_request =
     [\<lparr>PbDst = [], PbProto = [], PbPort = [], PbAction = [], PbPathRules = [], PbPathDefault = []\<rparr>]"

lemma bad_request_invalid: "ValidateRule (\<lambda>_. True) (hd (EgressRulesFromProto bad_request)) \<noteq> None"
  by (simp add: bad_request_def EgressRulesFromProto_def EgressRuleFromProto_def ValidateRule_def ValidateDst_def)

theorem add_rejects_invalid_witness:
  "snd (FirewallAddRules (\<lambda>_. True) False sample_ports healthy
     \<lparr>status_err = None, reload_err = None, sync_err = None\<rparr> empty_fw bad_request) = empty_fw"
proof -
  have "hd (EgressRulesFromProto bad_request) \<in> set (EgressRulesFromProto bad_request)"
    by (simp add: bad_request_def EgressRulesFromProto_def)
  from add_rejects_invalid [OF this bad_request_invalid] show ?thesis by (metis snd_conv)
qed

section \<open>Removal\<close>





lemma canonical_single:
  assumes "canonical_rule r" "\<not> grouped r"
  shows "canonical_rules [r] = [r]"
  using assms by (simp add: canonical_rules_def NormalizeAndDedup_rules kept_id resolve_rules slot_rules_def)




section \<open>Reconciling\<close>



text \<open>
  Theorem: a failed reload breaks the lockstep. When reloading the stack fails and the route sync
  succeeds, the RPC reports the reload error, Envoy keeps the configuration of the old rules, and
  the route table is already the one of the new rules.
\<close>

theorem failed_reload_desyncs_routes:
  assumes "status_err io = None" "running fw" "reload_err io = Some e" "sync_err io = None"
  shows "\<exists>fw'. reconcileStackClosure ports io fw = (Inl [ReloadFailed e], fw') \<and>
    envoy_rules fw' = envoy_rules fw \<and>
    route_map fw' = RoutesFromRules (canonical_rules (mem (rstore fw))) ports"
  using assms by (simp add: reconcileStackClosure_def routesFromStore_def canonical_rules_def)

theorem failed_reload_desyncs_routes_witness:
  "\<exists>fw'. reconcileStackClosure sample_ports
       \<lparr>status_err = None, reload_err = Some ''timeout'', sync_err = None\<rparr> (empty_fw\<lparr>running := True\<rparr>) =
     (Inl [ReloadFailed ''timeout''], fw')"
  using failed_reload_desyncs_routes [of "\<lparr>status_err = None, reload_err = Some ''timeout'', sync_err = None\<rparr>"
      "empty_fw\<lparr>running := True\<rparr>" "''timeout''" sample_ports]
  by auto

section \<open>A failed write\<close>

text \<open>
  Theorem: a rule whose write failed is not written by a retry. Adding a rule to an empty store
  while the file cannot be written fails, but leaves the rule in memory; repeating the request
  with a healthy store reports the rule as unchanged, skips the write and the reconcile, and the
  file still does not hold the rule.
\<close>

theorem failed_write_retry_not_persisted:
  assumes "ValidateRule compiles r = None" "plain_rule r" "PathRules r = []"
    "\<not> grouped (NormalizeRule r)"
  shows "\<exists>s. addRulesToStore (healthy\<lparr>write_fails := True\<rparr>) \<lparr>mem = [], disk = []\<rparr> [r] =
      (Inl WritingRules, s) \<and>
    addRulesToStore healthy s [r] = (Inr [addStatusUnchanged], s) \<and> disk s = []"
proof -
  let ?r = "NormalizeRule r"
  have c: "canonical_rules [?r] = [?r]"
    using accepted_keepable [OF assms(1)] assms(4)
    by (intro canonical_single) (auto simp: canonical_rule_def NormalizeRule_idem)
  have m0: "merged_rules [] [r] = [?r]" by (simp add: merged_rules_def upsert_def)
  have "MergeRule ?r ?r = ?r"
    using assms(3) by (simp add: MergeRule_def NormalizeRule_fields mergePathRules_def Let_def)
  then have m1: "merged_rules [?r] [r] = [?r]" by (simp add: merged_rules_def upsert_def)
  have ne: "\<not> rulesCanonicalEqual [] [?r]" by (simp add: rulesCanonicalEqual_def)
  have "addRulesToStore (healthy\<lparr>write_fails := True\<rparr>) \<lparr>mem = [], disk = []\<rparr> [r] =
      (Inl WritingRules, \<lparr>mem = [?r], disk = []\<rparr>)"
    using ne by (simp add: addRulesToStore_eq healthy_def writeRules_def m0 c Let_def)
  moreover have "addRulesToStore healthy \<lparr>mem = [?r], disk = []\<rparr> [r] =
      (Inr [addStatusUnchanged], \<lparr>mem = [?r], disk = []\<rparr>)"
    using equal_canonical_refl by (simp add: addRulesToStore_eq healthy_def m1 c Let_def)
  ultimately show ?thesis by auto
qed

definition bare_rule :: EgressRule where
  "bare_rule = sample_rule\<lparr>PathRules := []\<rparr>"

theorem failed_write_retry_not_persisted_witness:
  "\<exists>s. addRulesToStore (healthy\<lparr>write_fails := True\<rparr>) \<lparr>mem = [], disk = []\<rparr> [bare_rule] =
     (Inl WritingRules, s) \<and> disk s = []"
proof -
  have "ValidateRule (\<lambda>_. True) bare_rule = None"
    by (simp add: ValidateRule_def bare_rule_def sample_rule_def sample_rule_dst ValidatePortSpec_def
        validateActionField_def ToLower_def)
  moreover have "plain_rule bare_rule" "PathRules bare_rule = []"
    by (simp_all add: bare_rule_def plain_rule_def sample_rule_def)
  moreover have "\<not> grouped (NormalizeRule bare_rule)"
    by (simp add: grouped_def isOpaqueProto_def NormalizeRule_fields bare_rule_def sample_rule_def ascii_eval)
  ultimately show ?thesis using failed_write_retry_not_persisted [of "\<lambda>_. True" bare_rule] by blast
qed

end
