(* ===== verification/CoreDNS.thy ===== *)
theory CoreDNS
  imports Routes
begin

text \<open>
  DNS filtering: the Corefile generator of \<open>controlplane/firewall/coredns_config.go\<close> and the
  domain list the control plane derives from the same rules (\<open>resolvableDomains\<close> and its
  callers in \<open>handler.go\<close>).

  The generator is split into the zones it decides on, in the order it writes them, and their
  text. CoreDNS itself is not part of this repository: how it picks a zone for a query and what
  the plugins of that zone answer are arguments \<open>select\<close> and \<open>answer\<close> of the query
  decision, with the documented rules (longest matching zone; \<open>template\<close> with an rcode answers
  that rcode, \<open>forward\<close> sends the rest upstream) as named hypotheses.
\<close>

section \<open>Zones\<close>

datatype zone = AllowZone string "string list" bool | DenyZone string | CatchAll

definition upstreamDNS :: "string list" where
  "upstreamDNS = [''1.1.1.2'', ''1.0.0.2'']"

definition MonitoringServiceHostnames :: "string list" where
  "MonitoringServiceHostnames = [''otel-collector'', ''prometheus'']"

definition internalHosts :: "string list" where
  "internalHosts = [''docker.internal''] @ MonitoringServiceHostnames"

text \<open>The first pass: the wildcard set and the denied domains, in order of first occurrence.\<close>

fun deny_pass :: "string list \<Rightarrow> EgressRule list \<Rightarrow> string list" where
  "deny_pass denySeen [] = []"
| "deny_pass denySeen (r # rs) =
     (let domain = normalizeDomain (Dst r) in
      if isIPOrCIDR (Dst r) then deny_pass denySeen rs
      else if domain \<in> set internalHosts then deny_pass denySeen rs
      else if isDenyRule r then
        (if domain \<in> set denySeen then deny_pass denySeen rs
         else domain # deny_pass (domain # denySeen) rs)
      else deny_pass denySeen rs)"

definition wildcard_domain :: "EgressRule list \<Rightarrow> string \<Rightarrow> bool" where
  "wildcard_domain rules domain \<longleftrightarrow>
     list_ex (\<lambda>r. \<not> isIPOrCIDR (Dst r) \<and> normalizeDomain (Dst r) = domain \<and>
       normalizeDomain (Dst r) \<notin> set internalHosts \<and>
       \<not> isDenyRule r \<and> isAllowDomain r \<and> isWildcardDomain (Dst r)) rules"

fun allow_pass :: "string list \<Rightarrow> string list \<Rightarrow> EgressRule list \<Rightarrow> string list" where
  "allow_pass denied emitted [] = []"
| "allow_pass denied emitted (r # rs) =
     (let domain = normalizeDomain (Dst r) in
      if \<not> isAllowDomain r then allow_pass denied emitted rs
      else if domain \<in> set internalHosts \<or> domain \<in> set emitted \<or> domain \<in> set denied
      then allow_pass denied emitted rs
      else domain # allow_pass denied (domain # emitted) rs)"

definition corefile_zones :: "EgressRule list \<Rightarrow> zone list" where
  "corefile_zones rules =
     (let denyDomains = deny_pass [] rules; allowDomains = allow_pass denyDomains [] rules
      in map (\<lambda>d. AllowZone d upstreamDNS (\<not> wildcard_domain rules d)) allowDomains @
         map DenyZone denyDomains @
         map (\<lambda>h. AllowZone h [''127.0.0.11''] False) internalHosts @
         [CatchAll])"

section \<open>Text\<close>

definition nl :: string where "nl = [CHR 0x0A]"
definition quoted :: "string \<Rightarrow> string" where "quoted s = CHR 0x22 # s @ [CHR 0x22]"

definition corefileLogFormat :: string where
  "corefileLogFormat =
     ''source=coredns client_ip={remote} domain={name} qtype={type} rcode={rcode} duration={duration}''"

definition subdomainRegex :: "string \<Rightarrow> string" where
  "subdomainRegex domain = ''[.]'' @ replace_byte (CHR ''.'') ''[.]'' domain @ ''[.]$''"

definition writeAllowZone :: "string \<Rightarrow> string list \<Rightarrow> bool \<Rightarrow> string" where
  "writeAllowZone domain upstreams exactOnly =
     domain @ '' {'' @ nl @
     ''    otel'' @ nl @
     ''    log . '' @ quoted corefileLogFormat @ nl @
     (if exactOnly then
        ''    template IN ANY . {'' @ nl @
        ''        match '' @ quoted (subdomainRegex domain) @ nl @
        ''        rcode NXDOMAIN'' @ nl @
        ''        fallthrough'' @ nl @
        ''    }'' @ nl
      else []) @
     ''    template IN AAAA . {'' @ nl @
     ''        rcode NOERROR'' @ nl @
     ''    }'' @ nl @
     ''    dnsbpf'' @ nl @
     ''    forward . '' @ Join upstreams '' '' @ nl @
     ''}'' @ nl @ nl"

definition writeDenyZone :: "string \<Rightarrow> string" where
  "writeDenyZone domain =
     domain @ '' {'' @ nl @
     ''    otel'' @ nl @
     ''    log . '' @ quoted corefileLogFormat @ nl @
     ''    template IN ANY . {'' @ nl @
     ''        rcode NXDOMAIN'' @ nl @
     ''    }'' @ nl @
     ''}'' @ nl @ nl"

fun write_zone :: "int \<Rightarrow> zone \<Rightarrow> string" where
  "write_zone healthPort (AllowZone d ups exactOnly) = writeAllowZone d ups exactOnly"
| "write_zone healthPort (DenyZone d) = writeDenyZone d"
| "write_zone healthPort CatchAll =
     ''. {'' @ nl @
     ''    otel'' @ nl @
     ''    log . '' @ quoted corefileLogFormat @ nl @
     ''    template IN ANY . {'' @ nl @
     ''        rcode NXDOMAIN'' @ nl @
     ''    }'' @ nl @
     ''    health :'' @ Itoa healthPort @ nl @
     ''    reload 2s'' @ nl @
     ''}'' @ nl"

definition GenerateCorefile :: "EgressRule list \<Rightarrow> int \<Rightarrow> string" where
  "GenerateCorefile rules healthPort = concat (map (write_zone healthPort) (corefile_zones rules))"

section \<open>Resolvable domains\<close>

definition reservedHosts :: "string list" where
  "reservedHosts = [''docker.internal''] @ MonitoringServiceHostnames"

definition resolvableDomains :: "EgressRule list \<Rightarrow> string list" where
  "resolvableDomains rules =
     reservedHosts @
     dedup_by id (rev reservedHosts) (map (\<lambda>r. normalizeDomain (Dst r)) (filter isAllowDomain rules))"

definition AllResolvableDomains :: "EgressRule list option \<Rightarrow> string list" where
  "AllResolvableDomains store =
     (case store of
        None \<Rightarrow> reservedHosts
      | Some stored \<Rightarrow> resolvableDomains (fst (NormalizeAndDedup stored)))"

definition ReverseDNSDomains :: "EgressRule list option \<Rightarrow> EnvoyPorts \<Rightarrow> string list" where
  "ReverseDNSDomains store ports =
     (case store of
        None \<Rightarrow> reservedHosts
      | Some stored \<Rightarrow>
          (let rules = fst (NormalizeAndDedup stored)
           in resolvableDomains rules @ SeedDomainsFromRules rules ports))"

section \<open>Lemmas on the passes\<close>

lemma deny_pass_props:
  "distinct (deny_pass seen rs)" "set (deny_pass seen rs) \<inter> set seen = {}"
  "set (deny_pass seen rs) \<inter> set internalHosts = {}"
proof -
  have "distinct (deny_pass seen rs) \<and> set (deny_pass seen rs) \<inter> set seen = {} \<and>
      set (deny_pass seen rs) \<inter> set internalHosts = {}"
    by (induction seen rs rule: deny_pass.induct) (auto simp: Let_def)
  then show "distinct (deny_pass seen rs)" "set (deny_pass seen rs) \<inter> set seen = {}"
    "set (deny_pass seen rs) \<inter> set internalHosts = {}" by auto
qed

lemma set_deny_pass:
  "set (deny_pass seen rs) =
     {normalizeDomain (Dst r) |r. r \<in> set rs \<and> isDenyRule r \<and> normalizeDomain (Dst r) \<notin> set internalHosts} - set seen"
proof (induction seen rs rule: deny_pass.induct)
  case (2 seen r rs)
  have "isDenyRule r \<Longrightarrow> \<not> isIPOrCIDR (Dst r)" by (simp add: isDenyRule_def)
  then show ?case using 2 by (auto simp: Let_def)
qed simp

lemma allow_pass_props:
  "distinct (allow_pass denied emitted rs) \<and> set (allow_pass denied emitted rs) \<inter> set emitted = {}"
  by (induction denied emitted rs rule: allow_pass.induct) (auto simp: Let_def)

lemma set_allow_pass:
  "set (allow_pass denied emitted rs) =
     {normalizeDomain (Dst r) |r. r \<in> set rs \<and> isAllowDomain r} -
       (set internalHosts \<union> set emitted \<union> set denied)"
  by (induction denied emitted rs rule: allow_pass.induct) (auto simp: Let_def)

lemma internalHosts_distinct: "distinct internalHosts"
  by (simp add: internalHosts_def MonitoringServiceHostnames_def)

lemma internalHosts_no_root: "''.'' \<notin> set internalHosts"
  by (simp add: internalHosts_def MonitoringServiceHostnames_def)

fun zone_name :: "zone \<Rightarrow> string" where
  "zone_name (AllowZone d ups e) = d"
| "zone_name (DenyZone d) = d"
| "zone_name CatchAll = ''.''"

lemma corefile_names:
  "map zone_name (corefile_zones rules) =
     allow_pass (deny_pass [] rules) [] rules @ deny_pass [] rules @ internalHosts @ [''.'']"
  by (simp add: corefile_zones_def Let_def comp_def)

section \<open>Query decisions\<close>

datatype dns_verdict = NXDOMAIN | Forward "string list"

definition covers :: "string \<Rightarrow> string \<Rightarrow> bool" where
  "covers d q \<longleftrightarrow> d = ''.'' \<or> q = d \<or> HasSuffix q (CHR ''.'' # d)"

definition zone_length :: "zone \<Rightarrow> nat" where
  "zone_length z = (case z of CatchAll \<Rightarrow> 0 | _ \<Rightarrow> length (zone_name z))"

definition longest_zone :: "(zone list \<Rightarrow> string \<Rightarrow> zone) \<Rightarrow> bool" where
  "longest_zone select \<longleftrightarrow>
     (\<forall>zs q. CatchAll \<in> set zs \<longrightarrow>
        select zs q \<in> set zs \<and> covers (zone_name (select zs q)) q \<and>
        (\<forall>z \<in> set zs. covers (zone_name z) q \<longrightarrow> zone_length z \<le> zone_length (select zs q)))"

text \<open>What the plugins of a zone answer to an address query for a name the zone covers.\<close>

definition plugin_answers :: "(zone \<Rightarrow> string \<Rightarrow> dns_verdict) \<Rightarrow> bool" where
  "plugin_answers answer \<longleftrightarrow>
     (\<forall>q. answer CatchAll q = NXDOMAIN) \<and>
     (\<forall>d q. covers d q \<longrightarrow> answer (DenyZone d) q = NXDOMAIN) \<and>
     (\<forall>d ups q. covers d q \<longrightarrow> answer (AllowZone d ups False) q = Forward ups) \<and>
     (\<forall>d ups q. covers d q \<longrightarrow>
        answer (AllowZone d ups True) q = (if q = d then Forward ups else NXDOMAIN))"

definition dns_decision ::
    "(zone list \<Rightarrow> string \<Rightarrow> zone) \<Rightarrow> (zone \<Rightarrow> string \<Rightarrow> dns_verdict) \<Rightarrow>
     EgressRule list \<Rightarrow> string \<Rightarrow> dns_verdict" where
  "dns_decision select answer rules q = answer (select (corefile_zones rules) q) q"

lemma catch_all_in: "CatchAll \<in> set (corefile_zones rules)"
  by (simp add: corefile_zones_def Let_def)

lemma select_props:
  assumes "longest_zone select"
  shows "select (corefile_zones rules) q \<in> set (corefile_zones rules)"
    "covers (zone_name (select (corefile_zones rules) q)) q"
    "\<forall>z \<in> set (corefile_zones rules). covers (zone_name z) q \<longrightarrow>
      zone_length z \<le> zone_length (select (corefile_zones rules) q)"
  using assms catch_all_in [of rules] unfolding longest_zone_def by blast+

lemma plugin_answer:
  assumes "plugin_answers answer" "covers (zone_name z) q"
  shows "answer z q = (case z of AllowZone d ups exactOnly \<Rightarrow> if exactOnly \<and> q \<noteq> d then NXDOMAIN else Forward ups
      | _ \<Rightarrow> NXDOMAIN)"
proof (cases z)
  case (AllowZone d ups e)
  then show ?thesis using assms by (cases e) (simp_all add: plugin_answers_def)
qed (use assms in \<open>simp_all add: plugin_answers_def\<close>)

lemma corefile_zone_cases:
  assumes "z \<in> set (corefile_zones rules)"
  obtains (allow) r where "z = AllowZone (normalizeDomain (Dst r)) upstreamDNS
        (\<not> wildcard_domain rules (normalizeDomain (Dst r)))"
      "r \<in> set rules" "isAllowDomain r" "normalizeDomain (Dst r) \<notin> set (deny_pass [] rules)"
  | (deny) d where "z = DenyZone d" "d \<in> set (deny_pass [] rules)"
  | (internal) h where "z = AllowZone h [''127.0.0.11''] False" "h \<in> set internalHosts"
  | (catch) "z = CatchAll"
proof -
  have "(\<exists>d \<in> set (allow_pass (deny_pass [] rules) [] rules).
        z = AllowZone d upstreamDNS (\<not> wildcard_domain rules d)) \<or>
      (\<exists>d \<in> set (deny_pass [] rules). z = DenyZone d) \<or>
      (\<exists>h \<in> set internalHosts. z = AllowZone h [''127.0.0.11''] False) \<or> z = CatchAll"
    using assms by (auto simp: corefile_zones_def Let_def)
  then show thesis using allow deny internal catch unfolding set_allow_pass by blast
qed

lemma covers_same_length:
  assumes "covers d q" "covers e q" "length d = length e" "d \<noteq> ''.''" "e \<noteq> ''.''"
  shows "d = e"
  using assms by (auto simp: covers_def HasSuffix_append)

lemma root_not_valid: "normalizeDomain dst = ''.'' \<Longrightarrow> ValidateDst dst \<noteq> None"
proof -
  assume n: "normalizeDomain dst = ''.''"
  have i: "\<not> isIPOrCIDR ''.''" by code_simp
  have "dst \<noteq> []"
    using n by (auto simp: normalizeDomain_def TrimPrefix_def TrimSuffix_def HasPrefix_def HasSuffix_def)
  then show ?thesis using n i by (simp add: ValidateDst_def Let_def char_eval)
qed

text \<open>A zone choice and plugin answers with the documented behaviour.\<close>

fun pick_zone :: "zone list \<Rightarrow> string \<Rightarrow> zone" where
  "pick_zone [] q = CatchAll"
| "pick_zone (z # zs) q =
     (if covers (zone_name z) q \<and> zone_length (pick_zone zs q) \<le> zone_length z then z else pick_zone zs q)"

lemma covers_root: "covers ''.'' q"
  by (simp add: covers_def)

fun answer_zone :: "zone \<Rightarrow> string \<Rightarrow> dns_verdict" where
  "answer_zone (AllowZone d ups exactOnly) q = (if exactOnly \<and> q \<noteq> d then NXDOMAIN else Forward ups)"
| "answer_zone (DenyZone d) q = NXDOMAIN"
| "answer_zone CatchAll q = NXDOMAIN"

lemma pick_zone_props:
  "pick_zone zs q \<in> set (CatchAll # zs) \<and> covers (zone_name (pick_zone zs q)) q \<and>
   (\<forall>z \<in> set zs. covers (zone_name z) q \<longrightarrow> zone_length z \<le> zone_length (pick_zone zs q))"
proof (induction zs)
  case Nil
  then show ?case by (simp add: covers_root)
next
  case (Cons z zs)
  show ?case
  proof (cases "covers (zone_name z) q \<and> zone_length (pick_zone zs q) \<le> zone_length z")
    case True
    then have "pick_zone (z # zs) q = z" by simp
    then show ?thesis using True Cons by (simp del: pick_zone.simps) (meson order_trans)
  next
    case False
    then have "pick_zone (z # zs) q = pick_zone zs q" by (simp only: pick_zone.simps if_False)
    then show ?thesis using False Cons by (simp del: pick_zone.simps) (meson nle_le)
  qed
qed

lemma pick_zone_longest: "longest_zone pick_zone"
  unfolding longest_zone_def
proof (intro allI impI)
  fix zs :: "zone list" and q assume "CatchAll \<in> set zs"
  then show "pick_zone zs q \<in> set zs \<and> covers (zone_name (pick_zone zs q)) q \<and>
      (\<forall>z \<in> set zs. covers (zone_name z) q \<longrightarrow> zone_length z \<le> zone_length (pick_zone zs q))"
    using pick_zone_props [of zs q] by auto
qed

lemma answer_zone_plugins: "plugin_answers answer_zone"
  by (simp add: plugin_answers_def)

definition domain_rule :: "string \<Rightarrow> string \<Rightarrow> EgressRule" where
  "domain_rule action d =
     \<lparr>Dst = d, Proto = ''https'', Port = [], Action = action, PathRules = [],
      PathDefault = [], InsecureSkipTLSVerify = False\<rparr>"

definition sample_dns_rules :: "EgressRule list" where
  "sample_dns_rules =
     [domain_rule ''allow'' ''.example.com'', domain_rule ''deny'' ''ads.example.com'',
      domain_rule ''allow'' ''api.example.com'']"

lemma sample_dns_domains:
  "\<not> isIPOrCIDR ''.example.com''" "\<not> isIPOrCIDR ''ads.example.com''" "\<not> isIPOrCIDR ''api.example.com''"
  by code_simp+

lemma sample_dns_valid:
  "ValidateDst ''.example.com'' = None" "ValidateDst ''ads.example.com'' = None"
  "ValidateDst ''api.example.com'' = None"
  by code_simp+

lemma sample_dns_normal:
  "normalizeDomain ''.example.com'' = ''example.com''" "normalizeDomain ''ads.example.com'' = ''ads.example.com''"
  "normalizeDomain ''api.example.com'' = ''api.example.com''"
  by code_simp+

lemma sample_dns_actions: "ToLower ''allow'' = ''allow''" "EqualFold ''deny'' ''deny''" "\<not> EqualFold ''allow'' ''deny''"
  "ToLower ''deny'' = ''deny''"
  by code_simp+

lemmas sample_dns_simps =
  sample_dns_rules_def domain_rule_def sample_dns_domains sample_dns_normal sample_dns_actions
  isAllowDomain_def isDenyRule_def isWildcardDomain_def internalHosts_def MonitoringServiceHostnames_def

lemma sample_dns_zones:
  "corefile_zones sample_dns_rules =
     [AllowZone ''example.com'' upstreamDNS False, AllowZone ''api.example.com'' upstreamDNS True,
      DenyZone ''ads.example.com'', AllowZone ''docker.internal'' [''127.0.0.11''] False,
      AllowZone ''otel-collector'' [''127.0.0.11''] False, AllowZone ''prometheus'' [''127.0.0.11''] False,
      CatchAll]"
  by (simp add: corefile_zones_def Let_def wildcard_domain_def sample_dns_simps HasPrefix_def)

section \<open>Properties\<close>

text \<open>
  Theorem: the generated Corefile never defines a zone twice. On rules with valid destinations,
  the allow, deny, internal and catch-all zones have pairwise different names, so a duplicate
  zone definition cannot stop CoreDNS from starting.
\<close>

theorem corefile_zones_distinct:
  assumes "\<forall>r \<in> set rules. ValidateDst (Dst r) = None"
  shows "distinct (map zone_name (corefile_zones rules))"
proof -
  have root: "\<forall>r \<in> set rules. normalizeDomain (Dst r) \<noteq> ''.''" using assms root_not_valid by blast
  let ?deny = "deny_pass [] rules"
  have "''.'' \<notin> set (allow_pass ?deny [] rules)" "''.'' \<notin> set ?deny"
    using root unfolding set_allow_pass set_deny_pass mem_Collect_eq Diff_iff by metis+
  moreover have "set (allow_pass ?deny [] rules) \<inter> set ?deny = {}"
    "set (allow_pass ?deny [] rules) \<inter> set internalHosts = {}"
    by (auto simp: set_allow_pass)
  ultimately show ?thesis
    unfolding corefile_names
    using allow_pass_props [of ?deny "[]" rules] deny_pass_props [of "[]" rules] internalHosts_distinct
      internalHosts_no_root
    by auto
qed

theorem corefile_zones_distinct_witness:
  "distinct (map zone_name (corefile_zones sample_dns_rules))"
  by (rule corefile_zones_distinct) (simp add: sample_dns_rules_def domain_rule_def sample_dns_valid)

text \<open>
  C21: DNS answers only for authorised names. If a query is forwarded at all, then either to
  the public resolvers and some allow rule names the queried domain exactly, or names a domain
  above it with a wildcard, or to Docker's resolver for a name under one of the internal hosts.
\<close>

theorem dns_forwards_only_authorised:
  assumes "longest_zone select" "plugin_answers answer" "dns_decision select answer rules q = Forward ups"
  shows "ups = upstreamDNS \<and>
      (\<exists>r \<in> set rules. isAllowDomain r \<and>
         (q = normalizeDomain (Dst r) \<or>
          isWildcardDomain (Dst r) \<and> covers (normalizeDomain (Dst r)) q)) \<or>
    ups = [''127.0.0.11''] \<and> (\<exists>h \<in> set internalHosts. covers h q)"
proof -
  let ?z = "select (corefile_zones rules) q"
  note sel = select_props [OF assms(1), where rules = rules and q = q]
  note v = assms(3) [unfolded dns_decision_def plugin_answer [OF assms(2) sel(2)]]
  show ?thesis
  proof (cases rule: corefile_zone_cases [OF sel(1)])
    case (1 r)
    show ?thesis
    proof (cases "wildcard_domain rules (normalizeDomain (Dst r))")
      case True
      then obtain r' where r': "r' \<in> set rules" "normalizeDomain (Dst r') = normalizeDomain (Dst r)"
          "isAllowDomain r'" "isWildcardDomain (Dst r')"
        unfolding wildcard_domain_def list_ex_iff by blast
      have "covers (normalizeDomain (Dst r)) q" using sel(2) 1 by simp
      moreover have "ups = upstreamDNS" using v 1 by (simp split: if_splits)
      ultimately show ?thesis using r' by metis
    next
      case False
      then have "ups = upstreamDNS" "q = normalizeDomain (Dst r)" using v 1 by (simp_all split: if_splits)
      then show ?thesis using 1 by blast
    qed
  next
    case (2 d)
    then show ?thesis using v by simp
  next
    case (3 h)
    then have "covers h q" "ups = [''127.0.0.11'']" using v sel(2) by (simp_all)
    then show ?thesis using 3 by blast
  next
    case 4
    then show ?thesis using v by simp
  qed
qed

theorem dns_forwards_only_authorised_witness:
  "dns_decision pick_zone answer_zone sample_dns_rules ''cdn.example.com'' = Forward upstreamDNS \<and>
   (upstreamDNS = upstreamDNS \<and>
      (\<exists>r \<in> set sample_dns_rules. isAllowDomain r \<and>
         (''cdn.example.com'' = normalizeDomain (Dst r) \<or>
          isWildcardDomain (Dst r) \<and> covers (normalizeDomain (Dst r)) ''cdn.example.com'')) \<or>
    upstreamDNS = [''127.0.0.11''] \<and> (\<exists>h \<in> set internalHosts. covers h ''cdn.example.com''))"
proof -
  have "dns_decision pick_zone answer_zone sample_dns_rules ''cdn.example.com'' = Forward upstreamDNS"
    by (simp add: dns_decision_def sample_dns_zones covers_def zone_length_def HasSuffix_def HasPrefix_def)
  then show ?thesis
    using dns_forwards_only_authorised [OF pick_zone_longest answer_zone_plugins] by blast
qed

text \<open>
  Theorem: a deny rule beats every broader allow. A query for a denied domain or a name below it
  gets NXDOMAIN, unless an allow rule or an internal host names a longer domain that covers
  the query.
\<close>

theorem dns_deny_beats_broader_allow:
  assumes "longest_zone select" "plugin_answers answer"
    "r \<in> set rules" "isDenyRule r" "d = normalizeDomain (Dst r)"
    "d \<notin> set internalHosts" "d \<noteq> ''.''" "covers d q"
    "list_all (\<lambda>e. covers e q \<longrightarrow> e \<noteq> ''.'' \<and> length e \<le> length d)
       (internalHosts @ map (\<lambda>r'. normalizeDomain (Dst r')) (filter isAllowDomain rules))"
  shows "dns_decision select answer rules q = NXDOMAIN"
proof -
  let ?z = "select (corefile_zones rules) q"
  note sel = select_props [OF assms(1), where rules = rules and q = q]
  have dp: "d \<in> set (deny_pass [] rules)" using assms(3-6) unfolding set_deny_pass by auto
  then have "DenyZone d \<in> set (corefile_zones rules)" by (simp add: corefile_zones_def Let_def)
  with sel(3) assms(8) have len: "length d \<le> zone_length ?z" by (fastforce simp: zone_length_def)
  have same: "e = d"
    if "e \<in> set (internalHosts @ map (\<lambda>r'. normalizeDomain (Dst r')) (filter isAllowDomain rules))"
      "zone_name ?z = e" "zone_length ?z = length e" for e
  proof -
    have "covers e q" using sel(2) that(2) by simp
    then have "e \<noteq> ''.''" "length e \<le> length d" using assms(9) that(1) unfolding list_all_iff by blast+
    then show "e = d" using covers_same_length [of e q d] \<open>covers e q\<close> assms(7,8) len that(3) by simp
  qed
  have "case ?z of AllowZone _ _ _ \<Rightarrow> False | _ \<Rightarrow> True"
  proof (cases rule: corefile_zone_cases [OF sel(1)])
    case (1 r')
    then have "normalizeDomain (Dst r') = d" using same [of "normalizeDomain (Dst r')"] by (simp add: zone_length_def)
    then show ?thesis using 1 dp by simp
  next
    case (3 h)
    then have "h = d" using same [of h] by (simp add: zone_length_def)
    then show ?thesis using 3 assms(6) by simp
  qed simp_all
  then show ?thesis
    unfolding dns_decision_def plugin_answer [OF assms(2) sel(2)] by (simp split: zone.splits)
qed

theorem dns_deny_beats_broader_allow_witness:
  "dns_decision pick_zone answer_zone sample_dns_rules ''x.ads.example.com'' = NXDOMAIN"
proof (rule dns_deny_beats_broader_allow [OF pick_zone_longest answer_zone_plugins,
      where r = "domain_rule ''deny'' ''ads.example.com''" and d = "''ads.example.com''"])
  show "list_all (\<lambda>e. covers e ''x.ads.example.com'' \<longrightarrow> e \<noteq> ''.'' \<and> length e \<le> length ''ads.example.com'')
     (internalHosts @ map (\<lambda>r'. normalizeDomain (Dst r')) (filter isAllowDomain sample_dns_rules))"
    by (simp add: sample_dns_simps covers_def HasSuffix_def HasPrefix_def)
qed (simp_all add: sample_dns_simps covers_def HasSuffix_def HasPrefix_def)

text \<open>
  Theorem: an exact allow rule narrows a wildcard above it. With the rules \<open>.example.com\<close> and
  \<open>api.example.com\<close> both allowed, the zone of the exact rule answers NXDOMAIN for every other
  name below \<open>api.example.com\<close>, although the wildcard rule alone would forward it.
\<close>

theorem nested_exact_narrows_wildcard:
  "dns_decision pick_zone answer_zone [domain_rule ''allow'' ''.example.com''] ''v1.api.example.com'' =
     Forward upstreamDNS \<and>
   dns_decision pick_zone answer_zone
     [domain_rule ''allow'' ''.example.com'', domain_rule ''allow'' ''api.example.com'']
     ''v1.api.example.com'' = NXDOMAIN"
  by (simp add: dns_decision_def corefile_zones_def Let_def wildcard_domain_def sample_dns_simps
    covers_def zone_length_def HasSuffix_def HasPrefix_def)

text \<open>
  Theorem: the reverse-DNS domain list is wider than the zones. It holds each domain once, and
  beyond the domains with a forward zone it holds exactly the domains that some rule allows and
  another denies, for which the Corefile has a deny zone only.
\<close>

theorem resolvable_exceeds_forward_zones:
  "distinct (resolvableDomains rules) \<and>
   set (resolvableDomains rules) - {d. \<exists>ups e. AllowZone d ups e \<in> set (corefile_zones rules)} =
   {normalizeDomain (Dst r) |r. r \<in> set rules \<and> isAllowDomain r} \<inter> set (deny_pass [] rules)"
proof -
  let ?A = "{normalizeDomain (Dst r) |r. r \<in> set rules \<and> isAllowDomain r}"
  have rh: "reservedHosts = internalHosts" by (simp add: reservedHosts_def internalHosts_def)
  let ?ds = "dedup_by id (rev reservedHosts) (map (\<lambda>r. normalizeDomain (Dst r)) (filter isAllowDomain rules))"
  have ds: "set ?ds = ?A - set internalHosts"
    using dedup_by_keys [of id "rev reservedHosts"] by (auto simp: rh)
  have "distinct ?ds" using dedup_by_distinct [of id "rev reservedHosts"] by simp
  then have d: "distinct (resolvableDomains rules)"
    using ds internalHosts_distinct by (auto simp: resolvableDomains_def rh)
  have "{d. \<exists>ups e. AllowZone d ups e \<in> set (corefile_zones rules)} =
      set (allow_pass (deny_pass [] rules) [] rules) \<union> set internalHosts"
    unfolding corefile_zones_def Let_def set_append set_map image_def by auto
  then have z: "{d. \<exists>ups e. AllowZone d ups e \<in> set (corefile_zones rules)} =
      (?A - (set internalHosts \<union> set [] \<union> set (deny_pass [] rules))) \<union> set internalHosts"
    unfolding set_allow_pass .
  have "set (resolvableDomains rules) = set internalHosts \<union> (?A - set internalHosts)"
    unfolding resolvableDomains_def set_append ds [unfolded rh] rh ..
  moreover have "(set internalHosts \<union> (?A - set internalHosts)) -
      ((?A - (set internalHosts \<union> set [] \<union> D)) \<union> set internalHosts) = ?A \<inter> D"
    if "D \<inter> set internalHosts = {}" for D using that unfolding set_eq_iff list.set by auto
  ultimately show ?thesis using d deny_pass_props(3) [of "[]" rules] unfolding z by simp
qed

end
