(* ===== verification/Ebpf_Manager.thy ===== *)
theory Ebpf_Manager
  imports Routes "HOL-Library.AList"
begin

text \<open>
  The eBPF manager of \<open>controlplane/firewall/ebpf/manager.go\<close>: enrolment of a container's cgroup
  (\<open>Install\<close>, \<open>Remove\<close>), the bypass flag (\<open>Enable\<close>, \<open>Disable\<close>), the global route map
  (\<open>SyncRoutes\<close>) with its seeded DNS cache entries, DNS garbage collection and the start-up and
  drain passes, with the escalation counter of \<open>dns_gc.go\<close>.

  The BPF maps, the cgroup links and the pin directory belong to the kernel. They are arguments:
  a record \<open>kernel\<close> of calls on a kernel state \<open>'w\<close>, one handle per map. \<open>bpf_laws\<close> states
  what the map calls document (what each return value says of the map's contents) and
  \<open>kernel_ok\<close> adds that a call on one map or link leaves the other maps alone. Calls may fail at
  any time. The manager's maps are open, as they are after \<open>Load\<close>; the clock is read once per
  call. Errors keep the failing map and cause, not the printed key.
\<close>

section \<open>Kernel interface\<close>

datatype map_err = ErrKeyNotExist | ErrKeyExist | MapErr string

record ('w, 'k, 'v) bpf_map =
  Entries :: "'w \<Rightarrow> 'k \<Rightarrow> 'v option"
  Lookup :: "'w \<Rightarrow> 'k \<Rightarrow> map_err + 'v"
  Update :: "'w \<Rightarrow> 'k \<Rightarrow> 'v \<Rightarrow> map_err option \<times> 'w"
  UpdateNoExist :: "'w \<Rightarrow> 'k \<Rightarrow> 'v \<Rightarrow> map_err option \<times> 'w"
  MDelete :: "'w \<Rightarrow> 'k \<Rightarrow> map_err option \<times> 'w"
  Iterate :: "'w \<Rightarrow> ('k \<times> 'v) list \<times> map_err option"

definition bpf_laws :: "('w, 'k, 'v) bpf_map \<Rightarrow> bool" where
  "bpf_laws h \<longleftrightarrow>
     (\<forall>w k v e w'. Update h w k v = (e, w') \<longrightarrow>
        Entries h w' = (if e = None then (Entries h w)(k \<mapsto> v) else Entries h w)) \<and>
     (\<forall>w k v e w'. UpdateNoExist h w k v = (e, w') \<longrightarrow>
        Entries h w' = (if e = None then (Entries h w)(k \<mapsto> v) else Entries h w) \<and>
        (e = None \<longrightarrow> Entries h w k = None) \<and> (e = Some ErrKeyExist \<longrightarrow> Entries h w k \<noteq> None)) \<and>
     (\<forall>w k e w'. MDelete h w k = (e, w') \<longrightarrow>
        Entries h w' =
          (if e = None \<or> e = Some ErrKeyNotExist then (Entries h w)(k := None) else Entries h w)) \<and>
     (\<forall>w kvs e. Iterate h w = (kvs, e) \<longrightarrow>
        (\<forall>(k, v) \<in> set kvs. Entries h w k = Some v) \<and>
        (e = None \<longrightarrow> (\<forall>k v. Entries h w k = Some v \<longrightarrow> (k, v) \<in> set kvs))) \<and>
     (\<forall>w k v. Lookup h w k = Inr v \<longrightarrow> Entries h w k = Some v) \<and>
     (\<forall>w k. Lookup h w k = Inl ErrKeyNotExist \<longrightarrow> Entries h w k = None)"

text \<open>Calls through one handle leave the contents behind another alone.\<close>

definition apart :: "('w, 'k, 'v) bpf_map \<Rightarrow> ('w, 'j, 'u) bpf_map \<Rightarrow> bool" where
  "apart h g \<longleftrightarrow>
     (\<forall>w k v. Entries g (snd (Update h w k v)) = Entries g w) \<and>
     (\<forall>w k v. Entries g (snd (UpdateNoExist h w k v)) = Entries g w) \<and>
     (\<forall>w k. Entries g (snd (MDelete h w k)) = Entries g w)"

record ContainerConfig =
  EnvoyIp :: "32 word"
  CorednsIp :: "32 word"
  GatewayIp :: "32 word"
  NetAddr :: "32 word"
  NetMask :: "32 word"
  HostProxyIp :: "32 word"
  HostProxyPort :: "16 word"
  CEgressPort :: "16 word"

record RouteKey =
  KDomainHash :: "32 word"
  KDstPort :: "16 word"
  KL4Proto :: "8 word"

record DnsEntry =
  EDomainHash :: "32 word"
  ExpireTs :: "32 word"

type_synonym cgroup_id = "64 word"

record 'w kernel =
  ContainerMap :: "('w, cgroup_id, ContainerConfig) bpf_map"
  BypassMap :: "('w, cgroup_id, 8 word) bpf_map"
  RouteMap :: "('w, RouteKey, 16 word) bpf_map"
  DnsCache :: "('w, 32 word, DnsEntry) bpf_map"
  RatelimitState :: "('w, cgroup_id, 8 word list) bpf_map"
  UdpFlowMap :: "('w, 8 word list, 8 word list) bpf_map"
  RatelimitDrops :: "('w, cgroup_id, 64 word) bpf_map"
  AttachCgroup :: "'w \<Rightarrow> string \<Rightarrow> string \<Rightarrow> string option \<times> 'w"
  CloseLink :: "'w \<Rightarrow> cgroup_id \<Rightarrow> string \<Rightarrow> 'w"
  PinLink :: "'w \<Rightarrow> string \<Rightarrow> string option \<times> 'w"
  OsRemove :: "'w \<Rightarrow> string \<Rightarrow> 'w"
  UnpinLink :: "'w \<Rightarrow> string \<Rightarrow> 'w option"
  ReadPinDir :: "'w \<Rightarrow> string list option"

text \<open>Link and pin calls leave the contents of a map alone.\<close>

definition links_apart :: "'w kernel \<Rightarrow> ('w, 'k, 'v) bpf_map \<Rightarrow> bool" where
  "links_apart K g \<longleftrightarrow>
     (\<forall>w p n. Entries g (snd (AttachCgroup K w p n)) = Entries g w) \<and>
     (\<forall>w c n. Entries g (CloseLink K w c n) = Entries g w) \<and>
     (\<forall>w p. Entries g (snd (PinLink K w p)) = Entries g w) \<and>
     (\<forall>w p. Entries g (OsRemove K w p) = Entries g w) \<and>
     (\<forall>w p w'. UnpinLink K w p = Some w' \<longrightarrow> Entries g w' = Entries g w)"

definition kernel_ok :: "'w kernel \<Rightarrow> bool" where
  "kernel_ok K \<longleftrightarrow>
     bpf_laws (ContainerMap K) \<and> bpf_laws (BypassMap K) \<and> bpf_laws (RouteMap K) \<and> bpf_laws (DnsCache K) \<and>
     apart (ContainerMap K) (BypassMap K) \<and> apart (ContainerMap K) (RouteMap K) \<and>
     apart (ContainerMap K) (DnsCache K) \<and>
     apart (BypassMap K) (ContainerMap K) \<and> apart (BypassMap K) (RouteMap K) \<and>
     apart (BypassMap K) (DnsCache K) \<and>
     apart (RouteMap K) (ContainerMap K) \<and> apart (RouteMap K) (BypassMap K) \<and>
     apart (RouteMap K) (DnsCache K) \<and>
     apart (DnsCache K) (ContainerMap K) \<and> apart (DnsCache K) (BypassMap K) \<and>
     apart (DnsCache K) (RouteMap K) \<and>
     apart (RatelimitState K) (ContainerMap K) \<and> apart (RatelimitState K) (BypassMap K) \<and>
     apart (RatelimitState K) (RouteMap K) \<and> apart (RatelimitState K) (DnsCache K) \<and>
     apart (UdpFlowMap K) (ContainerMap K) \<and> apart (UdpFlowMap K) (BypassMap K) \<and>
     apart (UdpFlowMap K) (RouteMap K) \<and> apart (UdpFlowMap K) (DnsCache K) \<and>
     apart (RatelimitDrops K) (ContainerMap K) \<and> apart (RatelimitDrops K) (BypassMap K) \<and>
     apart (RatelimitDrops K) (RouteMap K) \<and> apart (RatelimitDrops K) (DnsCache K) \<and>
     links_apart K (ContainerMap K) \<and> links_apart K (BypassMap K) \<and>
     links_apart K (RouteMap K) \<and> links_apart K (DnsCache K)"

section \<open>Manager\<close>

record 'w Manager =
  world :: 'w
  links :: "cgroup_id \<Rightarrow> string list option"
  seededIPs :: "32 word list"

definition NewManager :: "'w \<Rightarrow> 'w Manager" where
  "NewManager w = \<lparr>world = w, links = (\<lambda>_. None), seededIPs = []\<rparr>"

datatype manager_error =
    IterateFailed string map_err | DeleteFailed string map_err | UpdateFailed string map_err
  | SeedFailed map_err | LookupFailed map_err | DeletesFailed nat "map_err option"
  | AttachFailed string string

text \<open>A loop that performs a call per element and collects the errors of the failing ones.\<close>

fun for_each :: "('a \<Rightarrow> 'w \<Rightarrow> 'e option \<times> 'w) \<Rightarrow> 'a list \<Rightarrow> 'w \<Rightarrow> 'e list \<times> 'w" where
  "for_each f [] w = ([], w)"
| "for_each f (x # xs) w =
     (let (e, w1) = f x w; (es, w2) = for_each f xs w1
      in ((case e of None \<Rightarrow> es | Some err \<Rightarrow> err # es), w2))"

definition tolerate_absent :: "(map_err \<Rightarrow> 'e) \<Rightarrow> map_err option \<Rightarrow> 'e option" where
  "tolerate_absent wrap e =
     (case e of None \<Rightarrow> None | Some err \<Rightarrow> if err = ErrKeyNotExist then None else Some (wrap err))"

definition delete_key :: "('w, 'k, 'v) bpf_map \<Rightarrow> string \<Rightarrow> 'k \<Rightarrow> 'w \<Rightarrow> manager_error option \<times> 'w" where
  "delete_key h name k w = (let (e, w') = MDelete h w k in (tolerate_absent (DeleteFailed name) e, w'))"

text \<open>Collect every key of a map, then delete them.\<close>

definition drain_map :: "('w, 'k, 'v) bpf_map \<Rightarrow> string \<Rightarrow> 'w \<Rightarrow> manager_error list \<times> 'w" where
  "drain_map h name w =
     (let (kvs, ie) = Iterate h w;
          (errs, w') = for_each (delete_key h name) (map fst kvs) w
      in ((case ie of None \<Rightarrow> [] | Some e \<Rightarrow> [IterateFailed name e]) @ errs, w'))"

definition clearBypass :: "'w kernel \<Rightarrow> cgroup_id \<Rightarrow> 'w \<Rightarrow> map_err option \<times> 'w" where
  "clearBypass K cg w = (let (e, w') = MDelete (BypassMap K) w cg in (tolerate_absent id e, w'))"

section \<open>Enrolment\<close>

definition cgroupAttachments :: "string list" where
  "cgroupAttachments =
     [''connect4'', ''sendmsg4'', ''recvmsg4'', ''connect6'', ''sendmsg6'', ''recvmsg6'',
      ''getpeername4'', ''getpeername6'', ''sock_create'']"

definition pin_name :: "string \<Rightarrow> cgroup_id \<Rightarrow> string" where
  "pin_name name cg = ''link_'' @ name @ ''_'' @ Itoa (uint cg)"

definition close_links :: "'w kernel \<Rightarrow> cgroup_id \<Rightarrow> string list \<Rightarrow> 'w \<Rightarrow> 'w" where
  "close_links K cg names w = fold (\<lambda>n w. CloseLink K w cg n) names w"

definition cleanupLinks :: "'w kernel \<Rightarrow> cgroup_id \<Rightarrow> 'w Manager \<Rightarrow> 'w Manager" where
  "cleanupLinks K cg m =
     (let m1 = (case links m cg of
                  Some names \<Rightarrow> m\<lparr>world := close_links K cg names (world m), links := (links m)(cg := None)\<rparr>
                | None \<Rightarrow> m)
      in m1\<lparr>world := fold (\<lambda>n w. OsRemove K w (pin_name n cg)) cgroupAttachments (world m1)\<rparr>)"

fun attach_all ::
  "'w kernel \<Rightarrow> cgroup_id \<Rightarrow> string \<Rightarrow> string list \<Rightarrow> string list \<Rightarrow> 'w \<Rightarrow> (manager_error + string list) \<times> 'w" where
  "attach_all K cg path linked [] w = (Inr linked, w)"
| "attach_all K cg path linked (n # ns) w =
     (case AttachCgroup K w path n of
        (Some e, w1) \<Rightarrow> (Inl (AttachFailed n e), close_links K cg linked w1)
      | (None, w1) \<Rightarrow>
          attach_all K cg path (linked @ [n]) ns
            (snd (PinLink K (OsRemove K w1 (pin_name n cg)) (pin_name n cg))))"

definition Install ::
  "'w kernel \<Rightarrow> cgroup_id \<Rightarrow> string \<Rightarrow> ContainerConfig \<Rightarrow> 'w Manager \<Rightarrow> manager_error option \<times> 'w Manager" where
  "Install K cg path cfg m =
     (let m = cleanupLinks K cg m; w = snd (clearBypass K cg (world m))
      in (case Update (ContainerMap K) w cg cfg of
            (Some e, w1) \<Rightarrow> (Some (UpdateFailed ''container_map'' e), m\<lparr>world := w1\<rparr>)
          | (None, w1) \<Rightarrow>
              (case attach_all K cg path [] cgroupAttachments w1 of
                 (Inl e, w2) \<Rightarrow> (Some e, m\<lparr>world := w2\<rparr>)
               | (Inr linked, w2) \<Rightarrow> (None, m\<lparr>world := w2, links := (links m)(cg \<mapsto> linked)\<rparr>))))"

definition drop_pin :: "'w kernel \<Rightarrow> string \<Rightarrow> 'w \<Rightarrow> 'w" where
  "drop_pin K pin w = (case UnpinLink K w pin of Some w' \<Rightarrow> w' | None \<Rightarrow> OsRemove K w pin)"

definition Remove :: "'w kernel \<Rightarrow> cgroup_id \<Rightarrow> 'w Manager \<Rightarrow> 'w Manager" where
  "Remove K cg m =
     (let m1 = (case links m cg of
                  Some names \<Rightarrow> m\<lparr>world := close_links K cg names (world m), links := (links m)(cg := None)\<rparr>
                | None \<Rightarrow> m);
          w1 = fold (\<lambda>n w. drop_pin K (pin_name n cg) w) cgroupAttachments (world m1);
          w2 = snd (MDelete (ContainerMap K) w1 cg)
      in m1\<lparr>world := snd (clearBypass K cg w2)\<rparr>)"

section \<open>Bypass flag\<close>

definition Disable :: "'w kernel \<Rightarrow> cgroup_id \<Rightarrow> 'w Manager \<Rightarrow> manager_error option \<times> 'w Manager" where
  "Disable K cg m =
     (let (e, w) = Update (BypassMap K) (world m) cg 1
      in (map_option (UpdateFailed ''bypass_map'') e, m\<lparr>world := w\<rparr>))"

definition Enable :: "'w kernel \<Rightarrow> cgroup_id \<Rightarrow> 'w Manager \<Rightarrow> manager_error option \<times> 'w Manager" where
  "Enable K cg m =
     (let (e, w) = MDelete (BypassMap K) (world m) cg
      in (tolerate_absent (DeleteFailed ''bypass_map'') e, m\<lparr>world := w\<rparr>))"

section \<open>Start-up and drain\<close>

definition CleanupStaleBypass :: "'w kernel \<Rightarrow> 'w Manager \<Rightarrow> (nat \<times> manager_error list) \<times> 'w Manager" where
  "CleanupStaleBypass K m =
     (let (kvs, ie) = Iterate (BypassMap K) (world m);
          verdicts = map (\<lambda>(k, v). (k, Lookup (ContainerMap K) (world m) k)) kvs;
          stale = map fst (filter (\<lambda>(k, r). r = Inl ErrKeyNotExist) verdicts);
          lookups = map (\<lambda>(k, r). LookupFailed (projl r))
                      (filter (\<lambda>(k, r). isl r \<and> r \<noteq> Inl ErrKeyNotExist) verdicts);
          (deletes, w) = for_each (delete_key (BypassMap K) ''bypass_map'') stale (world m)
      in ((length stale - length deletes,
           lookups @ (case ie of None \<Rightarrow> [] | Some e \<Rightarrow> [IterateFailed ''bypass_map'' e]) @ deletes),
          m\<lparr>world := w\<rparr>))"

definition CleanupAllLinks :: "'w kernel \<Rightarrow> 'w \<Rightarrow> 'w" where
  "CleanupAllLinks K w =
     (case ReadPinDir K w of
        None \<Rightarrow> w
      | Some entries \<Rightarrow> fold (drop_pin K) (filter (\<lambda>e. HasPrefix e ''link_'') entries) w)"

definition FlushAll :: "'w kernel \<Rightarrow> 'w Manager \<Rightarrow> manager_error list \<times> 'w Manager" where
  "FlushAll K m =
     (let (e1, w1) = drain_map (ContainerMap K) ''container_map'' (world m);
          (e2, w2) = drain_map (BypassMap K) ''bypass_map'' w1;
          (e3, w3) = drain_map (RatelimitState K) ''ratelimit_state'' w2;
          (e4, w4) = drain_map (UdpFlowMap K) ''udp_flow_map'' w3;
          (e5, w5) = drain_map (RatelimitDrops K) ''ratelimit_drops'' w4
      in (e1 @ e2 @ e3 @ e4 @ e5, m\<lparr>world := CleanupAllLinks K w5\<rparr>))"

text \<open>The cgroup ID in a pin file name \<open>link_{prog}_{cgroupID}\<close>.\<close>

definition ParseUint64 :: "string \<Rightarrow> nat option" where
  "ParseUint64 s =
     (case atoi_unsigned s of
        None \<Rightarrow> None
      | Some n \<Rightarrow> if n < 2 ^ 64 then Some n else None)"

definition pin_cgroup :: "string \<Rightarrow> cgroup_id option" where
  "pin_cgroup entry =
     (if \<not> HasPrefix entry ''link_'' then None
      else
        (let parts = split_on (CHR ''_'') entry in
         if length parts < 3 then None else map_option word_of_nat (ParseUint64 (last parts))))"

definition cleanupStaleLinks :: "'w kernel \<Rightarrow> bool \<Rightarrow> 'w \<Rightarrow> 'w" where
  "cleanupStaleLinks K mapPinned w =
     (case ReadPinDir K w of
        None \<Rightarrow> w
      | Some entries \<Rightarrow>
          (let liveID = (\<lambda>cg. mapPinned \<and> \<not> isl (Lookup (ContainerMap K) w cg));
               stale = (\<lambda>e. case pin_cgroup e of None \<Rightarrow> False | Some cg \<Rightarrow> \<not> liveID cg)
           in fold (drop_pin K) (filter stale entries) w))"

section \<open>Routes and the DNS cache\<close>

definition dnsSeedTTLSeconds :: "32 word" where
  "dnsSeedTTLSeconds = 365 * 24 * 3600"

definition route_key :: "Route \<Rightarrow> RouteKey" where
  "route_key r = \<lparr>KDomainHash = RHash r, KDstPort = RDstPort r, KL4Proto = RL4Proto r\<rparr>"

definition sync_update :: "'w kernel \<Rightarrow> Route \<Rightarrow> 'w \<Rightarrow> manager_error option \<times> 'w" where
  "sync_update K r w =
     (let (e, w') = Update (RouteMap K) w (route_key r) (REnvoyPort r)
      in (map_option (UpdateFailed ''route_map'') e, w'))"

definition UpdateDNSCache ::
  "'w kernel \<Rightarrow> 32 word \<Rightarrow> 32 word \<Rightarrow> 32 word \<Rightarrow> 32 word \<Rightarrow> 'w Manager \<Rightarrow> map_err option \<times> 'w Manager" where
  "UpdateDNSCache K now ip domainHash ttlSeconds m =
     (let (e, w) = Update (DnsCache K) (world m) ip \<lparr>EDomainHash = domainHash, ExpireTs = now + ttlSeconds\<rparr>
      in (e, m\<lparr>world := w\<rparr>))"

definition seedDNSCacheIfAbsent ::
  "'w kernel \<Rightarrow> 32 word \<Rightarrow> 32 word \<Rightarrow> 32 word \<Rightarrow> 32 word \<Rightarrow> 'w \<Rightarrow> map_err option \<times> 'w" where
  "seedDNSCacheIfAbsent K now ip domainHash ttlSeconds w =
     (let (e, w') = UpdateNoExist (DnsCache K) w ip \<lparr>EDomainHash = domainHash, ExpireTs = now + ttlSeconds\<rparr>
      in (if e = Some ErrKeyExist then None else e, w'))"

definition seed_route :: "'w kernel \<Rightarrow> 32 word \<Rightarrow> Route \<Rightarrow> 'w \<Rightarrow> manager_error option \<times> 'w" where
  "seed_route K now r w =
     (if SeedIP r = 0 then (None, w)
      else
        (let (e, w') = seedDNSCacheIfAbsent K now (SeedIP r) (RHash r) dnsSeedTTLSeconds w
         in (map_option SeedFailed e, w')))"

definition diffSeededIPs :: "Route list \<Rightarrow> 32 word list \<Rightarrow> 32 word list \<times> 32 word list" where
  "diffSeededIPs routes prev =
     (let nxt = remdups (filter (\<lambda>ip. ip \<noteq> 0) (map SeedIP routes))
      in (nxt, filter (\<lambda>ip. ip \<notin> set nxt) prev))"

definition SyncRoutes ::
  "'w kernel \<Rightarrow> 32 word \<Rightarrow> Route list \<Rightarrow> 'w Manager \<Rightarrow> manager_error list \<times> 'w Manager" where
  "SyncRoutes K now routes m =
     (let (e1, w1) = drain_map (RouteMap K) ''route_map'' (world m);
          (e2, w2) = for_each (sync_update K) routes w1;
          (e3, w3) = for_each (seed_route K now) routes w2;
          (nxt, orphaned) = diffSeededIPs routes (seededIPs m);
          w4 = fold (\<lambda>ip w. snd (MDelete (DnsCache K) w ip)) orphaned w3
      in (e1 @ e2 @ e3, m\<lparr>world := w4, seededIPs := nxt\<rparr>))"

fun deleteExpiredDNSEntries ::
  "('w, 32 word, DnsEntry) bpf_map \<Rightarrow> 32 word list \<Rightarrow> nat \<times> nat \<times> map_err option \<Rightarrow> 'w \<Rightarrow>
   (nat \<times> nat \<times> map_err option) \<times> 'w" where
  "deleteExpiredDNSEntries h [] acc w = (acc, w)"
| "deleteExpiredDNSEntries h (k # ks) (cleared, failed, firstErr) w =
     (case MDelete h w k of
        (e, w') \<Rightarrow>
          if e = None \<or> e = Some ErrKeyNotExist
          then deleteExpiredDNSEntries h ks (cleared + 1, failed, firstErr) w'
          else deleteExpiredDNSEntries h ks
                 (cleared, failed + 1, if firstErr = None then e else firstErr) w')"

definition joinDNSGCErrors :: "map_err option \<Rightarrow> nat \<Rightarrow> map_err option \<Rightarrow> manager_error list" where
  "joinDNSGCErrors iterErr failed firstDeleteErr =
     (case iterErr of None \<Rightarrow> [] | Some e \<Rightarrow> [IterateFailed ''dns_cache'' e]) @
     (if failed > 0 then [DeletesFailed failed firstDeleteErr] else [])"

definition GarbageCollectDNS ::
  "'w kernel \<Rightarrow> 32 word \<Rightarrow> 'w Manager \<Rightarrow> (nat \<times> manager_error list) \<times> 'w Manager" where
  "GarbageCollectDNS K now m =
     (let (kvs, iterErr) = Iterate (DnsCache K) (world m);
          expired = map fst (filter (\<lambda>(ip, entry). \<not> now \<le> ExpireTs entry \<and> ip \<notin> set (seededIPs m)) kvs);
          ((cleared, failed, firstErr), w) =
            deleteExpiredDNSEntries (DnsCache K) expired (0, 0, None) (world m)
      in ((cleared, joinDNSGCErrors iterErr failed firstErr), m\<lparr>world := w\<rparr>))"

section \<open>Introspection\<close>

definition LookupContainer :: "'w kernel \<Rightarrow> 'w Manager \<Rightarrow> cgroup_id \<Rightarrow> map_err + ContainerConfig" where
  "LookupContainer K m cg = Lookup (ContainerMap K) (world m) cg"

definition dump_map :: "('w, 'k, 'v) bpf_map \<Rightarrow> string \<Rightarrow> ('k \<times> 'v \<Rightarrow> 'a) \<Rightarrow> 'w \<Rightarrow> manager_error + 'a list" where
  "dump_map h name f w =
     (case Iterate h w of
        (kvs, None) \<Rightarrow> Inr (map f kvs)
      | (kvs, Some e) \<Rightarrow> Inl (IterateFailed name e))"

definition DumpRoutes :: "'w kernel \<Rightarrow> 'w Manager \<Rightarrow> manager_error + Route list" where
  "DumpRoutes K m =
     dump_map (RouteMap K) ''route_map''
       (\<lambda>(k, v). \<lparr>RHash = KDomainHash k, RDstPort = KDstPort k, REnvoyPort = v, RL4Proto = KL4Proto k, SeedIP = 0\<rparr>)
       (world m)"

definition DumpContainers :: "'w kernel \<Rightarrow> 'w Manager \<Rightarrow> manager_error + (cgroup_id \<times> ContainerConfig) list" where
  "DumpContainers K m = dump_map (ContainerMap K) ''container_map'' id (world m)"

definition DumpBypass :: "'w kernel \<Rightarrow> 'w Manager \<Rightarrow> manager_error + (cgroup_id \<times> bool) list" where
  "DumpBypass K m = dump_map (BypassMap K) ''bypass_map'' (\<lambda>(k, flag). (k, flag \<noteq> 0)) (world m)"

definition DumpDNS :: "'w kernel \<Rightarrow> 'w Manager \<Rightarrow> manager_error + (nat list \<times> 32 word \<times> 32 word) list" where
  "DumpDNS K m =
     dump_map (DnsCache K) ''dns_cache''
       (\<lambda>(ip, entry). (Uint32ToIP ip, EDomainHash entry, ExpireTs entry)) (world m)"

section \<open>Container configuration\<close>

datatype config_error = BadCIDR | BadEnvoyIP | BadCoreDNSIP | BadGatewayIP | BadHostProxyIP

datatype 'a config_result = ConfigErr config_error | ConfigPanic | ConfigOk 'a

definition parseIP :: "string \<Rightarrow> nat list option" where
  "parseIP s = To4 (ParseIP s)"

definition NewContainerConfig ::
  "string \<Rightarrow> string \<Rightarrow> string \<Rightarrow> string \<Rightarrow> string \<Rightarrow> 16 word \<Rightarrow> 16 word \<Rightarrow> ContainerConfig config_result" where
  "NewContainerConfig envoyIP corednsIP gatewayIP cidr hostProxyIP hostProxyPort egressPort =
     (case CIDRToAddrMask cidr of
        CIDRError \<Rightarrow> ConfigErr BadCIDR
      | CIDRPanic \<Rightarrow> ConfigPanic
      | CIDROk netAddr netMask \<Rightarrow>
          (case parseIP envoyIP of None \<Rightarrow> ConfigErr BadEnvoyIP | Some envoy \<Rightarrow>
          (case parseIP corednsIP of None \<Rightarrow> ConfigErr BadCoreDNSIP | Some coredns \<Rightarrow>
          (case parseIP gatewayIP of None \<Rightarrow> ConfigErr BadGatewayIP | Some gateway \<Rightarrow>
            (let cfg = \<lparr>EnvoyIp = IPToUint32 (Some envoy), CorednsIp = IPToUint32 (Some coredns),
                        GatewayIp = IPToUint32 (Some gateway), NetAddr = netAddr, NetMask = netMask,
                        HostProxyIp = 0, HostProxyPort = hostProxyPort, CEgressPort = egressPort\<rparr>
             in if hostProxyIP \<noteq> [] then
                  (case parseIP hostProxyIP of
                     None \<Rightarrow> ConfigErr BadHostProxyIP
                   | Some hp \<Rightarrow> ConfigOk (cfg\<lparr>HostProxyIp := IPToUint32 (Some hp)\<rparr>))
                else ConfigOk cfg)))))"

section \<open>Escalation of failing sweeps\<close>

record dnsGCEscalator =
  threshold :: int
  failures :: int

definition dnsGCDegradedThreshold :: int where
  "dnsGCDegradedThreshold = 5"

definition new_escalator :: "int \<Rightarrow> dnsGCEscalator" where
  "new_escalator degradedThreshold =
     \<lparr>threshold = (if degradedThreshold \<le> 0 then dnsGCDegradedThreshold else degradedThreshold), failures = 0\<rparr>"

definition record_sweep :: "dnsGCEscalator \<Rightarrow> bool \<Rightarrow> bool \<times> dnsGCEscalator" where
  "record_sweep e ok =
     (if ok then (False, e\<lparr>failures := 0\<rparr>)
      else (let e' = e\<lparr>failures := failures e + 1\<rparr> in (failures e' = threshold e', e')))"

datatype gc_outcome = GCPanicked | GCReturned nat "manager_error list"

definition dnsGCSweep :: "gc_outcome \<Rightarrow> bool" where
  "dnsGCSweep out = (case out of GCPanicked \<Rightarrow> False | GCReturned n errs \<Rightarrow> errs = [])"

fun escalations :: "dnsGCEscalator \<Rightarrow> gc_outcome list \<Rightarrow> bool list" where
  "escalations e [] = []"
| "escalations e (out # outs) =
     (let (fire, e') = record_sweep e (dnsGCSweep out) in fire # escalations e' outs)"

section \<open>Lemmas on the maps\<close>

lemma Update_entries:
  assumes "bpf_laws h" "Update h w k v = (e, w')"
  shows "Entries h w' = (if e = None then (Entries h w)(k \<mapsto> v) else Entries h w)"
  by (rule assms(1) [unfolded bpf_laws_def, THEN conjunct1, rule_format, OF assms(2)])

lemma UpdateNoExist_entries:
  assumes "bpf_laws h" "UpdateNoExist h w k v = (e, w')"
  shows "Entries h w' = (if e = None then (Entries h w)(k \<mapsto> v) else Entries h w)"
    "e = None \<Longrightarrow> Entries h w k = None" "e = Some ErrKeyExist \<Longrightarrow> Entries h w k \<noteq> None"
  using assms(1) [unfolded bpf_laws_def, THEN conjunct2, THEN conjunct1, rule_format, OF assms(2)]
  by (simp_all only: simp_thms)

lemma MDelete_entries:
  assumes "bpf_laws h" "MDelete h w k = (e, w')"
  shows "Entries h w' =
    (if e = None \<or> e = Some ErrKeyNotExist then (Entries h w)(k := None) else Entries h w)"
  by (rule assms(1) [unfolded bpf_laws_def, THEN conjunct2, THEN conjunct2, THEN conjunct1, rule_format, OF assms(2)])

lemma MDelete_cases:
  assumes "bpf_laws h"
  shows "Entries h (snd (MDelete h w k)) = (Entries h w)(k := None) \<or> Entries h (snd (MDelete h w k)) = Entries h w"
  using MDelete_entries [OF assms, of w k "fst (MDelete h w k)" "snd (MDelete h w k)"] by (simp split: if_splits)

lemma Iterate_entries:
  assumes "bpf_laws h" "Iterate h w = (kvs, e)"
  shows "(k, v) \<in> set kvs \<Longrightarrow> Entries h w k = Some v"
    "e = None \<Longrightarrow> Entries h w k = Some v \<Longrightarrow> (k, v) \<in> set kvs"
  using assms(1) [unfolded bpf_laws_def, THEN conjunct2, THEN conjunct2, THEN conjunct2, THEN conjunct1,
      rule_format, OF assms(2)]
  by auto

lemma Lookup_entries:
  assumes "bpf_laws h"
  shows "Lookup h w k = Inr v \<Longrightarrow> Entries h w k = Some v"
    "Lookup h w k = Inl ErrKeyNotExist \<Longrightarrow> Entries h w k = None"
  using assms [unfolded bpf_laws_def, THEN conjunct2, THEN conjunct2, THEN conjunct2, THEN conjunct2]
  by simp_all

lemma apart_frame:
  assumes "apart h g"
  shows "Entries g (snd (Update h w k v)) = Entries g w"
    "Entries g (snd (UpdateNoExist h w k v)) = Entries g w"
    "Entries g (snd (MDelete h w k)) = Entries g w"
  using assms unfolding apart_def by blast+

lemma links_frame:
  assumes "links_apart K g"
  shows "Entries g (snd (AttachCgroup K w p n)) = Entries g w" "Entries g (CloseLink K w c n) = Entries g w"
    "Entries g (snd (PinLink K w p)) = Entries g w" "Entries g (OsRemove K w p) = Entries g w"
    "UnpinLink K w p = Some w' \<Longrightarrow> Entries g w' = Entries g w"
  using assms unfolding links_apart_def by blast+

lemma kernel_laws:
  assumes "kernel_ok K"
  shows "bpf_laws (ContainerMap K)" "bpf_laws (BypassMap K)" "bpf_laws (RouteMap K)" "bpf_laws (DnsCache K)"
  using assms unfolding kernel_ok_def by blast+

lemma kernel_apart:
  assumes "kernel_ok K"
  shows "apart (ContainerMap K) (BypassMap K)" "apart (ContainerMap K) (RouteMap K)" "apart (ContainerMap K) (DnsCache K)"
    "apart (BypassMap K) (ContainerMap K)" "apart (BypassMap K) (RouteMap K)" "apart (BypassMap K) (DnsCache K)"
    "apart (RouteMap K) (ContainerMap K)" "apart (RouteMap K) (BypassMap K)" "apart (RouteMap K) (DnsCache K)"
    "apart (DnsCache K) (ContainerMap K)" "apart (DnsCache K) (BypassMap K)" "apart (DnsCache K) (RouteMap K)"
  using assms unfolding kernel_ok_def by blast+

lemma kernel_aux_apart:
  assumes "kernel_ok K"
  shows "apart (RatelimitState K) (ContainerMap K)" "apart (UdpFlowMap K) (ContainerMap K)"
    "apart (RatelimitDrops K) (ContainerMap K)" "apart (RatelimitState K) (BypassMap K)"
    "apart (UdpFlowMap K) (BypassMap K)" "apart (RatelimitDrops K) (BypassMap K)"
    "apart (RatelimitState K) (RouteMap K)" "apart (UdpFlowMap K) (RouteMap K)"
    "apart (RatelimitDrops K) (RouteMap K)" "apart (RatelimitState K) (DnsCache K)"
    "apart (UdpFlowMap K) (DnsCache K)" "apart (RatelimitDrops K) (DnsCache K)"
  using assms unfolding kernel_ok_def by blast+

lemma kernel_links:
  assumes "kernel_ok K"
  shows "links_apart K (ContainerMap K)" "links_apart K (BypassMap K)" "links_apart K (RouteMap K)"
    "links_apart K (DnsCache K)"
  using assms unfolding kernel_ok_def by blast+

lemma for_each_frame:
  assumes "\<And>x w. x \<in> set xs \<Longrightarrow> V (snd (f x w)) = V w"
  shows "V (snd (for_each f xs w)) = V w"
  using assms by (induction xs arbitrary: w) (simp_all add: split_beta Let_def)

lemma fold_frame:
  assumes "\<And>x w. V (f x w) = V w"
  shows "V (fold f xs w) = V w"
  using assms by (induction xs arbitrary: w) simp_all

lemma for_each_Nil_iff:
  "fst (for_each f (x # xs) w) = [] \<longleftrightarrow> fst (f x w) = None \<and> fst (for_each f xs (snd (f x w))) = []"
  by (simp add: split_beta Let_def split: option.splits)

lemma for_each_Cons_snd: "snd (for_each f (x # xs) w) = snd (for_each f xs (snd (f x w)))"
  by (simp add: split_beta Let_def)

lemma delete_key_entries:
  assumes "bpf_laws h"
  shows "Entries h (snd (delete_key h n k w)) =
    (if fst (delete_key h n k w) = None then (Entries h w)(k := None) else Entries h w)"
  using MDelete_entries [OF assms, of w k "fst (MDelete h w k)" "snd (MDelete h w k)"]
  by (auto simp: delete_key_def tolerate_absent_def split_beta split: option.splits)

lemma delete_key_frame: "apart h g \<Longrightarrow> Entries g (snd (delete_key h n k w)) = Entries g w"
  by (simp add: delete_key_def split_beta apart_frame)

lemma deletes_entries:
  assumes "bpf_laws h"
  shows "fst (for_each (delete_key h n) ks w) = [] \<Longrightarrow>
      Entries h (snd (for_each (delete_key h n) ks w)) = (\<lambda>k. if k \<in> set ks then None else Entries h w k)"
    and "k \<notin> set ks \<Longrightarrow> Entries h (snd (for_each (delete_key h n) ks w)) k = Entries h w k"
    and "Entries h (snd (for_each (delete_key h n) ks w)) k \<in> {None, Entries h w k}"
proof -
  show "Entries h (snd (for_each (delete_key h n) ks w)) = (\<lambda>k. if k \<in> set ks then None else Entries h w k)"
    if "fst (for_each (delete_key h n) ks w) = []"
    using that
  proof (induction ks arbitrary: w)
    case (Cons x xs)
    then show ?case
      unfolding for_each_Nil_iff for_each_Cons_snd using delete_key_entries [OF assms, of n x w]
      by (auto simp: fun_eq_iff)
  qed simp
  show "Entries h (snd (for_each (delete_key h n) ks w)) k = Entries h w k" if "k \<notin> set ks"
    using that
  proof (induction ks arbitrary: w)
    case (Cons x xs)
    then show ?case
      unfolding for_each_Cons_snd using delete_key_entries [OF assms, of n x w] by simp
  qed simp
  show "Entries h (snd (for_each (delete_key h n) ks w)) k \<in> {None, Entries h w k}"
  proof (induction ks arbitrary: w)
    case (Cons x xs)
    have "Entries h (snd (delete_key h n x w)) k \<in> {None, Entries h w k}"
      using delete_key_entries [OF assms, of n x w] by simp
    then show ?case unfolding for_each_Cons_snd using Cons [of "snd (delete_key h n x w)"] by auto
  qed simp
qed

lemma drain_map_entries:
  assumes "bpf_laws h"
  shows "fst (drain_map h n w) = [] \<Longrightarrow> Entries h (snd (drain_map h n w)) = (\<lambda>_. None)"
    and "Entries h (snd (drain_map h n w)) k \<in> {None, Entries h w k}"
proof -
  obtain kvs ie where i: "Iterate h w = (kvs, ie)" by fastforce
  have d: "snd (drain_map h n w) = snd (for_each (delete_key h n) (map fst kvs) w)"
    by (simp add: drain_map_def i split_beta)
  show "Entries h (snd (drain_map h n w)) = (\<lambda>_. None)" if "fst (drain_map h n w) = []"
  proof
    fix k
    have e: "ie = None" "fst (for_each (delete_key h n) (map fst kvs) w) = []"
      using that by (simp_all add: drain_map_def i split_beta split: option.splits)
    have "k \<in> fst ` set kvs" if "Entries h w k = Some v" for v
      using Iterate_entries(2) [OF assms i e(1) that] by force
    then show "Entries h (snd (drain_map h n w)) k = None"
      using deletes_entries(1) [OF assms e(2)] d by (cases "Entries h w k") auto
  qed
  show "Entries h (snd (drain_map h n w)) k \<in> {None, Entries h w k}"
    unfolding d by (rule deletes_entries(3) [OF assms])
qed

lemma drain_map_frame:
  assumes "apart h g"
  shows "Entries g (snd (drain_map h n w)) = Entries g w"
  by (simp add: drain_map_def split_beta for_each_frame [where V = "Entries g"] delete_key_frame [OF assms])

lemma sync_updates_entries:
  assumes "bpf_laws (RouteMap K)"
  shows "fst (for_each (sync_update K) rs w) = [] \<Longrightarrow>
      Entries (RouteMap K) (snd (for_each (sync_update K) rs w)) =
        Entries (RouteMap K) w ++ map_of (rev (map (\<lambda>r. (route_key r, REnvoyPort r)) rs))"
    and "Entries (RouteMap K) (snd (for_each (sync_update K) rs w)) k = Some v \<Longrightarrow>
      (k, v) \<in> set (map (\<lambda>r. (route_key r, REnvoyPort r)) rs) \<or> Entries (RouteMap K) w k = Some v"
proof -
  have one: "Entries (RouteMap K) (snd (sync_update K r w)) =
      (if fst (sync_update K r w) = None then (Entries (RouteMap K) w)(route_key r \<mapsto> REnvoyPort r)
       else Entries (RouteMap K) w)" for r w
    using Update_entries [OF assms, of w "route_key r" "REnvoyPort r"
        "fst (Update (RouteMap K) w (route_key r) (REnvoyPort r))"]
    by (simp add: sync_update_def split_beta del: fun_upd_apply)
  show "Entries (RouteMap K) (snd (for_each (sync_update K) rs w)) =
      Entries (RouteMap K) w ++ map_of (rev (map (\<lambda>r. (route_key r, REnvoyPort r)) rs))"
    if "fst (for_each (sync_update K) rs w) = []"
    using that
  proof (induction rs arbitrary: w)
    case (Cons r rs)
    then show ?case
      unfolding for_each_Nil_iff for_each_Cons_snd using one [of r w] by (simp del: fun_upd_apply)
  qed simp
  show "(k, v) \<in> set (map (\<lambda>r. (route_key r, REnvoyPort r)) rs) \<or> Entries (RouteMap K) w k = Some v"
    if "Entries (RouteMap K) (snd (for_each (sync_update K) rs w)) k = Some v"
    using that
  proof (induction rs arbitrary: w)
    case (Cons r rs)
    from Cons.prems Cons.IH [of "snd (sync_update K r w)"]
    show ?case unfolding for_each_Cons_snd using one [of r w] by (auto split: if_splits)
  qed simp
qed

lemma sync_update_frame: "apart (RouteMap K) g \<Longrightarrow> Entries g (snd (sync_update K r w)) = Entries g w"
  by (simp add: sync_update_def split_beta apart_frame)

lemma seed_route_frame: "apart (DnsCache K) g \<Longrightarrow> Entries g (snd (seed_route K now r w)) = Entries g w"
  by (simp add: seed_route_def seedDNSCacheIfAbsent_def split_beta apart_frame)

lemma seed_route_entries:
  assumes "bpf_laws (DnsCache K)"
  shows "Entries (DnsCache K) w ip = Some x \<Longrightarrow> Entries (DnsCache K) (snd (seed_route K now r w)) ip = Some x"
    and "Entries (DnsCache K) (snd (seed_route K now r w)) ip = Some x \<Longrightarrow>
      Entries (DnsCache K) w ip = Some x \<or>
      SeedIP r = ip \<and> ip \<noteq> 0 \<and> x = \<lparr>EDomainHash = RHash r, ExpireTs = now + dnsSeedTTLSeconds\<rparr>"
    and "fst (seed_route K now r w) = None \<Longrightarrow> SeedIP r \<noteq> 0 \<Longrightarrow>
      Entries (DnsCache K) (snd (seed_route K now r w)) (SeedIP r) \<noteq> None"
proof -
  let ?x = "\<lparr>EDomainHash = RHash r, ExpireTs = now + dnsSeedTTLSeconds\<rparr>"
  obtain e w' where u: "UpdateNoExist (DnsCache K) w (SeedIP r) ?x = (e, w')" by fastforce
  note l = UpdateNoExist_entries [OF assms u]
  have s: "snd (seed_route K now r w) = (if SeedIP r = 0 then w else w')"
    by (simp add: seed_route_def seedDNSCacheIfAbsent_def u)
  show "Entries (DnsCache K) (snd (seed_route K now r w)) ip = Some x" if "Entries (DnsCache K) w ip = Some x"
    using that l(1,2) by (auto simp: s)
  show "Entries (DnsCache K) w ip = Some x \<or>
      SeedIP r = ip \<and> ip \<noteq> 0 \<and> x = \<lparr>EDomainHash = RHash r, ExpireTs = now + dnsSeedTTLSeconds\<rparr>"
    if "Entries (DnsCache K) (snd (seed_route K now r w)) ip = Some x"
    using that l(1) by (auto simp: s split: if_splits)
  show "Entries (DnsCache K) (snd (seed_route K now r w)) (SeedIP r) \<noteq> None"
    if "fst (seed_route K now r w) = None" "SeedIP r \<noteq> 0"
  proof -
    have "e = None \<or> e = Some ErrKeyExist"
      using that by (auto simp: seed_route_def seedDNSCacheIfAbsent_def u split: if_splits)
    then show ?thesis using that(2) l(1,3) by (auto simp: s)
  qed
qed

lemma seed_routes_keep:
  assumes "bpf_laws (DnsCache K)" "Entries (DnsCache K) w ip = Some x"
  shows "Entries (DnsCache K) (snd (for_each (seed_route K now) rs w)) ip = Some x"
  using assms(2)
proof (induction rs arbitrary: w)
  case (Cons r rs)
  then show ?case using seed_route_entries(1) [OF assms(1)] by (simp only: for_each_Cons_snd)
qed simp

lemma seed_routes_present:
  assumes "bpf_laws (DnsCache K)" "fst (for_each (seed_route K now) rs w) = []" "r \<in> set rs" "SeedIP r \<noteq> 0"
  shows "Entries (DnsCache K) (snd (for_each (seed_route K now) rs w)) (SeedIP r) \<noteq> None"
  using assms(2,3)
proof (induction rs arbitrary: w)
  case (Cons x rs)
  note n = Cons.prems(1) [unfolded for_each_Nil_iff]
  show ?case
  proof (cases "r = x")
    case True
    then obtain y where "Entries (DnsCache K) (snd (seed_route K now x w)) (SeedIP r) = Some y"
      using seed_route_entries(3) [OF assms(1), of now x w] n assms(4) by auto
    then show ?thesis using seed_routes_keep [OF assms(1)] by (simp only: for_each_Cons_snd) fast
  next
    case False
    then show ?thesis using Cons.IH n Cons.prems(2) unfolding for_each_Cons_snd by simp
  qed
qed simp

lemma seed_routes_new:
  assumes "bpf_laws (DnsCache K)" "Entries (DnsCache K) (snd (for_each (seed_route K now) rs w)) ip = Some x"
  shows "Entries (DnsCache K) w ip = Some x \<or>
    (\<exists>r \<in> set rs. SeedIP r = ip \<and> ip \<noteq> 0 \<and> x = \<lparr>EDomainHash = RHash r, ExpireTs = now + dnsSeedTTLSeconds\<rparr>)"
  using assms(2)
proof (induction rs arbitrary: w)
  case (Cons r rs)
  from Cons.IH [OF Cons.prems [unfolded for_each_Cons_snd]]
  show ?case using seed_route_entries(2) [OF assms(1), of now r w ip x] by auto
qed simp

lemma fold_deletes:
  assumes "bpf_laws h"
  shows "k \<notin> set ks \<Longrightarrow> Entries h (fold (\<lambda>k w. snd (MDelete h w k)) ks w) k = Entries h w k"
    and "Entries h (fold (\<lambda>k w. snd (MDelete h w k)) ks w) k \<in> {None, Entries h w k}"
proof -
  show "Entries h (fold (\<lambda>k w. snd (MDelete h w k)) ks w) k = Entries h w k" if "k \<notin> set ks"
    using that
  proof (induction ks arbitrary: w)
    case (Cons x xs)
    then show ?case using MDelete_cases [OF assms, of w x] by auto
  qed simp
  show "Entries h (fold (\<lambda>k w. snd (MDelete h w k)) ks w) k \<in> {None, Entries h w k}"
  proof (induction ks arbitrary: w)
    case (Cons x xs)
    have "Entries h (snd (MDelete h w x)) k \<in> {None, Entries h w k}"
      using MDelete_cases [OF assms, of w x] by auto
    then show ?case using Cons [of "snd (MDelete h w x)"] by auto
  qed simp
qed

lemma fold_deletes_frame:
  assumes "apart h g"
  shows "Entries g (fold (\<lambda>k w. snd (MDelete h w k)) ks w) = Entries g w"
  by (rule fold_frame) (rule apart_frame(3) [OF assms])

text \<open>The stages of a synchronisation.\<close>

lemma SyncRoutes_stages:
  assumes "SyncRoutes K now routes m = (errs, m')"
  obtains w1 w2 w3 e1 e2 e3 where
    "drain_map (RouteMap K) ''route_map'' (world m) = (e1, w1)"
    "for_each (sync_update K) routes w1 = (e2, w2)" "for_each (seed_route K now) routes w2 = (e3, w3)"
    "errs = e1 @ e2 @ e3"
    "world m' = fold (\<lambda>ip w. snd (MDelete (DnsCache K) w ip)) (snd (diffSeededIPs routes (seededIPs m))) w3"
    "seededIPs m' = fst (diffSeededIPs routes (seededIPs m))" "links m' = links m"
  using assms that by (auto simp: SyncRoutes_def Let_def split: prod.splits)

lemma SyncRoutes_ok_stages:
  assumes "SyncRoutes K now routes m = ([], m')"
  obtains w1 w2 w3 where
    "drain_map (RouteMap K) ''route_map'' (world m) = ([], w1)"
    "for_each (sync_update K) routes w1 = ([], w2)" "for_each (seed_route K now) routes w2 = ([], w3)"
    "world m' = fold (\<lambda>ip w. snd (MDelete (DnsCache K) w ip)) (snd (diffSeededIPs routes (seededIPs m))) w3"
    "seededIPs m' = fst (diffSeededIPs routes (seededIPs m))"
  by (rule SyncRoutes_stages [OF assms]) (rule that; simp)

lemma SyncRoutes_frames:
  assumes "kernel_ok K" "SyncRoutes K now routes m = (errs, m')"
  shows "Entries (ContainerMap K) (world m') = Entries (ContainerMap K) (world m)"
    "Entries (BypassMap K) (world m') = Entries (BypassMap K) (world m)"
proof -
  obtain w1 w2 w3 e1 e2 e3 where st: "drain_map (RouteMap K) ''route_map'' (world m) = (e1, w1)"
    "for_each (sync_update K) routes w1 = (e2, w2)" "for_each (seed_route K now) routes w2 = (e3, w3)"
    "world m' = fold (\<lambda>ip w. snd (MDelete (DnsCache K) w ip)) (snd (diffSeededIPs routes (seededIPs m))) w3"
    using SyncRoutes_stages [OF assms(2)] by metis
  have frame: "Entries g (world m') = Entries g (world m)"
    if "apart (RouteMap K) g" "apart (DnsCache K) g" for g :: "('a, cgroup_id, 'v) bpf_map"
  proof -
    have "Entries g w1 = Entries g (world m)" using drain_map_frame [OF that(1)] st(1) by (metis snd_conv)
    moreover have "Entries g w2 = Entries g w1"
      using for_each_frame [of routes "Entries g" "sync_update K" w1] sync_update_frame [OF that(1)] st(2) by simp
    moreover have "Entries g w3 = Entries g w2"
      using for_each_frame [of routes "Entries g" "seed_route K now" w2] seed_route_frame [OF that(2)] st(3) by simp
    ultimately show ?thesis using fold_deletes_frame [OF that(2)] st(4) by simp
  qed
  show "Entries (ContainerMap K) (world m') = Entries (ContainerMap K) (world m)"
    "Entries (BypassMap K) (world m') = Entries (BypassMap K) (world m)"
    using frame kernel_apart [OF assms(1)] by blast+
qed

section \<open>Lemmas on garbage collection\<close>

lemma deleteExpired_entries:
  assumes "bpf_laws h"
  shows "k \<notin> set ks \<Longrightarrow> Entries h (snd (deleteExpiredDNSEntries h ks acc w)) k = Entries h w k"
    and "Entries h (snd (deleteExpiredDNSEntries h ks acc w)) k \<in> {None, Entries h w k}"
    and "fst (snd (fst (deleteExpiredDNSEntries h ks acc w))) = fst (snd acc) \<Longrightarrow> k \<in> set ks \<Longrightarrow>
      Entries h (snd (deleteExpiredDNSEntries h ks acc w)) k = None"
    and "fst (snd acc) \<le> fst (snd (fst (deleteExpiredDNSEntries h ks acc w)))"
    and "fst (fst (deleteExpiredDNSEntries h ks acc w)) + fst (snd (fst (deleteExpiredDNSEntries h ks acc w))) =
      fst acc + fst (snd acc) + length ks"
proof -
  let ?out = "\<lambda>h ks acc w. deleteExpiredDNSEntries h ks acc w"
  have "(k \<notin> set ks \<longrightarrow> Entries h (snd (?out h ks acc w)) k = Entries h w k) \<and>
      Entries h (snd (?out h ks acc w)) k \<in> {None, Entries h w k} \<and>
      (fst (snd (fst (?out h ks acc w))) = fst (snd acc) \<longrightarrow> k \<in> set ks \<longrightarrow> Entries h (snd (?out h ks acc w)) k = None) \<and>
      fst (snd acc) \<le> fst (snd (fst (?out h ks acc w))) \<and>
      fst (fst (?out h ks acc w)) + fst (snd (fst (?out h ks acc w))) = fst acc + fst (snd acc) + length ks"
    using assms
  proof (induction h ks acc w rule: deleteExpiredDNSEntries.induct)
    case (2 h x xs c f fe w)
    obtain e w' where d: "MDelete h w x = (e, w')" by fastforce
    note E = MDelete_entries [OF 2(3) d]
    show ?case
    proof (cases "e = None \<or> e = Some ErrKeyNotExist")
      case True
      note IH = 2(1) [OF d [symmetric] True 2(3)]
      have "deleteExpiredDNSEntries h (x # xs) (c, f, fe) w = deleteExpiredDNSEntries h xs (c + 1, f, fe) w'"
        using True d by (simp add: disj_imp)
      moreover have "Entries h w' = (Entries h w)(x := None)" using E True by (simp only: if_True)
      ultimately show ?thesis using IH by (auto split: if_splits)
    next
      case False
      let ?fe = "if fe = None then e else fe"
      note IH = 2(2) [OF d [symmetric] False 2(3)]
      have "deleteExpiredDNSEntries h (x # xs) (c, f, fe) w = deleteExpiredDNSEntries h xs (c, f + 1, ?fe) w'"
        using False d by auto
      moreover have "Entries h w' = Entries h w" using E False by (simp only: if_False)
      ultimately show ?thesis using IH by auto
    qed
  qed simp
  then show "k \<notin> set ks \<Longrightarrow> Entries h (snd (?out h ks acc w)) k = Entries h w k"
    "Entries h (snd (?out h ks acc w)) k \<in> {None, Entries h w k}"
    "fst (snd (fst (?out h ks acc w))) = fst (snd acc) \<Longrightarrow> k \<in> set ks \<Longrightarrow> Entries h (snd (?out h ks acc w)) k = None"
    "fst (snd acc) \<le> fst (snd (fst (?out h ks acc w)))"
    "fst (fst (?out h ks acc w)) + fst (snd (fst (?out h ks acc w))) = fst acc + fst (snd acc) + length ks"
    by blast+
qed

definition expired_entry :: "32 word \<Rightarrow> 32 word list \<Rightarrow> 32 word \<Rightarrow> DnsEntry \<Rightarrow> bool" where
  "expired_entry now seeds ip x \<longleftrightarrow> ExpireTs x < now \<and> ip \<notin> set seeds"

lemma GarbageCollectDNS_entries:
  assumes "kernel_ok K" "GarbageCollectDNS K now m = ((n, errs), m')"
  shows "Entries (DnsCache K) (world m') ip \<noteq> Entries (DnsCache K) (world m) ip \<Longrightarrow>
      Entries (DnsCache K) (world m') ip = None \<and>
      (\<exists>x. Entries (DnsCache K) (world m) ip = Some x \<and> expired_entry now (seededIPs m) ip x)"
    and "errs = [] \<Longrightarrow> Entries (DnsCache K) (world m') ip = Some x \<Longrightarrow> \<not> expired_entry now (seededIPs m) ip x"
    and "seededIPs m' = seededIPs m"
proof -
  note law = kernel_laws(4) [OF assms(1)]
  obtain kvs ie where it: "Iterate (DnsCache K) (world m) = (kvs, ie)" by fastforce
  let ?exp = "map fst (filter (\<lambda>(ip, entry). \<not> now \<le> ExpireTs entry \<and> ip \<notin> set (seededIPs m)) kvs)"
  obtain c f fe w where dl: "deleteExpiredDNSEntries (DnsCache K) ?exp (0, 0, None) (world m) = ((c, f, fe), w)"
    by (metis prod.collapse)
  have out: "errs = joinDNSGCErrors ie f fe" "m' = m\<lparr>world := w\<rparr>"
    using assms(2) it dl by (simp_all add: GarbageCollectDNS_def)
  note D = deleteExpired_entries [OF law, where ks = ?exp and acc = "(0, 0, None)" and w = "world m", unfolded dl]
  show "Entries (DnsCache K) (world m') ip = None \<and>
      (\<exists>x. Entries (DnsCache K) (world m) ip = Some x \<and> expired_entry now (seededIPs m) ip x)"
    if "Entries (DnsCache K) (world m') ip \<noteq> Entries (DnsCache K) (world m) ip"
  proof -
    have "ip \<in> set ?exp" using D(1) [of ip] that out(2) by auto
    then obtain x where "(ip, x) \<in> set kvs" "\<not> now \<le> ExpireTs x" "ip \<notin> set (seededIPs m)" by auto
    then show ?thesis
      using Iterate_entries(1) [OF law it] D(2) [of ip] that out(2) by (auto simp: expired_entry_def not_le)
  qed
  show "\<not> expired_entry now (seededIPs m) ip x"
    if "errs = []" "Entries (DnsCache K) (world m') ip = Some x"
  proof
    assume e: "expired_entry now (seededIPs m) ip x"
    have z: "ie = None" "f = 0" using that(1) out(1) by (auto simp: joinDNSGCErrors_def split: option.splits if_splits)
    have "Entries (DnsCache K) (world m) ip = Some x" using D(2) [of ip] that(2) out(2) by auto
    then have "(ip, x) \<in> set kvs" using Iterate_entries(2) [OF law it z(1)] by blast
    then have "ip \<in> set ?exp" using e by (force simp: expired_entry_def not_le)
    then show False using D(3) [of ip] z(2) that(2) out(2) by simp
  qed
  show "seededIPs m' = seededIPs m" using out(2) by simp
qed

section \<open>Lemmas on enrolment\<close>

lemma close_links_frame: "links_apart K g \<Longrightarrow> Entries g (close_links K cg ns w) = Entries g w"
  unfolding close_links_def by (rule fold_frame) (rule links_frame(2))

lemma drop_pin_frame: "links_apart K g \<Longrightarrow> Entries g (drop_pin K p w) = Entries g w"
  by (simp add: drop_pin_def links_frame split: option.splits)

lemma cleanupLinks_frame:
  assumes "links_apart K g"
  shows "Entries g (world (cleanupLinks K cg m)) = Entries g (world m)"
  using fold_frame [where V = "Entries g" and f = "\<lambda>n w. OsRemove K w (pin_name n cg)", OF links_frame(4) [OF assms]]
    close_links_frame [OF assms]
  by (simp add: cleanupLinks_def Let_def split: option.splits)

lemma cleanupLinks_links: "links (cleanupLinks K cg m) = (links m)(cg := None)"
  by (auto simp: cleanupLinks_def Let_def split: option.splits)

lemma cleanupLinks_seeds: "seededIPs (cleanupLinks K cg m) = seededIPs m"
  by (simp add: cleanupLinks_def Let_def split: option.splits)

lemma attach_all_frame:
  assumes "links_apart K g"
  shows "Entries g (snd (attach_all K cg p linked ns w)) = Entries g w"
proof (induction ns arbitrary: linked w)
  case (Cons n ns)
  obtain e w1 where a: "AttachCgroup K w p n = (e, w1)" by fastforce
  have "Entries g w1 = Entries g w" using links_frame(1) [OF assms, of w p n] a by simp
  then show ?case
    using a Cons.IH close_links_frame [OF assms] links_frame(3,4) [OF assms] by (cases e) simp_all
qed simp

lemma attach_all_links: "fst (attach_all K cg p linked ns w) = Inr ls \<Longrightarrow> ls = linked @ ns"
proof (induction ns arbitrary: linked w)
  case (Cons n ns)
  then show ?case by (fastforce split: prod.splits option.splits)
qed simp

lemma clearBypass_entries:
  assumes "bpf_laws (BypassMap K)"
  shows "Entries (BypassMap K) (snd (clearBypass K cg w)) =
    (if fst (clearBypass K cg w) = None then (Entries (BypassMap K) w)(cg := None) else Entries (BypassMap K) w)"
  using MDelete_entries [OF assms, of w cg "fst (MDelete (BypassMap K) w cg)" "snd (MDelete (BypassMap K) w cg)"]
  by (auto simp: clearBypass_def tolerate_absent_def split_beta split: option.splits)

lemma clearBypass_frame: "apart (BypassMap K) g \<Longrightarrow> Entries g (snd (clearBypass K cg w)) = Entries g w"
  by (simp add: clearBypass_def split_beta apart_frame)

lemma Install_entries:
  assumes "kernel_ok K" "Install K cg path cfg m = (res, m')"
  shows "res = None \<Longrightarrow> Entries (ContainerMap K) (world m') = (Entries (ContainerMap K) (world m))(cg \<mapsto> cfg) \<and>
      links m' = (links m)(cg \<mapsto> cgroupAttachments)"
    and "res = Some (AttachFailed n e) \<Longrightarrow>
      Entries (ContainerMap K) (world m') = (Entries (ContainerMap K) (world m))(cg \<mapsto> cfg)"
    and "res \<noteq> None \<Longrightarrow> links m' = (links m)(cg := None) \<and>
      Entries (ContainerMap K) (world m') \<in>
        {Entries (ContainerMap K) (world m), (Entries (ContainerMap K) (world m))(cg \<mapsto> cfg)}"
    and "Entries (BypassMap K) (world m') =
      (if fst (clearBypass K cg (world (cleanupLinks K cg m))) = None
       then (Entries (BypassMap K) (world m))(cg := None) else Entries (BypassMap K) (world m))"
    and "Entries (RouteMap K) (world m') = Entries (RouteMap K) (world m)"
proof -
  note law = kernel_laws [OF assms(1)] and ap = kernel_apart [OF assms(1)] and li = kernel_links [OF assms(1)]
  let ?m = "cleanupLinks K cg m"
  let ?w = "snd (clearBypass K cg (world ?m))"
  have W: "Entries (ContainerMap K) ?w = Entries (ContainerMap K) (world m)"
      "Entries (RouteMap K) ?w = Entries (RouteMap K) (world m)"
      "Entries (BypassMap K) ?w = (if fst (clearBypass K cg (world ?m)) = None
         then (Entries (BypassMap K) (world m))(cg := None) else Entries (BypassMap K) (world m))"
    using clearBypass_frame ap(4,5) clearBypass_entries [OF law(2)] cleanupLinks_frame li by metis+
  obtain e' w1 where u: "Update (ContainerMap K) ?w cg cfg = (e', w1)" by fastforce
  have U: "Entries (ContainerMap K) w1 = (if e' = None then (Entries (ContainerMap K) (world m))(cg \<mapsto> cfg)
         else Entries (ContainerMap K) (world m))"
      "Entries (RouteMap K) w1 = Entries (RouteMap K) (world m)"
      "Entries (BypassMap K) w1 = Entries (BypassMap K) ?w"
    using Update_entries [OF law(1) u] W apart_frame(1) [OF ap(1), of ?w cg cfg]
      apart_frame(1) [OF ap(2), of ?w cg cfg] u by simp_all
  obtain r w2 where a: "attach_all K cg path [] cgroupAttachments w1 = (r, w2)" by fastforce
  have A: "Entries g w2 = Entries g w1" if "links_apart K g" for g :: "('a, 'k, 'v) bpf_map"
    using attach_all_frame [OF that, of cg path "[]" cgroupAttachments w1] a by simp
  have L: "r = Inr ls \<Longrightarrow> ls = cgroupAttachments" for ls
    using attach_all_links [of K cg path "[]" cgroupAttachments w1] a by simp
  let ?C = "Entries (ContainerMap K)" and ?B = "Entries (BypassMap K)"
  show "?C (world m') = (?C (world m))(cg \<mapsto> cfg) \<and> links m' = (links m)(cg \<mapsto> cgroupAttachments)" if "res = None"
    using that assms(2) u a L U(1) A [OF li(1)]
    by (cases e'; cases r) (auto simp: Install_def Let_def cleanupLinks_links)
  show "?C (world m') = (?C (world m))(cg \<mapsto> cfg)" if "res = Some (AttachFailed n e)"
    using that assms(2) u a U(1) A [OF li(1)]
    by (cases e'; cases r) (auto simp: Install_def Let_def)
  show "links m' = (links m)(cg := None) \<and> ?C (world m') \<in> {?C (world m), (?C (world m))(cg \<mapsto> cfg)}" if "res \<noteq> None"
    using that assms(2) u a U(1) A [OF li(1)]
    by (cases e'; cases r) (auto simp: Install_def Let_def cleanupLinks_links)
  have w: "world m' = w1 \<or> world m' = w2"
    using assms(2) u a by (cases e'; cases r) (auto simp: Install_def Let_def)
  show "?B (world m') = (if fst (clearBypass K cg (world ?m)) = None then (?B (world m))(cg := None) else ?B (world m))"
    using w A [OF li(2)] U(3) W(3) by metis
  show "Entries (RouteMap K) (world m') = Entries (RouteMap K) (world m)"
    using w A [OF li(3)] U(2) by metis
qed

lemma FlushAll_entries:
  assumes "kernel_ok K" "FlushAll K m = (errs, m')"
  shows "(errs = [] \<longrightarrow> Entries (ContainerMap K) (world m') = (\<lambda>_. None) \<and> Entries (BypassMap K) (world m') = (\<lambda>_. None)) \<and>
    Entries (RouteMap K) (world m') = Entries (RouteMap K) (world m) \<and>
    Entries (DnsCache K) (world m') = Entries (DnsCache K) (world m)"
proof -
  note law = kernel_laws [OF assms(1)] and ap = kernel_apart [OF assms(1)]
    and aux = kernel_aux_apart [OF assms(1)] and li = kernel_links [OF assms(1)]
  obtain e1 w1 e2 w2 e3 w3 e4 w4 e5 w5 where st:
    "drain_map (ContainerMap K) ''container_map'' (world m) = (e1, w1)" "drain_map (BypassMap K) ''bypass_map'' w1 = (e2, w2)"
    "drain_map (RatelimitState K) ''ratelimit_state'' w2 = (e3, w3)" "drain_map (UdpFlowMap K) ''udp_flow_map'' w3 = (e4, w4)"
    "drain_map (RatelimitDrops K) ''ratelimit_drops'' w4 = (e5, w5)"
    by (meson surj_pair)
  have out: "errs = e1 @ e2 @ e3 @ e4 @ e5" "world m' = CleanupAllLinks K w5"
    using assms(2) st by (auto simp: FlushAll_def)
  have links: "Entries g (world m') = Entries g w5" if "links_apart K g" for g :: "('a, 'k, 'v) bpf_map"
    using fold_frame [where V = "Entries g" and f = "drop_pin K"] drop_pin_frame [OF that] out(2)
    by (simp add: CleanupAllLinks_def split: option.splits)
  have tail: "Entries g w5 = Entries g w2"
    if "apart (RatelimitState K) g" "apart (UdpFlowMap K) g" "apart (RatelimitDrops K) g" for g :: "('a, 'k, 'v) bpf_map"
    using drain_map_frame [OF that(1), of "''ratelimit_state''" w2] drain_map_frame [OF that(2), of "''udp_flow_map''" w3]
      drain_map_frame [OF that(3), of "''ratelimit_drops''" w4] st by simp
  have C: "e1 = [] \<Longrightarrow> Entries (ContainerMap K) w2 = (\<lambda>_. None)"
    using drain_map_entries(1) [OF law(1), of "''container_map''" "world m"]
      drain_map_frame [OF ap(4), of "''bypass_map''" w1] st by simp
  have B: "e2 = [] \<Longrightarrow> Entries (BypassMap K) w2 = (\<lambda>_. None)"
    using drain_map_entries(1) [OF law(2), of "''bypass_map''" w1] st by simp
  have R: "Entries (RouteMap K) w2 = Entries (RouteMap K) (world m)"
    using drain_map_frame [OF ap(2), of "''container_map''" "world m"] drain_map_frame [OF ap(5), of "''bypass_map''" w1] st by simp
  have D: "Entries (DnsCache K) w2 = Entries (DnsCache K) (world m)"
    using drain_map_frame [OF ap(3), of "''container_map''" "world m"] drain_map_frame [OF ap(6), of "''bypass_map''" w1] st by simp
  show ?thesis
    using C B R D links [OF li(1)] links [OF li(2)] links [OF li(3)] links [OF li(4)]
      tail [OF aux(1-3)] tail [OF aux(4-6)] tail [OF aux(7-9)] tail [OF aux(10-12)] out(1) by simp
qed

section \<open>An in-memory kernel\<close>

text \<open>A kernel without failures, on association lists: the hypotheses on the kernel can hold.\<close>

definition mem_map ::
  "('w \<Rightarrow> ('k \<times> 'v) list) \<Rightarrow> (('k \<times> 'v) list \<Rightarrow> 'w \<Rightarrow> 'w) \<Rightarrow> ('w, 'k, 'v) bpf_map" where
  "mem_map get put =
     \<lparr>Entries = (\<lambda>w. map_of (get w)),
      Lookup = (\<lambda>w k. case map_of (get w) k of None \<Rightarrow> Inl ErrKeyNotExist | Some v \<Rightarrow> Inr v),
      Update = (\<lambda>w k v. (None, put (AList.update k v (get w)) w)),
      UpdateNoExist = (\<lambda>w k v. if map_of (get w) k = None then (None, put (AList.update k v (get w)) w)
                               else (Some ErrKeyExist, w)),
      MDelete = (\<lambda>w k. if map_of (get w) k = None then (Some ErrKeyNotExist, w)
                       else (None, put (AList.delete k (get w)) w)),
      Iterate = (\<lambda>w. (AList.clearjunk (get w), None))\<rparr>"

lemma mem_map_laws:
  assumes "\<And>x w. get (put x w) = x"
  shows "bpf_laws (mem_map get put)"
proof -
  have it: "Entries (mem_map get put) w k = Some v \<longleftrightarrow> (k, v) \<in> set (fst (Iterate (mem_map get put) w))" for w k v
    using map_of_clearjunk [of "get w"] distinct_clearjunk [of "get w"] map_of_eq_Some_iff
    by (fastforce simp: mem_map_def)
  show ?thesis
    unfolding bpf_laws_def
  proof (intro conjI allI impI)
    fix w kvs e assume i: "Iterate (mem_map get put) w = (kvs, e)"
    then show "\<forall>(k, v) \<in> set kvs. Entries (mem_map get put) w k = Some v" using it [of w] by auto
    fix k v assume "Entries (mem_map get put) w k = Some v"
    then show "(k, v) \<in> set kvs" using it [of w] i by simp
  qed (use assms in \<open>auto simp: mem_map_def update_conv' delete_conv' fun_eq_iff split: if_splits option.splits\<close>)
qed

lemma mem_map_apart:
  assumes "\<And>x w. get2 (put x w) = get2 w"
  shows "apart (mem_map get put) (mem_map get2 put2)"
  using assms by (simp add: apart_def mem_map_def)

record mem_world =
  wc :: "(cgroup_id \<times> ContainerConfig) list"
  wb :: "(cgroup_id \<times> 8 word) list"
  wr :: "(RouteKey \<times> 16 word) list"
  wd :: "(32 word \<times> DnsEntry) list"
  ws :: "(cgroup_id \<times> 8 word list) list"
  wu :: "(8 word list \<times> 8 word list) list"
  wp :: "(cgroup_id \<times> 64 word) list"
  pins :: "string list"

definition empty_world :: mem_world where
  "empty_world = \<lparr>wc = [], wb = [], wr = [], wd = [], ws = [], wu = [], wp = [], pins = []\<rparr>"

definition mem_kernel :: "mem_world kernel" where
  "mem_kernel =
     \<lparr>ContainerMap = mem_map wc (\<lambda>x. wc_update (\<lambda>_. x)), BypassMap = mem_map wb (\<lambda>x. wb_update (\<lambda>_. x)),
      RouteMap = mem_map wr (\<lambda>x. wr_update (\<lambda>_. x)), DnsCache = mem_map wd (\<lambda>x. wd_update (\<lambda>_. x)),
      RatelimitState = mem_map ws (\<lambda>x. ws_update (\<lambda>_. x)), UdpFlowMap = mem_map wu (\<lambda>x. wu_update (\<lambda>_. x)),
      RatelimitDrops = mem_map wp (\<lambda>x. wp_update (\<lambda>_. x)),
      AttachCgroup = (\<lambda>w p n. (None, w)), CloseLink = (\<lambda>w c n. w),
      PinLink = (\<lambda>w p. (None, w\<lparr>pins := p # pins w\<rparr>)), OsRemove = (\<lambda>w p. w\<lparr>pins := removeAll p (pins w)\<rparr>),
      UnpinLink = (\<lambda>w p. if p \<in> set (pins w) then Some (w\<lparr>pins := removeAll p (pins w)\<rparr>) else None),
      ReadPinDir = (\<lambda>w. Some (pins w))\<rparr>"

lemma mem_kernel_links: "(\<And>x w. get (w\<lparr>pins := x\<rparr>) = get w) \<Longrightarrow> links_apart mem_kernel (mem_map get put)"
  by (auto simp: links_apart_def mem_kernel_def mem_map_def split: if_splits)

lemma mem_kernel_ok: "kernel_ok mem_kernel"
  unfolding kernel_ok_def
  by (intro conjI; (simp add: mem_kernel_def mem_map_laws mem_map_apart; fail | simp only: mem_kernel_def kernel.simps)?;
      (rule mem_kernel_links [unfolded mem_kernel_def])?; simp?)

section \<open>Properties\<close>

text \<open>
  C22: a synchronisation without errors makes the route map an exact mirror of the given routes
  (the last route of a key wins) and leaves the enrolled containers and bypass flags alone.
\<close>

theorem SyncRoutes_mirrors_routes:
  assumes "kernel_ok K" "SyncRoutes K now routes m = ([], m')"
  shows "Entries (RouteMap K) (world m') = map_of (rev (map (\<lambda>r. (route_key r, REnvoyPort r)) routes)) \<and>
    Entries (ContainerMap K) (world m') = Entries (ContainerMap K) (world m) \<and>
    Entries (BypassMap K) (world m') = Entries (BypassMap K) (world m)"
proof -
  obtain w1 w2 w3 where st: "drain_map (RouteMap K) ''route_map'' (world m) = ([], w1)"
    "for_each (sync_update K) routes w1 = ([], w2)" "for_each (seed_route K now) routes w2 = ([], w3)"
    "world m' = fold (\<lambda>ip w. snd (MDelete (DnsCache K) w ip)) (snd (diffSeededIPs routes (seededIPs m))) w3"
    "seededIPs m' = fst (diffSeededIPs routes (seededIPs m))"
    by (rule SyncRoutes_ok_stages [OF assms(2)])
  note law = kernel_laws(3) [OF assms(1)] and ap = kernel_apart(12) [OF assms(1)]
  have "Entries (RouteMap K) (world m') = Entries (RouteMap K) w3"
    unfolding st(4) by (rule fold_deletes_frame [OF ap])
  also have "\<dots> = Entries (RouteMap K) w2"
    using for_each_frame [of routes "Entries (RouteMap K)" "seed_route K now" w2] seed_route_frame [OF ap] st(3) by simp
  also have "\<dots> = Entries (RouteMap K) w1 ++ map_of (rev (map (\<lambda>r. (route_key r, REnvoyPort r)) routes))"
    using sync_updates_entries(1) [OF law, of routes w1] st(2) by simp
  also have "Entries (RouteMap K) w1 = Map.empty"
    using drain_map_entries(1) [OF law, of "''route_map''" "world m"] st(1) by simp
  finally show ?thesis using SyncRoutes_frames [OF assms] by simp
qed

text \<open>
  Theorem: a route that should be gone is never left behind silently. Whatever calls fail, every
  route in the map after a synchronisation either comes from the given routes or was there before
  and the synchronisation reports an error.
\<close>

theorem SyncRoutes_stale_reported:
  assumes "kernel_ok K" "SyncRoutes K now routes m = (errs, m')"
    "Entries (RouteMap K) (world m') k = Some v"
  shows "(\<exists>r \<in> set routes. k = route_key r \<and> v = REnvoyPort r) \<or>
    errs \<noteq> [] \<and> Entries (RouteMap K) (world m) k = Some v"
proof -
  obtain w1 w2 w3 e1 e2 e3 where st: "drain_map (RouteMap K) ''route_map'' (world m) = (e1, w1)"
    "for_each (sync_update K) routes w1 = (e2, w2)" "for_each (seed_route K now) routes w2 = (e3, w3)"
    "errs = e1 @ e2 @ e3"
    "world m' = fold (\<lambda>ip w. snd (MDelete (DnsCache K) w ip)) (snd (diffSeededIPs routes (seededIPs m))) w3"
    using SyncRoutes_stages [OF assms(2)] by metis
  note law = kernel_laws(3) [OF assms(1)] and ap = kernel_apart(12) [OF assms(1)]
  have "Entries (RouteMap K) w3 = Entries (RouteMap K) w2"
    using for_each_frame [of routes "Entries (RouteMap K)" "seed_route K now" w2] seed_route_frame [OF ap] st(3) by simp
  then have "Entries (RouteMap K) w2 k = Some v"
    using assms(3) fold_deletes_frame [OF ap] st(5) by simp
  then consider "(k, v) \<in> set (map (\<lambda>r. (route_key r, REnvoyPort r)) routes)" | "Entries (RouteMap K) w1 k = Some v"
    using sync_updates_entries(2) [OF law, of routes w1 k v] st(2) by auto
  then show ?thesis
  proof cases
    case 2
    then have "e1 \<noteq> []" "Entries (RouteMap K) (world m) k = Some v"
      using drain_map_entries [OF law, of "''route_map''" "world m"] st(1) by (auto, metis option.distinct(1) option.inject)
    then show ?thesis using st(4) by simp
  qed auto
qed

text \<open>
  Theorem: after a synchronisation without errors every IP-literal route has its DNS cache entry and
  is protected from garbage collection, an entry that was already there (CoreDNS owns it) is kept
  as it is, and a fresh seed carries the hash of a route for that address.
\<close>

theorem SyncRoutes_seeds:
  assumes "kernel_ok K" "SyncRoutes K now routes m = ([], m')" "r \<in> set routes" "SeedIP r \<noteq> 0"
  shows "SeedIP r \<in> set (seededIPs m') \<and>
    (\<exists>x. Entries (DnsCache K) (world m') (SeedIP r) = Some x \<and>
       (Entries (DnsCache K) (world m) (SeedIP r) = Some x \<or>
        (\<exists>r' \<in> set routes. SeedIP r' = SeedIP r \<and>
           x = \<lparr>EDomainHash = RHash r', ExpireTs = now + dnsSeedTTLSeconds\<rparr>)))"
proof -
  obtain w1 w2 w3 where st: "drain_map (RouteMap K) ''route_map'' (world m) = ([], w1)"
    "for_each (sync_update K) routes w1 = ([], w2)" "for_each (seed_route K now) routes w2 = ([], w3)"
    "world m' = fold (\<lambda>ip w. snd (MDelete (DnsCache K) w ip)) (snd (diffSeededIPs routes (seededIPs m))) w3"
    "seededIPs m' = fst (diffSeededIPs routes (seededIPs m))"
    by (rule SyncRoutes_ok_stages [OF assms(2)])
  note law = kernel_laws(4) [OF assms(1)] and ap = kernel_apart(9) [OF assms(1)]
  have seeded: "SeedIP r \<in> set (seededIPs m')" using st(5) assms(3,4) by (simp add: diffSeededIPs_def Let_def)
  then have "SeedIP r \<notin> set (snd (diffSeededIPs routes (seededIPs m)))"
    unfolding st(5) by (simp add: diffSeededIPs_def Let_def)
  then have e3: "Entries (DnsCache K) (world m') (SeedIP r) = Entries (DnsCache K) w3 (SeedIP r)"
    unfolding st(4) by (rule fold_deletes(1) [OF law])
  have "Entries (DnsCache K) w2 = Entries (DnsCache K) w1"
    using for_each_frame [of routes "Entries (DnsCache K)" "sync_update K" w1] sync_update_frame [OF ap] st(2) by simp
  also have "\<dots> = Entries (DnsCache K) (world m)" using drain_map_frame [OF ap] st(1) by (metis snd_conv)
  finally have w2: "Entries (DnsCache K) w2 = Entries (DnsCache K) (world m)" .
  obtain x where "Entries (DnsCache K) w3 (SeedIP r) = Some x"
    using seed_routes_present [OF law, of now routes w2 r] st(3) assms(3,4) by auto
  then show ?thesis using seed_routes_new [OF law, of now routes w2 "SeedIP r" x] st(3) seeded e3 w2 by auto
qed

text \<open>
  Theorem: garbage collection removes only entries that have expired and are not seeds, and a sweep
  without errors leaves none of them.
\<close>

theorem GarbageCollectDNS_exact:
  assumes "kernel_ok K" "GarbageCollectDNS K now m = ((n, errs), m')"
  shows "(\<forall>ip. Entries (DnsCache K) (world m') ip = Entries (DnsCache K) (world m) ip \<or>
      Entries (DnsCache K) (world m') ip = None \<and>
      (\<exists>x. Entries (DnsCache K) (world m) ip = Some x \<and> expired_entry now (seededIPs m) ip x)) \<and>
    (errs = [] \<longrightarrow>
      (\<forall>ip x. Entries (DnsCache K) (world m') ip = Some x \<longrightarrow> \<not> expired_entry now (seededIPs m) ip x))"
  using GarbageCollectDNS_entries [OF assms] by blast

text \<open>
  The life of the DNS cache: synchronisations that succeed, garbage collections at any time and
  with any failures, and writes by the CoreDNS plugin, which adds or overwrites entries.
\<close>

inductive dns_step :: "'w kernel \<Rightarrow> 'w Manager \<Rightarrow> 'w Manager \<Rightarrow> bool" for K where
  sync: "SyncRoutes K now routes m = ([], m') \<Longrightarrow> dns_step K m m'"
| gc: "GarbageCollectDNS K now m = (out, m') \<Longrightarrow> dns_step K m m'"
| plugin: "(\<And>ip. Entries (DnsCache K) (world m) ip \<noteq> None \<Longrightarrow> Entries (DnsCache K) w' ip \<noteq> None) \<Longrightarrow>
    dns_step K m (m\<lparr>world := w'\<rparr>)"

inductive dns_run :: "'w kernel \<Rightarrow> 'w Manager \<Rightarrow> 'w Manager \<Rightarrow> bool" for K where
  refl: "dns_run K m m"
| step: "dns_run K m m' \<Longrightarrow> dns_step K m' m'' \<Longrightarrow> dns_run K m m''"

inductive_cases dns_stepE: "dns_step K m m'"

definition seeds_present :: "'w kernel \<Rightarrow> 'w Manager \<Rightarrow> bool" where
  "seeds_present K m \<longleftrightarrow> (\<forall>ip \<in> set (seededIPs m). Entries (DnsCache K) (world m) ip \<noteq> None)"

lemma sync_seeds_present:
  assumes "kernel_ok K" "SyncRoutes K now routes m = ([], m')"
  shows "seeds_present K m'"
  unfolding seeds_present_def
proof
  fix ip assume "ip \<in> set (seededIPs m')"
  moreover obtain w1 w2 w3 where "drain_map (RouteMap K) ''route_map'' (world m) = ([], w1)"
    "for_each (sync_update K) routes w1 = ([], w2)" and st: "for_each (seed_route K now) routes w2 = ([], w3)"
    "world m' = fold (\<lambda>ip w. snd (MDelete (DnsCache K) w ip)) (snd (diffSeededIPs routes (seededIPs m))) w3"
    "seededIPs m' = fst (diffSeededIPs routes (seededIPs m))"
    by (rule SyncRoutes_ok_stages [OF assms(2)])
  ultimately obtain r where r: "r \<in> set routes" "SeedIP r = ip" "SeedIP r \<noteq> 0"
      "ip \<notin> set (snd (diffSeededIPs routes (seededIPs m)))"
    by (auto simp: diffSeededIPs_def Let_def)
  show "Entries (DnsCache K) (world m') ip \<noteq> None"
    using seed_routes_present [OF kernel_laws(4) [OF assms(1)], of now routes w2 r] r st(1)
      fold_deletes(1) [OF kernel_laws(4) [OF assms(1)] r(4)] st(2) by simp
qed

lemma dns_step_seeds_present:
  assumes "kernel_ok K" "dns_step K m m'" "seeds_present K m"
  shows "seeds_present K m'"
  using assms(2)
proof (cases rule: dns_step.cases)
  case (sync now routes)
  then show ?thesis using sync_seeds_present [OF assms(1)] by blast
next
  case (gc now out)
  obtain n errs where "out = (n, errs)" by fastforce
  with gc have "GarbageCollectDNS K now m = ((n, errs), m')" by simp
  note G = GarbageCollectDNS_entries [OF assms(1) this]
  show ?thesis
    unfolding seeds_present_def
  proof
    fix ip assume ip: "ip \<in> set (seededIPs m')"
    then have "Entries (DnsCache K) (world m') ip = Entries (DnsCache K) (world m) ip"
      using G(1) [of ip] G(3) by (auto simp: expired_entry_def)
    then show "Entries (DnsCache K) (world m') ip \<noteq> None"
      using assms(3) ip G(3) by (simp add: seeds_present_def)
  qed
next
  case (plugin w')
  then show ?thesis using assms(3) unfolding seeds_present_def by fastforce
qed

text \<open>
  Theorem: a live IP rule never loses its DNS cache entry. Once a synchronisation has succeeded, no
  sequence of further synchronisations, sweeps and plugin writes removes the entry of an address
  that is still seeded.
\<close>

theorem seeds_survive:
  assumes "kernel_ok K" "SyncRoutes K now routes m0 = ([], m)" "dns_run K m m'" "ip \<in> set (seededIPs m')"
  shows "Entries (DnsCache K) (world m') ip \<noteq> None"
proof -
  have "seeds_present K m'"
    using assms(3) sync_seeds_present [OF assms(1,2)] by induction (auto intro: dns_step_seeds_present [OF assms(1)])
  then show ?thesis using assms(4) by (simp add: seeds_present_def)
qed

text \<open>
  Theorem: what enrolling a container leaves behind. If \<open>Install\<close> succeeds, the container's
  configuration is in the container map, all nine programs are linked, and the bypass flag is gone
  unless clearing it failed, which \<open>Install\<close> does not report. If attaching a program fails, the
  configuration stays in the map although the links made so far are closed. In every case other
  containers' configurations and flags and the routes are untouched.
\<close>

theorem Install_outcomes:
  assumes "kernel_ok K" "Install K cg path cfg m = (res, m')"
  shows "(res = None \<longrightarrow>
      Entries (ContainerMap K) (world m') cg = Some cfg \<and> links m' cg = Some cgroupAttachments \<and>
      (fst (clearBypass K cg (world (cleanupLinks K cg m))) = None \<longrightarrow> Entries (BypassMap K) (world m') cg = None)) \<and>
    (\<forall>n e. res = Some (AttachFailed n e) \<longrightarrow>
      Entries (ContainerMap K) (world m') cg = Some cfg \<and> links m' cg = None) \<and>
    (\<forall>other. other \<noteq> cg \<longrightarrow>
      Entries (ContainerMap K) (world m') other = Entries (ContainerMap K) (world m) other \<and>
      Entries (BypassMap K) (world m') other = Entries (BypassMap K) (world m) other \<and>
      links m' other = links m other) \<and>
    Entries (RouteMap K) (world m') = Entries (RouteMap K) (world m)"
  using Install_entries [OF assms] by (cases res) auto

text \<open>
  Theorem: the start-up pass clears exactly the bypass flags of unknown cgroups. A flag of an enrolled
  container is kept whatever fails, and if the pass reports no error every remaining flag belongs
  to an enrolled container, so no reused cgroup ID can inherit a bypass.
\<close>

theorem CleanupStaleBypass_exact:
  assumes "kernel_ok K" "CleanupStaleBypass K m = ((n, errs), m')"
  shows "(\<forall>cg. Entries (ContainerMap K) (world m) cg \<noteq> None \<longrightarrow>
      Entries (BypassMap K) (world m') cg = Entries (BypassMap K) (world m) cg) \<and>
    (errs = [] \<longrightarrow> (\<forall>cg. Entries (BypassMap K) (world m') cg \<noteq> None \<longrightarrow>
      Entries (ContainerMap K) (world m') cg \<noteq> None)) \<and>
    Entries (ContainerMap K) (world m') = Entries (ContainerMap K) (world m)"
proof -
  note law = kernel_laws [OF assms(1)] and ap = kernel_apart [OF assms(1)]
  obtain kvs ie where it: "Iterate (BypassMap K) (world m) = (kvs, ie)" by fastforce
  let ?v = "map (\<lambda>(k, v). (k, Lookup (ContainerMap K) (world m) k)) kvs"
  let ?stale = "map fst (filter (\<lambda>(k, r). r = Inl ErrKeyNotExist) ?v)"
  let ?bad = "filter (\<lambda>(k, r). isl r \<and> r \<noteq> Inl ErrKeyNotExist) ?v"
  obtain d w where dl: "for_each (delete_key (BypassMap K) ''bypass_map'') ?stale (world m) = (d, w)" by fastforce
  have out: "errs = map (\<lambda>(k, r). LookupFailed (projl r)) ?bad @
        (case ie of None \<Rightarrow> [] | Some e \<Rightarrow> [IterateFailed ''bypass_map'' e]) @ d" "world m' = w"
    using assms(2) it dl by (auto simp: CleanupStaleBypass_def Let_def)
  have frame: "Entries (ContainerMap K) w = Entries (ContainerMap K) (world m)"
    using for_each_frame [of ?stale "Entries (ContainerMap K)" "delete_key (BypassMap K) ''bypass_map''" "world m"]
      delete_key_frame [OF ap(4)] dl by simp
  have keep: "Entries (BypassMap K) w cg = Entries (BypassMap K) (world m) cg"
    if "Entries (ContainerMap K) (world m) cg \<noteq> None" for cg
  proof -
    have "cg \<notin> set ?stale" using Lookup_entries(2) [OF law(1)] that by fastforce
    then show ?thesis
      using deletes_entries(2) [OF law(2), of cg ?stale "''bypass_map''" "world m"] dl by simp
  qed
  have clean: "Entries (ContainerMap K) (world m) cg \<noteq> None" if "errs = []" "Entries (BypassMap K) w cg \<noteq> None" for cg
  proof -
    note ne = that(2)
    have e: "ie = None" "d = []" "?bad = []" using that(1) out(1) by (auto split: option.splits)
    have D: "Entries (BypassMap K) w = (\<lambda>k. if k \<in> set ?stale then None else Entries (BypassMap K) (world m) k)"
      using deletes_entries(1) [OF law(2), of "''bypass_map''" ?stale "world m"] dl e(2) by simp
    then obtain v where "Entries (BypassMap K) (world m) cg = Some v" "cg \<notin> set ?stale"
      using ne by (auto split: if_splits)
    then have "(cg, v) \<in> set kvs" using Iterate_entries(2) [OF law(2) it e(1)] by blast
    then have in_v: "(cg, Lookup (ContainerMap K) (world m) cg) \<in> set ?v" by force
    have "Lookup (ContainerMap K) (world m) cg \<noteq> Inl ErrKeyNotExist"
    proof
      assume "Lookup (ContainerMap K) (world m) cg = Inl ErrKeyNotExist"
      then have "(cg, Inl ErrKeyNotExist) \<in> set (filter (\<lambda>(k, r). r = Inl ErrKeyNotExist) ?v)"
        using in_v by simp
      then show False using \<open>cg \<notin> set ?stale\<close> by force
    qed
    moreover have "\<not> (isl (Lookup (ContainerMap K) (world m) cg) \<and>
        Lookup (ContainerMap K) (world m) cg \<noteq> Inl ErrKeyNotExist)"
      using e(3) in_v by (simp only: filter_empty_conv) blast
    ultimately obtain c where "Lookup (ContainerMap K) (world m) cg = Inr c"
      by (cases "Lookup (ContainerMap K) (world m) cg") auto
    then show ?thesis using Lookup_entries(1) [OF law(1)] by simp
  qed
  show ?thesis using frame keep clean out(2) by simp
qed

text \<open>
  Theorem: draining without errors leaves no enrolled container and no bypass flag, and touches
  neither the routes nor the DNS cache.
\<close>

theorem FlushAll_empties:
  assumes "kernel_ok K" "FlushAll K m = (errs, m')"
  shows "(errs = [] \<longrightarrow> Entries (ContainerMap K) (world m') = (\<lambda>_. None) \<and> Entries (BypassMap K) (world m') = (\<lambda>_. None)) \<and>
    Entries (RouteMap K) (world m') = Entries (RouteMap K) (world m) \<and>
    Entries (DnsCache K) (world m') = Entries (DnsCache K) (world m)"
  by (rule FlushAll_entries [OF assms])

lemma split_on_last: "x \<notin> set t \<Longrightarrow> last (split_on x (s @ x # t)) = t \<and> length (split_on x (s @ x # t)) \<ge> 2"
proof (induction s)
  case Nil
  then show ?case using split_on_append [of x t "[]"] by simp
next
  case (Cons c s)
  then show ?case by (cases "split_on x (s @ x # t)") (auto split: list.splits)
qed

lemma split_on_first: "x \<notin> set l \<Longrightarrow> length (split_on x (l @ x # s)) = Suc (length (split_on x s))"
  by (simp add: split_on_prefix_sep)

lemma pin_cgroup_pin_name: "pin_cgroup (pin_name name cg) = Some cg"
proof -
  let ?t = "Itoa (uint cg)"
  have it: "?t = itoa_nat (unat cg)" by (simp add: Itoa_def)
  have "\<not> is_digit (CHR ''_'')" by code_simp
  then have t: "CHR ''_'' \<notin> set ?t" using itoa_nat_digits [of _ "unat cg"] unfolding it by blast
  have f: "pin_name name cg = ''link'' @ CHR ''_'' # name @ CHR ''_'' # ?t" by (simp add: pin_name_def)
  have "length (split_on (CHR ''_'') (pin_name name cg)) = Suc (length (split_on (CHR ''_'') (name @ CHR ''_'' # ?t)))"
    unfolding f by (rule split_on_first) simp
  then have len: "\<not> length (split_on (CHR ''_'') (pin_name name cg)) < 3"
    using split_on_last [OF t, of name] by simp
  have l: "last (split_on (CHR ''_'') (pin_name name cg)) = ?t"
    using split_on_last [OF t, of "''link_'' @ name"] by (simp add: pin_name_def)
  have "unat cg < 2 ^ 64" using unsigned_less [of cg, where ?'a = nat] by simp
  then have "ParseUint64 ?t = Some (unat cg)"
    unfolding it by (simp add: ParseUint64_def atoi_unsigned_def digits_val_itoa)
  then show ?thesis using len l by (simp add: pin_cgroup_def Let_def pin_name_def HasPrefix_def)
qed

text \<open>
  Theorem: pin files survive a restart exactly as long as their cgroup is enrolled. The name of a pin
  file parses back to its cgroup ID, so if every pinned link belongs to an enrolled cgroup the
  start-up cleanup removes nothing.
\<close>

theorem cleanupStaleLinks_keeps_live:
  assumes "ReadPinDir K w = Some entries"
    "list_all (\<lambda>e. \<exists>name cg c. e = pin_name name cg \<and> Lookup (ContainerMap K) w cg = Inr c) entries"
  shows "cleanupStaleLinks K True w = w"
proof -
  have "filter (\<lambda>e. case pin_cgroup e of None \<Rightarrow> False | Some cg \<Rightarrow> \<not> \<not> isl (Lookup (ContainerMap K) w cg)) entries = []"
    using assms(2) by (auto simp: filter_empty_conv list_all_iff pin_cgroup_pin_name)
  then show ?thesis using assms(1) by (simp add: cleanupStaleLinks_def)
qed

section \<open>Escalation\<close>

definition streak :: "gc_outcome list \<Rightarrow> nat" where
  "streak outs = length (takeWhile (\<lambda>out. \<not> dnsGCSweep out) (rev outs))"

lemma streak_snoc: "streak (outs @ [out]) = (if dnsGCSweep out then 0 else Suc (streak outs))"
  by (simp add: streak_def)

fun failures_after :: "dnsGCEscalator \<Rightarrow> gc_outcome list \<Rightarrow> dnsGCEscalator" where
  "failures_after e [] = e"
| "failures_after e (out # outs) = failures_after (snd (record_sweep e (dnsGCSweep out))) outs"

lemma failures_after_snoc:
  "failures_after e (outs @ [out]) = snd (record_sweep (failures_after e outs) (dnsGCSweep out))"
  by (induction outs arbitrary: e) simp_all

lemma escalations_nth:
  "i < length outs \<Longrightarrow>
     escalations e outs ! i = fst (record_sweep (failures_after e (take i outs)) (dnsGCSweep (outs ! i)))"
  by (induction outs arbitrary: e i) (auto simp: split_beta Let_def nth_Cons split: nat.splits)

lemma failures_streak:
  assumes "failures e = 0"
  shows "failures (failures_after e outs) = int (streak outs) \<and> threshold (failures_after e outs) = threshold e"
proof (induction outs rule: rev_induct)
  case Nil
  then show ?case using assms by (simp add: streak_def)
next
  case (snoc out outs)
  then show ?case by (simp add: failures_after_snoc streak_snoc record_sweep_def Let_def)
qed

text \<open>
  Theorem: a failing collector is reported exactly once per streak. The degraded line is emitted on
  the sweeps at which the number of consecutive failures reaches the threshold, never before and
  never again until a sweep succeeds.
\<close>

theorem escalates_once_per_streak:
  assumes "i < length outs"
  shows "escalations (new_escalator t) outs ! i \<longleftrightarrow>
    int (streak (take (Suc i) outs)) = (if t \<le> 0 then dnsGCDegradedThreshold else t)"
proof -
  have F: "failures (failures_after (new_escalator t) (take i outs)) = int (streak (take i outs))"
    "threshold (failures_after (new_escalator t) (take i outs)) = (if t \<le> 0 then dnsGCDegradedThreshold else t)"
    using failures_streak [of "new_escalator t" "take i outs"] by (simp_all add: new_escalator_def)
  show ?thesis
    unfolding escalations_nth [OF assms] take_Suc_conv_app_nth [OF assms] streak_snoc
    using F by (auto simp: record_sweep_def Let_def dnsGCDegradedThreshold_def)
qed

section \<open>Witnesses\<close>

definition sample_route :: Route where
  "sample_route = \<lparr>RHash = 7, RDstPort = 443, REnvoyPort = 10000, RL4Proto = 1, SeedIP = 16843009\<rparr>"

definition sample_config :: ContainerConfig where
  "sample_config = \<lparr>EnvoyIp = 1, CorednsIp = 2, GatewayIp = 3, NetAddr = 0, NetMask = 0, HostProxyIp = 0,
     HostProxyPort = 0, CEgressPort = 10000\<rparr>"

definition synced :: "mem_world Manager" where
  "synced = snd (SyncRoutes mem_kernel 1000 [sample_route] (NewManager empty_world))"

lemma synced_ok: "SyncRoutes mem_kernel 1000 [sample_route] (NewManager empty_world) = ([], synced)"
proof -
  have "fst (SyncRoutes mem_kernel 1000 [sample_route] (NewManager empty_world)) = []"
    by (simp add: SyncRoutes_def mem_kernel_def mem_map_def NewManager_def empty_world_def drain_map_def
      sync_update_def seed_route_def seedDNSCacheIfAbsent_def sample_route_def diffSeededIPs_def)
  then show ?thesis by (metis synced_def prod.collapse)
qed

lemma synced_seeds: "seededIPs synced = [16843009]"
  by (simp add: synced_def SyncRoutes_def split_beta diffSeededIPs_def sample_route_def Let_def)

theorem SyncRoutes_mirrors_routes_witness:
  "Entries (RouteMap mem_kernel) (world synced) = map_of (rev (map (\<lambda>r. (route_key r, REnvoyPort r)) [sample_route]))"
  using SyncRoutes_mirrors_routes [OF mem_kernel_ok synced_ok] by blast

theorem SyncRoutes_stale_reported_witness:
  "\<exists>r \<in> set [sample_route]. route_key sample_route = route_key r \<and> 10000 = REnvoyPort r"
proof -
  have "Entries (RouteMap mem_kernel) (world synced) (route_key sample_route) = Some 10000"
    by (simp add: synced_def SyncRoutes_def mem_kernel_def mem_map_def NewManager_def empty_world_def drain_map_def
      sync_update_def seed_route_def seedDNSCacheIfAbsent_def sample_route_def diffSeededIPs_def)
  then show ?thesis using SyncRoutes_stale_reported [OF mem_kernel_ok synced_ok] by blast
qed

theorem SyncRoutes_seeds_witness: "16843009 \<in> set (seededIPs synced)"
  using SyncRoutes_seeds [OF mem_kernel_ok synced_ok, of sample_route] by (simp add: sample_route_def)

definition gc_result :: "(nat \<times> manager_error list) \<times> mem_world Manager" where
  "gc_result = GarbageCollectDNS mem_kernel 5000 synced"

lemma gc_result_run: "GarbageCollectDNS mem_kernel 5000 synced = ((fst (fst gc_result), snd (fst gc_result)), snd gc_result)"
  by (simp add: gc_result_def)

theorem GarbageCollectDNS_exact_witness:
  "Entries (DnsCache mem_kernel) (world (snd gc_result)) 16843009 =
     Entries (DnsCache mem_kernel) (world synced) 16843009"
  using GarbageCollectDNS_exact [OF mem_kernel_ok gc_result_run, THEN conjunct1, rule_format, of 16843009]
  by (simp add: expired_entry_def synced_seeds)

theorem seeds_survive_witness: "Entries (DnsCache mem_kernel) (world (snd gc_result)) 16843009 \<noteq> None"
proof (rule seeds_survive [OF mem_kernel_ok synced_ok])
  show "dns_run mem_kernel synced (snd gc_result)"
    using dns_run.step [OF dns_run.refl dns_step.gc [OF gc_result_run]] .
  show "16843009 \<in> set (seededIPs (snd gc_result))"
    using GarbageCollectDNS_entries(3) [OF mem_kernel_ok gc_result_run] by (simp add: synced_seeds)
qed

definition install_result :: "manager_error option \<times> mem_world Manager" where
  "install_result = Install mem_kernel 42 ''/sys/fs/cgroup/a'' sample_config (NewManager empty_world)"

lemma attach_mem: "fst (attach_all mem_kernel cg p linked ns w) = Inr (linked @ ns)"
  by (induction ns arbitrary: linked w) (simp_all add: mem_kernel_def)

lemma install_result_run:
  "Install mem_kernel 42 ''/sys/fs/cgroup/a'' sample_config (NewManager empty_world) = (None, snd install_result)"
proof -
  have "fst (Update (ContainerMap mem_kernel) w cg c) = None" for w cg c by (simp add: mem_kernel_def mem_map_def)
  then have "fst (Install mem_kernel 42 ''/sys/fs/cgroup/a'' sample_config (NewManager empty_world)) = None"
    using attach_mem [of 42 "''/sys/fs/cgroup/a''" "[]" cgroupAttachments]
    by (auto simp: Install_def Let_def split: prod.splits option.splits sum.splits) (metis fst_conv old.sum.distinct(1) option.distinct(1))+
  then show ?thesis by (metis install_result_def prod.collapse)
qed

theorem Install_outcomes_witness:
  "Entries (ContainerMap mem_kernel) (world (snd install_result)) 42 = Some sample_config \<and>
   links (snd install_result) 42 = Some cgroupAttachments"
  using Install_outcomes [OF mem_kernel_ok install_result_run] by simp

definition cleanup_result :: "(nat \<times> manager_error list) \<times> mem_world Manager" where
  "cleanup_result = CleanupStaleBypass mem_kernel (NewManager (empty_world\<lparr>wb := [(9, 1)]\<rparr>))"

theorem CleanupStaleBypass_exact_witness: "Entries (BypassMap mem_kernel) (world (snd cleanup_result)) 9 = None"
proof -
  have e: "cleanup_result = ((1, []), NewManager empty_world)"
    by (simp add: cleanup_result_def CleanupStaleBypass_def NewManager_def mem_kernel_def mem_map_def empty_world_def
      delete_key_def tolerate_absent_def)
  then show ?thesis
    using CleanupStaleBypass_exact [OF mem_kernel_ok, of "NewManager (empty_world\<lparr>wb := [(9, 1)]\<rparr>)" 1 "[]" "NewManager empty_world"]
    by (auto simp: cleanup_result_def mem_kernel_def mem_map_def NewManager_def empty_world_def)
qed

theorem FlushAll_empties_witness:
  "Entries (BypassMap mem_kernel) (world (snd (FlushAll mem_kernel (NewManager (empty_world\<lparr>wb := [(9, 1)]\<rparr>))))) = (\<lambda>_. None)"
proof -
  let ?m = "NewManager (empty_world\<lparr>wb := [(9, 1)]\<rparr>)"
  have "fst (FlushAll mem_kernel ?m) = []"
    by (simp add: FlushAll_def NewManager_def mem_kernel_def mem_map_def empty_world_def drain_map_def
      delete_key_def tolerate_absent_def)
  then have "FlushAll mem_kernel ?m = ([], snd (FlushAll mem_kernel ?m))" by (metis prod.collapse)
  then show ?thesis using FlushAll_empties [OF mem_kernel_ok] by blast
qed

theorem cleanupStaleLinks_keeps_live_witness:
  "cleanupStaleLinks mem_kernel True (empty_world\<lparr>wc := [(9, sample_config)], pins := [pin_name ''sock_create'' 9]\<rparr>) =
     empty_world\<lparr>wc := [(9, sample_config)], pins := [pin_name ''sock_create'' 9]\<rparr>"
  by (rule cleanupStaleLinks_keeps_live [where entries = "[pin_name ''sock_create'' 9]"])
    (auto simp: mem_kernel_def mem_map_def intro!: exI [of _ "''sock_create''"] exI [of _ 9])

theorem escalates_once_per_streak_witness:
  "escalations (new_escalator 2) [GCPanicked, GCReturned 0 [], GCPanicked, GCPanicked, GCPanicked] ! 3"
  using escalates_once_per_streak [of 3 "[GCPanicked, GCReturned 0 [], GCPanicked, GCPanicked, GCPanicked]" 2]
  by (simp add: streak_def dnsGCSweep_def)

end
