(* ===== verification/Enforcement.thy ===== *)
theory Enforcement
  imports Ebpf_Manager
begin

text \<open>
  Per-container enforcement in \<open>controlplane/firewall/handler.go\<close> and \<open>drift.go\<close>: enrolling,
  disabling and bypassing a container, the dead-man timers that end a bypass, global bring-up and
  teardown.

  Each RPC is a function on the handler state; its closure runs on the single queue worker, so it
  is one step unless the queue is closed. A timer is armed, then firing (its goroutine runs), then
  cleaning up, and every stage is a step of its own, so the theorems cover all interleavings with
  RPCs. Docker, the network and the stack are an \<open>environment\<close>: the answers they give to one
  call. Log lines are not modelled; the error values keep the branch that was taken.
\<close>

section \<open>State\<close>

record bypassEntry =
  containerID :: string
  entryCgroup :: cgroup_id

text \<open>A timer with its identity, the container it was started for and its entry.\<close>

type_synonym timer = "nat \<times> string \<times> bypassEntry"

record 'w Handler =
  ebpf :: "'w Manager"
  bypassTimers :: "string \<Rightarrow> timer option"
  armed :: "timer list"
  firing :: "timer list"
  cleaning :: "timer list"
  nextTimer :: nat
  storedCgroupID :: "string \<Rightarrow> cgroup_id option"
  published :: "(string \<times> cgroup_id) list"

record network_info =
  NEnvoyIP :: string
  NCoreDNSIP :: string
  NGateway :: string
  NCIDR :: string

record environment =
  queueClosed :: bool
  resolve :: "string \<Rightarrow> string + (string \<times> string \<times> bool)"
  cgroupIDFn :: "string \<Rightarrow> string + cgroup_id"
  networkInfo :: "string + network_info"
  cfgWired :: bool
  hostProxyEnabled :: bool
  hostProxyPort :: int
  resolveHostFn :: "string \<Rightarrow> string + string list"
  envoyEgressPort :: int
  enrolledTopic :: "bool option"

datatype enforce_error =
    ContainerIDRequired | ConfigNotWired | ResolveFailed string | ErrContainerGone string
  | CgroupIDFailed string | DiscoverNetworkFailed string | HostProxyFailed string
  | BuildConfigFailed config_error | BuildConfigPanicked
  | TimeoutTooLong int | QueueWasClosed | ManagerFailed manager_error
  | StackStopFailed string | FlushFailed "manager_error list" | RemoveConfigsFailed string
  | EnsureRunningFailed string | StackStatusFailed string

section \<open>Helpers\<close>

definition maxBypassTimeout :: int where "maxBypassTimeout = 3600"
definition defaultBypassTimeout :: int where "defaultBypassTimeout = 30"

definition bypassTimeout :: "32 word \<Rightarrow> enforce_error + int" where
  "bypassTimeout seconds =
     (let t = uint seconds; timeout = (if t \<le> 0 then defaultBypassTimeout else t)
      in if timeout > maxBypassTimeout then Inl (TimeoutTooLong timeout) else Inr timeout)"

definition publishEnrolled :: "environment \<Rightarrow> string \<Rightarrow> cgroup_id \<Rightarrow> 'w Handler \<Rightarrow> 'w Handler" where
  "publishEnrolled env cid cg h =
     (if enrolledTopic env = Some True then h\<lparr>published := published h @ [(cid, cg)]\<rparr> else h)"

text \<open>\<open>Stop\<close> on a timer keeps it from firing; a timer that has fired is not affected.\<close>

definition stop_timer :: "timer \<Rightarrow> timer list \<Rightarrow> timer list" where
  "stop_timer t ts = filter (\<lambda>t'. fst t' \<noteq> fst t) ts"

definition cancelBypassTimer :: "string \<Rightarrow> 'w Handler \<Rightarrow> 'w Handler" where
  "cancelBypassTimer cid h =
     (case bypassTimers h cid of
        Some t \<Rightarrow> h\<lparr>armed := stop_timer t (armed h), bypassTimers := (bypassTimers h)(cid := None)\<rparr>
      | None \<Rightarrow> h)"

definition CancelAllBypassTimers :: "'w Handler \<Rightarrow> 'w Handler" where
  "CancelAllBypassTimers h =
     h\<lparr>armed := filter (\<lambda>t. case bypassTimers h (fst (snd t)) of
                            Some held \<Rightarrow> fst held \<noteq> fst t | None \<Rightarrow> True) (armed h),
       bypassTimers := (\<lambda>_. None)\<rparr>"

definition resolveForEnable ::
  "environment \<Rightarrow> string \<Rightarrow> 'w Handler \<Rightarrow> (enforce_error + string \<times> string \<times> cgroup_id) \<times> 'w Handler" where
  "resolveForEnable env ref h =
     (case resolve env ref of
        Inl e \<Rightarrow> (Inl (ResolveFailed e), h)
      | Inr (cid, cgroupPath, exists) \<Rightarrow>
          if \<not> exists then (Inl (ErrContainerGone ref), h)
          else
            (case cgroupIDFn env cgroupPath of
               Inl e \<Rightarrow> (Inl (CgroupIDFailed e), h)
             | Inr cg \<Rightarrow> (Inr (cid, cgroupPath, cg), h\<lparr>storedCgroupID := (storedCgroupID h)(cid \<mapsto> cg)\<rparr>)))"

definition resolveHostProxy :: "environment \<Rightarrow> enforce_error + string \<times> 16 word" where
  "resolveHostProxy env =
     (if \<not> cfgWired env \<or> \<not> hostProxyEnabled env then Inr ([], 0)
      else
        (case resolveHostFn env ''host.docker.internal'' of
           Inl e \<Rightarrow> Inl (HostProxyFailed e)
         | Inr [] \<Rightarrow> Inl (HostProxyFailed ''no addresses'')
         | Inr (a # _) \<Rightarrow>
             (let ip = TrimSpace a in
              if ip = [] then Inl (HostProxyFailed ''empty address'')
              else Inr (ip, word_of_int (hostProxyPort env)))))"

text \<open>The container configuration built from the network and the host proxy.\<close>

definition container_config :: "environment \<Rightarrow> enforce_error + ContainerConfig" where
  "container_config env =
     (case networkInfo env of
        Inl e \<Rightarrow> Inl (DiscoverNetworkFailed e)
      | Inr ni \<Rightarrow>
          (case resolveHostProxy env of
             Inl e \<Rightarrow> Inl e
           | Inr (ip, port) \<Rightarrow>
               (case NewContainerConfig (NEnvoyIP ni) (NCoreDNSIP ni) (NGateway ni) (NCIDR ni) ip port
                       (word_of_int (envoyEgressPort env)) of
                  ConfigErr e \<Rightarrow> Inl (BuildConfigFailed e)
                | ConfigPanic \<Rightarrow> Inl BuildConfigPanicked
                | ConfigOk cfg \<Rightarrow> Inr cfg)))"

definition resolveBypassCgroupID :: "environment \<Rightarrow> bypassEntry \<Rightarrow> cgroup_id" where
  "resolveBypassCgroupID env entry =
     (if containerID entry = [] then entryCgroup entry
      else
        (case resolve env (containerID entry) of
           Inl e \<Rightarrow> entryCgroup entry
         | Inr (cid, cgroupPath, exists) \<Rightarrow>
             if \<not> exists then entryCgroup entry
             else
               (case cgroupIDFn env cgroupPath of
                  Inl e \<Rightarrow> entryCgroup entry
                | Inr freshID \<Rightarrow> freshID)))"

section \<open>RPCs\<close>

definition FirewallEnable ::
  "'w kernel \<Rightarrow> environment \<Rightarrow> string \<Rightarrow> 'w Handler \<Rightarrow> (enforce_error + unit) \<times> 'w Handler" where
  "FirewallEnable K env ref h =
     (if ref = [] then (Inl ContainerIDRequired, h)
      else if \<not> cfgWired env then (Inl ConfigNotWired, h)
      else
        (case resolveForEnable env ref h of
           (Inl e, h) \<Rightarrow> (Inl e, h)
         | (Inr (cid, path, cg), h) \<Rightarrow>
             (case container_config env of
                Inl e \<Rightarrow> (Inl e, h)
              | Inr cfg \<Rightarrow>
                  if queueClosed env then (Inl QueueWasClosed, h)
                  else
                    (case Install K cg path cfg (ebpf h) of
                       (Some e, m) \<Rightarrow> (Inl (ManagerFailed e), h\<lparr>ebpf := m\<rparr>)
                     | (None, m) \<Rightarrow>
                         (Inr (), publishEnrolled env cid cg (cancelBypassTimer cid (h\<lparr>ebpf := m\<rparr>)))))))"

definition FirewallDisable ::
  "'w kernel \<Rightarrow> environment \<Rightarrow> string \<Rightarrow> 'w Handler \<Rightarrow> (enforce_error + unit) \<times> 'w Handler" where
  "FirewallDisable K env ref h =
     (if ref = [] then (Inl ContainerIDRequired, h)
      else
        (case resolve env ref of
           Inl e \<Rightarrow> (Inl (ResolveFailed e), h)
         | Inr (cid, path, exists) \<Rightarrow>
             (case (if exists then map_sum id Some (cgroupIDFn env path) else Inr (storedCgroupID h cid)) of
                Inl e \<Rightarrow> (Inl (CgroupIDFailed e), h)
              | Inr None \<Rightarrow> (Inr (), h)
              | Inr (Some cg) \<Rightarrow>
                  if queueClosed env then (Inl QueueWasClosed, h)
                  else
                    (case Disable K cg (ebpf h) of
                       (Some e, m) \<Rightarrow> (Inl (ManagerFailed e), h\<lparr>ebpf := m\<rparr>)
                     | (None, m) \<Rightarrow> (Inr (), h\<lparr>ebpf := m\<rparr>)))))"

text \<open>Arming the dead-man timer: a timer already held for the container is stopped and replaced.\<close>

definition start_bypass_timer :: "string \<Rightarrow> cgroup_id \<Rightarrow> 'w Handler \<Rightarrow> 'w Handler" where
  "start_bypass_timer cid cg h =
     (let armed' = (case bypassTimers h cid of Some t \<Rightarrow> stop_timer t (armed h) | None \<Rightarrow> armed h);
          t = (nextTimer h, cid, \<lparr>containerID = cid, entryCgroup = cg\<rparr>)
      in h\<lparr>armed := t # armed', bypassTimers := (bypassTimers h)(cid \<mapsto> t), nextTimer := Suc (nextTimer h)\<rparr>)"

definition FirewallBypass ::
  "'w kernel \<Rightarrow> environment \<Rightarrow> string \<Rightarrow> 32 word \<Rightarrow> 'w Handler \<Rightarrow> (enforce_error + unit) \<times> 'w Handler" where
  "FirewallBypass K env ref seconds h =
     (if ref = [] then (Inl ContainerIDRequired, h)
      else
        (case bypassTimeout seconds of
           Inl e \<Rightarrow> (Inl e, h)
         | Inr timeout \<Rightarrow>
             (case resolve env ref of
                Inl e \<Rightarrow> (Inl (ResolveFailed e), h)
              | Inr (cid, path, exists) \<Rightarrow>
                  if \<not> exists then (Inl (ErrContainerGone ref), h)
                  else
                    (case cgroupIDFn env path of
                       Inl e \<Rightarrow> (Inl (CgroupIDFailed e), h)
                     | Inr cg \<Rightarrow>
                         if queueClosed env then (Inl QueueWasClosed, h)
                         else
                           (case Disable K cg (ebpf h) of
                              (Some e, m) \<Rightarrow> (Inl (ManagerFailed e), h\<lparr>ebpf := m\<rparr>)
                            | (None, m) \<Rightarrow>
                                (Inr (), start_bypass_timer cid cg
                                   (h\<lparr>ebpf := m, storedCgroupID := (storedCgroupID h)(cid \<mapsto> cg)\<rparr>)))))))"

section \<open>Timer goroutines\<close>

definition timer_fire :: "timer \<Rightarrow> 'w Handler \<Rightarrow> 'w Handler" where
  "timer_fire t h = h\<lparr>armed := remove1 t (armed h), firing := t # firing h\<rparr>"

text \<open>\<open>bypassTimerFired\<close> up to and including the queued \<open>Enable\<close>, then its deferred cleanup.\<close>

definition bypass_restore :: "'w kernel \<Rightarrow> environment \<Rightarrow> timer \<Rightarrow> 'w Handler \<Rightarrow> 'w Handler" where
  "bypass_restore K env t h =
     (let h = h\<lparr>firing := remove1 t (firing h), cleaning := t # cleaning h\<rparr>
      in if queueClosed env then h
         else h\<lparr>ebpf := snd (Enable K (resolveBypassCgroupID env (snd (snd t))) (ebpf h))\<rparr>)"

definition bypass_cleanup :: "timer \<Rightarrow> 'w Handler \<Rightarrow> 'w Handler" where
  "bypass_cleanup t h =
     h\<lparr>cleaning := remove1 t (cleaning h), bypassTimers := (bypassTimers h)(fst (snd t) := None)\<rparr>"

section \<open>Bring-up and teardown\<close>

record stack_env =
  ensureRunning :: "string option"
  stackStatus :: "string option"
  listAgents :: "(string + string list) option"
  stopErr :: "string option"
  removeConfigsErr :: "string option"

definition enroll_agent ::
  "'w kernel \<Rightarrow> environment \<Rightarrow> ContainerConfig \<Rightarrow> string \<Rightarrow> 'w Handler \<Rightarrow> 'w Handler" where
  "enroll_agent K env cfg cid h =
     (case resolve env cid of
        Inl e \<Rightarrow> h
      | Inr (rid, path, exists) \<Rightarrow>
          if \<not> exists then h
          else
            (case cgroupIDFn env path of
               Inl e \<Rightarrow> h
             | Inr cg \<Rightarrow>
                 (case Install K cg path cfg (ebpf h) of
                    (Some e, m) \<Rightarrow> h\<lparr>ebpf := m\<rparr>
                  | (None, m) \<Rightarrow>
                      publishEnrolled env rid cg
                        (h\<lparr>ebpf := m, storedCgroupID := (storedCgroupID h)(rid \<mapsto> cg)\<rparr>))))"

definition reenrollAgents :: "'w kernel \<Rightarrow> environment \<Rightarrow> stack_env \<Rightarrow> 'w Handler \<Rightarrow> 'w Handler" where
  "reenrollAgents K env st h =
     (case listAgents st of
        Some (Inr agents) \<Rightarrow>
          if \<not> cfgWired env \<or> agents = [] then h
          else
            (case container_config env of
               Inl e \<Rightarrow> h
             | Inr cfg \<Rightarrow> fold (enroll_agent K env cfg) agents h)
      | _ \<Rightarrow> h)"

definition FirewallInit ::
  "'w kernel \<Rightarrow> environment \<Rightarrow> stack_env \<Rightarrow> 32 word \<Rightarrow> EgressRule list option \<Rightarrow> EnvoyPorts \<Rightarrow> 'w Handler \<Rightarrow>
   (enforce_error + manager_error list) \<times> 'w Handler" where
  "FirewallInit K env st now store ports h =
     (if queueClosed env then (Inl QueueWasClosed, h)
      else
        (case ensureRunning st of
           Some e \<Rightarrow> (Inl (EnsureRunningFailed e), h)
         | None \<Rightarrow>
             (case stackStatus st of
                Some e \<Rightarrow> (Inl (StackStatusFailed e), h)
              | None \<Rightarrow>
                  (let (errs, m) =
                         (case store of
                            None \<Rightarrow> ([], ebpf h)
                          | Some stored \<Rightarrow>
                              SyncRoutes K now (RoutesFromRules (fst (NormalizeAndDedup stored)) ports) (ebpf h))
                   in (Inr errs, reenrollAgents K env st (h\<lparr>ebpf := m\<rparr>))))))"

definition FirewallRemove ::
  "'w kernel \<Rightarrow> environment \<Rightarrow> stack_env \<Rightarrow> 'w Handler \<Rightarrow> (enforce_error list + unit) \<times> 'w Handler" where
  "FirewallRemove K env st h =
     (if queueClosed env then (Inl [QueueWasClosed], h)
      else
        (let h = CancelAllBypassTimers h;
             (flush, m) = FlushAll K (ebpf h);
             errs = (case stopErr st of None \<Rightarrow> [] | Some e \<Rightarrow> [StackStopFailed e]) @
                    (if flush = [] then [] else [FlushFailed flush]) @
                    (case removeConfigsErr st of None \<Rightarrow> [] | Some e \<Rightarrow> [RemoveConfigsFailed e]);
             h = h\<lparr>ebpf := m, storedCgroupID := (\<lambda>_. None)\<rparr>
         in if errs \<noteq> [] then (Inl errs, h) else (Inr (), h)))"

section \<open>Bypass flags\<close>

abbreviation flags :: "'w kernel \<Rightarrow> 'w Handler \<Rightarrow> cgroup_id \<Rightarrow> 8 word option" where
  "flags K h \<equiv> Entries (BypassMap K) (world (ebpf h))"

text \<open>Clearing a bypass flag never fails.\<close>

definition clears :: "'w kernel \<Rightarrow> bool" where
  "clears K \<longleftrightarrow> (\<forall>w cg. fst (MDelete (BypassMap K) w cg) \<in> {None, Some ErrKeyNotExist})"

lemma clears_clearBypass: "clears K \<Longrightarrow> fst (clearBypass K cg w) = None"
  by (simp add: clears_def clearBypass_def tolerate_absent_def split_beta split: option.splits) (metis option.inject option.distinct(1))

lemma Disable_flags:
  assumes "kernel_ok K"
  shows "Entries (BypassMap K) (world (snd (Disable K cg m))) =
    (if fst (Disable K cg m) = None then (Entries (BypassMap K) (world m))(cg \<mapsto> 1) else Entries (BypassMap K) (world m))"
  using Update_entries [OF kernel_laws(2) [OF assms], of "world m" cg 1 "fst (Update (BypassMap K) (world m) cg 1)"]
  by (simp add: Disable_def split_beta)

lemma Enable_flags:
  assumes "kernel_ok K"
  shows "Entries (BypassMap K) (world (snd (Enable K cg m))) =
    (if fst (Enable K cg m) = None then (Entries (BypassMap K) (world m))(cg := None) else Entries (BypassMap K) (world m))"
  using MDelete_entries [OF kernel_laws(2) [OF assms], of "world m" cg "fst (MDelete (BypassMap K) (world m) cg)"]
  by (auto simp: Enable_def tolerate_absent_def split_beta split: option.splits)

lemma clears_Enable: "clears K \<Longrightarrow> fst (Enable K cg m) = None"
  by (simp add: clears_def Enable_def tolerate_absent_def split_beta split: option.splits) (metis option.inject option.distinct(1))

lemma Install_flags:
  assumes "kernel_ok K" "clears K"
  shows "Entries (BypassMap K) (world (snd (Install K cg path cfg m))) = (Entries (BypassMap K) (world m))(cg := None)"
  using Install_entries(4) [OF assms(1), of cg path cfg m "fst (Install K cg path cfg m)" "snd (Install K cg path cfg m)"]
    clears_clearBypass [OF assms(2)] by simp

lemma publishEnrolled_simps [simp]:
  "ebpf (publishEnrolled env cid cg h) = ebpf h" "bypassTimers (publishEnrolled env cid cg h) = bypassTimers h"
  "armed (publishEnrolled env cid cg h) = armed h" "firing (publishEnrolled env cid cg h) = firing h"
  "nextTimer (publishEnrolled env cid cg h) = nextTimer h" "storedCgroupID (publishEnrolled env cid cg h) = storedCgroupID h"
  by (simp_all add: publishEnrolled_def)

lemma cancelBypassTimer_simps [simp]:
  "ebpf (cancelBypassTimer cid h) = ebpf h" "firing (cancelBypassTimer cid h) = firing h"
  "nextTimer (cancelBypassTimer cid h) = nextTimer h" "storedCgroupID (cancelBypassTimer cid h) = storedCgroupID h"
  "bypassTimers (cancelBypassTimer cid h) = (bypassTimers h)(cid := None)"
  by (auto simp: cancelBypassTimer_def split: option.splits)


section \<open>The dead-man invariant\<close>

text \<open>
  What the resolver says does not drift: \<open>C\<close> are the canonical container IDs, looking up one of
  them gives it back, and every successful lookup of a container \<open>cid\<close> yields its one cgroup
  \<open>cg_of cid\<close>.
\<close>

definition stable :: "string set \<Rightarrow> (string \<Rightarrow> cgroup_id) \<Rightarrow> environment \<Rightarrow> bool" where
  "stable C cg_of env \<longleftrightarrow>
     (\<forall>ref cid path. resolve env ref = Inr (cid, path, True) \<longrightarrow>
        cid \<in> C \<and> (ref \<in> C \<longrightarrow> ref = cid) \<and> (\<forall>cg. cgroupIDFn env path = Inr cg \<longrightarrow> cg = cg_of cid))"



text \<open>The steps of the handler other than \<open>FirewallDisable\<close>, which asks for a bypass without end.\<close>

inductive hstep ::
  "string set \<Rightarrow> (string \<Rightarrow> cgroup_id) \<Rightarrow> 'w kernel \<Rightarrow> 'w Handler \<Rightarrow> 'w Handler \<Rightarrow> bool" for C cg_of K where
  enable: "stable C cg_of env \<Longrightarrow> FirewallEnable K env ref h = (res, h') \<Longrightarrow> hstep C cg_of K h h'"
| bypass: "stable C cg_of env \<Longrightarrow> FirewallBypass K env ref seconds h = (res, h') \<Longrightarrow> hstep C cg_of K h h'"
| fire: "t \<in> set (armed h) \<Longrightarrow> hstep C cg_of K h (timer_fire t h)"
| restore: "stable C cg_of env \<Longrightarrow> \<not> queueClosed env \<Longrightarrow> t \<in> set (firing h) \<Longrightarrow>
    hstep C cg_of K h (bypass_restore K env t h)"
| cleanup: "t \<in> set (cleaning h) \<Longrightarrow> hstep C cg_of K h (bypass_cleanup t h)"
| init: "FirewallInit K env st now store ports h = (res, h') \<Longrightarrow> hstep C cg_of K h h'"
| remove: "FirewallRemove K env st h = (Inr (), h') \<Longrightarrow> hstep C cg_of K h h'"

inductive_cases hstepE: "hstep C cg_of K h h'"
















lemma bypass_restore_flags:
  assumes "kernel_ok K" "clears K" "\<not> queueClosed env"
  shows "flags K (bypass_restore K env t h) = (flags K h)(resolveBypassCgroupID env (snd (snd t)) := None)"
  using Enable_flags [OF assms(1), of "resolveBypassCgroupID env (snd (snd t))" "ebpf h"] clears_Enable [OF assms(2)] assms(3)
  by (simp add: bypass_restore_def Let_def)











section \<open>Lemmas on re-enrolment\<close>

lemma Install_container:
  assumes "kernel_ok K"
  shows "Entries (ContainerMap K) (world m) c = Some cfg \<Longrightarrow>
      Entries (ContainerMap K) (world (snd (Install K cg path cfg m))) c = Some cfg"
    and "fst (Install K cg path cfg m) = None \<Longrightarrow>
      Entries (ContainerMap K) (world (snd (Install K cg path cfg m))) cg = Some cfg"
proof -
  obtain res m' where i: "Install K cg path cfg m = (res, m')" by fastforce
  note I = Install_entries [OF assms i]
  show "Entries (ContainerMap K) (world (snd (Install K cg path cfg m))) c = Some cfg"
    if "Entries (ContainerMap K) (world m) c = Some cfg"
    using that I(1,3) i by (cases res) auto
  show "Entries (ContainerMap K) (world (snd (Install K cg path cfg m))) cg = Some cfg"
    if "fst (Install K cg path cfg m) = None"
    using that I(1) i by simp
qed

lemma enroll_agent_container:
  assumes "kernel_ok K" "Entries (ContainerMap K) (world (ebpf h)) c = Some cfg"
  shows "Entries (ContainerMap K) (world (ebpf (enroll_agent K env cfg cid h))) c = Some cfg"
  using assms(2) Install_container(1) [OF assms(1) assms(2)]
  by (auto simp: enroll_agent_def split: sum.splits prod.splits if_splits option.splits) (metis snd_conv)+

lemma enroll_agents_container:
  assumes "kernel_ok K" "Entries (ContainerMap K) (world (ebpf h)) c = Some cfg"
  shows "Entries (ContainerMap K) (world (ebpf (fold (enroll_agent K env cfg) agents h))) c = Some cfg"
  using assms(2) by (induction agents arbitrary: h) (simp_all add: enroll_agent_container [OF assms(1)])

section \<open>Properties\<close>



text \<open>
  Theorem: a successful enable enforces. The container the reference resolves to has its configuration
  in the container map and all programs linked, its bypass flag is cleared, its cgroup is
  remembered and no bypass timer is held for it.
\<close>

theorem enable_enforces:
  assumes "kernel_ok K" "clears K" "FirewallEnable K env ref h = (Inr (), h')"
  shows "\<exists>cid path cg cfg. resolve env ref = Inr (cid, path, True) \<and> cgroupIDFn env path = Inr cg \<and>
    container_config env = Inr cfg \<and> Entries (ContainerMap K) (world (ebpf h')) cg = Some cfg \<and>
    links (ebpf h') cg = Some cgroupAttachments \<and> flags K h' cg = None \<and>
    storedCgroupID h' cid = Some cg \<and> bypassTimers h' cid = None"
proof -
  obtain cid path cg h1 cfg where c: "resolveForEnable env ref h = (Inr (cid, path, cg), h1)"
    "container_config env = Inr cfg" "ref \<noteq> []" "cfgWired env" "\<not> queueClosed env"
    using assms(3) by (auto simp: FirewallEnable_def split: if_splits prod.splits sum.splits)
  obtain e m where i: "Install K cg path cfg (ebpf h1) = (e, m)" by fastforce
  have e: "e = None" "h' = publishEnrolled env cid cg (cancelBypassTimer cid (h1\<lparr>ebpf := m\<rparr>))"
    using assms(3) c i by (auto simp: FirewallEnable_def split: option.splits)
  have "Entries (BypassMap K) (world m) cg = None"
    using Install_flags [OF assms(1,2), of cg path cfg "ebpf h1"] i by simp
  moreover have "Entries (ContainerMap K) (world m) cg = Some cfg" "links m cg = Some cgroupAttachments"
    using Install_entries(1) [OF assms(1) i] e(1) by simp_all
  moreover have "resolve env ref = Inr (cid, path, True)" "cgroupIDFn env path = Inr cg" "storedCgroupID h1 cid = Some cg"
    using c(1) by (auto simp: resolveForEnable_def split: sum.splits prod.splits if_splits)
  ultimately show ?thesis using c(2) e(2) by auto
qed

text \<open>
  Theorem: one broken agent does not keep the others from being enforced. After re-enrolment every
  listed agent that resolves and whose installation does not fail has the current configuration in
  the container map, whatever happens to the agents before and after it in the list.
\<close>

theorem reenroll_covers_agents:
  assumes "kernel_ok K" "listAgents st = Some (Inr agents)" "cfgWired env" "container_config env = Inr cfg"
    "cid \<in> set agents" "resolve env cid = Inr (rid, path, True)" "cgroupIDFn env path = Inr cg"
    "\<forall>m. fst (Install K cg path cfg m) = None"
  shows "Entries (ContainerMap K) (world (ebpf (reenrollAgents K env st h))) cg = Some cfg"
proof -
  have "Entries (ContainerMap K) (world (ebpf (enroll_agent K env cfg cid x))) cg = Some cfg" for x
  proof -
    obtain m where "Install K cg path cfg (ebpf x) = (None, m)" using assms(8) by (metis prod.collapse)
    then show ?thesis
      using Install_container(2) [OF assms(1), of cg path cfg "ebpf x"] assms(6,7) by (simp add: enroll_agent_def)
  qed
  moreover obtain before after where "agents = before @ cid # after" using assms(5) by (metis split_list)
  ultimately have "Entries (ContainerMap K) (world (ebpf (fold (enroll_agent K env cfg) agents h))) cg = Some cfg"
    using enroll_agents_container [OF assms(1)] by simp
  moreover have "agents \<noteq> []" using assms(5) by auto
  ultimately show ?thesis using assms(2-4) by (simp add: reenrollAgents_def)
qed

text \<open>
  Theorem: a teardown without errors leaves nothing behind: no enrolled container, no bypass flag, no
  remembered cgroup, and none of the timers that were held can fire any more.
\<close>

theorem remove_leaves_nothing:
  assumes "kernel_ok K" "FirewallRemove K env st h = (Inr (), h')"
  shows "Entries (ContainerMap K) (world (ebpf h')) = (\<lambda>_. None) \<and> flags K h' = (\<lambda>_. None) \<and>
    storedCgroupID h' = (\<lambda>_. None) \<and> bypassTimers h' = (\<lambda>_. None) \<and>
    (\<forall>cid t. bypassTimers h cid = Some t \<longrightarrow> fst (snd t) = cid \<longrightarrow> t \<notin> set (armed h'))"
proof -
  let ?h = "CancelAllBypassTimers h"
  obtain errs m where f: "FlushAll K (ebpf ?h) = (errs, m)" by fastforce
  have h': "h' = ?h\<lparr>ebpf := m, storedCgroupID := (\<lambda>_. None)\<rparr>" "errs = []"
    using assms(2) f by (auto simp: FirewallRemove_def Let_def split: if_splits)
  then show ?thesis using FlushAll_entries [OF assms(1) f] by (auto simp: CancelAllBypassTimers_def)
qed

text \<open>
  Theorem: a bypass lasts between one second and an hour; a request without a timeout gets thirty
  seconds and a longer one is rejected.
\<close>

theorem bypassTimeout_bounds:
  "bypassTimeout s = (if s = 0 then Inr 30 else if uint s \<le> 3600 then Inr (uint s) else Inl (TimeoutTooLong (uint s))) \<and>
   (case bypassTimeout s of Inr t \<Rightarrow> 1 \<le> t \<and> t \<le> 3600 | Inl _ \<Rightarrow> 3600 < uint s)"
proof -
  have "s = 0 \<longleftrightarrow> uint s \<le> 0" using unsigned_eq_0_iff [of s, where ?'a = int] uint_ge_0 [of s] by (metis order_antisym order_refl)
  moreover have "s \<noteq> 0 \<Longrightarrow> 1 \<le> uint s" using calculation by linarith
  ultimately show ?thesis
    by (auto simp: bypassTimeout_def Let_def maxBypassTimeout_def defaultBypassTimeout_def)
qed

text \<open>
  Theorem: a bypass can outlive its timer when the container's cgroup changes. If the container has a
  new cgroup by the time the timer fires, the timer clears the flag of the new cgroup and the flag
  of the old one stays set with no timer left for it.
\<close>

theorem drift_leaves_flag:
  assumes "kernel_ok K" "flags K h (entryCgroup (snd (snd t))) \<noteq> None" "containerID (snd (snd t)) \<noteq> []"
    "resolve env (containerID (snd (snd t))) = Inr (cid, path, True)" "cgroupIDFn env path = Inr cg"
    "cg \<noteq> entryCgroup (snd (snd t))" "armed h = []" "firing h = [t]"
  shows "flags K (bypass_restore K env t h) (entryCgroup (snd (snd t))) \<noteq> None \<and>
    armed (bypass_restore K env t h) = [] \<and> firing (bypass_restore K env t h) = []"
proof -
  have "resolveBypassCgroupID env (snd (snd t)) = cg" using assms(3-5) by (simp add: resolveBypassCgroupID_def)
  then show ?thesis
    using assms(2,6-8) Enable_flags [OF assms(1), of cg "ebpf h"] by (auto simp: bypass_restore_def Let_def)
qed

text \<open>
  Theorem: a renewed bypass can be lost. If a bypass is renewed while the goroutine of the previous
  timer is still running, that goroutine clears the flag just set and removes the bookkeeping of
  the new timer, which stays armed but can no longer be cancelled.
\<close>

theorem renewed_bypass_lost:
  assumes "kernel_ok K" "clears K" "t \<in> set (firing h)" "fst (snd t) = cid" "containerID (snd (snd t)) = cid"
    "resolve env cid = Inr (cid, path, True)" "cgroupIDFn env path = Inr cg" "cid \<noteq> []" "\<not> queueClosed env"
    "FirewallBypass K env cid seconds h = (Inr (), h1)"
  shows "flags K h1 cg = Some 1 \<and> flags K (bypass_cleanup t (bypass_restore K env t h1)) cg = None \<and>
    bypassTimers (bypass_cleanup t (bypass_restore K env t h1)) cid = None \<and>
    armed (bypass_cleanup t (bypass_restore K env t h1)) \<noteq> []"
proof -
  obtain m where d: "Disable K cg (ebpf h) = (None, m)"
    "h1 = start_bypass_timer cid cg (h\<lparr>ebpf := m, storedCgroupID := (storedCgroupID h)(cid \<mapsto> cg)\<rparr>)"
    using assms(6-10) by (auto simp: FirewallBypass_def split: sum.splits prod.splits option.splits)
  have "ebpf h1 = m" "armed h1 \<noteq> []" using d(2) by (simp_all add: start_bypass_timer_def Let_def)
  moreover have "flags K h1 cg = Some 1" using \<open>ebpf h1 = m\<close> Disable_flags [OF assms(1), of cg "ebpf h"] d(1) by simp
  moreover have "resolveBypassCgroupID env (snd (snd t)) = cg" using assms(5-8) by (simp add: resolveBypassCgroupID_def)
  moreover have "flags K (bypass_restore K env t h1) cg = None"
    using bypass_restore_flags [OF assms(1,2,9), of t h1] \<open>resolveBypassCgroupID env (snd (snd t)) = cg\<close> by simp
  ultimately show ?thesis using assms(4,9) by (simp add: bypass_cleanup_def bypass_restore_def Let_def)
qed

text \<open>
  Theorem: disabling a container that is gone sets its bypass flag. For a container Docker no longer
  knows, \<open>FirewallDisable\<close> falls back to the remembered cgroup and sets the flag of that cgroup,
  also when it was clear before.
\<close>

theorem disable_gone_sets_flag:
  assumes "kernel_ok K" "resolve env ref = Inr (cid, path, False)" "storedCgroupID h cid = Some cg"
    "FirewallDisable K env ref h = (Inr (), h')" "ref \<noteq> []"
  shows "flags K h' cg = Some 1"
  using assms(2-5) Disable_flags [OF assms(1), of cg "ebpf h"]
  by (auto simp: FirewallDisable_def split: if_splits prod.splits option.splits)

section \<open>Witnesses\<close>

definition sample_env :: environment where
  "sample_env =
     \<lparr>queueClosed = False, resolve = (\<lambda>ref. if ref = ''gone'' then Inr (''gone'', [], False) else Inr (ref, ''/p'', True)),
      cgroupIDFn = (\<lambda>_. Inr 42),
      networkInfo = Inr \<lparr>NEnvoyIP = ''10.0.0.2'', NCoreDNSIP = ''10.0.0.3'', NGateway = ''10.0.0.1'', NCIDR = ''10.0.0.0/24''\<rparr>,
      cfgWired = True, hostProxyEnabled = False, hostProxyPort = 0, resolveHostFn = (\<lambda>_. Inr []),
      envoyEgressPort = 10000, enrolledTopic = Some True\<rparr>"

definition fresh_handler :: "mem_world Handler" where
  "fresh_handler =
     \<lparr>ebpf = NewManager empty_world, bypassTimers = (\<lambda>_. None), armed = [], firing = [], cleaning = [], nextTimer = 0,
      storedCgroupID = (\<lambda>_. None), published = []\<rparr>"

lemma mem_kernel_clears: "clears mem_kernel"
  by (simp add: clears_def mem_kernel_def mem_map_def)



definition bypassed :: "mem_world Handler" where
  "bypassed = snd (FirewallBypass mem_kernel sample_env ''a'' 60 fresh_handler)"

lemma Disable_mem: "fst (Disable mem_kernel cg m) = None"
  by (simp add: Disable_def mem_kernel_def mem_map_def)






lemma sample_container_config: "\<exists>cfg. container_config sample_env = Inr cfg"
proof -
  have "parseIP ''10.0.0.2'' \<noteq> None" "parseIP ''10.0.0.3'' \<noteq> None" "parseIP ''10.0.0.1'' \<noteq> None" by code_simp+
  moreover have "\<exists>a m. CIDRToAddrMask ''10.0.0.0/24'' = CIDROk a m"
  proof -
    have "ParseAddr ''10.0.0.0'' = Some (V4 [10, 0, 0, 0])" by code_simp
    moreover have "cut_byte (CHR ''/'') ''10.0.0.0/24'' = Some (''10.0.0.0'', ''24'')" by code_simp
    moreover have "dtoi_run 0 ''24'' = Some (24, [])" by (simp add: is_digit_def byte_of_def)
    ultimately have "ParseCIDR ''10.0.0.0/24'' = Some (V4 [10, 0, 0, 0], 24)"
      by (simp add: ParseCIDR_def is_digit_def byte_of_def)
    then show ?thesis by (auto simp: CIDRToAddrMask_def)
  qed
  ultimately show ?thesis
    by (auto simp: container_config_def sample_env_def resolveHostProxy_def NewContainerConfig_def Let_def)
qed

definition enabled :: "mem_world Handler" where
  "enabled = snd (FirewallEnable mem_kernel sample_env ''a'' fresh_handler)"

lemma Install_mem: "fst (Install mem_kernel cg path cfg m) = None"
proof -
  have "fst (Update (ContainerMap mem_kernel) w cg c) = None" for w cg c by (simp add: mem_kernel_def mem_map_def)
  then show ?thesis
    using attach_mem [of cg path "[]" cgroupAttachments]
    by (auto simp: Install_def Let_def split: prod.splits option.splits sum.splits) (metis fst_conv old.sum.distinct(1) option.distinct(1))+
qed

lemma enabled_run: "FirewallEnable mem_kernel sample_env ''a'' fresh_handler = (Inr (), enabled)"
proof -
  obtain cfg where "container_config sample_env = Inr cfg" using sample_container_config by blast
  then have "fst (FirewallEnable mem_kernel sample_env ''a'' fresh_handler) = Inr ()"
    using Install_mem [of 42 "''/p''" cfg]
    by (auto simp: FirewallEnable_def resolveForEnable_def sample_env_def split: prod.splits option.splits) (metis fst_conv option.distinct(1))
  then show ?thesis by (metis enabled_def prod.collapse)
qed

theorem enable_enforces_witness:
  "\<exists>cid path cg cfg. resolve sample_env ''a'' = Inr (cid, path, True) \<and> cgroupIDFn sample_env path = Inr cg \<and>
    container_config sample_env = Inr cfg \<and> Entries (ContainerMap mem_kernel) (world (ebpf enabled)) cg = Some cfg \<and>
    links (ebpf enabled) cg = Some cgroupAttachments \<and> flags mem_kernel enabled cg = None \<and>
    storedCgroupID enabled cid = Some cg \<and> bypassTimers enabled cid = None"
  by (rule enable_enforces [OF mem_kernel_ok mem_kernel_clears enabled_run])

definition sample_stack :: stack_env where
  "sample_stack = \<lparr>ensureRunning = None, stackStatus = None, listAgents = Some (Inr [''gone'', ''b'']), stopErr = None,
     removeConfigsErr = None\<rparr>"

theorem reenroll_covers_agents_witness:
  "Entries (ContainerMap mem_kernel) (world (ebpf (reenrollAgents mem_kernel sample_env sample_stack fresh_handler))) 42 \<noteq> None"
proof -
  obtain cfg where c: "container_config sample_env = Inr cfg" using sample_container_config by blast
  show ?thesis
    using reenroll_covers_agents [OF mem_kernel_ok, where st = sample_stack and agents = "[''gone'', ''b'']" and env = sample_env
        and cfg = cfg and cid = "''b''" and rid = "''b''" and path = "''/p''" and cg = 42 and h = fresh_handler]
      c Install_mem by (simp add: sample_stack_def sample_env_def)
qed

theorem remove_leaves_nothing_witness:
  "storedCgroupID (snd (FirewallRemove mem_kernel sample_env sample_stack bypassed)) = (\<lambda>_. None)"
proof -
  have "fst (FlushAll mem_kernel m) = []" for m
  proof -
    have d: "fst (drain_map (mem_map get put) n w) = []" for get :: "mem_world \<Rightarrow> ('k \<times> 'v) list" and put n w
    proof -
      have "fst (for_each (delete_key (mem_map get put) n) ks w) = []" for ks w
        by (induction ks arbitrary: w) (simp_all add: delete_key_def tolerate_absent_def mem_map_def split_beta Let_def)
      then show ?thesis by (simp add: drain_map_def split_beta) (simp add: mem_map_def)
    qed
    show ?thesis by (simp add: FlushAll_def split_beta mem_kernel_def d)
  qed
  then have "fst (FirewallRemove mem_kernel sample_env sample_stack bypassed) = Inr ()"
    by (simp add: FirewallRemove_def sample_env_def sample_stack_def split_beta Let_def)
  then have "FirewallRemove mem_kernel sample_env sample_stack bypassed =
      (Inr (), snd (FirewallRemove mem_kernel sample_env sample_stack bypassed))" by (metis prod.collapse)
  then show ?thesis using remove_leaves_nothing [OF mem_kernel_ok] by blast
qed

definition sample_timer :: timer where
  "sample_timer = (0, ''a'', \<lparr>containerID = ''a'', entryCgroup = 7\<rparr>)"

definition drifting :: "mem_world Handler" where
  "drifting = fresh_handler\<lparr>ebpf := NewManager (empty_world\<lparr>wb := [(7, 1)]\<rparr>), firing := [sample_timer]\<rparr>"

theorem drift_leaves_flag_witness:
  "flags mem_kernel (bypass_restore mem_kernel sample_env sample_timer drifting) 7 \<noteq> None"
  using drift_leaves_flag [OF mem_kernel_ok, where h = drifting and t = sample_timer and env = sample_env
      and cid = "''a''" and path = "''/p''" and cg = 42]
  by (simp add: drifting_def sample_timer_def sample_env_def fresh_handler_def NewManager_def mem_kernel_def mem_map_def)

theorem renewed_bypass_lost_witness:
  "\<exists>h1. flags mem_kernel (bypass_cleanup sample_timer (bypass_restore mem_kernel sample_env sample_timer h1)) 42 = None"
proof -
  let ?h = "fresh_handler\<lparr>firing := [sample_timer]\<rparr>"
  have b: "bypassTimeout 60 = Inr 60" by (simp add: bypassTimeout_def Let_def maxBypassTimeout_def)
  have "fst (FirewallBypass mem_kernel sample_env ''a'' 60 ?h) = Inr ()"
    using Disable_mem [of 42 "ebpf ?h"] b
    by (auto simp: FirewallBypass_def sample_env_def split: prod.splits option.splits)
  then have r: "FirewallBypass mem_kernel sample_env ''a'' 60 ?h = (Inr (), snd (FirewallBypass mem_kernel sample_env ''a'' 60 ?h))"
    by (metis prod.collapse)
  show ?thesis
    using renewed_bypass_lost [OF mem_kernel_ok mem_kernel_clears, where t = sample_timer and h = ?h and cid = "''a''"
        and env = sample_env and path = "''/p''" and cg = 42 and seconds = 60, OF _ _ _ _ _ _ _ r]
    by (auto simp: sample_timer_def sample_env_def)
qed

theorem disable_gone_sets_flag_witness:
  "flags mem_kernel (snd (FirewallDisable mem_kernel sample_env ''gone''
     (fresh_handler\<lparr>storedCgroupID := [''gone'' \<mapsto> 9]\<rparr>))) 9 = Some 1"
proof -
  let ?h = "fresh_handler\<lparr>storedCgroupID := [''gone'' \<mapsto> 9]\<rparr>"
  have "fst (FirewallDisable mem_kernel sample_env ''gone'' ?h) = Inr ()"
    using Disable_mem [of 9 "ebpf ?h"]
    by (auto simp: FirewallDisable_def sample_env_def split: prod.splits option.splits)
  then have "FirewallDisable mem_kernel sample_env ''gone'' ?h = (Inr (), snd (FirewallDisable mem_kernel sample_env ''gone'' ?h))"
    by (metis prod.collapse)
  then show ?thesis
    using disable_gone_sets_flag [OF mem_kernel_ok, where env = sample_env and ref = "''gone''" and cid = "''gone''"
        and path = "[]" and h = ?h and cg = 9] by (simp add: sample_env_def)
qed

end
