(* ===== verification/Envoy_Config.thy ===== *)
theory Envoy_Config
  imports Envoy_Layout "HOL-Library.AList"
begin

text \<open>
  The accumulator of the Envoy generator, \<open>EnvoyConfig\<close> of \<open>controlplane/firewall/envoy_types.go\<close>:
  listeners with their filter chains, clusters and the permutations already built, with the checks
  that keep cluster names and filter-chain matches unique.

  The generic tree of Go maps is the datatype \<open>yaml\<close>. A map is an association list in the order of
  the source's literal; \<open>canon\<close> sorts the keys at every level, and two maps are equal in Go when
  their canonical forms are. The accumulator's own maps are association lists keyed by name.
  Marshalling belongs to \<open>yaml.v3\<close>: it is an argument \<open>marshal\<close>, applied to canonical trees
  because the package sorts map keys.
\<close>

section \<open>Trees\<close>

datatype yaml = YStr string | YInt int | YBool bool | YList "yaml list" | YMap "(string \<times> yaml) list"

fun canon :: "yaml \<Rightarrow> yaml" where
  "canon (YList ys) = YList (map canon ys)"
| "canon (YMap m) = YMap (sort_key fst (map (\<lambda>(k, v). (k, canon v)) m))"
| "canon (YStr s) = YStr s"
| "canon (YInt i) = YInt i"
| "canon (YBool b) = YBool b"

definition DeepEqual :: "yaml \<Rightarrow> yaml \<Rightarrow> bool" where
  "DeepEqual a b \<longleftrightarrow> canon a = canon b"

fun yget :: "string \<Rightarrow> yaml \<Rightarrow> yaml option" where
  "yget k (YMap m) = map_of m k"
| "yget k _ = None"

fun yset :: "string \<Rightarrow> yaml \<Rightarrow> yaml \<Rightarrow> yaml" where
  "yset k v (YMap m) = YMap (AList.update k v m)"
| "yset k v y = y"

text \<open>\<open>maps.Copy\<close>.\<close>

definition maps_Copy :: "yaml \<Rightarrow> yaml \<Rightarrow> yaml" where
  "maps_Copy dst src = (case src of YMap m \<Rightarrow> foldl (\<lambda>d (k, v). yset k v d) dst m | _ \<Rightarrow> dst)"

fun as_string :: "yaml option \<Rightarrow> string" where
  "as_string (Some (YStr s)) = s"
| "as_string _ = []"

fun as_list :: "yaml option \<Rightarrow> yaml list" where
  "as_list (Some (YList ys)) = ys"
| "as_list _ = []"

section \<open>State\<close>

record ALSConfig =
  ALSPort :: int
  MTLS :: bool

record envoyListener =
  base :: yaml
  chains :: "yaml list"
  chainBySig :: "(string \<times> nat) list"
  defaultDeny :: "yaml option"

record EnvoyConfig =
  admin :: "yaml option"
  listeners :: "(string \<times> envoyListener) list"
  clusters :: "(string \<times> yaml) list"
  seenPerms :: "string list"

datatype hcm_error = NotSingleFilter nat | NotHCM

datatype gen_error =
    UnknownListener string string
  | DuplicateMatch string string hcm_error
  | ClusterNameMissing
  | ClusterConflict string
  | ListenerNameMissing
  | ListenerConflict string
  | MarshalFailed string
  | NoTransport
  | NoUpstream string
  | QUICNeedsSNI string
  | MissingHealthListener int
  | LayoutRejected layout_error
  | BootstrapRejected string

definition NewEnvoyConfig :: EnvoyConfig where
  "NewEnvoyConfig = \<lparr>admin = None, listeners = [], clusters = [], seenPerms = []\<rparr>"

definition SetAdmin :: "yaml \<Rightarrow> EnvoyConfig \<Rightarrow> EnvoyConfig" where
  "SetAdmin a c = c\<lparr>admin := Some a\<rparr>"

definition HasListener :: "string \<Rightarrow> EnvoyConfig \<Rightarrow> bool" where
  "HasListener name c \<longleftrightarrow> map_of (listeners c) name \<noteq> None"

section \<open>Listeners\<close>

definition new_listener :: "yaml \<Rightarrow> envoyListener" where
  "new_listener b = \<lparr>base = b, chains = [], chainBySig = [], defaultDeny = None\<rparr>"

definition add_listener :: "string \<Rightarrow> yaml \<Rightarrow> EnvoyConfig \<Rightarrow> EnvoyConfig" where
  "add_listener name b c = c\<lparr>listeners := AList.update name (new_listener b) (listeners c)\<rparr>"

definition EnsureListener :: "string \<Rightarrow> string \<Rightarrow> int \<Rightarrow> EnvoyConfig \<Rightarrow> EnvoyConfig" where
  "EnsureListener name address port c =
     (if HasListener name c then c
      else add_listener name
        (YMap [(''name'', YStr name),
               (''address'', YMap [(''socket_address'',
                  YMap [(''address'', YStr address), (''port_value'', YInt port)])])]) c)"

definition EnsureQUICListener :: "string \<Rightarrow> string \<Rightarrow> int \<Rightarrow> EnvoyConfig \<Rightarrow> EnvoyConfig" where
  "EnsureQUICListener name address port c =
     (if HasListener name c then c
      else add_listener name
        (YMap [(''name'', YStr name),
               (''address'', YMap [(''socket_address'',
                  YMap [(''protocol'', YStr ''UDP''), (''address'', YStr address), (''port_value'', YInt port)])]),
               (''udp_listener_config'',
                  YMap [(''quic_options'', YMap []),
                        (''downstream_socket_config'', YMap [(''prefer_gro'', YBool True)])])]) c)"

definition EnsureRawUDPListener :: "string \<Rightarrow> string \<Rightarrow> int \<Rightarrow> EnvoyConfig \<Rightarrow> EnvoyConfig" where
  "EnsureRawUDPListener name address port c =
     (if HasListener name c then c
      else add_listener name
        (YMap [(''name'', YStr name),
               (''address'', YMap [(''socket_address'',
                  YMap [(''protocol'', YStr ''UDP''), (''address'', YStr address), (''port_value'', YInt port)])])]) c)"

definition SetListenerField :: "string \<Rightarrow> string \<Rightarrow> yaml \<Rightarrow> EnvoyConfig \<Rightarrow> gen_error + EnvoyConfig" where
  "SetListenerField listener key value c =
     (case map_of (listeners c) listener of
        None \<Rightarrow> Inl (UnknownListener ''SetListenerField'' listener)
      | Some l \<Rightarrow> Inr (c\<lparr>listeners := AList.update listener (l\<lparr>base := yset key value (base l)\<rparr>) (listeners c)\<rparr>))"

definition AddListener :: "yaml \<Rightarrow> EnvoyConfig \<Rightarrow> gen_error + EnvoyConfig" where
  "AddListener listener c =
     (let name = as_string (yget ''name'' listener) in
      if name = [] then Inl ListenerNameMissing
      else
        (case map_of (listeners c) name of
           Some existing \<Rightarrow>
             if \<not> DeepEqual (base existing) listener \<or> chains existing \<noteq> [] then Inl (ListenerConflict name)
             else Inr c
         | None \<Rightarrow> Inr (add_listener name listener c)))"

definition SetUnmatchedDeny :: "string \<Rightarrow> yaml \<Rightarrow> EnvoyConfig \<Rightarrow> gen_error + EnvoyConfig" where
  "SetUnmatchedDeny listener chain c =
     (case map_of (listeners c) listener of
        None \<Rightarrow> Inl (UnknownListener ''SetUnmatchedDeny'' listener)
      | Some l \<Rightarrow> Inr (c\<lparr>listeners := AList.update listener (l\<lparr>defaultDeny := Some chain\<rparr>) (listeners c)\<rparr>))"

section \<open>Clusters and permutations\<close>

definition AddCluster :: "yaml \<Rightarrow> EnvoyConfig \<Rightarrow> gen_error + EnvoyConfig" where
  "AddCluster cluster c =
     (let name = as_string (yget ''name'' cluster) in
      if name = [] then Inl ClusterNameMissing
      else
        (case map_of (clusters c) name of
           Some existing \<Rightarrow> if \<not> DeepEqual existing cluster then Inl (ClusterConflict name) else Inr c
         | None \<Rightarrow> Inr (c\<lparr>clusters := AList.update name cluster (clusters c)\<rparr>)))"

definition ClaimPermutation :: "string \<Rightarrow> EnvoyConfig \<Rightarrow> bool \<times> EnvoyConfig" where
  "ClaimPermutation key c =
     (if key \<in> set (seenPerms c) then (False, c) else (True, c\<lparr>seenPerms := key # seenPerms c\<rparr>))"

section \<open>Filter chains\<close>

definition hcmName :: string where
  "hcmName = ''envoy.filters.network.http_connection_manager''"

definition hcmVHosts :: "yaml \<Rightarrow> hcm_error + yaml list" where
  "hcmVHosts chain =
     (let filters = as_list (yget ''filters'' chain) in
      if length filters \<noteq> 1 then Inl (NotSingleFilter (length filters))
      else
        (let f = hd filters in
         if yget ''name'' f \<noteq> Some (YStr hcmName) then Inl NotHCM
         else
           Inr (case yget ''typed_config'' f of
                  None \<Rightarrow> []
                | Some tc \<Rightarrow>
                    (case yget ''route_config'' tc of
                       None \<Rightarrow> []
                     | Some rc \<Rightarrow> as_list (yget ''virtual_hosts'' rc)))))"

text \<open>
  The update through the nested maps. The source's type assertions panic on a chain of another
  shape; \<open>mergeHCMVHosts\<close> only calls it on chains \<open>hcmVHosts\<close> accepted, and every chain the
  generator builds with an HCM has the nested maps.
\<close>

definition setHCMVHosts :: "yaml \<Rightarrow> yaml list \<Rightarrow> yaml" where
  "setHCMVHosts chain vhosts =
     (case as_list (yget ''filters'' chain) of
        [] \<Rightarrow> chain
      | f # fs \<Rightarrow>
          (case yget ''typed_config'' f of
             None \<Rightarrow> chain
           | Some tc \<Rightarrow>
               (case yget ''route_config'' tc of
                  None \<Rightarrow> chain
                | Some rc \<Rightarrow>
                    yset ''filters''
                      (YList (yset ''typed_config''
                         (yset ''route_config'' (yset ''virtual_hosts'' (YList vhosts) rc) tc) f # fs)) chain)))"

definition vhost_name :: "yaml \<Rightarrow> string" where
  "vhost_name v = as_string (yget ''name'' v)"

definition mergeHCMVHosts :: "yaml \<Rightarrow> yaml \<Rightarrow> hcm_error + yaml" where
  "mergeHCMVHosts existing incoming =
     (case hcmVHosts existing of
        Inl e \<Rightarrow> Inl e
      | Inr ev \<Rightarrow>
          (case hcmVHosts incoming of
             Inl e \<Rightarrow> Inl e
           | Inr iv \<Rightarrow> Inr (setHCMVHosts existing (dedup_by vhost_name [] (ev @ iv)))))"

definition matchSignature :: "(yaml \<Rightarrow> string + string) \<Rightarrow> yaml option \<Rightarrow> gen_error + string" where
  "matchSignature marshal match =
     (case match of
        None \<Rightarrow> Inr []
      | Some m \<Rightarrow>
          (case marshal (canon m) of
             Inl e \<Rightarrow> Inl (MarshalFailed e)
           | Inr b \<Rightarrow> Inr b))"

definition addChain :: "(yaml \<Rightarrow> string + string) \<Rightarrow> string \<Rightarrow> yaml \<Rightarrow> EnvoyConfig \<Rightarrow> gen_error + EnvoyConfig" where
  "addChain marshal listener chain c =
     (case map_of (listeners c) listener of
        None \<Rightarrow> Inl (UnknownListener ''addChain'' listener)
      | Some l \<Rightarrow>
          (case matchSignature marshal (yget ''filter_chain_match'' chain) of
             Inl e \<Rightarrow> Inl e
           | Inr sig \<Rightarrow>
               (case map_of (chainBySig l) sig of
                  Some idx \<Rightarrow>
                    (case mergeHCMVHosts (chains l ! idx) chain of
                       Inl e \<Rightarrow> Inl (DuplicateMatch listener sig e)
                     | Inr merged \<Rightarrow>
                         Inr (c\<lparr>listeners := AList.update listener
                               (l\<lparr>chains := (chains l)[idx := merged]\<rparr>) (listeners c)\<rparr>))
                | None \<Rightarrow>
                    Inr (c\<lparr>listeners := AList.update listener
                          (l\<lparr>chainBySig := AList.update sig (length (chains l)) (chainBySig l),
                             chains := chains l @ [chain]\<rparr>) (listeners c)\<rparr>))))"

section \<open>Output\<close>

definition listener_yaml :: "envoyListener \<Rightarrow> yaml" where
  "listener_yaml l =
     (let m1 = (if chains l \<noteq> [] then yset ''filter_chains'' (YList (chains l)) (base l) else base l)
      in (case defaultDeny l of None \<Rightarrow> m1 | Some d \<Rightarrow> yset ''default_filter_chain'' d m1))"

definition listenerList :: "EnvoyConfig \<Rightarrow> yaml list" where
  "listenerList c = map (\<lambda>n. listener_yaml (the (map_of (listeners c) n))) (sort (map fst (listeners c)))"

definition clusterList :: "EnvoyConfig \<Rightarrow> yaml list" where
  "clusterList c = map (\<lambda>n. the (map_of (clusters c) n)) (sort (map fst (clusters c)))"

definition root_yaml :: "EnvoyConfig \<Rightarrow> yaml" where
  "root_yaml c =
     YMap ([(''static_resources'',
        YMap [(''listeners'', YList (listenerList c)), (''clusters'', YList (clusterList c))])] @
      (case admin c of None \<Rightarrow> [] | Some a \<Rightarrow> [(''admin'', a)]))"

definition Bytes :: "(yaml \<Rightarrow> string + string) \<Rightarrow> EnvoyConfig \<Rightarrow> string + string" where
  "Bytes marshal c = marshal (canon (root_yaml c))"

end
