(* ===== verification/Envoy_Layers.thy ===== *)
theory Envoy_Layers
  imports Envoy_Config
begin

text \<open>
  The building blocks of the Envoy generator: the context threaded through a permutation
  (\<open>genCtx\<close> of \<open>envoy_types.go\<close>), the access-log builders (\<open>envoy_accesslog.go\<close>), the upstream
  clusters (\<open>envoy_upstream.go\<close>), the transports (\<open>envoy_tcp.go\<close>, \<open>envoy_tls.go\<close>, \<open>envoy_udp.go\<close>) and
  the HTTP application block (\<open>envoy_http.go\<close>). A layer is a function from the context to an error
  or the context it leaves; the shared configuration is a field of the context.
\<close>

section \<open>Constants and names\<close>

definition egressListenerName :: string where "egressListenerName = ''egress''"
definition egressQUICListenerName :: string where "egressQUICListenerName = ''egress_quic''"
definition healthListenerName :: string where "healthListenerName = ''health_check''"
definition defaultBindAddress :: string where "defaultBindAddress = ''0.0.0.0''"
definition otelCollectorALSClusterName :: string where "otelCollectorALSClusterName = ''otel_collector_als''"
definition dynamicForwardProxyFilterName :: string where
  "dynamicForwardProxyFilterName = ''envoy.filters.http.dynamic_forward_proxy''"
definition httpDFPClusterName :: string where "httpDFPClusterName = ''http_dfp''"
definition httpDFPCacheName :: string where "httpDFPCacheName = ''http_dfp_cache''"
definition httpsDFPClusterName :: string where "httpsDFPClusterName = ''https_dfp''"
definition httpsDFPCacheName :: string where "httpsDFPCacheName = ''https_dfp_cache''"
definition wssDFPClusterName :: string where "wssDFPClusterName = ''wss_dfp''"
definition denyClusterName :: string where "denyClusterName = ''deny_cluster''"
definition upstreamTrustedCAFile :: string where
  "upstreamTrustedCAFile = ''/etc/ssl/certs/ca-certificates.crt''"
definition firewallBlockedBody :: string where "firewallBlockedBody = ''Forbidden'' @ [CHR 0x0A]"
definition VerdictAllowed :: string where "VerdictAllowed = ''allowed''"
definition VerdictDenied :: string where "VerdictDenied = ''denied''"
definition MonitoringServiceOtelCollector :: string where "MonitoringServiceOtelCollector = ''otel-collector''"

definition envoyCertFile :: "string \<Rightarrow> string" where
  "envoyCertFile domain = ''/etc/envoy/certs/'' @ domain @ ''-cert.pem''"

definition envoyKeyFile :: "string \<Rightarrow> string" where
  "envoyKeyFile domain = ''/etc/envoy/certs/'' @ domain @ ''-key.pem''"

definition certBasename :: "string \<Rightarrow> string" where
  "certBasename dst = replace_byte (CHR ''/'') ''_'' (normalizeDomain dst)"

definition sanitizeName :: "string \<Rightarrow> string" where
  "sanitizeName s = map (\<lambda>c. if c \<in> set ''.-:/'' then CHR ''_'' else c) s"

section \<open>Context\<close>

record genCtx =
  crule :: EgressRule
  cports :: EnvoyPorts
  cals :: ALSConfig
  cfg :: EnvoyConfig
  listener :: string
  chain_match :: "yaml option"
  socket :: "yaml option"
  filters :: "yaml list"
  ctx_clusters :: "yaml list"
  cport :: int
  bareHostPort :: int
  hcmCodec :: string
  advertiseH3 :: bool
  tlsTerminated :: bool
  upstreamCluster :: string
  upstreamFollowsHost :: bool
  httpFilters :: "yaml list"
  websocket :: bool

type_synonym layer = "genCtx \<Rightarrow> gen_error + genCtx"

definition new_ctx :: "EgressRule \<Rightarrow> EnvoyPorts \<Rightarrow> ALSConfig \<Rightarrow> EnvoyConfig \<Rightarrow> genCtx" where
  "new_ctx r p a c =
     \<lparr>crule = r, cports = p, cals = a, cfg = c, listener = [], chain_match = None, socket = None, filters = [],
      ctx_clusters = [], cport = 0, bareHostPort = 0, hcmCodec = [], advertiseH3 = False, tlsTerminated = False,
      upstreamCluster = [], upstreamFollowsHost = False, httpFilters = [], websocket = False\<rparr>"

fun add_clusters :: "yaml list \<Rightarrow> EnvoyConfig \<Rightarrow> gen_error + EnvoyConfig" where
  "add_clusters [] c = Inr c"
| "add_clusters (cl # cls) c = (case AddCluster cl c of Inl e \<Rightarrow> Inl e | Inr c' \<Rightarrow> add_clusters cls c')"

definition ctx_chain :: "genCtx \<Rightarrow> yaml" where
  "ctx_chain ctx =
     YMap ([(''filters'', YList (filters ctx))] @
       (case chain_match ctx of None \<Rightarrow> [] | Some m \<Rightarrow> [(''filter_chain_match'', m)]) @
       (case socket ctx of None \<Rightarrow> [] | Some s \<Rightarrow> [(''transport_socket'', s)]))"

definition commit :: "(yaml \<Rightarrow> string + string) \<Rightarrow> genCtx \<Rightarrow> gen_error + EnvoyConfig" where
  "commit marshal ctx =
     (case add_clusters (ctx_clusters ctx) (cfg ctx) of
        Inl e \<Rightarrow> Inl e
      | Inr c \<Rightarrow> if filters ctx = [] then Inr c else addChain marshal (listener ctx) (ctx_chain ctx) c)"

section \<open>Access logs\<close>

definition set_field :: "string \<Rightarrow> string \<Rightarrow> (string \<times> string) list \<Rightarrow> (string \<times> string) list" where
  "set_field k v f = AList.update k v f"

definition accessLogFields ::
  "string \<Rightarrow> string \<Rightarrow> string \<Rightarrow> string \<Rightarrow> (string \<times> string) list \<Rightarrow> (string \<times> string) list" where
  "accessLogFields transport l7Proto tlsEstablished action extra =
     (let f = [(''server.address'', ''%REQUESTED_SERVER_NAME%''),
               (''client.address'', ''%DOWNSTREAM_REMOTE_ADDRESS_WITHOUT_PORT%''),
               (''listener_ip'', ''%DOWNSTREAM_LOCAL_ADDRESS_WITHOUT_PORT%''),
               (''network.peer.address'', ''%UPSTREAM_REMOTE_ADDRESS_WITHOUT_PORT%''),
               (''network.peer.port'', ''%UPSTREAM_REMOTE_PORT%''),
               (''response_flags'', ''%RESPONSE_FLAGS%''),
               (''bytes_sent'', ''%BYTES_SENT%''),
               (''bytes_received'', ''%BYTES_RECEIVED%''),
               (''upstream_bytes_sent'', ''%UPSTREAM_WIRE_BYTES_SENT%''),
               (''upstream_bytes_received'', ''%UPSTREAM_WIRE_BYTES_RECEIVED%''),
               (''duration_ms'', ''%DURATION%''),
               (''tls.protocol.version'', ''%DOWNSTREAM_TLS_VERSION%''),
               (''tls.cipher'', ''%DOWNSTREAM_TLS_CIPHER%''),
               (''upstream_tls_version'', ''%UPSTREAM_TLS_VERSION%''),
               (''upstream_tls_cipher'', ''%UPSTREAM_TLS_CIPHER%''),
               (''network.transport'', transport),
               (''network.protocol.name'', l7Proto),
               (''action'', action)];
          f = (if tlsEstablished \<noteq> [] then set_field ''tls.established'' tlsEstablished f else f)
      in foldl (\<lambda>f (k, v). set_field k v f) f extra)"

definition stdoutAccessLogEntry ::
  "string \<Rightarrow> string \<Rightarrow> string \<Rightarrow> string \<Rightarrow> (string \<times> string) list \<Rightarrow> yaml" where
  "stdoutAccessLogEntry transport l7Proto tlsEstablished action extra =
     (let jf = map (\<lambda>(k, v). (k, YStr v)) (accessLogFields transport l7Proto tlsEstablished action extra)
      in YMap [(''name'', YStr ''envoy.access_loggers.stdout''),
               (''typed_config'', YMap
                  [(''@type'', YStr ''type.googleapis.com/envoy.extensions.access_loggers.stream.v3.StdoutAccessLog''),
                   (''log_format'', YMap [(''json_format'', YMap jf)])])])"

definition otelAccessLogEntry ::
  "string \<Rightarrow> string \<Rightarrow> string \<Rightarrow> string \<Rightarrow> (string \<times> string) list \<Rightarrow> yaml" where
  "otelAccessLogEntry transport l7Proto tlsEstablished action extra =
     (let fields = accessLogFields transport l7Proto tlsEstablished action extra;
          values = map (\<lambda>(k, v). YMap [(''key'', YStr k), (''value'', YMap [(''string_value'', YStr v)])])
                     (sort_key fst fields)
      in YMap [(''name'', YStr ''envoy.access_loggers.open_telemetry''),
               (''typed_config'', YMap
                  [(''@type'', YStr ''type.googleapis.com/envoy.extensions.access_loggers.open_telemetry.v3.OpenTelemetryAccessLogConfig''),
                   (''grpc_service'', YMap [(''envoy_grpc'', YMap [(''cluster_name'', YStr otelCollectorALSClusterName)])]),
                   (''resource_attributes'', YMap [(''values'', YList
                      [YMap [(''key'', YStr ''service.name''), (''value'', YMap [(''string_value'', YStr ''envoy'')])]])]),
                   (''body'', YMap [(''string_value'', YStr ''envoy access_log'')]),
                   (''attributes'', YMap [(''values'', YList values)])])])"

definition buildHTTPAccessLog :: "bool \<Rightarrow> string \<Rightarrow> string \<Rightarrow> ALSConfig \<Rightarrow> yaml list" where
  "buildHTTPAccessLog tlsTerm transport action a =
     (let extra = [(''method'', ''%REQ(:METHOD)%''),
                   (''path'', ''%REQ(:PATH)%''),
                   (''response_code'', ''%RESPONSE_CODE%''),
                   (''response_code_details'', ''%RESPONSE_CODE_DETAILS%''),
                   (''user_agent'', ''%REQ(USER-AGENT)%''),
                   (''req_duration_ms'', ''%REQUEST_DURATION%''),
                   (''resp_duration_ms'', ''%RESPONSE_DURATION%''),
                   (''resp_tx_duration_ms'', ''%RESPONSE_TX_DURATION%''),
                   (''upstream_transport_failure_reason'', ''%UPSTREAM_TRANSPORT_FAILURE_REASON%''),
                   (''network.protocol.version'', ''%PROTOCOL%'')];
          tlsEst = (if tlsTerm then ''true'' else ''false'');
          extra = (if tlsTerm then extra else set_field ''server.address'' ''%REQ(Host)%'' extra)
      in [stdoutAccessLogEntry transport ''http'' tlsEst action extra] @
         (if MTLS a then [otelAccessLogEntry transport ''http'' tlsEst action extra] else []))"

definition buildTCPAccessLog :: "string \<Rightarrow> string \<Rightarrow> string \<Rightarrow> string \<Rightarrow> ALSConfig \<Rightarrow> yaml list" where
  "buildTCPAccessLog transport l7Proto serverAddress action a =
     (let extra = [(''server.address'', serverAddress)]
      in [stdoutAccessLogEntry transport l7Proto ''false'' action extra] @
         (if MTLS a then [otelAccessLogEntry transport l7Proto ''false'' action extra] else []))"

section \<open>Upstream clusters\<close>

definition httpPort :: "EgressRule \<Rightarrow> int" where
  "httpPort r = (case SinglePort r of Some p \<Rightarrow> p | None \<Rightarrow> defaultHTTPPort)"

definition httpsPort :: "EgressRule \<Rightarrow> int" where
  "httpsPort r = (case SinglePort r of Some p \<Rightarrow> p | None \<Rightarrow> defaultDestPort)"

definition host_name :: "string \<Rightarrow> string \<Rightarrow> int \<Rightarrow> string" where
  "host_name pre host p = pre @ sanitizeName host @ ''_'' @ Itoa p"

definition httpClusterName :: "string \<Rightarrow> int \<Rightarrow> string" where "httpClusterName = host_name ''http_''"
definition tlsExactClusterName :: "string \<Rightarrow> int \<Rightarrow> string" where "tlsExactClusterName = host_name ''tls_''"
definition tcpPinnedName :: "string \<Rightarrow> int \<Rightarrow> string" where "tcpPinnedName = host_name ''tcp_''"
definition udpPinnedName :: "string \<Rightarrow> int \<Rightarrow> string" where "udpPinnedName = host_name ''udp_''"
definition tcpOriginalDstName :: "string \<Rightarrow> int \<Rightarrow> string" where "tcpOriginalDstName = host_name ''tcp_origdst_''"
definition httpOriginalDstName :: "string \<Rightarrow> int \<Rightarrow> string" where "httpOriginalDstName = host_name ''http_origdst_''"
definition tlsOriginalDstName :: "string \<Rightarrow> int \<Rightarrow> string" where "tlsOriginalDstName = host_name ''tls_origdst_''"

definition endpoint_at :: "string \<Rightarrow> int \<Rightarrow> yaml" where
  "endpoint_at host p =
     YMap [(''lb_endpoints'', YList [YMap [(''endpoint'', YMap [(''address'', YMap [(''socket_address'',
       YMap [(''address'', YStr host), (''port_value'', YInt p)])])])]])]"

definition pinnedCluster :: "string \<Rightarrow> string \<Rightarrow> int \<Rightarrow> yaml" where
  "pinnedCluster name host p =
     YMap ([(''name'', YStr name), (''connect_timeout'', YStr ''10s''),
            (''load_assignment'', YMap [(''cluster_name'', YStr name), (''endpoints'', YList [endpoint_at host p])])] @
       (if isIPOrCIDR host then [(''type'', YStr ''STATIC'')]
        else [(''type'', YStr ''LOGICAL_DNS''), (''dns_lookup_family'', YStr ''V4_ONLY'')]))"

definition buildHTTPDNSCluster :: "string \<Rightarrow> int \<Rightarrow> yaml" where
  "buildHTTPDNSCluster host p = pinnedCluster (httpClusterName host p) host p"

definition upstreamReencryptSocket :: "bool \<Rightarrow> bool \<Rightarrow> yaml" where
  "upstreamReencryptSocket insecureSkipTLSVerify http11Only =
     YMap [(''name'', YStr ''envoy.transport_sockets.tls''),
           (''typed_config'', YMap
              [(''@type'', YStr ''type.googleapis.com/envoy.extensions.transport_sockets.tls.v3.UpstreamTlsContext''),
               (''common_tls_context'', YMap
                  [(''alpn_protocols'', YList (if http11Only then [YStr ''http/1.1''] else [YStr ''h2'', YStr ''http/1.1''])),
                   (''tls_params'', YMap [(''ecdh_curves'', YList [YStr ''X25519'', YStr ''P-256'', YStr ''P-384''])]),
                   (''validation_context'', YMap
                      ([(''trusted_ca'', YMap [(''filename'', YStr upstreamTrustedCAFile)])] @
                       (if insecureSkipTLSVerify then [(''trust_chain_verification'', YStr ''ACCEPT_UNTRUSTED'')] else [])))])])]"

definition upstreamHTTPProtocolOptions :: "bool \<Rightarrow> yaml" where
  "upstreamHTTPProtocolOptions http11Only =
     YMap [(''envoy.extensions.upstreams.http.v3.HttpProtocolOptions'', YMap
       ([(''@type'', YStr ''type.googleapis.com/envoy.extensions.upstreams.http.v3.HttpProtocolOptions''),
         (''upstream_http_protocol_options'', YMap [(''auto_sni'', YBool True), (''auto_san_validation'', YBool True)])] @
        (if http11Only then [(''explicit_http_config'', YMap [(''http_protocol_options'', YMap [])])]
         else [(''auto_config'', YMap [(''http_protocol_options'', YMap []), (''http2_protocol_options'', YMap [])])])))]"

definition decorateReencrypt :: "bool \<Rightarrow> bool \<Rightarrow> yaml \<Rightarrow> yaml" where
  "decorateReencrypt insecureSkipTLSVerify http11Only c =
     yset ''typed_extension_protocol_options'' (upstreamHTTPProtocolOptions http11Only)
       (yset ''transport_socket'' (upstreamReencryptSocket insecureSkipTLSVerify http11Only) c)"

definition buildTLSDNSCluster :: "string \<Rightarrow> int \<Rightarrow> bool \<Rightarrow> bool \<Rightarrow> yaml" where
  "buildTLSDNSCluster host p insecureSkipTLSVerify http11Only =
     decorateReencrypt insecureSkipTLSVerify http11Only (pinnedCluster (tlsExactClusterName host p) host p)"

definition originalDstCluster :: "string \<Rightarrow> yaml" where
  "originalDstCluster name =
     YMap [(''name'', YStr name), (''type'', YStr ''ORIGINAL_DST''), (''lb_policy'', YStr ''CLUSTER_PROVIDED''),
           (''connect_timeout'', YStr ''10s'')]"

definition dfpDNSCacheConfig :: "string \<Rightarrow> yaml" where
  "dfpDNSCacheConfig cacheName = YMap [(''name'', YStr cacheName), (''dns_lookup_family'', YStr ''V4_ONLY'')]"

definition dfp_cluster :: "string \<Rightarrow> string \<Rightarrow> (string \<times> yaml) list" where
  "dfp_cluster name cacheName =
     [(''name'', YStr name), (''connect_timeout'', YStr ''10s''), (''lb_policy'', YStr ''CLUSTER_PROVIDED''),
      (''cluster_type'', YMap
         [(''name'', YStr ''envoy.clusters.dynamic_forward_proxy''),
          (''typed_config'', YMap
             [(''@type'', YStr ''type.googleapis.com/envoy.extensions.clusters.dynamic_forward_proxy.v3.ClusterConfig''),
              (''dns_cache_config'', dfpDNSCacheConfig cacheName)])])]"

definition buildHTTPDFPCluster :: yaml where
  "buildHTTPDFPCluster = YMap (dfp_cluster httpDFPClusterName httpDFPCacheName)"

definition buildHTTPSDFPCluster :: "string \<Rightarrow> bool \<Rightarrow> bool \<Rightarrow> yaml" where
  "buildHTTPSDFPCluster name insecureSkipTLSVerify http11Only =
     YMap (dfp_cluster name httpsDFPCacheName @
       [(''transport_socket'', upstreamReencryptSocket insecureSkipTLSVerify http11Only),
        (''typed_extension_protocol_options'', upstreamHTTPProtocolOptions http11Only)])"

definition buildDenyCluster :: yaml where
  "buildDenyCluster =
     YMap [(''name'', YStr denyClusterName), (''connect_timeout'', YStr ''1s''), (''type'', YStr ''STATIC''),
           (''load_assignment'', YMap [(''cluster_name'', YStr denyClusterName), (''endpoints'', YList [])])]"

section \<open>Upstream layers\<close>

definition use_cluster :: "yaml \<Rightarrow> string \<Rightarrow> bool \<Rightarrow> genCtx \<Rightarrow> genCtx" where
  "use_cluster cl name follows ctx =
     ctx\<lparr>ctx_clusters := ctx_clusters ctx @ [cl], upstreamCluster := name, upstreamFollowsHost := follows\<rparr>"

definition httpExactUpstreamLayer :: layer where
  "httpExactUpstreamLayer ctx =
     (let host = normalizeDomain (Dst (crule ctx)); p = httpPort (crule ctx)
      in Inr (use_cluster (buildHTTPDNSCluster host p) (httpClusterName host p) False ctx))"

definition httpWildcardUpstreamLayer :: layer where
  "httpWildcardUpstreamLayer ctx = Inr (use_cluster buildHTTPDFPCluster httpDFPClusterName True ctx)"

definition httpsExactUpstreamLayer :: layer where
  "httpsExactUpstreamLayer ctx =
     (let host = normalizeDomain (Dst (crule ctx)); p = httpsPort (crule ctx)
      in Inr (use_cluster (buildTLSDNSCluster host p (InsecureSkipTLSVerify (crule ctx)) (websocket ctx))
                (tlsExactClusterName host p) False ctx))"

definition httpsWildcardUpstreamLayer :: layer where
  "httpsWildcardUpstreamLayer ctx =
     (let name = (if websocket ctx then wssDFPClusterName else httpsDFPClusterName)
      in Inr (use_cluster (buildHTTPSDFPCluster name (InsecureSkipTLSVerify (crule ctx)) (websocket ctx)) name True ctx))"

definition tcpPinnedUpstreamLayer :: layer where
  "tcpPinnedUpstreamLayer ctx =
     (let host = normalizeDomain (Dst (crule ctx)); name = tcpPinnedName host (cport ctx)
      in Inr (use_cluster (pinnedCluster name host (cport ctx)) name False ctx))"

definition udpPinnedUpstreamLayer :: layer where
  "udpPinnedUpstreamLayer ctx =
     (let host = normalizeDomain (Dst (crule ctx)); name = udpPinnedName host (cport ctx)
      in Inr (use_cluster (pinnedCluster name host (cport ctx)) name False ctx))"

definition opaqueCIDRUpstreamLayer :: layer where
  "opaqueCIDRUpstreamLayer ctx =
     (let host = normalizeDomain (Dst (crule ctx)); name = tcpOriginalDstName host (cport ctx)
      in Inr (use_cluster (originalDstCluster name) name False ctx))"

definition httpOriginalDstUpstreamLayer :: layer where
  "httpOriginalDstUpstreamLayer ctx =
     (let host = normalizeDomain (Dst (crule ctx)); name = httpOriginalDstName host (httpPort (crule ctx))
      in Inr (use_cluster (originalDstCluster name) name False ctx))"

definition httpsOriginalDstUpstreamLayer :: layer where
  "httpsOriginalDstUpstreamLayer ctx =
     (let host = normalizeDomain (Dst (crule ctx)); name = tlsOriginalDstName host (httpsPort (crule ctx));
          c = decorateReencrypt (InsecureSkipTLSVerify (crule ctx)) (websocket ctx) (originalDstCluster name)
      in Inr (use_cluster c name False ctx))"


section \<open>Addresses\<close>

definition mask_ip :: "nat \<Rightarrow> nat list \<Rightarrow> nat list" where
  "mask_ip n b = map (\<lambda>(i, x). let k = 8 - min 8 (n - 8 * i) in x div 2 ^ k * 2 ^ k) (enumerate 0 b)"

definition ipPrefixRange :: "string \<Rightarrow> yaml" where
  "ipPrefixRange dst =
     (case ParseCIDR dst of
        Some (a, ones) \<Rightarrow>
          YMap [(''address_prefix'', YStr (IP_String (mask_ip ones (addr_bytes a)))),
                (''prefix_len'', YInt (int ones))]
      | None \<Rightarrow>
          YMap [(''address_prefix'', YStr dst),
                (''prefix_len'', YInt (if ParseIP dst \<noteq> None \<and> To4 (ParseIP dst) = None then 128 else 32))])"

section \<open>Transport layers\<close>

definition tcpEgressLayer :: layer where
  "tcpEgressLayer ctx =
     Inr (ctx\<lparr>cfg := EnsureListener egressListenerName defaultBindAddress (EgressPort (cports ctx)) (cfg ctx),
              listener := egressListenerName,
              chain_match := Some (YMap [(''transport_protocol'', YStr ''raw_buffer'')]),
              tlsTerminated := False,
              cport := httpPort (crule ctx),
              bareHostPort := defaultHTTPPort\<rparr>)"

definition tcpDedicatedListenerLayer :: "int \<Rightarrow> int \<Rightarrow> layer" where
  "tcpDedicatedListenerLayer envoyPort dstPort ctx =
     (let name = tcpPinnedName (normalizeDomain (Dst (crule ctx))) dstPort
      in Inr (ctx\<lparr>cfg := EnsureListener name defaultBindAddress envoyPort (cfg ctx),
                  listener := name, chain_match := None, tlsTerminated := False, cport := dstPort\<rparr>))"

definition prefixRangeTransportLayer :: "int \<Rightarrow> layer" where
  "prefixRangeTransportLayer dstPort ctx =
     (case SetListenerField egressListenerName ''use_original_dst'' (YBool True)
             (EnsureListener egressListenerName defaultBindAddress (EgressPort (cports ctx)) (cfg ctx)) of
        Inl e \<Rightarrow> Inl e
      | Inr c \<Rightarrow>
          Inr (ctx\<lparr>cfg := c, listener := egressListenerName,
                   chain_match := Some (YMap [(''transport_protocol'', YStr ''raw_buffer''),
                     (''prefix_ranges'', YList [ipPrefixRange (Dst (crule ctx))]), (''destination_port'', YInt dstPort)]),
                   tlsTerminated := False, cport := dstPort\<rparr>))"

definition tlsInspectorListenerFilters :: yaml where
  "tlsInspectorListenerFilters =
     YList [YMap [(''name'', YStr ''envoy.filters.listener.tls_inspector''),
       (''typed_config'', YMap
          [(''@type'', YStr ''type.googleapis.com/envoy.extensions.filters.listener.tls_inspector.v3.TlsInspector'')])]]"

definition mitm_certificates :: "string \<Rightarrow> yaml" where
  "mitm_certificates domain =
     YList [YMap [(''certificate_chain'', YMap [(''filename'', YStr (envoyCertFile domain))]),
                  (''private_key'', YMap [(''filename'', YStr (envoyKeyFile domain))])]]"

definition downstreamMITMSocket :: "string \<Rightarrow> yaml" where
  "downstreamMITMSocket domain =
     YMap [(''name'', YStr ''envoy.transport_sockets.tls''),
           (''typed_config'', YMap
              [(''@type'', YStr ''type.googleapis.com/envoy.extensions.transport_sockets.tls.v3.DownstreamTlsContext''),
               (''common_tls_context'', YMap
                  [(''alpn_protocols'', YList [YStr ''h2'', YStr ''http/1.1'']),
                   (''tls_certificates'', mitm_certificates domain)])])]"

definition quicDownstreamSocket :: "string \<Rightarrow> yaml" where
  "quicDownstreamSocket domain =
     YMap [(''name'', YStr ''envoy.transport_sockets.quic''),
           (''typed_config'', YMap
              [(''@type'', YStr ''type.googleapis.com/envoy.extensions.transport_sockets.quic.v3.QuicDownstreamTransport''),
               (''downstream_tls_context'', YMap [(''common_tls_context'',
                  YMap [(''tls_certificates'', mitm_certificates domain)])])])]"

definition serverNames :: "string \<Rightarrow> string list \<Rightarrow> string list" where
  "serverNames dst exactDomains =
     (let domain = normalizeDomain dst in
      if isWildcardDomain dst then
        (if domain \<in> set exactDomains then [''*.'' @ domain] else [''*.'' @ domain, domain])
      else [domain])"

text \<open>The match, whether the listener needs the inspector, whether it needs the original destination.\<close>

definition downstreamCryptoMatch :: "EgressRule \<Rightarrow> string list \<Rightarrow> bool \<Rightarrow> yaml \<times> bool \<times> bool" where
  "downstreamCryptoMatch r exactDomains tcpChain =
     (if isIPOrCIDR (Dst r) then
        (YMap [(''prefix_ranges'', YList [ipPrefixRange (Dst r)]), (''destination_port'', YInt (httpsPort r))], False, True)
      else
        (YMap ([(''server_names'', YList (map YStr (serverNames (Dst r) exactDomains)))] @
           (if tcpChain then [(''transport_protocol'', YStr ''tls'')] else [])), tcpChain, False))"

definition tlsSNIChainLayer :: "string list \<Rightarrow> layer" where
  "tlsSNIChainLayer exactDomains ctx =
     (let c0 = EnsureListener egressListenerName defaultBindAddress (EgressPort (cports ctx)) (cfg ctx);
          (m, needInspector, needOriginalDst) = downstreamCryptoMatch (crule ctx) exactDomains True
      in (case (if needInspector then SetListenerField egressListenerName ''listener_filters'' tlsInspectorListenerFilters c0
                else Inr c0) of
            Inl e \<Rightarrow> Inl e
          | Inr c1 \<Rightarrow>
              (case (if needOriginalDst then SetListenerField egressListenerName ''use_original_dst'' (YBool True) c1
                     else Inr c1) of
                 Inl e \<Rightarrow> Inl e
               | Inr c2 \<Rightarrow>
                   Inr (ctx\<lparr>cfg := c2, listener := egressListenerName, chain_match := Some m,
                            socket := Some (downstreamMITMSocket (certBasename (Dst (crule ctx)))),
                            tlsTerminated := True, cport := httpsPort (crule ctx), bareHostPort := defaultDestPort,
                            advertiseH3 := \<not> needOriginalDst\<rparr>))))"

definition quicSNIChainLayer :: "string list \<Rightarrow> layer" where
  "quicSNIChainLayer exactDomains ctx =
     (let (m, needInspector, needOriginalDst) = downstreamCryptoMatch (crule ctx) exactDomains False
      in if needOriginalDst then Inl (QUICNeedsSNI (Dst (crule ctx)))
         else
           Inr (ctx\<lparr>cfg := EnsureQUICListener egressQUICListenerName defaultBindAddress (EgressPort (cports ctx)) (cfg ctx),
                    listener := egressQUICListenerName, chain_match := Some m,
                    socket := Some (quicDownstreamSocket (certBasename (Dst (crule ctx)))),
                    tlsTerminated := True, cport := httpsPort (crule ctx), bareHostPort := defaultDestPort,
                    hcmCodec := ''HTTP3''\<rparr>))"

definition udpDedicatedListenerLayer :: "int \<Rightarrow> int \<Rightarrow> layer" where
  "udpDedicatedListenerLayer envoyPort dstPort ctx =
     (let name = udpPinnedName (normalizeDomain (Dst (crule ctx))) dstPort
      in Inr (ctx\<lparr>cfg := EnsureRawUDPListener name defaultBindAddress envoyPort (cfg ctx),
                  listener := name, chain_match := None, tlsTerminated := False, cport := dstPort\<rparr>))"

section \<open>Opaque terminals\<close>

definition tcp_proxy :: "string \<Rightarrow> string \<Rightarrow> yaml list \<Rightarrow> yaml" where
  "tcp_proxy stat cluster log =
     YMap [(''name'', YStr ''envoy.filters.network.tcp_proxy''),
           (''typed_config'', YMap
              [(''@type'', YStr ''type.googleapis.com/envoy.extensions.filters.network.tcp_proxy.v3.TcpProxy''),
               (''stat_prefix'', YStr stat), (''cluster'', YStr cluster), (''access_log'', YList log)])]"

definition tcpProxyTerminalLayer :: "string \<Rightarrow> layer" where
  "tcpProxyTerminalLayer l7Proto ctx =
     (if upstreamCluster ctx = [] then Inl (NoUpstream (Dst (crule ctx)))
      else
        Inr (ctx\<lparr>filters := filters ctx @
          [tcp_proxy (upstreamCluster ctx) (upstreamCluster ctx)
             (buildTCPAccessLog ''tcp'' l7Proto (normalizeDomain (Dst (crule ctx))) VerdictAllowed (cals ctx))]\<rparr>))"

definition tcpDenyTerminalLayer :: "string \<Rightarrow> layer" where
  "tcpDenyTerminalLayer l7Proto ctx =
     Inr (ctx\<lparr>ctx_clusters := ctx_clusters ctx @ [buildDenyCluster],
              filters := filters ctx @
                [tcp_proxy denyClusterName denyClusterName
                   (buildTCPAccessLog ''tcp'' l7Proto (normalizeDomain (Dst (crule ctx))) VerdictDenied (cals ctx))]\<rparr>)"

definition udp_proxy :: "string \<Rightarrow> yaml list \<Rightarrow> yaml" where
  "udp_proxy cluster log =
     YMap [(''name'', YStr ''envoy.filters.udp_listener.udp_proxy''),
           (''typed_config'', YMap
              [(''@type'', YStr ''type.googleapis.com/envoy.extensions.filters.udp.udp_proxy.v3.UdpProxyConfig''),
               (''stat_prefix'', YStr cluster),
               (''matcher'', YMap [(''on_no_match'', YMap [(''action'', YMap
                  [(''name'', YStr ''route''),
                   (''typed_config'', YMap
                      [(''@type'', YStr ''type.googleapis.com/envoy.extensions.filters.udp.udp_proxy.v3.Route''),
                       (''cluster'', YStr cluster)])])])]),
               (''access_log'', YList log)])]"

definition udpProxyTerminalLayer :: layer where
  "udpProxyTerminalLayer ctx =
     (if upstreamCluster ctx = [] then Inl (NoUpstream (Dst (crule ctx)))
      else
        (case SetListenerField (listener ctx) ''listener_filters''
                (YList [udp_proxy (upstreamCluster ctx)
                   (buildTCPAccessLog ''udp'' ''udp'' (normalizeDomain (Dst (crule ctx))) VerdictAllowed (cals ctx))]) (cfg ctx) of
           Inl e \<Rightarrow> Inl e
         | Inr c \<Rightarrow> Inr (ctx\<lparr>cfg := c\<rparr>)))"

definition udpDenyTerminalLayer :: layer where
  "udpDenyTerminalLayer ctx =
     (case SetListenerField (listener ctx) ''listener_filters''
             (YList [udp_proxy denyClusterName
                (buildTCPAccessLog ''udp'' ''udp'' (normalizeDomain (Dst (crule ctx))) VerdictDenied (cals ctx))]) (cfg ctx) of
        Inl e \<Rightarrow> Inl e
      | Inr c \<Rightarrow> Inr (ctx\<lparr>cfg := c, ctx_clusters := ctx_clusters ctx @ [buildDenyCluster]\<rparr>))"


section \<open>HTTP routes\<close>

definition clawkerActionMetadata :: "string \<Rightarrow> yaml" where
  "clawkerActionMetadata action =
     YMap [(''filter_metadata'', YMap [(''clawker'', YMap [(''action'', YStr action)])])]"

definition pathSpecifier :: "string \<Rightarrow> string \<times> yaml" where
  "pathSpecifier path =
     (if HasPrefix path regexPathMarker
      then (''safe_regex'', YMap [(''regex'', YStr (drop (length regexPathMarker) path))])
      else (''prefix'', YStr path))"

definition methodHeaderMatch :: "string list \<Rightarrow> yaml option" where
  "methodHeaderMatch methods =
     (if methods = [] then None
      else
        Some (YList [YMap [(''name'', YStr '':method''),
          (''string_match'',
             if length methods = 1 then YMap [(''exact'', YStr (hd methods))]
             else YMap [(''safe_regex'', YMap [(''regex'', YStr (Join methods ''|''))])])]]))"

definition routeMatch :: "string \<Rightarrow> string list \<Rightarrow> yaml" where
  "routeMatch path methods =
     YMap ([pathSpecifier path] @
       (case methodHeaderMatch methods of None \<Rightarrow> [] | Some h \<Rightarrow> [(''headers'', h)]))"

definition httpAllowRoute :: "string \<Rightarrow> string \<Rightarrow> bool \<Rightarrow> string list \<Rightarrow> yaml" where
  "httpAllowRoute path cluster ws methods =
     YMap [(''match'', routeMatch path methods),
           (''metadata'', clawkerActionMetadata VerdictAllowed),
           (''route'', YMap ([(''cluster'', YStr cluster), (''timeout'', YStr ''0s'')] @
              (if ws then [(''upgrade_configs'', YList [YMap [(''upgrade_type'', YStr ''websocket'')]])] else [])))]"

definition httpDenyRoute :: "string \<Rightarrow> string list \<Rightarrow> yaml" where
  "httpDenyRoute path methods =
     YMap [(''match'', routeMatch path methods),
           (''metadata'', clawkerActionMetadata VerdictDenied),
           (''direct_response'', YMap [(''status'', YInt 403),
              (''body'', YMap [(''inline_string'', YStr firewallBlockedBody)])])]"

definition path_route :: "string \<Rightarrow> bool \<Rightarrow> PathRule \<Rightarrow> yaml" where
  "path_route cluster ws pr =
     (if EqualFold (PathAction pr) ''allow'' then httpAllowRoute (Path pr) cluster ws (Methods pr)
      else httpDenyRoute (Path pr) (Methods pr))"

definition default_route :: "EgressRule \<Rightarrow> string \<Rightarrow> bool \<Rightarrow> yaml" where
  "default_route r cluster ws =
     (if EqualFold (EffectivePathDefault r) ''deny'' then httpDenyRoute ''/'' []
      else httpAllowRoute ''/'' cluster ws [])"

definition httpRoutes :: "EgressRule \<Rightarrow> string \<Rightarrow> bool \<Rightarrow> yaml list" where
  "httpRoutes r cluster ws =
     (if PathRules r = [] then [default_route r cluster ws]
      else map (path_route cluster ws) (sort_key (\<lambda>p. - int (length (Path p))) (PathRules r)) @
           [default_route r cluster ws])"

section \<open>The HTTP connection manager\<close>

record appDFP =
  active :: bool
  cache :: string

definition noDFP :: appDFP where "noDFP = \<lparr>active = False, cache = []\<rparr>"

definition routerFilter :: yaml where
  "routerFilter =
     YMap [(''name'', YStr ''envoy.filters.http.router''),
           (''typed_config'', YMap
              [(''@type'', YStr ''type.googleapis.com/envoy.extensions.filters.http.router.v3.Router'')])]"

definition dynamicForwardProxyHTTPFilter :: "string \<Rightarrow> yaml" where
  "dynamicForwardProxyHTTPFilter cacheName =
     YMap [(''name'', YStr dynamicForwardProxyFilterName),
           (''typed_config'', YMap
              [(''@type'', YStr ''type.googleapis.com/envoy.extensions.filters.http.dynamic_forward_proxy.v3.FilterConfig''),
               (''dns_cache_config'', dfpDNSCacheConfig cacheName)])]"

definition httpFilterChain :: "genCtx \<Rightarrow> appDFP \<Rightarrow> yaml list" where
  "httpFilterChain ctx dfp =
     httpFilters ctx @ (if active dfp then [dynamicForwardProxyHTTPFilter (cache dfp)] else []) @ [routerFilter]"

definition disableDFPPerVHost :: yaml where
  "disableDFPPerVHost =
     YMap [(dynamicForwardProxyFilterName, YMap
       [(''@type'', YStr ''type.googleapis.com/envoy.config.route.v3.FilterConfig''), (''disabled'', YBool True)])]"

definition virtualHostName :: "string \<Rightarrow> int \<Rightarrow> string" where
  "virtualHostName dst p =
     (let name = sanitizeName (normalizeDomain dst)
      in (if isWildcardDomain dst then ''wildcard_'' @ name else name) @ ''_'' @ Itoa p)"

definition httpDomains :: "string \<Rightarrow> int \<Rightarrow> int \<Rightarrow> string list" where
  "httpDomains dst p barePort =
     (let domain = normalizeDomain dst; n = Itoa p; bare = (p = barePort) in
      if isWildcardDomain dst then
        (if bare then [''*.'' @ domain] else []) @ [''*.'' @ domain @ '':'' @ n] @
        (if bare then [domain] else []) @ [domain @ '':'' @ n]
      else (if bare then [domain] else []) @ [domain @ '':'' @ n])"

definition httpConnectionManagerHardening :: yaml where
  "httpConnectionManagerHardening =
     YMap [(''normalize_path'', YBool True), (''merge_slashes'', YBool True),
           (''path_with_escaped_slashes_action'', YStr ''UNESCAPE_AND_REDIRECT''),
           (''common_http_protocol_options'', YMap [(''headers_with_underscores_action'', YStr ''REJECT_REQUEST'')]),
           (''http2_protocol_options'', YMap [(''max_concurrent_streams'', YInt 100)])]"

definition set_nested :: "string \<Rightarrow> string \<Rightarrow> yaml \<Rightarrow> yaml \<Rightarrow> yaml" where
  "set_nested k k' v y = (case yget k y of Some (YMap m) \<Rightarrow> yset k (yset k' v (YMap m)) y | _ \<Rightarrow> y)"

definition httpHCM ::
  "string \<Rightarrow> bool \<Rightarrow> yaml list \<Rightarrow> ALSConfig \<Rightarrow> yaml list \<Rightarrow> bool \<Rightarrow> yaml" where
  "httpHCM ctype tlsTerm httpFs a vhosts ws =
     (let transport = (if ctype = ''HTTP3'' then ''quic'' else ''tcp'');
          tc = YMap
            [(''@type'', YStr ''type.googleapis.com/envoy.extensions.filters.network.http_connection_manager.v3.HttpConnectionManager''),
             (''stat_prefix'', YStr ''http_egress''),
             (''codec_type'', YStr ''AUTO''),
             (''access_log'', YList (buildHTTPAccessLog tlsTerm transport ''%METADATA(ROUTE:clawker:action)%'' a)),
             (''route_config'', YMap [(''name'', YStr ''http_egress_routes''), (''virtual_hosts'', YList vhosts)]),
             (''http_filters'', YList httpFs)];
          tc = (if ctype = ''HTTP3'' then yset ''http3_protocol_options'' (YMap []) (yset ''codec_type'' (YStr ''HTTP3'') tc) else tc);
          tc = maps_Copy tc httpConnectionManagerHardening
      in if ws then
           (let tc = set_nested ''http2_protocol_options'' ''allow_connect'' (YBool True) tc
            in if ctype = ''HTTP3'' then set_nested ''http3_protocol_options'' ''allow_extended_connect'' (YBool True) tc else tc)
         else tc)"

definition denyAllVHost :: yaml where
  "denyAllVHost =
     YMap [(''name'', YStr ''deny_all''), (''domains'', YList [YStr ''*'']), (''routes'', YList [httpDenyRoute ''/'' []])]"

definition altSvcH3Header :: "int \<Rightarrow> yaml" where
  "altSvcH3Header p =
     YList [YMap [(''header'', YMap [(''key'', YStr ''alt-svc''),
       (''value'', YStr (''h3='' @ [CHR 0x22] @ '':'' @ Itoa p @ [CHR 0x22] @ ''; ma=86400''))])]]"

definition hcm_filter :: "yaml \<Rightarrow> yaml" where
  "hcm_filter tc = YMap [(''name'', YStr hcmName), (''typed_config'', tc)]"

definition rule_vhost :: "genCtx \<Rightarrow> string list \<Rightarrow> yaml" where
  "rule_vhost ctx domains =
     YMap [(''name'', YStr (virtualHostName (Dst (crule ctx)) (cport ctx))),
           (''domains'', YList (map YStr domains)),
           (''routes'', YList (httpRoutes (crule ctx) (upstreamCluster ctx) (websocket ctx)))]"

definition httpAppLayer :: "appDFP \<Rightarrow> layer" where
  "httpAppLayer dfp ctx =
     (if listener ctx = [] then Inl NoTransport
      else if upstreamCluster ctx = [] then Inl (NoUpstream [])
      else if isCIDR (Dst (crule ctx)) then
        Inr (ctx\<lparr>filters := [hcm_filter (httpHCM (hcmCodec ctx) (tlsTerminated ctx) (httpFilterChain ctx noDFP) (cals ctx)
               [rule_vhost ctx [''*'']] (websocket ctx))]\<rparr>)
      else
        (let vhost = rule_vhost ctx (httpDomains (Dst (crule ctx)) (cport ctx) (bareHostPort ctx));
             vhost = (if advertiseH3 ctx then yset ''response_headers_to_add'' (altSvcH3Header (cport ctx)) vhost else vhost);
             vhost = (if active dfp \<and> \<not> upstreamFollowsHost ctx
                      then yset ''typed_per_filter_config'' disableDFPPerVHost vhost else vhost);
             deny = (if active dfp then yset ''typed_per_filter_config'' disableDFPPerVHost denyAllVHost else denyAllVHost)
         in Inr (ctx\<lparr>filters := [hcm_filter (httpHCM (hcmCodec ctx) (tlsTerminated ctx) (httpFilterChain ctx dfp) (cals ctx)
               [vhost, deny] (websocket ctx))]\<rparr>)))"

definition wsEnrichLayer :: layer where
  "wsEnrichLayer ctx = Inr (ctx\<lparr>websocket := True\<rparr>)"

end
