(* ===== verification/Envoy_Generate.thy ===== *)
theory Envoy_Generate
  imports Envoy_Layers
begin

text \<open>
  The orchestrator of the Envoy generator, \<open>controlplane/firewall/envoy_config.go\<close>: the deriver that
  turns rules into permutations of layers, the forward pass over them, the deny floor, the access-log
  cluster and the health listener, and \<open>GenerateEnvoyConfig\<close> with its checks.

  The marshaller and the check of the text against Envoy's bootstrap schema are third-party code and
  arguments. Warnings keep the rule they are about.
\<close>

section \<open>Generation-wide facts\<close>

record genFacts =
  httpDFPActive :: bool
  httpsExactDomains :: "string list"
  wsOrigins :: "string list"
  explicitBaseOrigins :: "string list"
  tcpListenerPorts :: "(string \<times> int) list"
  udpListenerPorts :: "(string \<times> int) list"

definition allowed_rule :: "EgressRule \<Rightarrow> bool" where
  "allowed_rule r \<longleftrightarrow> ToLower (Action r) = ''allow'' \<or> ToLower (Action r) = []"

definition fact_step :: "genFacts \<Rightarrow> EgressRule \<Rightarrow> genFacts" where
  "fact_step g r =
     (if \<not> allowed_rule r then g
      else
        (let proto = ToLower (Proto r); b = baseProto proto;
             g = (if proto = ''ws'' \<or> proto = ''wss'' then g\<lparr>wsOrigins := originKey r # wsOrigins g\<rparr> else g);
             g = (if proto = ''http'' \<or> proto = ''https'' then g\<lparr>explicitBaseOrigins := originKey r # explicitBaseOrigins g\<rparr> else g);
             g = (if b = ''http'' \<and> isWildcardDomain (Dst r) then g\<lparr>httpDFPActive := True\<rparr> else g)
         in if b = ''https'' \<and> \<not> isWildcardDomain (Dst r)
            then g\<lparr>httpsExactDomains := normalizeDomain (Dst r) # httpsExactDomains g\<rparr> else g))"

definition port_table :: "TCPMapping list \<Rightarrow> (string \<times> int) list" where
  "port_table ms = foldl (\<lambda>t m. AList.update (dedicatedPortKey (MDst m) (DstPort m)) (EnvoyPort m) t) [] ms"

definition deriveGenFacts :: "EgressRule list \<Rightarrow> EnvoyPorts \<Rightarrow> genFacts" where
  "deriveGenFacts rules p =
     (foldl fact_step
        \<lparr>httpDFPActive = False, httpsExactDomains = [], wsOrigins = [], explicitBaseOrigins = [],
         tcpListenerPorts = [], udpListenerPorts = []\<rparr> rules)
     \<lparr>tcpListenerPorts := port_table (TCPMappings rules p), udpListenerPorts := port_table (UDPMappings rules p)\<rparr>"

section \<open>The table of layers\<close>

definition withWS :: "bool \<Rightarrow> layer list \<Rightarrow> layer list" where
  "withWS ws ls = (if ws then wsEnrichLayer # ls else ls)"

definition layersFor :: "EgressRule \<Rightarrow> genFacts \<Rightarrow> layer list list option" where
  "layersFor r gen =
     (let ws = (originKey r \<in> set (wsOrigins gen)); proto = ToLower (Proto r);
          deny = isDenyAction (Action r); host = normalizeDomain (Dst r) in
      if proto = ''http'' then
        (if isCIDR (Dst r)
         then Some [withWS ws [prefixRangeTransportLayer (httpPort r), httpOriginalDstUpstreamLayer, httpAppLayer noDFP]]
         else
           (let app = httpAppLayer \<lparr>active = httpDFPActive gen, cache = httpDFPCacheName\<rparr> in
            if isWildcardDomain (Dst r) then Some [withWS ws [tcpEgressLayer, httpWildcardUpstreamLayer, app]]
            else Some [withWS ws [tcpEgressLayer, httpExactUpstreamLayer, app]]))
      else if proto = ''https'' then
        (let tcpTransport = tlsSNIChainLayer (httpsExactDomains gen);
             quicTransport = quicSNIChainLayer (httpsExactDomains gen) in
         if isCIDR (Dst r) then Some [withWS ws [tcpTransport, httpsOriginalDstUpstreamLayer, httpAppLayer noDFP]]
         else if isWildcardDomain (Dst r) then
           (let dfp = \<lparr>active = True, cache = httpsDFPCacheName\<rparr>
            in Some [withWS ws [tcpTransport, httpsWildcardUpstreamLayer, httpAppLayer dfp],
                     withWS ws [quicTransport, httpsWildcardUpstreamLayer, httpAppLayer dfp]])
         else if isIPOrCIDR (Dst r) then Some [withWS ws [tcpTransport, httpsExactUpstreamLayer, httpAppLayer noDFP]]
         else Some [withWS ws [tcpTransport, httpsExactUpstreamLayer, httpAppLayer noDFP],
                    withWS ws [quicTransport, httpsExactUpstreamLayer, httpAppLayer noDFP]])
      else if proto = ''ssh'' \<or> proto = ''tcp'' then
        (if isCIDR (Dst r) then
           Some (map (\<lambda>p. if deny then [prefixRangeTransportLayer p, tcpDenyTerminalLayer proto]
                          else [prefixRangeTransportLayer p, opaqueCIDRUpstreamLayer, tcpProxyTerminalLayer proto])
                  (dedicatedPorts r tcpDefaultPort))
         else
           Some (List.map_filter (\<lambda>p.
                   (case map_of (tcpListenerPorts gen) (dedicatedPortKey host p) of
                      None \<Rightarrow> None
                    | Some ep \<Rightarrow>
                        Some (if deny then [tcpDedicatedListenerLayer ep p, tcpDenyTerminalLayer proto]
                              else [tcpDedicatedListenerLayer ep p, tcpPinnedUpstreamLayer, tcpProxyTerminalLayer proto])))
                  (dedicatedPorts r tcpDefaultPort)))
      else if proto = ''udp'' then
        Some (List.map_filter (\<lambda>p.
                (case map_of (udpListenerPorts gen) (dedicatedPortKey host p) of
                   None \<Rightarrow> None
                 | Some ep \<Rightarrow>
                     Some (if deny then [udpDedicatedListenerLayer ep p, udpDenyTerminalLayer]
                           else [udpDedicatedListenerLayer ep p, udpPinnedUpstreamLayer, udpProxyTerminalLayer])))
               (dedicatedPorts r udpDefaultPort))
      else None)"

section \<open>The deriver\<close>

record permutation =
  prule :: EgressRule
  layers :: "layer list"
  key :: string

datatype gen_warning = ProtoNotSupported string string | HTTPSToCIDR string

definition perm_key :: "EgressRule \<Rightarrow> nat \<Rightarrow> string" where
  "perm_key r i = Dst r @ '':'' @ Port r @ '':'' @ ToLower (Action r) @ '':'' @ ToLower (Proto r) @ ''#'' @ Itoa (int i)"

definition rule_perms :: "EgressRule \<Rightarrow> layer list list \<Rightarrow> permutation list" where
  "rule_perms r lss = map (\<lambda>(i, ls). \<lparr>prule = r, layers = ls, key = perm_key r i\<rparr>) (enumerate 0 lss)"

text \<open>
  A nil list of lists is a rule without layers: the unknown protocol, and an opaque rule none of
  whose ports has a listener.
\<close>

fun derive_loop ::
  "genFacts \<Rightarrow> string list \<Rightarrow> EgressRule list \<Rightarrow> permutation list \<times> gen_warning list" where
  "derive_loop gen promoted [] = ([], [])"
| "derive_loop gen promoted (r0 # rs) =
     (if isDenyAction (Action r0) \<and> \<not> isOpaqueProto (Proto r0) then derive_loop gen promoted rs
      else
        (let proto = ToLower (Proto r0); ws = (proto = ''ws'' \<or> proto = ''wss''); k = originKey r0 in
         if ws \<and> (k \<in> set (explicitBaseOrigins gen) \<or> k \<in> set promoted) then derive_loop gen promoted rs
         else
           (let promoted' = (if ws then k # promoted else promoted);
                r = (if ws then r0\<lparr>Proto := baseProto proto\<rparr> else r0);
                (perms, warns) = derive_loop gen promoted' rs
            in (case layersFor r gen of
                  None \<Rightarrow> (perms, ProtoNotSupported (Proto r) (Dst r) # warns)
                | Some [] \<Rightarrow> (perms, ProtoNotSupported (Proto r) (Dst r) # warns)
                | Some (l # lss) \<Rightarrow>
                    (rule_perms r (l # lss) @ perms,
                     (if isCIDR (Dst r) \<and> baseProto (ToLower (Proto r)) = ''https'' \<and> \<not> InsecureSkipTLSVerify r
                      then [HTTPSToCIDR (Dst r)] else []) @ warns)))))"

definition derive :: "EgressRule list \<Rightarrow> EnvoyPorts \<Rightarrow> permutation list \<times> gen_warning list" where
  "derive rules p = derive_loop (deriveGenFacts rules p) [] rules"

section \<open>The forward pass\<close>

fun run_layers :: "layer list \<Rightarrow> genCtx \<Rightarrow> gen_error + genCtx" where
  "run_layers [] ctx = Inr ctx"
| "run_layers (fn # fns) ctx = (case fn ctx of Inl e \<Rightarrow> Inl e | Inr ctx' \<Rightarrow> run_layers fns ctx')"

definition run_perm ::
  "(yaml \<Rightarrow> string + string) \<Rightarrow> EnvoyPorts \<Rightarrow> ALSConfig \<Rightarrow> permutation \<Rightarrow> EnvoyConfig \<Rightarrow> gen_error + EnvoyConfig" where
  "run_perm marshal p a perm c =
     (case ClaimPermutation (key perm) c of
        (False, c') \<Rightarrow> Inr c'
      | (True, c') \<Rightarrow>
          (case run_layers (layers perm) (new_ctx (prule perm) p a c') of
             Inl e \<Rightarrow> Inl e
           | Inr ctx \<Rightarrow> commit marshal ctx))"

fun run_perms ::
  "(yaml \<Rightarrow> string + string) \<Rightarrow> EnvoyPorts \<Rightarrow> ALSConfig \<Rightarrow> permutation list \<Rightarrow> EnvoyConfig \<Rightarrow> gen_error + EnvoyConfig" where
  "run_perms marshal p a [] c = Inr c"
| "run_perms marshal p a (x # xs) c =
     (case run_perm marshal p a x c of Inl e \<Rightarrow> Inl e | Inr c' \<Rightarrow> run_perms marshal p a xs c')"

section \<open>Once per generation\<close>

definition envoyAdmin :: yaml where
  "envoyAdmin =
     YMap [(''address'', YMap [(''socket_address'',
       YMap [(''address'', YStr ''127.0.0.1''), (''port_value'', YInt envoyAdminPort)])])]"

definition denyDefaultFilterChain :: "ALSConfig \<Rightarrow> yaml" where
  "denyDefaultFilterChain a =
     YMap [(''filters'', YList [tcp_proxy ''egress_deny'' denyClusterName
       (buildTCPAccessLog ''tcp'' [] ''%REQUESTED_SERVER_NAME%'' VerdictDenied a)])]"

definition installEgressDenyFloor :: "ALSConfig \<Rightarrow> EnvoyConfig \<Rightarrow> gen_error + EnvoyConfig" where
  "installEgressDenyFloor a c =
     (if \<not> HasListener egressListenerName c then Inr c
      else
        (case AddCluster buildDenyCluster c of
           Inl e \<Rightarrow> Inl e
         | Inr c' \<Rightarrow> SetUnmatchedDeny egressListenerName (denyDefaultFilterChain a) c'))"

definition buildOtelALSCluster :: "ALSConfig \<Rightarrow> yaml" where
  "buildOtelALSCluster a =
     YMap [(''name'', YStr otelCollectorALSClusterName), (''type'', YStr ''STRICT_DNS''), (''connect_timeout'', YStr ''1s''),
           (''load_assignment'', YMap [(''cluster_name'', YStr otelCollectorALSClusterName),
              (''endpoints'', YList [endpoint_at MonitoringServiceOtelCollector (ALSPort a)])]),
           (''typed_extension_protocol_options'', YMap [(''envoy.extensions.upstreams.http.v3.HttpProtocolOptions'', YMap
              [(''@type'', YStr ''type.googleapis.com/envoy.extensions.upstreams.http.v3.HttpProtocolOptions''),
               (''explicit_http_config'', YMap [(''http2_protocol_options'', YMap [])])])]),
           (''transport_socket'', YMap
              [(''name'', YStr ''envoy.transport_sockets.tls''),
               (''typed_config'', YMap
                  [(''@type'', YStr ''type.googleapis.com/envoy.extensions.transport_sockets.tls.v3.UpstreamTlsContext''),
                   (''sni'', YStr MonitoringServiceOtelCollector),
                   (''common_tls_context'', YMap
                      [(''tls_certificates'', YList [YMap
                          [(''certificate_chain'', YMap [(''filename'', YStr ''/etc/envoy/otel-tls/client.pem'')]),
                           (''private_key'', YMap [(''filename'', YStr ''/etc/envoy/otel-tls/client.key'')])]]),
                       (''validation_context'', YMap
                          [(''trusted_ca'', YMap [(''filename'', YStr ''/etc/envoy/otel-tls/ca.pem'')]),
                           (''match_typed_subject_alt_names'', YList [YMap
                              [(''san_type'', YStr ''DNS''),
                               (''matcher'', YMap [(''exact'', YStr MonitoringServiceOtelCollector)])]])])])])])]"

definition installOtelALSCluster :: "ALSConfig \<Rightarrow> EnvoyConfig \<Rightarrow> gen_error + EnvoyConfig" where
  "installOtelALSCluster a c = (if \<not> MTLS a then Inr c else AddCluster (buildOtelALSCluster a) c)"

definition buildHealthListener :: "int \<Rightarrow> yaml" where
  "buildHealthListener p =
     YMap [(''name'', YStr healthListenerName),
           (''address'', YMap [(''socket_address'', YMap [(''address'', YStr defaultBindAddress), (''port_value'', YInt p)])]),
           (''filter_chains'', YList [YMap [(''filters'', YList [YMap
              [(''name'', YStr hcmName),
               (''typed_config'', YMap
                  [(''@type'', YStr ''type.googleapis.com/envoy.extensions.filters.network.http_connection_manager.v3.HttpConnectionManager''),
                   (''stat_prefix'', YStr ''health_check''),
                   (''route_config'', YMap [(''virtual_hosts'', YList [YMap
                      [(''name'', YStr ''health''), (''domains'', YList [YStr ''*'']),
                       (''routes'', YList [YMap
                          [(''match'', YMap [(''prefix'', YStr ''/'')]),
                           (''metadata'', clawkerActionMetadata VerdictAllowed),
                           (''direct_response'', YMap [(''status'', YInt 200),
                              (''body'', YMap [(''inline_string'', YStr ''ok'')])])]])]])]),
                   (''http_filters'', YList [routerFilter])])]])]])]"

definition installHealthListener :: "EnvoyPorts \<Rightarrow> EnvoyConfig \<Rightarrow> gen_error + EnvoyConfig" where
  "installHealthListener p c = (if HealthPort p \<le> 0 then Inr c else AddListener (buildHealthListener (HealthPort p)) c)"

section \<open>GenerateEnvoyConfig\<close>

definition layout_checks :: "EgressRule list \<Rightarrow> EnvoyPorts \<Rightarrow> layout_error option" where
  "layout_checks rules p =
     (case EnvoyPorts_Validate p of
        Some e \<Rightarrow> Some e
      | None \<Rightarrow>
          (case checkProtoCollisions rules of
             Some e \<Rightarrow> Some e
           | None \<Rightarrow>
               (case checkOpaquePortActionConflicts rules of
                  Some e \<Rightarrow> Some e
                | None \<Rightarrow>
                    (case validateDedicatedLayout rules p of
                       Some e \<Rightarrow> Some e
                     | None \<Rightarrow> validateProtoDstSupport rules))))"

definition build_config ::
  "(yaml \<Rightarrow> string + string) \<Rightarrow> EnvoyPorts \<Rightarrow> ALSConfig \<Rightarrow> permutation list \<Rightarrow> gen_error + EnvoyConfig" where
  "build_config marshal p a perms =
     (case run_perms marshal p a perms (SetAdmin envoyAdmin NewEnvoyConfig) of
        Inl e \<Rightarrow> Inl e
      | Inr c1 \<Rightarrow>
          (case installEgressDenyFloor a c1 of
             Inl e \<Rightarrow> Inl e
           | Inr c2 \<Rightarrow>
               (case installOtelALSCluster a c2 of
                  Inl e \<Rightarrow> Inl e
                | Inr c3 \<Rightarrow>
                    (case installHealthListener p c3 of
                       Inl e \<Rightarrow> Inl e
                     | Inr c4 \<Rightarrow>
                         if HealthPort p > 0 \<and> \<not> HasListener healthListenerName c4
                         then Inl (MissingHealthListener (HealthPort p)) else Inr c4))))"

definition GenerateEnvoyConfig ::
  "(yaml \<Rightarrow> string + string) \<Rightarrow> (string \<Rightarrow> string option) \<Rightarrow> EgressRule list \<Rightarrow> EnvoyPorts \<Rightarrow> ALSConfig \<Rightarrow>
   (gen_error + string) \<times> gen_warning list" where
  "GenerateEnvoyConfig marshal validateBootstrap rules p a =
     (case layout_checks rules p of
        Some e \<Rightarrow> (Inl (LayoutRejected e), [])
      | None \<Rightarrow>
          (let (perms, warnings) = derive rules p in
           (case build_config marshal p a perms of
              Inl e \<Rightarrow> (Inl e, warnings)
            | Inr c \<Rightarrow>
                (case Bytes marshal c of
                   Inl e \<Rightarrow> (Inl (MarshalFailed e), warnings)
                 | Inr out \<Rightarrow>
                     (case validateBootstrap out of
                        Some e \<Rightarrow> (Inl (BootstrapRejected e), warnings)
                      | None \<Rightarrow> (Inr out, warnings))))))"

end
