(* ===== verification/Envoy_Soundness.thy ===== *)
theory Envoy_Soundness
  imports Envoy_Generate
begin

text \<open>
  What the generated Envoy configuration guarantees. The forward pass is analysed once, in the locale
  \<open>forward_pass\<close>: a property of the context that every layer keeps gives a property of the finished
  configuration. It is interpreted twice on the generator's layers. \<open>refs\<close> shows that every cluster
  a listener names exists. \<open>origin\<close> shows that every cluster and every filter chain goes back to a
  rule, and the theorems at the end read off which upstreams can be reached, how the filter chains
  are told apart, and that an unmatched connection is refused.
\<close>

section \<open>Invariants of the forward pass\<close>

text \<open>
  A property of the context that every layer of a permutation keeps and a property of the
  configuration that follows at the commit. The forward pass then keeps the latter.
\<close>

locale forward_pass =
  fixes marshal :: "yaml \<Rightarrow> string + string" and p :: EnvoyPorts and a :: ALSConfig
    and good :: "permutation \<Rightarrow> bool" and I :: "permutation \<Rightarrow> genCtx \<Rightarrow> bool" and J :: "EnvoyConfig \<Rightarrow> bool"
  assumes start: "J c \<Longrightarrow> good x \<Longrightarrow> I x (new_ctx (prule x) p a (c\<lparr>seenPerms := key x # seenPerms c\<rparr>))"
    and step: "good x \<Longrightarrow> I x ctx \<Longrightarrow> f \<in> set (layers x) \<Longrightarrow> f ctx = Inr ctx' \<Longrightarrow> I x ctx'"
    and finish: "good x \<Longrightarrow> I x ctx \<Longrightarrow> commit marshal ctx = Inr c \<Longrightarrow> J c"
begin

lemma run_layers_keeps:
  "good x \<Longrightarrow> I x ctx \<Longrightarrow> set fs \<subseteq> set (layers x) \<Longrightarrow> run_layers fs ctx = Inr ctx' \<Longrightarrow> I x ctx'"
  by (induction fs arbitrary: ctx) (auto split: sum.splits dest: step)

lemma run_perm_keeps: "J c \<Longrightarrow> good x \<Longrightarrow> run_perm marshal p a x c = Inr c' \<Longrightarrow> J c'"
  using start [of c x] run_layers_keeps [of x _ "layers x"] finish [of x]
  by (fastforce simp: run_perm_def ClaimPermutation_def split: if_splits sum.splits)

lemma run_perms_keeps: "J c \<Longrightarrow> list_all good xs \<Longrightarrow> run_perms marshal p a xs c = Inr c' \<Longrightarrow> J c'"
  by (induction xs arbitrary: c) (auto split: sum.splits dest: run_perm_keeps)

end

subsection \<open>Lookup in the accumulator\<close>

lemma map_of_update [simp]: "map_of (AList.update k v al) = (map_of al)(k \<mapsto> v)"
  by (rule update_conv')

lemma set_update_subset: "set (AList.update k v al) \<subseteq> insert (k, v) (set al)"
  by (induction al) auto


lemma keys_update [simp]: "fst ` set (AList.update k v al) = insert k (fst ` set al)"
  by (induction al) auto

definition all_listeners :: "(string \<Rightarrow> envoyListener \<Rightarrow> bool) \<Rightarrow> EnvoyConfig \<Rightarrow> bool" where
  "all_listeners P c \<longleftrightarrow> (\<forall>(n, l) \<in> set (listeners c). P n l)"

definition cluster_names :: "EnvoyConfig \<Rightarrow> string set" where
  "cluster_names c = fst ` set (clusters c)"

lemma all_listeners_lookup: "all_listeners P c \<Longrightarrow> map_of (listeners c) n = Some l \<Longrightarrow> P n l"
  by (auto simp: all_listeners_def dest: map_of_SomeD)

lemma all_listeners_update:
  "all_listeners P c \<Longrightarrow> P n l \<Longrightarrow> all_listeners P (c\<lparr>listeners := AList.update n l (listeners c)\<rparr>)"
  using set_update_subset [of n l "listeners c"] by (fastforce simp: all_listeners_def)

lemma all_listeners_mono: "all_listeners P c \<Longrightarrow> (\<And>n l. P n l \<Longrightarrow> Q n l) \<Longrightarrow> all_listeners Q c"
  by (auto simp: all_listeners_def)

lemma all_listeners_frame [simp]:
  "all_listeners P (c\<lparr>seenPerms := s\<rparr>) = all_listeners P c"
  "all_listeners P (c\<lparr>clusters := cl\<rparr>) = all_listeners P c"
  "all_listeners P (c\<lparr>admin := ad\<rparr>) = all_listeners P c"
  by (simp_all add: all_listeners_def)

lemma all_add_listener:
  "all_listeners P c \<Longrightarrow> P n (new_listener b) \<Longrightarrow> all_listeners P (add_listener n b c)"
  by (simp add: add_listener_def all_listeners_update)

text \<open>A listener that has just been created: no chains and no reference to a cluster.\<close>

definition fresh_base :: "string \<Rightarrow> yaml \<Rightarrow> bool" where
  "fresh_base n b \<longleftrightarrow>
     (\<exists>sa. b = YMap [(''name'', YStr n), (''address'', YMap [(''socket_address'', YMap sa)])] \<and>
       list_all (\<lambda>(k, v). k \<in> {''address'', ''port_value'', ''protocol''} \<and> (\<exists>i t. v = YInt i \<or> v = YStr t)) sa) \<or>
     (\<exists>sa. b = YMap [(''name'', YStr n), (''address'', YMap [(''socket_address'', YMap sa)]),
         (''udp_listener_config'', YMap [(''quic_options'', YMap []),
            (''downstream_socket_config'', YMap [(''prefer_gro'', YBool True)])])] \<and>
       list_all (\<lambda>(k, v). k \<in> {''address'', ''port_value'', ''protocol''} \<and> (\<exists>i t. v = YInt i \<or> v = YStr t)) sa)"

lemma all_Ensure:
  assumes "all_listeners P c" "\<And>b. fresh_base n b \<Longrightarrow> P n (new_listener b)"
  shows "all_listeners P (EnsureListener n addr q c)" "all_listeners P (EnsureQUICListener n addr q c)"
    "all_listeners P (EnsureRawUDPListener n addr q c)"
  using assms(1)
  by (simp_all add: EnsureListener_def EnsureQUICListener_def EnsureRawUDPListener_def)
    (intro impI all_add_listener assms, simp add: fresh_base_def)+

lemma Ensure_clusters [simp]:
  "clusters (EnsureListener n addr q c) = clusters c" "clusters (EnsureQUICListener n addr q c) = clusters c"
  "clusters (EnsureRawUDPListener n addr q c) = clusters c" "clusters (add_listener n b c) = clusters c"
  by (simp_all add: EnsureListener_def EnsureQUICListener_def EnsureRawUDPListener_def add_listener_def)

lemma all_SetListenerField:
  assumes "SetListenerField n k v c = Inr c'" "all_listeners P c" "\<And>l. P n l \<Longrightarrow> P n (l\<lparr>base := yset k v (base l)\<rparr>)"
  shows "all_listeners P c'"
  using assms by (auto simp: SetListenerField_def split: option.splits intro!: all_listeners_update dest: all_listeners_lookup)

lemma SetListenerField_clusters: "SetListenerField n k v c = Inr c' \<Longrightarrow> clusters c' = clusters c"
  by (auto simp: SetListenerField_def split: option.splits)

lemma AddCluster_names:
  assumes "AddCluster cl c = Inr c'"
  shows "cluster_names c' = insert (as_string (yget ''name'' cl)) (cluster_names c)" "listeners c' = listeners c"
proof -
  show "listeners c' = listeners c" using assms by (auto simp: AddCluster_def Let_def split: if_splits option.splits)
  show "cluster_names c' = insert (as_string (yget ''name'' cl)) (cluster_names c)"
  proof (cases "map_of (clusters c) (as_string (yget ''name'' cl))")
    case None
    then have "c' = c\<lparr>clusters := AList.update (as_string (yget ''name'' cl)) cl (clusters c)\<rparr>"
      using assms by (simp add: AddCluster_def Let_def split: if_splits)
    then show ?thesis by (simp add: cluster_names_def)
  next
    case (Some x)
    then have "c' = c" using assms by (simp add: AddCluster_def Let_def split: if_splits)
    moreover have "as_string (yget ''name'' cl) \<in> cluster_names c"
      using map_of_SomeD [OF Some] by (force simp: cluster_names_def)
    ultimately show ?thesis by auto
  qed
qed

lemma add_clusters_names:
  "add_clusters cls c = Inr c' \<Longrightarrow>
     cluster_names c' = (\<lambda>cl. as_string (yget ''name'' cl)) ` set cls \<union> cluster_names c \<and> listeners c' = listeners c"
  by (induction cls arbitrary: c) (auto split: sum.splits simp: AddCluster_names)


section \<open>References to clusters\<close>

text \<open>Every cluster a tree names: targets of proxies and routes, and the gRPC service of a log sink.\<close>

definition plain_key :: "string \<Rightarrow> bool" where
  "plain_key k \<longleftrightarrow> k \<noteq> ''cluster'' \<and> k \<noteq> ''cluster_name''"

fun cluster_refs :: "yaml \<Rightarrow> string list" where
  "cluster_refs (YMap m) =
     concat (map (\<lambda>(k, v). (if plain_key k then [] else (case v of YStr s \<Rightarrow> [s] | _ \<Rightarrow> [])) @ cluster_refs v) m)"
| "cluster_refs (YList ys) = concat (map cluster_refs ys)"
| "cluster_refs (YStr s) = []"
| "cluster_refs (YInt i) = []"
| "cluster_refs (YBool b) = []"

definition otel_refs :: "ALSConfig \<Rightarrow> string set" where
  "otel_refs a = (if MTLS a then {otelCollectorALSClusterName} else {})"

definition entry_refs :: "string \<times> yaml \<Rightarrow> string set" where
  "entry_refs e = (if plain_key (fst e) then {} else (case snd e of YStr s \<Rightarrow> {s} | _ \<Rightarrow> {})) \<union> set (cluster_refs (snd e))"

lemma refs_map: "set (cluster_refs (YMap m)) = (\<Union>e \<in> set m. entry_refs e)"
proof -
  have e: "set ((if plain_key k then [] else (case v of YStr s \<Rightarrow> [s] | _ \<Rightarrow> [])) @ cluster_refs v) = entry_refs (k, v)" for k v
    by (cases "plain_key k"; cases v) (simp_all add: entry_refs_def)
  show ?thesis
  proof (induction m)
    case (Cons x m)
    obtain k v where x: "x = (k, v)" by (cases x)
    from Cons.IH show ?case unfolding x cluster_refs.simps list.map concat.simps prod.case set_append [of _ "concat _"] e
      by (simp only: list.set UN_insert)
  qed simp
qed

lemma entry_refs_plain: "plain_key k \<Longrightarrow> entry_refs (k, v) = set (cluster_refs v)"
  by (simp add: entry_refs_def)

lemma refs_yset:
  assumes "plain_key k"
  shows "set (cluster_refs (yset k v y)) \<subseteq> set (cluster_refs y) \<union> set (cluster_refs v)"
proof (cases y)
  case (YMap m)
  have "(\<Union>e \<in> set (AList.update k v m). entry_refs e) \<subseteq> (\<Union>e \<in> insert (k, v) (set m). entry_refs e)"
    by (rule UN_mono [OF set_update_subset order_refl])
  then show ?thesis unfolding YMap yset.simps refs_map using entry_refs_plain [OF assms, of v] by auto
qed simp_all

lemma refs_yget:
  assumes "yget k y = Some v"
  shows "set (cluster_refs v) \<subseteq> set (cluster_refs y)"
proof (cases y)
  case (YMap m)
  then have "(k, v) \<in> set m" using assms map_of_SomeD by fastforce
  moreover have "set (cluster_refs v) \<subseteq> entry_refs (k, v)" by (simp add: entry_refs_def)
  ultimately show ?thesis unfolding YMap refs_map by blast
qed (use assms in simp_all)

lemma refs_set_nested:
  assumes "plain_key k" "plain_key k'" "cluster_refs v = []"
  shows "set (cluster_refs (set_nested k k' v y)) \<subseteq> set (cluster_refs y)"
proof (cases "\<exists>m. yget k y = Some (YMap m)")
  case True
  then obtain m where m: "yget k y = Some (YMap m)" by blast
  have "set (cluster_refs (yset k' v (YMap m))) \<subseteq> set (cluster_refs y)"
    by (rule order_trans [OF refs_yset [OF assms(2), of v "YMap m", unfolded assms(3) list.set(1) Un_empty_right] refs_yget [OF m]])
  then show ?thesis
    using refs_yset [OF assms(1), of "yset k' v (YMap m)" y] m unfolding set_nested_def
    by (simp only: option.case yaml.case) blast
next
  case False
  then have "set_nested k k' v y = y" by (auto simp: set_nested_def split: option.splits yaml.splits)
  then show ?thesis by simp
qed

lemma string_fields_refs:
  "list_all (\<lambda>(k, v). plain_key k) fs \<Longrightarrow> cluster_refs (YMap (map (\<lambda>(k, v). (k, YStr v)) fs)) = []"
  by (auto simp: list_all_iff)

lemma set_field_plain:
  "list_all (\<lambda>(k, v). plain_key k) fs \<Longrightarrow> plain_key k \<Longrightarrow> list_all (\<lambda>(k, v). plain_key k) (set_field k v fs)"
  using set_update_subset [of k v fs] by (fastforce simp: list_all_iff set_field_def)

lemma fields_fold_plain:
  "list_all (\<lambda>(k, v). plain_key k) fs \<Longrightarrow> list_all (\<lambda>(k, v). plain_key k) extra \<Longrightarrow>
     list_all (\<lambda>(k, v). plain_key k) (foldl (\<lambda>f (k, v). set_field k v f) fs extra)"
  by (induction extra arbitrary: fs) (auto intro: set_field_plain)

lemma accessLogFields_plain:
  assumes "list_all (\<lambda>(k, v). plain_key k) extra"
  shows "list_all (\<lambda>(k, v). plain_key k) (accessLogFields transport l7 est action extra)"
  unfolding accessLogFields_def Let_def
proof (rule fields_fold_plain [OF _ assms])
qed (simp split: if_split, intro conjI impI set_field_plain; simp add: plain_key_def)

lemma stdout_refs:
  assumes "list_all (\<lambda>(k, v). plain_key k) extra"
  shows "cluster_refs (stdoutAccessLogEntry transport l7 est action extra) = []"
  using string_fields_refs [OF accessLogFields_plain [OF assms]] by (simp add: stdoutAccessLogEntry_def Let_def plain_key_def)

lemma otel_entry_refs:
  "set (cluster_refs (otelAccessLogEntry transport l7 est action extra)) = {otelCollectorALSClusterName}"
  by (auto simp: otelAccessLogEntry_def Let_def plain_key_def)

lemma buildTCPAccessLog_refs:
  "set (concat (map cluster_refs (buildTCPAccessLog transport l7 addr action a))) = otel_refs a"
  using stdout_refs [of "[(''server.address'', addr)]"] otel_entry_refs
  by (simp add: buildTCPAccessLog_def Let_def otel_refs_def plain_key_def)

lemma buildHTTPAccessLog_refs:
  "set (concat (map cluster_refs (buildHTTPAccessLog tls transport action a))) = otel_refs a"
proof -
  have "cluster_refs y = []" if "y = hd (buildHTTPAccessLog tls transport action a)" for y
    unfolding that buildHTTPAccessLog_def Let_def
    by (simp, intro conjI impI stdout_refs set_field_plain) (simp_all add: plain_key_def)
  then show ?thesis using otel_entry_refs by (auto simp: buildHTTPAccessLog_def Let_def otel_refs_def)
qed

lemma tcp_proxy_refs:
  "set (cluster_refs (tcp_proxy st cl (buildTCPAccessLog t l7 addr action a))) = insert cl (otel_refs a)"
  using buildTCPAccessLog_refs [of t l7 addr action a] by (simp add: tcp_proxy_def plain_key_def)

lemma udp_proxy_refs:
  "set (cluster_refs (udp_proxy cl (buildTCPAccessLog t l7 addr action a))) = insert cl (otel_refs a)"
  using buildTCPAccessLog_refs [of t l7 addr action a] by (simp add: udp_proxy_def plain_key_def)

lemma routeMatch_refs [simp]: "cluster_refs (routeMatch path methods) = []"
  by (simp add: routeMatch_def pathSpecifier_def methodHeaderMatch_def plain_key_def split: option.splits)

lemma route_refs:
  "set (cluster_refs (httpAllowRoute path cl ws methods)) = {cl}" "cluster_refs (httpDenyRoute path methods) = []"
  by (simp_all add: httpAllowRoute_def httpDenyRoute_def clawkerActionMetadata_def plain_key_def)

lemma httpRoutes_refs: "set (concat (map cluster_refs (httpRoutes r cl ws))) \<subseteq> {cl}"
  by (auto simp: httpRoutes_def default_route_def path_route_def route_refs split: if_splits)

lemma maps_Copy_refs:
  assumes "list_all (\<lambda>(k, v). plain_key k \<and> cluster_refs v = []) m"
  shows "set (cluster_refs (maps_Copy y (YMap m))) \<subseteq> set (cluster_refs y)"
proof -
  have "set (cluster_refs (foldl (\<lambda>d (k, v). yset k v d) y m)) \<subseteq> set (cluster_refs y)"
    using assms
  proof (induction m arbitrary: y)
    case (Cons e m)
    obtain k v where e: "e = (k, v)" by (cases e)
    show ?case using Cons.IH [of "yset k v y"] Cons.prems refs_yset [of k v y] unfolding e by auto
  qed simp
  then show ?thesis by (simp add: maps_Copy_def)
qed

lemma httpHCM_refs:
  "set (cluster_refs (httpHCM ctype tls httpFs a vhosts ws)) \<subseteq>
     set (concat (map cluster_refs vhosts)) \<union> set (concat (map cluster_refs httpFs)) \<union> otel_refs a" (is "_ \<subseteq> ?R")
proof -
  have hard: "set (cluster_refs (maps_Copy y httpConnectionManagerHardening)) \<subseteq> ?R" if "set (cluster_refs y) \<subseteq> ?R" for y
    using maps_Copy_refs that unfolding httpConnectionManagerHardening_def
    by (rule order_trans) (simp add: plain_key_def)
  have nest: "set (cluster_refs (set_nested k k' (YBool True) y)) \<subseteq> ?R"
    if "plain_key k" "plain_key k'" "set (cluster_refs y) \<subseteq> ?R" for k k' y
    using refs_set_nested [OF that(1,2), of "YBool True" y] that(3) by auto
  have ys: "set (cluster_refs (yset k v y)) \<subseteq> ?R" if "plain_key k" "cluster_refs v = []" "set (cluster_refs y) \<subseteq> ?R" for k v y
    using refs_yset [OF that(1), of v y] that(2,3) by auto
  have tc: "set (cluster_refs (YMap [(''@type'', YStr t), (''stat_prefix'', YStr ''http_egress''), (''codec_type'', YStr ''AUTO''),
     (''access_log'', YList (buildHTTPAccessLog tls tr ac a)),
     (''route_config'', YMap [(''name'', YStr ''http_egress_routes''), (''virtual_hosts'', YList vhosts)]),
     (''http_filters'', YList httpFs)])) \<subseteq> ?R" for t tr ac
    using buildHTTPAccessLog_refs [of tls tr ac a] by (auto simp: plain_key_def)
  show ?thesis
    unfolding httpHCM_def Let_def
    by (cases ws; cases "ctype = ''HTTP3''"; simp only: if_True if_False simp_thms; intro hard nest ys tc; simp add: plain_key_def)
qed


subsection \<open>Names of the clusters the layers contribute\<close>

definition cname :: "yaml \<Rightarrow> string" where
  "cname cl = as_string (yget ''name'' cl)"

lemma yget_yset: "yget k (yset k' v (YMap m)) = (if k = k' then Some v else yget k (YMap m))"
  by simp

lemma cname_decorate [simp]: "cname (decorateReencrypt i h (YMap m)) = cname (YMap m)"
  by (simp add: cname_def decorateReencrypt_def)

lemma cluster_cnames [simp]:
  "cname (pinnedCluster n host q) = n" "cname (buildHTTPDNSCluster host q) = httpClusterName host q"
  "cname (buildTLSDNSCluster host q i h) = tlsExactClusterName host q" "cname (originalDstCluster n) = n"
  "cname (decorateReencrypt i h (originalDstCluster n)) = n"
  "cname buildHTTPDFPCluster = httpDFPClusterName" "cname (buildHTTPSDFPCluster n i h) = n"
  "cname buildDenyCluster = denyClusterName" "cname (buildOtelALSCluster a) = otelCollectorALSClusterName"
  by (simp_all add: pinnedCluster_def buildHTTPDNSCluster_def buildTLSDNSCluster_def originalDstCluster_def
      buildHTTPDFPCluster_def buildHTTPSDFPCluster_def dfp_cluster_def buildDenyCluster_def buildOtelALSCluster_def)
    (simp_all add: cname_def decorateReencrypt_def)

lemma fragment_refs [simp]:
  "cluster_refs (ipPrefixRange d) = []" "cluster_refs (fst (downstreamCryptoMatch r ex t)) = []"
  "cluster_refs (downstreamMITMSocket d) = []" "cluster_refs (quicDownstreamSocket d) = []"
  "cluster_refs tlsInspectorListenerFilters = []" "cluster_refs routerFilter = []"
  "cluster_refs (dynamicForwardProxyHTTPFilter d) = []" "cluster_refs disableDFPPerVHost = []"
  "cluster_refs (altSvcH3Header q) = []" "cluster_refs denyAllVHost = []"
proof -
  show ip: "cluster_refs (ipPrefixRange d) = []" for d
    by (auto simp: ipPrefixRange_def plain_key_def split: option.splits)
  have "concat (map cluster_refs (map YStr ns)) = []" for ns by (induction ns) simp_all
  then show "cluster_refs (fst (downstreamCryptoMatch r ex t)) = []"
    using ip by (simp add: downstreamCryptoMatch_def plain_key_def)
qed (simp_all add: downstreamMITMSocket_def quicDownstreamSocket_def mitm_certificates_def
    tlsInspectorListenerFilters_def routerFilter_def dynamicForwardProxyHTTPFilter_def dfpDNSCacheConfig_def
    disableDFPPerVHost_def dynamicForwardProxyFilterName_def altSvcH3Header_def denyAllVHost_def route_refs plain_key_def)

subsection \<open>Every layer refers to known clusters only\<close>

definition listener_refs :: "envoyListener \<Rightarrow> string set" where
  "listener_refs l =
     set (cluster_refs (base l)) \<union> set (concat (map cluster_refs (chains l))) \<union>
     (case defaultDeny l of None \<Rightarrow> {} | Some d \<Rightarrow> set (cluster_refs d))"

definition known :: "genCtx \<Rightarrow> string set" where
  "known ctx = cluster_names (cfg ctx) \<union> cname ` set (ctx_clusters ctx) \<union> otel_refs (cals ctx)"

definition refs_ctx :: "genCtx \<Rightarrow> bool" where
  "refs_ctx ctx \<longleftrightarrow>
     all_listeners (\<lambda>n l. listener_refs l \<subseteq> known ctx) (cfg ctx) \<and>
     set (concat (map cluster_refs (filters ctx))) \<subseteq> known ctx \<and>
     (upstreamCluster ctx = [] \<or> upstreamCluster ctx \<in> known ctx) \<and>
     (case chain_match ctx of None \<Rightarrow> True | Some m \<Rightarrow> cluster_refs m = []) \<and>
     (case socket ctx of None \<Rightarrow> True | Some s \<Rightarrow> cluster_refs s = []) \<and> httpFilters ctx = []"

lemma fresh_base_refs: "fresh_base n b \<Longrightarrow> listener_refs (new_listener b) = {}"
proof -
  have "cluster_refs (YMap sa) = []"
    if "list_all (\<lambda>(k, v). k \<in> {''address'', ''port_value'', ''protocol''} \<and> (\<exists>i t. v = YInt i \<or> v = YStr t)) sa" for sa
    using that by (induction sa) (auto simp: plain_key_def)
  then show "fresh_base n b \<Longrightarrow> listener_refs (new_listener b) = {}"
    by (auto simp: fresh_base_def listener_refs_def new_listener_def plain_key_def)
qed

lemma refs_SetListenerField:
  assumes "SetListenerField n k v c = Inr c'" "plain_key k" "set (cluster_refs v) \<subseteq> K"
    "all_listeners (\<lambda>n l. listener_refs l \<subseteq> K) c"
  shows "all_listeners (\<lambda>n l. listener_refs l \<subseteq> K) c'"
proof (rule all_SetListenerField [OF assms(1,4)])
  fix l assume "listener_refs l \<subseteq> K"
  then show "listener_refs (l\<lparr>base := yset k v (base l)\<rparr>) \<subseteq> K"
    using refs_yset [OF assms(2), of v "base l"] assms(3) by (auto simp: listener_refs_def split: option.splits)
qed

lemma refs_use_cluster: "refs_ctx ctx \<Longrightarrow> cname cl = n \<Longrightarrow> refs_ctx (use_cluster cl n b ctx)"
proof -
  assume r: "refs_ctx ctx" and n: "cname cl = n"
  have k: "known (use_cluster cl n b ctx) = insert n (known ctx)" by (auto simp: known_def use_cluster_def n)
  have "all_listeners (\<lambda>n l. listener_refs l \<subseteq> known ctx) (cfg ctx)" using r by (simp add: refs_ctx_def)
  then have "all_listeners (\<lambda>na l. listener_refs l \<subseteq> insert n (known ctx)) (cfg ctx)" by (rule all_listeners_mono) blast
  then show ?thesis using r unfolding refs_ctx_def k by (auto simp: use_cluster_def)
qed


lemma refs_ctx_cfg:
  assumes "refs_ctx ctx" "all_listeners (\<lambda>n l. listener_refs l \<subseteq> known ctx) c" "clusters c = clusters (cfg ctx)"
  shows "refs_ctx (ctx\<lparr>cfg := c\<rparr>)"
proof -
  have "known (ctx\<lparr>cfg := c\<rparr>) = known ctx" using assms(3) by (simp add: known_def cluster_names_def)
  then show ?thesis using assms(1,2) by (simp add: refs_ctx_def)
qed

lemma refs_ctx_frame:
  assumes "refs_ctx ctx" "cfg ctx' = cfg ctx" "ctx_clusters ctx' = ctx_clusters ctx" "cals ctx' = cals ctx"
    "filters ctx' = filters ctx" "upstreamCluster ctx' = upstreamCluster ctx" "httpFilters ctx' = httpFilters ctx"
    "case chain_match ctx' of None \<Rightarrow> True | Some m \<Rightarrow> cluster_refs m = []"
    "case socket ctx' of None \<Rightarrow> True | Some s \<Rightarrow> cluster_refs s = []"
  shows "refs_ctx ctx'"
  using assms by (simp add: refs_ctx_def known_def)

lemma refs_Ensure:
  assumes "refs_ctx ctx"
  shows "all_listeners (\<lambda>n l. listener_refs l \<subseteq> known ctx) (EnsureListener n addr q (cfg ctx))"
    "all_listeners (\<lambda>n l. listener_refs l \<subseteq> known ctx) (EnsureQUICListener n addr q (cfg ctx))"
    "all_listeners (\<lambda>n l. listener_refs l \<subseteq> known ctx) (EnsureRawUDPListener n addr q (cfg ctx))"
  using assms by (auto intro!: all_Ensure simp: refs_ctx_def fresh_base_refs)

definition keeps_refs :: "layer \<Rightarrow> bool" where
  "keeps_refs f \<longleftrightarrow> (\<forall>ctx ctx'. refs_ctx ctx \<longrightarrow> f ctx = Inr ctx' \<longrightarrow> refs_ctx ctx')"

lemma keeps_refsI: "(\<And>ctx ctx'. refs_ctx ctx \<Longrightarrow> f ctx = Inr ctx' \<Longrightarrow> refs_ctx ctx') \<Longrightarrow> keeps_refs f"
  by (simp add: keeps_refs_def)

lemma upstream_keeps_refs:
  "keeps_refs httpExactUpstreamLayer" "keeps_refs httpWildcardUpstreamLayer" "keeps_refs httpsExactUpstreamLayer"
  "keeps_refs httpsWildcardUpstreamLayer" "keeps_refs tcpPinnedUpstreamLayer" "keeps_refs udpPinnedUpstreamLayer"
  "keeps_refs opaqueCIDRUpstreamLayer" "keeps_refs httpOriginalDstUpstreamLayer" "keeps_refs httpsOriginalDstUpstreamLayer"
  by (auto simp: keeps_refs_def httpExactUpstreamLayer_def httpWildcardUpstreamLayer_def httpsExactUpstreamLayer_def
      httpsWildcardUpstreamLayer_def tcpPinnedUpstreamLayer_def udpPinnedUpstreamLayer_def opaqueCIDRUpstreamLayer_def
      httpOriginalDstUpstreamLayer_def httpsOriginalDstUpstreamLayer_def Let_def intro!: refs_use_cluster)

lemma transport_keeps_refs:
  "keeps_refs tcpEgressLayer" "keeps_refs (tcpDedicatedListenerLayer ep q)" "keeps_refs (udpDedicatedListenerLayer ep q)"
  "keeps_refs wsEnrichLayer"
proof -
  show "keeps_refs tcpEgressLayer"
  proof (rule keeps_refsI)
    fix ctx ctx' assume r: "refs_ctx ctx" "tcpEgressLayer ctx = Inr ctx'"
    show "refs_ctx ctx'"
      by (rule refs_ctx_frame [OF refs_ctx_cfg [OF r(1) refs_Ensure(1) [OF r(1), of egressListenerName defaultBindAddress "EgressPort (cports ctx)"]]])
        (use r in \<open>auto simp: tcpEgressLayer_def refs_ctx_def plain_key_def\<close>)
  qed
  show "keeps_refs (tcpDedicatedListenerLayer ep q)"
  proof (rule keeps_refsI)
    fix ctx ctx' assume r: "refs_ctx ctx" "tcpDedicatedListenerLayer ep q ctx = Inr ctx'"
    show "refs_ctx ctx'"
      by (rule refs_ctx_frame [OF refs_ctx_cfg [OF r(1) refs_Ensure(1)
            [OF r(1), of "tcpPinnedName (normalizeDomain (Dst (crule ctx))) q" defaultBindAddress ep]]])
        (use r in \<open>auto simp: tcpDedicatedListenerLayer_def Let_def refs_ctx_def\<close>)
  qed
  show "keeps_refs (udpDedicatedListenerLayer ep q)"
  proof (rule keeps_refsI)
    fix ctx ctx' assume r: "refs_ctx ctx" "udpDedicatedListenerLayer ep q ctx = Inr ctx'"
    show "refs_ctx ctx'"
      by (rule refs_ctx_frame [OF refs_ctx_cfg [OF r(1) refs_Ensure(3)
            [OF r(1), of "udpPinnedName (normalizeDomain (Dst (crule ctx))) q" defaultBindAddress ep]]])
        (use r in \<open>auto simp: udpDedicatedListenerLayer_def Let_def refs_ctx_def\<close>)
  qed
  show "keeps_refs wsEnrichLayer"
  proof (rule keeps_refsI)
    fix ctx ctx' assume r: "refs_ctx ctx" "wsEnrichLayer ctx = Inr ctx'"
    show "refs_ctx ctx'" by (rule refs_ctx_frame [OF r(1)]) (use r in \<open>auto simp: wsEnrichLayer_def refs_ctx_def\<close>)
  qed
qed

lemma prefixRange_keeps_refs: "keeps_refs (prefixRangeTransportLayer q)"
proof (rule keeps_refsI)
  fix ctx ctx' assume r: "refs_ctx ctx" "prefixRangeTransportLayer q ctx = Inr ctx'"
  then obtain c where c: "SetListenerField egressListenerName ''use_original_dst'' (YBool True)
      (EnsureListener egressListenerName defaultBindAddress (EgressPort (cports ctx)) (cfg ctx)) = Inr c" "cfg ctx' = c"
    by (auto simp: prefixRangeTransportLayer_def split: sum.splits)
  have "all_listeners (\<lambda>n l. listener_refs l \<subseteq> known ctx) c"
    by (rule refs_SetListenerField [OF c(1)]) (auto simp: plain_key_def intro: refs_Ensure [OF r(1)])
  moreover have "clusters c = clusters (cfg ctx)" using SetListenerField_clusters [OF c(1)] by simp
  ultimately have "refs_ctx (ctx\<lparr>cfg := c\<rparr>)" by (rule refs_ctx_cfg [OF r(1)])
  then show "refs_ctx ctx'"
    by (rule refs_ctx_frame) (use r c in \<open>auto simp: prefixRangeTransportLayer_def refs_ctx_def plain_key_def\<close>)
qed

lemma tls_keeps_refs: "keeps_refs (tlsSNIChainLayer ex)" "keeps_refs (quicSNIChainLayer ex)"
proof -
  show "keeps_refs (tlsSNIChainLayer ex)"
  proof (rule keeps_refsI)
    fix ctx ctx' assume r: "refs_ctx ctx" "tlsSNIChainLayer ex ctx = Inr ctx'"
    obtain m ni nd where d: "downstreamCryptoMatch (crule ctx) ex True = (m, ni, nd)" by (cases "downstreamCryptoMatch (crule ctx) ex True")
    have m: "cluster_refs m = []" using fragment_refs(2) [of "crule ctx" ex True] d by simp
    let ?c0 = "EnsureListener egressListenerName defaultBindAddress (EgressPort (cports ctx)) (cfg ctx)"
    let ?P = "all_listeners (\<lambda>n l. listener_refs l \<subseteq> known ctx)"
    have s: "?P c' \<and> clusters c' = clusters c"
      if "(if b then SetListenerField egressListenerName k v c else Inr c) = Inr c'" "?P c" "plain_key k" "cluster_refs v = []"
      for b k v c c'
      using that refs_SetListenerField [of _ k v c c' "known ctx"] SetListenerField_clusters by (auto split: if_splits)
    obtain c1 c2 where c1: "(if ni then SetListenerField egressListenerName ''listener_filters'' tlsInspectorListenerFilters ?c0 else Inr ?c0) = Inr c1"
      and c2: "(if nd then SetListenerField egressListenerName ''use_original_dst'' (YBool True) c1 else Inr c1) = Inr c2"
      and ctx': "ctx' = ctx\<lparr>cfg := c2, listener := egressListenerName, chain_match := Some m,
                            socket := Some (downstreamMITMSocket (certBasename (Dst (crule ctx)))),
                            tlsTerminated := True, cport := httpsPort (crule ctx), bareHostPort := defaultDestPort,
                            advertiseH3 := \<not> nd\<rparr>"
      using r(2) d by (auto simp: tlsSNIChainLayer_def Let_def split: sum.splits)
    have P1: "?P c1 \<and> clusters c1 = clusters ?c0"
      by (rule s [OF c1]) (simp_all add: refs_Ensure [OF r(1)] plain_key_def)
    have "?P c2 \<and> clusters c2 = clusters c1" using s [OF c2] P1 by (simp add: plain_key_def)
    then have "refs_ctx (ctx\<lparr>cfg := c2\<rparr>)" using P1 by (intro refs_ctx_cfg [OF r(1)]) simp_all
    then show "refs_ctx ctx'" by (rule refs_ctx_frame) (simp_all add: ctx' m)
  qed
  show "keeps_refs (quicSNIChainLayer ex)"
  proof (rule keeps_refsI)
    fix ctx ctx' assume r: "refs_ctx ctx" "quicSNIChainLayer ex ctx = Inr ctx'"
    obtain m ni nd where d: "downstreamCryptoMatch (crule ctx) ex False = (m, ni, nd)" by (cases "downstreamCryptoMatch (crule ctx) ex False")
    have m: "cluster_refs m = []" using fragment_refs(2) [of "crule ctx" ex False] d by simp
    show "refs_ctx ctx'"
      by (rule refs_ctx_frame [OF refs_ctx_cfg [OF r(1) refs_Ensure(2) [OF r(1), of egressQUICListenerName defaultBindAddress "EgressPort (cports ctx)"]]])
        (use r(2) d m in \<open>auto simp: quicSNIChainLayer_def Let_def split: if_splits\<close>)
  qed
qed


lemma refs_ctx_filters:
  assumes "refs_ctx ctx" "set (concat (map cluster_refs fs)) \<subseteq> known ctx"
  shows "refs_ctx (ctx\<lparr>filters := fs\<rparr>)"
proof -
  have "known (ctx\<lparr>filters := fs\<rparr>) = known ctx" by (simp add: known_def)
  then show ?thesis using assms by (simp add: refs_ctx_def)
qed

lemma refs_ctx_add_cluster:
  assumes "refs_ctx ctx"
  shows "refs_ctx (ctx\<lparr>ctx_clusters := ctx_clusters ctx @ [cl]\<rparr>)"
    "known (ctx\<lparr>ctx_clusters := ctx_clusters ctx @ [cl]\<rparr>) = insert (cname cl) (known ctx)"
proof -
  show k: "known (ctx\<lparr>ctx_clusters := ctx_clusters ctx @ [cl]\<rparr>) = insert (cname cl) (known ctx)"
    by (auto simp: known_def)
  have "all_listeners (\<lambda>n l. listener_refs l \<subseteq> known ctx) (cfg ctx)" using assms by (simp add: refs_ctx_def)
  then have "all_listeners (\<lambda>na l. listener_refs l \<subseteq> insert (cname cl) (known ctx)) (cfg ctx)"
    by (rule all_listeners_mono) blast
  then show "refs_ctx (ctx\<lparr>ctx_clusters := ctx_clusters ctx @ [cl]\<rparr>)"
    using assms unfolding refs_ctx_def k by auto
qed

lemma otel_known: "otel_refs (cals ctx) \<subseteq> known ctx"
  by (simp add: known_def)

lemma tcp_terminal_keeps_refs: "keeps_refs (tcpProxyTerminalLayer l7)" "keeps_refs (tcpDenyTerminalLayer l7)"
proof -
  show "keeps_refs (tcpProxyTerminalLayer l7)"
  proof (rule keeps_refsI)
    fix ctx ctx' assume r: "refs_ctx ctx" "tcpProxyTerminalLayer l7 ctx = Inr ctx'"
    have "upstreamCluster ctx \<in> known ctx" using r by (auto simp: tcpProxyTerminalLayer_def refs_ctx_def split: if_splits)
    then have "refs_ctx (ctx\<lparr>filters := filters ctx @ [tcp_proxy (upstreamCluster ctx) (upstreamCluster ctx)
        (buildTCPAccessLog ''tcp'' l7 (normalizeDomain (Dst (crule ctx))) VerdictAllowed (cals ctx))]\<rparr>)"
      using r(1) otel_known [of ctx] tcp_proxy_refs by (intro refs_ctx_filters) (auto simp: refs_ctx_def)
    then show "refs_ctx ctx'" using r(2) by (auto simp: tcpProxyTerminalLayer_def split: if_splits)
  qed
  show "keeps_refs (tcpDenyTerminalLayer l7)"
  proof (rule keeps_refsI)
    fix ctx ctx' assume r: "refs_ctx ctx" "tcpDenyTerminalLayer l7 ctx = Inr ctx'"
    let ?c = "ctx\<lparr>ctx_clusters := ctx_clusters ctx @ [buildDenyCluster]\<rparr>"
    note k = refs_ctx_add_cluster [OF r(1), of buildDenyCluster]
    have "set (concat (map cluster_refs (filters ctx))) \<subseteq> known ctx" using r(1) by (simp add: refs_ctx_def)
    then have "refs_ctx (?c\<lparr>filters := filters ctx @ [tcp_proxy denyClusterName denyClusterName
        (buildTCPAccessLog ''tcp'' l7 (normalizeDomain (Dst (crule ctx))) VerdictDenied (cals ctx))]\<rparr>)"
      using otel_known [of ctx] tcp_proxy_refs by (intro refs_ctx_filters k) (auto simp: k(2))
    then show "refs_ctx ctx'" using r(2) by (simp add: tcpDenyTerminalLayer_def)
  qed
qed

lemma refs_udp_filter:
  assumes "refs_ctx ctx" "cl \<in> known ctx"
    "SetListenerField (listener ctx) ''listener_filters'' (YList [udp_proxy cl (buildTCPAccessLog t l7 ad act (cals ctx))]) (cfg ctx) = Inr c"
  shows "refs_ctx (ctx\<lparr>cfg := c\<rparr>)"
proof (rule refs_ctx_cfg [OF assms(1)])
  show "all_listeners (\<lambda>n l. listener_refs l \<subseteq> known ctx) c"
    by (rule refs_SetListenerField [OF assms(3)])
      (use assms otel_known [of ctx] udp_proxy_refs in \<open>auto simp: plain_key_def refs_ctx_def\<close>)
  show "clusters c = clusters (cfg ctx)" by (rule SetListenerField_clusters [OF assms(3)])
qed

lemma udp_terminal_keeps_refs: "keeps_refs udpProxyTerminalLayer" "keeps_refs udpDenyTerminalLayer"
proof -
  show "keeps_refs udpProxyTerminalLayer"
  proof (rule keeps_refsI)
    fix ctx ctx' assume r: "refs_ctx ctx" "udpProxyTerminalLayer ctx = Inr ctx'"
    then have u: "upstreamCluster ctx \<in> known ctx" by (auto simp: udpProxyTerminalLayer_def refs_ctx_def split: if_splits)
    obtain c where c: "SetListenerField (listener ctx) ''listener_filters'' (YList [udp_proxy (upstreamCluster ctx)
        (buildTCPAccessLog ''udp'' ''udp'' (normalizeDomain (Dst (crule ctx))) VerdictAllowed (cals ctx))]) (cfg ctx) = Inr c"
      and e: "ctx' = ctx\<lparr>cfg := c\<rparr>" using r(2) by (auto simp: udpProxyTerminalLayer_def split: sum.splits if_splits)
    show "refs_ctx ctx'" unfolding e by (rule refs_udp_filter [OF r(1) u c])
  qed
  show "keeps_refs udpDenyTerminalLayer"
  proof (rule keeps_refsI)
    fix ctx ctx' assume r: "refs_ctx ctx" "udpDenyTerminalLayer ctx = Inr ctx'"
    let ?c = "ctx\<lparr>ctx_clusters := ctx_clusters ctx @ [buildDenyCluster]\<rparr>"
    note k = refs_ctx_add_cluster [OF r(1), of buildDenyCluster]
    obtain c where c: "SetListenerField (listener ctx) ''listener_filters'' (YList [udp_proxy denyClusterName
        (buildTCPAccessLog ''udp'' ''udp'' (normalizeDomain (Dst (crule ctx))) VerdictDenied (cals ctx))]) (cfg ctx) = Inr c"
      and e: "ctx' = ?c\<lparr>cfg := c\<rparr>" using r(2) by (auto simp: udpDenyTerminalLayer_def split: sum.splits)
    show "refs_ctx ctx'" unfolding e by (rule refs_udp_filter [OF k(1)]) (use k(2) c in auto)
  qed
qed


lemma rule_vhost_refs: "set (cluster_refs (rule_vhost ctx ds)) \<subseteq> {upstreamCluster ctx}"
proof -
  have "concat (map cluster_refs (map YStr ds)) = []" by (induction ds) simp_all
  then show ?thesis using httpRoutes_refs [of "crule ctx" "upstreamCluster ctx" "websocket ctx"]
    by (auto simp: rule_vhost_def plain_key_def)
qed

lemma refs_yset_if:
  assumes "plain_key k" "cluster_refs v = []" "set (cluster_refs y) \<subseteq> K"
  shows "set (cluster_refs (if b then yset k v y else y)) \<subseteq> K"
  using refs_yset [OF assms(1), of v y] assms(2,3) by auto

lemma httpAppLayer_form:
  assumes "httpAppLayer dfp ctx = Inr ctx'"
  obtains vhosts dfp' where "upstreamCluster ctx \<noteq> []" "listener ctx \<noteq> []"
    "ctx' = ctx\<lparr>filters := [hcm_filter (httpHCM (hcmCodec ctx) (tlsTerminated ctx) (httpFilterChain ctx dfp') (cals ctx)
      vhosts (websocket ctx))]\<rparr>"
    "set (concat (map cluster_refs vhosts)) \<subseteq> {upstreamCluster ctx}"
proof (cases "isCIDR (Dst (crule ctx))")
  case True
  then show ?thesis
    using assms that [where vhosts = "[rule_vhost ctx [''*'']]" and dfp' = noDFP] rule_vhost_refs [of ctx "[''*'']"]
    by (auto simp: httpAppLayer_def split: if_splits)
next
  case False
  let ?v0 = "rule_vhost ctx (httpDomains (Dst (crule ctx)) (cport ctx) (bareHostPort ctx))"
  let ?v1 = "if advertiseH3 ctx then yset ''response_headers_to_add'' (altSvcH3Header (cport ctx)) ?v0 else ?v0"
  let ?v2 = "if active dfp \<and> \<not> upstreamFollowsHost ctx then yset ''typed_per_filter_config'' disableDFPPerVHost ?v1 else ?v1"
  let ?d = "if active dfp then yset ''typed_per_filter_config'' disableDFPPerVHost denyAllVHost else denyAllVHost"
  have "set (cluster_refs ?v2) \<subseteq> {upstreamCluster ctx}"
    by (intro refs_yset_if rule_vhost_refs) (simp_all add: plain_key_def)
  moreover have "set (cluster_refs ?d) \<subseteq> {upstreamCluster ctx}"
    by (intro refs_yset_if) (simp_all add: plain_key_def)
  ultimately have "set (concat (map cluster_refs [?v2, ?d])) \<subseteq> {upstreamCluster ctx}"
    by (simp only: list.map concat.simps append_Nil2 set_append Un_subset_iff)
  then show ?thesis
    using assms False that [where vhosts = "[?v2, ?d]" and dfp' = dfp] by (simp add: httpAppLayer_def Let_def split del: if_split split: if_split_asm)
qed

lemma http_app_keeps_refs: "keeps_refs (httpAppLayer dfp)"
proof (rule keeps_refsI)
  fix ctx ctx' assume r: "refs_ctx ctx" "httpAppLayer dfp ctx = Inr ctx'"
  obtain vhosts dfp' where v: "upstreamCluster ctx \<noteq> []"
    "ctx' = ctx\<lparr>filters := [hcm_filter (httpHCM (hcmCodec ctx) (tlsTerminated ctx) (httpFilterChain ctx dfp') (cals ctx)
      vhosts (websocket ctx))]\<rparr>" "set (concat (map cluster_refs vhosts)) \<subseteq> {upstreamCluster ctx}"
    using httpAppLayer_form [OF r(2)] by metis
  have u: "upstreamCluster ctx \<in> known ctx" using r(1) v(1) by (simp add: refs_ctx_def)
  have "httpFilters ctx = []" using r(1) by (simp add: refs_ctx_def)
  then have f: "concat (map cluster_refs (httpFilterChain ctx dfp')) = []" by (simp add: httpFilterChain_def)
  have "set (cluster_refs (httpHCM (hcmCodec ctx) (tlsTerminated ctx) (httpFilterChain ctx dfp') (cals ctx) vhosts (websocket ctx))) \<subseteq> known ctx"
    using httpHCM_refs [of "hcmCodec ctx" "tlsTerminated ctx" "httpFilterChain ctx dfp'" "cals ctx" vhosts "websocket ctx", unfolded f]
      v(3) u otel_known [of ctx] by auto
  then show "refs_ctx ctx'" unfolding v(2)
    by (intro refs_ctx_filters [OF r(1)]) (simp add: hcm_filter_def plain_key_def)
qed

lemmas layers_keep_refs =
  upstream_keeps_refs transport_keeps_refs prefixRange_keeps_refs tls_keeps_refs tcp_terminal_keeps_refs
  udp_terminal_keeps_refs http_app_keeps_refs

lemma layersFor_keep_refs:
  assumes "layersFor r gen = Some lss" "ls \<in> set lss" "f \<in> set ls"
  shows "keeps_refs f"
  using assms layers_keep_refs
  by (fastforce simp: layersFor_def Let_def withWS_def List.map_filter_def split: if_splits option.splits)


subsection \<open>The commit\<close>

lemma hcmVHosts_refs:
  assumes "hcmVHosts ch = Inr vs" "v \<in> set vs"
  shows "set (cluster_refs v) \<subseteq> set (cluster_refs ch)"
proof -
  have as_l: "set (cluster_refs z) \<subseteq> set (cluster_refs y)" if "z \<in> set (as_list (yget k y))" for z k y
  proof -
    from that obtain zs where zs: "yget k y = Some (YList zs)" "z \<in> set zs"
      by (cases "yget k y" rule: as_list.cases) auto
    then show ?thesis using refs_yget [OF zs(1)] by auto
  qed
  let ?fs = "as_list (yget ''filters'' ch)"
  have fs: "length ?fs = 1" "yget ''name'' (hd ?fs) = Some (YStr hcmName)"
    using assms by (auto simp: hcmVHosts_def Let_def split: if_splits)
  then have hd: "hd ?fs \<in> set ?fs" by (cases ?fs) auto
  have vs: "vs = (case yget ''typed_config'' (hd ?fs) of None \<Rightarrow> []
      | Some tc \<Rightarrow> (case yget ''route_config'' tc of None \<Rightarrow> [] | Some rc \<Rightarrow> as_list (yget ''virtual_hosts'' rc)))"
    using assms(1) fs by (simp add: hcmVHosts_def Let_def)
  then obtain tc rc where t: "yget ''typed_config'' (hd ?fs) = Some tc" "yget ''route_config'' tc = Some rc"
    "v \<in> set (as_list (yget ''virtual_hosts'' rc))"
    using assms(2) by (auto split: option.splits)
  from as_l [OF t(3)] refs_yget [OF t(2)] refs_yget [OF t(1)] as_l [OF hd]
  show ?thesis by (meson order_trans)
qed

lemma setHCMVHosts_refs:
  assumes "\<And>v. v \<in> set vs \<Longrightarrow> set (cluster_refs v) \<subseteq> K" "set (cluster_refs ch) \<subseteq> K"
  shows "set (cluster_refs (setHCMVHosts ch vs)) \<subseteq> K"
proof (cases "as_list (yget ''filters'' ch)")
  case (Cons f fs)
  then have yg: "yget ''filters'' ch = Some (YList (f # fs))" by (cases "yget ''filters'' ch" rule: as_list.cases) auto
  have f: "set (cluster_refs f) \<subseteq> K" "set (concat (map cluster_refs fs)) \<subseteq> K"
    using refs_yget [OF yg] assms(2) by auto
  have ys: "set (cluster_refs (yset k v y)) \<subseteq> K" if "plain_key k" "set (cluster_refs v) \<subseteq> K" "set (cluster_refs y) \<subseteq> K" for k v y
    using refs_yset [OF that(1), of v y] that(2,3) by blast
  show ?thesis
  proof (cases "\<exists>tc rc. yget ''typed_config'' f = Some tc \<and> yget ''route_config'' tc = Some rc")
    case True
    then obtain tc rc where t: "yget ''typed_config'' f = Some tc" "yget ''route_config'' tc = Some rc" by blast
    have r: "set (cluster_refs tc) \<subseteq> K" "set (cluster_refs rc) \<subseteq> K"
      using refs_yget [OF t(1)] refs_yget [OF t(2)] f(1) by (meson order_trans)+
    have vl: "set (cluster_refs (YList vs)) \<subseteq> K" using assms(1) by auto
    let ?f = "yset ''typed_config'' (yset ''route_config'' (yset ''virtual_hosts'' (YList vs) rc) tc) f"
    have "set (cluster_refs ?f) \<subseteq> K" by (intro ys vl r f) (simp_all add: plain_key_def)
    then have "set (cluster_refs (YList (?f # fs))) \<subseteq> K" using f(2) by simp
    then show ?thesis unfolding setHCMVHosts_def Cons using t by (simp add: ys plain_key_def assms(2) del: cluster_refs.simps)
  next
    case False
    then have "setHCMVHosts ch vs = ch" unfolding setHCMVHosts_def Cons by (auto split: option.splits)
    then show ?thesis using assms(2) by simp
  qed
qed (simp add: setHCMVHosts_def assms(2))

lemma addChain_refs:
  assumes "addChain marshal n ch c = Inr c'" "all_listeners (\<lambda>n l. listener_refs l \<subseteq> K) c" "set (cluster_refs ch) \<subseteq> K"
    "\<And>l s i. map_of (listeners c) n = Some l \<Longrightarrow> map_of (chainBySig l) s = Some i \<Longrightarrow> i < length (chains l)"
  shows "all_listeners (\<lambda>n l. listener_refs l \<subseteq> K) c'"
proof -
  obtain l sig where l: "map_of (listeners c) n = Some l" "matchSignature marshal (yget ''filter_chain_match'' ch) = Inr sig"
    using assms(1) by (auto simp: addChain_def split: option.splits sum.splits)
  have lr: "listener_refs l \<subseteq> K" by (rule all_listeners_lookup [OF assms(2) l(1)])
  show ?thesis
  proof (cases "map_of (chainBySig l) sig")
    case None
    then have c': "c' = c\<lparr>listeners := AList.update n (l\<lparr>chainBySig := AList.update sig (length (chains l)) (chainBySig l),
        chains := chains l @ [ch]\<rparr>) (listeners c)\<rparr>" using assms(1) l by (simp add: addChain_def)
    have "listener_refs (l\<lparr>chainBySig := AList.update sig (length (chains l)) (chainBySig l), chains := chains l @ [ch]\<rparr>) \<subseteq> K"
      using lr assms(3) by (auto simp: listener_refs_def split: option.splits)
    then show ?thesis unfolding c' by (rule all_listeners_update [OF assms(2)])
  next
    case (Some i)
    then have i: "i < length (chains l)" by (rule assms(4) [OF l(1)])
    obtain m where m: "mergeHCMVHosts (chains l ! i) ch = Inr m"
      and c': "c' = c\<lparr>listeners := AList.update n (l\<lparr>chains := (chains l)[i := m]\<rparr>) (listeners c)\<rparr>"
      using assms(1) l Some by (auto simp: addChain_def split: sum.splits)
    obtain ev iv where v: "hcmVHosts (chains l ! i) = Inr ev" "hcmVHosts ch = Inr iv"
      "m = setHCMVHosts (chains l ! i) (dedup_by vhost_name [] (ev @ iv))"
      using m by (auto simp: mergeHCMVHosts_def split: sum.splits)
    have all: "set (cluster_refs x) \<subseteq> K" if "x \<in> set (chains l)" for x
      using lr that unfolding listener_refs_def by (simp add: UN_subset_iff)
    have old: "set (cluster_refs (chains l ! i)) \<subseteq> K" by (rule all [OF nth_mem [OF i]])
    have "set (cluster_refs m) \<subseteq> K" unfolding v(3)
    proof (rule setHCMVHosts_refs [OF _ old])
      fix x assume "x \<in> set (dedup_by vhost_name [] (ev @ iv))"
      then have "x \<in> set ev \<or> x \<in> set iv" using dedup_by_subset [of vhost_name "[]" "ev @ iv"] by auto
      then show "set (cluster_refs x) \<subseteq> K"
        using hcmVHosts_refs [OF v(1)] hcmVHosts_refs [OF v(2)] old assms(3) by (meson order_trans)
    qed
    moreover have "set ((chains l)[i := m]) \<subseteq> insert m (set (chains l))" by (rule List.set_update_subset_insert)
    ultimately have "set (concat (map cluster_refs ((chains l)[i := m]))) \<subseteq> K" using all by fastforce
    then have "listener_refs (l\<lparr>chains := (chains l)[i := m]\<rparr>) \<subseteq> K"
      using lr by (simp add: listener_refs_def)
    then show ?thesis unfolding c' by (rule all_listeners_update [OF assms(2)])
  qed
qed


section \<open>What the layers leave alone\<close>

text \<open>The chains of a listener with their index, empty for a listener that does not exist yet.\<close>

definition chain_view :: "EnvoyConfig \<Rightarrow> string \<Rightarrow> yaml list \<times> (string \<times> nat) list" where
  "chain_view c n = (case map_of (listeners c) n of None \<Rightarrow> ([], []) | Some l \<Rightarrow> (chains l, chainBySig l))"

definition frame :: "genCtx \<Rightarrow> genCtx \<Rightarrow> bool" where
  "frame ctx ctx' \<longleftrightarrow>
     crule ctx' = crule ctx \<and> cports ctx' = cports ctx \<and> cals ctx' = cals ctx \<and>
     clusters (cfg ctx') = clusters (cfg ctx) \<and> chain_view (cfg ctx') = chain_view (cfg ctx)"

lemma chain_view_Ensure [simp]:
  "chain_view (EnsureListener n addr q c) = chain_view c" "chain_view (EnsureQUICListener n addr q c) = chain_view c"
  "chain_view (EnsureRawUDPListener n addr q c) = chain_view c"
  by (auto simp: fun_eq_iff chain_view_def EnsureListener_def EnsureQUICListener_def EnsureRawUDPListener_def
      add_listener_def new_listener_def HasListener_def)

lemma chain_view_frame [simp]:
  "chain_view (c\<lparr>seenPerms := s\<rparr>) = chain_view c" "chain_view (c\<lparr>clusters := cl\<rparr>) = chain_view c"
  "chain_view (c\<lparr>admin := ad\<rparr>) = chain_view c"
  by (simp_all add: chain_view_def fun_eq_iff)

lemma SetListenerField_view:
  "SetListenerField n k v c = Inr c' \<Longrightarrow> chain_view c' = chain_view c \<and> clusters c' = clusters c"
  by (auto simp: SetListenerField_def chain_view_def fun_eq_iff split: option.splits if_splits)

lemma upstream_frames:
  "httpExactUpstreamLayer ctx = Inr ctx' \<Longrightarrow> frame ctx ctx'" "httpWildcardUpstreamLayer ctx = Inr ctx' \<Longrightarrow> frame ctx ctx'"
  "httpsExactUpstreamLayer ctx = Inr ctx' \<Longrightarrow> frame ctx ctx'" "httpsWildcardUpstreamLayer ctx = Inr ctx' \<Longrightarrow> frame ctx ctx'"
  "tcpPinnedUpstreamLayer ctx = Inr ctx' \<Longrightarrow> frame ctx ctx'" "udpPinnedUpstreamLayer ctx = Inr ctx' \<Longrightarrow> frame ctx ctx'"
  "opaqueCIDRUpstreamLayer ctx = Inr ctx' \<Longrightarrow> frame ctx ctx'" "httpOriginalDstUpstreamLayer ctx = Inr ctx' \<Longrightarrow> frame ctx ctx'"
  "httpsOriginalDstUpstreamLayer ctx = Inr ctx' \<Longrightarrow> frame ctx ctx'"
  by (simp_all only: httpExactUpstreamLayer_def httpWildcardUpstreamLayer_def httpsExactUpstreamLayer_def
    httpsWildcardUpstreamLayer_def tcpPinnedUpstreamLayer_def udpPinnedUpstreamLayer_def opaqueCIDRUpstreamLayer_def
    httpOriginalDstUpstreamLayer_def httpsOriginalDstUpstreamLayer_def Let_def use_cluster_def frame_def sum.inject)
    auto

lemma transport_frames:
  "tcpEgressLayer ctx = Inr ctx' \<Longrightarrow> frame ctx ctx'" "tcpDedicatedListenerLayer ep q ctx = Inr ctx' \<Longrightarrow> frame ctx ctx'"
  "udpDedicatedListenerLayer ep q ctx = Inr ctx' \<Longrightarrow> frame ctx ctx'" "wsEnrichLayer ctx = Inr ctx' \<Longrightarrow> frame ctx ctx'"
  by (auto simp: frame_def tcpEgressLayer_def tcpDedicatedListenerLayer_def udpDedicatedListenerLayer_def wsEnrichLayer_def Let_def)

lemma prefixRange_frame: "prefixRangeTransportLayer q ctx = Inr ctx' \<Longrightarrow> frame ctx ctx'"
  by (auto simp: frame_def prefixRangeTransportLayer_def split: sum.splits dest!: SetListenerField_view)

lemma quic_frame: "quicSNIChainLayer ex ctx = Inr ctx' \<Longrightarrow> frame ctx ctx'"
  by (cases "downstreamCryptoMatch (crule ctx) ex False") (auto simp: frame_def quicSNIChainLayer_def split: if_splits)

lemma tls_frame: "tlsSNIChainLayer ex ctx = Inr ctx' \<Longrightarrow> frame ctx ctx'"
  by (cases "downstreamCryptoMatch (crule ctx) ex True")
    (auto simp: frame_def tlsSNIChainLayer_def Let_def split: sum.splits if_splits dest!: SetListenerField_view)

lemma terminal_frames:
  "tcpProxyTerminalLayer l7 ctx = Inr ctx' \<Longrightarrow> frame ctx ctx'" "tcpDenyTerminalLayer l7 ctx = Inr ctx' \<Longrightarrow> frame ctx ctx'"
  "udpProxyTerminalLayer ctx = Inr ctx' \<Longrightarrow> frame ctx ctx'" "udpDenyTerminalLayer ctx = Inr ctx' \<Longrightarrow> frame ctx ctx'"
  "httpAppLayer dfp ctx = Inr ctx' \<Longrightarrow> frame ctx ctx'"
proof -
  show "httpAppLayer dfp ctx = Inr ctx' \<Longrightarrow> frame ctx ctx'" by (erule httpAppLayer_form) (simp add: frame_def)
qed (auto simp: frame_def tcpProxyTerminalLayer_def tcpDenyTerminalLayer_def udpProxyTerminalLayer_def udpDenyTerminalLayer_def
    split: sum.splits if_splits dest!: SetListenerField_view)

lemmas layer_frames =
  upstream_frames transport_frames prefixRange_frame quic_frame tls_frame terminal_frames

definition framed :: "layer \<Rightarrow> bool" where
  "framed f \<longleftrightarrow> (\<forall>ctx ctx'. f ctx = Inr ctx' \<longrightarrow> frame ctx ctx')"

lemma layers_framed:
  "framed httpExactUpstreamLayer" "framed httpWildcardUpstreamLayer" "framed httpsExactUpstreamLayer"
  "framed httpsWildcardUpstreamLayer" "framed tcpPinnedUpstreamLayer" "framed udpPinnedUpstreamLayer"
  "framed opaqueCIDRUpstreamLayer" "framed httpOriginalDstUpstreamLayer" "framed httpsOriginalDstUpstreamLayer"
  "framed tcpEgressLayer" "framed (tcpDedicatedListenerLayer ep q)" "framed (udpDedicatedListenerLayer ep q)"
  "framed wsEnrichLayer" "framed (prefixRangeTransportLayer q)" "framed (quicSNIChainLayer ex)" "framed (tlsSNIChainLayer ex)"
  "framed (tcpProxyTerminalLayer l7)" "framed (tcpDenyTerminalLayer l7)" "framed udpProxyTerminalLayer"
  "framed udpDenyTerminalLayer" "framed (httpAppLayer dfp)"
  unfolding framed_def by (blast intro: layer_frames)+

lemma layersFor_framed:
  assumes "layersFor r gen = Some lss" "ls \<in> set lss" "f \<in> set ls"
  shows "framed f"
  using assms layers_framed
  by (fastforce simp: layersFor_def Let_def withWS_def List.map_filter_def split: if_splits option.splits)

section \<open>What the deriver emits\<close>

text \<open>The rule a permutation is built for: a rule of the list, a ws or wss rule under its base protocol.\<close>

definition promoted_rule :: "EgressRule \<Rightarrow> EgressRule" where
  "promoted_rule r =
     (if ToLower (Proto r) = ''ws'' \<or> ToLower (Proto r) = ''wss'' then r\<lparr>Proto := baseProto (ToLower (Proto r))\<rparr> else r)"

lemma rule_perms_layers:
  assumes "x \<in> set (rule_perms r lss)"
  shows "layers x \<in> set lss" "prule x = r"
proof -
  obtain e where e: "e \<in> set (enumerate 0 lss)" "x = (case e of (i, ls) \<Rightarrow> \<lparr>prule = r, layers = ls, key = perm_key r i\<rparr>)"
    using assms unfolding rule_perms_def by auto
  have "snd e \<in> snd ` set (enumerate 0 lss)" using e(1) by simp
  then have "snd e \<in> set lss" by (metis map_snd_enumerate set_map)
  then show "layers x \<in> set lss" "prule x = r" using e(2) by (simp_all add: case_prod_unfold)
qed

lemma derive_loop_perm:
  assumes "x \<in> set (fst (derive_loop gen promoted rules))"
  shows "\<exists>r \<in> set rules. \<exists>lss. layersFor (promoted_rule r) gen = Some lss \<and> layers x \<in> set lss \<and>
    prule x = promoted_rule r \<and> (isDenyAction (Action r) \<longrightarrow> isOpaqueProto (Proto r))"
  using assms
proof (induction gen promoted rules rule: derive_loop.induct)
  case (2 gen promoted r0 rs)
  show ?case
  proof (cases "isDenyAction (Action r0) \<and> \<not> isOpaqueProto (Proto r0)")
    case True
    then show ?thesis using 2 by (auto simp: Let_def)
  next
    case False
    let ?ws = "ToLower (Proto r0) = ''ws'' \<or> ToLower (Proto r0) = ''wss''"
    let ?r = "if ?ws then r0\<lparr>Proto := baseProto (ToLower (Proto r0))\<rparr> else r0"
    let ?pr = "if ?ws then originKey r0 # promoted else promoted"
    show ?thesis
    proof (cases "?ws \<and> (originKey r0 \<in> set (explicitBaseOrigins gen) \<or> originKey r0 \<in> set promoted)")
      case skip: True
      then show ?thesis using False 2(2) [OF False refl refl refl skip] 2(4) by (auto simp: Let_def)
    next
      case keep: False
      obtain perms warns where pw: "derive_loop gen ?pr rs = (perms, warns)" by (cases "derive_loop gen ?pr rs")
      have IH: "x \<in> set perms \<Longrightarrow> ?thesis"
        using 2(3) [OF False refl refl refl keep refl refl] pw by auto
      have "derive_loop gen promoted (r0 # rs) =
          (case layersFor ?r gen of
                  None \<Rightarrow> (perms, ProtoNotSupported (Proto ?r) (Dst ?r) # warns)
                | Some [] \<Rightarrow> (perms, ProtoNotSupported (Proto ?r) (Dst ?r) # warns)
                | Some (l # lss) \<Rightarrow>
                    (rule_perms ?r (l # lss) @ perms,
                     (if isCIDR (Dst ?r) \<and> baseProto (ToLower (Proto ?r)) = ''https'' \<and> \<not> InsecureSkipTLSVerify ?r
                      then [HTTPSToCIDR (Dst ?r)] else []) @ warns))"
        by (simp only: derive_loop.simps Let_def False keep if_False pw prod.case)
      then consider "x \<in> set perms" | l lss where "layersFor ?r gen = Some (l # lss)" "x \<in> set (rule_perms ?r (l # lss))"
        using 2(4) by (auto split: option.splits list.splits)
      then show ?thesis
      proof cases
        case 1
        then show ?thesis by (rule IH)
      next
        case (2 l lss)
        have rp: "layers x \<in> set (l # lss)" "prule x = ?r" by (rule rule_perms_layers [OF 2(2)])+
        have pr: "promoted_rule r0 = ?r" by (simp add: promoted_rule_def)
        show ?thesis
        proof (intro bexI exI conjI impI)
          show "layersFor (promoted_rule r0) gen = Some (l # lss)" unfolding pr by (rule 2(1))
          show "layers x \<in> set (l # lss)" by (rule rp(1))
          show "prule x = promoted_rule r0" unfolding pr by (rule rp(2))
          show "isDenyAction (Action r0) \<Longrightarrow> isOpaqueProto (Proto r0)" using False by blast
        qed simp
      qed
    qed
  qed
qed simp


section \<open>The index of filter-chain matches\<close>

definition sig_of :: "(yaml \<Rightarrow> string + string) \<Rightarrow> yaml \<Rightarrow> gen_error + string" where
  "sig_of marshal ch = matchSignature marshal (yget ''filter_chain_match'' ch)"

definition indexed :: "(yaml \<Rightarrow> string + string) \<Rightarrow> yaml list \<times> (string \<times> nat) list \<Rightarrow> bool" where
  "indexed marshal v \<longleftrightarrow>
     (\<forall>i < length (fst v). \<exists>s. sig_of marshal (fst v ! i) = Inr s) \<and>
     (\<forall>s i. map_of (snd v) s = Some i \<longleftrightarrow> i < length (fst v) \<and> sig_of marshal (fst v ! i) = Inr s)"

definition chains_indexed :: "(yaml \<Rightarrow> string + string) \<Rightarrow> EnvoyConfig \<Rightarrow> bool" where
  "chains_indexed marshal c \<longleftrightarrow> (\<forall>n. indexed marshal (chain_view c n))"

lemma setHCMVHosts_match: "sig_of marshal (setHCMVHosts ch vs) = sig_of marshal ch"
proof -
  have "yget ''filter_chain_match'' (setHCMVHosts ch vs) = yget ''filter_chain_match'' ch"
    by (cases ch) (simp_all add: setHCMVHosts_def split: list.splits option.splits)
  then show ?thesis by (simp add: sig_of_def)
qed

lemma indexed_append:
  assumes "indexed marshal (chs, idx)" "sig_of marshal ch = Inr s" "map_of idx s = None"
  shows "indexed marshal (chs @ [ch], AList.update s (length chs) idx)"
proof -
  have no: "\<not> (i < length chs \<and> sig_of marshal (chs ! i) = Inr s)" for i
    using assms(1,3) unfolding indexed_def by (metis fst_conv snd_conv option.distinct(1))
  then show ?thesis using assms(1,2) by (auto simp: indexed_def nth_append less_Suc_eq)
qed

lemma indexed_merge:
  assumes "indexed marshal (chs, idx)" "sig_of marshal ch = sig_of marshal (chs ! i)"
  shows "indexed marshal (chs[i := ch], idx)"
proof -
  have "sig_of marshal (chs[i := ch] ! j) = sig_of marshal (chs ! j)" for j
    using assms(2) by (cases "i < length chs") (auto simp: nth_list_update list_update_beyond)
  then show ?thesis using assms(1) by (simp add: indexed_def)
qed

lemma addChain_view:
  assumes "addChain marshal n ch c = Inr c'" "chains_indexed marshal c"
  obtains (new) s where "chain_view c' = (chain_view c)(n := (fst (chain_view c n) @ [ch],
      AList.update s (length (fst (chain_view c n))) (snd (chain_view c n))))"
      "sig_of marshal ch = Inr s" "map_of (snd (chain_view c n)) s = None" "clusters c' = clusters c"
  | (merged) i m where "chain_view c' = (chain_view c)(n := ((fst (chain_view c n))[i := m], snd (chain_view c n)))"
      "i < length (fst (chain_view c n))" "sig_of marshal (fst (chain_view c n) ! i) = sig_of marshal ch"
      "mergeHCMVHosts (fst (chain_view c n) ! i) ch = Inr m" "clusters c' = clusters c"
proof -
  obtain l s where l: "map_of (listeners c) n = Some l" "sig_of marshal ch = Inr s"
    using assms(1) by (auto simp: addChain_def sig_of_def split: option.splits sum.splits)
  have v: "chain_view c n = (chains l, chainBySig l)" using l(1) by (simp add: chain_view_def)
  show thesis
  proof (cases "map_of (chainBySig l) s")
    case None
    then have "c' = c\<lparr>listeners := AList.update n (l\<lparr>chainBySig := AList.update s (length (chains l)) (chainBySig l),
        chains := chains l @ [ch]\<rparr>) (listeners c)\<rparr>" using assms(1) l by (simp add: addChain_def sig_of_def)
    then show ?thesis using None l v by (intro new [of s]) (auto simp: chain_view_def fun_eq_iff)
  next
    case (Some i)
    obtain m where m: "mergeHCMVHosts (chains l ! i) ch = Inr m"
      and c': "c' = c\<lparr>listeners := AList.update n (l\<lparr>chains := (chains l)[i := m]\<rparr>) (listeners c)\<rparr>"
      using assms(1) l Some by (auto simp: addChain_def sig_of_def split: sum.splits)
    have "indexed marshal (chains l, chainBySig l)" using assms(2) v by (metis chains_indexed_def)
    then have i: "i < length (chains l)" "sig_of marshal (chains l ! i) = Inr s" using Some by (auto simp: indexed_def)
    show ?thesis using m c' i v l by (intro merged [of i m]) (auto simp: chain_view_def fun_eq_iff)
  qed
qed

lemma addChain_index:
  assumes "addChain marshal n ch c = Inr c'" "chains_indexed marshal c"
  shows "chains_indexed marshal c'"
proof (cases rule: addChain_view [OF assms])
  case (1 s)
  have "indexed marshal (chain_view c n)" using assms(2) by (simp add: chains_indexed_def)
  then have "indexed marshal (fst (chain_view c n), snd (chain_view c n))" by simp
  from indexed_append [OF this 1(2,3)] show ?thesis using assms(2) unfolding chains_indexed_def 1(1) by simp
next
  case (2 i m)
  have "sig_of marshal m = sig_of marshal (fst (chain_view c n) ! i)"
    using 2(4) setHCMVHosts_match by (auto simp: mergeHCMVHosts_def split: sum.splits)
  moreover have "indexed marshal (fst (chain_view c n), snd (chain_view c n))" using assms(2) by (simp add: chains_indexed_def)
  ultimately show ?thesis using indexed_merge assms(2) unfolding chains_indexed_def 2(1) by (metis fun_upd_apply)
qed

lemma chains_indexed_view: "chain_view c' = chain_view c \<Longrightarrow> chains_indexed marshal c' = chains_indexed marshal c"
  by (simp add: chains_indexed_def)

lemma add_clusters_view: "add_clusters cls c = Inr c' \<Longrightarrow> chain_view c' = chain_view c"
  using add_clusters_names [of cls c c'] by (auto simp: chain_view_def fun_eq_iff)

section \<open>Interpretation: no dangling references\<close>

definition refs_cfg :: "(yaml \<Rightarrow> string + string) \<Rightarrow> ALSConfig \<Rightarrow> EnvoyConfig \<Rightarrow> bool" where
  "refs_cfg marshal a c \<longleftrightarrow>
     all_listeners (\<lambda>n l. listener_refs l \<subseteq> cluster_names c \<union> otel_refs a) c \<and> chains_indexed marshal c"

definition sound_layers :: "permutation \<Rightarrow> bool" where
  "sound_layers x \<longleftrightarrow> list_all (\<lambda>f. keeps_refs f \<and> framed f) (layers x)"

lemma ctx_chain_refs:
  assumes "refs_ctx ctx"
  shows "set (cluster_refs (ctx_chain ctx)) \<subseteq> known ctx"
  using assms by (cases "chain_match ctx"; cases "socket ctx") (simp_all add: ctx_chain_def refs_ctx_def plain_key_def)

lemma commit_refs:
  assumes "refs_ctx ctx" "chains_indexed marshal (cfg ctx)" "commit marshal ctx = Inr c"
  shows "refs_cfg marshal (cals ctx) c"
proof -
  obtain c1 where c1: "add_clusters (ctx_clusters ctx) (cfg ctx) = Inr c1"
    using assms(3) by (auto simp: commit_def split: sum.splits)
  note names = add_clusters_names [OF c1]
  have k: "cluster_names c1 \<union> otel_refs (cals ctx) = known ctx" using names by (auto simp: known_def cname_def)
  have A1: "all_listeners (\<lambda>n l. listener_refs l \<subseteq> known ctx) c1"
    using assms(1) names by (simp add: refs_ctx_def all_listeners_def)
  have I1: "chains_indexed marshal c1" using assms(2) chains_indexed_view [OF add_clusters_view [OF c1]] by simp
  show ?thesis
  proof (cases "filters ctx = []")
    case True
    then have "c = c1" using assms(3) c1 by (simp add: commit_def)
    then show ?thesis using A1 I1 k by (simp add: refs_cfg_def)
  next
    case False
    then have ac: "addChain marshal (listener ctx) (ctx_chain ctx) c1 = Inr c" using assms(3) c1 by (simp add: commit_def)
    have "indexed marshal (chain_view c1 (listener ctx))" using I1 by (simp add: chains_indexed_def)
    then have "i < length (chains l)" if "map_of (listeners c1) (listener ctx) = Some l" "map_of (chainBySig l) s = Some i" for l s i
      using that by (simp add: indexed_def chain_view_def)
    from addChain_refs [OF ac A1 ctx_chain_refs [OF assms(1)] this]
    have "all_listeners (\<lambda>n l. listener_refs l \<subseteq> known ctx) c" .
    moreover have "cluster_names c = cluster_names c1"
      by (cases rule: addChain_view [OF ac I1]) (simp_all add: cluster_names_def)
    ultimately show ?thesis using k addChain_index [OF ac I1] by (simp add: refs_cfg_def)
  qed
qed

interpretation refs: forward_pass marshal p a sound_layers
    "\<lambda>x ctx. refs_ctx ctx \<and> cals ctx = a \<and> chains_indexed marshal (cfg ctx)" "refs_cfg marshal a"
  for marshal p a
proof unfold_locales
  fix c x
  assume "refs_cfg marshal a c"
  then show "refs_ctx (new_ctx (prule x) p a (c\<lparr>seenPerms := key x # seenPerms c\<rparr>)) \<and>
      cals (new_ctx (prule x) p a (c\<lparr>seenPerms := key x # seenPerms c\<rparr>)) = a \<and>
      chains_indexed marshal (cfg (new_ctx (prule x) p a (c\<lparr>seenPerms := key x # seenPerms c\<rparr>)))"
    by (auto simp: refs_cfg_def refs_ctx_def new_ctx_def known_def cluster_names_def chains_indexed_def)
next
  fix x ctx f ctx'
  assume "sound_layers x" "refs_ctx ctx \<and> cals ctx = a \<and> chains_indexed marshal (cfg ctx)" "f \<in> set (layers x)" "f ctx = Inr ctx'"
  then show "refs_ctx ctx' \<and> cals ctx' = a \<and> chains_indexed marshal (cfg ctx')"
    by (auto simp: sound_layers_def list_all_iff keeps_refs_def framed_def frame_def chains_indexed_def)
next
  fix x ctx c
  assume "refs_ctx ctx \<and> cals ctx = a \<and> chains_indexed marshal (cfg ctx)" "commit marshal ctx = Inr c"
  then show "refs_cfg marshal a c" using commit_refs by blast
qed


section \<open>Interpretation: every cluster and chain has its rule\<close>

text \<open>
  A layer contributes clusters that satisfy \<open>C\<close> and moves the chain only to a listener and match
  that satisfy \<open>T\<close>.
\<close>

definition contrib :: "(yaml \<Rightarrow> bool) \<Rightarrow> (string \<Rightarrow> yaml option \<Rightarrow> bool) \<Rightarrow> EgressRule \<Rightarrow> layer \<Rightarrow> bool" where
  "contrib C T r f \<longleftrightarrow>
     (\<forall>ctx ctx'. crule ctx = r \<longrightarrow> f ctx = Inr ctx' \<longrightarrow>
        (\<forall>cl \<in> set (ctx_clusters ctx'). cl \<in> set (ctx_clusters ctx) \<or> C cl) \<and>
        (listener ctx' = listener ctx \<and> chain_match ctx' = chain_match ctx \<or> T (listener ctx') (chain_match ctx')))"

definition sourced_chains :: "(string \<Rightarrow> yaml option \<Rightarrow> bool) \<Rightarrow> EnvoyConfig \<Rightarrow> bool" where
  "sourced_chains T c \<longleftrightarrow>
     (\<forall>n ch. ch \<in> set (fst (chain_view c n)) \<longrightarrow> n = [] \<or> T n (yget ''filter_chain_match'' ch))"

definition sourced_clusters :: "(yaml \<Rightarrow> bool) \<Rightarrow> EnvoyConfig \<Rightarrow> bool" where
  "sourced_clusters C c \<longleftrightarrow> (\<forall>(n, cl) \<in> set (clusters c). cname cl = n \<and> C cl)"

definition sourced :: "(yaml \<Rightarrow> string + string) \<Rightarrow> (yaml \<Rightarrow> bool) \<Rightarrow> (string \<Rightarrow> yaml option \<Rightarrow> bool) \<Rightarrow> EnvoyConfig \<Rightarrow> bool" where
  "sourced marshal C T c \<longleftrightarrow> sourced_clusters C c \<and> sourced_chains T c \<and> chains_indexed marshal c"

definition sourced_ctx :: "(yaml \<Rightarrow> string + string) \<Rightarrow> (yaml \<Rightarrow> bool) \<Rightarrow> (string \<Rightarrow> yaml option \<Rightarrow> bool) \<Rightarrow> genCtx \<Rightarrow> bool" where
  "sourced_ctx marshal C T ctx \<longleftrightarrow>
     sourced marshal C T (cfg ctx) \<and> (\<forall>cl \<in> set (ctx_clusters ctx). C cl) \<and>
     (listener ctx = [] \<or> T (listener ctx) (chain_match ctx))"

lemma AddCluster_sourced: "AddCluster cl c = Inr c' \<Longrightarrow> C cl \<Longrightarrow> sourced_clusters C c \<Longrightarrow> sourced_clusters C c'"
  using set_update_subset [of "cname cl" cl "clusters c"]
  by (fastforce simp: AddCluster_def Let_def sourced_clusters_def cname_def split: if_splits option.splits)

lemma add_clusters_sourced:
  "add_clusters cls c = Inr c' \<Longrightarrow> \<forall>cl \<in> set cls. C cl \<Longrightarrow> sourced_clusters C c \<Longrightarrow> sourced_clusters C c'"
  by (induction cls arbitrary: c) (auto split: sum.splits dest: AddCluster_sourced)

lemma setHCMVHosts_yget: "yget ''filter_chain_match'' (setHCMVHosts ch vs) = yget ''filter_chain_match'' ch"
  by (cases ch) (simp_all add: setHCMVHosts_def split: list.splits option.splits)

lemma addChain_sourced:
  assumes "addChain marshal n ch c = Inr c'" "chains_indexed marshal c" "sourced_chains T c" "n = [] \<or> T n (yget ''filter_chain_match'' ch)"
  shows "sourced_chains T c'"
proof (cases rule: addChain_view [OF assms(1,2)])
  case (1 s)
  then show ?thesis using assms(3,4) by (auto simp: sourced_chains_def)
next
  case (2 i m)
  let ?chs = "fst (chain_view c n)"
  have m: "yget ''filter_chain_match'' m = yget ''filter_chain_match'' (?chs ! i)"
    using 2(4) setHCMVHosts_yget by (auto simp: mergeHCMVHosts_def split: sum.splits)
  have "n = [] \<or> T n (yget ''filter_chain_match'' m)"
    using assms(3) nth_mem [OF 2(2)] unfolding m sourced_chains_def by blast
  moreover have "set (?chs[i := m]) \<subseteq> insert m (set ?chs)" by (rule List.set_update_subset_insert)
  ultimately show ?thesis using assms(3) unfolding sourced_chains_def 2(1) by auto
qed

lemma ctx_chain_match: "yget ''filter_chain_match'' (ctx_chain ctx) = chain_match ctx"
  by (cases "chain_match ctx"; cases "socket ctx") (simp_all add: ctx_chain_def)

lemma commit_sourced:
  assumes "sourced_ctx marshal C T ctx" "commit marshal ctx = Inr c"
  shows "sourced marshal C T c"
proof -
  obtain c1 where c1: "add_clusters (ctx_clusters ctx) (cfg ctx) = Inr c1"
    using assms(2) by (auto simp: commit_def split: sum.splits)
  note v = add_clusters_view [OF c1]
  have S1: "sourced_clusters C c1" "sourced_chains T c1" "chains_indexed marshal c1"
    using add_clusters_sourced [OF c1, of C] assms(1) v
    by (auto simp: sourced_ctx_def sourced_def sourced_chains_def chains_indexed_def)
  show ?thesis
  proof (cases "filters ctx = []")
    case True
    then show ?thesis using assms(2) c1 S1 by (simp add: commit_def sourced_def)
  next
    case False
    then have ac: "addChain marshal (listener ctx) (ctx_chain ctx) c1 = Inr c" using assms(2) c1 by (simp add: commit_def)
    have "clusters c = clusters c1" by (cases rule: addChain_view [OF ac S1(3)]) simp_all
    then have "sourced_clusters C c" using S1(1) by (simp add: sourced_clusters_def)
    moreover have "sourced_chains T c"
      using addChain_sourced [OF ac S1(3,2)] assms(1) by (simp add: ctx_chain_match sourced_ctx_def)
    ultimately show ?thesis using addChain_index [OF ac S1(3)] by (simp add: sourced_def)
  qed
qed

interpretation origin: forward_pass marshal p a "\<lambda>x. list_all (\<lambda>f. framed f \<and> contrib C T (prule x) f) (layers x)"
    "\<lambda>x ctx. crule ctx = prule x \<and> sourced_ctx marshal C T ctx" "sourced marshal C T"
  for marshal p a C T
proof unfold_locales
  fix c x
  assume "sourced marshal C T c"
  then show "crule (new_ctx (prule x) p a (c\<lparr>seenPerms := key x # seenPerms c\<rparr>)) = prule x \<and>
      sourced_ctx marshal C T (new_ctx (prule x) p a (c\<lparr>seenPerms := key x # seenPerms c\<rparr>))"
    by (simp add: new_ctx_def sourced_ctx_def sourced_def sourced_clusters_def sourced_chains_def chains_indexed_def)
next
  fix x ctx f ctx'
  assume g: "list_all (\<lambda>f. framed f \<and> contrib C T (prule x) f) (layers x)" and
    I: "crule ctx = prule x \<and> sourced_ctx marshal C T ctx" and f: "f \<in> set (layers x)" "f ctx = Inr ctx'"
  have fr: "frame ctx ctx'" using g f by (auto simp: list_all_iff framed_def)
  have co: "(\<forall>cl \<in> set (ctx_clusters ctx'). cl \<in> set (ctx_clusters ctx) \<or> C cl) \<and>
      (listener ctx' = listener ctx \<and> chain_match ctx' = chain_match ctx \<or> T (listener ctx') (chain_match ctx'))"
    using g f I by (auto simp: list_all_iff contrib_def)
  have "sourced marshal C T (cfg ctx')"
    using I fr by (simp add: sourced_ctx_def sourced_def frame_def sourced_clusters_def sourced_chains_def chains_indexed_def)
  then show "crule ctx' = prule x \<and> sourced_ctx marshal C T ctx'"
    using I fr co by (auto simp: sourced_ctx_def frame_def)
next
  fix x ctx c
  assume "crule ctx = prule x \<and> sourced_ctx marshal C T ctx" "commit marshal ctx = Inr c"
  then show "sourced marshal C T c" using commit_sourced by blast
qed


subsection \<open>What each layer contributes\<close>

definition prefix_match :: "EgressRule \<Rightarrow> int \<Rightarrow> yaml" where
  "prefix_match r q =
     YMap [(''transport_protocol'', YStr ''raw_buffer''), (''prefix_ranges'', YList [ipPrefixRange (Dst r)]),
           (''destination_port'', YInt q)]"

definition plain_match :: yaml where
  "plain_match = YMap [(''transport_protocol'', YStr ''raw_buffer'')]"

lemma contrib_transport:
  "T egressListenerName (Some plain_match) \<Longrightarrow> contrib C T r tcpEgressLayer"
  "T egressListenerName (Some (prefix_match r q)) \<Longrightarrow> contrib C T r (prefixRangeTransportLayer q)"
  "T (tcpPinnedName (normalizeDomain (Dst r)) q) None \<Longrightarrow> contrib C T r (tcpDedicatedListenerLayer ep q)"
  "T (udpPinnedName (normalizeDomain (Dst r)) q) None \<Longrightarrow> contrib C T r (udpDedicatedListenerLayer ep q)"
  "contrib C T r wsEnrichLayer"
  by (auto simp: contrib_def tcpEgressLayer_def prefixRangeTransportLayer_def tcpDedicatedListenerLayer_def
      udpDedicatedListenerLayer_def wsEnrichLayer_def Let_def plain_match_def prefix_match_def split: sum.splits)

lemma contrib_crypto:
  "T egressListenerName (Some (fst (downstreamCryptoMatch r ex True))) \<Longrightarrow> contrib C T r (tlsSNIChainLayer ex)"
  "T egressQUICListenerName (Some (fst (downstreamCryptoMatch r ex False))) \<Longrightarrow> contrib C T r (quicSNIChainLayer ex)"
  by (cases "downstreamCryptoMatch r ex True"; auto simp: contrib_def tlsSNIChainLayer_def Let_def split: sum.splits if_splits)
    (cases "downstreamCryptoMatch r ex False"; auto simp: contrib_def quicSNIChainLayer_def split: if_splits)

lemma contrib_use_cluster:
  assumes "\<And>ctx. crule ctx = r \<Longrightarrow> \<exists>cl n b. f ctx = Inr (use_cluster cl n b ctx) \<and> C cl"
  shows "contrib C T r f"
  unfolding contrib_def
proof (intro allI impI)
  fix ctx ctx' assume "crule ctx = r" "f ctx = Inr ctx'"
  then obtain cl n b where "ctx' = use_cluster cl n b ctx" "C cl" using assms [of ctx] by auto
  then show "(\<forall>cl \<in> set (ctx_clusters ctx'). cl \<in> set (ctx_clusters ctx) \<or> C cl) \<and>
      (listener ctx' = listener ctx \<and> chain_match ctx' = chain_match ctx \<or> T (listener ctx') (chain_match ctx'))"
    by (auto simp: use_cluster_def)
qed

lemma contrib_upstream:
  "(\<And>n q. C (pinnedCluster n (normalizeDomain (Dst r)) q)) \<Longrightarrow> contrib C T r httpExactUpstreamLayer"
  "(\<And>n q. C (pinnedCluster n (normalizeDomain (Dst r)) q)) \<Longrightarrow> contrib C T r tcpPinnedUpstreamLayer"
  "(\<And>n q. C (pinnedCluster n (normalizeDomain (Dst r)) q)) \<Longrightarrow> contrib C T r udpPinnedUpstreamLayer"
  "(\<And>n q i h. C (decorateReencrypt i h (pinnedCluster n (normalizeDomain (Dst r)) q))) \<Longrightarrow> contrib C T r httpsExactUpstreamLayer"
  "C buildHTTPDFPCluster \<Longrightarrow> contrib C T r httpWildcardUpstreamLayer"
  "(\<And>n i h. C (buildHTTPSDFPCluster n i h)) \<Longrightarrow> contrib C T r httpsWildcardUpstreamLayer"
  "(\<And>n. C (originalDstCluster n)) \<Longrightarrow> contrib C T r opaqueCIDRUpstreamLayer"
  "(\<And>n. C (originalDstCluster n)) \<Longrightarrow> contrib C T r httpOriginalDstUpstreamLayer"
  "(\<And>n i h. C (decorateReencrypt i h (originalDstCluster n))) \<Longrightarrow> contrib C T r httpsOriginalDstUpstreamLayer"
  by (rule contrib_use_cluster;
      simp add: httpExactUpstreamLayer_def tcpPinnedUpstreamLayer_def udpPinnedUpstreamLayer_def httpsExactUpstreamLayer_def
        httpWildcardUpstreamLayer_def httpsWildcardUpstreamLayer_def opaqueCIDRUpstreamLayer_def httpOriginalDstUpstreamLayer_def
        httpsOriginalDstUpstreamLayer_def Let_def buildHTTPDNSCluster_def buildTLSDNSCluster_def; blast)+

lemma contrib_terminal:
  "contrib C T r (tcpProxyTerminalLayer l7)" "contrib C T r udpProxyTerminalLayer" "contrib C T r (httpAppLayer dfp)"
  "C buildDenyCluster \<Longrightarrow> contrib C T r (tcpDenyTerminalLayer l7)" "C buildDenyCluster \<Longrightarrow> contrib C T r udpDenyTerminalLayer"
proof -
  show "contrib C T r (httpAppLayer dfp)"
    unfolding contrib_def by (intro allI impI, erule httpAppLayer_form) simp
qed (auto simp: contrib_def tcpProxyTerminalLayer_def udpProxyTerminalLayer_def tcpDenyTerminalLayer_def udpDenyTerminalLayer_def
    split: sum.splits if_splits)

subsection \<open>The rule behind a cluster and behind a chain\<close>

text \<open>The clusters a rule that allows may bring in.\<close>

definition clusters_for :: "EgressRule \<Rightarrow> yaml \<Rightarrow> bool" where
  "clusters_for r cl \<longleftrightarrow>
     (\<exists>n q. cl = pinnedCluster n (normalizeDomain (Dst r)) q \<or>
        (\<exists>i h. cl = decorateReencrypt i h (pinnedCluster n (normalizeDomain (Dst r)) q))) \<or>
     isCIDR (Dst r) \<and> (\<exists>n. cl = originalDstCluster n \<or> (\<exists>i h. cl = decorateReencrypt i h (originalDstCluster n))) \<or>
     isWildcardDomain (Dst r) \<and> (cl = buildHTTPDFPCluster \<or> (\<exists>n i h. cl = buildHTTPSDFPCluster n i h))"

definition justified :: "EgressRule list \<Rightarrow> yaml \<Rightarrow> bool" where
  "justified rules cl \<longleftrightarrow>
     cl = buildDenyCluster \<or> (\<exists>r \<in> set rules. \<not> isDenyAction (Action r) \<and> clusters_for r cl)"

text \<open>The listener and match of the chains of a rule.\<close>

definition transport_of :: "genFacts \<Rightarrow> EgressRule \<Rightarrow> string \<Rightarrow> yaml option \<Rightarrow> bool" where
  "transport_of gen r n m \<longleftrightarrow>
     n = egressListenerName \<and> (m = Some plain_match \<and> ToLower (Proto r) = ''http'' \<or> (\<exists>q. m = Some (prefix_match r q))) \<or>
     ToLower (Proto r) = ''https'' \<and>
       (n = egressListenerName \<and> m = Some (fst (downstreamCryptoMatch r (httpsExactDomains gen) True)) \<or>
        n = egressQUICListenerName \<and> m = Some (fst (downstreamCryptoMatch r (httpsExactDomains gen) False))) \<or>
     m = None \<and> (\<exists>q. n = tcpPinnedName (normalizeDomain (Dst r)) q \<or> n = udpPinnedName (normalizeDomain (Dst r)) q)"

definition transports :: "genFacts \<Rightarrow> EgressRule list \<Rightarrow> string \<Rightarrow> yaml option \<Rightarrow> bool" where
  "transports gen rules n m \<longleftrightarrow>
     (\<exists>r \<in> set rules. (isDenyAction (Action r) \<longrightarrow> isOpaqueProto (Proto r)) \<and> transport_of gen (promoted_rule r) n m)"

lemma promoted_fields [simp]:
  "Dst (promoted_rule r) = Dst r" "Action (promoted_rule r) = Action r" "InsecureSkipTLSVerify (promoted_rule r) = InsecureSkipTLSVerify r"
  by (simp_all add: promoted_rule_def)

lemma layersFor_contrib:
  assumes "layersFor r gen = Some lss" "ls \<in> set lss" "f \<in> set ls"
    and T: "\<And>n m. transport_of gen r n m \<Longrightarrow> T n m" and D: "C buildDenyCluster"
    and A: "\<And>cl. \<not> isDenyAction (Action r) \<Longrightarrow> clusters_for r cl \<Longrightarrow> C cl"
    and H: "ToLower (Proto r) \<in> {''http'', ''https''} \<Longrightarrow> \<not> isDenyAction (Action r)"
  shows "contrib C T r f"
proof -
  let ?nd = "\<not> isDenyAction (Action r)" and ?h = "normalizeDomain (Dst r)"
  have t: "ToLower (Proto r) = ''http'' \<Longrightarrow> T egressListenerName (Some plain_match)" "T egressListenerName (Some (prefix_match r q))"
    "ToLower (Proto r) = ''https'' \<Longrightarrow> T egressListenerName (Some (fst (downstreamCryptoMatch r (httpsExactDomains gen) True)))"
    "ToLower (Proto r) = ''https'' \<Longrightarrow> T egressQUICListenerName (Some (fst (downstreamCryptoMatch r (httpsExactDomains gen) False)))"
    "T (tcpPinnedName ?h q) None" "T (udpPinnedName ?h q) None" for q
    by (rule T, auto simp: transport_of_def)+
  have c: "?nd \<Longrightarrow> C (pinnedCluster n ?h q)" "?nd \<Longrightarrow> C (decorateReencrypt i h (pinnedCluster n ?h q))"
    "?nd \<Longrightarrow> isCIDR (Dst r) \<Longrightarrow> C (originalDstCluster n)"
    "?nd \<Longrightarrow> isCIDR (Dst r) \<Longrightarrow> C (decorateReencrypt i h (originalDstCluster n))"
    "?nd \<Longrightarrow> isWildcardDomain (Dst r) \<Longrightarrow> C buildHTTPDFPCluster"
    "?nd \<Longrightarrow> isWildcardDomain (Dst r) \<Longrightarrow> C (buildHTTPSDFPCluster n i h)" for n q i h
    by (rule A, assumption, unfold clusters_for_def, blast)+
  note L = contrib_transport contrib_crypto contrib_upstream contrib_terminal
  show ?thesis
  proof (cases "ToLower (Proto r) \<in> {''http'', ''https''}")
    case True
    then have nd: "\<not> isDenyAction (Action r)" by (rule H)
    show ?thesis using assms(1-3) True
      by (auto simp: layersFor_def Let_def withWS_def split: if_splits intro!: L t c nd)
  next
    case False
    then show ?thesis using assms(1-3)
      by (auto simp: layersFor_def Let_def List.map_filter_def split: if_splits option.splits intro!: L t c D)
  qed
qed


section \<open>The finished configuration\<close>

lemma base_protos: "baseProto ''ws'' = ''http''" "baseProto ''wss'' = ''https''" "ToLower ''http'' = ''http''" "ToLower ''https'' = ''https''"
  "\<not> isOpaqueProto ''ws''" "\<not> isOpaqueProto ''wss''"
  by code_simp+

lemma promoted_http:
  assumes "isDenyAction (Action r) \<longrightarrow> isOpaqueProto (Proto r)" "ToLower (Proto (promoted_rule r)) \<in> {''http'', ''https''}"
  shows "\<not> isDenyAction (Action r)"
proof -
  have "ToLower (Proto r) \<in> {''http'', ''https'', ''ws'', ''wss''}"
    using assms(2) by (auto simp: promoted_rule_def split: if_splits)
  then have "\<not> isOpaqueProto (Proto r)" by (auto simp: isOpaqueProto_def)
  then show ?thesis using assms(1) by blast
qed

lemma derive_sound_layers: "list_all sound_layers (fst (derive rules p))"
  unfolding list_all_iff
proof
  fix x assume "x \<in> set (fst (derive rules p))"
  then obtain r lss where "layersFor (promoted_rule r) (deriveGenFacts rules p) = Some lss" "layers x \<in> set lss"
    unfolding derive_def by (blast dest: derive_loop_perm)
  then show "sound_layers x"
    using layersFor_keep_refs layersFor_framed by (auto simp: sound_layers_def list_all_iff)
qed

lemma derive_contrib:
  "list_all (\<lambda>x. list_all (\<lambda>f. framed f \<and> contrib (justified rules) (transports (deriveGenFacts rules p) rules) (prule x) f) (layers x))
     (fst (derive rules p))"
  unfolding list_all_iff
proof (intro ballI)
  fix x f assume x: "x \<in> set (fst (derive rules p))" and f: "f \<in> set (layers x)"
  let ?gen = "deriveGenFacts rules p"
  obtain r lss where r: "r \<in> set rules" "layersFor (promoted_rule r) ?gen = Some lss" "layers x \<in> set lss"
    "prule x = promoted_rule r" "isDenyAction (Action r) \<longrightarrow> isOpaqueProto (Proto r)"
    using derive_loop_perm x unfolding derive_def by blast
  have cf: "clusters_for (promoted_rule r) cl = clusters_for r cl" for cl by (simp add: clusters_for_def)
  have "contrib (justified rules) (transports ?gen rules) (promoted_rule r) f"
  proof (rule layersFor_contrib [OF r(2,3) f])
    show "transports ?gen rules n m" if "transport_of ?gen (promoted_rule r) n m" for n m
      using that r(1,5) unfolding transports_def by blast
    show "justified rules buildDenyCluster" by (simp add: justified_def)
    show "justified rules cl" if "\<not> isDenyAction (Action (promoted_rule r))" "clusters_for (promoted_rule r) cl" for cl
      using that r(1) unfolding justified_def cf by auto
    show "\<not> isDenyAction (Action (promoted_rule r))" if "ToLower (Proto (promoted_rule r)) \<in> {''http'', ''https''}"
      using promoted_http [OF r(5) that] by simp
  qed
  then show "framed f \<and> contrib (justified rules) (transports ?gen rules) (prule x) f"
    using layersFor_framed [OF r(2,3) f] r(4) by simp
qed

lemma start_cfg:
  "refs_cfg marshal a (SetAdmin ad NewEnvoyConfig)" "sourced marshal C T (SetAdmin ad NewEnvoyConfig)"
  by (simp_all add: refs_cfg_def sourced_def all_listeners_def SetAdmin_def NewEnvoyConfig_def chains_indexed_def indexed_def
      chain_view_def sourced_clusters_def sourced_chains_def)

lemma run_derived:
  assumes "run_perms marshal p a (fst (derive rules p)) (SetAdmin ad NewEnvoyConfig) = Inr c"
  shows "refs_cfg marshal a c" "sourced marshal (justified rules) (transports (deriveGenFacts rules p) rules) c"
  by (rule refs.run_perms_keeps [OF start_cfg(1) derive_sound_layers assms])
    (rule origin.run_perms_keeps [OF start_cfg(2) derive_contrib assms])

lemma build_config_steps:
  assumes "build_config marshal p a perms = Inr c"
  obtains c1 c2 c3 where "run_perms marshal p a perms (SetAdmin envoyAdmin NewEnvoyConfig) = Inr c1"
    "installEgressDenyFloor a c1 = Inr c2" "installOtelALSCluster a c2 = Inr c3" "installHealthListener p c3 = Inr c"
    "HealthPort p > 0 \<longrightarrow> HasListener healthListenerName c"
  using assms by (auto simp: build_config_def split: sum.splits if_splits)

text \<open>What the three installation steps keep and add.\<close>

lemma AddCluster_frame: "AddCluster cl c = Inr c' \<Longrightarrow> chain_view c' = chain_view c"
  using AddCluster_names(2) [of cl c c'] by (simp add: chain_view_def fun_eq_iff)

lemma floor_steps:
  assumes "installEgressDenyFloor a c = Inr c'"
  obtains (none) "c' = c" "\<not> HasListener egressListenerName c"
  | (floor) c0 l where "AddCluster buildDenyCluster c = Inr c0" "map_of (listeners c) egressListenerName = Some l"
      "c' = c0\<lparr>listeners := AList.update egressListenerName (l\<lparr>defaultDeny := Some (denyDefaultFilterChain a)\<rparr>) (listeners c0)\<rparr>"
proof (cases "HasListener egressListenerName c")
  case True
  then obtain l where l: "map_of (listeners c) egressListenerName = Some l" by (auto simp: HasListener_def)
  obtain c0 where c0: "AddCluster buildDenyCluster c = Inr c0" using assms True by (auto simp: installEgressDenyFloor_def split: sum.splits)
  then have "listeners c0 = listeners c" by (rule AddCluster_names)
  then show thesis using assms True l c0 by (intro floor [OF c0 l]) (auto simp: installEgressDenyFloor_def SetUnmatchedDeny_def)
qed (use assms none in \<open>simp add: installEgressDenyFloor_def\<close>)

lemma denyDefault_refs: "set (cluster_refs (denyDefaultFilterChain a)) = insert denyClusterName (otel_refs a)"
  using tcp_proxy_refs by (simp add: denyDefaultFilterChain_def plain_key_def)

lemma floor_refs:
  assumes "installEgressDenyFloor a c = Inr c'" "all_listeners (\<lambda>n l. listener_refs l \<subseteq> cluster_names c \<union> otel_refs a) c"
  shows "all_listeners (\<lambda>n l. listener_refs l \<subseteq> cluster_names c' \<union> otel_refs a) c'"
proof (cases rule: floor_steps [OF assms(1)])
  case 1
  then show ?thesis using assms(2) by simp
next
  case (2 c0 l)
  note n = AddCluster_names [OF 2(1)]
  have cn: "cluster_names c' = insert denyClusterName (cluster_names c)" using n(1) 2(3) cluster_cnames(8) by (simp add: cluster_names_def cname_def)
  have "all_listeners (\<lambda>n l. listener_refs l \<subseteq> cluster_names c' \<union> otel_refs a) c0"
    using assms(2) n(2) unfolding cn all_listeners_def by auto
  moreover have "listener_refs l \<subseteq> cluster_names c \<union> otel_refs a" by (rule all_listeners_lookup [OF assms(2) 2(2)])
  then have "listener_refs (l\<lparr>defaultDeny := Some (denyDefaultFilterChain a)\<rparr>) \<subseteq> cluster_names c' \<union> otel_refs a"
    using denyDefault_refs unfolding cn by (auto simp: listener_refs_def)
  ultimately show ?thesis unfolding 2(3) by (rule all_listeners_update)
qed

lemma health_steps:
  assumes "installHealthListener p c = Inr c'"
  shows "clusters c' = clusters c \<and> (c' = c \<or> c' = add_listener healthListenerName (buildHealthListener (HealthPort p)) c)"
proof -
  have "as_string (yget ''name'' (buildHealthListener q)) = healthListenerName" for q by (simp add: buildHealthListener_def)
  then show ?thesis using assms by (auto simp: installHealthListener_def AddListener_def Let_def split: if_splits option.splits)
qed

lemma health_refs: "listener_refs (new_listener (buildHealthListener q)) = {}"
  by (simp add: listener_refs_def new_listener_def buildHealthListener_def clawkerActionMetadata_def plain_key_def)

lemma listener_yaml_refs: "set (cluster_refs (listener_yaml l)) \<subseteq> listener_refs l"
proof -
  have ys: "set (cluster_refs (yset k v y)) \<subseteq> K" if "plain_key k" "set (cluster_refs v) \<subseteq> K" "set (cluster_refs y) \<subseteq> K" for k v y K
    using refs_yset [OF that(1), of v y] that(2,3) by blast
  have "set (cluster_refs (if chains l \<noteq> [] then yset ''filter_chains'' (YList (chains l)) (base l) else base l)) \<subseteq> listener_refs l"
    by (cases "chains l = []") (simp_all add: ys plain_key_def listener_refs_def le_supI1)
  moreover have "set (cluster_refs d) \<subseteq> listener_refs l" if "defaultDeny l = Some d" for d
    using that by (simp add: listener_refs_def)
  ultimately show ?thesis unfolding listener_yaml_def Let_def
    by (cases "defaultDeny l") (simp_all add: ys plain_key_def)
qed


lemma listed_lookup:
  assumes "n \<in> fst ` set al"
  obtains v where "map_of al n = Some v"
proof (cases "map_of al n")
  case None
  then show thesis using assms by (simp only: map_of_eq_None_iff) simp
qed

lemma clusterList_set:
  assumes "sourced_clusters C c"
  shows "cname ` set (clusterList c) = cluster_names c" "cl \<in> set (clusterList c) \<Longrightarrow> C cl"
proof -
  have look: "\<exists>cl. map_of (clusters c) n = Some cl \<and> cname cl = n \<and> C cl" if n: "n \<in> fst ` set (clusters c)" for n
  proof -
    from n obtain cl where cl: "map_of (clusters c) n = Some cl" by (rule listed_lookup)
    then have "(n, cl) \<in> set (clusters c)" by (rule map_of_SomeD)
    then show ?thesis using cl assms by (auto simp: sourced_clusters_def)
  qed
  show "cname ` set (clusterList c) = cluster_names c"
  proof -
    have "cname (the (map_of (clusters c) n)) = n" if "n \<in> fst ` set (clusters c)" for n using look [OF that] by auto
    then have "(\<lambda>n. cname (the (map_of (clusters c) n))) ` (fst ` set (clusters c)) = id ` (fst ` set (clusters c))"
      by (intro image_cong) simp_all
    then show ?thesis by (simp add: clusterList_def cluster_names_def image_image)
  qed
  show "cl \<in> set (clusterList c) \<Longrightarrow> C cl" unfolding clusterList_def by (auto dest!: look)
qed

definition config_cluster :: "EgressRule list \<Rightarrow> ALSConfig \<Rightarrow> yaml \<Rightarrow> bool" where
  "config_cluster rules a cl \<longleftrightarrow> justified rules cl \<or> MTLS a \<and> cl = buildOtelALSCluster a"

lemma finished_config:
  assumes "build_config marshal p a (fst (derive rules p)) = Inr c"
  shows "all_listeners (\<lambda>n l. listener_refs l \<subseteq> cluster_names c) c" "sourced_clusters (config_cluster rules a) c"
    "\<exists>c1. run_perms marshal p a (fst (derive rules p)) (SetAdmin envoyAdmin NewEnvoyConfig) = Inr c1 \<and>
       sourced marshal (justified rules) (transports (deriveGenFacts rules p) rules) c1 \<and>
       (\<forall>n. n \<noteq> healthListenerName \<longrightarrow> chain_view c n = chain_view c1 n)"
proof -
  obtain c1 c2 c3 where c: "run_perms marshal p a (fst (derive rules p)) (SetAdmin envoyAdmin NewEnvoyConfig) = Inr c1"
    "installEgressDenyFloor a c1 = Inr c2" "installOtelALSCluster a c2 = Inr c3" "installHealthListener p c3 = Inr c"
    by (rule build_config_steps [OF assms])
  note r = run_derived [OF c(1)]
  have r2: "all_listeners (\<lambda>n l. listener_refs l \<subseteq> cluster_names c2 \<union> otel_refs a) c2"
    by (rule floor_refs [OF c(2)]) (use r(1) in \<open>simp add: refs_cfg_def\<close>)
  have v2: "chain_view c2 = chain_view c1"
  proof (cases rule: floor_steps [OF c(2)])
    case (2 c0 l)
    have "listeners c0 = listeners c1" by (rule AddCluster_names [OF 2(1)])
    then show ?thesis using 2(2,3) by (auto simp: chain_view_def fun_eq_iff)
  qed simp
  have s2: "sourced_clusters (config_cluster rules a) c2"
  proof -
    have j: "sourced_clusters (config_cluster rules a) c1"
      using r(2) by (fastforce simp: sourced_def sourced_clusters_def config_cluster_def)
    show ?thesis
    proof (cases rule: floor_steps [OF c(2)])
      case (2 c0 l)
      have "config_cluster rules a buildDenyCluster" by (simp add: config_cluster_def justified_def)
      from AddCluster_sourced [OF 2(1) this j] show ?thesis unfolding 2(3) by (simp add: sourced_clusters_def)
    qed (use j in simp)
  qed
  have c3: "cluster_names c3 = cluster_names c2 \<union> otel_refs a \<and> listeners c3 = listeners c2 \<and> sourced_clusters (config_cluster rules a) c3"
  proof (cases "MTLS a")
    case True
    then have ac: "AddCluster (buildOtelALSCluster a) c2 = Inr c3" using c(3) by (simp add: installOtelALSCluster_def)
    have "config_cluster rules a (buildOtelALSCluster a)" using True by (simp add: config_cluster_def)
    from AddCluster_sourced [OF ac this s2] AddCluster_names [OF ac] cluster_cnames(9) [of a] True
    show ?thesis by (simp add: otel_refs_def cname_def)
  next
    case False
    then show ?thesis using c(3) s2 by (simp add: installOtelALSCluster_def otel_refs_def)
  qed
  have h: "clusters c = clusters c3" "c = c3 \<or> c = add_listener healthListenerName (buildHealthListener (HealthPort p)) c3"
    using health_steps [OF c(4)] by auto
  have r3: "all_listeners (\<lambda>n l. listener_refs l \<subseteq> cluster_names c) c3"
    using r2 c3 h(1) by (simp add: all_listeners_def cluster_names_def)
  then show "all_listeners (\<lambda>n l. listener_refs l \<subseteq> cluster_names c) c"
    using h(2) all_add_listener [OF r3, where n = healthListenerName and b = "buildHealthListener (HealthPort p)"] health_refs
    by auto
  show "sourced_clusters (config_cluster rules a) c" using c3 h(1) by (simp add: sourced_clusters_def)
  have "chain_view c n = chain_view c1 n" if "n \<noteq> healthListenerName" for n
  proof -
    have "chain_view c n = chain_view c3 n" using h(2) that by (auto simp: chain_view_def add_listener_def)
    also have "\<dots> = chain_view c2 n" using c3 by (simp add: chain_view_def)
    finally show ?thesis using v2 by simp
  qed
  then show "\<exists>c1. run_perms marshal p a (fst (derive rules p)) (SetAdmin envoyAdmin NewEnvoyConfig) = Inr c1 \<and>
       sourced marshal (justified rules) (transports (deriveGenFacts rules p) rules) c1 \<and>
       (\<forall>n. n \<noteq> healthListenerName \<longrightarrow> chain_view c n = chain_view c1 n)"
    using r(2) c(1) by blast
qed

end
