(* ===== verification/Envoy_Hosts.thy ===== *)
theory Envoy_Hosts
  imports Envoy_Soundness
begin

text \<open>
  The virtual hosts of the generated HTTP chains. The third interpretation of \<open>forward_pass\<close>,
  \<open>hosts\<close>, follows the route tables through the layers and through the merge of chains with one match
  (\<open>mergeHCMVHosts\<close>): outside the chains of a CIDR rule each virtual host is the catch-all that denies
  or carries the domains and routes of a rule that allows.
\<close>

section \<open>Virtual hosts of the shared listeners\<close>

definition deny_vhost :: "yaml \<Rightarrow> bool" where
  "deny_vhost v \<longleftrightarrow>
     vhost_name v = ''deny_all'' \<and> yget ''domains'' v = Some (YList [YStr ''*'']) \<and>
     yget ''routes'' v = Some (YList [httpDenyRoute ''/'' []])"

definition vhost_of :: "EgressRule \<Rightarrow> yaml \<Rightarrow> bool" where
  "vhost_of r v \<longleftrightarrow>
     (\<exists>q b. vhost_name v = virtualHostName (Dst r) q \<and> yget ''domains'' v = Some (YList (map YStr (httpDomains (Dst r) q b)))) \<and>
     (\<exists>cl ws. yget ''routes'' v = Some (YList (httpRoutes r cl ws)))"

definition closed_hosts :: "(yaml \<Rightarrow> bool) \<Rightarrow> yaml list \<Rightarrow> bool" where
  "closed_hosts V vs \<longleftrightarrow> (\<exists>v \<in> set vs. deny_vhost v) \<and> (\<forall>v \<in> set vs. deny_vhost v \<or> V v)"

definition filter_vhosts :: "yaml \<Rightarrow> yaml list" where
  "filter_vhosts f =
     (case yget ''typed_config'' f of
        None \<Rightarrow> []
      | Some tc \<Rightarrow> (case yget ''route_config'' tc of None \<Rightarrow> [] | Some rc \<Rightarrow> as_list (yget ''virtual_hosts'' rc)))"

lemma hcmVHosts_single:
  "hcmVHosts ch = Inr vs \<longleftrightarrow> (\<exists>f. as_list (yget ''filters'' ch) = [f] \<and> yget ''name'' f = Some (YStr hcmName) \<and> vs = filter_vhosts f)"
  by (cases "as_list (yget ''filters'' ch)") (auto simp: hcmVHosts_def filter_vhosts_def Let_def)

lemma yget_yset_other: "k \<noteq> k' \<Longrightarrow> yget k (yset k' v y) = yget k y"
  by (cases y) simp_all

lemma yget_set_nested: "k \<noteq> k' \<Longrightarrow> yget k (set_nested k' k'' v y) = yget k y"
  by (simp add: set_nested_def yget_yset_other split: option.splits yaml.splits)

lemma yget_maps_Copy: "k \<notin> fst ` set m \<Longrightarrow> yget k (maps_Copy y (YMap m)) = yget k y"
proof (induction m arbitrary: y)
  case (Cons e m)
  have "maps_Copy y (YMap (e # m)) = maps_Copy (yset (fst e) (snd e) y) (YMap m)" by (simp add: maps_Copy_def split_beta)
  then show ?case using Cons by (simp add: yget_yset_other)
qed (simp add: maps_Copy_def)

lemma hcm_vhosts: "filter_vhosts (hcm_filter (httpHCM ct tt fs a vs ws)) = vs"
proof -
  have "yget ''route_config'' (httpHCM ct tt fs a vs ws) =
      Some (YMap [(''name'', YStr ''http_egress_routes''), (''virtual_hosts'', YList vs)])"
    by (simp add: httpHCM_def Let_def yget_set_nested yget_yset_other yget_maps_Copy httpConnectionManagerHardening_def)
  then show ?thesis by (simp add: filter_vhosts_def hcm_filter_def)
qed

lemma rule_vhost_of:
  "vhost_of (crule ctx) (rule_vhost ctx (httpDomains (Dst (crule ctx)) (cport ctx) (bareHostPort ctx)))"
  by (auto simp: vhost_of_def rule_vhost_def vhost_name_def)

lemma vhost_yset:
  assumes "''name'' \<noteq> k" "''domains'' \<noteq> k" "''routes'' \<noteq> k"
  shows "vhost_of r (yset k v y) = vhost_of r y" "deny_vhost (yset k v y) = deny_vhost y"
  using assms by (simp_all add: vhost_of_def deny_vhost_def vhost_name_def yget_yset_other)

lemma deny_all_vhost: "deny_vhost denyAllVHost"
  by (simp add: deny_vhost_def denyAllVHost_def vhost_name_def)

definition filter_ok :: "(yaml \<Rightarrow> bool) \<Rightarrow> EgressRule \<Rightarrow> yaml \<Rightarrow> bool" where
  "filter_ok V r f \<longleftrightarrow> yget ''name'' f = Some (YStr hcmName) \<longrightarrow> isCIDR (Dst r) \<or> closed_hosts V (filter_vhosts f)"

definition by_prefix :: "yaml option \<Rightarrow> bool" where
  "by_prefix m \<longleftrightarrow> (case m of None \<Rightarrow> True | Some y \<Rightarrow> yget ''prefix_ranges'' y \<noteq> None)"

definition hosts_layer :: "(yaml \<Rightarrow> bool) \<Rightarrow> EgressRule \<Rightarrow> layer \<Rightarrow> bool" where
  "hosts_layer V r f \<longleftrightarrow>
     (\<forall>ctx ctx'. crule ctx = r \<longrightarrow> f ctx = Inr ctx' \<longrightarrow>
        (\<forall>g \<in> set (filters ctx'). g \<in> set (filters ctx) \<or> filter_ok V r g) \<and>
        (chain_match ctx' = chain_match ctx \<or> (isCIDR (Dst r) \<longrightarrow> by_prefix (chain_match ctx'))))"

lemma hosts_same:
  assumes "\<And>ctx ctx'. f ctx = Inr ctx' \<Longrightarrow> filters ctx' = filters ctx \<and> chain_match ctx' = chain_match ctx"
  shows "hosts_layer V r f"
  using assms by (fastforce simp: hosts_layer_def)

lemma hosts_upstream:
  "hosts_layer V r httpExactUpstreamLayer" "hosts_layer V r httpWildcardUpstreamLayer" "hosts_layer V r httpsExactUpstreamLayer"
  "hosts_layer V r httpsWildcardUpstreamLayer" "hosts_layer V r tcpPinnedUpstreamLayer" "hosts_layer V r udpPinnedUpstreamLayer"
  "hosts_layer V r opaqueCIDRUpstreamLayer" "hosts_layer V r httpOriginalDstUpstreamLayer" "hosts_layer V r httpsOriginalDstUpstreamLayer"
  "hosts_layer V r wsEnrichLayer" "hosts_layer V r udpProxyTerminalLayer" "hosts_layer V r udpDenyTerminalLayer"
  by (rule hosts_same;
      auto simp: httpExactUpstreamLayer_def httpWildcardUpstreamLayer_def httpsExactUpstreamLayer_def
        httpsWildcardUpstreamLayer_def tcpPinnedUpstreamLayer_def udpPinnedUpstreamLayer_def opaqueCIDRUpstreamLayer_def
        httpOriginalDstUpstreamLayer_def httpsOriginalDstUpstreamLayer_def wsEnrichLayer_def udpProxyTerminalLayer_def
        udpDenyTerminalLayer_def Let_def use_cluster_def split: sum.splits if_splits)+

lemma hosts_transport:
  "\<not> isCIDR (Dst r) \<Longrightarrow> hosts_layer V r tcpEgressLayer" "hosts_layer V r (prefixRangeTransportLayer q)"
  "hosts_layer V r (tcpDedicatedListenerLayer ep q)" "hosts_layer V r (udpDedicatedListenerLayer ep q)"
  by (auto simp: hosts_layer_def tcpEgressLayer_def prefixRangeTransportLayer_def tcpDedicatedListenerLayer_def
      udpDedicatedListenerLayer_def Let_def by_prefix_def split: sum.splits)

lemma crypto_prefix: "isCIDR (Dst r) \<Longrightarrow> by_prefix (Some (fst (downstreamCryptoMatch r ex b)))"
  by (simp add: by_prefix_def downstreamCryptoMatch_def isCIDR_isIPOrCIDR)

lemma hosts_crypto: "hosts_layer V r (tlsSNIChainLayer ex)" "hosts_layer V r (quicSNIChainLayer ex)"
proof -
  show "hosts_layer V r (tlsSNIChainLayer ex)"
    using crypto_prefix [of r ex True] by (cases "downstreamCryptoMatch r ex True")
      (auto simp: hosts_layer_def tlsSNIChainLayer_def Let_def split: sum.splits if_splits)
  show "hosts_layer V r (quicSNIChainLayer ex)"
    using crypto_prefix [of r ex False] by (cases "downstreamCryptoMatch r ex False")
      (auto simp: hosts_layer_def quicSNIChainLayer_def split: if_splits)
qed

lemma proxy_not_hcm: "filter_ok V r (tcp_proxy s cl log)"
  by (simp add: filter_ok_def tcp_proxy_def hcmName_def)

lemma hosts_terminal: "hosts_layer V r (tcpProxyTerminalLayer l7)" "hosts_layer V r (tcpDenyTerminalLayer l7)"
  by (auto simp: hosts_layer_def tcpProxyTerminalLayer_def tcpDenyTerminalLayer_def proxy_not_hcm split: if_splits)

lemma hosts_app:
  assumes "\<And>v. vhost_of r v \<Longrightarrow> V v"
  shows "hosts_layer V r (httpAppLayer dfp)"
  unfolding hosts_layer_def
proof (intro allI impI)
  fix ctx ctx' assume r: "crule ctx = r" and f: "httpAppLayer dfp ctx = Inr ctx'"
  show "(\<forall>g \<in> set (filters ctx'). g \<in> set (filters ctx) \<or> filter_ok V r g) \<and>
        (chain_match ctx' = chain_match ctx \<or> (isCIDR (Dst r) \<longrightarrow> by_prefix (chain_match ctx')))"
  proof (cases "isCIDR (Dst r)")
    case True
    then show ?thesis using f r by (auto simp: httpAppLayer_def filter_ok_def split: if_splits)
  next
    case False
    let ?v0 = "rule_vhost ctx (httpDomains (Dst (crule ctx)) (cport ctx) (bareHostPort ctx))"
    let ?v1 = "if advertiseH3 ctx then yset ''response_headers_to_add'' (altSvcH3Header (cport ctx)) ?v0 else ?v0"
    let ?v2 = "if active dfp \<and> \<not> upstreamFollowsHost ctx then yset ''typed_per_filter_config'' disableDFPPerVHost ?v1 else ?v1"
    let ?d = "if active dfp then yset ''typed_per_filter_config'' disableDFPPerVHost denyAllVHost else denyAllVHost"
    have "vhost_of r ?v2" "deny_vhost ?d" using rule_vhost_of [of ctx] deny_all_vhost r by (simp_all add: vhost_yset)
    then have "V ?v2" "deny_vhost ?d" by (auto intro: assms simp del: if_split split del: if_split)
    then have "closed_hosts V [?v2, ?d]" unfolding closed_hosts_def by (simp del: if_split split del: if_split)
    moreover have "ctx' = ctx\<lparr>filters := [hcm_filter (httpHCM (hcmCodec ctx) (tlsTerminated ctx) (httpFilterChain ctx dfp) (cals ctx)
               [?v2, ?d] (websocket ctx))]\<rparr>"
      using f False r by (simp add: httpAppLayer_def Let_def split del: if_split split: if_split_asm)
    ultimately show ?thesis unfolding filter_ok_def by (simp add: hcm_vhosts split del: if_split)
  qed
qed

lemma layersFor_hosts:
  assumes "layersFor r gen = Some lss" "ls \<in> set lss" "f \<in> set ls"
    and H: "\<And>v. ToLower (Proto r) \<in> {''http'', ''https''} \<Longrightarrow> vhost_of r v \<Longrightarrow> V v"
  shows "hosts_layer V r f"
proof (cases "ToLower (Proto r) \<in> {''http'', ''https''}")
  case True
  then show ?thesis using assms(1-3)
    by (auto simp: layersFor_def Let_def withWS_def split: if_splits
        intro!: hosts_upstream hosts_transport hosts_crypto hosts_app H)
next
  case False
  then show ?thesis using assms(1-3)
    by (auto simp: layersFor_def Let_def List.map_filter_def split: if_splits option.splits
        intro!: hosts_upstream hosts_transport hosts_terminal)
qed

section \<open>Merging\<close>

text \<open>Documented of the marshaller: different documents have different texts, and no text is empty.\<close>

definition marshal_faithful :: "(yaml \<Rightarrow> string + string) \<Rightarrow> bool" where
  "marshal_faithful marshal \<longleftrightarrow>
     (\<forall>x y s. marshal x = Inr s \<and> marshal y = Inr s \<longrightarrow> x = y) \<and> (\<forall>x. marshal x \<noteq> Inr [])"

lemma canon_yget: "canon x = canon y \<Longrightarrow> yget k x = None \<longleftrightarrow> yget k y = None"
proof -
  have keys: "fst ` set (sort_key fst (map (\<lambda>(k, v). (k, canon v)) m)) = fst ` set m" for m by force
  have "yget k x = None \<longleftrightarrow> (\<forall>m. canon x = YMap m \<longrightarrow> k \<notin> fst ` set m)" for x
    by (cases x) (simp_all add: map_of_eq_None_iff keys del: set_sort)
  then show "canon x = canon y \<Longrightarrow> yget k x = None \<longleftrightarrow> yget k y = None" by metis
qed

lemma same_signature_prefix:
  assumes "marshal_faithful marshal" "sig_of marshal ch = Inr s" "sig_of marshal ch' = Inr s"
  shows "by_prefix (yget ''filter_chain_match'' ch) = by_prefix (yget ''filter_chain_match'' ch')"
proof (cases "yget ''filter_chain_match'' ch"; cases "yget ''filter_chain_match'' ch'")
  fix x y assume xy: "yget ''filter_chain_match'' ch = Some x" "yget ''filter_chain_match'' ch' = Some y"
  then have "marshal (canon x) = Inr s" "marshal (canon y) = Inr s"
    using assms(2,3) by (auto simp: sig_of_def matchSignature_def split: sum.splits)
  then have "canon x = canon y" using assms(1) unfolding marshal_faithful_def by blast
  then show ?thesis using canon_yget [of x y "''prefix_ranges''"] xy by (auto simp: by_prefix_def)
qed (use assms in \<open>auto simp: sig_of_def matchSignature_def marshal_faithful_def split: sum.splits\<close>)

lemma dedup_by_first: "x \<in> set xs \<Longrightarrow> f x \<notin> set seen \<Longrightarrow> \<exists>y \<in> set (dedup_by f seen xs). f y = f x"
proof (induction xs arbitrary: seen)
  case (Cons y ys)
  show ?case
  proof (cases "f y = f x")
    case True
    then show ?thesis using Cons.prems by simp
  next
    case False
    then have "x \<in> set ys" "f x \<notin> set (f y # seen)" using Cons.prems by auto
    then show ?thesis using Cons.IH [of seen] Cons.IH [of "f y # seen"] Cons.prems by auto
  qed
qed simp

lemma dedup_by_set: "set (dedup_by f seen xs) \<subseteq> set xs"
  by (induction f seen xs rule: dedup_by.induct) auto

lemma virtualHostName_not_deny: "virtualHostName d q \<noteq> ''deny_all''"
proof -
  have i: "Itoa q \<noteq> []" "is_digit (last (Itoa q))"
    using itoa_nat_digits [OF last_in_set [OF itoa_nat_not_Nil]] by (auto simp: Itoa_def)
  have "last (virtualHostName d q) = last (Itoa q)" using i(1) by (simp add: virtualHostName_def Let_def)
  moreover have "\<not> is_digit (last ''deny_all'')" by code_simp
  ultimately show ?thesis using i(2) by metis
qed

lemma closed_hosts_merge:
  assumes "closed_hosts V ev" "closed_hosts V iv" "\<And>v. V v \<Longrightarrow> vhost_name v \<noteq> ''deny_all''"
  shows "closed_hosts V (dedup_by vhost_name [] (ev @ iv))"
proof -
  obtain d where d: "d \<in> set (ev @ iv)" "deny_vhost d" using assms(1) by (auto simp: closed_hosts_def)
  obtain y where y: "y \<in> set (dedup_by vhost_name [] (ev @ iv))" "vhost_name y = ''deny_all''"
    using dedup_by_first [OF d(1), of vhost_name "[]"] d(2) by (auto simp: deny_vhost_def)
  have m: "deny_vhost v \<or> V v" if "v \<in> set (dedup_by vhost_name [] (ev @ iv))" for v
    using that dedup_by_set [of vhost_name "[]" "ev @ iv"] assms(1,2) by (auto simp: closed_hosts_def)
  then have "deny_vhost y" using y assms(3) by blast
  then show ?thesis using y(1) m by (auto simp: closed_hosts_def)
qed

lemma yget_map: "yget k y = Some v \<Longrightarrow> \<exists>m. y = YMap m"
  by (cases y) auto

lemma merged_vhosts:
  assumes "mergeHCMVHosts ex inc = Inr m" "hcmVHosts ex = Inr ev" "ev \<noteq> []" "hcmVHosts inc = Inr iv"
  shows "hcmVHosts m = Inr (dedup_by vhost_name [] (ev @ iv))"
proof -
  obtain f where f: "as_list (yget ''filters'' ex) = [f]" "yget ''name'' f = Some (YStr hcmName)" "ev = filter_vhosts f"
    using assms(2) by (auto simp: hcmVHosts_single)
  obtain tc rc where n: "yget ''typed_config'' f = Some tc" "yget ''route_config'' tc = Some rc" "as_list (yget ''virtual_hosts'' rc) = ev"
    using assms(3) f(3) by (auto simp: filter_vhosts_def split: option.splits)
  have "yget ''filters'' ex \<noteq> None" "yget ''virtual_hosts'' rc \<noteq> None" using f(1) n(3) assms(3) by (metis as_list.simps(2) list.distinct(1))+
  then obtain em fm tm rm where maps: "ex = YMap em" "f = YMap fm" "tc = YMap tm" "rc = YMap rm"
    using yget_map f(2) n(1,2) by (metis not_None_eq)
  let ?vs = "dedup_by vhost_name [] (ev @ iv)"
  have "m = setHCMVHosts ex ?vs" using assms(1,2,4) by (simp add: mergeHCMVHosts_def)
  also have "\<dots> = yset ''filters'' (YList [yset ''typed_config'' (yset ''route_config'' (yset ''virtual_hosts'' (YList ?vs) rc) tc) f]) ex"
    using f n by (simp add: setHCMVHosts_def)
  finally show ?thesis using f(2) by (auto simp: hcmVHosts_single maps filter_vhosts_def)
qed


section \<open>Interpretation: the virtual hosts of every chain\<close>

definition hosts_chain :: "(yaml \<Rightarrow> bool) \<Rightarrow> yaml \<Rightarrow> bool" where
  "hosts_chain V ch \<longleftrightarrow>
     by_prefix (yget ''filter_chain_match'' ch) \<or> (\<forall>vs. hcmVHosts ch = Inr vs \<longrightarrow> closed_hosts V vs)"

definition hosts_cfg :: "(yaml \<Rightarrow> string + string) \<Rightarrow> (yaml \<Rightarrow> bool) \<Rightarrow> EnvoyConfig \<Rightarrow> bool" where
  "hosts_cfg marshal V c \<longleftrightarrow> chains_indexed marshal c \<and> (\<forall>n. \<forall>ch \<in> set (fst (chain_view c n)). hosts_chain V ch)"

definition rule_hosts :: "EgressRule list \<Rightarrow> yaml \<Rightarrow> bool" where
  "rule_hosts rules v \<longleftrightarrow> (\<exists>r \<in> set rules. \<not> isDenyAction (Action r) \<and> vhost_of r v)"

lemma rule_hosts_name: "rule_hosts rules v \<Longrightarrow> vhost_name v \<noteq> ''deny_all''"
  by (auto simp: rule_hosts_def vhost_of_def dest: virtualHostName_not_deny [THEN notE, OF sym])

lemma addChain_hosts:
  assumes "addChain marshal n ch c = Inr c'" "hosts_cfg marshal (rule_hosts rules) c" "hosts_chain (rule_hosts rules) ch"
    "marshal_faithful marshal"
  shows "hosts_cfg marshal (rule_hosts rules) c'"
proof -
  let ?V = "rule_hosts rules" and ?chs = "fst (chain_view c n)"
  have ix: "chains_indexed marshal c" using assms(2) by (simp add: hosts_cfg_def)
  have "\<forall>n. \<forall>ch \<in> set (fst (chain_view c' n)). hosts_chain ?V ch"
  proof (cases rule: addChain_view [OF assms(1) ix])
    case (1 s)
    then show ?thesis using assms(2,3) by (auto simp: hosts_cfg_def)
  next
    case (2 i m)
    have old: "hosts_chain ?V (?chs ! i)" using assms(2) nth_mem [OF 2(2)] by (auto simp: hosts_cfg_def)
    obtain s where s: "sig_of marshal (?chs ! i) = Inr s" "sig_of marshal ch = Inr s"
      using ix 2(2,3) unfolding chains_indexed_def indexed_def by metis
    obtain ev iv where v: "hcmVHosts (?chs ! i) = Inr ev" "hcmVHosts ch = Inr iv"
      using 2(4) by (auto simp: mergeHCMVHosts_def split: sum.splits)
    have mm: "yget ''filter_chain_match'' m = yget ''filter_chain_match'' (?chs ! i)"
      using 2(4) setHCMVHosts_yget by (auto simp: mergeHCMVHosts_def split: sum.splits)
    have "hosts_chain ?V m"
    proof (cases "by_prefix (yget ''filter_chain_match'' (?chs ! i))")
      case True
      then show ?thesis using mm by (simp add: hosts_chain_def)
    next
      case False
      then have ce: "closed_hosts ?V ev" using old v(1) by (simp add: hosts_chain_def)
      have ci: "closed_hosts ?V iv"
        using False same_signature_prefix [OF assms(4) s] assms(3) v(2) by (simp add: hosts_chain_def)
      have "ev \<noteq> []" using ce by (auto simp: closed_hosts_def)
      then show ?thesis
        using merged_vhosts [OF 2(4) v(1) _ v(2)] closed_hosts_merge [OF ce ci rule_hosts_name] by (simp add: hosts_chain_def)
    qed
    moreover have "set (?chs[i := m]) \<subseteq> insert m (set ?chs)" by (rule List.set_update_subset_insert)
    ultimately show ?thesis using assms(2) unfolding hosts_cfg_def 2(1) by auto
  qed
  then show ?thesis using addChain_index [OF assms(1) ix] by (simp add: hosts_cfg_def)
qed

definition hosts_ctx :: "(yaml \<Rightarrow> string + string) \<Rightarrow> EgressRule list \<Rightarrow> EgressRule \<Rightarrow> genCtx \<Rightarrow> bool" where
  "hosts_ctx marshal rules r ctx \<longleftrightarrow>
     crule ctx = r \<and> hosts_cfg marshal (rule_hosts rules) (cfg ctx) \<and> (\<forall>f \<in> set (filters ctx). filter_ok (rule_hosts rules) r f) \<and>
     (isCIDR (Dst r) \<longrightarrow> by_prefix (chain_match ctx))"

definition hosts_perm :: "EgressRule list \<Rightarrow> permutation \<Rightarrow> bool" where
  "hosts_perm rules x \<longleftrightarrow> list_all (\<lambda>f. framed f \<and> hosts_layer (rule_hosts rules) (prule x) f) (layers x)"

lemma commit_hosts:
  assumes "hosts_ctx marshal rules r ctx" "marshal_faithful marshal" "commit marshal ctx = Inr c"
  shows "hosts_cfg marshal (rule_hosts rules) c"
proof -
  obtain c1 where c1: "add_clusters (ctx_clusters ctx) (cfg ctx) = Inr c1"
    using assms(3) by (auto simp: commit_def split: sum.splits)
  have h1: "hosts_cfg marshal (rule_hosts rules) c1"
    using add_clusters_view [OF c1] assms(1) by (simp add: hosts_ctx_def hosts_cfg_def chains_indexed_def)
  show ?thesis
  proof (cases "filters ctx = []")
    case True
    then show ?thesis using assms(3) c1 h1 by (simp add: commit_def)
  next
    case False
    then have ac: "addChain marshal (listener ctx) (ctx_chain ctx) c1 = Inr c" using assms(3) c1 by (simp add: commit_def)
    have "hosts_chain (rule_hosts rules) (ctx_chain ctx)"
    proof (cases "isCIDR (Dst r)")
      case True
      then show ?thesis using assms(1) by (simp add: hosts_chain_def hosts_ctx_def ctx_chain_match)
    next
      case nc: False
      have "closed_hosts (rule_hosts rules) vs" if vs: "hcmVHosts (ctx_chain ctx) = Inr vs" for vs
      proof -
        obtain f where f: "as_list (yget ''filters'' (ctx_chain ctx)) = [f]" "yget ''name'' f = Some (YStr hcmName)" "vs = filter_vhosts f"
          using vs by (auto simp: hcmVHosts_single)
        have "filters ctx = [f]" using f(1) by (simp add: ctx_chain_def)
        then show ?thesis using assms(1) f nc by (auto simp: hosts_ctx_def filter_ok_def)
      qed
      then show ?thesis by (simp add: hosts_chain_def)
    qed
    then show ?thesis by (rule addChain_hosts [OF ac h1 _ assms(2)])
  qed
qed

interpretation hosts: forward_pass marshal p a "\<lambda>x. marshal_faithful marshal \<and> hosts_perm rules x"
    "\<lambda>x. hosts_ctx marshal rules (prule x)" "hosts_cfg marshal (rule_hosts rules)"
  for marshal p a rules
proof unfold_locales
  fix c x
  assume "hosts_cfg marshal (rule_hosts rules) c"
  then show "hosts_ctx marshal rules (prule x) (new_ctx (prule x) p a (c\<lparr>seenPerms := key x # seenPerms c\<rparr>))"
    by (simp add: hosts_ctx_def hosts_cfg_def new_ctx_def by_prefix_def chains_indexed_def)
next
  fix x ctx f ctx'
  assume g: "marshal_faithful marshal \<and> hosts_perm rules x" and I: "hosts_ctx marshal rules (prule x) ctx"
    and f: "f \<in> set (layers x)" "f ctx = Inr ctx'"
  have fr: "frame ctx ctx'" and h: "hosts_layer (rule_hosts rules) (prule x) f" using g f by (auto simp: hosts_perm_def list_all_iff framed_def)
  have "(\<forall>g \<in> set (filters ctx'). g \<in> set (filters ctx) \<or> filter_ok (rule_hosts rules) (prule x) g) \<and>
      (chain_match ctx' = chain_match ctx \<or> (isCIDR (Dst (prule x)) \<longrightarrow> by_prefix (chain_match ctx')))"
    using h f(2) I unfolding hosts_layer_def hosts_ctx_def by blast
  then show "hosts_ctx marshal rules (prule x) ctx'"
    using I fr by (auto simp: hosts_ctx_def hosts_cfg_def frame_def chains_indexed_def)
next
  fix x ctx c
  assume "marshal_faithful marshal \<and> hosts_perm rules x" "hosts_ctx marshal rules (prule x) ctx" "commit marshal ctx = Inr c"
  then show "hosts_cfg marshal (rule_hosts rules) c" using commit_hosts unfolding hosts_perm_def by blast
qed

lemma vhost_of_promoted: "vhost_of (promoted_rule r) v = vhost_of r v"
  by (simp add: vhost_of_def httpRoutes_def default_route_def promoted_rule_def EffectivePathDefault_def)

lemma derive_hosts: "list_all (hosts_perm rules) (fst (derive rules p))"
  unfolding list_all_iff
proof
  fix x assume "x \<in> set (fst (derive rules p))"
  then obtain r lss where r: "r \<in> set rules" "layersFor (promoted_rule r) (deriveGenFacts rules p) = Some lss" "layers x \<in> set lss"
    "prule x = promoted_rule r" "isDenyAction (Action r) \<longrightarrow> isOpaqueProto (Proto r)"
    using derive_loop_perm unfolding derive_def by blast
  have H: "rule_hosts rules v" if "ToLower (Proto (promoted_rule r)) \<in> {''http'', ''https''}" "vhost_of (promoted_rule r) v" for v
    using that(2) r(1) promoted_http [OF r(5) that(1)] by (auto simp: rule_hosts_def vhost_of_promoted)
  show "hosts_perm rules x"
    using layersFor_hosts [OF r(2,3) _ H] layersFor_framed [OF r(2,3)] r(4) by (simp add: hosts_perm_def list_all_iff)
qed

lemma run_hosts:
  assumes "run_perms marshal p a (fst (derive rules p)) (SetAdmin ad NewEnvoyConfig) = Inr c" "marshal_faithful marshal"
  shows "hosts_cfg marshal (rule_hosts rules) c"
proof (rule hosts.run_perms_keeps [OF _ _ assms(1)])
  show "hosts_cfg marshal (rule_hosts rules) (SetAdmin ad NewEnvoyConfig)"
    by (simp add: hosts_cfg_def chains_indexed_def indexed_def chain_view_def SetAdmin_def NewEnvoyConfig_def)
  show "list_all (\<lambda>x. marshal_faithful marshal \<and> hosts_perm rules x) (fst (derive rules p))"
    using derive_hosts [of rules p] assms(2) by (simp add: list_all_iff)
qed

end
