(* ===== verification/Envoy_Guarantees.thy ===== *)
theory Envoy_Guarantees
  imports Envoy_Hosts
begin

text \<open>
  What a configuration the Envoy generator finished guarantees, read off the invariants of
  \<open>Envoy_Soundness\<close> and \<open>Envoy_Hosts\<close>: every named cluster exists, every upstream was authorised by a
  rule, a server name selects one chain, a host without a rule meets the catch-all that denies, and
  an unmatched connection meets the deny chain.
\<close>

section \<open>Upstreams\<close>

text \<open>The addresses a cluster connects to.\<close>

fun own_host :: "string \<Rightarrow> yaml \<Rightarrow> string list" where
  "own_host k (YStr h) = (if k = ''address'' then [h] else [])"
| "own_host k y = []"

fun socket_hosts :: "yaml \<Rightarrow> string list" where
  "socket_hosts (YMap m) = concat (map (\<lambda>(k, v). own_host k v @ socket_hosts v) m)"
| "socket_hosts (YList ys) = concat (map socket_hosts ys)"
| "socket_hosts (YStr s) = []"
| "socket_hosts (YInt i) = []"
| "socket_hosts (YBool b) = []"

lemma pinned_hosts:
  "socket_hosts (pinnedCluster n h q) = [h]" "socket_hosts (decorateReencrypt i w (pinnedCluster n h q)) = [h]"
  by (simp_all add: pinnedCluster_def endpoint_at_def decorateReencrypt_def upstreamReencryptSocket_def upstreamHTTPProtocolOptions_def)

lemma unpinned_hosts:
  "socket_hosts (originalDstCluster n) = []" "socket_hosts (decorateReencrypt i w (originalDstCluster n)) = []"
  "socket_hosts buildHTTPDFPCluster = []" "socket_hosts (buildHTTPSDFPCluster n i w) = []" "socket_hosts buildDenyCluster = []"
  "socket_hosts (buildOtelALSCluster a) = [MonitoringServiceOtelCollector]"
  by (simp_all add: originalDstCluster_def decorateReencrypt_def upstreamReencryptSocket_def upstreamHTTPProtocolOptions_def
      buildHTTPDFPCluster_def buildHTTPSDFPCluster_def dfp_cluster_def dfpDNSCacheConfig_def buildDenyCluster_def
      buildOtelALSCluster_def endpoint_at_def)

text \<open>How a cluster finds its upstream when it does not list the address itself.\<close>

definition follows_connection :: "yaml \<Rightarrow> bool" where
  "follows_connection cl \<longleftrightarrow> yget ''type'' cl = Some (YStr ''ORIGINAL_DST'')"

definition follows_host_header :: "yaml \<Rightarrow> bool" where
  "follows_host_header cl \<longleftrightarrow> yget ''cluster_type'' cl \<noteq> None"

lemma cluster_discovery:
  "\<not> follows_connection (pinnedCluster n h q)" "\<not> follows_host_header (pinnedCluster n h q)"
  "\<not> follows_connection (decorateReencrypt i w (pinnedCluster n h q))" "\<not> follows_host_header (decorateReencrypt i w (pinnedCluster n h q))"
  "\<not> follows_host_header (originalDstCluster n)" "\<not> follows_host_header (decorateReencrypt i w (originalDstCluster n))"
  "\<not> follows_connection buildHTTPDFPCluster" "\<not> follows_connection (buildHTTPSDFPCluster n i w)"
  "\<not> follows_connection buildDenyCluster" "\<not> follows_host_header buildDenyCluster"
  "\<not> follows_connection (buildOtelALSCluster a)" "\<not> follows_host_header (buildOtelALSCluster a)"
  by (simp_all add: follows_connection_def follows_host_header_def originalDstCluster_def decorateReencrypt_def
      buildHTTPDFPCluster_def buildHTTPSDFPCluster_def dfp_cluster_def buildDenyCluster_def buildOtelALSCluster_def pinnedCluster_def)

definition allow_rule :: "EgressRule list \<Rightarrow> (EgressRule \<Rightarrow> bool) \<Rightarrow> bool" where
  "allow_rule rules P \<longleftrightarrow> list_ex (\<lambda>r. \<not> isDenyAction (Action r) \<and> P r) rules"

definition authorised_upstream :: "EgressRule list \<Rightarrow> ALSConfig \<Rightarrow> yaml \<Rightarrow> bool" where
  "authorised_upstream rules a cl \<longleftrightarrow>
     list_all (\<lambda>h. allow_rule rules (\<lambda>r. h = normalizeDomain (Dst r)) \<or> MTLS a \<and> h = MonitoringServiceOtelCollector) (socket_hosts cl) \<and>
     (follows_connection cl \<longrightarrow> allow_rule rules (\<lambda>r. isCIDR (Dst r))) \<and>
     (follows_host_header cl \<longrightarrow> allow_rule rules (\<lambda>r. isWildcardDomain (Dst r)))"

lemma config_cluster_authorised:
  assumes "config_cluster rules a cl"
  shows "authorised_upstream rules a cl"
proof -
  note s = authorised_upstream_def pinned_hosts unpinned_hosts cluster_discovery allow_rule_def list_ex_iff
  consider "cl = buildDenyCluster" | "MTLS a" "cl = buildOtelALSCluster a"
    | r where "r \<in> set rules" "\<not> isDenyAction (Action r)" "clusters_for r cl"
    using assms by (auto simp: config_cluster_def justified_def)
  then show ?thesis
  proof cases
    case 3
    then show ?thesis unfolding clusters_for_def by (elim disjE conjE exE; simp add: s; blast)
  qed (simp_all add: s)
qed

section \<open>Server names\<close>

definition match_names :: "yaml \<Rightarrow> string list" where
  "match_names ch =
     (case yget ''filter_chain_match'' ch of
        None \<Rightarrow> []
      | Some m \<Rightarrow> map (\<lambda>n. as_string (Some n)) (as_list (yget ''server_names'' m)))"

lemma as_string_YStr [simp]: "map (\<lambda>n. as_string (Some n)) (map YStr xs) = xs"
  by (induction xs) auto

lemma plain_names: "as_list (yget ''server_names'' plain_match) = []" "as_list (yget ''server_names'' (prefix_match r q)) = []"
  by (simp_all add: plain_match_def prefix_match_def)

lemma crypto_names:
  "map (\<lambda>n. as_string (Some n)) (as_list (yget ''server_names'' (fst (downstreamCryptoMatch r ex b)))) =
     (if isIPOrCIDR (Dst r) then [] else serverNames (Dst r) ex)"
  by (simp add: downstreamCryptoMatch_def comp_def)

lemma crypto_match_cong:
  assumes "\<not> isIPOrCIDR (Dst r)" "\<not> isIPOrCIDR (Dst r')" "serverNames (Dst r) ex = serverNames (Dst r') ex"
  shows "fst (downstreamCryptoMatch r ex b) = fst (downstreamCryptoMatch r' ex b)"
  using assms by (simp add: downstreamCryptoMatch_def)

text \<open>The exact domains the facts collect.\<close>

lemma fact_step_exact:
  "set (httpsExactDomains (fact_step g r)) =
     set (httpsExactDomains g) \<union>
     (if allowed_rule r \<and> baseProto (ToLower (Proto r)) = ''https'' \<and> \<not> isWildcardDomain (Dst r) then {normalizeDomain (Dst r)} else {})"
  by (simp add: fact_step_def Let_def)

lemma foldl_fact_exact:
  "normalizeDomain (Dst r) \<in> set (httpsExactDomains (foldl fact_step g rules))"
  if "r \<in> set rules" "allowed_rule r" "baseProto (ToLower (Proto r)) = ''https''" "\<not> isWildcardDomain (Dst r)"
proof -
  have mono: "d \<in> set (httpsExactDomains g) \<Longrightarrow> d \<in> set (httpsExactDomains (foldl fact_step g rs))" for d g rs
    by (induction rs arbitrary: g) (simp_all add: fact_step_exact)
  have "normalizeDomain (Dst r) \<in> set (httpsExactDomains (fact_step g r))" for g using that by (simp add: fact_step_exact)
  then show ?thesis using that(1) mono by (induction rules arbitrary: g) auto
qed

lemma exact_domain_listed:
  assumes "r \<in> set rules" "allowed_rule r" "baseProto (ToLower (Proto r)) = ''https''" "\<not> isWildcardDomain (Dst r)"
  shows "normalizeDomain (Dst r) \<in> set (httpsExactDomains (deriveGenFacts rules p))"
  using foldl_fact_exact [OF assms] by (simp add: deriveGenFacts_def)

lemma star_chars: "\<not> is_digit (CHR ''*'')" "\<not> is_lower (CHR ''*'')" "\<not> is_upper (CHR ''*'')"
  by code_simp+

lemma star_not_address: "\<not> isIPOrCIDR (CHR ''*'' # d)"
proof -
  have v6: "parseIPv6 (CHR ''*'' # e) = None" for e
  proof -
    have h: "hex_val (CHR ''*'') = None" by code_simp
    then have "ipv6_loop [] None (CHR ''*'' # e) = None" by (simp add: ipv6_loop.simps)
    then show ?thesis by (simp add: parseIPv6_def HasPrefix_def)
  qed
  have "ParseAddr_at (CHR ''*'' # e) t = None" for e t
    by (induction t) (simp_all add: parseIPv4Fields_def star_chars v6)
  then have a: "ParseAddr (CHR ''*'' # e) = None" for e by (simp only: ParseAddr_def)
  have "cut_byte (CHR ''/'') (CHR ''*'' # d) = map_option (\<lambda>(x, y). (CHR ''*'' # x, y)) (cut_byte (CHR ''/'') d)"
    by (cases "cut_byte (CHR ''/'') d") auto
  then show ?thesis using a by (auto simp: isIPOrCIDR_def ParseIP_def ParseCIDR_def split: option.splits)
qed

lemma valid_no_star:
  assumes "ValidateDst dst = None"
  shows "normalizeDomain dst \<noteq> CHR ''*'' # d"
proof
  assume n: "normalizeDomain dst = CHR ''*'' # d"
  then have "dst_scan dst (CHR ''.'') False 0 (CHR ''*'' # d) = None"
    using assms star_not_address [of d] by (auto simp: ValidateDst_def Let_def split: if_splits)
  then show False by (simp add: star_chars)
qed

lemma valid_domains: "ValidateDst dst = None \<Longrightarrow> ''*'' \<notin> set (httpDomains dst q b)"
proof -
  have "''*'' \<noteq> s @ CHR '':'' # t" for s t :: string by (cases s) auto
  then show "ValidateDst dst = None \<Longrightarrow> ''*'' \<notin> set (httpDomains dst q b)"
    using valid_no_star [of dst "[]"] by (auto simp: httpDomains_def Let_def)
qed

lemma serverNames_share:
  assumes "s \<in> set (serverNames d ex)" "s \<in> set (serverNames d' ex)"
    and "\<And>e. normalizeDomain d \<noteq> CHR ''*'' # e" "\<And>e. normalizeDomain d' \<noteq> CHR ''*'' # e"
    and "\<not> isWildcardDomain d \<Longrightarrow> normalizeDomain d \<in> set ex" "\<not> isWildcardDomain d' \<Longrightarrow> normalizeDomain d' \<in> set ex"
  shows "serverNames d ex = serverNames d' ex"
  using assms(1,2) assms(3) [of "CHR ''.'' # normalizeDomain d'"] assms(4) [of "CHR ''.'' # normalizeDomain d"] assms(5,6)
  by (auto simp: serverNames_def Let_def split: if_splits)

text \<open>The match of a chain on a shared listener that carries server names.\<close>

lemma transports_names:
  assumes "transports gen rules n (Some m)" "n \<in> {egressListenerName, egressQUICListenerName}"
    "s \<in> set (map (\<lambda>n. as_string (Some n)) (as_list (yget ''server_names'' m)))"
  obtains r where "r \<in> set rules" "\<not> isDenyAction (Action r)" "baseProto (ToLower (Proto r)) = ''https''" "\<not> isIPOrCIDR (Dst r)"
    "m = fst (downstreamCryptoMatch r (httpsExactDomains gen) (n = egressListenerName))" "s \<in> set (serverNames (Dst r) (httpsExactDomains gen))"
proof -
  obtain r where r: "r \<in> set rules" "isDenyAction (Action r) \<longrightarrow> isOpaqueProto (Proto r)" "transport_of gen (promoted_rule r) n (Some m)"
    using assms(1) by (auto simp: transports_def)
  have ne: "egressListenerName \<noteq> egressQUICListenerName" by (simp add: egressListenerName_def egressQUICListenerName_def)
  have t: "ToLower (Proto (promoted_rule r)) = ''https''"
    "m = fst (downstreamCryptoMatch (promoted_rule r) (httpsExactDomains gen) (n = egressListenerName))"
    using r(3) assms(3) ne by (auto simp: transport_of_def plain_names)
  have "downstreamCryptoMatch (promoted_rule r) (httpsExactDomains gen) b = downstreamCryptoMatch r (httpsExactDomains gen) b" for b
    by (simp add: downstreamCryptoMatch_def httpsPort_def SinglePort_def PortSpan_def promoted_rule_def)
  moreover have "\<not> isDenyAction (Action r)" by (rule promoted_http [OF r(2)]) (simp add: t)
  moreover have "baseProto (ToLower (Proto r)) = ''https''" using t(1)
    by (auto simp: promoted_rule_def base_protos baseProto_def Let_def split: if_splits)
  ultimately show thesis using that [OF r(1)] t(2) assms(3) by (auto simp: crypto_names split: if_splits)
qed


lemma validated_action:
  assumes "ValidateRule compiles r = None" "\<not> isDenyAction (Action r)"
  shows "allowed_rule r"
  using assms by (auto simp: ValidateRule_def validateActionField_def allowed_rule_def isDenyAction_def split: option.splits if_splits)

lemma chains_indexed:
  assumes "build_config marshal p a (fst (derive rules p)) = Inr c" "map_of (listeners c) n = Some l" "n \<in> {egressListenerName, egressQUICListenerName}"
  shows "indexed marshal (chains l, chainBySig l)"
    "ch \<in> set (chains l) \<Longrightarrow> transports (deriveGenFacts rules p) rules n (yget ''filter_chain_match'' ch)"
proof -
  obtain c1 where c1: "run_perms marshal p a (fst (derive rules p)) (SetAdmin envoyAdmin NewEnvoyConfig) = Inr c1"
    "sourced marshal (justified rules) (transports (deriveGenFacts rules p) rules) c1"
    "\<forall>n. n \<noteq> healthListenerName \<longrightarrow> chain_view c n = chain_view c1 n" using finished_config(3) [OF assms(1)] by blast
  have n: "n \<noteq> healthListenerName" "n \<noteq> []"
    using assms(3) by (auto simp: healthListenerName_def egressListenerName_def egressQUICListenerName_def)
  have "chain_view c n = (chains l, chainBySig l)" using assms(2) by (simp add: chain_view_def)
  then have v: "chain_view c1 n = (chains l, chainBySig l)" using c1(3) n(1) by metis
  show "indexed marshal (chains l, chainBySig l)" using c1(2) v by (metis sourced_def chains_indexed_def)
  show "transports (deriveGenFacts rules p) rules n (yget ''filter_chain_match'' ch)" if "ch \<in> set (chains l)"
  proof -
    have "ch \<in> set (fst (chain_view c1 n))" using that v by simp
    then show ?thesis using c1(2) n(2) unfolding sourced_def sourced_chains_def by blast
  qed
qed

lemma indexed_unique:
  assumes "indexed marshal (chs, idx)" "i < length chs" "j < length chs" "sig_of marshal (chs ! i) = sig_of marshal (chs ! j)"
  shows "i = j"
proof -
  obtain s where "sig_of marshal (chs ! i) = Inr s" using assms(1,2) by (auto simp: indexed_def)
  then have "map_of idx s = Some i" "map_of idx s = Some j" using assms by (auto simp: indexed_def)
  then show ?thesis by simp
qed

section \<open>The guarantees\<close>

text \<open>C5: no dangling reference. In every configuration the generator builds, each cluster that a
  listener names (a proxy target, a route target, a datagram route or the collector of a log sink) is
  among the clusters of the same configuration.\<close>

theorem no_dangling_clusters:
  assumes "build_config marshal p a (fst (derive rules p)) = Inr c"
  shows "list_all (\<lambda>l. set (cluster_refs l) \<subseteq> cname ` set (clusterList c)) (listenerList c)"
  unfolding list_all_iff
proof
  fix y assume "y \<in> set (listenerList c)"
  then obtain n where n: "n \<in> fst ` set (listeners c)" "y = listener_yaml (the (map_of (listeners c) n))"
    by (auto simp: listenerList_def)
  from n(1) obtain l where l: "map_of (listeners c) n = Some l" by (rule listed_lookup)
  have "listener_refs l \<subseteq> cluster_names c" by (rule all_listeners_lookup [OF finished_config(1) [OF assms] l])
  then show "set (cluster_refs y) \<subseteq> cname ` set (clusterList c)"
    using listener_yaml_refs [of l] n(2) l clusterList_set(1) [OF finished_config(2) [OF assms]] by auto
qed

text \<open>C2: no upstream without a rule. Each address a generated cluster connects to is the normalised
  destination of a rule that does not deny, or the log collector when access logs are shipped over mTLS;
  a cluster that follows the original destination of the connection exists only with a CIDR rule that does
  not deny, and one that follows the Host header only with a wildcard rule that does not deny.\<close>

theorem upstreams_authorised:
  assumes "build_config marshal p a (fst (derive rules p)) = Inr c"
  shows "list_all (authorised_upstream rules a) (clusterList c)"
  using clusterList_set(2) [OF finished_config(2) [OF assms]] config_cluster_authorised by (auto simp: list_all_iff)

text \<open>C6: a server name selects one chain. With validated rules, two filter chains of the TCP or the
  QUIC egress listener that both list a server name are the same chain, so that an exact domain is never
  shadowed by a wildcard over it and Envoy meets no duplicate match.\<close>

theorem server_names_unambiguous:
  assumes "\<forall>r \<in> set rules. ValidateRule compiles r = None" "build_config marshal p a (fst (derive rules p)) = Inr c"
    "n \<in> {egressListenerName, egressQUICListenerName}" "map_of (listeners c) n = Some l"
    "i < length (chains l)" "j < length (chains l)"
    "s \<in> set (match_names (chains l ! i))" "s \<in> set (match_names (chains l ! j))"
  shows "i = j"
proof (rule indexed_unique [OF chains_indexed(1) [OF assms(2,4,3)] assms(5,6)])
  let ?gen = "deriveGenFacts rules p" and ?m = "\<lambda>k. yget ''filter_chain_match'' (chains l ! k)"
  let ?ex = "httpsExactDomains ?gen"
  have rule: "\<exists>r \<in> set rules. \<not> isIPOrCIDR (Dst r) \<and> ?m k = Some (fst (downstreamCryptoMatch r ?ex (n = egressListenerName))) \<and>
      s \<in> set (serverNames (Dst r) ?ex) \<and> (\<not> isWildcardDomain (Dst r) \<longrightarrow> normalizeDomain (Dst r) \<in> set ?ex)"
    if k: "k < length (chains l)" "s \<in> set (match_names (chains l ! k))" for k
  proof -
    obtain m where m: "?m k = Some m" "s \<in> set (map (\<lambda>n. as_string (Some n)) (as_list (yget ''server_names'' m)))"
      using k(2) by (cases "?m k") (auto simp: match_names_def)
    have "transports ?gen rules n (Some m)" using chains_indexed(2) [OF assms(2,4,3) nth_mem [OF k(1)]] m(1) by simp
    then obtain r where r: "r \<in> set rules" "\<not> isDenyAction (Action r)" "baseProto (ToLower (Proto r)) = ''https''" "\<not> isIPOrCIDR (Dst r)"
      "m = fst (downstreamCryptoMatch r ?ex (n = egressListenerName))" "s \<in> set (serverNames (Dst r) ?ex)"
      by (rule transports_names [OF _ assms(3) m(2)])
    have "allowed_rule r" using validated_action assms(1) r(1,2) by blast
    then have "\<not> isWildcardDomain (Dst r) \<longrightarrow> normalizeDomain (Dst r) \<in> set ?ex" using exact_domain_listed r(1,3) by blast
    then show ?thesis using r m(1) by blast
  qed
  obtain r where r: "r \<in> set rules" "\<not> isIPOrCIDR (Dst r)" "?m i = Some (fst (downstreamCryptoMatch r ?ex (n = egressListenerName)))"
    "s \<in> set (serverNames (Dst r) ?ex)" "\<not> isWildcardDomain (Dst r) \<longrightarrow> normalizeDomain (Dst r) \<in> set ?ex"
    using rule [OF assms(5,7)] by blast
  obtain r' where r': "r' \<in> set rules" "\<not> isIPOrCIDR (Dst r')" "?m j = Some (fst (downstreamCryptoMatch r' ?ex (n = egressListenerName)))"
    "s \<in> set (serverNames (Dst r') ?ex)" "\<not> isWildcardDomain (Dst r') \<longrightarrow> normalizeDomain (Dst r') \<in> set ?ex"
    using rule [OF assms(6,8)] by blast
  have v: "normalizeDomain (Dst x) \<noteq> CHR ''*'' # e" if "x \<in> set rules" for x e
    by (rule valid_no_star, rule ValidateRule_parts(1)) (use that assms(1) in blast)
  have "serverNames (Dst r) ?ex = serverNames (Dst r') ?ex"
    by (rule serverNames_share [OF r(4) r'(4) v [OF r(1)] v [OF r'(1)]]) (use r(5) r'(5) in blast)+
  then have "?m i = ?m j" using crypto_match_cong [OF r(2) r'(2)] r(3) r'(3) by simp
  then show "sig_of marshal (chains l ! i) = sig_of marshal (chains l ! j)" by (simp add: sig_of_def)
qed

definition vhost_domains :: "yaml \<Rightarrow> string list" where
  "vhost_domains v = map (\<lambda>d. as_string (Some d)) (as_list (yget ''domains'' v))"

text \<open>C1: a host without a rule is denied. With validated rules and a faithful marshaller, in every HTTP
  chain of the egress listeners that is not selected by address, there is a catch-all virtual host that
  answers 403 to every path; it is the only one with the domain \<open>*\<close>; every other virtual host has the
  domains and the route table of a rule that does not deny.\<close>

theorem unlisted_hosts_denied:
  assumes "\<forall>r \<in> set rules. ValidateRule compiles r = None" "marshal_faithful marshal"
    "build_config marshal p a (fst (derive rules p)) = Inr c"
    "n \<in> {egressListenerName, egressQUICListenerName}" "map_of (listeners c) n = Some l" "ch \<in> set (chains l)"
    "\<not> by_prefix (yget ''filter_chain_match'' ch)" "hcmVHosts ch = Inr vs"
  shows "(\<exists>v \<in> set vs. deny_vhost v) \<and>
    (\<forall>v \<in> set vs. if ''*'' \<in> set (vhost_domains v) then deny_vhost v else rule_hosts rules v)"
proof -
  obtain c1 where c1: "run_perms marshal p a (fst (derive rules p)) (SetAdmin envoyAdmin NewEnvoyConfig) = Inr c1"
    "\<forall>n. n \<noteq> healthListenerName \<longrightarrow> chain_view c n = chain_view c1 n" using finished_config(3) [OF assms(3)] by blast
  have "n \<noteq> healthListenerName"
    using assms(4) by (auto simp: healthListenerName_def egressListenerName_def egressQUICListenerName_def)
  moreover have "chain_view c n = (chains l, chainBySig l)" using assms(5) by (simp add: chain_view_def)
  ultimately have "chain_view c1 n = (chains l, chainBySig l)" using c1(2) by metis
  then have "hosts_chain (rule_hosts rules) ch"
    using run_hosts [OF c1(1) assms(2)] assms(6) unfolding hosts_cfg_def by (metis fst_conv)
  then have cl: "closed_hosts (rule_hosts rules) vs" using assms(7,8) by (simp add: hosts_chain_def)
  have "''*'' \<in> set (vhost_domains v)" if "deny_vhost v" for v using that by (simp add: deny_vhost_def vhost_domains_def)
  moreover have "''*'' \<notin> set (vhost_domains v)" if v: "rule_hosts rules v" for v
  proof -
    obtain r q b where r: "r \<in> set rules" "yget ''domains'' v = Some (YList (map YStr (httpDomains (Dst r) q b)))"
      using v by (auto simp: rule_hosts_def vhost_of_def)
    have "ValidateDst (Dst r) = None" by (rule ValidateRule_parts(1)) (use assms(1) r(1) in blast)
    then show ?thesis using valid_domains r(2) by (simp add: vhost_domains_def comp_def)
  qed
  ultimately show ?thesis using cl unfolding closed_hosts_def by auto
qed




end
