(* ===== verification/Envoy_Sample.thy ===== *)
theory Envoy_Sample
  imports Envoy_Guarantees
begin

text \<open>
  A sample generation that discharges the hypotheses of the theorems on the Envoy configuration: an
  exact and a wildcard HTTPS rule and a denied domain below the wildcard, a marshaller proved faithful,
  and the run of the four permutations, the deny floor, the log cluster and the health listener.
\<close>

section \<open>A faithful marshaller\<close>

text \<open>A marshaller that writes every tree without loss.\<close>

fun print_string :: "string \<Rightarrow> string" where
  "print_string [] = ''.''"
| "print_string (c # cs) = CHR ''+'' # c # print_string cs"

fun print_yaml :: "yaml \<Rightarrow> string" where
  "print_yaml (YStr s) = CHR ''s'' # print_string s"
| "print_yaml (YInt i) = (if i < 0 then CHR ''n'' else CHR ''i'') # print_string (itoa_nat (nat (abs i)))"
| "print_yaml (YBool b) = [if b then CHR ''t'' else CHR ''f'']"
| "print_yaml (YList ys) = CHR ''l'' # concat (map (\<lambda>y. CHR ''+'' # print_yaml y) ys) @ ''.''"
| "print_yaml (YMap m) = CHR ''m'' # concat (map (\<lambda>(k, v). CHR ''+'' # print_string k @ print_yaml v) m) @ ''.''"

lemma print_string_prefix: "print_string s @ u = print_string t @ v \<Longrightarrow> s = t \<and> u = v"
proof (induction s arbitrary: t)
  case (Cons c s)
  then show ?case by (cases t) auto
qed (case_tac t; auto)

lemma items_prefix:
  fixes pr :: "'a \<Rightarrow> string"
  assumes "concat (map (\<lambda>y. CHR ''+'' # pr y) xs) @ CHR ''.'' # u = concat (map (\<lambda>y. CHR ''+'' # pr y) ys) @ CHR ''.'' # v"
    "\<And>x y u v. x \<in> set xs \<Longrightarrow> pr x @ u = pr y @ v \<Longrightarrow> x = y \<and> u = v"
  shows "xs = ys \<and> u = v"
  using assms
proof (induction xs arbitrary: ys)
  case Nil
  then show ?case by (cases ys) auto
next
  case (Cons x xs)
  then obtain y ys' where ys: "ys = y # ys'" by (cases ys) auto
  have "pr x @ concat (map (\<lambda>y. CHR ''+'' # pr y) xs) @ CHR ''.'' # u = pr y @ concat (map (\<lambda>y. CHR ''+'' # pr y) ys') @ CHR ''.'' # v"
    using Cons.prems(1) ys by simp
  then have e: "x = y" "concat (map (\<lambda>y. CHR ''+'' # pr y) xs) @ CHR ''.'' # u = concat (map (\<lambda>y. CHR ''+'' # pr y) ys') @ CHR ''.'' # v"
    using Cons.prems(2) [of x] by auto
  have "xs = ys' \<and> u = v" by (rule Cons.IH [OF e(2)]) (use Cons.prems(2) in auto)
  then show ?case using e(1) ys by simp
qed

lemma print_yaml_prefix: "print_yaml x @ u = print_yaml y @ v \<Longrightarrow> x = y \<and> u = v"
proof (induction x arbitrary: y u v)
  case (YStr s)
  then obtain t where t: "y = YStr t" by (cases y) (auto split: if_splits)
  have "s = t \<and> u = v" by (rule print_string_prefix) (use YStr t in simp)
  then show ?case using t by simp
next
  case (YInt i)
  then obtain j where j: "y = YInt j" by (cases y) (auto split: if_splits)
  have "(i < 0) = (j < 0)" "print_string (itoa_nat (nat (abs i))) @ u = print_string (itoa_nat (nat (abs j))) @ v"
    using YInt j by (auto split: if_splits)
  moreover from this(2) have "itoa_nat (nat (abs i)) = itoa_nat (nat (abs j)) \<and> u = v" by (rule print_string_prefix)
  ultimately show ?case using j by (auto simp: itoa_nat_inj)
next
  case (YBool b)
  then show ?case by (cases y) (auto split: if_splits)
next
  case (YList ys)
  then obtain zs where z: "y = YList zs" by (cases y) (auto split: if_splits)
  have "ys = zs \<and> u = v"
    by (rule items_prefix [where pr = print_yaml]) (use YList z in auto)
  then show ?case using z by simp
next
  case (YMap m)
  then obtain m' where z: "y = YMap m'" by (cases y) (auto split: if_splits)
  let ?pr = "\<lambda>(k, v). print_string k @ print_yaml v"
  have eq: "concat (map (\<lambda>y. CHR ''+'' # ?pr y) m) @ CHR ''.'' # u = concat (map (\<lambda>y. CHR ''+'' # ?pr y) m') @ CHR ''.'' # v"
    using YMap.prems z by (simp add: case_prod_unfold)
  have "m = m' \<and> u = v"
  proof (rule items_prefix [OF eq])
    fix e f u v assume e: "e \<in> set m" and pe: "?pr e @ u = ?pr f @ v"
    obtain k w where kw: "e = (k, w)" by (cases e)
    have "k = fst f \<and> print_yaml w @ u = print_yaml (snd f) @ v"
      by (rule print_string_prefix) (use pe kw in \<open>simp add: split_beta\<close>)
    moreover from this have "w = snd f \<and> u = v" using YMap.IH [OF e, of w] kw by auto
    ultimately show "e = f \<and> u = v" using kw by (simp add: prod_eq_iff)
  qed
  then show ?case using z by simp
qed

definition sample_marshal :: "yaml \<Rightarrow> string + string" where
  "sample_marshal y = Inr (print_yaml y)"

lemma sample_marshal_faithful: "marshal_faithful sample_marshal"
proof -
  have "print_yaml y \<noteq> []" for y by (cases y) simp_all
  moreover have "print_yaml x = print_yaml y \<Longrightarrow> x = y" for x y using print_yaml_prefix [of x "[]" y "[]"] by simp
  ultimately show ?thesis by (auto simp: marshal_faithful_def sample_marshal_def)
qed


section \<open>The sample rules\<close>

definition sample_https :: "string \<Rightarrow> string \<Rightarrow> EgressRule" where
  "sample_https dst act =
     \<lparr>Dst = dst, Proto = ''https'', Port = ''443'', Action = act, PathRules = [], PathDefault = [], InsecureSkipTLSVerify = False\<rparr>"

definition sample_https_rules :: "EgressRule list" where
  "sample_https_rules = [sample_https ''api.example.com'' ''allow'', sample_https ''.example.com'' [], sample_https ''ads.example.com'' ''deny'']"

definition sample_als :: ALSConfig where "sample_als = \<lparr>ALSPort = 4317, MTLS = True\<rparr>"

lemma sample_valid: "\<forall>r \<in> set sample_https_rules. ValidateRule (\<lambda>_. True) r = None"
proof -
  have "ValidateDst ''api.example.com'' = None" "ValidateDst ''.example.com'' = None" "ValidateDst ''ads.example.com'' = None" by code_simp+
  moreover have "validateActionField ''action'' ''allow'' = None" "validateActionField ''action'' ''deny'' = None"
    "validateActionField ''action'' [] = None" "validateActionField ''path_default'' [] = None" by code_simp+
  moreover have "ValidatePortSpec (sample_https d a) = None" for d a by (simp add: ValidatePortSpec_def sample_https_def)
  ultimately show ?thesis by (simp add: sample_https_rules_def ValidateRule_def sample_https_def)
qed


lemma sample_names:
  "normalizeDomain ''api.example.com'' = ''api.example.com''" "normalizeDomain ''.example.com'' = ''example.com''"
  "isWildcardDomain ''.example.com''" "\<not> isWildcardDomain ''api.example.com''" "\<not> isIPOrCIDR ''api.example.com''" "\<not> isIPOrCIDR ''.example.com''"
  "\<not> isCIDR ''api.example.com''" "\<not> isCIDR ''.example.com''"
  "ToLower ''https'' = ''https''" "ToLower ''allow'' = ''allow''" "ToLower ''deny'' = ''deny''" "\<not> isOpaqueProto ''https''"
  "baseProto ''https'' = ''https''" "Itoa 443 = ''443''" "ToLower [] = []"
  by (code_simp | simp add: itoa_eval)+

lemma sample_port: "PortSpan (sample_https d a) = Some (443, 443)" "SinglePort (sample_https d a) = Some 443" "effectiveDstPort (sample_https d a) = 443"
  by (simp_all add: PortSpan_def SinglePort_def effectiveDstPort_def sample_https_def)

lemma sample_fields [simp]:
  "Dst (sample_https d a) = d" "Proto (sample_https d a) = ''https''" "Action (sample_https d a) = a"
  "PathRules (sample_https d a) = []" "PathDefault (sample_https d a) = []" "InsecureSkipTLSVerify (sample_https d a) = False"
  by (simp_all add: sample_https_def)

lemma sample_allowed: "allowed_rule (sample_https d ''allow'')" "allowed_rule (sample_https d [])" "\<not> allowed_rule (sample_https d ''deny'')"
  by (simp_all add: allowed_rule_def sample_names)

lemma sample_origin: "originKey (sample_https d a) = d @ '':443''"
  by (simp add: originKey_def sample_port sample_names)

lemma sample_step:
  "fact_step g (sample_https ''api.example.com'' ''allow'') =
     g\<lparr>explicitBaseOrigins := ''api.example.com:443'' # explicitBaseOrigins g, httpsExactDomains := ''api.example.com'' # httpsExactDomains g\<rparr>"
  "fact_step g (sample_https ''.example.com'' []) = g\<lparr>explicitBaseOrigins := ''.example.com:443'' # explicitBaseOrigins g\<rparr>"
  "fact_step g (sample_https ''ads.example.com'' ''deny'') = g"
  by (simp_all add: fact_step_def sample_allowed sample_names sample_origin)

lemma sample_mappings_empty: "TCPMappings sample_https_rules q = []" "UDPMappings sample_https_rules q = []"
  by (simp_all add: TCPMappings_def UDPMappings_def dedicatedMappings_def sample_https_rules_def sample_names)

lemma sample_facts:
  "deriveGenFacts sample_https_rules q =
     \<lparr>httpDFPActive = False, httpsExactDomains = [''api.example.com''], wsOrigins = [],
      explicitBaseOrigins = [''.example.com:443'', ''api.example.com:443''], tcpListenerPorts = [], udpListenerPorts = []\<rparr>"
  by (simp add: deriveGenFacts_def sample_mappings_empty port_table_def) (simp add: sample_https_rules_def sample_step)

lemma sample_layers:
  "layersFor (sample_https ''api.example.com'' ''allow'') (deriveGenFacts sample_https_rules q) =
     Some [[tlsSNIChainLayer [''api.example.com''], httpsExactUpstreamLayer, httpAppLayer noDFP],
           [quicSNIChainLayer [''api.example.com''], httpsExactUpstreamLayer, httpAppLayer noDFP]]"
  "layersFor (sample_https ''.example.com'' []) (deriveGenFacts sample_https_rules q) =
     Some [[tlsSNIChainLayer [''api.example.com''], httpsWildcardUpstreamLayer, httpAppLayer \<lparr>active = True, cache = httpsDFPCacheName\<rparr>],
           [quicSNIChainLayer [''api.example.com''], httpsWildcardUpstreamLayer, httpAppLayer \<lparr>active = True, cache = httpsDFPCacheName\<rparr>]]"
  by (simp_all add: layersFor_def sample_facts sample_names withWS_def Let_def)


lemma sample_derive:
  "fst (derive sample_https_rules q) =
     rule_perms (sample_https ''api.example.com'' ''allow'')
       [[tlsSNIChainLayer [''api.example.com''], httpsExactUpstreamLayer, httpAppLayer noDFP],
        [quicSNIChainLayer [''api.example.com''], httpsExactUpstreamLayer, httpAppLayer noDFP]] @
     rule_perms (sample_https ''.example.com'' [])
       [[tlsSNIChainLayer [''api.example.com''], httpsWildcardUpstreamLayer, httpAppLayer \<lparr>active = True, cache = httpsDFPCacheName\<rparr>],
        [quicSNIChainLayer [''api.example.com''], httpsWildcardUpstreamLayer, httpAppLayer \<lparr>active = True, cache = httpsDFPCacheName\<rparr>]]"
  unfolding derive_def using sample_layers [of q]
  by (simp add: sample_https_rules_def isDenyAction_def sample_names split_beta Let_def)


section \<open>The forward pass on the sample\<close>

definition sample_match :: "bool \<Rightarrow> bool \<Rightarrow> yaml" where
  "sample_match wild b = YMap ([(''server_names'', YList (if wild then [YStr ''*.example.com'', YStr ''example.com''] else [YStr ''api.example.com'']))] @
     (if b then [(''transport_protocol'', YStr ''tls'')] else []))"

lemma sample_crypto:
  "downstreamCryptoMatch (sample_https ''api.example.com'' a) [''api.example.com''] b = (sample_match False b, b, False)"
  "downstreamCryptoMatch (sample_https ''.example.com'' a) [''api.example.com''] b = (sample_match True b, b, False)"
  by (simp_all add: downstreamCryptoMatch_def sample_names serverNames_def sample_match_def Let_def)

lemma sample_sig:
  "matchSignature sample_marshal (Some m) = Inr (print_yaml (canon m))"
  "print_yaml (canon (sample_match True b)) \<noteq> print_yaml (canon (sample_match False b))"
proof -
  show "matchSignature sample_marshal (Some m) = Inr (print_yaml (canon m))" by (simp add: matchSignature_def sample_marshal_def)
  have "canon (sample_match True True) \<noteq> canon (sample_match False True)" "canon (sample_match True False) \<noteq> canon (sample_match False False)" by code_simp+
  then have "canon (sample_match True b) \<noteq> canon (sample_match False b)" by (cases b) auto
  then show "print_yaml (canon (sample_match True b)) \<noteq> print_yaml (canon (sample_match False b))"
    using print_yaml_prefix [of "canon (sample_match True b)" "[]" "canon (sample_match False b)" "[]"] by auto
qed

lemma sample_listener_names: "egressQUICListenerName \<noteq> egressListenerName" "egressListenerName \<noteq> egressQUICListenerName" "egressListenerName \<noteq> []" "egressQUICListenerName \<noteq> []"
  by (simp_all add: egressListenerName_def egressQUICListenerName_def)

lemma sample_clusters:
  "tlsExactClusterName ''api.example.com'' 443 = ''tls_api_example_com_443''" "httpsDFPClusterName = ''https_dfp''"
  by (simp_all add: tlsExactClusterName_def host_name_def sanitizeName_def sample_names httpsDFPClusterName_def)

definition sample_base :: "bool \<Rightarrow> int \<Rightarrow> yaml" where
  "sample_base tcp q = YMap ([(''name'', YStr (if tcp then egressListenerName else egressQUICListenerName)),
     (''address'', YMap [(''socket_address'', YMap ((if tcp then [] else [(''protocol'', YStr ''UDP'')]) @
        [(''address'', YStr defaultBindAddress), (''port_value'', YInt q)]))])] @
     (if tcp then [(''listener_filters'', tlsInspectorListenerFilters)]
      else [(''udp_listener_config'', YMap [(''quic_options'', YMap []), (''downstream_socket_config'', YMap [(''prefer_gro'', YBool True)])])]))"

definition sample_listener :: "bool \<Rightarrow> int \<Rightarrow> yaml list \<Rightarrow> envoyListener" where
  "sample_listener tcp q chs = \<lparr>base = sample_base tcp q, chains = chs,
     chainBySig = map (\<lambda>i. (print_yaml (canon (sample_match (i = 1) tcp)), i)) [0..<length chs], defaultDeny = None\<rparr>"

definition sample_chain :: "bool \<Rightarrow> bool \<Rightarrow> yaml \<Rightarrow> bool" where
  "sample_chain wild tcp ch \<longleftrightarrow> yget ''filter_chain_match'' ch = Some (sample_match wild tcp) \<and> (\<exists>vs. hcmVHosts ch = Inr vs)"

lemma sample_chainI:
  "chain_match ctx = Some (sample_match wild tcp) \<Longrightarrow> filters ctx = [hcm_filter tc] \<Longrightarrow> sample_chain wild tcp (ctx_chain ctx)"
  by (simp add: sample_chain_def ctx_chain_match hcmVHosts_single ctx_chain_def hcm_filter_def)

definition sample_perm :: "bool \<Rightarrow> bool \<Rightarrow> string \<Rightarrow> permutation" where
  "sample_perm wild tcp k =
     \<lparr>prule = (if wild then sample_https ''.example.com'' [] else sample_https ''api.example.com'' ''allow''),
      layers = [if tcp then tlsSNIChainLayer [''api.example.com''] else quicSNIChainLayer [''api.example.com''],
        if wild then httpsWildcardUpstreamLayer else httpsExactUpstreamLayer,
        httpAppLayer (if wild then \<lparr>active = True, cache = httpsDFPCacheName\<rparr> else noDFP)], key = k\<rparr>"

definition sample_cfg :: "yaml list \<Rightarrow> yaml list \<Rightarrow> string list \<Rightarrow> EnvoyPorts \<Rightarrow> EnvoyConfig" where
  "sample_cfg tchs qchs ks q =
     \<lparr>admin = Some envoyAdmin, listeners = (if tchs = [] then [] else [(egressListenerName, sample_listener True (EgressPort q) tchs)]) @
        (if qchs = [] then [] else [(egressQUICListenerName, sample_listener False (EgressPort q) qchs)]),
      clusters = (if tchs = [] then [] else [(''tls_api_example_com_443'', buildTLSDNSCluster ''api.example.com'' 443 False False)]) @
        (if length tchs < 2 then [] else [(''https_dfp'', buildHTTPSDFPCluster ''https_dfp'' False False)]), seenPerms = ks\<rparr>"

lemmas sample_eval =
  run_perm_def ClaimPermutation_def sample_perm_def sample_cfg_def sample_listener_def sample_base_def
  new_ctx_def tlsSNIChainLayer_def quicSNIChainLayer_def Let_def sample_crypto EnsureListener_def EnsureQUICListener_def HasListener_def add_listener_def new_listener_def
  SetListenerField_def httpsExactUpstreamLayer_def httpsWildcardUpstreamLayer_def use_cluster_def sample_names httpAppLayer_def sample_listener_names
  sample_clusters commit_def AddCluster_def cname_def [symmetric] addChain_def ctx_chain_match sample_sig httpsPort_def sample_port DeepEqual_def
  sample_sig(2) [symmetric]

lemma sample_perms:
  "k \<notin> set ks \<Longrightarrow> \<exists>ch. sample_chain False True ch \<and>
     run_perm sample_marshal q a (sample_perm False True k) (sample_cfg [] [] ks q) = Inr (sample_cfg [ch] [] (k # ks) q)"
  "k \<notin> set ks \<Longrightarrow> \<exists>ch. sample_chain False False ch \<and>
     run_perm sample_marshal q a (sample_perm False False k) (sample_cfg [c1] [] ks q) = Inr (sample_cfg [c1] [ch] (k # ks) q)"
  "k \<notin> set ks \<Longrightarrow> \<exists>ch. sample_chain True True ch \<and>
     run_perm sample_marshal q a (sample_perm True True k) (sample_cfg [c1] [c2] ks q) = Inr (sample_cfg [c1, ch] [c2] (k # ks) q)"
  "k \<notin> set ks \<Longrightarrow> \<exists>ch. sample_chain True False ch \<and>
     run_perm sample_marshal q a (sample_perm True False k) (sample_cfg [c1, c3] [c2] ks q) = Inr (sample_cfg [c1, c3] [c2, ch] (k # ks) q)"
  by (simp add: sample_eval split del: if_split, rule sample_chainI, simp, simp)+


definition sample_build :: "gen_error + EnvoyConfig" where
  "sample_build = build_config sample_marshal sample_ports sample_als (fst (derive sample_https_rules sample_ports))"

definition sample_envoy :: EnvoyConfig where
  "sample_envoy = projr sample_build"

lemma sample_perm_list:
  "fst (derive sample_https_rules q) =
     [sample_perm False True ''api.example.com:443:allow:https#0'', sample_perm False False ''api.example.com:443:allow:https#1'',
      sample_perm True True ''.example.com:443::https#0'', sample_perm True False ''.example.com:443::https#1'']"
proof -
  have "Itoa 0 = ''0''" "Itoa 1 = ''1''" by (simp_all add: itoa_eval)
  then show ?thesis by (simp add: sample_derive rule_perms_def sample_perm_def perm_key_def sample_names) (simp add: sample_https_def)
qed

lemma sample_run:
  "\<exists>c1 c2 c3 c4 ks. sample_chain False True c1 \<and> sample_chain False False c2 \<and> sample_chain True True c3 \<and> sample_chain True False c4 \<and>
     run_perms sample_marshal q a (fst (derive sample_https_rules q)) (SetAdmin envoyAdmin NewEnvoyConfig) = Inr (sample_cfg [c1, c3] [c2, c4] ks q)"
proof -
  let ?k1 = "''api.example.com:443:allow:https#0''" and ?k2 = "''api.example.com:443:allow:https#1''"
    and ?k3 = "''.example.com:443::https#0''" and ?k4 = "''.example.com:443::https#1''"
  have s: "SetAdmin envoyAdmin NewEnvoyConfig = sample_cfg [] [] [] q" by (simp add: SetAdmin_def NewEnvoyConfig_def sample_cfg_def)
  obtain c1 where c1: "sample_chain False True c1"
    "run_perm sample_marshal q a (sample_perm False True ?k1) (sample_cfg [] [] [] q) = Inr (sample_cfg [c1] [] [?k1] q)"
    using sample_perms(1) [of ?k1 "[]" q a] by auto
  obtain c2 where c2: "sample_chain False False c2"
    "run_perm sample_marshal q a (sample_perm False False ?k2) (sample_cfg [c1] [] [?k1] q) = Inr (sample_cfg [c1] [c2] [?k2, ?k1] q)"
    using sample_perms(2) [of ?k2 "[?k1]" q a c1] by auto
  obtain c3 where c3: "sample_chain True True c3"
    "run_perm sample_marshal q a (sample_perm True True ?k3) (sample_cfg [c1] [c2] [?k2, ?k1] q) = Inr (sample_cfg [c1, c3] [c2] [?k3, ?k2, ?k1] q)"
    using sample_perms(3) [of ?k3 "[?k2, ?k1]" q a c1 c2] by auto
  obtain c4 where c4: "sample_chain True False c4"
    "run_perm sample_marshal q a (sample_perm True False ?k4) (sample_cfg [c1, c3] [c2] [?k3, ?k2, ?k1] q) =
       Inr (sample_cfg [c1, c3] [c2, c4] [?k4, ?k3, ?k2, ?k1] q)"
    using sample_perms(4) [of ?k4 "[?k3, ?k2, ?k1]" q a c1 c3 c2] by auto
  have "run_perms sample_marshal q a (fst (derive sample_https_rules q)) (SetAdmin envoyAdmin NewEnvoyConfig) =
      Inr (sample_cfg [c1, c3] [c2, c4] [?k4, ?k3, ?k2, ?k1] q)"
    unfolding sample_perm_list s by (simp add: c1(2) c2(2) c3(2) c4(2))
  then show ?thesis using c1(1) c2(1) c3(1) c4(1) by blast
qed

lemma AddCluster_new:
  "cname cl \<noteq> [] \<Longrightarrow> map_of (clusters c) (cname cl) = None \<Longrightarrow> AddCluster cl c = Inr (c\<lparr>clusters := AList.update (cname cl) cl (clusters c)\<rparr>)"
  by (simp add: AddCluster_def Let_def cname_def)

lemma build_finishes:
  assumes "run_perms marshal p a perms (SetAdmin envoyAdmin NewEnvoyConfig) = Inr C"
    "map_of (clusters C) denyClusterName = None" "map_of (clusters C) otelCollectorALSClusterName = None"
    "map_of (listeners C) healthListenerName = None" "map_of (listeners C) egressListenerName = Some L"
  obtains c where "build_config marshal p a perms = Inr c"
    "map_of (listeners c) egressListenerName = Some (L\<lparr>defaultDeny := Some (denyDefaultFilterChain a)\<rparr>)"
proof -
  have n: "denyClusterName \<noteq> []" "otelCollectorALSClusterName \<noteq> []" "denyClusterName \<noteq> otelCollectorALSClusterName"
    by (simp_all add: denyClusterName_def otelCollectorALSClusterName_def)
  have h: "as_string (yget ''name'' (buildHealthListener q)) = healthListenerName" for q by (simp add: buildHealthListener_def)
  have hn: "healthListenerName \<noteq> []" "healthListenerName \<noteq> egressListenerName" by (simp_all add: healthListenerName_def egressListenerName_def)
  define C2 where "C2 = C\<lparr>clusters := AList.update denyClusterName buildDenyCluster (clusters C),
    listeners := AList.update egressListenerName (L\<lparr>defaultDeny := Some (denyDefaultFilterChain a)\<rparr>) (listeners C)\<rparr>"
  have s2: "installEgressDenyFloor a C = Inr C2"
    using assms n by (simp add: installEgressDenyFloor_def HasListener_def AddCluster_new SetUnmatchedDeny_def C2_def)
  define C3 where "C3 = (if MTLS a then C2\<lparr>clusters := AList.update otelCollectorALSClusterName (buildOtelALSCluster a) (clusters C2)\<rparr> else C2)"
  have s3: "installOtelALSCluster a C2 = Inr C3"
    using assms(3) n by (simp add: installOtelALSCluster_def AddCluster_new C2_def C3_def)
  define C4 where "C4 = (if HealthPort p \<le> 0 then C3 else add_listener healthListenerName (buildHealthListener (HealthPort p)) C3)"
  have s4: "installHealthListener p C3 = Inr C4"
    using assms(4) hn by (simp add: installHealthListener_def AddListener_def h C4_def C3_def C2_def)
  have "build_config marshal p a perms = Inr C4"
    using s2 s3 s4 assms(1) unfolding build_config_def by (simp add: HasListener_def C4_def add_listener_def)
  moreover have "map_of (listeners C4) egressListenerName = Some (L\<lparr>defaultDeny := Some (denyDefaultFilterChain a)\<rparr>)"
    using hn by (simp add: C4_def add_listener_def C3_def C2_def)
  ultimately show thesis by (rule that)
qed

lemma sample_built:
  obtains l c1 c3 where "sample_build = Inr sample_envoy" "map_of (listeners sample_envoy) egressListenerName = Some l"
    "chains l = [c1, c3]" "sample_chain False True c1" "sample_chain True True c3"
proof -
  obtain c1 c2 c3 c4 ks where c: "sample_chain False True c1" "sample_chain True True c3"
    "run_perms sample_marshal sample_ports sample_als (fst (derive sample_https_rules sample_ports)) (SetAdmin envoyAdmin NewEnvoyConfig) =
      Inr (sample_cfg [c1, c3] [c2, c4] ks sample_ports)" using sample_run by blast
  let ?C = "sample_cfg [c1, c3] [c2, c4] ks sample_ports" and ?L = "sample_listener True (EgressPort sample_ports) [c1, c3]"
  have f: "map_of (clusters ?C) denyClusterName = None" "map_of (clusters ?C) otelCollectorALSClusterName = None"
    "map_of (listeners ?C) healthListenerName = None" "map_of (listeners ?C) egressListenerName = Some ?L"
    by (simp_all add: sample_cfg_def denyClusterName_def otelCollectorALSClusterName_def egressListenerName_def
        egressQUICListenerName_def healthListenerName_def)
  obtain e where e: "sample_build = Inr e" "map_of (listeners e) egressListenerName = Some (?L\<lparr>defaultDeny := Some (denyDefaultFilterChain sample_als)\<rparr>)"
    using build_finishes [OF c(3) f] unfolding sample_build_def by blast
  moreover have "sample_envoy = e" unfolding sample_envoy_def e(1) by (rule sum.sel(2))
  moreover have "chains (?L\<lparr>defaultDeny := d\<rparr>) = [c1, c3]" for d by (simp add: sample_listener_def)
  ultimately show thesis using that [OF _ _ _ c(1,2)] by metis
qed

lemma sample_built_eq: "build_config sample_marshal sample_ports sample_als (fst (derive sample_https_rules sample_ports)) = Inr sample_envoy"
  using sample_built unfolding sample_build_def by metis

lemma sample_egress:
  obtains l where "map_of (listeners sample_envoy) egressListenerName = Some l" "length (chains l) = 2"
    "yget ''filter_chain_match'' (chains l ! 0) = Some (sample_match False True)" "isl (hcmVHosts (chains l ! 0)) = False"
proof -
  obtain l c1 c3 where l: "map_of (listeners sample_envoy) egressListenerName = Some l" "chains l = [c1, c3]" "sample_chain False True c1"
    using sample_built by metis
  show thesis by (rule that [OF l(1)]) (use l(2,3) in \<open>auto simp: sample_chain_def\<close>)
qed

section \<open>The theorems at the sample\<close>

theorem no_dangling_clusters_witness:
  "list_all (\<lambda>l. set (cluster_refs l) \<subseteq> cname ` set (clusterList sample_envoy)) (listenerList sample_envoy)"
  by (rule no_dangling_clusters [OF sample_built_eq])

theorem upstreams_authorised_witness: "list_all (authorised_upstream sample_https_rules sample_als) (clusterList sample_envoy)"
  by (rule upstreams_authorised [OF sample_built_eq])


theorem server_names_unambiguous_witness:
  "let l = the (map_of (listeners sample_envoy) egressListenerName) in
     \<forall>i < length (chains l). ''api.example.com'' \<in> set (match_names (chains l ! i)) \<longrightarrow> i = 0"
proof -
  obtain l where l: "map_of (listeners sample_envoy) egressListenerName = Some l" "length (chains l) = 2"
    "yget ''filter_chain_match'' (chains l ! 0) = Some (sample_match False True)" by (rule sample_egress)
  have "''api.example.com'' \<in> set (match_names (chains l ! 0))" by (simp add: match_names_def l(3) sample_match_def)
  then have "i = 0" if "i < length (chains l)" "''api.example.com'' \<in> set (match_names (chains l ! i))" for i
    using server_names_unambiguous [OF sample_valid sample_built_eq _ l(1) that(1) _ that(2)] l(2) by simp
  then show ?thesis using l(1) by simp
qed

theorem unlisted_hosts_denied_witness:
  "let ch = chains (the (map_of (listeners sample_envoy) egressListenerName)) ! 0 in
     \<exists>v \<in> set (projr (hcmVHosts ch)). deny_vhost v"
proof -
  obtain l where l: "map_of (listeners sample_envoy) egressListenerName = Some l" "length (chains l) = 2"
    "yget ''filter_chain_match'' (chains l ! 0) = Some (sample_match False True)" "isl (hcmVHosts (chains l ! 0)) = False" by (rule sample_egress)
  obtain vs where vs: "hcmVHosts (chains l ! 0) = Inr vs" using l(4) by (cases "hcmVHosts (chains l ! 0)") auto
  have ch: "chains l ! 0 \<in> set (chains l)" using l(2) by (intro nth_mem) simp
  have np: "\<not> by_prefix (yget ''filter_chain_match'' (chains l ! 0))" by (simp add: l(3) by_prefix_def sample_match_def)
  show ?thesis
    using unlisted_hosts_denied [OF sample_valid sample_marshal_faithful sample_built_eq _ l(1) ch np vs] l(1) vs by simp
qed

end
