(* ===== verification/Envoy_Aliases.thy ===== *)
theory Envoy_Aliases
  imports Envoy_Sample
begin

text \<open>
  A generation whose result Envoy refuses: two rules that spell one network differently share a filter
  chain, and the merge of their virtual hosts leaves two catch-alls.
\<close>

section \<open>Two spellings of one network\<close>

definition alias_rules :: "EgressRule list" where
  "alias_rules = [sample_https ''10.0.0.0/24'' ''allow'', sample_https ''10.0.0.5/24'' ''allow'']"

lemma parse_octets:
  "ParseAddr ''10.0.0.0'' = Some (V4 [10, 0, 0, 0])" "ParseAddr ''10.0.0.5'' = Some (V4 [10, 0, 0, 5])"
  "ParseAddr ''10.0.0.0/24'' = None" "ParseAddr ''10.0.0.5/24'' = None"
  by code_simp+

lemma alias_parse:
  "ParseCIDR ''10.0.0.0/24'' = Some (V4 [10, 0, 0, 0], 24)" "ParseCIDR ''10.0.0.5/24'' = Some (V4 [10, 0, 0, 5], 24)"
proof -
  have c: "cut_byte (CHR ''/'') ''10.0.0.0/24'' = Some (''10.0.0.0'', ''24'')" "cut_byte (CHR ''/'') ''10.0.0.5/24'' = Some (''10.0.0.5'', ''24'')" by code_simp+
  have d: "is_digit (CHR ''2'')" "is_digit (CHR ''4'')" "byte_of (CHR ''2'') = 50" "byte_of (CHR ''4'') = 52" by code_simp+
  show "ParseCIDR ''10.0.0.0/24'' = Some (V4 [10, 0, 0, 0], 24)" "ParseCIDR ''10.0.0.5/24'' = Some (V4 [10, 0, 0, 5], 24)"
    by (simp_all add: ParseCIDR_def c parse_octets d)
qed

lemma alias_prefix:
  "ipPrefixRange ''10.0.0.5/24'' = ipPrefixRange ''10.0.0.0/24''"
  by (simp add: ipPrefixRange_def alias_parse mask_ip_def enumerate_eq_zip)


lemma alias_names:
  "isCIDR ''10.0.0.0/24''" "isCIDR ''10.0.0.5/24''" "isIPOrCIDR ''10.0.0.0/24''" "isIPOrCIDR ''10.0.0.5/24''"
  "normalizeDomain ''10.0.0.0/24'' = ''10.0.0.0/24''" "normalizeDomain ''10.0.0.5/24'' = ''10.0.0.5/24''"
  "\<not> isWildcardDomain ''10.0.0.0/24''" "\<not> isWildcardDomain ''10.0.0.5/24''"
  by (simp_all add: isCIDR_def isIPOrCIDR_def ParseIP_def parse_octets alias_parse) code_simp+

lemma alias_valid: "\<forall>r \<in> set alias_rules. ValidateRule (\<lambda>_. True) r = None"
proof -
  have "validateActionField ''action'' ''allow'' = None" "validateActionField ''path_default'' [] = None" by code_simp+
  moreover have "ValidatePortSpec (sample_https d a) = None" for d a by (simp add: ValidatePortSpec_def sample_https_def)
  moreover have "ValidateDst ''10.0.0.0/24'' = None" "ValidateDst ''10.0.0.5/24'' = None"
    by (simp_all add: ValidateDst_def Let_def alias_names HasPrefix_def)
  ultimately show ?thesis by (simp add: alias_rules_def ValidateRule_def)
qed

lemma alias_step:
  assumes "normalizeDomain d = d" "\<not> isWildcardDomain d"
  shows "fact_step g (sample_https d ''allow'') = g\<lparr>explicitBaseOrigins := (d @ '':443'') # explicitBaseOrigins g, httpsExactDomains := d # httpsExactDomains g\<rparr>"
  using assms by (simp add: fact_step_def sample_allowed sample_names sample_origin)

lemma alias_mappings: "TCPMappings alias_rules q = []" "UDPMappings alias_rules q = []"
  by (simp_all add: TCPMappings_def UDPMappings_def dedicatedMappings_def alias_rules_def sample_names)

definition alias_gen :: genFacts where
  "alias_gen = \<lparr>httpDFPActive = False, httpsExactDomains = [''10.0.0.5/24'', ''10.0.0.0/24''], wsOrigins = [],
      explicitBaseOrigins = [''10.0.0.5/24:443'', ''10.0.0.0/24:443''], tcpListenerPorts = [], udpListenerPorts = []\<rparr>"

lemma alias_facts: "deriveGenFacts alias_rules q = alias_gen"
  by (simp add: deriveGenFacts_def alias_mappings port_table_def alias_gen_def) (simp add: alias_rules_def alias_step alias_names)

definition alias_layers :: "layer list" where
  "alias_layers = [tlsSNIChainLayer (httpsExactDomains alias_gen), httpsOriginalDstUpstreamLayer, httpAppLayer noDFP]"

lemma alias_layersFor: "isCIDR d \<Longrightarrow> layersFor (sample_https d a) alias_gen = Some [alias_layers]"
  by (simp add: layersFor_def sample_names withWS_def Let_def alias_layers_def) (simp add: alias_gen_def)

lemma alias_derive:
  "fst (derive alias_rules q) = rule_perms (sample_https ''10.0.0.0/24'' ''allow'') [alias_layers] @ rule_perms (sample_https ''10.0.0.5/24'' ''allow'') [alias_layers]"
  unfolding derive_def alias_facts
  by (simp add: alias_rules_def isDenyAction_def sample_names alias_names alias_layersFor split_beta Let_def)


definition alias_match :: yaml where
  "alias_match = YMap [(''prefix_ranges'', YList [ipPrefixRange ''10.0.0.0/24'']), (''destination_port'', YInt 443)]"

lemma alias_crypto:
  "downstreamCryptoMatch (sample_https ''10.0.0.0/24'' a) ex b = (alias_match, False, True)"
  "downstreamCryptoMatch (sample_https ''10.0.0.5/24'' a) ex b = (alias_match, False, True)"
  by (simp_all add: downstreamCryptoMatch_def alias_names alias_match_def alias_prefix httpsPort_def sample_port)

definition catch_all_chain :: "string \<Rightarrow> yaml \<Rightarrow> bool" where
  "catch_all_chain n ch \<longleftrightarrow>
     yget ''filter_chain_match'' ch = Some alias_match \<and>
     (\<exists>v. hcmVHosts ch = Inr [v] \<and> vhost_domains v = [''*''] \<and> vhost_name v = n)"

lemma catch_all_chainI:
  assumes "chain_match ctx = Some alias_match" "filters ctx = [hcm_filter (httpHCM ct tt fs a [rule_vhost ctx' [''*'']] ws)]"
    "n = virtualHostName (Dst (crule ctx')) (cport ctx')"
  shows "catch_all_chain n (ctx_chain ctx)"
proof -
  have "hcmVHosts (ctx_chain ctx) = Inr [rule_vhost ctx' [''*'']]"
    using assms(2) hcm_vhosts by (simp add: hcmVHosts_single ctx_chain_def) (simp add: hcm_filter_def)
  then show ?thesis using assms(1,3) by (simp add: catch_all_chain_def ctx_chain_match rule_vhost_def vhost_domains_def vhost_name_def)
qed

lemma alias_vhosts: "virtualHostName ''10.0.0.0/24'' 443 = ''10_0_0_0_24_443''" "virtualHostName ''10.0.0.5/24'' 443 = ''10_0_0_5_24_443''"
  "tlsOriginalDstName ''10.0.0.0/24'' 443 = ''tls_origdst_10_0_0_0_24_443''" "tlsOriginalDstName ''10.0.0.5/24'' 443 = ''tls_origdst_10_0_0_5_24_443''"
  by (simp_all add: virtualHostName_def tlsOriginalDstName_def host_name_def alias_names sanitizeName_def sample_names)

definition alias_base :: "EnvoyPorts \<Rightarrow> yaml" where
  "alias_base q = YMap [(''name'', YStr egressListenerName), (''address'', YMap [(''socket_address'', YMap
     [(''address'', YStr defaultBindAddress), (''port_value'', YInt (EgressPort q))])]), (''use_original_dst'', YBool True)]"

definition alias_cluster :: "string \<Rightarrow> string \<times> yaml" where
  "alias_cluster n = (n, decorateReencrypt False False (originalDstCluster n))"

definition alias_cfg :: "yaml \<Rightarrow> string list \<Rightarrow> string list \<Rightarrow> EnvoyPorts \<Rightarrow> EnvoyConfig" where
  "alias_cfg ch ns ks q =
     \<lparr>admin = Some envoyAdmin,
      listeners = [(egressListenerName, \<lparr>base = alias_base q, chains = [ch], chainBySig = [(print_yaml (canon alias_match), 0)], defaultDeny = None\<rparr>)],
      clusters = map alias_cluster ns, seenPerms = ks\<rparr>"

lemma alias_cnames: "cname (decorateReencrypt i w (originalDstCluster n)) = n"
  by (simp add: cname_def decorateReencrypt_def originalDstCluster_def)

lemmas alias_eval =
  run_perm_def ClaimPermutation_def alias_layers_def alias_cfg_def alias_base_def alias_cluster_def alias_cnames
  new_ctx_def tlsSNIChainLayer_def Let_def alias_crypto EnsureListener_def HasListener_def add_listener_def new_listener_def
  SetListenerField_def httpsOriginalDstUpstreamLayer_def use_cluster_def alias_names httpAppLayer_def sample_listener_names
  commit_def AddCluster_def cname_def [symmetric] addChain_def ctx_chain_match sample_sig(1) httpsPort_def sample_port alias_vhosts

lemma alias_first:
  "\<exists>ch. catch_all_chain ''10_0_0_0_24_443'' ch \<and>
     run_perm sample_marshal q a \<lparr>prule = sample_https ''10.0.0.0/24'' ''allow'', layers = alias_layers, key = k\<rparr> (SetAdmin envoyAdmin NewEnvoyConfig) =
       Inr (alias_cfg ch [''tls_origdst_10_0_0_0_24_443''] [k] q)"
  apply (simp add: alias_eval SetAdmin_def NewEnvoyConfig_def split del: if_split)
  apply (rule catch_all_chainI, simp, simp, simp add: alias_vhosts)
  done

lemma alias_second:
  assumes "k \<noteq> k'"
  shows "\<exists>ch. catch_all_chain ''10_0_0_5_24_443'' ch \<and>
     run_perm sample_marshal q a \<lparr>prule = sample_https ''10.0.0.5/24'' ''allow'', layers = alias_layers, key = k'\<rparr>
       (alias_cfg c1 [''tls_origdst_10_0_0_0_24_443''] [k] q) =
       (case mergeHCMVHosts c1 ch of
          Inl e \<Rightarrow> Inl (DuplicateMatch egressListenerName (print_yaml (canon alias_match)) e)
        | Inr m \<Rightarrow> Inr (alias_cfg m [''tls_origdst_10_0_0_0_24_443'', ''tls_origdst_10_0_0_5_24_443''] [k', k] q))"
  using assms
  apply (simp add: alias_eval cong: sum.case_cong split del: if_split)
  apply (intro exI conjI)
   prefer 2 apply (rule refl)
  apply (rule catch_all_chainI, simp, simp, simp add: alias_vhosts)
  done

lemma alias_merge:
  assumes "catch_all_chain n c1" "catch_all_chain n' c2" "n \<noteq> n'"
  obtains m where "mergeHCMVHosts c1 c2 = Inr m" "\<exists>v w. hcmVHosts m = Inr [v, w] \<and> vhost_domains v = [''*''] \<and> vhost_domains w = [''*''] \<and> v \<noteq> w"
proof -
  obtain v where v: "hcmVHosts c1 = Inr [v]" "vhost_domains v = [''*'']" "vhost_name v = n" using assms(1) by (auto simp: catch_all_chain_def)
  obtain w where w: "hcmVHosts c2 = Inr [w]" "vhost_domains w = [''*'']" "vhost_name w = n'" using assms(2) by (auto simp: catch_all_chain_def)
  obtain m where m: "mergeHCMVHosts c1 c2 = Inr m" using v(1) w(1) by (simp add: mergeHCMVHosts_def)
  have "hcmVHosts m = Inr [v, w]" using merged_vhosts [OF m v(1) _ w(1)] v(3) w(3) assms(3) by simp
  then show thesis using that [OF m] v w assms(3) by blast
qed


lemma alias_run:
  obtains c l m where "build_config sample_marshal q a (fst (derive alias_rules q)) = Inr c" "map_of (listeners c) egressListenerName = Some l"
    "chains l = [m]" "\<exists>v w. hcmVHosts m = Inr [v, w] \<and> vhost_domains v = [''*''] \<and> vhost_domains w = [''*''] \<and> v \<noteq> w"
proof -
  let ?k = "perm_key (sample_https ''10.0.0.0/24'' ''allow'') 0" and ?k' = "perm_key (sample_https ''10.0.0.5/24'' ''allow'') 0"
  let ?n = "''tls_origdst_10_0_0_0_24_443''" and ?n' = "''tls_origdst_10_0_0_5_24_443''"
  have k: "?k \<noteq> ?k'" by (simp add: perm_key_def)
  obtain c1 where c1: "catch_all_chain ''10_0_0_0_24_443'' c1"
    "run_perm sample_marshal q a \<lparr>prule = sample_https ''10.0.0.0/24'' ''allow'', layers = alias_layers, key = ?k\<rparr> (SetAdmin envoyAdmin NewEnvoyConfig) =
       Inr (alias_cfg c1 [?n] [?k] q)" using alias_first by blast
  obtain c2 where c2: "catch_all_chain ''10_0_0_5_24_443'' c2"
    "run_perm sample_marshal q a \<lparr>prule = sample_https ''10.0.0.5/24'' ''allow'', layers = alias_layers, key = ?k'\<rparr> (alias_cfg c1 [?n] [?k] q) =
       (case mergeHCMVHosts c1 c2 of
          Inl e \<Rightarrow> Inl (DuplicateMatch egressListenerName (print_yaml (canon alias_match)) e)
        | Inr m \<Rightarrow> Inr (alias_cfg m [?n, ?n'] [?k', ?k] q))" using alias_second [OF k] by blast
  obtain m where m: "mergeHCMVHosts c1 c2 = Inr m" "\<exists>v w. hcmVHosts m = Inr [v, w] \<and> vhost_domains v = [''*''] \<and> vhost_domains w = [''*''] \<and> v \<noteq> w"
    by (rule alias_merge [OF c1(1) c2(1)]) simp
  let ?C = "alias_cfg m [?n, ?n'] [?k', ?k] q"
  let ?L = "\<lparr>base = alias_base q, chains = [m], chainBySig = [(print_yaml (canon alias_match), 0)], defaultDeny = None\<rparr>"
  have r: "run_perms sample_marshal q a (fst (derive alias_rules q)) (SetAdmin envoyAdmin NewEnvoyConfig) = Inr ?C"
    unfolding alias_derive rule_perms_def by (simp add: c1(2) c2(2) m(1))
  have f: "map_of (clusters ?C) denyClusterName = None" "map_of (clusters ?C) otelCollectorALSClusterName = None"
    "map_of (listeners ?C) healthListenerName = None" "map_of (listeners ?C) egressListenerName = Some ?L"
    by (simp_all add: alias_cfg_def alias_cluster_def denyClusterName_def otelCollectorALSClusterName_def healthListenerName_def egressListenerName_def)
  show thesis by (rule build_finishes [OF r f], rule that, assumption, assumption) (use m(2) in simp_all)
qed

lemma alias_layout: "layout_checks alias_rules sample_ports = None"
proof -
  have "EnvoyPorts_Validate sample_ports = None" by code_simp
  moreover have "checkProtoCollisions alias_rules = None"
  proof -
    have "pairs (stack_protos alias_rules h) = []" for h
      by (cases "builds_stack (sample_https ''10.0.0.0/24'' ''allow'')"; cases "builds_stack (sample_https ''10.0.0.5/24'' ''allow'')")
        (auto simp: stack_protos_def alias_rules_def)
    then show ?thesis by (simp add: checkProtoCollisions_def first_error_None)
  qed
  moreover have "checkOpaquePortActionConflicts alias_rules = None"
  proof -
    have "action_spans d alias_rules k = []" for d k by (simp add: action_spans_def alias_rules_def sample_names)
    then show ?thesis by (simp add: checkOpaquePortActionConflicts_def conflict_keys_def)
  qed
  moreover have "validateDedicatedLayout alias_rules sample_ports = None" by (simp add: validateDedicatedLayout_def alias_mappings Let_def)
  moreover have "validateProtoDstSupport alias_rules = None" by (simp add: validateProtoDstSupport_def alias_rules_def sample_names)
  ultimately show ?thesis by (simp add: layout_checks_def)
qed


text \<open>Theorem: two spellings of one network break the chain they share. The rules \<open>10.0.0.0/24\<close> and
  \<open>10.0.0.5/24\<close> over HTTPS are accepted, the layout checks pass and the generator finishes, but both build
  the chain for \<open>10.0.0.0/24\<close>: the merge leaves one chain with two different virtual hosts whose only
  domain is \<open>*\<close>, which Envoy refuses.\<close>

theorem cidr_aliases_two_catchalls:
  "list_all (\<lambda>r. ValidateRule (\<lambda>_. True) r = None) alias_rules \<and> layout_checks alias_rules sample_ports = None \<and>
   (\<exists>c l m v w. build_config sample_marshal sample_ports a (fst (derive alias_rules sample_ports)) = Inr c \<and>
      map_of (listeners c) egressListenerName = Some l \<and> chains l = [m] \<and>
      hcmVHosts m = Inr [v, w] \<and> vhost_domains v = [''*''] \<and> vhost_domains w = [''*''] \<and> v \<noteq> w)"
  unfolding list_all_iff using alias_valid alias_layout alias_run [of sample_ports a] by metis

end
