(* ===== verification/Host_Egress.thy ===== *)
theory Host_Egress
  imports Rules_Store
begin

text \<open>
  The host proxy's check of browser URLs, \<open>internal/hostproxy/egress_check.go\<close>: a second
  evaluator of the egress rules file that has to agree with the firewall. It re-declares the rule
  type, the port-spec parser, the normalisation and the path default; the theorems state where the
  copies agree with the originals, that path canonicalisation leaves no way out of an allowed
  prefix, and what the verdict is.

  The standard library's \<open>path.Clean\<close>, \<open>netip.ParseAddr\<close>, \<open>netip.ParsePrefix\<close> and
  \<open>Prefix.Contains\<close> are modelled. The parsed URL, the contents of the rules file and the regular
  expression engine (a compiled pattern is its matcher) are arguments.
\<close>

section \<open>path.Clean\<close>

fun backtrack :: "nat \<Rightarrow> string \<Rightarrow> nat \<Rightarrow> string" where
  "backtrack dotdot out w =
     (if w > dotdot \<and> out ! w \<noteq> CHR ''/'' then backtrack dotdot out (w - 1) else take w out)"

declare backtrack.simps [simp del]

definition at_end :: "string \<Rightarrow> bool" where
  "at_end rest \<longleftrightarrow> rest = [] \<or> hd rest = CHR ''/''"

function clean_loop :: "bool \<Rightarrow> nat \<Rightarrow> string \<Rightarrow> string \<Rightarrow> string" where
  "clean_loop rooted dotdot out [] = out"
| "clean_loop rooted dotdot out (c # rest) =
     (if c = CHR ''/'' then clean_loop rooted dotdot out rest
      else if c = CHR ''.'' \<and> at_end rest then clean_loop rooted dotdot out rest
      else if c = CHR ''.'' \<and> rest \<noteq> [] \<and> hd rest = CHR ''.'' \<and> at_end (tl rest) then
        (if length out > dotdot then
           clean_loop rooted dotdot (backtrack dotdot out (length out - 1)) (tl rest)
         else if \<not> rooted then
           (let out' = (if out \<noteq> [] then out @ ''/'' else out) @ ''..''
            in clean_loop rooted (length out') out' (tl rest))
         else clean_loop rooted dotdot out (tl rest))
      else
        (let out1 = (if rooted \<and> length out \<noteq> 1 \<or> \<not> rooted \<and> out \<noteq> [] then out @ ''/'' else out);
             elem = takeWhile (\<lambda>x. x \<noteq> CHR ''/'') (c # rest)
         in clean_loop rooted dotdot (out1 @ elem) (dropWhile (\<lambda>x. x \<noteq> CHR ''/'') rest)))"
  by pat_completeness auto
termination
proof (relation "measure (\<lambda>(rooted, dotdot, out, rest). length rest)", goal_cases)
  case (7 rooted dotdot out c rest)
  then show ?case using length_dropWhile_le [of "\<lambda>x. x \<noteq> CHR ''/''" rest] by (simp add: le_imp_less_Suc)
qed (auto simp: le_imp_less_Suc)

definition path_Clean :: "string \<Rightarrow> string" where
  "path_Clean p =
     (if p = [] then ''.''
      else
        (let rooted = (hd p = CHR ''/'');
             out = (if rooted then clean_loop True 1 ''/'' (tl p) else clean_loop False 0 [] p)
         in if out = [] then ''.'' else out))"

section \<open>netip.ParsePrefix\<close>

text \<open>Cut at the last separator.\<close>

definition cut_last :: "char \<Rightarrow> string \<Rightarrow> (string \<times> string) option" where
  "cut_last x s = map_option (\<lambda>(a, b). (rev b, rev a)) (cut_byte x (rev s))"

definition ParsePrefix :: "string \<Rightarrow> (ip_addr \<times> nat) option" where
  "ParsePrefix s =
     (case cut_last (CHR ''/'') s of
        None \<Rightarrow> None
      | Some (addr, bits) \<Rightarrow>
          (case netip_ParseAddr addr of
             None \<Rightarrow> None
           | Some (a, zone) \<Rightarrow>
               if zone \<noteq> [] then None
               else if length bits > 1 \<and> (hd bits = CHR ''0'' \<or> \<not> is_digit (hd bits)) then None
               else
                 (case Atoi bits of
                    None \<Rightarrow> None
                  | Some n \<Rightarrow> if n < 0 \<or> n > int (BitLen a) then None else Some (a, nat n))))"

definition byte_bits :: "nat \<Rightarrow> bool list" where
  "byte_bits b = map (\<lambda>i. odd (b div 2 ^ i)) [7, 6, 5, 4, 3, 2, 1, 0]"

fun addr_bytes :: "ip_addr \<Rightarrow> nat list" where
  "addr_bytes (V4 b) = b"
| "addr_bytes (V6 b) = b"

definition prefix_contains :: "ip_addr \<times> nat \<Rightarrow> ip_addr \<times> string \<Rightarrow> bool" where
  "prefix_contains p ip \<longleftrightarrow>
     snd ip = [] \<and> BitLen (fst p) = BitLen (fst ip) \<and>
     take (snd p) (concat (map byte_bits (addr_bytes (fst p)))) =
     take (snd p) (concat (map byte_bits (addr_bytes (fst ip))))"

section \<open>Rules\<close>

record pathRule =
  LPath :: string
  LPathAction :: string

record egressRule =
  LDst :: string
  LProto :: string
  LPort :: string
  LAction :: string
  LPathRules :: "pathRule list"
  LPathDefault :: string

type_synonym matcher = "string \<Rightarrow> bool"

datatype check_error =
    InvalidURL string | UnsupportedScheme string | UserinfoNotAllowed | OpaqueNotAllowed | NoHost
  | InvalidPort string | RulesInvalid string | DomainDenied string | NotInAllowList string
  | PathDenied string string

definition normalizeEgressRule :: "egressRule \<Rightarrow> egressRule" where
  "normalizeEgressRule r0 =
     (let r1 = (if EqualFold (LProto r0) ''tls'' then r0\<lparr>LProto := ''https''\<rparr> else r0);
          r2 = (if LProto r1 = [] then r1\<lparr>LProto := ''https''\<rparr> else r1);
          r3 = (if LAction r2 = [] then r2\<lparr>LAction := ''allow''\<rparr> else r2)
      in if LPort r3 = [] then
           (if ToLower (LProto r3) = ''https'' then r3\<lparr>LPort := ''443''\<rparr>
            else if ToLower (LProto r3) = ''http'' then r3\<lparr>LPort := ''80''\<rparr>
            else if ToLower (LProto r3) = ''ssh'' then r3\<lparr>LPort := ''22''\<rparr>
            else r3)
         else r3)"

definition hp_parsePortNumber :: "string \<Rightarrow> int option" where
  "hp_parsePortNumber s =
     (case Atoi (TrimSpace s) of
        None \<Rightarrow> None
      | Some n \<Rightarrow> if n < 1 \<or> n > 65535 then None else Some n)"

definition parsePortSpec :: "string \<Rightarrow> (int \<times> int) option" where
  "parsePortSpec spec0 =
     (let spec = TrimSpace spec0 in
      if spec = [] then None
      else
        (case cut_byte (CHR ''-'') spec of
           Some (left, right) \<Rightarrow>
             (case (hp_parsePortNumber left, hp_parsePortNumber right) of
                (Some l, Some h) \<Rightarrow> if l > h then None else Some (l, h)
              | _ \<Rightarrow> None)
         | None \<Rightarrow>
             (case hp_parsePortNumber spec of
                None \<Rightarrow> None
              | Some n \<Rightarrow> Some (n, n))))"

definition portSpecMatches :: "string \<Rightarrow> int \<Rightarrow> bool" where
  "portSpecMatches spec p = (case parsePortSpec spec of None \<Rightarrow> False | Some (lo, hi) \<Rightarrow> p \<ge> lo \<and> p \<le> hi)"

section \<open>Matching destinations\<close>

datatype matchKind = matchNone | matchWildcard | matchExact

definition domainMatchType :: "string \<Rightarrow> string \<Rightarrow> matchKind" where
  "domainMatchType dst0 host0 =
     (let dst = ToLower (TrimSuffix dst0 ''.''); host = ToLower (TrimSuffix host0 ''.'') in
      if \<not> HasPrefix dst ''.'' then (if dst = host then matchExact else matchNone)
      else
        (let bare = drop 1 dst in
         if HasSuffix host dst then matchWildcard
         else if host = bare then matchWildcard
         else matchNone))"

definition dstMatchType :: "string \<Rightarrow> string \<Rightarrow> matchKind" where
  "dstMatchType dst host =
     (if CHR ''/'' \<in> set dst then
        (case ParsePrefix dst of
           None \<Rightarrow> matchNone
         | Some p \<Rightarrow>
             (case netip_ParseAddr host of
                None \<Rightarrow> matchNone
              | Some ip \<Rightarrow> if prefix_contains p ip then matchExact else matchNone))
      else
        (case netip_ParseAddr dst of
           Some dstIP \<Rightarrow> if netip_ParseAddr host = Some dstIP then matchExact else matchNone
         | None \<Rightarrow> domainMatchType dst host))"

section \<open>Path rules\<close>

definition compilePathRegex :: "(string \<Rightarrow> matcher option) \<Rightarrow> string \<Rightarrow> (matcher option \<times> bool \<times> bool)" where
  "compilePathRegex compile rulePath =
     (if \<not> HasPrefix rulePath regexPathMarker then (None, False, False)
      else
        (let rx = drop (length regexPathMarker) rulePath in
         (case compile (''^(?:'' @ TrimPrefix rx ''^'' @ '')$'') of
            None \<Rightarrow> (None, True, True)
          | Some re \<Rightarrow> (Some re, True, False))))"

definition pathRuleMatches :: "(string \<Rightarrow> matcher option) \<Rightarrow> string \<Rightarrow> string \<Rightarrow> bool" where
  "pathRuleMatches compile rulePath urlPath =
     (case compilePathRegex compile rulePath of
        (re, isRegex, failed) \<Rightarrow>
          if \<not> isRegex then HasPrefix urlPath rulePath
          else (case re of None \<Rightarrow> False | Some match \<Rightarrow> match urlPath))"

definition effectivePathDefault :: "pathRule list \<Rightarrow> string \<Rightarrow> string" where
  "effectivePathDefault rules pathDefault =
     (if pathDefault \<noteq> [] then pathDefault
      else if list_ex (\<lambda>pr. EqualFold (LPathAction pr) ''allow'') rules then ''deny''
      else ''allow'')"

definition path_step :: "(string \<Rightarrow> matcher option) \<Rightarrow> string \<Rightarrow> int \<times> string \<Rightarrow> pathRule \<Rightarrow> int \<times> string" where
  "path_step compile urlPath best pr =
     (if LPath pr = [] then best
      else if pathRuleMatches compile (LPath pr) urlPath \<and> int (length (LPath pr)) > fst best
      then (int (length (LPath pr)), LPathAction pr)
      else best)"

definition checkPathRules ::
  "(string \<Rightarrow> matcher option) \<Rightarrow> pathRule list \<Rightarrow> string \<Rightarrow> string \<Rightarrow> string \<Rightarrow> check_error option" where
  "checkPathRules compile rules pathDefault host urlPath =
     (let action = snd (foldl (path_step compile urlPath) (-1, []) rules);
          action = (if action = [] then effectivePathDefault rules pathDefault else action)
      in if \<not> EqualFold action ''allow'' then Some (PathDenied urlPath host) else None)"

definition evaluateRule :: "(string \<Rightarrow> matcher option) \<Rightarrow> egressRule \<Rightarrow> string \<Rightarrow> string \<Rightarrow> check_error option" where
  "evaluateRule compile r host urlPath =
     (if \<not> EqualFold (LAction r) ''allow'' then Some (DomainDenied host)
      else if LPathRules r \<noteq> [] then checkPathRules compile (LPathRules r) (LPathDefault r) host urlPath
      else None)"

section \<open>The verdict\<close>

record tiers =
  exactAllow :: "egressRule option"
  wildcardAllow :: "egressRule option"
  exactDeny :: bool
  wildcardDeny :: bool

definition keep_first :: "'a option \<Rightarrow> 'a \<Rightarrow> 'a option" where
  "keep_first old new = (case old of None \<Rightarrow> Some new | Some x \<Rightarrow> Some x)"

definition tier_step :: "string \<Rightarrow> string \<Rightarrow> int \<Rightarrow> tiers \<Rightarrow> egressRule \<Rightarrow> tiers" where
  "tier_step host proto port t r0 =
     (let r = normalizeEgressRule r0 in
      if \<not> EqualFold (LProto r) proto \<or> \<not> portSpecMatches (LPort r) port then t
      else
        (case dstMatchType (LDst r) host of
           matchExact \<Rightarrow>
             if EqualFold (LAction r) ''allow'' then t\<lparr>exactAllow := keep_first (exactAllow t) r\<rparr>
             else t\<lparr>exactDeny := True\<rparr>
         | matchWildcard \<Rightarrow>
             if EqualFold (LAction r) ''allow'' then t\<lparr>wildcardAllow := keep_first (wildcardAllow t) r\<rparr>
             else t\<lparr>wildcardDeny := True\<rparr>
         | matchNone \<Rightarrow> t))"

definition matchRules ::
  "(string \<Rightarrow> matcher option) \<Rightarrow> egressRule list \<Rightarrow> string \<Rightarrow> string \<Rightarrow> int \<Rightarrow> string \<Rightarrow> check_error option" where
  "matchRules compile rules host proto port urlPath =
     (let t = foldl (tier_step host proto port)
                \<lparr>exactAllow = None, wildcardAllow = None, exactDeny = False, wildcardDeny = False\<rparr> rules
      in if exactDeny t then Some (DomainDenied host)
         else
           (case exactAllow t of
              Some r \<Rightarrow> evaluateRule compile r host urlPath
            | None \<Rightarrow>
                if wildcardDeny t then Some (DomainDenied host)
                else
                  (case wildcardAllow t of
                     Some r \<Rightarrow> evaluateRule compile r host urlPath
                   | None \<Rightarrow> Some (NotInAllowList host))))"

section \<open>URLs\<close>

definition endsInDirectory :: "string \<Rightarrow> bool" where
  "endsInDirectory p \<longleftrightarrow> HasSuffix p ''/'' \<or> HasSuffix p ''/.'' \<or> HasSuffix p ''/..''"

definition canonicalizePath :: "string \<Rightarrow> string" where
  "canonicalizePath p0 =
     (if p0 = [] then ''/''
      else
        (let p = replace_byte (CHR 0x5C) ''/'' p0; cleaned = path_Clean p
         in if endsInDirectory p \<and> \<not> HasSuffix cleaned ''/'' then cleaned @ ''/'' else cleaned))"

definition schemeToProto :: "string \<Rightarrow> check_error + (string \<times> int)" where
  "schemeToProto scheme =
     (if ToLower scheme = ''https'' then Inr (''https'', 443)
      else if ToLower scheme = ''http'' then Inr (''http'', 80)
      else Inl (UnsupportedScheme scheme))"

definition readEgressRules ::
  "(string \<Rightarrow> matcher option) \<Rightarrow> string + egressRule list \<Rightarrow> check_error + egressRule list" where
  "readEgressRules compile file =
     (case file of
        Inl e \<Rightarrow> Inl (RulesInvalid e)
      | Inr rules \<Rightarrow>
          (case filter (\<lambda>pr. snd (snd (compilePathRegex compile (LPath pr)))) (concat (map LPathRules rules)) of
             [] \<Rightarrow> Inr rules
           | pr # _ \<Rightarrow> Inl (RulesInvalid (LPath pr))))"

record URL =
  Scheme :: string
  HasUser :: bool
  Opaque :: string
  Hostname :: string
  UPort :: string
  UPath :: string

definition CheckURLAgainstEgressRules ::
  "(string \<Rightarrow> matcher option) \<Rightarrow> string + URL \<Rightarrow> string + egressRule list \<Rightarrow> check_error option" where
  "CheckURLAgainstEgressRules compile parsed file =
     (case parsed of
        Inl e \<Rightarrow> Some (InvalidURL e)
      | Inr u \<Rightarrow>
          (case schemeToProto (Scheme u) of
             Inl e \<Rightarrow> Some e
           | Inr (proto, defaultPort) \<Rightarrow>
               if HasUser u then Some UserinfoNotAllowed
               else if Opaque u \<noteq> [] then Some OpaqueNotAllowed
               else if Hostname u = [] then Some NoHost
               else
                 (case (if UPort u = [] then Some defaultPort else Atoi (UPort u)) of
                    None \<Rightarrow> Some (InvalidPort (UPort u))
                  | Some port \<Rightarrow>
                      (case readEgressRules compile file of
                         Inl e \<Rightarrow> Some e
                       | Inr rules \<Rightarrow>
                           matchRules compile rules (Hostname u) proto port (canonicalizePath (UPath u))))))"

definition validateEgressRulesFile ::
  "(string \<Rightarrow> matcher option) \<Rightarrow> string \<Rightarrow> (string \<Rightarrow> string + egressRule list) \<Rightarrow> check_error option" where
  "validateEgressRulesFile compile filePath read =
     (if filePath = [] then None
      else (case readEgressRules compile (read filePath) of Inl e \<Rightarrow> Some e | Inr _ \<Rightarrow> None))"

section \<open>path.Clean resolves the segments\<close>

text \<open>A rooted path is its list of segments; empty and dot segments vanish, dot-dot removes the last.\<close>

definition seg_step :: "string list \<Rightarrow> string \<Rightarrow> string list" where
  "seg_step st s = (if s = [] \<or> s = ''.'' then st else if s = ''..'' then butlast st else st @ [s])"

definition good_segs :: "string list \<Rightarrow> bool" where
  "good_segs st \<longleftrightarrow> list_all (\<lambda>s. s \<noteq> [] \<and> s \<noteq> ''.'' \<and> s \<noteq> ''..'' \<and> CHR ''/'' \<notin> set s) st"

lemma good_segs_snoc [simp]:
  "good_segs (st @ [s]) \<longleftrightarrow> good_segs st \<and> s \<noteq> [] \<and> s \<noteq> ''.'' \<and> s \<noteq> ''..'' \<and> CHR ''/'' \<notin> set s"
  "good_segs []"
  by (auto simp: good_segs_def)

lemma good_segs_butlast: "good_segs st \<Longrightarrow> good_segs (butlast st)"
  by (cases st rule: rev_cases) auto

lemma split_on_no_sep: "s \<in> set (split_on x t) \<Longrightarrow> x \<notin> set s"
  by (induction x t arbitrary: s rule: split_on.induct) (auto split: list.splits if_splits)

lemma seg_steps_good: "good_segs st \<Longrightarrow> \<forall>s \<in> set segs. CHR ''/'' \<notin> set s \<Longrightarrow> good_segs (foldl seg_step st segs)"
  by (induction segs arbitrary: st) (auto simp: seg_step_def good_segs_butlast)

lemma Join_Nil_iff: "good_segs st \<Longrightarrow> Join st ''/'' = [] \<longleftrightarrow> st = []"
  by (cases st rule: rev_cases) (auto simp: Join_snoc)

lemma backtrack_run:
  assumes "\<forall>i. k < i \<and> i \<le> w \<longrightarrow> out ! i \<noteq> CHR ''/''" "d \<le> k" "k \<le> w" "k = d \<or> out ! k = CHR ''/''"
  shows "backtrack d out w = take k out"
  using assms
proof (induction w)
  case 0
  then show ?case by (subst backtrack.simps) auto
next
  case (Suc w)
  show ?case
  proof (cases "k = Suc w")
    case True
    then show ?thesis using Suc.prems by (auto simp: backtrack.simps [of d out "Suc w"])
  next
    case False
    then have "backtrack d out (Suc w) = backtrack d out w"
      using Suc.prems by (simp add: backtrack.simps [of d out "Suc w"])
    then show ?thesis using Suc.IH Suc.prems False by simp
  qed
qed

lemma backtrack_Join:
  assumes "good_segs st" "st \<noteq> []"
  shows "backtrack 1 (CHR ''/'' # Join st ''/'') (length (Join st ''/'')) = CHR ''/'' # Join (butlast st) ''/''"
proof -
  obtain xs s where st: "st = xs @ [s]" using assms(2) by (cases st rule: rev_cases) auto
  have s: "CHR ''/'' \<notin> set s" "s \<noteq> []" using assms(1) st by simp_all
  let ?out = "CHR ''/'' # Join st ''/''"
  show ?thesis
  proof (cases "xs = []")
    case True
    have "backtrack 1 ?out (length (Join st ''/'')) = take 1 ?out"
    proof (rule backtrack_run)
      show "\<forall>i. 1 < i \<and> i \<le> length (Join st ''/'') \<longrightarrow> ?out ! i \<noteq> CHR ''/''"
        using s True st by (auto simp: nth_Cons split: nat.splits) (metis Suc_le_lessD nth_mem)
    qed (use s True st in \<open>simp_all add: Suc_leI\<close>)
    then show ?thesis using True st by simp
  next
    case False
    let ?k = "Suc (length (Join xs ''/''))"
    have out: "?out = (CHR ''/'' # Join xs ''/'') @ CHR ''/'' # s" using False st by (simp add: Join_snoc)
    have len: "length (Join st ''/'') = ?k + length s" using False st by (simp add: Join_snoc)
    have "backtrack 1 ?out (length (Join st ''/'')) = take ?k ?out"
    proof (rule backtrack_run)
      show "\<forall>i. ?k < i \<and> i \<le> length (Join st ''/'') \<longrightarrow> ?out ! i \<noteq> CHR ''/''"
      proof (intro allI impI)
        fix i assume i: "?k < i \<and> i \<le> length (Join st ''/'')"
        then obtain j where j: "i = Suc ?k + j" by (metis less_iff_Suc_add add_Suc)
        then have "j < length s" using i len by simp
        moreover have "?out ! i = s ! j" unfolding out j by (simp add: nth_append)
        ultimately show "?out ! i \<noteq> CHR ''/''" using s(1) nth_mem by metis
      qed
      show "?k = 1 \<or> ?out ! ?k = CHR ''/''" unfolding out by (simp add: nth_append)
    qed (simp_all add: len)
    then show ?thesis unfolding out using st by simp
  qed
qed

lemma split_on_takeWhile:
  "split_on x s = takeWhile (\<lambda>c. c \<noteq> x) s #
     (case dropWhile (\<lambda>c. c \<noteq> x) s of [] \<Rightarrow> [] | _ # t \<Rightarrow> split_on x t)"
  by (induction x s rule: split_on.induct) (auto split: list.splits)

lemma at_end_split:
  assumes "at_end rest" "x = CHR ''/''" "x \<notin> set s"
  shows "split_on x (s @ rest) = s # tl (split_on x rest)"
    "split_on x rest = [] # tl (split_on x rest)"
proof -
  have "takeWhile (\<lambda>c. c \<noteq> x) rest = []" using assms(1,2) by (cases rest) (auto simp: at_end_def)
  then show r: "split_on x rest = [] # tl (split_on x rest)" using split_on_takeWhile [of x rest] by (metis list.sel(3))
  show "split_on x (s @ rest) = s # tl (split_on x rest)"
    using split_on_append [OF assms(3), of rest] r by (metis append_Nil2 list.sel(1))
qed

lemma at_end_fold:
  assumes "at_end rest" "CHR ''/'' \<notin> set s"
  shows "foldl seg_step st (split_on (CHR ''/'') (s @ rest)) =
    foldl seg_step (seg_step st s) (split_on (CHR ''/'') rest)"
proof -
  obtain ys where "split_on (CHR ''/'') (s @ rest) = s # ys" "split_on (CHR ''/'') rest = [] # ys"
    using at_end_split [OF assms(1) refl assms(2)] by blast
  moreover have "seg_step st' [] = st'" for st' by (simp add: seg_step_def)
  ultimately show ?thesis by simp
qed

lemma clean_loop_segments:
  assumes "rooted" "dotdot = 1" "good_segs st" "out = CHR ''/'' # Join st ''/''"
  shows "clean_loop rooted dotdot out rest = CHR ''/'' # Join (foldl seg_step st (split_on (CHR ''/'') rest)) ''/''"
  using assms
proof (induction rooted dotdot out rest arbitrary: st rule: clean_loop.induct)
  case (1 rooted dotdot out)
  then show ?case by (simp add: seg_step_def)
next
  case (2 rooted dotdot out c rest)
  note prems = 2(7-10)
  let ?sl = "CHR ''/''"
  consider (slash) "c = ?sl" | (dot) "c = CHR ''.''" "at_end rest"
    | (dots) "c = CHR ''.''" "\<not> at_end rest" "rest \<noteq> []" "hd rest = CHR ''.''" "at_end (tl rest)"
    | (elem) "c \<noteq> ?sl" "\<not> (c = CHR ''.'' \<and> at_end rest)"
        "\<not> (c = CHR ''.'' \<and> rest \<noteq> [] \<and> hd rest = CHR ''.'' \<and> at_end (tl rest))" by blast
  then show ?case
  proof cases
    case slash
    then show ?thesis using 2(1) [OF slash prems] by (simp add: seg_step_def)
  next
    case dot
    have "foldl seg_step st (split_on ?sl (c # rest)) = foldl seg_step st (split_on ?sl rest)"
      using at_end_fold [OF dot(2), of "''.''" st] dot(1) by (simp add: seg_step_def)
    then show ?thesis using 2(2) [OF _ _ prems] dot by simp
  next
    case dots
    then obtain r where rest: "rest = CHR ''.'' # r" "at_end r" by (cases rest) auto
    let ?st = "butlast st"
    have F: "foldl seg_step st (split_on ?sl (c # rest)) = foldl seg_step ?st (split_on ?sl r)"
      using at_end_fold [OF rest(2), of "''..''" st] dots(1) rest(1) by (simp add: seg_step_def)
    show ?thesis
    proof (cases "st = []")
      case True
      then have "\<not> length out > dotdot" using prems by simp
      then have "clean_loop rooted dotdot out (c # rest) = clean_loop rooted dotdot out r"
        using dots rest prems(1) by simp
      moreover have "clean_loop rooted dotdot out r = CHR ''/'' # Join (foldl seg_step st (split_on ?sl r)) ''/''"
        using 2(5) [OF _ _ _ \<open>\<not> length out > dotdot\<close> _ prems] dots rest prems(1) by simp
      ultimately show ?thesis using F True by simp
    next
      case False
      have L: "length out > dotdot" using prems False Join_Nil_iff [OF prems(3)] by auto
      have b: "backtrack dotdot out (length out - 1) = CHR ''/'' # Join ?st ''/''"
        using backtrack_Join [OF prems(3) False] prems(2,4) by simp
      have "clean_loop rooted dotdot out (c # rest) = clean_loop rooted dotdot (CHR ''/'' # Join ?st ''/'') r"
        using dots rest L b by simp
      moreover have "clean_loop rooted dotdot (CHR ''/'' # Join ?st ''/'') r = CHR ''/'' # Join (foldl seg_step ?st (split_on ?sl r)) ''/''"
        using 2(3) [OF _ _ _ L prems(1,2) good_segs_butlast [OF prems(3)] b] dots rest b by simp
      ultimately show ?thesis using F by simp
    qed
  next
    case elem
    let ?e = "takeWhile (\<lambda>x. x \<noteq> ?sl) (c # rest)"
    let ?r = "dropWhile (\<lambda>x. x \<noteq> ?sl) rest"
    have r: "?r = dropWhile (\<lambda>x. x \<noteq> ?sl) (c # rest)" using elem(1) by simp
    have e: "?e \<noteq> []" "?sl \<notin> set ?e" using elem(1) by (auto dest: set_takeWhileD)
    have ee: "c # rest = ?e @ ?r" using r by (metis takeWhile_dropWhile_id)
    have ae: "at_end ?r" using hd_dropWhile [of "\<lambda>x. x \<noteq> ?sl" rest] by (auto simp: at_end_def)
    have n1: "?e \<noteq> ''.''"
    proof
      assume E: "?e = ''.''"
      have "c # rest = ''.'' @ ?r" using ee unfolding E .
      then have "c = CHR ''.''" "rest = ?r" by simp_all
      then show False using elem(2) ae by metis
    qed
    have n2: "?e \<noteq> ''..''"
    proof
      assume E: "?e = ''..''"
      have "c # rest = ''..'' @ ?r" using ee unfolding E .
      then have "c = CHR ''.''" "rest = CHR ''.'' # ?r" by simp_all
      then show False using elem(3) ae by (metis list.distinct(1) list.sel(1) list.sel(3))
    qed
    have st': "good_segs (st @ [?e])" using prems(3) e n1 n2 by simp
    let ?o = "(if rooted \<and> length out \<noteq> 1 \<or> \<not> rooted \<and> out \<noteq> [] then out @ ''/'' else out) @ ?e"
    have o: "?o = CHR ''/'' # Join (st @ [?e]) ''/''"
      using prems Join_Nil_iff [OF prems(3)] by (auto simp: Join_snoc)
    have "seg_step st ?e = st @ [?e]" using e n1 n2 by (simp only: seg_step_def if_False simp_thms)
    then have F: "foldl seg_step st (split_on ?sl (c # rest)) = foldl seg_step (st @ [?e]) (split_on ?sl ?r)"
      using at_end_fold [OF ae e(2), of st] ee by metis
    have "clean_loop rooted dotdot out (c # rest) = clean_loop rooted dotdot ?o ?r"
      using elem by (simp only: clean_loop.simps Let_def if_False)
    also have "\<dots> = CHR ''/'' # Join (foldl seg_step (st @ [?e]) (split_on ?sl ?r)) ''/''"
      using 2(6) [OF elem refl refl prems(1,2) st'] o by simp
    finally show ?thesis using F by simp
  qed
qed


section \<open>Canonical paths\<close>

text \<open>Backslashes folded, and the segments the origin server resolves a path to.\<close>

definition fold_backslash :: "string \<Rightarrow> string" where
  "fold_backslash p = replace_byte (CHR 0x5C) ''/'' p"

definition resolve :: "string \<Rightarrow> string list" where
  "resolve p = foldl seg_step [] (split_on (CHR ''/'') (fold_backslash p))"

definition rooted_path :: "string \<Rightarrow> bool" where
  "rooted_path p \<longleftrightarrow> p \<noteq> [] \<and> (hd p = CHR ''/'' \<or> hd p = CHR 0x5C)"

lemma fold_backslash_Cons: "rooted_path p \<Longrightarrow> fold_backslash p = CHR ''/'' # fold_backslash (tl p)"
  by (cases p) (auto simp: rooted_path_def fold_backslash_def replace_byte_def)

lemma fold_backslash_chars: "CHR 0x5C \<notin> set (fold_backslash p)"
  by (auto simp: fold_backslash_def replace_byte_def split: if_splits)

lemma fold_backslash_id: "CHR 0x5C \<notin> set p \<Longrightarrow> fold_backslash p = p"
  by (induction p) (auto simp: fold_backslash_def replace_byte_def)

lemma resolve_good: "good_segs (resolve p)"
  unfolding resolve_def using split_on_no_sep by (intro seg_steps_good) (auto simp: good_segs_def)

lemma path_Clean_rooted:
  "path_Clean (CHR ''/'' # q) = CHR ''/'' # Join (foldl seg_step [] (split_on (CHR ''/'') q)) ''/''"
  using clean_loop_segments [of True 1 "[]" "''/''" q] by (simp add: path_Clean_def)

lemma HasSuffix_snoc: "HasSuffix (s @ [c]) [d] \<longleftrightarrow> c = d"
  by (auto simp: HasSuffix_def HasPrefix_def)

lemma Join_last: "good_segs st \<Longrightarrow> st \<noteq> [] \<Longrightarrow> \<exists>t. Join st ''/'' = t @ last st"
  by (cases st rule: rev_cases) (auto simp: Join_snoc)

lemma Join_slash_suffix:
  assumes "good_segs st"
  shows "HasSuffix (CHR ''/'' # Join st ''/'') ''/'' \<longleftrightarrow> st = []"
proof (cases st rule: rev_cases)
  case Nil
  then show ?thesis by (simp add: HasSuffix_def HasPrefix_def)
next
  case (snoc xs s)
  then obtain t where t: "Join st ''/'' = t @ s" using Join_last [OF assms] by auto
  have s: "s \<noteq> []" "CHR ''/'' \<notin> set s" using assms snoc by simp_all
  then obtain u c where u: "s = u @ [c]" by (cases s rule: rev_cases) auto
  have "c \<noteq> CHR ''/''" using s u by auto
  moreover have e: "CHR ''/'' # Join st ''/'' = (CHR ''/'' # t @ u) @ [c]" using t u by simp
  ultimately show ?thesis unfolding e HasSuffix_snoc using snoc by simp
qed

lemma canonicalizePath_form:
  assumes "rooted_path p"
  shows "canonicalizePath p =
    CHR ''/'' # Join (resolve p) ''/'' @ (if endsInDirectory (fold_backslash p) \<and> resolve p \<noteq> [] then ''/'' else [])"
proof -
  have f: "fold_backslash p = CHR ''/'' # fold_backslash (tl p)" by (rule fold_backslash_Cons [OF assms])
  have "resolve p = foldl seg_step [] (split_on (CHR ''/'') (fold_backslash (tl p)))"
    by (simp add: resolve_def f seg_step_def)
  then have c: "path_Clean (fold_backslash p) = CHR ''/'' # Join (resolve p) ''/''"
    by (simp only: f path_Clean_rooted)
  have "p \<noteq> []" using assms by (simp add: rooted_path_def)
  then show ?thesis
    using Join_slash_suffix [OF resolve_good, of p] c
    by (auto simp: canonicalizePath_def Let_def fold_backslash_def [symmetric])
qed

lemma split_on_Join:
  "good_segs st \<Longrightarrow> st \<noteq> [] \<Longrightarrow> split_on (CHR ''/'') (Join st ''/'' @ CHR ''/'' # t) = st @ split_on (CHR ''/'') t"
  "good_segs st \<Longrightarrow> st \<noteq> [] \<Longrightarrow> split_on (CHR ''/'') (Join st ''/'') = st"
proof (induction st)
  case (Cons x st)
  {
    case 1
    then show ?case using Cons.IH(1) by (cases st) (auto simp: good_segs_def split_on_append)
  next
    case 2
    then show ?case using Cons.IH(2) split_on_append [of "CHR ''/''" x "[]"]
      by (cases st) (auto simp: good_segs_def split_on_append)
  }
qed auto


lemma resolve_cases:
  assumes "rooted_path p" "canonicalizePath p = CHR ''/'' # Join pre ''/'' @ CHR ''/'' # t" "good_segs pre" "pre \<noteq> []"
  shows "\<exists>rest. resolve p = pre @ rest"
proof -
  let ?R = "resolve p" and ?sl = "CHR ''/''"
  have "?R \<noteq> []"
  proof
    assume "?R = []"
    then have "Join pre ''/'' @ ?sl # t = []" using canonicalizePath_form [OF assms(1)] assms(2) by simp
    then show False by simp
  qed
  then consider "Join ?R ''/'' @ ?sl # [] = Join pre ''/'' @ ?sl # t" | "Join ?R ''/'' = Join pre ''/'' @ ?sl # t"
    using canonicalizePath_form [OF assms(1)] assms(2) by (auto split: if_splits)
  then show ?thesis
  proof cases
    case 1
    from arg_cong [OF this, of "split_on ?sl"] have "?R @ [[]] = pre @ split_on ?sl t"
      using split_on_Join(1) [OF resolve_good \<open>?R \<noteq> []\<close>, of "[]"] split_on_Join(1) [OF assms(3,4), of t] by simp
    moreover have "split_on ?sl t \<noteq> []" using split_on_takeWhile [of ?sl t] by (metis list.distinct(1))
    then have "split_on ?sl t = butlast (split_on ?sl t) @ [last (split_on ?sl t)]" by simp
    ultimately have "?R = pre @ butlast (split_on ?sl t)"
      by (metis append_assoc butlast_snoc)
    then show ?thesis by blast
  next
    case 2
    from arg_cong [OF this, of "split_on ?sl"] have "?R = pre @ split_on ?sl t"
      using split_on_Join(2) [OF resolve_good \<open>?R \<noteq> []\<close>] split_on_Join(1) [OF assms(3,4), of t] by simp
    then show ?thesis by blast
  qed
qed

text \<open>The path rule that decides: the first of the longest that match.\<close>

lemma path_fold:
  "foldl (path_step compile u) best prs = best \<or>
   (\<exists>pr \<in> set prs. LPath pr \<noteq> [] \<and> pathRuleMatches compile (LPath pr) u \<and>
      foldl (path_step compile u) best prs = (int (length (LPath pr)), LPathAction pr))"
proof (induction prs arbitrary: best)
  case (Cons pr prs)
  show ?case using Cons.IH [of "path_step compile u best pr"] by (auto simp: path_step_def split: if_splits)
qed simp

lemma path_fold_longest:
  "fst best \<le> fst (foldl (path_step compile u) best prs)"
  "pr \<in> set prs \<Longrightarrow> LPath pr \<noteq> [] \<Longrightarrow> pathRuleMatches compile (LPath pr) u \<Longrightarrow>
     int (length (LPath pr)) \<le> fst (foldl (path_step compile u) best prs)"
proof (induction prs arbitrary: best)
  case (Cons p prs)
  {
    case 1
    show ?case using Cons.IH(1) [of "path_step compile u best p"]
      by (force simp: path_step_def split: if_splits)
  next
    case 2
    show ?case
    proof (cases "pr = p")
      case True
      then have "int (length (LPath pr)) \<le> fst (path_step compile u best p)" using 2 by (auto simp: path_step_def)
      then show ?thesis using Cons.IH(1) [of "path_step compile u best p"] by simp
    next
      case False
      then show ?thesis using 2 Cons.IH(2) by simp
    qed
  }
qed simp_all

lemma checkPathRules_allowed:
  assumes "checkPathRules compile prs d host u = None"
  shows "(\<exists>pr \<in> set prs. LPath pr \<noteq> [] \<and> pathRuleMatches compile (LPath pr) u \<and> EqualFold (LPathAction pr) ''allow'' \<and>
            (\<forall>q \<in> set prs. LPath q \<noteq> [] \<and> pathRuleMatches compile (LPath q) u \<longrightarrow> length (LPath q) \<le> length (LPath pr))) \<or>
         EqualFold (effectivePathDefault prs d) ''allow''"
proof -
  let ?b = "foldl (path_step compile u) (-1, []) prs"
  show ?thesis
  proof (cases "snd ?b = []")
    case True
    then show ?thesis using assms by (auto simp: checkPathRules_def Let_def split: if_splits)
  next
    case False
    then obtain pr where pr: "pr \<in> set prs" "LPath pr \<noteq> []" "pathRuleMatches compile (LPath pr) u"
      "?b = (int (length (LPath pr)), LPathAction pr)"
      using path_fold [of compile u "(-1, [])" prs] by auto
    have "EqualFold (LPathAction pr) ''allow''"
      using assms False pr(4) by (auto simp: checkPathRules_def Let_def split: if_splits)
    moreover have "length (LPath q) \<le> length (LPath pr)"
      if "q \<in> set prs" "LPath q \<noteq> []" "pathRuleMatches compile (LPath q) u" for q
      using path_fold_longest(2) [OF that, of "(-1, [])"] pr(4) by simp
    ultimately show ?thesis using pr by blast
  qed
qed

text \<open>C19: no way out of an allowed directory. Under an allow list whose allow rules are literal
  directory prefixes, a URL path the check accepts resolves, after the dot segments, the duplicate
  slashes and the backslashes are dealt with the way the origin server does, to a place inside one of
  those directories: \<open>/v1/../secret\<close> and \<open>/v1/..\secret\<close> do not pass a rule for \<open>/v1/\<close>.\<close>

theorem directory_allowlist_confines:
  assumes "rooted_path p"
    and "\<forall>pr \<in> set prs. EqualFold (LPathAction pr) ''allow'' \<longrightarrow>
           (\<exists>d \<in> set dirs. good_segs d \<and> d \<noteq> [] \<and> LPath pr = CHR ''/'' # Join d ''/'' @ ''/'')"
    and "checkPathRules compile prs ''deny'' host (canonicalizePath p) = None"
  shows "\<exists>d \<in> set dirs. \<exists>rest. resolve p = d @ rest"
proof -
  have "\<not> EqualFold (effectivePathDefault prs ''deny'') ''allow''"
    by (simp add: effectivePathDefault_def EqualFold_def) (code_simp)
  then obtain pr where pr: "pr \<in> set prs" "pathRuleMatches compile (LPath pr) (canonicalizePath p)"
    "EqualFold (LPathAction pr) ''allow''"
    using checkPathRules_allowed [OF assms(3)] by blast
  then obtain d where d: "d \<in> set dirs" "good_segs d" "d \<noteq> []" "LPath pr = CHR ''/'' # Join d ''/'' @ ''/''"
    using assms(2) by blast
  have "HasPrefix (canonicalizePath p) (LPath pr)"
    using pr(2) d(4) by (simp add: pathRuleMatches_def compilePathRegex_def HasPrefix_def regexPathMarker_def)
  then obtain t where "canonicalizePath p = LPath pr @ t" by (metis HasPrefix_def append_take_drop_id)
  then have "canonicalizePath p = CHR ''/'' # Join d ''/'' @ CHR ''/'' # t" using d(4) by simp
  then show ?thesis using resolve_cases [OF assms(1) _ d(2,3)] d(1) by blast
qed


theorem directory_allowlist_confines_witness:
  "\<exists>d \<in> set [[''v1'']]. \<exists>rest. resolve ''/v1/a/../b'' = d @ rest"
proof (rule directory_allowlist_confines
    [where prs = "[\<lparr>LPath = ''/v1/'', LPathAction = ''allow''\<rparr>]" and compile = "\<lambda>_. None" and host = "''h''"])
  show "rooted_path ''/v1/a/../b''" by (simp add: rooted_path_def)
  show "\<forall>pr \<in> set [\<lparr>LPath = ''/v1/'', LPathAction = ''allow''\<rparr>]. EqualFold (LPathAction pr) ''allow'' \<longrightarrow>
      (\<exists>d \<in> set [[''v1'']]. good_segs d \<and> d \<noteq> [] \<and> LPath pr = CHR ''/'' # Join d ''/'' @ ''/'')"
    by (simp add: good_segs_def)
  show "checkPathRules (\<lambda>_. None) [\<lparr>LPath = ''/v1/'', LPathAction = ''allow''\<rparr>] ''deny'' ''h''
      (canonicalizePath ''/v1/a/../b'') = None" by code_simp
qed

lemma good_segs_fixed: "good_segs st \<Longrightarrow> foldl seg_step acc st = acc @ st"
  by (induction st arbitrary: acc) (auto simp: good_segs_def seg_step_def)

lemma resolve_rebuilt:
  assumes "good_segs st" "CHR 0x5C \<notin> set (Join st ''/'')"
  shows "resolve (CHR ''/'' # Join st ''/'') = st" "st \<noteq> [] \<Longrightarrow> resolve (CHR ''/'' # Join st ''/'' @ ''/'') = st"
proof -
  have e: "seg_step a [] = a" for a by (simp add: seg_step_def)
  have "fold_backslash (CHR ''/'' # Join st ''/'') = CHR ''/'' # Join st ''/''"
    using assms by (intro fold_backslash_id) auto
  then have "resolve (CHR ''/'' # Join st ''/'') = foldl seg_step [] (split_on (CHR ''/'') (Join st ''/''))"
    by (simp add: resolve_def e)
  also have "\<dots> = st" using split_on_Join(2) [OF assms(1)] good_segs_fixed [OF assms(1), of "[]"] by (cases "st = []") (auto simp: e)
  finally show "resolve (CHR ''/'' # Join st ''/'') = st" .
  assume ne: "st \<noteq> []"
  have "fold_backslash (CHR ''/'' # Join st ''/'' @ ''/'') = CHR ''/'' # Join st ''/'' @ ''/''"
    using assms by (intro fold_backslash_id) auto
  then have "resolve (CHR ''/'' # Join st ''/'' @ ''/'') = foldl seg_step [] (st @ [[]])"
    using split_on_Join(1) [OF assms(1) ne, of "[]"] by (simp add: resolve_def e)
  then show "resolve (CHR ''/'' # Join st ''/'' @ ''/'') = st" using good_segs_fixed [OF assms(1), of "[]"] by (simp add: e)
qed

lemma endsInDirectory_Join:
  assumes "good_segs st" "st \<noteq> []"
  shows "\<not> endsInDirectory (CHR ''/'' # Join st ''/'')"
proof -
  have S: "split_on (CHR ''/'') (CHR ''/'' # Join st ''/'') = [] # st" using split_on_Join(2) [OF assms] by simp
  have bad: False if "CHR ''/'' # Join st ''/'' = u @ CHR ''/'' # t" "t \<in> {[], ''.'', ''..''}" for u t
  proof -
    have "last (split_on (CHR ''/'') (u @ CHR ''/'' # t)) = t" using that(2)
    proof (induction u)
      case (Cons c u)
      have "split_on (CHR ''/'') (u @ CHR ''/'' # t) \<noteq> []" using split_on_takeWhile by (metis list.distinct(1))
      moreover have "length (split_on (CHR ''/'') (u @ CHR ''/'' # t)) \<noteq> 1"
        using split_on_takeWhile [of "CHR ''/''" "u @ CHR ''/'' # t"] split_on_takeWhile [of "CHR ''/''"]
        by (auto split: list.splits simp: dropWhile_append3)
      ultimately show ?case using Cons by (auto split: list.splits)
    qed auto
    then have "last st = t" using S that(1) assms(2) by simp
    moreover have "last st \<in> set st" using assms(2) by simp
    ultimately show False using assms(1) that(2) by (auto simp: good_segs_def list_all_iff)
  qed
  show ?thesis unfolding endsInDirectory_def HasSuffix_append using bad by fastforce
qed


lemma seg_steps_subset: "set (foldl seg_step st segs) \<subseteq> set st \<union> set segs"
proof (induction segs arbitrary: st)
  case (Cons s segs)
  have "set (seg_step st s) \<subseteq> set st \<union> {s}" by (auto simp: seg_step_def dest: in_set_butlastD)
  then show ?case using Cons.IH [of "seg_step st s"] by auto
qed simp

lemma split_on_chars: "s \<in> set (split_on x t) \<Longrightarrow> set s \<subseteq> set t"
  by (induction x t arbitrary: s rule: split_on.induct) (fastforce split: list.splits if_splits)+

lemma Join_chars: "set (Join st ''/'') \<subseteq> insert (CHR ''/'') (\<Union> (set ` set st))"
  by (induction st "''/''" rule: Join.induct) auto

lemma resolve_no_backslash: "CHR 0x5C \<notin> set (Join (resolve p) ''/'')"
proof -
  have "CHR 0x5C \<notin> set s" if "s \<in> set (resolve p)" for s
    using that seg_steps_subset [of "[]"] split_on_chars fold_backslash_chars unfolding resolve_def by fastforce
  then show ?thesis using Join_chars [of "resolve p"] by auto
qed

lemma canonicalizePath_laws:
  assumes "rooted_path p"
  shows "canonicalizePath p =
      CHR ''/'' # Join (resolve p) ''/'' @ (if endsInDirectory (fold_backslash p) \<and> resolve p \<noteq> [] then ''/'' else [])"
    and "canonicalizePath (canonicalizePath p) = canonicalizePath p"
    and "resolve (canonicalizePath p) = resolve p"
    and "good_segs (resolve p)"
proof -
  let ?R = "resolve p" and ?c = "canonicalizePath p"
  show form: "?c = CHR ''/'' # Join ?R ''/'' @ (if endsInDirectory (fold_backslash p) \<and> ?R \<noteq> [] then ''/'' else [])"
    by (rule canonicalizePath_form [OF assms])
  show good: "good_segs ?R" by (rule resolve_good)
  note rb = resolve_rebuilt [OF good resolve_no_backslash]
  show R: "resolve ?c = ?R" unfolding form using rb by auto
  have "rooted_path ?c" unfolding form by (simp add: rooted_path_def)
  have "CHR 0x5C \<notin> set ?c" unfolding form using resolve_no_backslash by auto
  then have "endsInDirectory (fold_backslash ?c) = endsInDirectory ?c" by (simp add: fold_backslash_id)
  moreover have "?R \<noteq> [] \<Longrightarrow> endsInDirectory ?c \<longleftrightarrow> endsInDirectory (fold_backslash p)"
  proof (cases "endsInDirectory (fold_backslash p)")
    case True
    assume "?R \<noteq> []"
    then have "?c = (CHR ''/'' # Join ?R ''/'') @ ''/''" using form True by simp
    then have "HasSuffix ?c ''/''" by (simp only: HasSuffix_append) blast
    then show ?thesis using True by (simp add: endsInDirectory_def)
  next
    case False
    assume "?R \<noteq> []"
    then show ?thesis using form False endsInDirectory_Join [OF good] by simp
  qed
  ultimately have d: "(endsInDirectory (fold_backslash ?c) \<and> ?R \<noteq> []) = (endsInDirectory (fold_backslash p) \<and> ?R \<noteq> [])"
    by blast
  show "canonicalizePath ?c = ?c"
    by (rule trans [OF canonicalizePath_form [OF \<open>rooted_path ?c\<close>, unfolded R d] form [symmetric]])
qed

text \<open>Theorem: the path the rules are matched against is the one the origin resolves. A rooted path is
  rewritten to the slash-separated list of the segments left after \<open>path.Clean\<close> (an index walk with
  backtracking) has dropped the empty and dot segments and let each dot-dot cancel the segment before
  it, with the directory slash restored; rewriting again changes nothing, and no segment of the result
  is a dot segment.\<close>

theorem canonicalizePath_canonical:
  assumes "rooted_path p"
  shows "canonicalizePath p =
      CHR ''/'' # Join (resolve p) ''/'' @ (if endsInDirectory (fold_backslash p) \<and> resolve p \<noteq> [] then ''/'' else []) \<and>
    canonicalizePath (canonicalizePath p) = canonicalizePath p \<and>
    resolve (canonicalizePath p) = resolve p \<and> good_segs (resolve p)"
  using canonicalizePath_laws [OF assms] by blast

theorem canonicalizePath_canonical_witness:
  "canonicalizePath (canonicalizePath ''/blog/x/..'') = canonicalizePath ''/blog/x/..''"
proof -
  have "rooted_path ''/blog/x/..''" by (simp add: rooted_path_def)
  from canonicalizePath_canonical [OF this] show ?thesis by blast
qed

section \<open>The verdict\<close>

text \<open>The rules that concern a request, in file order, and the two tiers.\<close>

definition applicable :: "string \<Rightarrow> string \<Rightarrow> int \<Rightarrow> egressRule list \<Rightarrow> egressRule list" where
  "applicable host proto port rules =
     filter (\<lambda>r. EqualFold (LProto r) proto \<and> portSpecMatches (LPort r) port) (map normalizeEgressRule rules)"

definition allows :: "egressRule \<Rightarrow> bool" where
  "allows r \<longleftrightarrow> EqualFold (LAction r) ''allow''"

definition tier :: "matchKind \<Rightarrow> string \<Rightarrow> egressRule list \<Rightarrow> egressRule list" where
  "tier k host rs = filter (\<lambda>r. dstMatchType (LDst r) host = k) rs"

definition first_allow :: "egressRule list \<Rightarrow> egressRule option" where
  "first_allow rs = find allows rs"

lemma keep_first_find: "keep_first (find P xs) x = (if find P xs = None then Some x else find P xs)"
  by (auto simp: keep_first_def split: option.splits)

lemma tiers_of_rules:
  "foldl (tier_step host proto port)
     \<lparr>exactAllow = None, wildcardAllow = None, exactDeny = False, wildcardDeny = False\<rparr> rules =
   (let rs = applicable host proto port rules in
    \<lparr>exactAllow = first_allow (tier matchExact host rs), wildcardAllow = first_allow (tier matchWildcard host rs),
     exactDeny = (\<not> list_all allows (tier matchExact host rs)),
     wildcardDeny = (\<not> list_all allows (tier matchWildcard host rs))\<rparr>)"
proof (induction rules rule: rev_induct)
  case Nil
  then show ?case by (simp add: applicable_def tier_def first_allow_def)
next
  case (snoc r rules)
  then show ?case
    by (cases "dstMatchType (LDst (normalizeEgressRule r)) host")
      (auto simp: Let_def tier_step_def applicable_def tier_def first_allow_def find_append allows_def keep_first_def
        split: option.splits)
qed

lemma matchRules_tiers:
  "matchRules compile rules host proto port u =
   (let rs = applicable host proto port rules; ex = tier matchExact host rs; wi = tier matchWildcard host rs;
        verdict = (\<lambda>t. if \<not> list_all allows t then Some (DomainDenied host)
                       else evaluateRule compile (hd t) host u)
    in if ex \<noteq> [] then verdict ex else if wi \<noteq> [] then verdict wi else Some (NotInAllowList host))"
proof -
  have fa: "first_allow t = (if t = [] then None else Some (hd t))" if "list_all allows t" for t
    using that by (cases t) (auto simp: first_allow_def)
  have fn: "list_all allows []" by simp
  show ?thesis unfolding matchRules_def tiers_of_rules Let_def by (auto simp: fa)
qed


lemma hp_parsePortNumber_eq:
  "hp_parsePortNumber s = (case parsePortNumber (TrimSpace s) of Inl _ \<Rightarrow> None | Inr n \<Rightarrow> Some n)"
proof (cases "TrimSpace s = []")
  case True
  then show ?thesis by (simp add: hp_parsePortNumber_def parsePortNumber_def) (code_simp)
next
  case False
  then show ?thesis by (auto simp: hp_parsePortNumber_def parsePortNumber_def maxPort_def split: option.splits)
qed

lemma parsePortSpec_eq:
  "parsePortSpec s = (case ParsePortSpec s of Inr (lo, hi, True) \<Rightarrow> Some (lo, hi) | _ \<Rightarrow> None)"
  by (auto simp: parsePortSpec_def ParsePortSpec_def Let_def hp_parsePortNumber_eq
      split: option.splits sum.splits bool.splits)

lemma evaluateRule_allows:
  "allows r \<Longrightarrow> evaluateRule compile r host u = None \<longleftrightarrow>
     LPathRules r = [] \<or> checkPathRules compile (LPathRules r) (LPathDefault r) host u = None"
  by (auto simp: evaluateRule_def allows_def)

text \<open>C34: what the host proxy lets the browser open. The scan with its four accumulators and
  early returns is the two-tier verdict: with an exact match among the rules of the protocol and port,
  the exact tier decides, otherwise the wildcard tier does; the deciding tier has no deny and its first
  rule's path rules allow the path.\<close>

theorem host_allows_iff:
  "matchRules compile rules host proto port u = None \<longleftrightarrow>
   (let rs = applicable host proto port rules;
        t = (if tier matchExact host rs \<noteq> [] then tier matchExact host rs else tier matchWildcard host rs)
    in t \<noteq> [] \<and> list_all allows t \<and>
       (LPathRules (hd t) = [] \<or> checkPathRules compile (LPathRules (hd t)) (LPathDefault (hd t)) host u = None))"
proof -
  have "evaluateRule compile (hd t) host u = None \<longleftrightarrow>
      LPathRules (hd t) = [] \<or> checkPathRules compile (LPathRules (hd t)) (LPathDefault (hd t)) host u = None"
    if "t \<noteq> []" "list_all allows t" for t
    using that by (intro evaluateRule_allows) (cases t, auto)
  then show ?thesis unfolding matchRules_tiers Let_def by auto
qed

text \<open>Theorem: a deny never widens. Wherever a rule that does not allow is inserted in the file, a
  request the host proxy then lets through was let through without it.\<close>

theorem extra_deny_never_allows:
  assumes "\<not> allows (normalizeEgressRule d)"
    and "matchRules compile (xs @ d # ys) host proto port u = None"
  shows "matchRules compile (xs @ ys) host proto port u = None"
proof -
  let ?a = "applicable host proto port"
  have sub: "tier k host (?a (xs @ d # ys)) =
      tier k host (?a xs) @ tier k host (?a [d]) @ tier k host (?a ys)"
    "tier k host (?a (xs @ ys)) = tier k host (?a xs) @ tier k host (?a ys)" for k
    by (simp_all add: applicable_def tier_def)
  have nd: "tier k host (?a [d]) = [] \<or> \<not> list_all allows (tier k host (?a [d]))" for k
    using assms(1) by (auto simp: applicable_def tier_def)
  show ?thesis
    using assms(2) nd [of matchExact] nd [of matchWildcard]
    unfolding matchRules_tiers Let_def sub by (auto split: if_splits)
qed

theorem extra_deny_never_allows_witness:
  "matchRules (\<lambda>_. None) ([] @ [\<lparr>LDst = ''a.io'', LProto = ''https'', LPort = ''443'', LAction = ''allow'',
     LPathRules = [], LPathDefault = []\<rparr>]) ''a.io'' ''https'' 443 ''/'' = None"
proof (rule extra_deny_never_allows [where d = "\<lparr>LDst = ''b.io'', LProto = ''https'', LPort = ''443'', LAction = ''deny'',
     LPathRules = [], LPathDefault = []\<rparr>"])
  have p: "portSpecMatches ''443'' 443" by (simp add: portSpecMatches_def parsePortSpec_eq)
  show "\<not> allows (normalizeEgressRule \<lparr>LDst = ''b.io'', LProto = ''https'', LPort = ''443'', LAction = ''deny'',
     LPathRules = [], LPathDefault = []\<rparr>)" by code_simp
  have d: "dstMatchType ''a.io'' ''a.io'' = matchExact" "dstMatchType ''b.io'' ''a.io'' = matchNone" by code_simp+
  have e: "EqualFold ''deny'' ''allow'' = False" "EqualFold ''https'' ''tls'' = False" "EqualFold ''https'' ''https''"
    "EqualFold ''allow'' ''allow''" by code_simp+
  show "matchRules (\<lambda>_. None) ([] @ \<lparr>LDst = ''b.io'', LProto = ''https'', LPort = ''443'', LAction = ''deny'',
     LPathRules = [], LPathDefault = []\<rparr> # [\<lparr>LDst = ''a.io'', LProto = ''https'', LPort = ''443'', LAction = ''allow'',
     LPathRules = [], LPathDefault = []\<rparr>]) ''a.io'' ''https'' 443 ''/'' = None"
    using p d e by (simp add: matchRules_def tier_step_def normalizeEgressRule_def Let_def evaluateRule_def keep_first_def)
qed

text \<open>Theorem: the check fails closed. A URL is let through only when it parses, is plain http or https
  with a host and without user information, names a port that parses, the rules file was read and every
  regular expression in it compiles, and the rules allow the canonical path; in that case it is let
  through.\<close>

theorem browser_url_allowed_iff:
  "CheckURLAgainstEgressRules compile parsed file = None \<longleftrightarrow>
   (\<exists>u proto dflt port rules.
      parsed = Inr u \<and> schemeToProto (Scheme u) = Inr (proto, dflt) \<and> \<not> HasUser u \<and> Opaque u = [] \<and> Hostname u \<noteq> [] \<and>
      (if UPort u = [] then port = dflt else Atoi (UPort u) = Some port) \<and>
      file = Inr rules \<and>
      list_all (\<lambda>r. list_all (\<lambda>pr. \<not> snd (snd (compilePathRegex compile (LPath pr)))) (LPathRules r)) rules \<and>
      matchRules compile rules (Hostname u) proto port (canonicalizePath (UPath u)) = None)"
proof -
  have read: "readEgressRules compile file = Inr rules \<longleftrightarrow> file = Inr rules \<and>
      list_all (\<lambda>r. list_all (\<lambda>pr. \<not> snd (snd (compilePathRegex compile (LPath pr)))) (LPathRules r)) rules" for rules
  proof -
    have "filter (\<lambda>pr. snd (snd (compilePathRegex compile (LPath pr)))) (concat (map LPathRules rs)) = [] \<longleftrightarrow>
        list_all (\<lambda>r. list_all (\<lambda>pr. \<not> snd (snd (compilePathRegex compile (LPath pr)))) (LPathRules r)) rs" for rs
      by (auto simp: filter_empty_conv list_all_iff)
    note f = this [symmetric]
    show ?thesis unfolding f by (auto simp: readEgressRules_def split: sum.splits list.splits)
  qed
  have "CheckURLAgainstEgressRules compile parsed file = None \<longleftrightarrow>
     (\<exists>u proto dflt port rules.
        parsed = Inr u \<and> schemeToProto (Scheme u) = Inr (proto, dflt) \<and> \<not> HasUser u \<and> Opaque u = [] \<and> Hostname u \<noteq> [] \<and>
        (if UPort u = [] then port = dflt else Atoi (UPort u) = Some port) \<and> readEgressRules compile file = Inr rules \<and>
        matchRules compile rules (Hostname u) proto port (canonicalizePath (UPath u)) = None)"
    unfolding CheckURLAgainstEgressRules_def by (auto split: sum.splits option.splits if_splits)
  then show ?thesis unfolding read conj_assoc .
qed

section \<open>Lockstep with the firewall\<close>

text \<open>What the host proxy reads of a rule the firewall stored.\<close>

definition host_view :: "EgressRule \<Rightarrow> egressRule" where
  "host_view r =
     \<lparr>LDst = Dst r, LProto = Proto r, LPort = Port r, LAction = Action r,
      LPathRules = map (\<lambda>p. \<lparr>LPath = Path p, LPathAction = PathAction p\<rparr>) (PathRules r),
      LPathDefault = PathDefault r\<rparr>"

text \<open>Theorem: the host proxy's copies agree with the firewall's originals on every stored rule. A
  normalised rule is read with the same protocol, port and action (the copy knows no ws and wss
  defaults, but a stored rule has its port); the ports a rule covers are the firewall's span of it; and
  an unmatched path gets the same default.\<close>

theorem host_rule_lockstep:
  "normalizeEgressRule (host_view (NormalizeRule r)) = host_view (NormalizeRule r) \<and>
   (portSpecMatches (LPort (host_view r)) p \<longleftrightarrow> (case PortSpan r of None \<Rightarrow> False | Some (lo, hi) \<Rightarrow> lo \<le> p \<and> p \<le> hi)) \<and>
   effectivePathDefault (LPathRules (host_view r)) (LPathDefault (host_view r)) = EffectivePathDefault r"
proof (intro conjI)
  let ?n = "NormalizeRule r"
  have https: "ToLower ''https'' = ''https''" by code_simp
  have "ToLower (Proto ?n) \<noteq> ''tls''" "Proto ?n \<noteq> []" "Action ?n \<noteq> []"
    by (simp_all add: NormalizeRule_fields https)
  moreover have "Port ?n = [] \<Longrightarrow> ToLower (Proto ?n) \<noteq> ''https'' \<and> ToLower (Proto ?n) \<noteq> ''http'' \<and> ToLower (Proto ?n) \<noteq> ''ssh''"
    unfolding NormalizeRule_fields(4) by (auto simp: default_port_def split: if_splits)
  moreover have "EqualFold (Proto ?n) ''tls'' \<longleftrightarrow> ToLower (Proto ?n) = ''tls''"
    by (simp add: EqualFold_def) (code_simp)
  ultimately show "normalizeEgressRule (host_view ?n) = host_view ?n"
    by (simp add: normalizeEgressRule_def host_view_def Let_def)
  show "portSpecMatches (LPort (host_view r)) p \<longleftrightarrow> (case PortSpan r of None \<Rightarrow> False | Some (lo, hi) \<Rightarrow> lo \<le> p \<and> p \<le> hi)"
    by (auto simp: portSpecMatches_def parsePortSpec_eq PortSpan_def host_view_def split: sum.splits bool.splits)
  show "effectivePathDefault (LPathRules (host_view r)) (LPathDefault (host_view r)) = EffectivePathDefault r"
    by (auto simp: effectivePathDefault_def EffectivePathDefault_def host_view_def list_ex_iff)
qed

end
