(* ===== verification/Path_Lockstep.thy ===== *)
theory Path_Lockstep
  imports Envoy_Sample Host_Egress
begin

text \<open>
  One rule, two evaluators of its path rules: the route table the firewall writes for Envoy
  (\<open>httpRoutes\<close>) and the copy of the rules the host proxy evaluates (\<open>checkPathRules\<close>). Where they agree,
  and the two shapes of rule on which they do not.
\<close>

section \<open>Path rules: the route table and the host proxy\<close>

text \<open>Envoy takes the first route whose match holds; a route with a direct response forwards nothing.\<close>

definition envoy_forwards :: "(yaml \<Rightarrow> string \<Rightarrow> bool) \<Rightarrow> yaml list \<Rightarrow> string \<Rightarrow> bool" where
  "envoy_forwards matches routes path =
     (case find (\<lambda>r. matches (the (yget ''match'' r)) path) routes of
        None \<Rightarrow> False
      | Some r \<Rightarrow> yget ''direct_response'' r = None)"

fun longest :: "('a \<Rightarrow> nat) \<Rightarrow> 'a list \<Rightarrow> 'a option" where
  "longest f [] = None"
| "longest f (x # xs) = (case longest f xs of None \<Rightarrow> Some x | Some y \<Rightarrow> if f y \<le> f x then Some x else Some y)"

lemma find_insort:
  "find P (insort_key k x xs) =
     (if P x \<and> (\<forall>y. find P xs = Some y \<longrightarrow> k x \<le> k y) then Some x else find P xs)"
  if "sorted (map k xs)"
  using that
proof (induction xs)
  case (Cons y ys)
  have "find P ys = Some z \<Longrightarrow> k y \<le> k z" for z
    using Cons.prems by (auto simp: find_Some_iff)
  then show ?case using Cons by (cases "P x"; cases "P y") (auto dest: order_trans)
qed simp

lemma find_sorted_longest: "find P (sort_key (\<lambda>p. - int (f p)) xs) = longest f (filter P xs)"
proof (induction xs)
  case (Cons x xs)
  have "find P (sort_key (\<lambda>p. - int (f p)) (x # xs)) = find P (insort_key (\<lambda>p. - int (f p)) x (sort_key (\<lambda>p. - int (f p)) xs))" by simp
  also have "\<dots> = (if P x \<and> (\<forall>y. find P (sort_key (\<lambda>p. - int (f p)) xs) = Some y \<longrightarrow> - int (f x) \<le> - int (f y)) then Some x
      else find P (sort_key (\<lambda>p. - int (f p)) xs))" by (rule find_insort) simp
  also have "\<dots> = longest f (filter P (x # xs))"
    unfolding Cons.IH by (cases "longest f (filter P xs)") (auto split: option.splits)
  finally show ?case .
qed simp

lemma path_fold_best:
  assumes "\<forall>pr \<in> set prs. LPath pr \<noteq> []"
  shows "foldl (path_step compile u) b prs =
    (case longest (\<lambda>pr. length (LPath pr)) (filter (\<lambda>pr. pathRuleMatches compile (LPath pr) u) prs) of
       None \<Rightarrow> b
     | Some pr \<Rightarrow> if int (length (LPath pr)) > fst b then (int (length (LPath pr)), LPathAction pr) else b)"
  using assms
  by (induction prs arbitrary: b) (auto simp: path_step_def split: option.splits)

lemma longest_map: "longest f (map g xs) = map_option g (longest (f \<circ> g) xs)"
  by (induction xs) (auto split: option.splits)

lemma longest_in: "longest f xs = Some x \<Longrightarrow> x \<in> set xs"
  by (induction xs arbitrary: x) (auto split: option.splits if_splits)

lemma find_map: "find P (map g xs) = map_option g (find (P \<circ> g) xs)"
  by (induction xs) auto

definition envoy_path_match :: "(string \<Rightarrow> matcher option) \<Rightarrow> (yaml \<Rightarrow> string \<Rightarrow> bool) \<Rightarrow> bool" where
  "envoy_path_match compile matches \<longleftrightarrow>
     (\<forall>p u. matches (YMap [(''prefix'', YStr p)]) u = HasPrefix u p) \<and>
     (\<forall>rx u. matches (YMap [(''safe_regex'', YMap [(''regex'', YStr rx)])]) u =
        (case compile (''^(?:'' @ TrimPrefix rx ''^'' @ '')$'') of None \<Rightarrow> False | Some f \<Rightarrow> f u))"

lemma routeMatch_pathRuleMatches:
  "envoy_path_match compile matches \<Longrightarrow> matches (routeMatch p []) u = pathRuleMatches compile p u"
  by (auto simp: envoy_path_match_def routeMatch_def pathSpecifier_def methodHeaderMatch_def pathRuleMatches_def compilePathRegex_def
      split: option.splits)

text \<open>C4: the route table and the host proxy agree on paths. For a validated rule with path rules that
  name an action and no methods, Envoy forwards a path by the rule's route table exactly when the host
  proxy lets it through: the longest matching path decides, the first of equal length wins, and an
  unmatched path gets the default. Envoy's prefix and full regular-expression matches are as documented.\<close>

theorem path_lockstep:
  assumes "envoy_path_match compile matches" "PathRules r \<noteq> []" "HasPrefix u ''/''"
    "ValidateRule compiles r = None" "\<forall>pr \<in> set (PathRules r). Methods pr = [] \<and> PathAction pr \<noteq> []"
  shows "envoy_forwards matches (httpRoutes r cl ws) u \<longleftrightarrow>
    checkPathRules compile (LPathRules (host_view r)) (LPathDefault (host_view r)) host u = None"
proof -
  let ?P = "\<lambda>pr. pathRuleMatches compile (Path pr) u"
  let ?h = "\<lambda>p. \<lparr>LPath = Path p, LPathAction = PathAction p\<rparr>"
  let ?best = "longest (\<lambda>p. length (Path p)) (filter ?P (PathRules r))"
  have m: "yget ''match'' (path_route cl ws pr) = Some (routeMatch (Path pr) (Methods pr))"
    "yget ''direct_response'' (path_route cl ws pr) = None \<longleftrightarrow> EqualFold (PathAction pr) ''allow''" for pr
    by (simp_all add: path_route_def httpAllowRoute_def httpDenyRoute_def)
  have d: "yget ''match'' (default_route r cl ws) = Some (routeMatch ''/'' [])"
    "yget ''direct_response'' (default_route r cl ws) = None \<longleftrightarrow> \<not> EqualFold (EffectivePathDefault r) ''deny''"
    by (simp_all add: default_route_def httpAllowRoute_def httpDenyRoute_def)
  have dm: "matches (routeMatch ''/'' []) u"
    unfolding routeMatch_pathRuleMatches [OF assms(1)] using assms(3) by (simp add: pathRuleMatches_def compilePathRegex_def regexPathMarker_def HasPrefix_def)
  have ne: "Path pr \<noteq> []" if "pr \<in> set (PathRules r)" for pr
    using ValidateRule_parts(3) [OF assms(4)] that
    by (force simp: validate_path_rule_def validatePathRulePath_def HasPrefix_def regexPathMarker_def split: if_splits option.splits)
  have def_action: "EqualFold (EffectivePathDefault r) ''deny'' \<longleftrightarrow> \<not> EqualFold (EffectivePathDefault r) ''allow''"
  proof -
    have l: "ToLower ''allow'' = ''allow''" "ToLower ''deny'' = ''deny''" by code_simp+
    have "validateActionField ''path_default'' (PathDefault r) = None" using assms(4) by (simp add: ValidateRule_def split: option.splits)
    then have "PathDefault r = [] \<or> ToLower (PathDefault r) = ''allow'' \<or> ToLower (PathDefault r) = ''deny''"
      by (auto simp: validateActionField_def ToLower_def split: if_splits)
    then show ?thesis by (auto simp: EffectivePathDefault_def EqualFold_def l)
  qed
  have default_eq: "effectivePathDefault (map ?h (PathRules r)) (PathDefault r) = EffectivePathDefault r"
    by (auto simp: effectivePathDefault_def EffectivePathDefault_def list_ex_iff)
  have "find (\<lambda>x. matches (the (yget ''match'' x)) u) (httpRoutes r cl ws) =
      (case ?best of Some pr \<Rightarrow> Some (path_route cl ws pr) | None \<Rightarrow> Some (default_route r cl ws))"
  proof -
    let ?s = "sort_key (\<lambda>p. - int (length (Path p))) (PathRules r)"
    have "find (\<lambda>pr. matches (the (yget ''match'' (path_route cl ws pr))) u) ?s = find ?P ?s"
      by (rule find_cong) (use assms(5) in \<open>auto simp: m routeMatch_pathRuleMatches [OF assms(1)]\<close>)
    then show ?thesis using assms(2) dm
      by (auto simp: httpRoutes_def find_append find_map comp_def find_sorted_longest d split: option.splits)
  qed
  then have e: "envoy_forwards matches (httpRoutes r cl ws) u \<longleftrightarrow>
      (case ?best of Some pr \<Rightarrow> EqualFold (PathAction pr) ''allow'' | None \<Rightarrow> EqualFold (EffectivePathDefault r) ''allow'')"
    using def_action by (cases ?best) (auto simp: envoy_forwards_def m d)
  have "foldl (path_step compile u) (- 1, []) (map ?h (PathRules r)) =
      (case ?best of Some pr \<Rightarrow> (int (length (Path pr)), PathAction pr) | None \<Rightarrow> (- 1, []))"
    using ne by (subst path_fold_best) (auto simp: filter_map comp_def longest_map split: option.splits)
  moreover have "PathAction pr \<noteq> []" if "?best = Some pr" for pr using longest_in [OF that] assms(5) by auto
  ultimately show ?thesis unfolding e checkPathRules_def Let_def
    by (cases ?best) (auto simp: host_view_def default_eq)
qed



definition sample_path_rule :: EgressRule where
  "sample_path_rule = (sample_https ''api.example.com'' ''allow'')
     \<lparr>PathRules := [\<lparr>Path = ''/v1/'', PathAction = ''allow'', Methods = []\<rparr>, \<lparr>Path = ''/v1/admin'', PathAction = ''deny'', Methods = []\<rparr>]\<rparr>"

definition sample_matches :: "yaml \<Rightarrow> string \<Rightarrow> bool" where
  "sample_matches m u = (case yget ''prefix'' m of Some (YStr p) \<Rightarrow> HasPrefix u p | _ \<Rightarrow> False)"

lemma sample_path_match: "envoy_path_match (\<lambda>_. None) sample_matches"
  by (simp add: envoy_path_match_def sample_matches_def)

lemma sample_path_valid:
  assumes "\<forall>pr \<in> set prs. Path pr \<in> {''/v1/'', ''/v1/admin''} \<and> PathAction pr \<in> {[], ''allow'', ''deny''} \<and> Methods pr = []" "d \<in> {[], ''deny''}"
  shows "ValidateRule (\<lambda>_. True) (sample_https ''api.example.com'' ''allow''\<lparr>PathRules := prs, PathDefault := d\<rparr>) = None"
proof -
  have t: "TrimSpace ''/v1/'' = ''/v1/''" "TrimSpace ''/v1/admin'' = ''/v1/admin''" by (rule TrimSpace_graph_ends; code_simp)+
  have p: "validatePathRulePath (\<lambda>_. True) ''/v1/'' = None" "validatePathRulePath (\<lambda>_. True) ''/v1/admin'' = None" by code_simp+
  have a: "validateActionField f x = None" if "x \<in> {[], ''allow'', ''deny''}" for f x using that by (auto simp: validateActionField_def sample_names)
  have "validate_path_rule (\<lambda>_. True) pr = None" if "pr \<in> set prs" for pr
    using assms(1) that a [of "PathAction pr"] by (auto simp: validate_path_rule_def t p)
  then have "first_error (validate_path_rule (\<lambda>_. True)) prs = None" by (simp add: first_error_None)
  moreover have "ValidateDst ''api.example.com'' = None" by code_simp
  ultimately show ?thesis using assms(2) a [of d] a [of "''allow''"]
    by (auto simp: ValidateRule_def ValidatePortSpec_def sample_https_def)
qed

theorem path_lockstep_witness:
  "envoy_forwards sample_matches (httpRoutes sample_path_rule ''c'' False) ''/v1/admin/x'' \<longleftrightarrow>
    checkPathRules (\<lambda>_. None) (LPathRules (host_view sample_path_rule)) (LPathDefault (host_view sample_path_rule)) ''h'' ''/v1/admin/x'' = None"
proof (rule path_lockstep [OF sample_path_match])
  show "ValidateRule (\<lambda>_. True) sample_path_rule = None"
    using sample_path_valid [of "PathRules sample_path_rule" "[]"] by (simp add: sample_path_rule_def sample_https_def)
qed (simp_all add: sample_path_rule_def HasPrefix_def)

definition blank_action_rule :: EgressRule where
  "blank_action_rule = sample_https ''api.example.com'' ''allow''\<lparr>PathRules := [\<lparr>Path = ''/v1/'', PathAction = [], Methods = []\<rparr>], PathDefault := []\<rparr>"

definition bare_default_rule :: EgressRule where
  "bare_default_rule = sample_https ''api.example.com'' ''allow''\<lparr>PathRules := [], PathDefault := ''deny''\<rparr>"

text \<open>Theorem: where the two evaluators differ. Both rules pass validation. A path rule without an action is
  a deny route for Envoy, while the host proxy falls through to the default, which allows. A path default
  of deny without path rules makes Envoy refuse every path, while the host proxy looks at the default only
  when there are path rules and lets the URL through.\<close>

theorem path_evaluators_differ:
  assumes "envoy_path_match compile matches"
  shows "ValidateRule (\<lambda>_. True) blank_action_rule = None \<and> ValidateRule (\<lambda>_. True) bare_default_rule = None \<and>
   \<not> envoy_forwards matches (httpRoutes blank_action_rule cl ws) ''/v1/x'' \<and>
   evaluateRule compile (host_view blank_action_rule) host ''/v1/x'' = None \<and>
   \<not> envoy_forwards matches (httpRoutes bare_default_rule cl ws) ''/v1/x'' \<and>
   evaluateRule compile (host_view bare_default_rule) host ''/v1/x'' = None"
proof (intro conjI)
  have e: "EqualFold ''allow'' ''allow''" "\<not> EqualFold [] ''allow''" "EqualFold ''deny'' ''deny''" by code_simp+
  have m: "matches (routeMatch ''/v1/'' []) ''/v1/x''" "matches (routeMatch ''/'' []) ''/v1/x''"
    unfolding routeMatch_pathRuleMatches [OF assms]
    by (simp_all add: pathRuleMatches_def compilePathRegex_def regexPathMarker_def HasPrefix_def)
  show "ValidateRule (\<lambda>_. True) blank_action_rule = None" "ValidateRule (\<lambda>_. True) bare_default_rule = None"
    unfolding blank_action_rule_def bare_default_rule_def by (rule sample_path_valid; simp)+
  show "\<not> envoy_forwards matches (httpRoutes blank_action_rule cl ws) ''/v1/x''"
    by (simp add: envoy_forwards_def httpRoutes_def blank_action_rule_def path_route_def e httpDenyRoute_def m)
  show "\<not> envoy_forwards matches (httpRoutes bare_default_rule cl ws) ''/v1/x''"
    by (simp add: envoy_forwards_def httpRoutes_def bare_default_rule_def default_route_def EffectivePathDefault_def e httpDenyRoute_def m)
  show "evaluateRule compile (host_view blank_action_rule) host ''/v1/x'' = None"
    by (simp add: evaluateRule_def host_view_def blank_action_rule_def e checkPathRules_def path_step_def effectivePathDefault_def)
  show "evaluateRule compile (host_view bare_default_rule) host ''/v1/x'' = None"
    by (simp add: evaluateRule_def host_view_def bare_default_rule_def e)
qed

theorem path_evaluators_differ_witness:
  "\<not> envoy_forwards sample_matches (httpRoutes bare_default_rule ''c'' False) ''/v1/x'' \<and>
   evaluateRule (\<lambda>_. None) (host_view bare_default_rule) ''h'' ''/v1/x'' = None"
  using path_evaluators_differ [OF sample_path_match] by blast

end
