(* ===== verification/Agent_Registry.thy ===== *)
theory Agent_Registry
  imports Go_Net
begin

text \<open>
  The agent identity registry of \<open>controlplane/agent/registry.go\<close> and
  \<open>controlplane/agent/registry_sqlite.go\<close>, with the identity values of
  \<open>internal/auth/identity.go\<close>.

  The Go interface \<open>Registry\<close> is the record \<open>Registry\<close> of its four methods over a state of type
  \<open>'r\<close>; a method that writes returns the new state. The two implementations are the values
  \<open>registryImpl\<close>, a map keyed by thumbprint, and \<open>sqliteRegistry\<close>, the table \<open>agents\<close> with its
  two UNIQUE constraints, whose rows hold text columns that are validated again when they are read.
  What the sqlite driver does beyond the schema is an argument: every method takes a
  \<open>db_fault\<close> saying whether the driver fails in this call. A thumbprint is the string of its
  32 bytes, a time the number of nanoseconds since the Unix epoch.

  The locale \<open>agent_registry\<close> states what a client may rely on; both implementations are
  interpretations of it, and the register handler, the dialer and the reaper are proved over it.
\<close>

section \<open>Identity values\<close>

datatype AgentName = MkAgentName (AgentName_String: string)

datatype ProjectSlug = MkProjectSlug (ProjectSlug_String: string)

definition NewAgentName :: "string \<Rightarrow> string + AgentName" where
  "NewAgentName s = (if s = [] then Inl ''agent name required'' else Inr (MkAgentName s))"

definition AgentName_IsZero :: "AgentName \<Rightarrow> bool" where
  "AgentName_IsZero a \<longleftrightarrow> AgentName_String a = []"

definition AgentName_Less :: "AgentName \<Rightarrow> AgentName \<Rightarrow> bool" where
  "AgentName_Less a b \<longleftrightarrow> AgentName_String a < AgentName_String b"

definition NewProjectSlug :: "string \<Rightarrow> string + ProjectSlug" where
  "NewProjectSlug s = Inr (MkProjectSlug s)"

definition ProjectSlug_IsEmpty :: "ProjectSlug \<Rightarrow> bool" where
  "ProjectSlug_IsEmpty p \<longleftrightarrow> ProjectSlug_String p = []"

definition ProjectSlug_Less :: "ProjectSlug \<Rightarrow> ProjectSlug \<Rightarrow> bool" where
  "ProjectSlug_Less p q \<longleftrightarrow> ProjectSlug_String p < ProjectSlug_String q"

text \<open>The \<open>Less\<close> methods are the strict part of a linear order on each type.\<close>

instantiation AgentName :: linorder
begin

definition less_AgentName :: "AgentName \<Rightarrow> AgentName \<Rightarrow> bool" where
  "less_AgentName a b = AgentName_Less a b"

definition less_eq_AgentName :: "AgentName \<Rightarrow> AgentName \<Rightarrow> bool" where
  "less_eq_AgentName a b \<longleftrightarrow> AgentName_String a \<le> AgentName_String b"

instance
  by standard
    (auto simp: less_AgentName_def less_eq_AgentName_def AgentName_Less_def AgentName.expand)

end

instantiation ProjectSlug :: linorder
begin

definition less_ProjectSlug :: "ProjectSlug \<Rightarrow> ProjectSlug \<Rightarrow> bool" where
  "less_ProjectSlug p q = ProjectSlug_Less p q"

definition less_eq_ProjectSlug :: "ProjectSlug \<Rightarrow> ProjectSlug \<Rightarrow> bool" where
  "less_eq_ProjectSlug p q \<longleftrightarrow> ProjectSlug_String p \<le> ProjectSlug_String q"

instance
  by standard
    (auto simp: less_ProjectSlug_def less_eq_ProjectSlug_def ProjectSlug_Less_def
       ProjectSlug.expand)

end

section \<open>Entries\<close>

type_synonym thumbprint = string

definition sha256_Size :: nat where
  "sha256_Size = 32"

definition zero_thumbprint :: thumbprint where
  "zero_thumbprint = replicate sha256_Size (char_of (0::nat))"

text \<open>The zero \<open>time.Time\<close> is the start of year 1.\<close>

definition second :: int where
  "second = 1000000000"

definition zero_time :: int where
  "zero_time = - 62135596800 * second"

definition Unix :: "int \<Rightarrow> int" where
  "Unix t = t div second"

definition time_Unix :: "int \<Rightarrow> int" where
  "time_Unix s = s * second"

record Entry =
  AgentName :: AgentName
  Project :: ProjectSlug
  ContainerID :: string
  Thumbprint :: thumbprint
  RegisteredAt :: int
  LastSeen :: int

datatype reg_error =
    ErrUnknownAgent
  | ErrMalformedEntry string
  | ErrInvalidEntry string
  | ErrPersistence string

datatype db_fault = DbOk | DbErr string | RowsErr string

definition validateEntry :: "Entry \<Rightarrow> reg_error option" where
  "validateEntry e =
     (if Thumbprint e = zero_thumbprint then Some (ErrInvalidEntry ''agentregistry: Add called with zero thumbprint'')
      else if ContainerID e = [] then Some (ErrInvalidEntry ''agentregistry: Add called with empty ContainerID'')
      else if AgentName_IsZero (AgentName e) then Some (ErrInvalidEntry ''agentregistry: Add called with zero AgentName'')
      else if RegisteredAt e = zero_time then Some (ErrInvalidEntry ''agentregistry: Add called with zero RegisteredAt'')
      else None)"

definition default_LastSeen :: "Entry \<Rightarrow> Entry" where
  "default_LastSeen e = (if LastSeen e = zero_time then e\<lparr>LastSeen := RegisteredAt e\<rparr> else e)"

definition entry_key :: "Entry \<Rightarrow> ProjectSlug \<times> AgentName" where
  "entry_key e = (Project e, AgentName e)"

definition sortEntries :: "Entry list \<Rightarrow> Entry list" where
  "sortEntries es = sort_key entry_key es"

section \<open>The interface\<close>

record 'r Registry =
  Add :: "db_fault \<Rightarrow> 'r \<Rightarrow> Entry \<Rightarrow> reg_error option \<times> 'r"
  LookupByContainerID :: "db_fault \<Rightarrow> 'r \<Rightarrow> string \<Rightarrow> reg_error + Entry"
  EvictByContainerID :: "db_fault \<Rightarrow> 'r \<Rightarrow> string \<Rightarrow> reg_error option \<times> 'r"
  Snapshot :: "db_fault \<Rightarrow> 'r \<Rightarrow> reg_error + Entry list"

section \<open>The in-memory implementation\<close>

text \<open>
  The map \<open>entries\<close>, as an association list: the order of the list stands for the order in which
  a \<open>range\<close> loop happens to visit the map.
\<close>

type_synonym memory = "(thumbprint \<times> Entry) list"

fun map_put :: "'k \<Rightarrow> 'v \<Rightarrow> ('k \<times> 'v) list \<Rightarrow> ('k \<times> 'v) list" where
  "map_put k v [] = [(k, v)]"
| "map_put k v ((k', v') # m) = (if k' = k then (k, v) # m else (k', v') # map_put k v m)"

definition mem_Add :: "db_fault \<Rightarrow> memory \<Rightarrow> Entry \<Rightarrow> reg_error option \<times> memory" where
  "mem_Add _ m e =
     (case validateEntry e of
        Some err \<Rightarrow> (Some err, m)
      | None \<Rightarrow> (None, map_put (Thumbprint e) (default_LastSeen e) m))"

definition mem_LookupByContainerID :: "db_fault \<Rightarrow> memory \<Rightarrow> string \<Rightarrow> reg_error + Entry" where
  "mem_LookupByContainerID _ m cid =
     (if cid = [] then Inl ErrUnknownAgent
      else
        (case find (\<lambda>(_, e). ContainerID e = cid) m of
           Some (_, e) \<Rightarrow> Inr e
         | None \<Rightarrow> Inl ErrUnknownAgent))"

definition mem_EvictByContainerID :: "db_fault \<Rightarrow> memory \<Rightarrow> string \<Rightarrow> reg_error option \<times> memory" where
  "mem_EvictByContainerID _ m cid = (None, filter (\<lambda>(_, e). ContainerID e \<noteq> cid) m)"

definition mem_Snapshot :: "db_fault \<Rightarrow> memory \<Rightarrow> reg_error + Entry list" where
  "mem_Snapshot _ m = Inr (sortEntries (map snd m))"

definition registryImpl :: "memory Registry" where
  "registryImpl =
     \<lparr>Add = mem_Add, LookupByContainerID = mem_LookupByContainerID,
      EvictByContainerID = mem_EvictByContainerID, Snapshot = mem_Snapshot\<rparr>"

section \<open>The sqlite implementation\<close>

definition hex_char :: "nat \<Rightarrow> char" where
  "hex_char d = (if d < 10 then char_of (48 + d) else char_of (87 + d))"

definition hex_EncodeToString :: "string \<Rightarrow> string" where
  "hex_EncodeToString bs =
     concat (map (\<lambda>b. [hex_char (byte_of b div 16), hex_char (byte_of b mod 16)]) bs)"

fun hex_DecodeString :: "string \<Rightarrow> string option" where
  "hex_DecodeString [] = Some []"
| "hex_DecodeString [c] = None"
| "hex_DecodeString (c # d # cs) =
     (case hex_val c of
        None \<Rightarrow> None
      | Some h \<Rightarrow>
          (case hex_val d of
             None \<Rightarrow> None
           | Some l \<Rightarrow> map_option ((#) (char_of (16 * h + l))) (hex_DecodeString cs)))"

record Row =
  thumbprint_hex :: string
  container_id :: string
  agent_name :: string
  project :: string
  registered_at :: int
  last_seen :: int

type_synonym agents_table = "Row list"

definition row_of :: "Entry \<Rightarrow> Row" where
  "row_of e =
     \<lparr>thumbprint_hex = hex_EncodeToString (Thumbprint e), container_id = ContainerID e,
      agent_name = AgentName_String (AgentName e), project = ProjectSlug_String (Project e),
      registered_at = Unix (RegisteredAt e), last_seen = Unix (LastSeen e)\<rparr>"

text \<open>The statement INSERT: a row that repeats a thumbprint or a container id is refused.\<close>

definition insert_row :: "db_fault \<Rightarrow> agents_table \<Rightarrow> Row \<Rightarrow> string option \<times> agents_table" where
  "insert_row f t r =
     (case f of
        DbErr msg \<Rightarrow> (Some msg, t)
      | _ \<Rightarrow>
          if thumbprint_hex r \<in> thumbprint_hex ` set t \<or> container_id r \<in> container_id ` set t
          then (Some ''UNIQUE constraint failed'', t)
          else (None, t @ [r]))"

definition sql_Add :: "db_fault \<Rightarrow> agents_table \<Rightarrow> Entry \<Rightarrow> reg_error option \<times> agents_table" where
  "sql_Add f t e =
     (case validateEntry e of
        Some err \<Rightarrow> (Some err, t)
      | None \<Rightarrow>
          (case insert_row f t (row_of (default_LastSeen e)) of
             (Some msg, t') \<Rightarrow> (Some (ErrPersistence (''agentregistry: persist entry: '' @ msg)), t')
           | (None, t') \<Rightarrow> (None, t')))"

text \<open>
  Reading a row. The wrapped text of a malformed row's error is shortened to the column it blames.
\<close>

definition scanEntry :: "Row \<Rightarrow> reg_error + Entry" where
  "scanEntry r =
     (case hex_DecodeString (thumbprint_hex r) of
        None \<Rightarrow> Inl (ErrMalformedEntry ''thumbprint_hex'')
      | Some raw \<Rightarrow>
          if length raw \<noteq> sha256_Size then Inl (ErrMalformedEntry ''thumbprint_hex'')
          else
            (case NewAgentName (agent_name r) of
               Inl _ \<Rightarrow> Inl (ErrMalformedEntry ''agent_name'')
             | Inr a \<Rightarrow>
                 (case NewProjectSlug (project r) of
                    Inl _ \<Rightarrow> Inl (ErrMalformedEntry ''project'')
                  | Inr p \<Rightarrow>
                      Inr \<lparr>AgentName = a, Project = p, ContainerID = container_id r,
                           Thumbprint = raw, RegisteredAt = time_Unix (registered_at r),
                           LastSeen = time_Unix (last_seen r)\<rparr>)))"

definition sql_LookupByContainerID ::
  "db_fault \<Rightarrow> agents_table \<Rightarrow> string \<Rightarrow> reg_error + Entry" where
  "sql_LookupByContainerID f t cid =
     (if cid = [] then Inl ErrUnknownAgent
      else
        (case f of
           DbErr msg \<Rightarrow> Inl (ErrPersistence (''agentregistry: query LookupByContainerID: '' @ msg))
         | _ \<Rightarrow>
             (case find (\<lambda>r. container_id r = cid) t of
                None \<Rightarrow> Inl ErrUnknownAgent
              | Some r \<Rightarrow> scanEntry r)))"

definition sql_EvictByContainerID ::
  "db_fault \<Rightarrow> agents_table \<Rightarrow> string \<Rightarrow> reg_error option \<times> agents_table" where
  "sql_EvictByContainerID f t cid =
     (if cid = [] then (None, t)
      else
        (case f of
           DbErr msg \<Rightarrow> (Some (ErrPersistence (''agentregistry: delete by container_id: '' @ msg)), t)
         | RowsErr msg \<Rightarrow>
             (Some (ErrPersistence (''agentregistry: RowsAffected after evict (container_id='' @ cid @ ''): '' @ msg)),
              filter (\<lambda>r. container_id r \<noteq> cid) t)
         | DbOk \<Rightarrow> (None, filter (\<lambda>r. container_id r \<noteq> cid) t)))"

definition scanned :: "agents_table \<Rightarrow> Entry list" where
  "scanned t = concat (map (\<lambda>r. case scanEntry r of Inl _ \<Rightarrow> [] | Inr e \<Rightarrow> [e]) t)"

definition sql_Snapshot :: "db_fault \<Rightarrow> agents_table \<Rightarrow> reg_error + Entry list" where
  "sql_Snapshot f t =
     (case f of
        DbErr msg \<Rightarrow> Inl (ErrPersistence (''agentregistry: query snapshot: '' @ msg))
      | RowsErr msg \<Rightarrow> Inl (ErrPersistence (''agentregistry: iterate snapshot rows: '' @ msg))
      | DbOk \<Rightarrow> Inr (sortEntries (scanned t)))"

definition sqliteRegistry :: "agents_table Registry" where
  "sqliteRegistry =
     \<lparr>Add = sql_Add, LookupByContainerID = sql_LookupByContainerID,
      EvictByContainerID = sql_EvictByContainerID, Snapshot = sql_Snapshot\<rparr>"

section \<open>What a client may rely on\<close>

definition same_identity :: "Entry \<Rightarrow> Entry \<Rightarrow> bool" where
  "same_identity d e \<longleftrightarrow>
     AgentName d = AgentName e \<and> Project d = Project e \<and> ContainerID d = ContainerID e \<and>
     Thumbprint d = Thumbprint e"

text \<open>
  The contract of the interface, over an abstract view of the state: \<open>rows\<close> maps a container id to
  its readable entry, \<open>bad\<close> holds the ids whose row no longer validates, \<open>uses\<close> says that some row
  holds a thumbprint.
\<close>

locale agent_registry =
  fixes R :: "'r Registry"
    and ok :: "'r \<Rightarrow> bool"
    and rows :: "'r \<Rightarrow> string \<rightharpoonup> Entry"
    and bad :: "'r \<Rightarrow> string set"
    and uses :: "'r \<Rightarrow> thumbprint \<Rightarrow> bool"
  assumes rows_cid: "ok r \<Longrightarrow> rows r c = Some e \<Longrightarrow> ContainerID e = c \<and> c \<noteq> [] \<and> c \<notin> bad r"
    and lookup_sound: "ok r \<Longrightarrow> LookupByContainerID R f r c = Inr e \<Longrightarrow> rows r c = Some e"
    and lookup_unknown:
      "ok r \<Longrightarrow> LookupByContainerID R f r c = Inl ErrUnknownAgent \<Longrightarrow> rows r c = None \<and> c \<notin> bad r"
    and lookup_malformed:
      "ok r \<Longrightarrow> LookupByContainerID R f r c = Inl (ErrMalformedEntry m) \<Longrightarrow> c \<in> bad r"
    and lookup_total:
      "ok r \<Longrightarrow> rows r c = Some e \<Longrightarrow> LookupByContainerID R DbOk r c = Inr e"
      "ok r \<Longrightarrow> rows r c = None \<Longrightarrow> c \<notin> bad r \<Longrightarrow>
         LookupByContainerID R DbOk r c = Inl ErrUnknownAgent"
      "ok r \<Longrightarrow> c \<in> bad r \<Longrightarrow> \<exists>m. LookupByContainerID R DbOk r c = Inl (ErrMalformedEntry m)"
    and add_refused: "Add R f r e = (Some err, r') \<Longrightarrow> r' = r"
    and add_effect:
      "ok r \<Longrightarrow> Add R f r e = (None, r') \<Longrightarrow> length (Thumbprint e) = sha256_Size \<Longrightarrow>
         rows r (ContainerID e) = None \<Longrightarrow> ContainerID e \<notin> bad r \<Longrightarrow> \<not> uses r (Thumbprint e) \<Longrightarrow>
         ok r' \<and> bad r' = bad r \<and>
         (\<exists>d. same_identity d e \<and> rows r' = (rows r)(ContainerID e \<mapsto> d))"
    and add_ok:
      "ok r \<Longrightarrow> validateEntry e = None \<Longrightarrow> rows r (ContainerID e) = None \<Longrightarrow>
         ContainerID e \<notin> bad r \<Longrightarrow> \<not> uses r (Thumbprint e) \<Longrightarrow> fst (Add R DbOk r e) = None"
    and evict_effect:
      "ok r \<Longrightarrow> EvictByContainerID R f r c = (res, r') \<Longrightarrow>
         ok r' \<and> (\<forall>tp. uses r' tp \<longrightarrow> uses r tp) \<and>
         (r' = r \<and> res \<noteq> None \<or> rows r' = (rows r)(c := None) \<and> bad r' = bad r - {c})"
    and evict_ok: "fst (EvictByContainerID R DbOk r c) = None"
    and snapshot_effect:
      "ok r \<Longrightarrow> Snapshot R f r = Inr es \<Longrightarrow>
         sorted (map entry_key es) \<and> distinct (map ContainerID es) \<and> set es = ran (rows r)"
    and snapshot_ok: "\<exists>es. Snapshot R DbOk r = Inr es"

text \<open>A registry that itself refuses a repeated container id or thumbprint.\<close>

locale unique_registry = agent_registry +
  assumes add_unique:
    "ok r \<Longrightarrow> Add R f r e = (None, r') \<Longrightarrow>
       rows r (ContainerID e) = None \<and> ContainerID e \<notin> bad r \<and> \<not> uses r (Thumbprint e)"

section \<open>The in-memory registry meets the contract\<close>

lemma map_put_fresh: "k \<notin> fst ` set m \<Longrightarrow> map_put k v m = m @ [(k, v)]"
  by (induction m) auto

lemma default_LastSeen_identity [simp]:
  "AgentName (default_LastSeen e) = AgentName e" "Project (default_LastSeen e) = Project e"
  "ContainerID (default_LastSeen e) = ContainerID e"
  "Thumbprint (default_LastSeen e) = Thumbprint e"
  "RegisteredAt (default_LastSeen e) = RegisteredAt e"
  by (simp_all add: default_LastSeen_def)

lemma find_key:
  "distinct (map f xs) \<Longrightarrow> find (\<lambda>y. f y = k) xs = Some x \<longleftrightarrow> x \<in> set xs \<and> f x = k"
  by (induction xs) auto

lemma find_key_None: "find (\<lambda>y. f y = k) xs = None \<longleftrightarrow> k \<notin> f ` set xs"
  by (induction xs) auto

lemma find_filter_key:
  "find (\<lambda>y. f y = k) (filter (\<lambda>y. f y \<noteq> c) xs) =
     (if k = c then None else find (\<lambda>y. f y = k) xs)"
  by (induction xs) auto

abbreviation mem_cid :: "thumbprint \<times> Entry \<Rightarrow> string" where
  "mem_cid \<equiv> \<lambda>kv. ContainerID (snd kv)"

definition mem_ok :: "memory \<Rightarrow> bool" where
  "mem_ok m \<longleftrightarrow>
     distinct (map fst m) \<and> distinct (map mem_cid m) \<and> [] \<notin> mem_cid ` set m \<and>
     list_all (\<lambda>kv. Thumbprint (snd kv) = fst kv) m"

definition mem_rows :: "memory \<Rightarrow> string \<rightharpoonup> Entry" where
  "mem_rows m c = map_option snd (find (\<lambda>kv. mem_cid kv = c) m)"

lemma mem_rows_Some:
  "mem_ok m \<Longrightarrow> mem_rows m c = Some e \<longleftrightarrow> e \<in> snd ` set m \<and> ContainerID e = c"
  by (force simp: mem_rows_def find_key mem_ok_def)

lemma mem_rows_None: "mem_rows m c = None \<longleftrightarrow> c \<notin> mem_cid ` set m"
  by (simp add: mem_rows_def find_key_None)

lemma mem_rows_Nil: "mem_ok m \<Longrightarrow> mem_rows m [] = None"
  by (auto simp: mem_rows_None mem_ok_def)

lemma mem_lookup:
  "mem_ok m \<Longrightarrow> mem_LookupByContainerID f m c =
     (case mem_rows m c of Some e \<Rightarrow> Inr e | None \<Rightarrow> Inl ErrUnknownAgent)"
  using mem_rows_Nil [of m]
  by (auto simp: mem_LookupByContainerID_def mem_rows_def case_prod_unfold split: option.splits)

lemma mem_snapshot_rows:
  assumes "mem_ok m"
  shows "distinct (map (ContainerID \<circ> snd) m)" "ran (mem_rows m) = snd ` set m"
  using assms by (auto simp: ran_def mem_rows_Some) (simp add: mem_ok_def comp_def)

lemma mem_evict_rows:
  "mem_rows (filter (\<lambda>(_, e). ContainerID e \<noteq> c) m) = (mem_rows m)(c := None)"
  using find_filter_key [of mem_cid _ c m] by (auto simp: mem_rows_def case_prod_unfold)

lemma mem_evict_ok: "mem_ok m \<Longrightarrow> mem_ok (filter (\<lambda>(_, e). ContainerID e \<noteq> c) m)"
  by (auto simp: mem_ok_def distinct_map_filter list_all_iff)

lemma mem_add_rows:
  assumes "mem_ok m" "mem_rows m (ContainerID e) = None" "Thumbprint e \<notin> fst ` set m"
    and "ContainerID e \<noteq> []"
  shows "mem_ok (m @ [(Thumbprint e, e)])"
    and "mem_rows (m @ [(Thumbprint e, e)]) = (mem_rows m)(ContainerID e \<mapsto> e)"
proof -
  show "mem_ok (m @ [(Thumbprint e, e)])"
    using assms by (auto simp: mem_ok_def mem_rows_None)
  show "mem_rows (m @ [(Thumbprint e, e)]) = (mem_rows m)(ContainerID e \<mapsto> e)"
    using assms(2) by (auto simp: mem_rows_def find_append split: option.splits)
qed

lemma sortEntries_set [simp]: "set (sortEntries es) = set es"
  by (simp add: sortEntries_def)

lemma sortEntries_sorted: "sorted (map entry_key (sortEntries es))"
  by (simp add: sortEntries_def)

lemma sortEntries_distinct: "distinct (map f (sortEntries es)) \<longleftrightarrow> distinct (map f es)"
  by (simp add: sortEntries_def distinct_map)

lemma validateEntry_None:
  "validateEntry e = None \<longleftrightarrow>
     Thumbprint e \<noteq> zero_thumbprint \<and> ContainerID e \<noteq> [] \<and> \<not> AgentName_IsZero (AgentName e) \<and>
     RegisteredAt e \<noteq> zero_time"
  by (simp add: validateEntry_def)

interpretation mem: agent_registry registryImpl mem_ok mem_rows "\<lambda>_. {}" "\<lambda>m tp. tp \<in> fst ` set m"
proof unfold_locales
  fix m :: memory and f c e
  assume "mem_ok m" "mem_rows m c = Some e"
  then show "ContainerID e = c \<and> c \<noteq> [] \<and> c \<notin> {}"
    by (force simp: mem_rows_Some mem_ok_def)
next
  fix m m' :: memory and f e
  assume "mem_ok m" "Add registryImpl f m e = (None, m')" "mem_rows m (ContainerID e) = None"
    "Thumbprint e \<notin> fst ` set m"
  then show "mem_ok m' \<and> {} = {} \<and>
      (\<exists>d. same_identity d e \<and> mem_rows m' = (mem_rows m)(ContainerID e \<mapsto> d))"
    using mem_add_rows [of m "default_LastSeen e"]
    by (auto simp: registryImpl_def mem_Add_def map_put_fresh validateEntry_None same_identity_def
        split: option.splits intro!: exI [of _ "default_LastSeen e"])
qed (auto simp: registryImpl_def mem_lookup mem_Add_def mem_EvictByContainerID_def
    mem_Snapshot_def mem_evict_rows mem_evict_ok mem_snapshot_rows sortEntries_sorted
    sortEntries_distinct validateEntry_None intro: image_eqI [where f = snd, OF snd_conv [symmetric]]
    split: if_splits option.splits)

section \<open>The sqlite registry meets the contract\<close>

text \<open>What the schema guarantees, and that no row was written with an empty container id.\<close>

definition sql_ok :: "agents_table \<Rightarrow> bool" where
  "sql_ok t \<longleftrightarrow>
     distinct (map thumbprint_hex t) \<and> distinct (map container_id t) \<and> [] \<notin> container_id ` set t"

definition sql_rows :: "agents_table \<Rightarrow> string \<rightharpoonup> Entry" where
  "sql_rows t c =
     (case find (\<lambda>r. container_id r = c) t of
        None \<Rightarrow> None
      | Some r \<Rightarrow> (case scanEntry r of Inl _ \<Rightarrow> None | Inr e \<Rightarrow> Some e))"

definition sql_bad :: "agents_table \<Rightarrow> string set" where
  "sql_bad t = container_id ` {r \<in> set t. isl (scanEntry r)}"

definition sql_uses :: "agents_table \<Rightarrow> thumbprint \<Rightarrow> bool" where
  "sql_uses t tp \<longleftrightarrow> hex_EncodeToString tp \<in> thumbprint_hex ` set t"

lemma hex_val_hex_char: "d < 16 \<Longrightarrow> hex_val (hex_char d) = Some d"
  by (auto simp: hex_val_def hex_char_def is_digit_def byte_of_char_of)

lemma hex_roundtrip: "hex_DecodeString (hex_EncodeToString bs) = Some bs"
proof (induction bs)
  case (Cons b bs)
  have "byte_of b div 16 < 16" using byte_of_bound [of b] by auto
  then show ?case
    using Cons by (simp add: hex_EncodeToString_def hex_val_hex_char) (simp add: byte_of_def)
qed (simp add: hex_EncodeToString_def)

lemma scanEntry_cid: "scanEntry r = Inr e \<Longrightarrow> ContainerID e = container_id r"
  by (auto simp: scanEntry_def split: option.splits if_splits sum.splits)

lemma scanEntry_error: "scanEntry r = Inl err \<Longrightarrow> \<exists>m. err = ErrMalformedEntry m"
  by (auto simp: scanEntry_def split: option.splits if_splits sum.splits)

text \<open>The round trip through the table: identity is kept, times are cut to whole seconds.\<close>

definition stored :: "Entry \<Rightarrow> Entry" where
  "stored e =
     (let d = default_LastSeen e in
      d\<lparr>RegisteredAt := time_Unix (Unix (RegisteredAt d)), LastSeen := time_Unix (Unix (LastSeen d))\<rparr>)"

lemma scan_row_of:
  assumes "length (Thumbprint e) = sha256_Size" "\<not> AgentName_IsZero (AgentName e)"
  shows "scanEntry (row_of (default_LastSeen e)) = Inr (stored e)"
  using assms
  by (simp add: scanEntry_def row_of_def hex_roundtrip NewAgentName_def NewProjectSlug_def
      AgentName_IsZero_def stored_def Let_def)

lemma sql_find:
  "sql_ok t \<Longrightarrow> find (\<lambda>r. container_id r = c) t = Some r \<longleftrightarrow> r \<in> set t \<and> container_id r = c"
  by (simp add: find_key sql_ok_def)

lemma sql_rows_Some:
  assumes "sql_ok t"
  shows "sql_rows t c = Some e \<longleftrightarrow> (\<exists>r \<in> set t. scanEntry r = Inr e \<and> container_id r = c)"
proof (cases "find (\<lambda>r. container_id r = c) t")
  case None
  then have "c \<notin> container_id ` set t" by (simp add: find_key_None)
  with None show ?thesis by (auto simp: sql_rows_def)
next
  case (Some r)
  then have "r \<in> set t \<and> container_id r = c" using assms by (simp add: sql_find)
  moreover have "r' = r" if "r' \<in> set t" "container_id r' = c" for r'
    using that sql_find [OF assms, of c r'] Some by simp
  ultimately have "(\<exists>r' \<in> set t. scanEntry r' = Inr e \<and> container_id r' = c) \<longleftrightarrow> scanEntry r = Inr e"
    by blast
  with Some show ?thesis by (simp add: sql_rows_def split: sum.splits)
qed

lemma sql_bad_iff:
  assumes "sql_ok t"
  shows "c \<in> sql_bad t \<longleftrightarrow>
    (\<exists>r m. find (\<lambda>r. container_id r = c) t = Some r \<and> scanEntry r = Inl (ErrMalformedEntry m))"
  using scanEntry_error by (auto simp: sql_bad_def sql_find [OF assms] isl_def)

lemma sql_lookup:
  assumes "sql_ok t"
  shows "sql_LookupByContainerID DbOk t c =
    (case find (\<lambda>r. container_id r = c) t of None \<Rightarrow> Inl ErrUnknownAgent | Some r \<Rightarrow> scanEntry r)"
proof (cases "c = []")
  case True
  then have "find (\<lambda>r. container_id r = c) t = None"
    using assms by (simp add: find_key_None sql_ok_def)
  with True show ?thesis by (simp add: sql_LookupByContainerID_def)
qed (simp add: sql_LookupByContainerID_def)

lemma sql_lookup_cases:
  "sql_LookupByContainerID f t c = sql_LookupByContainerID DbOk t c \<or>
   (\<exists>m. sql_LookupByContainerID f t c = Inl (ErrPersistence m))"
  by (cases f) (auto simp: sql_LookupByContainerID_def)

lemma sql_evict_rows:
  "sql_rows (filter (\<lambda>r. container_id r \<noteq> c) t) = (sql_rows t)(c := None)"
  by (auto simp: sql_rows_def find_filter_key)

lemma sql_evict_bad: "sql_bad (filter (\<lambda>r. container_id r \<noteq> c) t) = sql_bad t - {c}"
  by (auto simp: sql_bad_def)

lemma sql_evict_ok: "sql_ok t \<Longrightarrow> sql_ok (filter (\<lambda>r. container_id r \<noteq> c) t)"
  by (auto simp: sql_ok_def distinct_map_filter)

lemma sql_add_rows:
  assumes "sql_ok t" "sql_Add f t e = (None, t')" "length (Thumbprint e) = sha256_Size"
  shows "sql_ok t'" "sql_rows t' = (sql_rows t)(ContainerID e \<mapsto> stored e)" "sql_bad t' = sql_bad t"
proof -
  let ?r = "row_of (default_LastSeen e)"
  have cid: "container_id ?r = ContainerID e" by (simp add: row_of_def)
  from assms(2) have "validateEntry e = None" and t': "t' = t @ [?r]"
    and new: "thumbprint_hex ?r \<notin> thumbprint_hex ` set t" "ContainerID e \<notin> container_id ` set t"
    by (auto simp: sql_Add_def insert_row_def cid split: option.splits prod.splits db_fault.splits
        if_splits)
  then have v: "ContainerID e \<noteq> []" and scan: "scanEntry ?r = Inr (stored e)"
    using assms(3) by (auto simp: validateEntry_None scan_row_of)
  from new(2) have free: "find (\<lambda>r. container_id r = ContainerID e) t = None"
    by (simp add: find_key_None)
  show "sql_ok t'" using assms(1) new v cid by (auto simp: sql_ok_def t')
  show "sql_rows t' = (sql_rows t)(ContainerID e \<mapsto> stored e)"
    using cid scan free by (auto simp: sql_rows_def t' find_append split: option.splits)
  show "sql_bad t' = sql_bad t" using scan by (auto simp: sql_bad_def t')
qed

lemma scanned_set: "set (scanned t) = {e. \<exists>r \<in> set t. scanEntry r = Inr e}"
  by (auto simp: scanned_def split: sum.splits)

lemma scanned_distinct: "distinct (map container_id t) \<Longrightarrow> distinct (map ContainerID (scanned t))"
proof (induction t)
  case (Cons r t)
  have "c \<in> ContainerID ` set (scanned t) \<Longrightarrow> c \<in> container_id ` set t" for c
    using scanEntry_cid by (force simp: scanned_set)
  then show ?case
    using Cons scanEntry_cid [of r] by (auto simp: scanned_def split: sum.splits)
qed (simp add: scanned_def)

lemma sql_snapshot_rows: "sql_ok t \<Longrightarrow> ran (sql_rows t) = set (scanned t)"
  by (auto simp: ran_def scanned_set sql_rows_Some)

lemma sql_add_unique:
  assumes "sql_ok t" "sql_Add f t e = (None, t')"
  shows "sql_rows t (ContainerID e) = None" "ContainerID e \<notin> sql_bad t" "\<not> sql_uses t (Thumbprint e)"
proof -
  from assms(2) have tp: "hex_EncodeToString (Thumbprint e) \<notin> thumbprint_hex ` set t"
    and cid: "ContainerID e \<notin> container_id ` set t"
    by (auto simp: sql_Add_def insert_row_def row_of_def split: option.splits prod.splits
        db_fault.splits if_splits)
  from cid have "find (\<lambda>r. container_id r = ContainerID e) t = None" by (simp add: find_key_None)
  then show "sql_rows t (ContainerID e) = None" by (simp add: sql_rows_def)
  from cid show "ContainerID e \<notin> sql_bad t" by (auto simp: sql_bad_def)
  from tp show "\<not> sql_uses t (Thumbprint e)" by (simp add: sql_uses_def)
qed

lemma sql_add_succeeds:
  assumes "sql_ok t" "validateEntry e = None" "sql_rows t (ContainerID e) = None"
    "ContainerID e \<notin> sql_bad t" "\<not> sql_uses t (Thumbprint e)"
  shows "fst (sql_Add DbOk t e) = None"
proof -
  have "ContainerID e \<notin> container_id ` set t"
  proof
    assume "ContainerID e \<in> container_id ` set t"
    then obtain r where r: "r \<in> set t" "container_id r = ContainerID e" by auto
    show False
    proof (cases "scanEntry r")
      case (Inl x)
      with r assms(4) show False by (force simp: sql_bad_def)
    next
      case (Inr d)
      with r have "sql_rows t (ContainerID e) = Some d" using assms(1) by (auto simp: sql_rows_Some)
      with assms(3) show False by simp
    qed
  qed
  then show ?thesis using assms(2,5)
    by (auto simp: sql_Add_def insert_row_def row_of_def sql_uses_def)
qed

lemma sql_evict_cases:
  assumes "sql_ok t" "sql_EvictByContainerID f t c = (res, t')"
  shows "t' = filter (\<lambda>r. container_id r \<noteq> c) t \<or> (t' = t \<and> res \<noteq> None)"
proof -
  have "filter (\<lambda>r. container_id r \<noteq> []) t = t"
    using assms(1) by (force simp: sql_ok_def intro: filter_True)
  then show ?thesis using assms(2)
    by (cases f) (auto simp: sql_EvictByContainerID_def split: if_splits)
qed

interpretation sql: unique_registry sqliteRegistry sql_ok sql_rows sql_bad sql_uses
proof unfold_locales
  fix t c e
  assume ok: "sql_ok t" and "sql_rows t c = Some e"
  then obtain r where r: "find (\<lambda>r. container_id r = c) t = Some r" "scanEntry r = Inr e"
    by (auto simp: sql_rows_def split: option.splits sum.splits)
  then have "r \<in> set t" "container_id r = c" using ok by (simp_all add: sql_find)
  with ok have "c \<noteq> []" by (force simp: sql_ok_def)
  moreover have "c \<notin> sql_bad t" using r sql_bad_iff [OF ok, of c] by simp
  ultimately show "ContainerID e = c \<and> c \<noteq> [] \<and> c \<notin> sql_bad t"
    using scanEntry_cid [of r e] r \<open>container_id r = c\<close> by simp
next
  fix t f c e
  assume "sql_ok t" "LookupByContainerID sqliteRegistry f t c = Inr e"
  then show "sql_rows t c = Some e"
    using sql_lookup_cases [of f t c]
    by (auto simp: sqliteRegistry_def sql_lookup sql_rows_def split: option.splits sum.splits)
next
  fix t f c
  assume "sql_ok t" "LookupByContainerID sqliteRegistry f t c = Inl ErrUnknownAgent"
  then show "sql_rows t c = None \<and> c \<notin> sql_bad t"
    using sql_lookup_cases [of f t c] scanEntry_error
    by (auto simp: sqliteRegistry_def sql_lookup sql_rows_def sql_bad_iff
        split: option.splits sum.splits)
next
  fix t f c m
  assume "sql_ok t" "LookupByContainerID sqliteRegistry f t c = Inl (ErrMalformedEntry m)"
  then show "c \<in> sql_bad t"
    using sql_lookup_cases [of f t c]
    by (auto simp: sqliteRegistry_def sql_lookup sql_bad_iff dest: sym split: option.splits)
next
  fix t c e
  assume "sql_ok t" "sql_rows t c = Some e"
  then show "LookupByContainerID sqliteRegistry DbOk t c = Inr e"
    by (auto simp: sqliteRegistry_def sql_lookup sql_rows_def split: option.splits sum.splits)
next
  fix t c
  assume "sql_ok t" "sql_rows t c = None" "c \<notin> sql_bad t"
  then show "LookupByContainerID sqliteRegistry DbOk t c = Inl ErrUnknownAgent"
    using scanEntry_error
    by (auto simp: sqliteRegistry_def sql_lookup sql_rows_def sql_bad_iff
        split: option.splits sum.splits)
next
  fix t c
  assume "sql_ok t" "c \<in> sql_bad t"
  then show "\<exists>m. LookupByContainerID sqliteRegistry DbOk t c = Inl (ErrMalformedEntry m)"
    by (auto simp: sqliteRegistry_def sql_lookup sql_bad_iff)
next
  fix t t' f e err
  assume "Add sqliteRegistry f t e = (Some err, t')"
  then show "t' = t"
    by (auto simp: sqliteRegistry_def sql_Add_def insert_row_def
        split: option.splits prod.splits db_fault.splits if_splits)
next
  fix t t' f c res
  assume ok: "sql_ok t" and "EvictByContainerID sqliteRegistry f t c = (res, t')"
  then have "t' = filter (\<lambda>r. container_id r \<noteq> c) t \<or> (t' = t \<and> res \<noteq> None)"
    using sql_evict_cases [OF ok] by (auto simp: sqliteRegistry_def)
  then show "sql_ok t' \<and> (\<forall>tp. sql_uses t' tp \<longrightarrow> sql_uses t tp) \<and>
      (t' = t \<and> res \<noteq> None \<or> sql_rows t' = (sql_rows t)(c := None) \<and> sql_bad t' = sql_bad t - {c})"
    using ok by (auto simp: sql_evict_rows sql_evict_bad sql_evict_ok sql_uses_def)
next
  fix t f es
  assume "sql_ok t" "Snapshot sqliteRegistry f t = Inr es"
  then show "sorted (map entry_key es) \<and> distinct (map ContainerID es) \<and> set es = ran (sql_rows t)"
    by (cases f) (auto simp: sqliteRegistry_def sql_Snapshot_def sortEntries_sorted
        sortEntries_distinct scanned_distinct sql_snapshot_rows sql_ok_def)
qed (auto simp: sqliteRegistry_def sql_add_succeeds sql_EvictByContainerID_def sql_Snapshot_def
    same_identity_def stored_def Let_def
    dest: sql_add_rows sql_add_unique intro!: exI [of _ "stored _"])

end
