(* ===== verification/Agent_Identity.thy ===== *)
theory Agent_Identity
  imports Agent_Registry
begin

text \<open>
  How the control plane decides who is calling: the bearer-token gate of
  \<open>controlplane/auth/authz.go\<close>, the certificate names of \<open>internal/auth/agent_cert.go\<close>, the peer
  projection of \<open>controlplane/agent/handler.go\<close>, the Docker lookup of
  \<open>controlplane/agent/peer_lookup_moby.go\<close>, the identity gate of
  \<open>controlplane/agent/identity_interceptor.go\<close> and the handler of
  \<open>controlplane/agent/register_handler.go\<close>, composed as the agent listener of
  \<open>controlplane/server/grpc_stack.go\<close> chains them.

  A request context is a record of what the code reads from it. Hydra's introspection, the Docker
  daemon's answers, the digest function and the clock are arguments. A certificate carries its DER
  bytes, its common name and the string forms of its URI names (nothing for a nil pointer).
\<close>

section \<open>Status codes and contexts\<close>

datatype code = InvalidArgument | PermissionDenied | Internal | Unauthenticated

datatype status = Status code string

record Certificate =
  Raw :: string
  CommonName :: string
  URIs :: "string option list"

datatype auth_info = TLSInfo "Certificate list" | NoTLS

text \<open>A peer's address is the \<open>host:port\<close> string of its \<open>net.Addr\<close>; nothing for nil.\<close>

record Peer =
  Addr :: "string option"
  AuthInfo :: auth_info

record ResolvedContainer =
  rc_ContainerID :: string
  rc_Project :: ProjectSlug
  rc_AgentName :: AgentName

record Context =
  metadata :: "(string \<rightharpoonup> string list) option"
  peer :: "Peer option"
  resolved :: "ResolvedContainer option"

section \<open>The bearer-token gate\<close>

text \<open>\<open>strings.Fields\<close>: the maximal runs of bytes without a space rune.\<close>

function Fields_from :: "string \<Rightarrow> string \<Rightarrow> string list" where
  "Fields_from cur s =
     (case strip_one space_encodings s of
        Some t \<Rightarrow> (if cur = [] then Fields_from [] t else cur # Fields_from [] t)
      | None \<Rightarrow>
          (case s of
             [] \<Rightarrow> if cur = [] then [] else [cur]
           | c # cs \<Rightarrow> Fields_from (cur @ [c]) cs))"
  by pat_completeness auto
termination
  by (relation "measure (\<lambda>(cur, s). length s)") (auto simp: strip_one_length)

declare Fields_from.simps [simp del]

definition Fields :: "string \<Rightarrow> string list" where
  "Fields s = Fields_from [] s"

definition hasScope :: "string \<Rightarrow> string \<Rightarrow> bool" where
  "hasScope scopeStr required \<longleftrightarrow> required \<in> set (Fields scopeStr)"

definition extractBearerToken :: "Context \<Rightarrow> string + string" where
  "extractBearerToken ctx =
     (case metadata ctx of
        None \<Rightarrow> Inl ''no metadata''
      | Some md \<Rightarrow>
          (case md ''authorization'' of
             Some (auth # _) \<Rightarrow>
               if HasPrefix auth ''Bearer '' then Inr (TrimPrefix auth ''Bearer '')
               else Inl ''not a bearer token''
           | _ \<Rightarrow> Inl ''no authorization header''))"

record IntrospectionResult =
  Active :: bool
  Scope :: string
  ClientID :: string

type_synonym introspector = "string \<Rightarrow> string \<Rightarrow> string + IntrospectionResult"

definition ScopePublic :: string where
  "ScopePublic = ''public''"

record AuthInterceptor =
  methodScopes :: "string \<rightharpoonup> string"
  requiredClientID :: string

definition NewAuthInterceptor :: "(string \<rightharpoonup> string) \<Rightarrow> AuthInterceptor" where
  "NewAuthInterceptor ms = \<lparr>methodScopes = ms, requiredClientID = []\<rparr>"

definition RequireClientID :: "AuthInterceptor \<Rightarrow> string \<Rightarrow> AuthInterceptor" where
  "RequireClientID a cid = a\<lparr>requiredClientID := cid\<rparr>"

definition missing_scope :: "string \<Rightarrow> status" where
  "missing_scope s = Status PermissionDenied (''token missing required scope '' @ s)"

definition authorize ::
  "introspector \<Rightarrow> AuthInterceptor \<Rightarrow> Context \<Rightarrow> string \<Rightarrow> status option" where
  "authorize introspect a ctx fullMethod =
     (case methodScopes a fullMethod of
        None \<Rightarrow> Some (Status Unauthenticated ''unauthorized'')
      | Some required \<Rightarrow>
          if required = [] then Some (Status Unauthenticated ''unauthorized'')
          else if required = ScopePublic then None
          else
            (case extractBearerToken ctx of
               Inl _ \<Rightarrow> Some (Status Unauthenticated ''missing bearer token'')
             | Inr token \<Rightarrow>
                 (case introspect token required of
                    Inl _ \<Rightarrow> Some (Status Unauthenticated ''token validation failed'')
                  | Inr result \<Rightarrow>
                      if \<not> Active result then
                        Some (Status Unauthenticated ''token inactive or invalid'')
                      else if \<not> hasScope (Scope result) required then
                        Some (missing_scope required)
                      else if requiredClientID a \<noteq> [] \<and> ClientID result \<noteq> requiredClientID a then
                        Some (missing_scope required)
                      else None)))"

definition ScopeSelfRegister :: string where
  "ScopeSelfRegister = ''agent:self:register''"

definition Register_method :: string where
  "Register_method = ''/clawker.agent.v1.AgentService/Register''"

definition AgentMethodScopes :: "string \<rightharpoonup> string" where
  "AgentMethodScopes = [Register_method \<mapsto> ScopeSelfRegister]"

definition ScopeAdmin :: string where
  "ScopeAdmin = ''admin''"

definition admin_methods :: "string list" where
  "admin_methods =
     [''FirewallInit'', ''FirewallRemove'', ''FirewallEnable'', ''FirewallDisable'',
      ''FirewallBypass'', ''FirewallAddRules'', ''FirewallRemoveRule'', ''FirewallListRules'',
      ''FirewallReload'', ''FirewallStatus'', ''FirewallRotateCA'', ''FirewallSyncRoutes'',
      ''FirewallResolveHostname'', ''ListAgents'']"

definition admin_service :: string where
  "admin_service = ''/clawker.admin.v1.AdminService/''"

definition AdminMethodScopes :: "string \<rightharpoonup> string" where
  "AdminMethodScopes =
     map_of ((admin_service @ ''GetSystemTime'', ScopePublic) #
       map (\<lambda>m. (admin_service @ m, ScopeAdmin)) admin_methods)"

definition ClientIDAgent :: string where
  "ClientIDAgent = ''clawker-agent''"

definition adminInterceptor :: AuthInterceptor where
  "adminInterceptor = NewAuthInterceptor AdminMethodScopes"

definition agentInterceptor :: AuthInterceptor where
  "agentInterceptor = RequireClientID (NewAuthInterceptor AgentMethodScopes) ClientIDAgent"

section \<open>Names in certificates\<close>

definition ContainerSANScheme :: string where
  "ContainerSANScheme = ''urn:clawker:container:''"

definition AgentSANScheme :: string where
  "AgentSANScheme = ''urn:clawker:agent:''"

datatype sanState = sanMissing | sanMalformed | sanFound

fun san_tail :: "string option list \<Rightarrow> string \<Rightarrow> string \<times> sanState" where
  "san_tail [] p = ([], sanMissing)"
| "san_tail (None # us) p = san_tail us p"
| "san_tail (Some s # us) p =
     (if length s < length p \<or> take (length p) s \<noteq> p then san_tail us p
      else if drop (length p) s = [] then ([], sanMalformed)
      else (drop (length p) s, sanFound))"

definition sanTailFromCert :: "Certificate option \<Rightarrow> string \<Rightarrow> string \<times> sanState" where
  "sanTailFromCert cert p =
     (case cert of None \<Rightarrow> ([], sanMissing) | Some c \<Rightarrow> san_tail (URIs c) p)"

datatype san_error =
  ErrAgentSANMissing | ErrAgentSANMalformed | ErrContainerSANMissing | ErrContainerSANMalformed

definition ContainerIDFromCert :: "Certificate option \<Rightarrow> san_error + string" where
  "ContainerIDFromCert cert =
     (case sanTailFromCert cert ContainerSANScheme of
        (suffix, sanFound) \<Rightarrow> Inr suffix
      | (_, sanMalformed) \<Rightarrow> Inl ErrContainerSANMalformed
      | (_, sanMissing) \<Rightarrow> Inl ErrContainerSANMissing)"

definition AgentFullNameFromCert :: "Certificate option \<Rightarrow> san_error + string" where
  "AgentFullNameFromCert cert =
     (case sanTailFromCert cert AgentSANScheme of
        (suffix, sanFound) \<Rightarrow> Inr suffix
      | (_, sanMalformed) \<Rightarrow> Inl ErrAgentSANMalformed
      | (_, sanMissing) \<Rightarrow> Inl ErrAgentSANMissing)"

definition AgentFullName :: "ProjectSlug \<Rightarrow> AgentName \<Rightarrow> string" where
  "AgentFullName p a =
     (if ProjectSlug_IsEmpty p then ''clawker.'' @ AgentName_String a
      else ''clawker.'' @ ProjectSlug_String p @ ''.'' @ AgentName_String a)"

definition isHexLower :: "string \<Rightarrow> bool" where
  "isHexLower s \<longleftrightarrow>
     s \<noteq> [] \<and> list_all (\<lambda>c. 48 \<le> byte_of c \<and> byte_of c \<le> 57 \<or> 97 \<le> byte_of c \<and> byte_of c \<le> 102) s"

text \<open>
  \<open>url.Parse\<close> followed by \<open>String\<close>, on a URL whose scheme is \<open>urn\<close> and whose rest is opaque: the
  fragment is cut off and decoded, a control byte before it is refused, the query is cut off, and
  printing puts them back. \<open>escape\<close>, \<open>unescape\<close> and \<open>validEncoded\<close> are for fragments.
\<close>

definition is_ctl :: "char \<Rightarrow> bool" where
  "is_ctl c \<longleftrightarrow> byte_of c < 32 \<or> byte_of c = 127"

definition shouldEscape :: "char \<Rightarrow> bool" where
  "shouldEscape c \<longleftrightarrow>
     \<not> (is_digit c \<or> is_lower c \<or> is_upper c \<or> c \<in> set ''-_.~$&+,/:;=?@!()*'')"

definition upperhex :: "nat \<Rightarrow> char" where
  "upperhex d = (if d < 10 then char_of (48 + d) else char_of (55 + d))"

definition url_escape :: "string \<Rightarrow> string" where
  "url_escape s =
     concat (map (\<lambda>c. if shouldEscape c
       then [CHR ''%'', upperhex (byte_of c div 16), upperhex (byte_of c mod 16)] else [c]) s)"

fun url_unescape :: "string \<Rightarrow> string option" where
  "url_unescape [] = Some []"
| "url_unescape (c # cs) =
     (if c = CHR ''%'' then
        (case cs of
           h # l # rest \<Rightarrow>
             (case (hex_val h, hex_val l) of
                (Some a, Some b) \<Rightarrow> map_option ((#) (char_of (16 * a + b))) (url_unescape rest)
              | _ \<Rightarrow> None)
         | _ \<Rightarrow> None)
      else map_option ((#) c) (url_unescape cs))"

definition validEncoded :: "string \<Rightarrow> bool" where
  "validEncoded s \<longleftrightarrow>
     list_all (\<lambda>c. c \<in> set ''!$&()*+,;=:@[]%'' \<or> byte_of c = 39 \<or> \<not> shouldEscape c) s"

text \<open>What printing makes of the raw fragment \<open>f\<close>, which is not empty.\<close>

definition fragment_String :: "string \<Rightarrow> string option" where
  "fragment_String f =
     (case url_unescape f of
        None \<Rightarrow> None
      | Some frag \<Rightarrow>
          Some (if f = url_escape frag then f else if validEncoded f then f else url_escape frag))"

text \<open>The opaque part with its query: a lone final question mark is kept, a query is put back.\<close>

definition query_String :: "string \<Rightarrow> string" where
  "query_String rest =
     (case cut_byte (CHR ''?'') rest of
        None \<Rightarrow> rest
      | Some (opaque, q) \<Rightarrow> if q = [] then opaque @ ''?'' else opaque @ ''?'' @ q)"

definition urn_String :: "string \<Rightarrow> string option" where
  "urn_String s =
     (let (u, frag) = (case cut_byte (CHR ''#'') s of None \<Rightarrow> (s, []) | Some uf \<Rightarrow> uf) in
      if list_ex is_ctl u then None
      else if frag = [] then Some (query_String u)
      else map_option (\<lambda>f. query_String u @ ''#'' @ f) (fragment_String frag))"

text \<open>The two names a certificate is minted with.\<close>

definition BuildContainerSAN :: "string \<Rightarrow> string + string" where
  "BuildContainerSAN containerID =
     (if containerID = [] then Inl ''container id required''
      else if \<not> isHexLower containerID then Inl ''container id must be lowercase hex''
      else
        (case urn_String (ContainerSANScheme @ containerID) of
           None \<Rightarrow> Inl ''build container SAN''
         | Some u \<Rightarrow> Inr u))"

definition BuildAgentSAN :: "ProjectSlug \<Rightarrow> AgentName \<Rightarrow> string + string" where
  "BuildAgentSAN p a =
     (if AgentName_IsZero a then Inl ''agent name required''
      else
        (case urn_String (AgentSANScheme @ AgentFullName p a) of
           None \<Rightarrow> Inl ''build agent SAN''
         | Some u \<Rightarrow> Inr u))"

definition ContainerClawkerd :: string where
  "ContainerClawkerd = ''clawker-clawkerd''"

text \<open>
  Minting: loading the certificate authority, making the key and signing are arguments; signing
  turns the common name and the names into DER bytes.
\<close>

definition MintAgentCert ::
  "string option \<Rightarrow> string option \<Rightarrow> (string \<Rightarrow> string list \<Rightarrow> string + string) \<Rightarrow>
     ProjectSlug \<Rightarrow> AgentName \<Rightarrow> string \<Rightarrow> string + Certificate" where
  "MintAgentCert loadCA generateKey sign p a containerID =
     (if AgentName_IsZero a then Inl ''agent name required''
      else if containerID = [] then Inl ''container id required''
      else
        (case loadCA of
           Some e \<Rightarrow> Inl (''load CA: '' @ e)
         | None \<Rightarrow>
             (case generateKey of
                Some e \<Rightarrow> Inl (''generate leaf key: '' @ e)
              | None \<Rightarrow>
                  (case BuildContainerSAN containerID of
                     Inl e \<Rightarrow> Inl (''build container SAN: '' @ e)
                   | Inr containerSAN \<Rightarrow>
                       (case BuildAgentSAN p a of
                          Inl e \<Rightarrow> Inl (''build agent SAN: '' @ e)
                        | Inr agentSAN \<Rightarrow>
                            (case sign ContainerClawkerd [agentSAN, containerSAN] of
                               Inl e \<Rightarrow> Inl (''sign cert: '' @ e)
                             | Inr der \<Rightarrow>
                                 Inr \<lparr>Raw = der, CommonName = ContainerClawkerd,
                                      URIs = [Some agentSAN, Some containerSAN]\<rparr>))))))"

section \<open>The peer\<close>

definition peerLeafFromContext :: "Context \<Rightarrow> string + Certificate" where
  "peerLeafFromContext ctx =
     (case peer ctx of
        None \<Rightarrow> Inl ''agent: no peer info in context''
      | Some p \<Rightarrow>
          (case AuthInfo p of
             NoTLS \<Rightarrow> Inl ''agent: peer is not TLS-authenticated''
           | TLSInfo [] \<Rightarrow> Inl ''agent: peer has no certificates''
           | TLSInfo (leaf # _) \<Rightarrow> Inr leaf))"

text \<open>\<open>net.SplitHostPort\<close>, for the host.\<close>

fun last_cut :: "char \<Rightarrow> string \<Rightarrow> (string \<times> string) option" where
  "last_cut x [] = None"
| "last_cut x (c # cs) =
     (case last_cut x cs of
        Some (l, r) \<Rightarrow> Some (c # l, r)
      | None \<Rightarrow> if c = x then Some ([], cs) else None)"

definition SplitHostPort :: "string \<Rightarrow> (string \<times> string) option" where
  "SplitHostPort hp =
     (case last_cut (CHR '':'') hp of
        None \<Rightarrow> None
      | Some (before, port) \<Rightarrow>
          if before \<noteq> [] \<and> hd before = CHR ''['' then
            (case cut_byte (CHR '']'') hp of
               None \<Rightarrow> None
             | Some (inside, after) \<Rightarrow>
                 if after \<noteq> CHR '':'' # port \<or> CHR ''['' \<in> set (tl inside) \<union> set after \<or>
                    CHR '']'' \<in> set after
                 then None else Some (tl inside, port))
          else if CHR '':'' \<in> set before \<or> CHR ''['' \<in> set hp \<or> CHR '']'' \<in> set hp then None
          else Some (before, port))"

text \<open>A \<open>netip.Addr\<close> with its zone, and \<open>Unmap\<close>, which turns a v4-mapped address into its v4 form.\<close>

type_synonym netip = "ip_addr \<times> string"

fun Unmap :: "netip \<Rightarrow> netip" where
  "Unmap (V4 b, z) = (V4 b, z)"
| "Unmap (V6 b, z) =
     (if take 12 b = replicate 10 0 @ [255, 255] then (V4 (drop 12 b), []) else (V6 b, z))"

definition remoteAddrToNetip :: "string option \<Rightarrow> netip option" where
  "remoteAddrToNetip a =
     (case a of
        None \<Rightarrow> None
      | Some s \<Rightarrow> (case SplitHostPort s of None \<Rightarrow> None | Some (host, _) \<Rightarrow> netip_ParseAddr host))"

record peerIdentity =
  pi_CommonName :: string
  pi_AgentFullName :: string
  AgentSANErr :: "san_error option"
  PeerAddr :: netip

definition peerIdentityFromContext :: "Context \<Rightarrow> peerIdentity option" where
  "peerIdentityFromContext ctx =
     (case peerLeafFromContext ctx of
        Inl _ \<Rightarrow> None
      | Inr leaf \<Rightarrow>
          (case remoteAddrToNetip (Option.bind (peer ctx) Addr) of
             None \<Rightarrow> None
           | Some addr \<Rightarrow>
               Some \<lparr>pi_CommonName = CommonName leaf,
                     pi_AgentFullName =
                       (case AgentFullNameFromCert (Some leaf) of Inl _ \<Rightarrow> [] | Inr n \<Rightarrow> n),
                     AgentSANErr =
                       (case AgentFullNameFromCert (Some leaf) of Inl e \<Rightarrow> Some e | Inr _ \<Rightarrow> None),
                     PeerAddr = addr\<rparr>))"

definition WithResolvedContainer :: "Context \<Rightarrow> ResolvedContainer \<Rightarrow> Context" where
  "WithResolvedContainer ctx rc = (if rc_ContainerID rc = [] then ctx else ctx\<lparr>resolved := Some rc\<rparr>)"

definition ResolvedContainerFromContext :: "Context \<Rightarrow> ResolvedContainer option" where
  "ResolvedContainerFromContext ctx =
     (case resolved ctx of
        None \<Rightarrow> None
      | Some rc \<Rightarrow> if rc_ContainerID rc = [] then None else Some rc)"

section \<open>Resolving a peer address with Docker\<close>

definition Network :: string where
  "Network = ''clawker-net''"

definition LabelProject :: string where
  "LabelProject = ''dev.clawker.project''"

definition LabelAgent :: string where
  "LabelAgent = ''dev.clawker.agent''"

text \<open>
  The parts of an inspect response the code reads. A nil pointer is \<open>None\<close>; an endpoint without a
  valid address is \<open>None\<close>; reading a missing label gives the empty string.
\<close>

record InspectResponse =
  ID :: string
  Networks :: "(string \<rightharpoonup> netip option) option"
  Labels :: "(string \<rightharpoonup> string) option"
  Running :: "bool option"

definition label :: "InspectResponse \<Rightarrow> string \<Rightarrow> string" where
  "label c k =
     (case Labels c of None \<Rightarrow> [] | Some ls \<Rightarrow> (case ls k of None \<Rightarrow> [] | Some v \<Rightarrow> v))"

datatype lookup_error =
  ErrNoContainerForPeerIP | ErrInvalidAgentLabel | ErrAmbiguousPeerIP | DaemonErr string

text \<open>The daemon: the ids of the running containers labelled as agents, and the inspect call.\<close>

record Docker =
  agent_list :: "string + string list"
  inspect :: "string \<Rightarrow> string + InspectResponse"

definition endpoint_addr :: "InspectResponse \<Rightarrow> netip option" where
  "endpoint_addr c =
     (case Networks c of
        None \<Rightarrow> None
      | Some ns \<Rightarrow> (case ns Network of None \<Rightarrow> None | Some ip \<Rightarrow> ip))"

definition inspected :: "Docker \<Rightarrow> string list \<Rightarrow> InspectResponse list" where
  "inspected d ids = concat (map (\<lambda>i. case inspect d i of Inl _ \<Rightarrow> [] | Inr c \<Rightarrow> [c]) ids)"

fun last_inspect_error :: "Docker \<Rightarrow> string list \<Rightarrow> string option" where
  "last_inspect_error d [] = None"
| "last_inspect_error d (i # is) =
     (case last_inspect_error d is of
        Some e \<Rightarrow> Some e
      | None \<Rightarrow> (case inspect d i of Inl e \<Rightarrow> Some e | Inr _ \<Rightarrow> None))"

definition peer_matches :: "Docker \<Rightarrow> string list \<Rightarrow> netip \<Rightarrow> InspectResponse list" where
  "peer_matches d ids ip =
     filter (\<lambda>c. case endpoint_addr c of None \<Rightarrow> False | Some a \<Rightarrow> Unmap a = Unmap ip)
       (inspected d ids)"

definition LookupByIP :: "Docker \<Rightarrow> netip \<Rightarrow> lookup_error + ResolvedContainer" where
  "LookupByIP d ip =
     (case agent_list d of
        Inl e \<Rightarrow> Inl (DaemonErr (''peer lookup: list containers: '' @ e))
      | Inr ids \<Rightarrow>
          (case peer_matches d ids ip of
             c # _ # _ \<Rightarrow> Inl ErrAmbiguousPeerIP
           | [c] \<Rightarrow>
               (case NewProjectSlug (label c LabelProject) of
                  Inl _ \<Rightarrow> Inl ErrInvalidAgentLabel
                | Inr p \<Rightarrow>
                    (case NewAgentName (label c LabelAgent) of
                       Inl _ \<Rightarrow> Inl ErrInvalidAgentLabel
                     | Inr a \<Rightarrow>
                         Inr \<lparr>rc_ContainerID = ID c, rc_Project = p, rc_AgentName = a\<rparr>))
           | [] \<Rightarrow>
               (case (inspected d ids, last_inspect_error d ids) of
                  ([], Some e) \<Rightarrow> Inl (DaemonErr (''peer lookup: all candidate inspects failed: '' @ e))
                | _ \<Rightarrow> Inl ErrNoContainerForPeerIP)))"

section \<open>The identity gate\<close>

definition rejected :: status where
  "rejected = Status PermissionDenied ''registration rejected''"

definition identity_resolve ::
  "(netip \<Rightarrow> lookup_error + ResolvedContainer) \<Rightarrow> Context \<Rightarrow> status + Context" where
  "identity_resolve peerLookup ctx =
     (case peerIdentityFromContext ctx of
        None \<Rightarrow> Inl rejected
      | Some pid \<Rightarrow>
          if pi_CommonName pid \<noteq> ContainerClawkerd then Inl rejected
          else if AgentSANErr pid \<noteq> None then Inl rejected
          else
            (case peerLookup (PeerAddr pid) of
               Inl _ \<Rightarrow> Inl rejected
             | Inr rc \<Rightarrow>
                 if pi_AgentFullName pid \<noteq> AgentFullName (rc_Project rc) (rc_AgentName rc) then
                   Inl rejected
                 else Inr (WithResolvedContainer ctx rc)))"

section \<open>The register handler\<close>

record RegisterRequest =
  req_Project :: string
  req_AgentName :: string

datatype Welcome = Welcome

definition check_failed :: status where
  "check_failed = Status PermissionDenied ''register: identity check failed''"

text \<open>
  The end of the handler: what the lookup of the container said decides whether the row is kept,
  replaced or written. \<open>fs\<close> gives the driver's behaviour in the lookup, the eviction and the
  insertion.
\<close>

definition register_row ::
  "'r Registry \<Rightarrow> (nat \<Rightarrow> db_fault) \<Rightarrow> int \<Rightarrow> ResolvedContainer \<Rightarrow> thumbprint \<Rightarrow> 'r \<Rightarrow>
     (status + Welcome) \<times> 'r" where
  "register_row R fs now rc tp r =
     (let add = (\<lambda>r. case Add R (fs 2) r
                        \<lparr>AgentName = rc_AgentName rc, Project = rc_Project rc,
                         ContainerID = rc_ContainerID rc, Thumbprint = tp,
                         RegisteredAt = now, LastSeen = now\<rparr> of
                  (Some _, r') \<Rightarrow> (Inl (Status Internal ''register: persist failed''), r')
                | (None, r') \<Rightarrow> (Inr Welcome, r')) in
      case LookupByContainerID R (fs 0) r (rc_ContainerID rc) of
        Inr e \<Rightarrow> if Thumbprint e = tp then (Inr Welcome, r) else (Inl check_failed, r)
      | Inl (ErrMalformedEntry _) \<Rightarrow>
          (case EvictByContainerID R (fs 1) r (rc_ContainerID rc) of
             (Some _, r') \<Rightarrow> (Inl (Status Internal ''register: evict malformed row failed''), r')
           | (None, r') \<Rightarrow> add r')
      | Inl ErrUnknownAgent \<Rightarrow> add r
      | Inl _ \<Rightarrow> (Inl (Status Internal ''register: lookup failed''), r))"

definition Register ::
  "(string \<Rightarrow> thumbprint) \<Rightarrow> 'r Registry \<Rightarrow> (nat \<Rightarrow> db_fault) \<Rightarrow> int \<Rightarrow> Context \<Rightarrow>
     RegisterRequest option \<Rightarrow> 'r \<Rightarrow> (status + Welcome) \<times> 'r" where
  "Register sum256 R fs now ctx req r =
     (case req of
        None \<Rightarrow> (Inl (Status InvalidArgument ''register: nil request''), r)
      | Some q \<Rightarrow>
          (case NewProjectSlug (req_Project q) of
             Inl _ \<Rightarrow> (Inl (Status InvalidArgument ''register: invalid project''), r)
           | Inr p \<Rightarrow>
               (case NewAgentName (req_AgentName q) of
                  Inl _ \<Rightarrow> (Inl (Status InvalidArgument ''register: invalid agent name''), r)
                | Inr a \<Rightarrow>
                    (case ResolvedContainerFromContext ctx of
                       None \<Rightarrow> (Inl (Status Internal ''register: identity not resolved''), r)
                     | Some rc \<Rightarrow>
                         (case peerLeafFromContext ctx of
                            Inl _ \<Rightarrow> (Inl check_failed, r)
                          | Inr leaf \<Rightarrow>
                              if ProjectSlug_String p \<noteq> ProjectSlug_String (rc_Project rc) \<or>
                                 AgentName_String a \<noteq> AgentName_String (rc_AgentName rc)
                              then (Inl check_failed, r)
                              else
                                (case ContainerIDFromCert (Some leaf) of
                                   Inl _ \<Rightarrow> (Inl check_failed, r)
                                 | Inr cid \<Rightarrow>
                                     if cid \<noteq> rc_ContainerID rc then (Inl check_failed, r)
                                     else register_row R fs now rc (sum256 (Raw leaf)) r))))))"

section \<open>The agent listener\<close>

text \<open>The interceptors in the order the server chains them, then the handler of the method.\<close>

definition agent_rpc ::
  "introspector \<Rightarrow> (netip \<Rightarrow> lookup_error + ResolvedContainer) \<Rightarrow> (string \<Rightarrow> thumbprint) \<Rightarrow> 'r Registry \<Rightarrow>
     (nat \<Rightarrow> db_fault) \<Rightarrow> int \<Rightarrow> Context \<Rightarrow> RegisterRequest option \<Rightarrow> 'r \<Rightarrow>
     (status + Welcome) \<times> 'r" where
  "agent_rpc introspect peerLookup sum256 R fs now ctx req r =
     (case authorize introspect agentInterceptor ctx Register_method of
        Some st \<Rightarrow> (Inl st, r)
      | None \<Rightarrow>
          (case identity_resolve peerLookup ctx of
             Inl st \<Rightarrow> (Inl st, r)
           | Inr ctx' \<Rightarrow> Register sum256 R fs now ctx' req r))"

end
