(* ===== verification/Agent_Register.thy ===== *)
theory Agent_Register
  imports Agent_Identity
begin

text \<open>
  What the identity gates and the register handler guarantee. The handler is proved over the
  contract of the registry, then instantiated with the sqlite registry and composed with the
  interceptors of the agent listener.
\<close>

section \<open>The handler over any registry\<close>

context agent_registry
begin

lemma malformed_rows: "ok r \<Longrightarrow> c \<in> bad r \<Longrightarrow> rows r c = None"
  using rows_cid by (cases "rows r c") auto

lemma evicted_bad:
  assumes "ok r" "c \<in> bad r" "EvictByContainerID R f r c = (res, r')"
  shows "ok r'" "rows r' = rows r" "\<forall>tp. uses r' tp \<longrightarrow> uses r tp" "res = None \<longrightarrow> c \<notin> bad r'"
  using evict_effect [OF assms(1,3)] malformed_rows [OF assms(1,2)] by auto

lemma register_row_replay:
  assumes "ok r" "rows r (rc_ContainerID rc) = Some e" "Thumbprint e \<noteq> tp"
  shows "isl (fst (register_row R fs now rc tp r)) \<and> snd (register_row R fs now rc tp r) = r"
proof (cases "LookupByContainerID R (fs 0) r (rc_ContainerID rc)")
  case (Inl err)
  with assms lookup_unknown [OF assms(1)] lookup_malformed [OF assms(1)] malformed_rows [OF assms(1)]
  show ?thesis by (cases err) (auto simp: register_row_def Let_def)
next
  case (Inr d)
  then have "d = e" using lookup_sound [OF assms(1)] assms(2) by fastforce
  with Inr assms(3) show ?thesis by (simp add: register_row_def)
qed

lemma register_row_total:
  assumes "ok r" "rows r (rc_ContainerID rc) = None" "\<not> uses r tp"
    and "rc_ContainerID rc \<noteq> []" "\<not> AgentName_IsZero (rc_AgentName rc)"
    and "tp \<noteq> zero_thumbprint" "now \<noteq> zero_time"
  shows "fst (register_row R (\<lambda>_. DbOk) now rc tp r) = Inr Welcome"
proof -
  let ?e = "\<lparr>AgentName = rc_AgentName rc, Project = rc_Project rc, ContainerID = rc_ContainerID rc,
    Thumbprint = tp, RegisteredAt = now, LastSeen = now\<rparr>"
  have v: "validateEntry ?e = None" using assms(4-7) by (simp add: validateEntry_None)
  have add: "fst (Add R DbOk r' ?e) = None"
    if "ok r'" "rows r' = rows r" "\<forall>tp. uses r' tp \<longrightarrow> uses r tp" "rc_ContainerID rc \<notin> bad r'" for r'
    using add_ok [OF that(1) v] that assms(2,3) by auto
  show ?thesis
  proof (cases "rc_ContainerID rc \<in> bad r")
    case True
    obtain m where m: "LookupByContainerID R DbOk r (rc_ContainerID rc) = Inl (ErrMalformedEntry m)"
      using lookup_total(3) [OF assms(1) True] by blast
    obtain r' where r': "EvictByContainerID R DbOk r (rc_ContainerID rc) = (None, r')"
      using evict_ok by (metis prod.collapse)
    with m add [of r'] evicted_bad [OF assms(1) True r'] show ?thesis
      by (auto simp: register_row_def Let_def split: prod.splits option.splits)
  next
    case False
    with lookup_total(2) [OF assms(1,2)] add [OF assms(1)] show ?thesis
      by (auto simp: register_row_def Let_def split: prod.splits option.splits)
  qed
qed

end

context unique_registry
begin

lemma add_bound:
  assumes "ok r" "Add R f r e = (None, r')" "length (Thumbprint e) = sha256_Size"
  shows "ok r' \<and> (\<exists>d. same_identity d e \<and> rows r' = (rows r)(ContainerID e \<mapsto> d)) \<and>
    rows r (ContainerID e) = None"
  using add_effect [OF assms] add_unique [OF assms(1,2)] by auto

text \<open>Everything a call can do to the rows: nothing, or write the one row of the container.\<close>

lemma register_row_effect:
  assumes "ok r" "register_row R fs now rc tp r = (res, r')" "length tp = sha256_Size"
  shows "ok r' \<and>
    (case res of
       Inl _ \<Rightarrow> rows r' = rows r
     | Inr _ \<Rightarrow>
         (\<exists>e. Thumbprint e = tp \<and> rows r' = (rows r)(rc_ContainerID rc \<mapsto> e) \<and>
              (rows r (rc_ContainerID rc) = Some e \<or>
               rows r (rc_ContainerID rc) = None \<and> AgentName e = rc_AgentName rc \<and>
               Project e = rc_Project rc)))"
proof -
  let ?c = "rc_ContainerID rc"
  let ?e = "\<lparr>AgentName = rc_AgentName rc, Project = rc_Project rc, ContainerID = ?c,
    Thumbprint = tp, RegisteredAt = now, LastSeen = now\<rparr>"
  let ?add = "\<lambda>r. case Add R (fs 2) r ?e of
      (Some _, r') \<Rightarrow> (Inl (Status Internal ''register: persist failed''), r')
    | (None, r') \<Rightarrow> (Inr Welcome, r')"
  have add: ?thesis if "ok r1" "rows r1 = rows r" "?add r1 = (res, r')" for r1
  proof (cases "Add R (fs 2) r1 ?e")
    case (Pair x r2)
    show ?thesis
    proof (cases x)
      case None
      with Pair that(3) have "res = Inr Welcome" "r' = r2" by auto
      with add_bound [OF that(1), of "fs 2" ?e r2] Pair None that(2) assms(3) show ?thesis
        by (auto simp: same_identity_def)
    next
      case (Some err)
      then have "r2 = r1" using Pair add_refused by blast
      with Some Pair that show ?thesis by auto
    qed
  qed
  show ?thesis
  proof (cases "LookupByContainerID R (fs 0) r ?c")
    case (Inr e)
    then have "rows r ?c = Some e" using lookup_sound [OF assms(1)] by blast
    with Inr assms(1,2) show ?thesis
      by (auto simp: register_row_def Let_def fun_upd_idem split: if_splits)
  next
    case (Inl err)
    show ?thesis
    proof (cases err)
      case ErrUnknownAgent
      then show ?thesis using add [OF assms(1) refl] Inl assms(2) by (simp add: register_row_def)
    next
      case (ErrMalformedEntry m)
      then have bad: "?c \<in> bad r" using lookup_malformed [OF assms(1)] Inl by blast
      obtain x r1 where ev: "EvictByContainerID R (fs 1) r ?c = (x, r1)" by fastforce
      note ok1 = evicted_bad [OF assms(1) bad ev]
      show ?thesis
      proof (cases x)
        case None
        then show ?thesis using add [OF ok1(1,2)] ErrMalformedEntry Inl ev assms(2)
          by (simp add: register_row_def)
      next
        case (Some err')
        then show ?thesis using ok1 ErrMalformedEntry Inl ev assms(2) by (auto simp: register_row_def)
      qed
    qed (use Inl assms(1,2) in \<open>auto simp: register_row_def\<close>)
  qed
qed

end

section \<open>The whole handler\<close>

text \<open>A call that gets as far as the registry has passed every check before it.\<close>

lemma Register_cases:
  obtains (refused) st where "Register sum256 R fs now ctx req r = (Inl st, r)"
  | (row) q rc leaf where "req = Some q" "ResolvedContainerFromContext ctx = Some rc"
      "peerLeafFromContext ctx = Inr leaf"
      "MkProjectSlug (req_Project q) = rc_Project rc" "MkAgentName (req_AgentName q) = rc_AgentName rc"
      "req_AgentName q \<noteq> []" "ContainerIDFromCert (Some leaf) = Inr (rc_ContainerID rc)"
      "Register sum256 R fs now ctx req r = register_row R fs now rc (sum256 (Raw leaf)) r"
proof (cases "isl (fst (Register sum256 R fs now ctx req r)) \<and> snd (Register sum256 R fs now ctx req r) = r")
  case True
  then show ?thesis using refused by (metis isl_def prod.collapse)
next
  case False
  then show ?thesis using row
    by (auto simp: Register_def NewProjectSlug_def NewAgentName_def ProjectSlug.expand
        AgentName.expand split: option.splits sum.splits if_splits)
qed

lemma identity_resolve_accepts:
  assumes "identity_resolve peerLookup ctx = Inr ctx'"
  obtains leaf addr rc where "peerLeafFromContext ctx = Inr leaf"
    "remoteAddrToNetip (Option.bind (peer ctx) Addr) = Some addr"
    "CommonName leaf = ContainerClawkerd" "peerLookup addr = Inr rc"
    "AgentFullNameFromCert (Some leaf) = Inr (AgentFullName (rc_Project rc) (rc_AgentName rc))"
    "ctx' = WithResolvedContainer ctx rc"
  using assms
  by (auto simp: identity_resolve_def peerIdentityFromContext_def
      split: option.splits sum.splits if_splits)

lemma authorize_agent_accepts:
  "authorize introspect agentInterceptor ctx Register_method = None \<longleftrightarrow>
     (\<exists>tok res. extractBearerToken ctx = Inr tok \<and> introspect tok ScopeSelfRegister = Inr res \<and>
        Active res \<and> hasScope (Scope res) ScopeSelfRegister \<and> ClientID res = ClientIDAgent)"
  by (auto simp: authorize_def agentInterceptor_def RequireClientID_def NewAuthInterceptor_def
      AgentMethodScopes_def ScopeSelfRegister_def ScopePublic_def ClientIDAgent_def
      split: option.splits sum.splits if_splits)

lemma peerLeaf_WithResolved [simp]:
  "peerLeafFromContext (WithResolvedContainer ctx rc) = peerLeafFromContext ctx"
  by (simp add: WithResolvedContainer_def peerLeafFromContext_def)

lemma Resolved_WithResolved:
  "resolved ctx = None \<Longrightarrow> ResolvedContainerFromContext (WithResolvedContainer ctx rc) =
     (if rc_ContainerID rc = [] then None else Some rc)"
  by (simp add: WithResolvedContainer_def ResolvedContainerFromContext_def)

lemma agent_rpc_cases:
  assumes "resolved ctx = None"
  obtains (refused) st where "agent_rpc introspect peerLookup sum256 R fs now ctx req r = (Inl st, r)"
  | (row) q tok res leaf addr rc where
      "req = Some q" "MkProjectSlug (req_Project q) = rc_Project rc"
      "MkAgentName (req_AgentName q) = rc_AgentName rc"
      "extractBearerToken ctx = Inr tok" "introspect tok ScopeSelfRegister = Inr res"
      "Active res" "hasScope (Scope res) ScopeSelfRegister" "ClientID res = ClientIDAgent"
      "peerLeafFromContext ctx = Inr leaf" "CommonName leaf = ContainerClawkerd"
      "remoteAddrToNetip (Option.bind (peer ctx) Addr) = Some addr" "peerLookup addr = Inr rc"
      "rc_ContainerID rc \<noteq> []"
      "AgentFullNameFromCert (Some leaf) = Inr (AgentFullName (rc_Project rc) (rc_AgentName rc))"
      "ContainerIDFromCert (Some leaf) = Inr (rc_ContainerID rc)"
      "agent_rpc introspect peerLookup sum256 R fs now ctx req r =
         register_row R fs now rc (sum256 (Raw leaf)) r"
proof (cases "authorize introspect agentInterceptor ctx Register_method")
  case (Some st)
  then show ?thesis using refused by (simp add: agent_rpc_def)
next
  case None
  then obtain tok res where auth: "extractBearerToken ctx = Inr tok"
    "introspect tok ScopeSelfRegister = Inr res" "Active res"
    "hasScope (Scope res) ScopeSelfRegister" "ClientID res = ClientIDAgent"
    using authorize_agent_accepts by blast
  show ?thesis
  proof (cases "identity_resolve peerLookup ctx")
    case (Inl st)
    then show ?thesis using refused None by (simp add: agent_rpc_def)
  next
    case (Inr ctx')
    then obtain leaf addr rc where gate: "peerLeafFromContext ctx = Inr leaf"
      "remoteAddrToNetip (Option.bind (peer ctx) Addr) = Some addr"
      "CommonName leaf = ContainerClawkerd" "peerLookup addr = Inr rc"
      "AgentFullNameFromCert (Some leaf) = Inr (AgentFullName (rc_Project rc) (rc_AgentName rc))"
      "ctx' = WithResolvedContainer ctx rc"
      by (elim identity_resolve_accepts)
    have run: "agent_rpc introspect peerLookup sum256 R fs now ctx req r =
        Register sum256 R fs now ctx' req r"
      using None Inr by (simp add: agent_rpc_def)
    show ?thesis
    proof (cases rule: Register_cases [of sum256 R fs now ctx' req r])
      case (refused st)
      then show ?thesis using run that(1) by simp
    next
      case (row q rc' leaf')
      then have "rc' = rc" "rc_ContainerID rc \<noteq> []" "leaf' = leaf"
        using gate(1,6) Resolved_WithResolved [OF assms] by (auto split: if_splits)
      then show ?thesis using that(2) row auth gate run by simp
    qed
  qed
qed

section \<open>Minted certificates\<close>

lemma query_String_id [simp]: "query_String s = s"
  by (auto simp: query_String_def split: option.splits dest: cut_byte_Some)

lemma urn_String_id: "CHR ''#'' \<notin> set s \<Longrightarrow> \<not> list_ex is_ctl s \<Longrightarrow> urn_String s = Some s"
  by (simp add: urn_String_def)

lemma ctl_scheme [simp]:
  "\<not> list_ex is_ctl ContainerSANScheme" "\<not> list_ex is_ctl AgentSANScheme"
  "CHR ''#'' \<notin> set ContainerSANScheme" "CHR ''#'' \<notin> set AgentSANScheme"
  by (simp_all add: ContainerSANScheme_def AgentSANScheme_def is_ctl_def byte_of_def)

lemma isHexLower_plain:
  assumes "isHexLower s"
  shows "CHR ''#'' \<notin> set s" "\<not> list_ex is_ctl s" "s \<noteq> []"
  using assms
  by (auto simp: isHexLower_def list_all_iff list_ex_iff is_ctl_def byte_of_def)

text \<open>A name that survives the URL: no fragment mark and no control byte.\<close>

definition url_plain :: "string \<Rightarrow> bool" where
  "url_plain s \<longleftrightarrow> CHR ''#'' \<notin> set s \<and> \<not> list_ex is_ctl s"

lemma mint_names:
  assumes "MintAgentCert loadCA generateKey sign p a cid = Inr cert" "url_plain (AgentFullName p a)"
  shows "CommonName cert = ContainerClawkerd"
    "AgentFullNameFromCert (Some cert) = Inr (AgentFullName p a)"
    "ContainerIDFromCert (Some cert) = Inr cid" "cid \<noteq> []" "\<not> AgentName_IsZero a"
proof -
  from assms(1) have hex: "isHexLower cid" and a: "\<not> AgentName_IsZero a"
    by (auto simp: MintAgentCert_def BuildContainerSAN_def split: if_splits option.splits sum.splits)
  have san: "BuildContainerSAN cid = Inr (ContainerSANScheme @ cid)"
    "BuildAgentSAN p a = Inr (AgentSANScheme @ AgentFullName p a)"
    using isHexLower_plain [OF hex] hex assms(2) a
    by (simp_all add: BuildContainerSAN_def BuildAgentSAN_def urn_String_id url_plain_def)
  have cert: "CommonName cert = ContainerClawkerd"
    "URIs cert = [Some (AgentSANScheme @ AgentFullName p a), Some (ContainerSANScheme @ cid)]"
    using assms(1) a isHexLower_plain(3) [OF hex] san
    by (auto simp: MintAgentCert_def split: option.splits sum.splits)
  have "AgentFullName p a \<noteq> []" by (simp add: AgentFullName_def)
  with cert isHexLower_plain(3) [OF hex]
  show "AgentFullNameFromCert (Some cert) = Inr (AgentFullName p a)"
    "ContainerIDFromCert (Some cert) = Inr cid"
    by (simp_all add: AgentFullNameFromCert_def ContainerIDFromCert_def sanTailFromCert_def
        AgentSANScheme_def ContainerSANScheme_def)
  show "CommonName cert = ContainerClawkerd" "cid \<noteq> []" "\<not> AgentName_IsZero a"
    using cert a isHexLower_plain(3) [OF hex] by simp_all
qed

section \<open>Properties\<close>

text \<open>
  C3: a Register call the agent listener answers with success was authenticated and bound on
  every axis: its bearer token is active, carries the register scope and belongs to the agent
  client; its certificate is a clawkerd certificate; the Docker daemon resolves the connection's
  remote address to a container, whose labels give the certificate's agent name and whose id the
  certificate names; and afterwards the registry's row of that container holds the digest of
  this very certificate, while every other row is as before.
\<close>

theorem register_binds_identity:
  assumes "sql_ok t" and "\<And>x. length (sum256 x) = sha256_Size" and "resolved ctx = None"
    and "agent_rpc introspect (LookupByIP d) sum256 sqliteRegistry fs now ctx req t = (Inr Welcome, t')"
  shows "\<exists>tok res leaf addr rc e.
    extractBearerToken ctx = Inr tok \<and> introspect tok ScopeSelfRegister = Inr res \<and>
    Active res \<and> hasScope (Scope res) ScopeSelfRegister \<and> ClientID res = ClientIDAgent \<and>
    peerLeafFromContext ctx = Inr leaf \<and> CommonName leaf = ContainerClawkerd \<and>
    remoteAddrToNetip (Option.bind (peer ctx) Addr) = Some addr \<and> LookupByIP d addr = Inr rc \<and>
    AgentFullNameFromCert (Some leaf) = Inr (AgentFullName (rc_Project rc) (rc_AgentName rc)) \<and>
    ContainerIDFromCert (Some leaf) = Inr (rc_ContainerID rc) \<and>
    Thumbprint e = sum256 (Raw leaf) \<and> sql_rows t' = (sql_rows t)(rc_ContainerID rc \<mapsto> e)"
  using assms(3)
proof (cases rule: agent_rpc_cases [of ctx introspect "LookupByIP d" sum256 sqliteRegistry fs now req t])
  case (refused st)
  with assms(4) show ?thesis by simp
next
  case (row q tok res leaf addr rc)
  from row(16) assms(4)
  have "register_row sqliteRegistry fs now rc (sum256 (Raw leaf)) t = (Inr Welcome, t')" by simp
  from sql.register_row_effect [OF assms(1) this assms(2)] obtain e where
    "Thumbprint e = sum256 (Raw leaf)" "sql_rows t' = (sql_rows t)(rc_ContainerID rc \<mapsto> e)" by auto
  with row show ?thesis by blast
qed

text \<open>
  C8: no Register call, whatever it presents and whatever the database driver does, changes or
  removes the readable row of any container: once a container's certificate is registered, a call
  with another certificate cannot take its place.
\<close>

theorem registered_rows_immutable:
  assumes "sql_ok t" and "\<And>x. length (sum256 x) = sha256_Size" and "resolved ctx = None"
    and "agent_rpc introspect peerLookup sum256 sqliteRegistry fs now ctx req t = (answer, t')"
    and "sql_rows t c = Some e"
  shows "sql_rows t' c = Some e \<and> sql_ok t'"
  using assms(3)
proof (cases rule: agent_rpc_cases [of ctx introspect peerLookup sum256 sqliteRegistry fs now req t])
  case (refused st)
  with assms(1,4,5) show ?thesis by simp
next
  case (row q tok res leaf addr rc)
  with assms(4)
  have "register_row sqliteRegistry fs now rc (sum256 (Raw leaf)) t = (answer, t')" by simp
  from sql.register_row_effect [OF assms(1) this assms(2)] assms(5) show ?thesis
    by (auto split: sum.splits)
qed

text \<open>
  C24: registration succeeds when it should. If a certificate was minted for a container
  with a name that a URL carries unchanged, the daemon resolves the peer's address to that container
  with those labels, the token passes the gate, the request repeats the labels, the container
  has no readable row, the certificate's digest is not in use and the database driver works,
  then the call is answered with success.
\<close>

theorem minted_cert_registers:
  assumes "MintAgentCert loadCA generateKey sign p a cid = Inr cert"
    and "url_plain (AgentFullName p a)"
    and "resolved ctx = None"
    and "peer ctx = Some \<lparr>Addr = Some hp, AuthInfo = TLSInfo [cert]\<rparr>"
    and "remoteAddrToNetip (Some hp) = Some addr"
    and "LookupByIP d addr = Inr \<lparr>rc_ContainerID = cid, rc_Project = p, rc_AgentName = a\<rparr>"
    and "authorize introspect agentInterceptor ctx Register_method = None"
    and "sql_ok t" "sql_rows t cid = None" "\<not> sql_uses t (sum256 (Raw cert))"
    and "sum256 (Raw cert) \<noteq> zero_thumbprint" "now \<noteq> zero_time"
  shows "fst (agent_rpc introspect (LookupByIP d) sum256 sqliteRegistry (\<lambda>_. DbOk) now ctx
    (Some \<lparr>req_Project = ProjectSlug_String p, req_AgentName = AgentName_String a\<rparr>) t) = Inr Welcome"
proof -
  let ?rc = "\<lparr>rc_ContainerID = cid, rc_Project = p, rc_AgentName = a\<rparr>"
  note names = mint_names [OF assms(1,2)]
  have leaf: "peerLeafFromContext ctx = Inr cert"
    using assms(4) by (simp add: peerLeafFromContext_def)
  have "identity_resolve (LookupByIP d) ctx = Inr (WithResolvedContainer ctx ?rc)"
    using leaf names assms(4-6) by (simp add: identity_resolve_def peerIdentityFromContext_def)
  then have "agent_rpc introspect (LookupByIP d) sum256 sqliteRegistry (\<lambda>_. DbOk) now ctx
      (Some \<lparr>req_Project = ProjectSlug_String p, req_AgentName = AgentName_String a\<rparr>) t =
    register_row sqliteRegistry (\<lambda>_. DbOk) now ?rc (sum256 (Raw cert)) t"
    using assms(3,7) leaf names
    by (simp add: agent_rpc_def Register_def NewProjectSlug_def NewAgentName_def
        Resolved_WithResolved AgentName_IsZero_def)
  moreover have "fst (register_row sqliteRegistry (\<lambda>_. DbOk) now ?rc (sum256 (Raw cert)) t) = Inr Welcome"
    using names(4,5) assms(8-12) by (intro sql.register_row_total) simp_all
  ultimately show ?thesis by simp
qed

section \<open>A concrete registration\<close>

text \<open>
  A certificate minted for agent \<open>dev\<close> of project \<open>app\<close> in container \<open>ab12\<close>, presented from the
  address Docker reports for that container. The digest pads the DER bytes to 32 bytes, which is
  all the theorems ask of it.
\<close>

definition pad_digest :: "string \<Rightarrow> thumbprint" where
  "pad_digest s = take sha256_Size (s @ replicate sha256_Size (CHR ''x''))"

definition sample_sign :: "string \<Rightarrow> string list \<Rightarrow> string + string" where
  "sample_sign cn uris = Inr (''der:'' @ cn)"

definition sample_cert :: Certificate where
  "sample_cert =
     \<lparr>Raw = ''der:clawker-clawkerd'', CommonName = ''clawker-clawkerd'',
      URIs = [Some ''urn:clawker:agent:clawker.app.dev'', Some ''urn:clawker:container:ab12'']\<rparr>"

definition sample_inspect :: InspectResponse where
  "sample_inspect =
     \<lparr>ID = ''ab12'', Networks = Some [''clawker-net'' \<mapsto> Some (V4 [172, 18, 0, 5], [])],
      Labels = Some [''dev.clawker.project'' \<mapsto> ''app'', ''dev.clawker.agent'' \<mapsto> ''dev''],
      Running = Some True\<rparr>"

definition sample_docker :: Docker where
  "sample_docker = \<lparr>agent_list = Inr [''ab12''], inspect = (\<lambda>_. Inr sample_inspect)\<rparr>"

definition sample_introspect :: introspector where
  "sample_introspect tok scope =
     Inr \<lparr>Active = True, Scope = ''agent:self:register'', ClientID = ''clawker-agent''\<rparr>"

definition sample_ctx :: Context where
  "sample_ctx =
     \<lparr>metadata = Some [''authorization'' \<mapsto> [''Bearer t0'']],
      peer = Some \<lparr>Addr = Some ''172.18.0.5:40000'', AuthInfo = TLSInfo [sample_cert]\<rparr>,
      resolved = None\<rparr>"

definition sample_request :: RegisterRequest where
  "sample_request = \<lparr>req_Project = ''app'', req_AgentName = ''dev''\<rparr>"

lemma pad_digest_length [simp]: "length (pad_digest s) = sha256_Size"
  by (simp add: pad_digest_def)

lemma sample_mint:
  "MintAgentCert None None sample_sign (MkProjectSlug ''app'') (MkAgentName ''dev'') ''ab12'' =
     Inr sample_cert"
  by code_simp

lemma Fields_from_graph:
  "list_all is_graph s \<Longrightarrow> Fields_from cur s = (if cur @ s = [] then [] else [cur @ s])"
proof (induction s arbitrary: cur)
  case Nil
  have "strip_one space_encodings [] = None" by (rule strip_one_None) simp
  then show ?case by (simp add: Fields_from.simps [of cur "[]"])
next
  case (Cons c s)
  then have "strip_one space_encodings (c # s) = None"
    using space_encodings_graph by (intro strip_one_None) auto
  then show ?case using Cons by (simp add: Fields_from.simps [of cur "c # s"])
qed

lemma sample_scope: "hasScope ''agent:self:register'' ''agent:self:register''"
  by (simp add: hasScope_def Fields_def Fields_from_graph is_graph_def byte_of_def)

lemma sample_authorized:
  "authorize sample_introspect agentInterceptor sample_ctx Register_method = None"
  using sample_scope
  by (auto simp: authorize_agent_accepts extractBearerToken_def sample_ctx_def HasPrefix_def
      TrimPrefix_def sample_introspect_def ScopeSelfRegister_def ClientIDAgent_def)

lemma sample_addr: "remoteAddrToNetip (Some ''172.18.0.5:40000'') = Some (V4 [172, 18, 0, 5], [])"
  by code_simp

lemma sample_lookup:
  "LookupByIP sample_docker (V4 [172, 18, 0, 5], []) =
     Inr \<lparr>rc_ContainerID = ''ab12'', rc_Project = MkProjectSlug ''app'',
          rc_AgentName = MkAgentName ''dev''\<rparr>"
  by code_simp

lemma sample_digest: "pad_digest (Raw sample_cert) \<noteq> zero_thumbprint"
  by code_simp

lemma sample_plain: "url_plain (AgentFullName (MkProjectSlug ''app'') (MkAgentName ''dev''))"
  by code_simp

text \<open>Theorem: the sample certificate registers.\<close>

theorem minted_cert_registers_witness:
  "fst (agent_rpc sample_introspect (LookupByIP sample_docker) pad_digest sqliteRegistry (\<lambda>_. DbOk) 1
     sample_ctx (Some \<lparr>req_Project = ''app'', req_AgentName = ''dev''\<rparr>) []) = Inr Welcome"
  using minted_cert_registers [OF sample_mint sample_plain, of sample_ctx "''172.18.0.5:40000''"
      "(V4 [172, 18, 0, 5], [])" sample_docker sample_introspect "[]" pad_digest 1]
    sample_addr sample_lookup sample_authorized sample_digest
  by (simp add: sample_ctx_def sql_ok_def sql_rows_def sql_uses_def zero_time_def second_def)

definition sample_rc :: ResolvedContainer where
  "sample_rc = \<lparr>rc_ContainerID = ''ab12'', rc_Project = MkProjectSlug ''app'',
     rc_AgentName = MkAgentName ''dev''\<rparr>"

definition sample_entry :: Entry where
  "sample_entry =
     \<lparr>AgentName = MkAgentName ''dev'', Project = MkProjectSlug ''app'', ContainerID = ''ab12'',
      Thumbprint = pad_digest (Raw sample_cert), RegisteredAt = 0, LastSeen = 0\<rparr>"

definition sample_table :: agents_table where
  "sample_table = [row_of sample_entry]"

lemma sample_resolve:
  "identity_resolve (LookupByIP sample_docker) sample_ctx = Inr (WithResolvedContainer sample_ctx sample_rc)"
proof -
  have "AgentFullNameFromCert (Some sample_cert) = Inr ''clawker.app.dev''" by code_simp
  then show ?thesis
    using sample_addr sample_lookup
    by (simp add: identity_resolve_def peerIdentityFromContext_def peerLeafFromContext_def
        sample_ctx_def sample_rc_def AgentFullName_def ProjectSlug_IsEmpty_def ContainerClawkerd_def)
      (simp add: sample_cert_def)
qed

lemma sample_register:
  "Register pad_digest sqliteRegistry (\<lambda>_. DbOk) 1 (WithResolvedContainer sample_ctx sample_rc)
     (Some sample_request) [] = (Inr Welcome, sample_table)"
  by code_simp

lemma register_sample_run:
  "agent_rpc sample_introspect (LookupByIP sample_docker) pad_digest sqliteRegistry (\<lambda>_. DbOk) 1
     sample_ctx (Some sample_request) [] = (Inr Welcome, sample_table)"
  using sample_authorized sample_resolve sample_register by (simp add: agent_rpc_def)

lemma sample_table_ok: "sql_ok sample_table" "sql_rows sample_table ''ab12'' = Some sample_entry"
  by code_simp+

text \<open>Theorem: what the sample registration established.\<close>

theorem register_binds_identity_witness:
  "\<exists>tok res leaf addr rc e.
    extractBearerToken sample_ctx = Inr tok \<and> sample_introspect tok ScopeSelfRegister = Inr res \<and>
    Active res \<and> hasScope (Scope res) ScopeSelfRegister \<and> ClientID res = ClientIDAgent \<and>
    peerLeafFromContext sample_ctx = Inr leaf \<and> CommonName leaf = ContainerClawkerd \<and>
    remoteAddrToNetip (Option.bind (peer sample_ctx) Addr) = Some addr \<and>
    LookupByIP sample_docker addr = Inr rc \<and>
    AgentFullNameFromCert (Some leaf) = Inr (AgentFullName (rc_Project rc) (rc_AgentName rc)) \<and>
    ContainerIDFromCert (Some leaf) = Inr (rc_ContainerID rc) \<and>
    Thumbprint e = pad_digest (Raw leaf) \<and>
    sql_rows sample_table = (sql_rows [])(rc_ContainerID rc \<mapsto> e)"
  by (rule register_binds_identity [OF _ pad_digest_length _ register_sample_run])
    (simp_all add: sql_ok_def sample_ctx_def)

text \<open>Theorem: a second call leaves the row of the sample in place.\<close>

theorem registered_rows_immutable_witness:
  "sql_rows (snd (agent_rpc sample_introspect (LookupByIP sample_docker) (\<lambda>s. pad_digest (''other'' @ s))
     sqliteRegistry (\<lambda>_. DbOk) 7 sample_ctx (Some sample_request) sample_table)) ''ab12'' =
   Some sample_entry"
  using registered_rows_immutable [OF sample_table_ok(1) pad_digest_length _ prod.collapse [symmetric]
      sample_table_ok(2), of sample_ctx sample_introspect "LookupByIP sample_docker" _ "\<lambda>_. DbOk" 7
      "Some sample_request"]
  by (simp add: sample_ctx_def)

end
