(* ===== verification/Event_Bus.thy ===== *)
theory Event_Bus
  imports Go_Prelude "HOL-Library.Multiset" "HOL-Library.Monad_Syntax"
begin

text \<open>
  The publish/subscribe engine of the control plane, \<open>controlplane/pubsub/engine.go\<close>. A topic keeps
  one bounded queue per subscriber; a full queue sheds its oldest event. The operations come first as
  functions on the topic, the way one goroutine runs them alone. The step relation \<open>tstep\<close> then splits
  a publish into its channel operations, so that publishers, the subscribers' drain goroutines,
  \<open>Subscribe\<close> and \<open>Close\<close> interleave as the read-write lock of the topic lets them.

  Every subscriber carries three histories that the code does not store: what was sent into its
  queue, what its handler was given, and what was shed. Whether a handler or the audit hook panics
  on an event is a parameter.
\<close>

section \<open>Topics\<close>

record 'a Event =
  Event_ID :: string
  Timestamp :: int
  Source :: string
  Payload :: 'a

record 'a subscriber =
  queue :: "'a Event list"
  running :: bool
  sent :: "'a Event list"
  delivered :: "'a Event list"
  shed :: "'a Event list"

text \<open>
  All subscribers of the topic's life are in \<open>subs\<close>; \<open>registered\<close> is the length of the slice
  \<open>subscribers\<close>, whose entries are the subscribers \<open>0\<close> to \<open>registered - 1\<close> until \<open>Close\<close> empties it.
\<close>

record 'a Topic =
  buffer :: nat
  subs :: "'a subscriber list"
  registered :: nat
  closed :: bool
  publishedTotal :: nat
  droppedTotal :: nat
  panicsRecovered :: nat
  hookPanicsRecovered :: nat

record Stats =
  Subscribers :: nat
  QueueCapacity :: nat
  PublishedTotal :: nat
  DroppedTotal :: nat
  PanicsRecovered :: nat
  HookPanicsRecovered :: nat

datatype topic_error = ErrNilLogger | ErrInvalidBuffer

definition DefaultBuffer :: int where
  "DefaultBuffer = 256"

text \<open>The options are the \<open>WithBuffer\<close> values in the order given; the last one counts.\<close>

definition NewTopic :: "bool \<Rightarrow> int list \<Rightarrow> topic_error + 'a Topic" where
  "NewTopic has_logger opts =
     (let buf = fold (\<lambda>n _. n) opts DefaultBuffer in
      if \<not> has_logger then Inl ErrNilLogger
      else if buf \<le> 0 then Inl ErrInvalidBuffer
      else Inr \<lparr>buffer = nat buf, subs = [], registered = 0, closed = False, publishedTotal = 0,
                droppedTotal = 0, panicsRecovered = 0, hookPanicsRecovered = 0\<rparr>)"

definition new_subscriber :: "'a subscriber" where
  "new_subscriber = \<lparr>queue = [], running = True, sent = [], delivered = [], shed = []\<rparr>"

definition Topic_Subscribe :: "('a, 'b) Topic_scheme \<Rightarrow> ('a, 'b) Topic_scheme" where
  "Topic_Subscribe t =
     (if closed t then t else t\<lparr>subs := subs t @ [new_subscriber], registered := Suc (registered t)\<rparr>)"

section \<open>Publishing\<close>

definition runHook :: "('a Event \<Rightarrow> bool) \<Rightarrow> 'a Event \<Rightarrow> ('a, 'b) Topic_scheme \<Rightarrow> ('a, 'b) Topic_scheme" where
  "runHook hook_panics e t =
     (if hook_panics e then t\<lparr>hookPanicsRecovered := Suc (hookPanicsRecovered t)\<rparr> else t)"

text \<open>The two channel operations of \<open>enqueue\<close> on subscriber \<open>i\<close>: the send and the receive that evicts.\<close>

definition has_room :: "('a, 'b) Topic_scheme \<Rightarrow> nat \<Rightarrow> bool" where
  "has_room t i \<longleftrightarrow> length (queue (subs t ! i)) < buffer t"

definition push :: "nat \<Rightarrow> 'a Event \<Rightarrow> ('a, 'b) Topic_scheme \<Rightarrow> ('a, 'b) Topic_scheme" where
  "push i e t =
     (let s = subs t ! i in
      t\<lparr>subs := (subs t)[i := s\<lparr>queue := queue s @ [e], sent := sent s @ [e]\<rparr>]\<rparr>)"

definition evict_oldest :: "nat \<Rightarrow> ('a, 'b) Topic_scheme \<Rightarrow> ('a, 'b) Topic_scheme" where
  "evict_oldest i t =
     (let s = subs t ! i in
      case queue s of
        [] \<Rightarrow> t
      | x # q \<Rightarrow>
          t\<lparr>subs := (subs t)[i := s\<lparr>queue := q, shed := shed s @ [x]\<rparr>],
            droppedTotal := Suc (droppedTotal t)\<rparr>)"

text \<open>The loop of \<open>enqueue\<close>. Nothing is returned when the loop does not end.\<close>

partial_function (option) enqueue ::
  "nat \<Rightarrow> 'a Event \<Rightarrow> ('a, 'b) Topic_scheme \<Rightarrow> ('a, 'b) Topic_scheme option" where
  "enqueue i e t = (if has_room t i then Some (push i e t) else enqueue i e (evict_oldest i t))"

declare enqueue.simps [code]

fun fan_out ::
  "'a Event \<Rightarrow> nat list \<Rightarrow> ('a, 'b) Topic_scheme \<Rightarrow> ('a, 'b) Topic_scheme option" where
  "fan_out e [] t = Some t"
| "fan_out e (i # is) t = Option.bind (enqueue i e t) (fan_out e is)"

definition Topic_Publish ::
  "('a Event \<Rightarrow> bool) \<Rightarrow> 'a Event \<Rightarrow> ('a, 'b) Topic_scheme \<Rightarrow> (bool \<times> ('a, 'b) Topic_scheme) option" where
  "Topic_Publish hook_panics e t =
     (if closed t then Some (False, t)
      else
        map_option (\<lambda>t. (True, t\<lparr>publishedTotal := Suc (publishedTotal t)\<rparr>))
          (fan_out e [0..<registered t] (runHook hook_panics e t)))"

section \<open>Delivery and closing\<close>

definition deliver ::
  "(nat \<Rightarrow> 'a Event \<Rightarrow> bool) \<Rightarrow> nat \<Rightarrow> ('a, 'b) Topic_scheme \<Rightarrow> ('a, 'b) Topic_scheme" where
  "deliver panics i t =
     (let s = subs t ! i in
      case queue s of
        [] \<Rightarrow> t
      | e # q \<Rightarrow>
          t\<lparr>subs := (subs t)[i := s\<lparr>queue := q, delivered := delivered s @ [e]\<rparr>],
            panicsRecovered := panicsRecovered t + (if panics i e then 1 else 0)\<rparr>)"

definition drain_exit :: "nat \<Rightarrow> ('a, 'b) Topic_scheme \<Rightarrow> ('a, 'b) Topic_scheme" where
  "drain_exit i t = t\<lparr>subs := (subs t)[i := (subs t ! i)\<lparr>running := False\<rparr>]\<rparr>"

definition Topic_Stats :: "('a, 'b) Topic_scheme \<Rightarrow> Stats" where
  "Topic_Stats t =
     \<lparr>Subscribers = registered t, QueueCapacity = buffer t, PublishedTotal = publishedTotal t,
      DroppedTotal = droppedTotal t, PanicsRecovered = panicsRecovered t,
      HookPanicsRecovered = hookPanicsRecovered t\<rparr>"

text \<open>\<open>Close\<close> up to its wait for the drain goroutines.\<close>

definition Topic_Close :: "('a, 'b) Topic_scheme \<Rightarrow> ('a, 'b) Topic_scheme" where
  "Topic_Close t = (if closed t then t else t\<lparr>closed := True, registered := 0\<rparr>)"

section \<open>Goroutines\<close>

text \<open>
  A publish in flight holds the read lock: it has an event and the subscribers still to serve, and is
  about to try the send or, after the send found the queue full, about to evict.
\<close>

datatype 'a flight = Sending "'a Event" "nat list" | Evicting "'a Event" "nat list"

record 'a Bus = "'a Topic" +
  flights :: "'a flight list"
  published :: "('a Event \<times> nat list) list"

text \<open>
  The steps. \<open>Subscribe\<close> and \<open>Close\<close> take the write lock, so no publish is in flight; a publish starts
  with the check of \<open>closed\<close>, the hook and the current subscribers. \<open>published\<close> records it with them.
\<close>

definition start_publish ::
  "('a Event \<Rightarrow> bool) \<Rightarrow> 'a Event \<Rightarrow> 'a Bus \<Rightarrow> 'a Bus" where
  "start_publish hook_panics e b =
     (runHook hook_panics e b)
       \<lparr>flights := flights b @ [Sending e [0..<registered b]], published := published b @ [(e, [0..<registered b])]\<rparr>"

inductive tstep ::
  "('a Event \<Rightarrow> bool) \<Rightarrow> (nat \<Rightarrow> 'a Event \<Rightarrow> bool) \<Rightarrow> 'a Bus \<Rightarrow> 'a Bus \<Rightarrow> bool"
  for hook_panics panics where
  subscribe: "flights b = [] \<Longrightarrow> \<not> closed b \<Longrightarrow> tstep hook_panics panics b (Topic_Subscribe b)"
| start: "\<not> closed b \<Longrightarrow> tstep hook_panics panics b (start_publish hook_panics e b)"
| send: "flights b = fs @ Sending e (i # is) # gs \<Longrightarrow> has_room b i \<Longrightarrow>
    tstep hook_panics panics b ((push i e b)\<lparr>flights := fs @ Sending e is # gs\<rparr>)"
| full: "flights b = fs @ Sending e (i # is) # gs \<Longrightarrow> \<not> has_room b i \<Longrightarrow>
    tstep hook_panics panics b (b\<lparr>flights := fs @ Evicting e (i # is) # gs\<rparr>)"
| evict: "flights b = fs @ Evicting e (i # is) # gs \<Longrightarrow>
    tstep hook_panics panics b ((evict_oldest i b)\<lparr>flights := fs @ Sending e (i # is) # gs\<rparr>)"
| finish: "flights b = fs @ Sending e [] # gs \<Longrightarrow>
    tstep hook_panics panics b (b\<lparr>flights := fs @ gs, publishedTotal := Suc (publishedTotal b)\<rparr>)"
| handle: "i < length (subs b) \<Longrightarrow> queue (subs b ! i) \<noteq> [] \<Longrightarrow>
    tstep hook_panics panics b (deliver panics i b)"
| close: "flights b = [] \<Longrightarrow> \<not> closed b \<Longrightarrow> tstep hook_panics panics b (Topic_Close b)"
| exit: "i < length (subs b) \<Longrightarrow> closed b \<Longrightarrow> queue (subs b ! i) = [] \<Longrightarrow> running (subs b ! i) \<Longrightarrow>
    tstep hook_panics panics b (drain_exit i b)"

definition fresh_bus :: "nat \<Rightarrow> 'a Bus" where
  "fresh_bus n =
     \<lparr>buffer = n, subs = [], registered = 0, closed = False, publishedTotal = 0, droppedTotal = 0,
      panicsRecovered = 0, hookPanicsRecovered = 0, flights = [], published = []\<rparr>"

inductive treach ::
  "('a Event \<Rightarrow> bool) \<Rightarrow> (nat \<Rightarrow> 'a Event \<Rightarrow> bool) \<Rightarrow> nat \<Rightarrow> 'a Bus \<Rightarrow> bool"
  for hook_panics panics n where
  initial: "treach hook_panics panics n (fresh_bus n)"
| step: "treach hook_panics panics n b \<Longrightarrow> tstep hook_panics panics b b' \<Longrightarrow> treach hook_panics panics n b'"

section \<open>Shuffles\<close>

lemma shuffles_snoc_left: "zs \<in> shuffles xs ys \<Longrightarrow> zs @ [z] \<in> shuffles (xs @ [z]) ys"
proof (induction xs ys arbitrary: zs rule: shuffles.induct)
  case (1 ys)
  then have "zs = ys" by simp
  have "ys @ [z] \<in> shuffles [z] ys"
    by (induction ys) (auto intro: Cons_in_shuffles_rightI)
  then show ?case using \<open>zs = ys\<close> by simp
next
  case (2 xs)
  then show ?case by (cases "xs") auto
next
  case (3 x xs y ys)
  then show ?case by auto
qed

lemma shuffles_snoc_right: "zs \<in> shuffles xs ys \<Longrightarrow> zs @ [z] \<in> shuffles xs (ys @ [z])"
  using shuffles_snoc_left [of zs ys xs z] by (simp add: shuffles_commutes)

lemma shuffles_mset: "zs \<in> shuffles xs ys \<Longrightarrow> mset zs = mset xs + mset ys"
  by (induction xs ys arbitrary: zs rule: shuffles.induct) auto

section \<open>The operations on one subscriber\<close>

lemma push_simps [simp]:
  "buffer (push i e t) = buffer t" "registered (push i e t) = registered t" "closed (push i e t) = closed t"
  "publishedTotal (push i e t) = publishedTotal t" "droppedTotal (push i e t) = droppedTotal t"
  "panicsRecovered (push i e t) = panicsRecovered t" "hookPanicsRecovered (push i e t) = hookPanicsRecovered t"
  "length (subs (push i e t)) = length (subs t)"
  by (simp_all add: push_def Let_def)

lemma push_bus [simp]: "flights (push i e b) = flights b" "published (push i e b) = published b"
  by (simp_all add: push_def Let_def)

lemma evict_simps [simp]:
  "buffer (evict_oldest i t) = buffer t" "registered (evict_oldest i t) = registered t"
  "closed (evict_oldest i t) = closed t" "publishedTotal (evict_oldest i t) = publishedTotal t"
  "panicsRecovered (evict_oldest i t) = panicsRecovered t"
  "hookPanicsRecovered (evict_oldest i t) = hookPanicsRecovered t"
  "length (subs (evict_oldest i t)) = length (subs t)"
  by (simp_all add: evict_oldest_def Let_def split: list.split)

lemma evict_bus [simp]: "flights (evict_oldest i b) = flights b" "published (evict_oldest i b) = published b"
  by (simp_all add: evict_oldest_def Let_def split: list.split)

lemma deliver_simps [simp]:
  "buffer (deliver p i t) = buffer t" "registered (deliver p i t) = registered t"
  "closed (deliver p i t) = closed t" "publishedTotal (deliver p i t) = publishedTotal t"
  "droppedTotal (deliver p i t) = droppedTotal t"
  "hookPanicsRecovered (deliver p i t) = hookPanicsRecovered t"
  "length (subs (deliver p i t)) = length (subs t)"
  by (simp_all add: deliver_def Let_def split: list.split)

lemma deliver_bus [simp]: "flights (deliver p i b) = flights b" "published (deliver p i b) = published b"
  by (simp_all add: deliver_def Let_def split: list.split)

lemma runHook_simps [simp]:
  "buffer (runHook h e t) = buffer t" "registered (runHook h e t) = registered t" "closed (runHook h e t) = closed t"
  "publishedTotal (runHook h e t) = publishedTotal t" "droppedTotal (runHook h e t) = droppedTotal t"
  "panicsRecovered (runHook h e t) = panicsRecovered t" "subs (runHook h e t) = subs t"
  by (simp_all add: runHook_def)

lemma runHook_bus [simp]: "flights (runHook h e b) = flights b" "published (runHook h e b) = published b"
  by (simp_all add: runHook_def)

lemma exit_simps [simp]:
  "buffer (drain_exit i t) = buffer t" "registered (drain_exit i t) = registered t"
  "closed (drain_exit i t) = closed t" "publishedTotal (drain_exit i t) = publishedTotal t"
  "droppedTotal (drain_exit i t) = droppedTotal t" "panicsRecovered (drain_exit i t) = panicsRecovered t"
  "hookPanicsRecovered (drain_exit i t) = hookPanicsRecovered t"
  "length (subs (drain_exit i t)) = length (subs t)"
  by (simp_all add: drain_exit_def)

lemma exit_bus [simp]: "flights (drain_exit i b) = flights b" "published (drain_exit i b) = published b"
  by (simp_all add: drain_exit_def)

section \<open>The accounts of a subscriber\<close>

definition sub_ok :: "nat \<Rightarrow> 'a subscriber \<Rightarrow> bool" where
  "sub_ok n s \<longleftrightarrow>
     length (queue s) \<le> n \<and> (\<exists>past \<in> shuffles (delivered s) (shed s). sent s = past @ queue s)"

lemma sub_ok_new [simp]: "sub_ok n new_subscriber"
  by (simp add: sub_ok_def new_subscriber_def)

lemma sub_ok_push:
  assumes "sub_ok n s" "length (queue s) < n"
  shows "sub_ok n (s\<lparr>queue := queue s @ [e], sent := sent s @ [e]\<rparr>)"
  using assms by (auto simp: sub_ok_def)

lemma sub_ok_evict:
  assumes "sub_ok n s" "queue s = x # q"
  shows "sub_ok n (s\<lparr>queue := q, shed := shed s @ [x]\<rparr>)"
  using assms by (force simp: sub_ok_def dest: shuffles_snoc_right)

lemma sub_ok_deliver:
  assumes "sub_ok n s" "queue s = x # q"
  shows "sub_ok n (s\<lparr>queue := q, delivered := delivered s @ [x]\<rparr>)"
  using assms by (force simp: sub_ok_def dest: shuffles_snoc_left)

lemma sub_ok_exit [simp]: "sub_ok n (s\<lparr>running := v\<rparr>) = sub_ok n s"
  by (simp add: sub_ok_def)

definition subs_ok :: "('a, 'b) Topic_scheme \<Rightarrow> bool" where
  "subs_ok t \<longleftrightarrow> (\<forall>s \<in> set (subs t). sub_ok (buffer t) s)"

lemma subs_ok_update:
  assumes "subs_ok t" "sub_ok (buffer t) (subs t ! i) \<Longrightarrow> sub_ok (buffer t) s"
  shows "subs_ok (t\<lparr>subs := (subs t)[i := s]\<rparr>)"
proof (cases "i < length (subs t)")
  case True
  then have "sub_ok (buffer t) s" using assms by (simp add: subs_ok_def)
  then show ?thesis using assms(1) by (auto simp: subs_ok_def dest!: set_update_subset_insert [THEN subsetD])
next
  case False
  then show ?thesis using assms(1) by (simp add: list_update_beyond)
qed

lemma subs_ok_counters [simp]:
  "subs_ok (t\<lparr>droppedTotal := d\<rparr>) = subs_ok t" "subs_ok (t\<lparr>panicsRecovered := d\<rparr>) = subs_ok t"
  by (simp_all add: subs_ok_def)

lemma subs_ok_push: "subs_ok t \<Longrightarrow> has_room t i \<Longrightarrow> subs_ok (push i e t)"
  unfolding push_def Let_def has_room_def by (intro subs_ok_update sub_ok_push)

lemma subs_ok_evict: "subs_ok t \<Longrightarrow> subs_ok (evict_oldest i t)"
proof (cases "queue (subs t ! i)")
  case (Cons x q)
  assume "subs_ok t"
  then have "subs_ok (t\<lparr>subs := (subs t)[i := (subs t ! i)\<lparr>queue := q, shed := shed (subs t ! i) @ [x]\<rparr>]\<rparr>)"
    by (intro subs_ok_update sub_ok_evict Cons)
  then show ?thesis by (simp add: evict_oldest_def Let_def Cons)
qed (simp add: evict_oldest_def)

lemma subs_ok_deliver: "subs_ok t \<Longrightarrow> subs_ok (deliver p i t)"
proof (cases "queue (subs t ! i)")
  case (Cons x q)
  assume "subs_ok t"
  then have "subs_ok (t\<lparr>subs := (subs t)[i := (subs t ! i)\<lparr>queue := q, delivered := delivered (subs t ! i) @ [x]\<rparr>]\<rparr>)"
    by (intro subs_ok_update sub_ok_deliver Cons)
  then show ?thesis by (simp add: deliver_def Let_def Cons)
qed (simp add: deliver_def)

lemma subs_ok_exit: "subs_ok t \<Longrightarrow> subs_ok (drain_exit i t)"
  unfolding drain_exit_def by (intro subs_ok_update) simp_all

section \<open>Invariants of the step relation\<close>

lemma treach_buffer [simp]: "treach h p n b \<Longrightarrow> buffer b = n"
proof (induction rule: treach.induct)
  case (step b b')
  from step.hyps(2) step.IH show ?case
    by (cases rule: tstep.cases) (auto simp: Topic_Subscribe_def start_publish_def Topic_Close_def drain_exit_def)
qed (simp add: fresh_bus_def)

lemma treach_subs: "treach h p n b \<Longrightarrow> subs_ok b"
proof (induction rule: treach.induct)
  case (step b b')
  from step.hyps(2) step.IH show ?case
  proof (cases rule: tstep.cases)
    case subscribe
    then show ?thesis using step.IH by (auto simp: Topic_Subscribe_def subs_ok_def)
  next
    case (send fs e i "is" gs)
    then show ?thesis using subs_ok_push [OF step.IH send(3), of e] by (simp add: subs_ok_def)
  next
    case (evict fs e i "is" gs)
    then show ?thesis using subs_ok_evict [OF step.IH, of i] by (simp add: subs_ok_def)
  next
    case (handle i)
    then show ?thesis using subs_ok_deliver [OF step.IH] by simp
  next
    case (exit i)
    then show ?thesis using subs_ok_exit [OF step.IH] by simp
  qed (simp_all add: subs_ok_def start_publish_def Topic_Close_def)
qed (simp add: fresh_bus_def subs_ok_def)

fun served :: "'a flight \<Rightarrow> nat list" where
  "served (Sending e is) = is"
| "served (Evicting e is) = is"

fun event_of :: "'a flight \<Rightarrow> 'a Event" where
  "event_of (Sending e is) = e"
| "event_of (Evicting e is) = e"

text \<open>The locks: publishes are in flight only while the topic is open, for registered subscribers.\<close>

definition locks_ok :: "'a Bus \<Rightarrow> bool" where
  "locks_ok b \<longleftrightarrow>
     (closed b \<longrightarrow> flights b = [] \<and> registered b = 0) \<and>
     (\<not> closed b \<longrightarrow> registered b = length (subs b)) \<and>
     (\<forall>f \<in> set (flights b). set (served f) \<subseteq> {..<length (subs b)} \<and> distinct (served f)) \<and>
     (\<forall>(e, is) \<in> set (published b). set is \<subseteq> {..<length (subs b)} \<and> distinct is)"

lemma treach_locks: "treach h p n b \<Longrightarrow> locks_ok b"
proof (induction rule: treach.induct)
  case (step b b')
  from step.hyps(2) step.IH show ?case
    by (cases rule: tstep.cases)
      (force simp: locks_ok_def Topic_Subscribe_def start_publish_def Topic_Close_def drain_exit_def)+
qed (simp add: fresh_bus_def locks_ok_def)


section \<open>Counting\<close>

lemma sent_push:
  "i < length (subs t) \<Longrightarrow> sent (subs (push i e t) ! j) = (if j = i then sent (subs t ! i) @ [e] else sent (subs t ! j))"
  by (simp add: push_def Let_def)

lemma sent_evict [simp]: "i < length (subs t) \<Longrightarrow> sent (subs (evict_oldest i t) ! j) = sent (subs t ! j)"
  by (cases "j = i") (simp_all add: evict_oldest_def Let_def split: list.split)

lemma sent_deliver [simp]: "i < length (subs t) \<Longrightarrow> sent (subs (deliver p i t) ! j) = sent (subs t ! j)"
  by (cases "j = i") (simp_all add: deliver_def Let_def split: list.split)

lemma sent_exit [simp]: "i < length (subs t) \<Longrightarrow> sent (subs (drain_exit i t) ! j) = sent (subs t ! j)"
  by (cases "j = i") (simp_all add: drain_exit_def)

definition pend :: "nat \<Rightarrow> 'a flight list \<Rightarrow> 'a Event multiset" where
  "pend i fs = mset (map event_of (filter (\<lambda>f. i \<in> set (served f)) fs))"

definition owed :: "nat \<Rightarrow> ('a Event \<times> nat list) list \<Rightarrow> 'a Event list" where
  "owed i ps = map fst (filter (\<lambda>(e, is). i \<in> set is) ps)"

lemma pend_simps [simp]:
  "pend i [] = {#}" "pend i (fs @ gs) = pend i fs + pend i gs"
  "pend i (f # gs) = (if i \<in> set (served f) then {#event_of f#} else {#}) + pend i gs"
  by (simp_all add: pend_def)

lemma owed_simps [simp]:
  "owed i [] = []" "owed i (ps @ qs) = owed i ps @ owed i qs"
  "owed i ((e, is) # qs) = (if i \<in> set is then [e] else []) @ owed i qs"
  by (simp_all add: owed_def)

lemma owed_none: "\<forall>(e, is) \<in> set ps. set is \<subseteq> {..<k} \<Longrightarrow> owed k ps = []"
  by (auto simp: owed_def filter_empty_conv)

definition counted :: "'a Bus \<Rightarrow> bool" where
  "counted b \<longleftrightarrow>
     (\<forall>i < length (subs b). mset (sent (subs b ! i)) + pend i (flights b) = mset (owed i (published b)))"

lemma treach_counted: "treach h p n b \<Longrightarrow> counted b"
proof (induction rule: treach.induct)
  case (step b b')
  have l: "locks_ok b" by (rule treach_locks [OF step.hyps(1)])
  from step.hyps(2) show ?case
  proof (cases rule: tstep.cases)
    case subscribe
    have "owed (length (subs b)) (published b) = []" using l by (intro owed_none) (auto simp: locks_ok_def)
    then show ?thesis using subscribe step.IH
      by (auto simp: counted_def Topic_Subscribe_def nth_append new_subscriber_def less_Suc_eq)
  next
    case (start e)
    then show ?thesis using step.IH by (auto simp: counted_def start_publish_def)
  next
    case (send fs e i "is" gs)
    have "i < length (subs b)" "i \<notin> set is" using l send(2) by (auto simp: locks_ok_def)
    then show ?thesis using step.IH send by (auto simp: counted_def sent_push)
  next
    case (evict fs e i "is" gs)
    have "i < length (subs b)" using l evict(2) by (auto simp: locks_ok_def)
    then show ?thesis using step.IH evict by (auto simp: counted_def)
  qed (use step.IH in \<open>auto simp: counted_def Topic_Close_def\<close>)
qed (simp add: fresh_bus_def counted_def)

text \<open>The counters of \<open>Stats\<close>.\<close>

definition totals_ok :: "('a Event \<Rightarrow> bool) \<Rightarrow> (nat \<Rightarrow> 'a Event \<Rightarrow> bool) \<Rightarrow> 'a Bus \<Rightarrow> bool" where
  "totals_ok h p b \<longleftrightarrow>
     publishedTotal b + length (flights b) = length (published b) \<and>
     droppedTotal b = (\<Sum>i < length (subs b). length (shed (subs b ! i))) \<and>
     panicsRecovered b = (\<Sum>i < length (subs b). length (filter (p i) (delivered (subs b ! i)))) \<and>
     hookPanicsRecovered b = length (filter h (map fst (published b)))"

lemma sum_nth_update:
  "i < length xs \<Longrightarrow>
    (\<Sum>j < length xs. f j (xs[i := y] ! j) :: nat) + f i (xs ! i) = (\<Sum>j < length xs. f j (xs ! j)) + f i y"
proof -
  assume i: "i < length xs"
  have a: "(\<Sum>j < length xs. g j) = g i + (\<Sum>j \<in> {..<length xs} - {i}. g j)" for g :: "nat \<Rightarrow> nat"
    using i by (simp add: sum.remove)
  have "(\<Sum>j \<in> {..<length xs} - {i}. f j (xs[i := y] ! j)) = (\<Sum>j \<in> {..<length xs} - {i}. f j (xs ! j))"
    by (rule sum.cong) auto
  then show ?thesis using i a [of "\<lambda>j. f j (xs[i := y] ! j)"] a [of "\<lambda>j. f j (xs ! j)"] by simp
qed

lemma treach_totals: "treach h p n b \<Longrightarrow> totals_ok h p b"
proof (induction rule: treach.induct)
  case (step b b')
  have l: "locks_ok b" by (rule treach_locks [OF step.hyps(1)])
  note upd = sum_nth_update [where f = "\<lambda>j s. length (shed s)"] sum_nth_update [where f = "\<lambda>j s. length (filter (p j) (delivered s))"]
  from step.hyps(2) show ?case
  proof (cases rule: tstep.cases)
    case subscribe
    then show ?thesis using step.IH
      by (auto simp: totals_ok_def Topic_Subscribe_def nth_append new_subscriber_def)
  next
    case (start e)
    then show ?thesis using step.IH by (auto simp: totals_ok_def start_publish_def runHook_def)
  next
    case (send fs e i "is" gs)
    have i: "i < length (subs b)" using l send(2) by (auto simp: locks_ok_def)
    let ?s = "(subs b ! i)\<lparr>queue := queue (subs b ! i) @ [e], sent := sent (subs b ! i) @ [e]\<rparr>"
    have "subs b' = (subs b)[i := ?s]" using send by (simp add: push_def Let_def)
    then show ?thesis using step.IH send upd [OF i, of ?s] by (simp add: totals_ok_def)
  next
    case (evict fs e i "is" gs)
    have i: "i < length (subs b)" using l evict(2) by (auto simp: locks_ok_def)
    show ?thesis
    proof (cases "queue (subs b ! i)")
      case Nil
      then show ?thesis using step.IH evict by (simp add: totals_ok_def evict_oldest_def)
    next
      case (Cons x q)
      let ?s = "(subs b ! i)\<lparr>queue := q, shed := shed (subs b ! i) @ [x]\<rparr>"
      have "subs b' = (subs b)[i := ?s]" "droppedTotal b' = Suc (droppedTotal b)"
        using evict Cons by (simp_all add: evict_oldest_def Let_def)
      then show ?thesis using step.IH evict upd [OF i, of ?s] by (simp add: totals_ok_def)
    qed
  next
    case (handle i)
    then obtain x q where q: "queue (subs b ! i) = x # q" by (cases "queue (subs b ! i)") auto
    let ?s = "(subs b ! i)\<lparr>queue := q, delivered := delivered (subs b ! i) @ [x]\<rparr>"
    have "subs b' = (subs b)[i := ?s]" "panicsRecovered b' = panicsRecovered b + (if p i x then 1 else 0)"
      using handle q by (simp_all add: deliver_def Let_def)
    then show ?thesis using step.IH handle upd [OF handle(2), of ?s] by (simp add: totals_ok_def)
  next
    case (exit i)
    let ?s = "(subs b ! i)\<lparr>running := False\<rparr>"
    show ?thesis using step.IH exit upd [OF exit(2), of ?s] by (simp add: totals_ok_def drain_exit_def)
  qed (use step.IH in \<open>auto simp: totals_ok_def Topic_Close_def\<close>)
qed (simp add: fresh_bus_def totals_ok_def)


section \<open>A publish alone\<close>

lemma enqueue_step: "enqueue i e t = (if has_room t i then Some (push i e t) else enqueue i e (evict_oldest i t))"
  by (rule enqueue.simps)

lemma has_room_after_evict:
  assumes "0 < buffer t" "i < length (subs t)" "length (queue (subs t ! i)) \<le> buffer t"
  shows "has_room (evict_oldest i t) i"
proof -
  have "buffer (evict_oldest i t) = buffer t" by simp
  moreover have "length (queue (subs (evict_oldest i t) ! i)) < buffer t"
    using assms by (cases "queue (subs t ! i)") (simp_all add: evict_oldest_def Let_def)
  ultimately show ?thesis by (simp add: has_room_def)
qed

lemma enqueue_returns:
  assumes "0 < buffer t" "i < length (subs t)" "length (queue (subs t ! i)) \<le> buffer t"
  shows "enqueue i e t = Some (push i e (if has_room t i then t else evict_oldest i t))"
  using has_room_after_evict [OF assms]
  by (subst enqueue_step, subst enqueue_step) simp

lemma enqueue_subs_ok:
  assumes "subs_ok t" "0 < buffer t" "i < length (subs t)"
  obtains t' where "enqueue i e t = Some t'" "subs_ok t'" "buffer t' = buffer t"
    "length (subs t') = length (subs t)"
proof -
  have q: "length (queue (subs t ! i)) \<le> buffer t"
    using assms by (auto simp: subs_ok_def sub_ok_def)
  let ?u = "if has_room t i then t else evict_oldest i t"
  have "subs_ok (push i e ?u)"
    using assms(1) has_room_after_evict [OF assms(2,3) q] by (auto intro!: subs_ok_push subs_ok_evict)
  then show thesis using that [OF enqueue_returns [OF assms(2,3) q]] by simp
qed

lemma fan_out_returns:
  assumes "subs_ok t" "0 < buffer t" "set is \<subseteq> {..<length (subs t)}"
  shows "\<exists>t'. fan_out e is t = Some t'"
  using assms
proof (induction "is" arbitrary: t)
  case (Cons i "is")
  obtain t' where t': "enqueue i e t = Some t'" "subs_ok t'" "buffer t' = buffer t" "length (subs t') = length (subs t)"
    by (rule enqueue_subs_ok [OF Cons.prems(1,2), of i e]) (use Cons.prems in auto)
  with Cons.IH [of t'] Cons.prems show ?case by simp
qed simp

text \<open>The loop of \<open>enqueue\<close> and the fan-out are runs of the steps.\<close>

lemma enqueue_run:
  fixes b :: "'a Bus"
  assumes "subs_ok b" "0 < buffer b" "i < length (subs b)" "flights b = [Sending e (i # is)]"
    "enqueue i e b = Some b'"
  shows "(tstep h p)\<^sup>*\<^sup>* b (b'\<lparr>flights := [Sending e is]\<rparr>)"
proof -
  have q: "length (queue (subs b ! i)) \<le> buffer b" using assms by (auto simp: subs_ok_def sub_ok_def)
  note r = enqueue_returns [OF assms(2,3) q, of e]
  show ?thesis
  proof (cases "has_room b i")
    case True
    then have "tstep h p b ((push i e b)\<lparr>flights := [] @ Sending e is # []\<rparr>)"
      by (intro tstep.send) (simp add: assms)
    then show ?thesis using True r assms(5) by auto
  next
    case False
    let ?c = "(evict_oldest i b)\<lparr>flights := [Sending e (i # is)]\<rparr>"
    have 1: "tstep h p b (b\<lparr>flights := [] @ Evicting e (i # is) # []\<rparr>)"
      by (rule tstep.full [OF _ False]) (simp add: assms)
    have "tstep h p (b\<lparr>flights := [Evicting e (i # is)]\<rparr>)
        ((evict_oldest i (b\<lparr>flights := [Evicting e (i # is)]\<rparr>))\<lparr>flights := [] @ Sending e (i # is) # []\<rparr>)"
      by (intro tstep.evict) simp
    moreover have "(evict_oldest i (b\<lparr>flights := [Evicting e (i # is)]\<rparr>))\<lparr>flights := [Sending e (i # is)]\<rparr> = ?c"
      by (simp add: evict_oldest_def Let_def split: list.split)
    ultimately have 2: "tstep h p (b\<lparr>flights := [Evicting e (i # is)]\<rparr>) ?c" by simp
    have "has_room ?c i" using has_room_after_evict [OF assms(2,3) q] by (simp add: has_room_def)
    then have "tstep h p ?c ((push i e ?c)\<lparr>flights := [] @ Sending e is # []\<rparr>)" by (intro tstep.send) simp_all
    moreover have "(push i e ?c)\<lparr>flights := [Sending e is]\<rparr> = b'\<lparr>flights := [Sending e is]\<rparr>"
      using False r assms(5) by (simp add: push_def Let_def) 
    ultimately show ?thesis using 1 2 by (simp add: converse_rtranclp_into_rtranclp)
  qed
qed

lemma enqueue_bus:
  fixes b :: "'a Bus"
  assumes "subs_ok b" "0 < buffer b" "i < length (subs b)" "enqueue i e b = Some c"
  shows "enqueue i e (b\<lparr>flights := F, published := P\<rparr>) = Some (c\<lparr>flights := F, published := P\<rparr>)"
proof -
  have q: "length (queue (subs b ! i)) \<le> buffer b" using assms by (auto simp: subs_ok_def sub_ok_def)
  have "enqueue i e (b\<lparr>flights := F, published := P\<rparr>) =
      Some (push i e (if has_room b i then b\<lparr>flights := F, published := P\<rparr> else evict_oldest i (b\<lparr>flights := F, published := P\<rparr>)))"
    by (subst enqueue_returns) (use assms q in \<open>simp_all add: has_room_def\<close>)
  then show ?thesis using enqueue_returns [OF assms(2,3) q, of e] assms(4)
    by (auto simp: push_def evict_oldest_def Let_def split: list.split)
qed

lemma bus_update_swap: "(b\<lparr>published := P, flights := F\<rparr>) = (b :: 'a Bus)\<lparr>flights := F, published := P\<rparr>"
  by (cases b) simp

lemma fan_out_flights:
  fixes b :: "'a Bus"
  assumes "subs_ok b" "0 < buffer b" "set is \<subseteq> {..<length (subs b)}" "fan_out e is b = Some b'"
  shows "flights b' = flights b"
  using assms
proof (induction "is" arbitrary: b)
  case (Cons i "is")
  have i: "i < length (subs b)" using Cons.prems(3) by simp
  obtain c where c: "enqueue i e b = Some c" "subs_ok c" "buffer c = buffer b" "length (subs c) = length (subs b)"
    by (rule enqueue_subs_ok [OF Cons.prems(1,2) i])
  have "c = c\<lparr>flights := flights b, published := published b\<rparr>"
    using enqueue_bus [OF Cons.prems(1,2) i c(1), where F = "flights b" and P = "published b"] c(1) by simp
  then have "flights c = flights b" by (metis Bus.select_convs(1) Bus.surjective Bus.update_convs(1,2))
  then show ?case using Cons.IH [of c] Cons.prems c by simp
qed simp

lemma fan_out_run:
  fixes b :: "'a Bus"
  assumes "subs_ok b" "0 < buffer b" "set is \<subseteq> {..<length (subs b)}" "fan_out e is b = Some b'"
  shows "(tstep h p)\<^sup>*\<^sup>* (b\<lparr>flights := [Sending e is], published := P\<rparr>) (b'\<lparr>flights := [Sending e []], published := P\<rparr>)"
  using assms
proof (induction "is" arbitrary: b)
  case (Cons i "is")
  obtain c where c: "enqueue i e b = Some c" "subs_ok c" "buffer c = buffer b" "length (subs c) = length (subs b)"
    by (rule enqueue_subs_ok [OF Cons.prems(1,2), of i e]) (use Cons.prems in auto)
  have "(tstep h p)\<^sup>*\<^sup>* (b\<lparr>flights := [Sending e (i # is)], published := P\<rparr>)
      (c\<lparr>flights := [Sending e (i # is)], published := P, flights := [Sending e is]\<rparr>)"
    by (rule enqueue_run) (use Cons.prems in \<open>auto simp: enqueue_bus c(1) subs_ok_def\<close>)
  moreover have "(tstep h p)\<^sup>*\<^sup>* (c\<lparr>flights := [Sending e is], published := P\<rparr>) (b'\<lparr>flights := [Sending e []], published := P\<rparr>)"
    by (rule Cons.IH) (use Cons.prems c in auto)
  ultimately show ?case by (simp add: bus_update_swap)
qed simp

section \<open>Closing\<close>

definition work :: "'a Bus \<Rightarrow> nat" where
  "work b = (\<Sum>i < length (subs b). length (queue (subs b ! i)) + (if running (subs b ! i) then 1 else 0))"

lemma work_update:
  "i < length (subs b) \<Longrightarrow> subs b' = (subs b)[i := s] \<Longrightarrow>
    work b' + length (queue (subs b ! i)) + (if running (subs b ! i) then 1 else 0) =
    work b + length (queue s) + (if running s then 1 else 0)"
  using sum_nth_update [of i "subs b" "\<lambda>j s. length (queue s) + (if running s then 1 else 0)" s]
  by (simp add: work_def)

lemma closed_step:
  assumes "tstep h p b b'" "closed b" "flights b = []"
  shows "closed b' \<and> work b' < work b"
  using assms(1)
proof (cases rule: tstep.cases)
  case (handle i)
  then obtain x q where q: "queue (subs b ! i) = x # q" by (cases "queue (subs b ! i)") auto
  let ?s = "(subs b ! i)\<lparr>queue := q, delivered := delivered (subs b ! i) @ [x]\<rparr>"
  have "subs b' = (subs b)[i := ?s]" using handle q by (simp add: deliver_def Let_def)
  then show ?thesis using work_update [OF handle(2), of b' ?s] q handle assms by simp
next
  case (exit i)
  have "subs b' = (subs b)[i := (subs b ! i)\<lparr>running := False\<rparr>]" using exit by (simp add: drain_exit_def)
  then show ?thesis using work_update [OF exit(2), of b' "(subs b ! i)\<lparr>running := False\<rparr>"] exit by simp
qed (use assms in auto)

lemma closed_progress:
  assumes "closed b" "work b \<noteq> 0"
  shows "\<exists>b'. tstep h p b b'"
proof -
  obtain i where i: "i < length (subs b)" "queue (subs b ! i) \<noteq> [] \<or> running (subs b ! i)"
    using assms(2) unfolding work_def sum_eq_0_iff [OF finite_lessThan] by (auto split: if_splits)
  then show ?thesis using tstep.handle [of i b h p] tstep.exit [OF i(1) assms(1), of h p] by blast
qed

lemma quiet_accounts:
  assumes "treach h p n b" "flights b = []" "i < length (subs b)"
  shows "mset (delivered (subs b ! i)) + mset (shed (subs b ! i)) + mset (queue (subs b ! i)) =
      mset (owed i (published b))"
proof -
  have "subs b ! i \<in> set (subs b)" using assms(3) by simp
  then obtain past where past: "past \<in> shuffles (delivered (subs b ! i)) (shed (subs b ! i))"
      "sent (subs b ! i) = past @ queue (subs b ! i)"
    using treach_subs [OF assms(1)] by (auto simp: subs_ok_def sub_ok_def)
  have "mset (sent (subs b ! i)) = mset (owed i (published b))"
    using treach_counted [OF assms(1)] assms(2,3) by (simp add: counted_def)
  then show ?thesis using past shuffles_mset [OF past(1)] by simp
qed

section \<open>Guarantees\<close>


text \<open>Theorem: while no publish is in flight, what a subscriber has handled, shed and still queues is
  exactly what was published since it subscribed, and the counters of \<open>Stats\<close> count the publishes and
  the evictions.\<close>

theorem published_events_accounted:
  assumes "treach h p n b" "flights b = []" "i < length (subs b)"
  shows "mset (delivered (subs b ! i)) + mset (shed (subs b ! i)) + mset (queue (subs b ! i)) =
      mset (owed i (published b)) \<and>
    publishedTotal b = length (published b) \<and>
    droppedTotal b = (\<Sum>j < length (subs b). length (shed (subs b ! j)))"
  using quiet_accounts [OF assms] treach_totals [OF assms(1)] assms(2) by (simp add: totals_ok_def)

text \<open>Theorem: no publish is in flight on a closed topic, so nothing is sent on a closed queue.\<close>

theorem no_publish_into_closed:
  assumes "treach h p n b" "closed b"
  shows "flights b = []"
  using treach_locks [OF assms(1)] assms(2) by (simp add: locks_ok_def)

lemma publish_alone_run:
  assumes "treach h p n b" "flights b = []" "\<not> closed b" "0 < n"
  shows "\<exists>b'. Topic_Publish h e b = Some (True, b') \<and>
    (tstep h p)\<^sup>*\<^sup>* b (b'\<lparr>published := published b @ [(e, [0..<registered b])]\<rparr>)"
proof -
  let ?is = "[0..<registered b]" and ?P = "published b @ [(e, [0..<registered b])]"
  let ?r = "runHook h e b"
  have ok: "subs_ok ?r" "0 < buffer ?r" "set ?is \<subseteq> {..<length (subs ?r)}"
    using treach_subs [OF assms(1)] treach_buffer [OF assms(1)] treach_locks [OF assms(1)] assms(3,4)
    by (auto simp: subs_ok_def locks_ok_def)
  obtain c where c: "fan_out e ?is ?r = Some c" using fan_out_returns [OF ok] by blast
  have "start_publish h e b = ?r\<lparr>flights := [Sending e ?is], published := ?P\<rparr>"
    using assms(2) by (simp add: start_publish_def)
  then have "(tstep h p)\<^sup>*\<^sup>* b (c\<lparr>flights := [Sending e []], published := ?P\<rparr>)"
    using tstep.start [OF assms(3), of h p e] fan_out_run [OF ok c, of h p ?P]
    by (simp add: converse_rtranclp_into_rtranclp)
  moreover have "tstep h p (c\<lparr>flights := [Sending e []], published := ?P\<rparr>)
     (c\<lparr>flights := [] @ [], published := ?P, publishedTotal := Suc (publishedTotal c)\<rparr>)"
    using tstep.finish [of "c\<lparr>flights := [Sending e []], published := ?P\<rparr>" "[]" e "[]" h p] by (simp add: bus_update_swap)
  moreover have "c\<lparr>flights := []\<rparr> = c" using fan_out_flights [OF ok c] assms(2) by (cases c) simp
  ultimately have "(tstep h p)\<^sup>*\<^sup>* b (c\<lparr>published := ?P, publishedTotal := Suc (publishedTotal c)\<rparr>)" 
    by simp
  moreover have "c\<lparr>published := ?P, publishedTotal := Suc (publishedTotal c)\<rparr> =
      c\<lparr>publishedTotal := Suc (publishedTotal c), published := ?P\<rparr>" by (cases c) simp
  ultimately show ?thesis using assms(3) c by (auto simp: Topic_Publish_def)
qed

text \<open>Theorem: after \<open>Close\<close> only the drain goroutines move; every step shrinks what is left to handle,
  and while a queue is not empty or a goroutine runs there is a step, so the wait of \<open>Close\<close> ends.\<close>

theorem closing_terminates:
  assumes "treach h p n b" "closed b"
  shows "(\<forall>b'. tstep h p b b' \<longrightarrow> closed b' \<and> work b' < work b) \<and>
    (work b \<noteq> 0 \<longrightarrow> (\<exists>b'. tstep h p b b'))"
  using closed_step closed_progress treach_locks [OF assms(1)] assms(2) by (metis locks_ok_def)


text \<open>Theorem: \<open>Publish\<close> does not block. On an open topic with no other publish in flight it returns true
  whatever the queues hold, and its effect is a run of the channel steps.\<close>

theorem publish_alone_returns:
  assumes "treach h p n b" "flights b = []" "\<not> closed b" "0 < n"
  shows "\<exists>b'. Topic_Publish h e b = Some (True, b') \<and>
    (tstep h p)\<^sup>*\<^sup>* b (b'\<lparr>published := published b @ [(e, [0..<registered b])]\<rparr>)"
  using publish_alone_run [OF assms] by simp

section \<open>A sample run\<close>

text \<open>One subscriber with a queue of one: the second event evicts the first and is delivered.\<close>

definition sample_event :: "nat \<Rightarrow> nat Event" where
  "sample_event n = \<lparr>Event_ID = [], Timestamp = int n, Source = ''agent'', Payload = n\<rparr>"

definition quiet :: "nat Event \<Rightarrow> bool" where
  "quiet e = False"

definition run_publish :: "nat Event \<Rightarrow> nat Bus \<Rightarrow> nat Bus" where
  "run_publish e b =
     (snd (the (Topic_Publish quiet e b)))\<lparr>published := published b @ [(e, [0..<registered b])]\<rparr>"

definition sample_bus :: "nat Bus" where
  "sample_bus = run_publish (sample_event 1) (run_publish (sample_event 0) (Topic_Subscribe (fresh_bus 1)))"

lemma treach_run: "(tstep h p)\<^sup>*\<^sup>* b b' \<Longrightarrow> treach h p n b \<Longrightarrow> treach h p n b'"
  by (induction rule: rtranclp_induct) (auto intro: treach.step)

lemma run_publish_reach:
  assumes "treach quiet p n b" "flights b = []" "\<not> closed b" "0 < n"
  shows "treach quiet p n (run_publish e b)"
  using publish_alone_run [OF assms, of e] treach_run [OF _ assms(1)] by (auto simp: run_publish_def)

lemma sample_bus_eq:
  "sample_bus =
     \<lparr>buffer = 1,
      subs = [\<lparr>queue = [sample_event 1], running = True, sent = [sample_event 0, sample_event 1],
               delivered = [], shed = [sample_event 0]\<rparr>],
      registered = 1, closed = False, publishedTotal = 2, droppedTotal = 1, panicsRecovered = 0,
      hookPanicsRecovered = 0, flights = [],
      published = [(sample_event 0, [0]), (sample_event 1, [0])]\<rparr>"
  by code_simp

lemma sample_bus_reach: "treach quiet p 1 sample_bus"
proof -
  have 1: "treach quiet p 1 (Topic_Subscribe (fresh_bus 1))"
    by (rule treach.step [OF treach.initial tstep.subscribe]) (simp_all add: fresh_bus_def)
  let ?b = "run_publish (sample_event 0) (Topic_Subscribe (fresh_bus 1))"
  have 2: "treach quiet p 1 ?b"
    by (rule run_publish_reach [OF 1]) (simp_all add: fresh_bus_def Topic_Subscribe_def)
  have "flights ?b = []" "\<not> closed ?b" by code_simp+
  then show ?thesis unfolding sample_bus_def by (intro run_publish_reach [OF 2]) simp_all
qed

lemma sample_closed_reach: "treach quiet p 1 (Topic_Close sample_bus)"
  by (rule treach.step [OF sample_bus_reach tstep.close]) (simp_all add: sample_bus_eq)


theorem published_events_accounted_witness:
  "mset (delivered (subs sample_bus ! 0)) + mset (shed (subs sample_bus ! 0)) + mset (queue (subs sample_bus ! 0)) =
     mset (owed 0 (published sample_bus)) \<and>
   publishedTotal sample_bus = length (published sample_bus) \<and>
   droppedTotal sample_bus = (\<Sum>j < length (subs sample_bus). length (shed (subs sample_bus ! j)))"
  by (rule published_events_accounted [OF sample_bus_reach]) (simp_all add: sample_bus_eq)

theorem no_publish_into_closed_witness: "flights (Topic_Close sample_bus) = []"
  by (rule no_publish_into_closed [OF sample_closed_reach]) (simp add: Topic_Close_def sample_bus_eq)

theorem publish_alone_returns_witness:
  "\<exists>b'. Topic_Publish quiet (sample_event 2) sample_bus = Some (True, b') \<and>
    (tstep quiet (\<lambda>_. quiet))\<^sup>*\<^sup>* sample_bus (b'\<lparr>published := published sample_bus @ [(sample_event 2, [0..<registered sample_bus])]\<rparr>)"
  by (rule publish_alone_returns [OF sample_bus_reach]) (simp_all add: sample_bus_eq)

theorem closing_terminates_witness:
  "work (deliver (\<lambda>_. quiet) 0 (Topic_Close sample_bus)) < work (Topic_Close sample_bus) \<and>
   (\<exists>b'. tstep quiet (\<lambda>_. quiet) (Topic_Close sample_bus) b')"
proof -
  have "tstep quiet (\<lambda>_. quiet) (Topic_Close sample_bus) (deliver (\<lambda>_. quiet) 0 (Topic_Close sample_bus))"
    by (rule tstep.handle) (simp_all add: Topic_Close_def sample_bus_eq)
  moreover have "closed (Topic_Close sample_bus)" by (simp add: Topic_Close_def sample_bus_eq)
  ultimately show ?thesis using closing_terminates [OF sample_closed_reach] by blast
qed

end
