(* ===== verification/Docker_Feeder.thy ===== *)
theory Docker_Feeder
  imports Event_Bus
begin

text \<open>
  The feeder of Docker events, \<open>controlplane/dockerevents\<close>: \<open>events.go\<close>, \<open>dispatch.go\<close>,
  \<open>reconcile.go\<close> and \<open>feeder.go\<close>. It keeps the sets of managed containers and networks, rebuilds them
  from listings whenever it opens the event stream, and publishes the events of managed objects.

  What the daemon answers is input: the listings, the messages of the stream, how the stream ended,
  and the answer to each network inspection. The events offered to the topic are collected in \<open>fed\<close>.
\<close>

section \<open>Events and the daemon's answers\<close>

text \<open>\<open>DockerEvent\<close> is moby's \<open>events.Message\<close>.\<close>

record DockerEvent =
  ev_Type :: string
  ev_Action :: string
  Actor_ID :: string
  Actor_Attributes :: "string \<rightharpoonup> string"
  ev_Scope :: string
  ev_TimeNano :: int

type_synonym labels = "string \<rightharpoonup> string"

datatype inspect_result = InspectCanceled | InspectFailed | Inspected labels

text \<open>
  A summary of \<open>ContainerList\<close>. The endpoints are the values of \<open>NetworkSettings.Networks\<close> in the order
  the loop meets them, each a network id or nil.
\<close>

record Summary =
  c_ID :: string
  c_State :: string
  c_Names :: "string list"
  c_Image :: string
  c_Labels :: labels
  c_Endpoints :: "string option list option"

record Options =
  ManagedLabelKey :: string
  ManagedLabelValue :: string
  ReconnectMin :: int
  ReconnectMax :: int

record Feeder =
  f_opts :: Options
  containers :: "string set"
  networks :: "string set"
  networksNeedRecheck :: "string set"
  fed :: "DockerEvent list"

definition time_second :: int where
  "time_second = 1000000000"

definition defaultReconnectMin :: int where
  "defaultReconnectMin = 1 * time_second"

definition defaultReconnectMax :: int where
  "defaultReconnectMax = 30 * time_second"

datatype feeder_error = NoClient | NoTopic | NoLabelKey | NoLabelValue

definition New_feeder :: "bool \<Rightarrow> bool \<Rightarrow> Options \<Rightarrow> feeder_error + Feeder" where
  "New_feeder has_cli has_topic o' =
     (if \<not> has_cli then Inl NoClient
      else if \<not> has_topic then Inl NoTopic
      else if ManagedLabelKey o' = [] then Inl NoLabelKey
      else if ManagedLabelValue o' = [] then Inl NoLabelValue
      else
        (let o1 = (if ReconnectMin o' \<le> 0 then o'\<lparr>ReconnectMin := defaultReconnectMin\<rparr> else o');
             o2 = (if ReconnectMax o1 \<le> 0 then o1\<lparr>ReconnectMax := defaultReconnectMax\<rparr> else o1)
         in Inr \<lparr>f_opts = o2, containers = {}, networks = {}, networksNeedRecheck = {}, fed = []\<rparr>))"

definition isManaged :: "Options \<Rightarrow> labels \<Rightarrow> bool" where
  "isManaged o' ls = (case ls (ManagedLabelKey o') of Some v \<Rightarrow> v = ManagedLabelValue o' | None \<Rightarrow> False)"

section \<open>Dispatch\<close>

definition ignored_actions :: "string list" where
  "ignored_actions =
     [''attach'', ''detach'', ''resize'', ''copy'', ''archive-path'', ''extract-to-dir'', ''top'', ''commit'',
      ''export'', ''update'', ''checkpoint'', ''prune'', ''push'', ''import'', ''save'', ''load'', ''mount'', ''unmount'']"

definition shouldHandleAction :: "DockerEvent \<Rightarrow> bool" where
  "shouldHandleAction ev \<longleftrightarrow>
     \<not> HasPrefix (ev_Action ev) ''exec_'' \<and> ev_Action ev \<notin> set ignored_actions"

definition publishDockerEvent :: "DockerEvent \<Rightarrow> Feeder \<Rightarrow> Feeder" where
  "publishDockerEvent ev f = f\<lparr>fed := fed f @ [ev]\<rparr>"

definition dispatchContainer :: "DockerEvent \<Rightarrow> Feeder \<Rightarrow> Feeder" where
  "dispatchContainer ev f =
     (let i = Actor_ID ev in
      if i = [] then f
      else if \<not> isManaged (f_opts f) (Actor_Attributes ev) \<and> i \<notin> containers f then f
      else
        publishDockerEvent ev
          (if ev_Action ev = ''destroy'' then f\<lparr>containers := containers f - {i}\<rparr>
           else f\<lparr>containers := insert i (containers f)\<rparr>))"

definition tryNetworkInspect :: "inspect_result \<Rightarrow> string \<Rightarrow> Feeder \<Rightarrow> Feeder" where
  "tryNetworkInspect res n f =
     (case res of
        InspectCanceled \<Rightarrow> f
      | InspectFailed \<Rightarrow> f\<lparr>networksNeedRecheck := insert n (networksNeedRecheck f)\<rparr>
      | Inspected ls \<Rightarrow>
          (let f = f\<lparr>networksNeedRecheck := networksNeedRecheck f - {n}\<rparr> in
           if \<not> isManaged (f_opts f) ls then f else f\<lparr>networks := insert n (networks f)\<rparr>))"

definition attribute :: "DockerEvent \<Rightarrow> string \<Rightarrow> string" where
  "attribute ev k = (case Actor_Attributes ev k of Some v \<Rightarrow> v | None \<Rightarrow> [])"

definition is_removal :: "string \<Rightarrow> bool" where
  "is_removal a \<longleftrightarrow> a = ''destroy'' \<or> a = ''remove''"

definition is_edge :: "string \<Rightarrow> bool" where
  "is_edge a \<longleftrightarrow> a = ''connect'' \<or> a = ''disconnect''"

definition network_prepare :: "inspect_result \<Rightarrow> DockerEvent \<Rightarrow> Feeder \<Rightarrow> Feeder" where
  "network_prepare res ev f =
     (let n = Actor_ID ev in
      if ev_Action ev = ''create'' then tryNetworkInspect res n f
      else if is_removal (ev_Action ev) then f\<lparr>networksNeedRecheck := networksNeedRecheck f - {n}\<rparr>
      else if is_edge (ev_Action ev) \<and> n \<in> networksNeedRecheck f then tryNetworkInspect res n f
      else f)"

definition dispatchNetwork :: "inspect_result \<Rightarrow> DockerEvent \<Rightarrow> Feeder \<Rightarrow> Feeder" where
  "dispatchNetwork res ev f =
     (let n = Actor_ID ev in
      if n = [] then f
      else
        (let f = network_prepare res ev f; c = attribute ev ''container'' in
         if n \<notin> networks f then f
         else if is_edge (ev_Action ev) \<and> (c = [] \<or> c \<notin> containers f) then f
         else
           (let f = publishDockerEvent ev f in
            if is_removal (ev_Action ev) then f\<lparr>networks := networks f - {n}\<rparr> else f)))"

text \<open>One message, with the answer of the network inspection it may cause.\<close>

definition dispatch :: "inspect_result \<Rightarrow> DockerEvent \<Rightarrow> Feeder \<Rightarrow> Feeder" where
  "dispatch res ev f =
     (if \<not> shouldHandleAction ev then f
      else if ev_Type ev = ''container'' then dispatchContainer ev f
      else if ev_Type ev = ''network'' then dispatchNetwork res ev f
      else f)"

section \<open>Reconciliation\<close>

definition containerActionFromState :: "string \<Rightarrow> string" where
  "containerActionFromState s =
     (if s = ''running'' then ''start''
      else if s = ''paused'' then ''pause''
      else if s = ''exited'' \<or> s = ''dead'' then ''die''
      else if s = ''removing'' then ''destroy''
      else [])"

definition containerAttributesFromSummary :: "Summary \<Rightarrow> labels" where
  "containerAttributesFromSummary c =
     (let a = (case c_Names c of [] \<Rightarrow> Map.empty | n # _ \<Rightarrow> [''name'' \<mapsto> TrimPrefix n ''/'']);
          a = (if c_Image c \<noteq> [] then a(''image'' \<mapsto> c_Image c) else a)
      in a ++ c_Labels c)"

definition container_event :: "int \<Rightarrow> Summary \<Rightarrow> DockerEvent" where
  "container_event now c =
     \<lparr>ev_Type = ''container'', ev_Action = containerActionFromState (c_State c), Actor_ID = c_ID c,
      Actor_Attributes = containerAttributesFromSummary c, ev_Scope = ''local'', ev_TimeNano = now\<rparr>"

definition reconcile_container :: "int \<Rightarrow> Summary \<Rightarrow> Feeder \<Rightarrow> Feeder" where
  "reconcile_container now c f =
     (let f = f\<lparr>containers := insert (c_ID c) (containers f)\<rparr> in
      if containerActionFromState (c_State c) = [] then f
      else publishDockerEvent (container_event now c) f)"

definition connect_event :: "int \<Rightarrow> string \<Rightarrow> string \<Rightarrow> DockerEvent" where
  "connect_event now n c =
     \<lparr>ev_Type = ''network'', ev_Action = ''connect'', Actor_ID = n, Actor_Attributes = [''container'' \<mapsto> c],
      ev_Scope = ''local'', ev_TimeNano = now\<rparr>"

definition reconcile_edge :: "int \<Rightarrow> string \<Rightarrow> string option \<Rightarrow> Feeder \<Rightarrow> Feeder" where
  "reconcile_edge now c ep f =
     (case ep of
        None \<Rightarrow> f
      | Some n \<Rightarrow> if n = [] \<or> n \<notin> networks f then f else publishDockerEvent (connect_event now n c) f)"

definition reconcile_edges :: "int \<Rightarrow> Summary \<Rightarrow> Feeder \<Rightarrow> Feeder" where
  "reconcile_edges now c f =
     (case c_Endpoints c of None \<Rightarrow> f | Some eps \<Rightarrow> fold (reconcile_edge now (c_ID c)) eps f)"

text \<open>The two listings, each an error or its items; the networks by their ids.\<close>

record listing =
  list_containers :: "string + Summary list"
  list_networks :: "string + string list"

definition reconcile :: "int \<Rightarrow> listing \<Rightarrow> Feeder \<Rightarrow> bool \<times> Feeder" where
  "reconcile now l f =
     (case (list_containers l, list_networks l) of
        (Inr cs, Inr ns) \<Rightarrow>
          (let f = f\<lparr>containers := {}, networks := {}\<rparr>;
               f = fold (reconcile_container now) cs f;
               f = f\<lparr>networks := networks f \<union> set ns\<rparr>
           in (True, fold (reconcile_edges now) cs f))
      | _ \<Rightarrow> (False, f))"

section \<open>The reconnect loop\<close>

definition feeder_nextBackoff :: "int \<Rightarrow> int \<Rightarrow> int" where
  "feeder_nextBackoff cur mx = (let next = cur * 2 in if next > mx then mx else next)"

datatype stream_end = StreamDone | StreamEOF | StreamError

definition runStream :: "(DockerEvent \<times> inspect_result) list \<Rightarrow> Feeder \<Rightarrow> Feeder" where
  "runStream msgs f = fold (\<lambda>(ev, res). dispatch res ev) msgs f"

text \<open>\<open>drainErrAfterClose\<close>: the error that arrives in the grace window, if one does.\<close>

datatype err_wait = GotErr bool | GraceOver | WaitCanceled

fun drainErrAfterClose :: "err_wait \<Rightarrow> stream_end" where
  "drainErrAfterClose (GotErr is_nil) = (if is_nil then StreamEOF else StreamError)"
| "drainErrAfterClose GraceOver = StreamEOF"
| "drainErrAfterClose WaitCanceled = StreamError"

text \<open>
  One turn of the loop: whether the context is done before it, the time of the listing, the
  listings, the messages until the stream ended, how it ended, whether the context is done then, and
  whether the sleep ran its full length.
\<close>

record turn =
  done_before :: bool
  listed_at :: int
  listing_of :: listing
  messages :: "(DockerEvent \<times> inspect_result) list"
  stream_ended :: stream_end
  done_after :: bool
  slept :: bool

text \<open>The loop over its turns: the sleeps it asked for, whether it returned, and the feeder.\<close>

fun feeder_loop :: "int \<Rightarrow> turn list \<Rightarrow> Feeder \<Rightarrow> int list \<times> bool \<times> Feeder" where
  "feeder_loop backoff [] f = ([], False, f)"
| "feeder_loop backoff (t # ts) f =
     (if done_before t then ([], True, f)
      else
        (case reconcile (listed_at t) (listing_of t) f of
           (False, f) \<Rightarrow>
             (if \<not> slept t then ([backoff], True, f)
              else
                (case feeder_loop (feeder_nextBackoff backoff (ReconnectMax (f_opts f))) ts f of
                   (ds, r) \<Rightarrow> (backoff # ds, r)))
         | (True, f) \<Rightarrow>
             (let f = runStream (messages t) f in
              if done_after t then ([], True, f)
              else if stream_ended t = StreamError then
                (if \<not> slept t then ([backoff], True, f)
                 else
                   (case feeder_loop (feeder_nextBackoff backoff (ReconnectMax (f_opts f))) ts f of
                      (ds, r) \<Rightarrow> (backoff # ds, r)))
              else
                (if \<not> slept t then ([ReconnectMin (f_opts f)], True, f)
                 else
                   (case feeder_loop (ReconnectMin (f_opts f)) ts f of
                      (ds, r) \<Rightarrow> (ReconnectMin (f_opts f) # ds, r))))))"

definition feeder_Run :: "turn list \<Rightarrow> Feeder \<Rightarrow> int list \<times> bool \<times> Feeder" where
  "feeder_Run ts f = feeder_loop (ReconnectMin (f_opts f)) ts f"

section \<open>Only managed objects\<close>

definition event_ok :: "string set \<Rightarrow> string set \<Rightarrow> DockerEvent \<Rightarrow> bool" where
  "event_ok C N ev \<longleftrightarrow>
     (ev_Type ev = ''container'' \<and> Actor_ID ev \<in> C) \<or>
     (ev_Type ev = ''network'' \<and> Actor_ID ev \<in> N \<and>
      (is_edge (ev_Action ev) \<longrightarrow> attribute ev ''container'' \<in> C))"

definition feeder_ok :: "Options \<Rightarrow> string set \<Rightarrow> string set \<Rightarrow> Feeder \<Rightarrow> bool" where
  "feeder_ok o' C N f \<longleftrightarrow>
     f_opts f = o' \<and> containers f \<subseteq> C \<and> networks f \<subseteq> N \<and> list_all (event_ok C N) (fed f)"

lemma publish_ok: "feeder_ok o' C N f \<Longrightarrow> event_ok C N ev \<Longrightarrow> feeder_ok o' C N (publishDockerEvent ev f)"
  by (simp add: feeder_ok_def publishDockerEvent_def)

lemma dispatchContainer_ok:
  assumes "feeder_ok o' C N f" "ev_Type ev = ''container''" "isManaged o' (Actor_Attributes ev) \<Longrightarrow> Actor_ID ev \<in> C"
  shows "feeder_ok o' C N (dispatchContainer ev f)"
  using assms by (auto simp: dispatchContainer_def feeder_ok_def publishDockerEvent_def event_ok_def Let_def)

lemma tryNetworkInspect_ok:
  assumes "feeder_ok o' C N f" "\<And>ls. res = Inspected ls \<Longrightarrow> isManaged o' ls \<Longrightarrow> n \<in> N"
  shows "feeder_ok o' C N (tryNetworkInspect res n f)"
  using assms by (auto simp: tryNetworkInspect_def feeder_ok_def Let_def split: inspect_result.split)

lemma network_prepare_ok:
  assumes "feeder_ok o' C N f" "\<And>ls. res = Inspected ls \<Longrightarrow> isManaged o' ls \<Longrightarrow> Actor_ID ev \<in> N"
  shows "feeder_ok o' C N (network_prepare res ev f)"
  using tryNetworkInspect_ok [OF assms] assms(1) by (simp add: network_prepare_def Let_def feeder_ok_def)

lemma dispatchNetwork_ok:
  assumes "feeder_ok o' C N f" "ev_Type ev = ''network''"
    "\<And>ls. res = Inspected ls \<Longrightarrow> isManaged o' ls \<Longrightarrow> Actor_ID ev \<in> N"
  shows "feeder_ok o' C N (dispatchNetwork res ev f)"
proof -
  have "feeder_ok o' C N (network_prepare res ev f)" by (rule network_prepare_ok [OF assms(1)]) (rule assms(3))
  then show ?thesis using assms(1,2)
    by (auto simp: dispatchNetwork_def Let_def feeder_ok_def publishDockerEvent_def event_ok_def)
qed

fun message_ok :: "Options \<Rightarrow> string set \<Rightarrow> string set \<Rightarrow> DockerEvent \<times> inspect_result \<Rightarrow> bool" where
  "message_ok o' C N (ev, res) \<longleftrightarrow>
     (ev_Type ev = ''container'' \<and> isManaged o' (Actor_Attributes ev) \<longrightarrow> Actor_ID ev \<in> C) \<and>
     (\<forall>ls. ev_Type ev = ''network'' \<and> res = Inspected ls \<and> isManaged o' ls \<longrightarrow> Actor_ID ev \<in> N)"

lemma runStream_ok:
  assumes "list_all (message_ok o' C N) msgs" "feeder_ok o' C N f"
  shows "feeder_ok o' C N (runStream msgs f)"
  using assms unfolding runStream_def
proof (induction msgs arbitrary: f)
  case (Cons m ms)
  obtain ev res where m: "m = (ev, res)" by (cases m)
  have "feeder_ok o' C N (dispatch res ev f)"
    using Cons.prems m by (auto simp: dispatch_def intro!: dispatchContainer_ok dispatchNetwork_ok)
  with Cons m show ?case by simp
qed simp

lemma reconcile_containers_ok:
  assumes "c_ID ` set cs \<subseteq> C" "feeder_ok o' C N f"
  shows "feeder_ok o' C N (fold (reconcile_container now) cs f)"
  using assms
proof (induction cs arbitrary: f)
  case (Cons c cs)
  have "feeder_ok o' C N (reconcile_container now c f)"
    using Cons.prems by (auto simp: reconcile_container_def Let_def feeder_ok_def publishDockerEvent_def event_ok_def container_event_def)
  with Cons show ?case by simp
qed simp

lemma reconcile_edge_ok:
  assumes "c \<in> C" "feeder_ok o' C N f"
  shows "feeder_ok o' C N (fold (reconcile_edge now c) eps f)"
  using assms(2)
proof (induction eps arbitrary: f)
  case (Cons ep eps)
  have "feeder_ok o' C N (reconcile_edge now c ep f)"
    using Cons.prems assms(1)
    by (auto simp: reconcile_edge_def feeder_ok_def publishDockerEvent_def event_ok_def connect_event_def attribute_def
      split: option.split)
  with Cons show ?case by simp
qed simp

lemma reconcile_edges_ok:
  assumes "c_ID ` set cs \<subseteq> C" "feeder_ok o' C N f"
  shows "feeder_ok o' C N (fold (reconcile_edges now) cs f)"
  using assms
proof (induction cs arbitrary: f)
  case (Cons c cs)
  have "feeder_ok o' C N (reconcile_edges now c f)"
    using Cons.prems by (auto simp: reconcile_edges_def intro!: reconcile_edge_ok split: option.split)
  with Cons show ?case by simp
qed simp

definition listing_ok :: "string set \<Rightarrow> string set \<Rightarrow> listing \<Rightarrow> bool" where
  "listing_ok C N l \<longleftrightarrow>
     (case list_containers l of Inr cs \<Rightarrow> c_ID ` set cs \<subseteq> C | Inl _ \<Rightarrow> True) \<and>
     (case list_networks l of Inr ns \<Rightarrow> set ns \<subseteq> N | Inl _ \<Rightarrow> True)"

lemma reconcile_ok:
  assumes "listing_ok C N l" "feeder_ok o' C N f" "reconcile now l f = (b, f')"
  shows "feeder_ok o' C N f'"
proof (cases "\<exists>cs ns. list_containers l = Inr cs \<and> list_networks l = Inr ns")
  case True
  then obtain cs ns where l: "list_containers l = Inr cs" "list_networks l = Inr ns" by blast
  have C: "c_ID ` set cs \<subseteq> C" and N: "set ns \<subseteq> N" using assms(1) l by (simp_all add: listing_ok_def)
  have "feeder_ok o' C N (f\<lparr>containers := {}, networks := {}\<rparr>)" using assms(2) by (simp add: feeder_ok_def)
  note 1 = reconcile_containers_ok [OF C this, of now]
  let ?g = "fold (reconcile_container now) cs (f\<lparr>containers := {}, networks := {}\<rparr>)"
  have "feeder_ok o' C N (?g\<lparr>networks := networks ?g \<union> set ns\<rparr>)" using 1 N by (simp add: feeder_ok_def)
  from reconcile_edges_ok [OF C this, of now] show ?thesis using assms(3) l by (simp add: reconcile_def Let_def)
next
  case False
  then show ?thesis using assms(2,3) by (auto simp: reconcile_def split: sum.splits)
qed

fun turn_ok :: "Options \<Rightarrow> string set \<Rightarrow> string set \<Rightarrow> turn \<Rightarrow> bool" where
  "turn_ok o' C N t \<longleftrightarrow> listing_ok C N (listing_of t) \<and> list_all (message_ok o' C N) (messages t)"

lemma feeder_loop_ok:
  assumes "list_all (turn_ok o' C N) ts" "feeder_ok o' C N f"
  shows "feeder_ok o' C N (snd (snd (feeder_loop bo ts f)))"
  using assms
proof (induction ts arbitrary: bo f)
  case (Cons t ts)
  obtain b g where r: "reconcile (listed_at t) (listing_of t) f = (b, g)" by fastforce
  have g: "feeder_ok o' C N g" using reconcile_ok [OF _ Cons.prems(2) r] Cons.prems(1) by simp
  have h: "feeder_ok o' C N (runStream (messages t) g)" using runStream_ok [OF _ g] Cons.prems(1) by simp
  from Cons g h r show ?case by (cases b) (simp_all add: Let_def split_beta)
qed simp

text \<open>The objects the daemon ever reported as managed: by listing, by label or by inspection.\<close>

definition managed_containers :: "Options \<Rightarrow> turn list \<Rightarrow> string set" where
  "managed_containers o' ts =
     (\<Union>t \<in> set ts. (case list_containers (listing_of t) of Inr cs \<Rightarrow> c_ID ` set cs | Inl _ \<Rightarrow> {}) \<union>
        {Actor_ID ev |ev res. (ev, res) \<in> set (messages t) \<and> ev_Type ev = ''container'' \<and> isManaged o' (Actor_Attributes ev)})"

definition managed_networks :: "Options \<Rightarrow> turn list \<Rightarrow> string set" where
  "managed_networks o' ts =
     (\<Union>t \<in> set ts. (case list_networks (listing_of t) of Inr ns \<Rightarrow> set ns | Inl _ \<Rightarrow> {}) \<union>
        {Actor_ID ev |ev ls. (ev, Inspected ls) \<in> set (messages t) \<and> ev_Type ev = ''network'' \<and> isManaged o' ls})"

lemma managed_turns: "list_all (turn_ok o' (managed_containers o' ts) (managed_networks o' ts)) ts"
  unfolding list_all_iff
proof (intro ballI)
  fix t assume t: "t \<in> set ts"
  have "message_ok o' (managed_containers o' ts) (managed_networks o' ts) m" if "m \<in> set (messages t)" for m
    using t that by (cases m) (auto simp: managed_containers_def managed_networks_def)
  moreover have "listing_ok (managed_containers o' ts) (managed_networks o' ts) (listing_of t)"
    using t by (force simp: listing_ok_def managed_containers_def managed_networks_def split: sum.split)
  ultimately show "turn_ok o' (managed_containers o' ts) (managed_networks o' ts) t" by (simp add: list_all_iff)
qed

text \<open>Theorem: whatever the daemon answers and however often the stream breaks, the feeder publishes only
  events of objects the daemon reported as managed: containers by a listing or by the label on an
  event, networks by a listing or an inspection, and an edge only when its container is managed.\<close>

theorem only_managed_published:
  assumes "New_feeder True True o' = Inr f"
  shows "list_all (event_ok (managed_containers (f_opts f) ts) (managed_networks (f_opts f) ts))
    (fed (snd (snd (feeder_Run ts f))))"
proof -
  have "feeder_ok (f_opts f) (managed_containers (f_opts f) ts) (managed_networks (f_opts f) ts) f"
    using assms by (auto simp: New_feeder_def feeder_ok_def Let_def split: if_splits)
  from feeder_loop_ok [OF managed_turns this] show ?thesis by (simp add: feeder_Run_def feeder_ok_def)
qed

section \<open>Backoff\<close>

lemma tryNetworkInspect_opts [simp]: "f_opts (tryNetworkInspect res n f) = f_opts f"
  by (cases res) (simp_all add: tryNetworkInspect_def Let_def)

lemma network_prepare_opts [simp]: "f_opts (network_prepare res ev f) = f_opts f"
  by (simp add: network_prepare_def Let_def)

lemma dispatch_opts [simp]: "f_opts (dispatch res ev f) = f_opts f"
  by (simp add: dispatch_def dispatchContainer_def dispatchNetwork_def publishDockerEvent_def Let_def)

lemma runStream_opts [simp]: "f_opts (runStream msgs f) = f_opts f"
  unfolding runStream_def by (induction msgs arbitrary: f) (auto simp: split_beta)

lemma fold_opts: "f_opts (fold (reconcile_container now) cs f) = f_opts f"
  by (induction cs arbitrary: f) (simp_all add: reconcile_container_def publishDockerEvent_def Let_def)

lemma fold_edge_opts: "f_opts (fold (reconcile_edge now c) eps f) = f_opts f"
  by (induction eps arbitrary: f) (simp_all add: reconcile_edge_def publishDockerEvent_def split: option.split)

lemma fold_edges_opts: "f_opts (fold (reconcile_edges now) cs f) = f_opts f"
  by (induction cs arbitrary: f) (simp_all add: reconcile_edges_def fold_edge_opts split: option.split)

lemma reconcile_opts [simp]: "reconcile now l f = (b, g) \<Longrightarrow> f_opts g = f_opts f"
  by (auto simp: reconcile_def Let_def fold_opts fold_edges_opts split: sum.splits)

lemma nextBackoff_between:
  "lo \<le> b \<Longrightarrow> b \<le> hi \<Longrightarrow> 0 < lo \<Longrightarrow> lo \<le> mx \<Longrightarrow> mx \<le> hi \<Longrightarrow>
    lo \<le> feeder_nextBackoff b mx \<and> feeder_nextBackoff b mx \<le> hi"
  by (auto simp: feeder_nextBackoff_def Let_def)

lemma feeder_loop_sleeps:
  assumes "f_opts f = o'" "0 < ReconnectMin o'" "0 < ReconnectMax o'"
    "min (ReconnectMin o') (ReconnectMax o') \<le> bo" "bo \<le> max (ReconnectMin o') (ReconnectMax o')"
  shows "list_all (\<lambda>d. min (ReconnectMin o') (ReconnectMax o') \<le> d \<and> d \<le> max (ReconnectMin o') (ReconnectMax o'))
    (fst (feeder_loop bo ts f))"
  using assms
proof (induction ts arbitrary: bo f)
  case (Cons t ts)
  obtain b g where r: "reconcile (listed_at t) (listing_of t) f = (b, g)" by fastforce
  have nb: "min (ReconnectMin o') (ReconnectMax o') \<le> feeder_nextBackoff bo (ReconnectMax o') \<and>
      feeder_nextBackoff bo (ReconnectMax o') \<le> max (ReconnectMin o') (ReconnectMax o')"
    using Cons.prems by (intro nextBackoff_between) auto
  show ?case using Cons.prems nb r reconcile_opts [OF r] Cons.IH [of g] Cons.IH [of "runStream (messages t) g"]
    by (cases b) (auto simp: Let_def split_beta)
qed simp

text \<open>Theorem: every sleep between two attempts lies between the configured bounds and is positive, after
  any sequence of failures.\<close>

theorem reconnect_backoff_bounded:
  assumes "New_feeder True True o' = Inr f"
  shows "list_all (\<lambda>d. 0 < d \<and> min (ReconnectMin (f_opts f)) (ReconnectMax (f_opts f)) \<le> d \<and>
      d \<le> max (ReconnectMin (f_opts f)) (ReconnectMax (f_opts f))) (fst (feeder_Run ts f))"
proof -
  have p: "0 < ReconnectMin (f_opts f)" "0 < ReconnectMax (f_opts f)"
    using assms by (auto simp: New_feeder_def Let_def defaultReconnectMin_def defaultReconnectMax_def time_second_def split: if_splits)
  show ?thesis unfolding feeder_Run_def
    using feeder_loop_sleeps [OF refl p, of "ReconnectMin (f_opts f)" ts] p by (auto simp: list_all_iff)
qed


section \<open>The managed set against the labels\<close>

text \<open>A container event the stream should pass on, given the managed containers \<open>M\<close>.\<close>

definition wanted :: "string set \<Rightarrow> DockerEvent \<Rightarrow> bool" where
  "wanted M ev \<longleftrightarrow> ev_Type ev = ''container'' \<and> shouldHandleAction ev \<and> Actor_ID ev \<noteq> [] \<and> Actor_ID ev \<in> M"

fun labelled :: "Options \<Rightarrow> string set \<Rightarrow> DockerEvent \<times> inspect_result \<Rightarrow> bool" where
  "labelled o' M (ev, res) \<longleftrightarrow>
     (ev_Type ev = ''container'' \<longrightarrow> isManaged o' (Actor_Attributes ev) = (Actor_ID ev \<in> M))"

definition container_events :: "DockerEvent list \<Rightarrow> DockerEvent list" where
  "container_events = filter (\<lambda>ev. ev_Type ev = ''container'')"

lemma network_prepare_fed [simp]:
  "fed (network_prepare res ev f) = fed f" "containers (network_prepare res ev f) = containers f"
  by (simp_all add: network_prepare_def tryNetworkInspect_def Let_def split: inspect_result.split)

lemma dispatch_labelled:
  assumes "labelled (f_opts f) M (ev, res)" "containers f \<subseteq> M"
  shows "container_events (fed (dispatch res ev f)) =
      container_events (fed f) @ (if wanted M ev then [ev] else []) \<and> containers (dispatch res ev f) \<subseteq> M"
proof (cases "ev_Type ev = ''container''")
  case True
  then show ?thesis using assms
    by (auto simp: dispatch_def dispatchContainer_def publishDockerEvent_def wanted_def container_events_def Let_def)
next
  case False
  then show ?thesis using assms(2)
    by (auto simp: dispatch_def dispatchNetwork_def publishDockerEvent_def wanted_def container_events_def Let_def)
qed

text \<open>Theorem: when container events carry their labels, the managed set the feeder maintains makes no
  difference: the container events it publishes from a stream are exactly those of managed containers
  with a handled action, in order and once each.\<close>

theorem stream_passes_managed:
  assumes "list_all (labelled (f_opts f) M) msgs" "containers f \<subseteq> M"
  shows "container_events (fed (runStream msgs f)) = container_events (fed f) @ filter (wanted M) (map fst msgs)"
  using assms unfolding runStream_def
proof (induction msgs arbitrary: f)
  case (Cons m ms)
  obtain ev res where m: "m = (ev, res)" by (cases m)
  have "labelled (f_opts f) M (ev, res)" using Cons.prems m by simp
  note d = dispatch_labelled [OF this Cons.prems(2)]
  have "list_all (labelled (f_opts (dispatch res ev f)) M) ms" using Cons.prems(1) m by simp
  from Cons.IH [OF this] d m show ?case by simp
qed simp

section \<open>Samples\<close>

definition sample_feeder_opts :: Options where
  "sample_feeder_opts = \<lparr>ManagedLabelKey = ''dev.clawker.managed'', ManagedLabelValue = ''true'', ReconnectMin = 0, ReconnectMax = 0\<rparr>"

definition sample_feeder :: Feeder where
  "sample_feeder =
     \<lparr>f_opts = \<lparr>ManagedLabelKey = ''dev.clawker.managed'', ManagedLabelValue = ''true'', ReconnectMin = 1000000000, ReconnectMax = 30000000000\<rparr>,
      containers = {}, networks = {}, networksNeedRecheck = {}, fed = []\<rparr>"

lemma sample_feeder_new: "New_feeder True True sample_feeder_opts = Inr sample_feeder"
  by (simp add: New_feeder_def sample_feeder_opts_def sample_feeder_def defaultReconnectMin_def defaultReconnectMax_def time_second_def)

definition sample_summary :: Summary where
  "sample_summary =
     \<lparr>c_ID = ''ab12'', c_State = ''running'', c_Names = [''/clawker.dev''], c_Image = [],
      c_Labels = [''dev.clawker.managed'' \<mapsto> ''true''], c_Endpoints = Some [Some ''n1'']\<rparr>"

definition sample_message :: "string \<Rightarrow> string \<Rightarrow> DockerEvent" where
  "sample_message act i =
     \<lparr>ev_Type = ''container'', ev_Action = act, Actor_ID = i, Actor_Attributes = [''dev.clawker.managed'' \<mapsto> ''true''],
      ev_Scope = ''local'', ev_TimeNano = 5\<rparr>"

definition sample_turn :: "Summary list \<Rightarrow> (DockerEvent \<times> inspect_result) list \<Rightarrow> turn" where
  "sample_turn cs msgs =
     \<lparr>done_before = False, listed_at = 0, listing_of = \<lparr>list_containers = Inr cs, list_networks = Inr [''n1'']\<rparr>,
      messages = msgs, stream_ended = StreamError, done_after = False, slept = True\<rparr>"

definition sample_turns :: "turn list" where
  "sample_turns = [sample_turn [sample_summary] [(sample_message ''die'' ''ab12'', InspectFailed)], sample_turn [] []]"

theorem only_managed_published_witness:
  "list_all (event_ok (managed_containers (f_opts sample_feeder) sample_turns) (managed_networks (f_opts sample_feeder) sample_turns))
    (fed (snd (snd (feeder_Run sample_turns sample_feeder)))) \<and>
   length (fed (snd (snd (feeder_Run sample_turns sample_feeder)))) = 3"
  using only_managed_published [OF sample_feeder_new, of sample_turns]
  by (rule conjI) (code_simp)

theorem reconnect_backoff_bounded_witness:
  "list_all (\<lambda>d. 0 < d \<and> min (ReconnectMin (f_opts sample_feeder)) (ReconnectMax (f_opts sample_feeder)) \<le> d \<and>
      d \<le> max (ReconnectMin (f_opts sample_feeder)) (ReconnectMax (f_opts sample_feeder)))
    (fst (feeder_Run sample_turns sample_feeder)) \<and> fst (feeder_Run sample_turns sample_feeder) = [1000000000, 2000000000]"
  using reconnect_backoff_bounded [OF sample_feeder_new, of sample_turns]
  by (rule conjI) (code_simp)

theorem stream_passes_managed_witness:
  "container_events (fed (runStream [(sample_message ''start'' ''ab12'', InspectFailed), (sample_message ''top'' ''ab12'', InspectFailed)] sample_feeder)) =
   container_events (fed sample_feeder) @
     filter (wanted {''ab12''}) (map fst [(sample_message ''start'' ''ab12'', InspectFailed), (sample_message ''top'' ''ab12'', InspectFailed)])"
  by (rule stream_passes_managed) (simp_all add: sample_feeder_def sample_message_def isManaged_def)

end
