(* ===== verification/Agent_Lifecycle.thy ===== *)
theory Agent_Lifecycle
  imports Agent_Register Docker_Feeder
begin

text \<open>
  The agent worldview's upkeep: the boot-time reaping of orphaned registry rows and the Docker event
  subscribers of \<open>controlplane/agent/start.go\<close>, and the drain-to-zero watcher of
  \<open>controlplane/agent/watcher.go\<close>.

  The container lister, the database driver and the passing of time are arguments: the lister's
  answer per attempt, a \<open>db_fault\<close> per registry call, and for the watcher the sequence of ticks
  with what the poll returned and how much time has passed. Subscribers are functions on the
  state their closures keep; the topic calls them one event at a time.
\<close>

section \<open>Reaping\<close>

definition reapListerMaxAttempts :: nat where
  "reapListerMaxAttempts = 3"

text \<open>
  The retry loop, from the given attempt with the given number of attempts left. \<open>cancelled\<close> says that
  the context ends during the wait after an attempt.
\<close>

fun list_attempts ::
  "(nat \<Rightarrow> string + string list) \<Rightarrow> (nat \<Rightarrow> bool) \<Rightarrow> nat \<Rightarrow> nat \<Rightarrow> string + string list" where
  "list_attempts lister cancelled attempt 0 = Inl []"
| "list_attempts lister cancelled attempt (Suc left) =
     (case lister attempt of
        Inr ids \<Rightarrow> Inr ids
      | Inl e \<Rightarrow>
          if left = 0 then Inl e
          else if cancelled attempt then Inl ''context canceled''
          else list_attempts lister cancelled (Suc attempt) left)"

definition listWithRetry ::
  "(nat \<Rightarrow> string + string list) \<Rightarrow> (nat \<Rightarrow> bool) \<Rightarrow> string + string list" where
  "listWithRetry lister cancelled = list_attempts lister cancelled 1 reapListerMaxAttempts"

fun reap_loop ::
  "'r Registry \<Rightarrow> (string \<Rightarrow> db_fault) \<Rightarrow> string list \<Rightarrow> Entry list \<Rightarrow> nat \<times> string list \<Rightarrow> 'r \<Rightarrow>
     (nat \<times> string list) \<times> 'r" where
  "reap_loop R fs live [] acc r = (acc, r)"
| "reap_loop R fs live (e # es) (evicted, errs) r =
     (if ContainerID e \<in> set live then reap_loop R fs live es (evicted, errs) r
      else
        (case EvictByContainerID R (fs (ContainerID e)) r (ContainerID e) of
           (Some _, r') \<Rightarrow> reap_loop R fs live es (evicted, errs @ [ContainerID e]) r'
         | (None, r') \<Rightarrow> reap_loop R fs live es (Suc evicted, errs) r'))"

datatype reap_error = ListingErr string | SnapshotErr reg_error | EvictErrs "string list"

definition ReapOrphans ::
  "'r Registry \<Rightarrow> db_fault \<Rightarrow> (string \<Rightarrow> db_fault) \<Rightarrow> (nat \<Rightarrow> string + string list) \<Rightarrow> (nat \<Rightarrow> bool) \<Rightarrow>
     'r \<Rightarrow> (nat \<times> reap_error option) \<times> 'r" where
  "ReapOrphans R fsnap fs lister cancelled r =
     (case listWithRetry lister cancelled of
        Inl e \<Rightarrow> ((0, Some (ListingErr e)), r)
      | Inr ids \<Rightarrow>
          (case Snapshot R fsnap r of
             Inl e \<Rightarrow> ((0, Some (SnapshotErr e)), r)
           | Inr snap \<Rightarrow>
               (case reap_loop R fs ids snap (0, []) r of
                  ((evicted, errs), r') \<Rightarrow>
                    ((evicted, if errs = [] then None else Some (EvictErrs errs)), r'))))"

section \<open>Docker events\<close>

definition container_destroyed :: "DockerEvent \<Rightarrow> bool" where
  "container_destroyed ev \<longleftrightarrow> ev_Type ev = ''container'' \<and> ev_Action ev = ''destroy''"

text \<open>The evict subscriber, with the two variables its closure keeps.\<close>

record 'r evict_state =
  registry :: 'r
  consecutiveFailures :: nat
  escalated :: bool

definition evictEscalationThreshold :: nat where
  "evictEscalationThreshold = 5"

definition evict_handler ::
  "'r Registry \<Rightarrow> bool \<Rightarrow> db_fault \<Rightarrow> DockerEvent \<Rightarrow> 'r evict_state \<Rightarrow> 'r evict_state" where
  "evict_handler R ctx_done f ev s =
     (if ctx_done \<or> \<not> container_destroyed ev \<or> Actor_ID ev = [] then s
      else
        (case EvictByContainerID R f (registry s) (Actor_ID ev) of
           (Some _, r) \<Rightarrow>
             (let n = Suc (consecutiveFailures s) in
              s\<lparr>registry := r, consecutiveFailures := n,
                escalated := (escalated s \<or> n \<ge> evictEscalationThreshold)\<rparr>)
         | (None, r) \<Rightarrow> s\<lparr>registry := r, consecutiveFailures := 0, escalated := False\<rparr>))"

definition sessionCancelEvent :: "DockerEvent \<Rightarrow> bool" where
  "sessionCancelEvent ev \<longleftrightarrow>
     ev_Type ev = ''container'' \<and>
     ev_Action ev \<in> set [''die'', ''stop'', ''kill'', ''oom'', ''destroy'']"

definition LabelPurpose :: string where
  "LabelPurpose = ''dev.clawker.purpose''"

definition PurposeAgent :: string where
  "PurposeAgent = ''agent''"

definition DialEvent :: "DockerEvent \<Rightarrow> bool" where
  "DialEvent ev \<longleftrightarrow>
     ev_Type ev = ''container'' \<and> ev_Action ev \<in> set [''start'', ''restart'', ''unpause''] \<and>
     Actor_Attributes ev LabelPurpose = Some PurposeAgent"

section \<open>The watcher\<close>

text \<open>Durations are nanoseconds.\<close>

record AgentWatcherOptions =
  PollInterval :: int
  MissedThreshold :: int
  GracePeriod :: int
  ListErrCeiling :: int

definition NewAgentWatcher ::
  "bool \<Rightarrow> bool \<Rightarrow> AgentWatcherOptions \<Rightarrow> string + AgentWatcherOptions" where
  "NewAgentWatcher has_list has_callback opts =
     (if \<not> has_list then Inl ''listAgents is required''
      else if \<not> has_callback then Inl ''onDrainToZero is required''
      else if PollInterval opts < 0 \<or> MissedThreshold opts < 0 \<or> GracePeriod opts < 0 \<or>
              ListErrCeiling opts < 0
        then Inl ''options must not be negative''
      else
        Inr \<lparr>PollInterval = (if PollInterval opts = 0 then 30 * second else PollInterval opts),
             MissedThreshold = (if MissedThreshold opts = 0 then 2 else MissedThreshold opts),
             GracePeriod = (if GracePeriod opts = 0 then 60 * second else GracePeriod opts),
             ListErrCeiling = (if ListErrCeiling opts = 0 then 20 else ListErrCeiling opts)\<rparr>)"

text \<open>
  What one turn of the select sees: the end of the context, or a tick with the poll's answer, whether
  the context had ended when a poll failed, and the time since the start.
\<close>

datatype tick = CtxDone | Tick (polled: "string + int") (ctx_ended: bool) (elapsed: int)

datatype watch_result = WatchCancelled | WatchFailed int string | WatchDrained

text \<open>
  The loop: how it ends and the turns it has not taken, or nothing when it is still waiting. Its two
  counters are \<open>missed\<close> and \<open>errs\<close>.
\<close>

fun watch_loop ::
  "AgentWatcherOptions \<Rightarrow> int \<Rightarrow> int \<Rightarrow> tick list \<Rightarrow> (watch_result \<times> tick list) option" where
  "watch_loop w missed errs [] = None"
| "watch_loop w missed errs (CtxDone # ts) = Some (WatchCancelled, ts)"
| "watch_loop w missed errs (Tick (Inl e) ended since # ts) =
     (if ended then Some (WatchCancelled, ts)
      else if errs + 1 \<ge> ListErrCeiling w then Some (WatchFailed (errs + 1) e, ts)
      else watch_loop w 0 (errs + 1) ts)"
| "watch_loop w missed errs (Tick (Inr cnt) ended since # ts) =
     (if cnt > 0 then watch_loop w 0 0 ts
      else if since < GracePeriod w \<or> missed + 1 < MissedThreshold w then
        watch_loop w (missed + 1) 0 ts
      else Some (WatchDrained, ts))"

definition watcher_Run :: "AgentWatcherOptions \<Rightarrow> tick list \<Rightarrow> (watch_result \<times> tick list) option" where
  "watcher_Run w ts = watch_loop w 0 0 ts"

section \<open>Reaping over any registry\<close>

context agent_registry
begin

lemma reap_loop_effect:
  assumes "ok r" "reap_loop R fs live es (n, errs) r = ((n', errs'), r')"
  shows "ok r' \<and> (\<forall>c. rows r' c = rows r c \<or> rows r' c = None \<and> c \<notin> set live)"
  using assms
proof (induction es arbitrary: n errs r)
  case (Cons e es)
  show ?case
  proof (cases "ContainerID e \<in> set live")
    case False
    obtain x r1 where ev: "EvictByContainerID R (fs (ContainerID e)) r (ContainerID e) = (x, r1)"
      by fastforce
    note one = evict_effect [OF Cons.prems(1) ev]
    from False ev Cons.prems(2) obtain m errs1 where
      "reap_loop R fs live es (m, errs1) r1 = ((n', errs'), r')"
      by (auto split: option.splits)
    from Cons.IH [OF _ this] one have
      "ok r' \<and> (\<forall>c. rows r' c = rows r1 c \<or> rows r' c = None \<and> c \<notin> set live)" by blast
    with one False show ?thesis by (metis fun_upd_apply)
  qed (use Cons in auto)
qed simp

lemma reap_loop_exact:
  assumes "ok r" "reap_loop R (\<lambda>_. DbOk) live es (n, errs) r = ((n', errs'), r')"
    and "distinct (map ContainerID es)"
  shows "errs' = errs \<and> n' = n + length (filter (\<lambda>e. ContainerID e \<notin> set live) es) \<and>
    rows r' = (\<lambda>c. if c \<in> ContainerID ` set es \<and> c \<notin> set live then None else rows r c)"
  using assms
proof (induction es arbitrary: n errs r)
  case (Cons e es)
  show ?case
  proof (cases "ContainerID e \<in> set live")
    case False
    obtain r1 where ev: "EvictByContainerID R DbOk r (ContainerID e) = (None, r1)"
      using evict_ok by (metis prod.collapse)
    note one = evict_effect [OF Cons.prems(1) ev]
    from False ev Cons.prems(2) have "reap_loop R (\<lambda>_. DbOk) live es (Suc n, errs) r1 = ((n', errs'), r')"
      by simp
    from Cons.IH [OF _ this] one Cons.prems(3) False show ?thesis by (auto simp: fun_eq_iff)
  qed (use Cons in auto)
qed simp

end

lemma list_attempts_Inr:
  "list_attempts lister cancelled a n = Inr ids \<Longrightarrow> \<exists>k<n. lister (a + k) = Inr ids"
proof (induction n arbitrary: a)
  case (Suc n)
  show ?case
  proof (cases "lister a")
    case (Inr x)
    then show ?thesis using Suc.prems by (intro exI [of _ 0]) auto
  next
    case (Inl e)
    with Suc.prems have "list_attempts lister cancelled (Suc a) n = Inr ids" by (auto split: if_splits)
    from Suc.IH [OF this] obtain k where "k < n" "lister (Suc a + k) = Inr ids" by blast
    then show ?thesis by (intro exI [of _ "Suc k"]) auto
  qed
qed simp

context agent_registry
begin

lemma reap_safe:
  assumes "ok r" "ReapOrphans R fsnap fs lister cancelled r = (res, r')"
  shows "ok r' \<and> (rows r' c = rows r c \<or>
    rows r' c = None \<and> (\<exists>ids. listWithRetry lister cancelled = Inr ids \<and> c \<notin> set ids))"
  using assms reap_loop_effect [OF assms(1)]
  by (auto simp: ReapOrphans_def split: sum.splits prod.splits)

lemma reap_exact:
  assumes "ok r" "listWithRetry lister cancelled = Inr ids"
  shows "\<exists>r'. ReapOrphans R DbOk (\<lambda>_. DbOk) lister cancelled r =
      ((card {c \<in> dom (rows r). c \<notin> set ids}, None), r') \<and> rows r' = rows r |` set ids"
proof -
  obtain es where es: "Snapshot R DbOk r = Inr es" using snapshot_ok by blast
  note snap = snapshot_effect [OF assms(1) es]
  have ids: "ContainerID ` set es = dom (rows r)"
    using snap rows_cid [OF assms(1)] by (auto simp: ran_def dom_def)
  obtain n errs r' where run: "reap_loop R (\<lambda>_. DbOk) ids es (0, []) r = ((n, errs), r')"
    by (metis prod.collapse)
  note loop = reap_loop_exact [OF assms(1) run]
  have "card {c \<in> dom (rows r). c \<notin> set ids} =
      length (filter (\<lambda>e. ContainerID e \<notin> set ids) es)"
  proof -
    have "{c \<in> dom (rows r). c \<notin> set ids} = ContainerID ` set (filter (\<lambda>e. ContainerID e \<notin> set ids) es)"
      using ids by auto
    moreover have "distinct (map ContainerID (filter (\<lambda>e. ContainerID e \<notin> set ids) es))"
      using snap by (simp add: distinct_map_filter)
    ultimately show ?thesis using distinct_card [of "map ContainerID (filter (\<lambda>e. ContainerID e \<notin> set ids) es)"]
      by simp
  qed
  moreover have "rows r' = rows r |` set ids"
    using loop snap ids by (auto simp: restrict_map_def fun_eq_iff dom_def)
  ultimately show ?thesis
    using loop snap es assms(2) run by (auto simp: ReapOrphans_def)
qed

end

lemma sql_reap_loop_keeps:
  "r \<in> set t \<Longrightarrow> container_id r \<notin> ContainerID ` set es \<Longrightarrow>
     r \<in> set (snd (reap_loop sqliteRegistry (\<lambda>_. DbOk) ids es acc t))"
proof (induction es arbitrary: t acc)
  case (Cons e es)
  then show ?case
    by (cases acc) (auto simp: sqliteRegistry_def sql_EvictByContainerID_def split: if_splits)
qed (auto split: prod.splits)

section \<open>Properties of reaping\<close>

text \<open>
  C31: boot-time reaping never costs a live container its registration. Whatever fails on the way
  (the listing, the snapshot, single evictions), a row disappears only if a listing of the agent
  containers succeeded and the row's container was not in it.
\<close>

theorem reap_never_drops_live:
  assumes "sql_ok t" and "sql_rows t c = Some e"
    and "ReapOrphans sqliteRegistry fsnap fs lister cancelled t = (res, t')"
    and "sql_rows t' c \<noteq> Some e"
  shows "\<exists>ids attempt. attempt \<in> {1..3} \<and> lister attempt = Inr ids \<and> c \<notin> set ids"
proof -
  from sql.reap_safe [OF assms(1,3), of c] assms(2,4) obtain ids where
    ids: "list_attempts lister cancelled 1 3 = Inr ids" "c \<notin> set ids"
    by (auto simp: listWithRetry_def reapListerMaxAttempts_def)
  from list_attempts_Inr [OF ids(1)] obtain k where "k < 3" "lister (1 + k) = Inr ids" by blast
  with ids(2) show ?thesis by (intro exI [of _ ids] exI [of _ "1 + k"]) auto
qed

text \<open>
  Theorem: when the database works and a listing succeeds, reaping leaves exactly the readable rows
  of the listed containers, and reports how many it removed.
\<close>

theorem reap_leaves_listed_rows:
  assumes "sql_ok t" and "listWithRetry lister cancelled = Inr ids"
  shows "\<exists>t'. ReapOrphans sqliteRegistry DbOk (\<lambda>_. DbOk) lister cancelled t =
    ((card {c \<in> dom (sql_rows t). c \<notin> set ids}, None), t') \<and> sql_rows t' = sql_rows t |` set ids"
  by (rule sql.reap_exact [OF assms])

text \<open>
  Theorem: a row that no longer validates is skipped by the snapshot, so reaping keeps it even though
  its container is gone.
\<close>

theorem reap_misses_malformed_rows:
  assumes "sql_ok t" and "listWithRetry lister cancelled = Inr ids"
    and "r \<in> set t" and "isl (scanEntry r)"
  shows "snd (fst (ReapOrphans sqliteRegistry DbOk (\<lambda>_. DbOk) lister cancelled t)) = None \<and>
    r \<in> set (snd (ReapOrphans sqliteRegistry DbOk (\<lambda>_. DbOk) lister cancelled t))"
proof -
  let ?es = "sortEntries (scanned t)"
  have snap: "Snapshot sqliteRegistry DbOk t = Inr ?es" by (simp add: sqliteRegistry_def sql_Snapshot_def)
  have "container_id r \<in> sql_bad t" using assms(3,4) by (auto simp: sql_bad_def)
  then have "sql_rows t (container_id r) = None" using sql.malformed_rows [OF assms(1)] by blast
  then have "container_id r \<notin> ContainerID ` set ?es"
    using sql.snapshot_effect [OF assms(1) snap] sql.rows_cid [OF assms(1)]
    by (auto simp: ran_def)
  with assms(3) have "r \<in> set (snd (reap_loop sqliteRegistry (\<lambda>_. DbOk) ids ?es (0, []) t))"
    by (rule sql_reap_loop_keeps)
  then show ?thesis
    using sql.reap_exact [OF assms(1,2)] assms(2) snap
    by (auto simp: ReapOrphans_def split: prod.splits)
qed


section \<open>Properties of the watcher\<close>

fun zero_poll :: "tick \<Rightarrow> bool" where
  "zero_poll (Tick (Inr n) _ _) = (n \<le> 0)"
| "zero_poll _ = False"

fun failed_poll :: "tick \<Rightarrow> bool" where
  "failed_poll (Tick (Inl _) _ _) = True"
| "failed_poll _ = False"

text \<open>How many turns at the end of a history satisfy a predicate.\<close>

definition miss_streak :: "('a \<Rightarrow> bool) \<Rightarrow> 'a list \<Rightarrow> int" where
  "miss_streak P xs = int (length (takeWhile P (rev xs)))"

lemma miss_streak_Nil [simp]: "miss_streak P [] = 0"
  by (simp add: miss_streak_def)

lemma miss_streak_snoc [simp]: "miss_streak P (xs @ [x]) = (if P x then miss_streak P xs + 1 else 0)"
  by (simp add: miss_streak_def)

lemma miss_streak_nonneg: "0 \<le> miss_streak P xs"
  by (simp add: miss_streak_def)

text \<open>The two counters are the streaks of the history, and the loop can be cut at any turn.\<close>

lemma watch_loop_history:
  assumes "watch_loop w (miss_streak zero_poll h) (miss_streak failed_poll h) ts = Some (res, rest)"
  shows "\<exists>turns t. ts = turns @ t # rest \<and>
    (case res of
       WatchDrained \<Rightarrow>
         zero_poll t \<and> elapsed t \<ge> GracePeriod w \<and> miss_streak zero_poll (h @ turns @ [t]) \<ge> MissedThreshold w
     | WatchFailed n e \<Rightarrow> failed_poll t \<and> miss_streak failed_poll (h @ turns @ [t]) = n \<and> n \<ge> ListErrCeiling w
     | WatchCancelled \<Rightarrow> True)"
  using assms
proof (induction ts arbitrary: h)
  case (Cons t ts)
  have go: ?case
    if "watch_loop w (miss_streak zero_poll (h @ [t])) (miss_streak failed_poll (h @ [t])) ts = Some (res, rest)"
  proof -
    from Cons.IH [OF that] obtain turns u where
      "ts = turns @ u # rest" and "case res of
         WatchDrained \<Rightarrow> zero_poll u \<and> elapsed u \<ge> GracePeriod w \<and>
           miss_streak zero_poll ((h @ [t]) @ turns @ [u]) \<ge> MissedThreshold w
       | WatchFailed n e \<Rightarrow> failed_poll u \<and> miss_streak failed_poll ((h @ [t]) @ turns @ [u]) = n \<and>
           n \<ge> ListErrCeiling w
       | WatchCancelled \<Rightarrow> True" by blast
    then show ?thesis
      by (intro exI [of _ "t # turns"] exI [of _ u]) (simp split: watch_result.splits)
  qed
  have stop: ?case if "rest = ts" "case res of
         WatchDrained \<Rightarrow> zero_poll t \<and> elapsed t \<ge> GracePeriod w \<and>
           miss_streak zero_poll (h @ [t]) \<ge> MissedThreshold w
       | WatchFailed n e \<Rightarrow> failed_poll t \<and> miss_streak failed_poll (h @ [t]) = n \<and> n \<ge> ListErrCeiling w
       | WatchCancelled \<Rightarrow> True"
    using that by (intro exI [of _ "[]"] exI [of _ t]) (auto split: watch_result.splits)
  show ?case
  proof (cases t)
    case CtxDone
    then show ?thesis using Cons.prems stop by auto
  next
    case (Tick poll ended since)
    show ?thesis
    proof (cases poll)
      case (Inl e)
      then show ?thesis using Cons.prems Tick go stop by (auto split: if_splits)
    next
      case (Inr n)
      then show ?thesis using Cons.prems Tick go stop by (auto split: if_splits)
    qed
  qed
qed simp

lemma watch_loop_append:
  assumes "watch_loop w (miss_streak zero_poll h) (miss_streak failed_poll h) pre = None"
  shows "watch_loop w (miss_streak zero_poll h) (miss_streak failed_poll h) (pre @ ts) =
    watch_loop w (miss_streak zero_poll (h @ pre)) (miss_streak failed_poll (h @ pre)) ts"
  using assms
proof (induction pre arbitrary: h)
  case (Cons t pre)
  show ?case
  proof (cases t)
    case (Tick poll ended since)
    with Cons.prems Cons.IH [of "h @ [t]"] show ?thesis
      by (cases poll) (auto split: if_splits)
  qed (use Cons in auto)
qed simp

lemma watch_loop_zeros:
  assumes "list_all zero_poll zs" "zs \<noteq> []" "elapsed (last zs) \<ge> GracePeriod w"
    and "MissedThreshold w \<le> m + int (length zs)"
  shows "\<exists>rest. watch_loop w m errs zs = Some (WatchDrained, rest)"
  using assms
proof (induction zs arbitrary: m errs)
  case (Cons t zs)
  obtain n ended since where t: "t = Tick (Inr n) ended since" "n \<le> 0"
    using Cons.prems(1) by (cases t rule: zero_poll.cases) auto
  show ?case
  proof (cases "zs = []")
    case True
    with Cons.prems t show ?thesis by auto
  next
    case False
    with Cons.prems have "\<exists>rest. watch_loop w (m + 1) 0 zs = Some (WatchDrained, rest)"
      by (intro Cons.IH) auto
    with t show ?thesis by auto
  qed
qed simp

text \<open>
  Theorem: the control plane shuts itself down only on evidence. If the watcher drains, the polls up
  to that turn end in at least the configured number of consecutive successful polls that found
  no agent, and the grace period since the start had passed.
\<close>

theorem drain_needs_zero_streak:
  assumes "watcher_Run w ts = Some (WatchDrained, rest)"
  shows "\<exists>turns t. ts = turns @ t # rest \<and> elapsed t \<ge> GracePeriod w \<and>
    miss_streak zero_poll (turns @ [t]) \<ge> MissedThreshold w"
proof -
  have "watch_loop w (miss_streak zero_poll []) (miss_streak failed_poll []) ts = Some (WatchDrained, rest)"
    using assms by (simp add: watcher_Run_def)
  from watch_loop_history [OF this] show ?thesis unfolding watch_result.simps append_Nil by blast
qed

text \<open>
  Theorem: and it does shut down. If the watcher is still running after some turns, then as soon as
  the polls find no agent for the configured number of turns and the grace period has passed by
  the last of them, it drains.
\<close>

theorem idle_watcher_drains:
  assumes "watcher_Run w turns = None"
    and "list_all zero_poll zs" and "zs \<noteq> []" and "int (length zs) \<ge> MissedThreshold w"
    and "elapsed (last zs) \<ge> GracePeriod w"
  shows "\<exists>rest. watcher_Run w (turns @ zs) = Some (WatchDrained, rest)"
  using watch_loop_append [of w "[]" turns zs] assms miss_streak_nonneg [of zero_poll turns]
    watch_loop_zeros [of zs w "miss_streak zero_poll turns" "miss_streak failed_poll turns"]
  by (simp add: watcher_Run_def)

section \<open>Properties of the event subscribers\<close>

context agent_registry
begin

lemma evict_handler_rows:
  assumes "ok (registry s)"
  shows "ok (registry (evict_handler R False DbOk ev s)) \<and>
    rows (registry (evict_handler R False DbOk ev s)) =
      (if container_destroyed ev then (rows (registry s))(Actor_ID ev := None) else rows (registry s))"
proof (cases "container_destroyed ev \<and> Actor_ID ev \<noteq> []")
  case True
  obtain r where ev: "EvictByContainerID R DbOk (registry s) (Actor_ID ev) = (None, r)"
    using evict_ok by (metis prod.collapse)
  with evict_effect [OF assms ev] True show ?thesis by (simp add: evict_handler_def)
next
  case False
  have "rows (registry s) [] = None"
    using rows_cid [OF assms, of "[]"] by (cases "rows (registry s) []") auto
  with False assms show ?thesis by (auto simp: evict_handler_def)
qed

lemma evict_events_rows:
  assumes "ok (registry s)"
  shows "rows (registry (fold (evict_handler R False DbOk) evs s)) =
    (\<lambda>c. if c \<in> Actor_ID ` set (filter container_destroyed evs) then None else rows (registry s) c)"
  using assms
proof (induction evs arbitrary: s)
  case (Cons ev evs)
  note one = evict_handler_rows [OF Cons.prems, of ev]
  with Cons.IH [of "evict_handler R False DbOk ev s"] show ?case by (auto simp: fun_eq_iff)
qed simp

end

text \<open>
  Theorem: after any sequence of Docker events handled without database failures, the registry has lost
  exactly the rows of the containers that were destroyed; stopping, killing or restarting a
  container keeps its row.
\<close>

theorem only_destroy_evicts:
  assumes "sql_ok (registry s)"
  shows "sql_rows (registry (fold (evict_handler sqliteRegistry False DbOk) evs s)) c =
    (if list_ex (\<lambda>ev. ev_Type ev = ''container'' \<and> ev_Action ev = ''destroy'' \<and> Actor_ID ev = c) evs
     then None else sql_rows (registry s) c)"
  using sql.evict_events_rows [OF assms, of evs]
  by (auto simp: list_ex_iff container_destroyed_def)

text \<open>An event never both opens and cancels a session, so a session is not cancelled by the event that dials it.\<close>

lemma dial_cancel_disjoint: "\<not> (DialEvent ev \<and> sessionCancelEvent ev)"
  by (auto simp: DialEvent_def sessionCancelEvent_def)

section \<open>Witnesses\<close>

definition sample_lister :: "nat \<Rightarrow> string + string list" where
  "sample_lister n = (if n = 1 then Inl ''daemon restarting'' else Inr [''cd34''])"

definition sample_opts :: AgentWatcherOptions where
  "sample_opts =
     \<lparr>PollInterval = 30 * second, MissedThreshold = 2, GracePeriod = 60 * second, ListErrCeiling = 20\<rparr>"

definition bad_row :: Row where
  "bad_row = \<lparr>thumbprint_hex = ''zz'', container_id = ''ee55'', agent_name = ''dev'', project = [],
     registered_at = 0, last_seen = 0\<rparr>"

lemma sample_reap:
  "listWithRetry sample_lister (\<lambda>_. False) = Inr [''cd34'']"
  "sql_rows (snd (ReapOrphans sqliteRegistry DbOk (\<lambda>_. DbOk) sample_lister (\<lambda>_. False) sample_table))
     ''ab12'' = None"
  by code_simp+

text \<open>Theorem: the sample row goes because the second listing does not name its container.\<close>

theorem reap_never_drops_live_witness:
  "\<exists>ids attempt. attempt \<in> {1..3} \<and> sample_lister attempt = Inr ids \<and> ''ab12'' \<notin> set ids"
  by (rule reap_never_drops_live [OF sample_table_ok prod.collapse [symmetric],
        of DbOk "\<lambda>_. DbOk" sample_lister "\<lambda>_. False"])
    (simp add: sample_reap(2))

text \<open>Theorem: reaping the sample table removes its one row.\<close>

theorem reap_leaves_listed_rows_witness:
  "\<exists>t'. ReapOrphans sqliteRegistry DbOk (\<lambda>_. DbOk) sample_lister (\<lambda>_. False) sample_table =
    ((card {c \<in> dom (sql_rows sample_table). c \<notin> {''cd34''}}, None), t') \<and>
    sql_rows t' = sql_rows sample_table |` {''cd34''}"
  using reap_leaves_listed_rows [OF sample_table_ok(1) sample_reap(1)] by simp

text \<open>Theorem: a row with an undecodable thumbprint survives although no container is listed for it.\<close>

theorem reap_misses_malformed_rows_witness:
  "bad_row \<in> set (snd (ReapOrphans sqliteRegistry DbOk (\<lambda>_. DbOk) sample_lister (\<lambda>_. False) [bad_row]))"
proof -
  have "sql_ok [bad_row]" "isl (scanEntry bad_row)" by code_simp+
  from reap_misses_malformed_rows [OF this(1) sample_reap(1) _ this(2)] show ?thesis by simp
qed

text \<open>Theorem: two empty polls, the second after the grace period, drain the sample watcher.\<close>

theorem drain_needs_zero_streak_witness:
  "\<exists>turns t. [Tick (Inr 0) False (30 * second), Tick (Inr 0) False (60 * second)] = turns @ [t] \<and>
    elapsed t \<ge> 60 * second \<and> miss_streak zero_poll (turns @ [t]) \<ge> 2"
  using drain_needs_zero_streak [of sample_opts
      "[Tick (Inr 0) False (30 * second), Tick (Inr 0) False (60 * second)]" "[]"]
  by (simp add: watcher_Run_def sample_opts_def second_def)

text \<open>Theorem: an idle sample watcher drains.\<close>

theorem idle_watcher_drains_witness:
  "\<exists>rest. watcher_Run sample_opts ([Tick (Inr 1) False 1] @
    [Tick (Inr 0) False (30 * second), Tick (Inr 0) False (60 * second)]) = Some (WatchDrained, rest)"
  by (rule idle_watcher_drains)
    (simp_all add: watcher_Run_def sample_opts_def second_def)

text \<open>Theorem: destroying the sample container evicts its row, killing it does not.\<close>

theorem only_destroy_evicts_witness:
  "sql_rows (registry (fold (evict_handler sqliteRegistry False DbOk)
     [\<lparr>ev_Type = ''container'', ev_Action = ''kill'', Actor_ID = ''ab12'', Actor_Attributes = Map.empty, ev_Scope = ''local'',
       ev_TimeNano = 0\<rparr>]
     \<lparr>registry = sample_table, consecutiveFailures = 0, escalated = False\<rparr>)) ''ab12'' = Some sample_entry"
  by (subst only_destroy_evicts) (simp_all add: sample_table_ok)


end
