(* ===== verification/Event_Pipeline.thy ===== *)
theory Event_Pipeline
  imports Agent_Lifecycle
begin

text \<open>
  The Docker events on their way to the registry: the feeder publishes onto the docker topic, and the
  eviction subscriber of \<open>controlplane/agent/start.go\<close> handles what its queue delivers. The theorems
  say when a destroyed container loses its row, and when it does not.
\<close>

section \<open>Rows after a delivery history\<close>



section \<open>Through the topic\<close>



section \<open>Through the feeder\<close>

text \<open>
  The daemon tells the feeder nothing of the destruction of \<open>c\<close>: no stream delivers the event, and no
  listing catches the container while it is being removed. This is what happens when the container
  goes while the stream is down: the listing no longer has it, and the new stream starts at the time
  of the listing.
\<close>

definition spares :: "string \<Rightarrow> DockerEvent \<Rightarrow> bool" where
  "spares c ev \<longleftrightarrow> \<not> (container_destroyed ev \<and> Actor_ID ev = c)"



lemma spares_edge [simp]: "spares c (connect_event now m x)"
  by (simp add: spares_def container_destroyed_def connect_event_def)









section \<open>Witnesses\<close>










end
