(* ===== verification/Agent_Worldview.thy ===== *)
theory Agent_Worldview
  imports Agent_Registry
begin

text \<open>
  The agent domain's observed worldview: the event vocabulary of \<open>controlplane/agent/events.go\<close>, the
  state of one agent of \<open>controlplane/agent/event_state.go\<close>, and the store of
  \<open>controlplane/agent/repository.go\<close>, which folds the events of the agent topic into a map from
  container ids to states.

  The store's map is a partial function; a state that is not in the map reads as the zero value of
  its struct, where the statuses are the empty string (\<open>NoStatus\<close>). The clock of an event is its
  envelope's time stamp in nanoseconds.
\<close>

section \<open>Events\<close>

datatype EventType = DialerEventType | ExecutorEventType | RegistryEventType

datatype Action =
    ActionConnecting | ActionConnected | ActionFailed | ActionBroken
  | ActionExecStarted | ActionExecStepStarted | ActionExecStepCompleted | ActionExecStepFailed
  | ActionExecFailed | ActionExecCompleted
  | ActionRegistered | ActionUntrusted | ActionReap

datatype Status =
    NoStatus | StatusUnknown | StatusUntrusted | StatusConnecting | StatusConnected | StatusBroken
  | StatusFailed | StatusDegraded | StatusHealthy | StatusRunning | StatusCompleted

datatype Reason =
    ReasonNone | ReasonThumbprintMismatch | ReasonCertInvalid | ReasonRegisterFailed
  | ReasonInitBypassed | ReasonExitCode | ReasonTimeout | ReasonSpawnFailed | ReasonIOError
  | ReasonTransportError | ReasonProtocolError | ReasonFailed | ReasonUnknown

record Agent =
  ag_ContainerID :: string
  ag_AgentName :: string
  ag_Project :: string

record Message =
  m_Type :: EventType
  m_Action :: Action
  m_Reason :: Reason
  m_Detail :: string
  m_Address :: string
  m_Attempts :: int
  m_PeerAgentFullName :: string
  m_PeerThumbprint :: thumbprint
  m_RegisterOk :: bool
  m_StepName :: string
  m_StepIndex :: int
  m_StepCount :: int
  m_ExitCode :: int

record AgentEvent =
  ev_Agent :: Agent
  ev_Message :: Message

text \<open>A message of the given kind whose other fields have their zero values.\<close>

definition message :: "EventType \<Rightarrow> Action \<Rightarrow> Message" where
  "message t a =
     \<lparr>m_Type = t, m_Action = a, m_Reason = ReasonNone, m_Detail = [], m_Address = [], m_Attempts = 0,
      m_PeerAgentFullName = [], m_PeerThumbprint = zero_thumbprint, m_RegisterOk = False,
      m_StepName = [], m_StepIndex = 0, m_StepCount = 0, m_ExitCode = 0\<rparr>"

section \<open>The execution axis\<close>

record ExecutorEventState =
  x_status :: Status
  x_stepName :: string
  x_stepIndex :: int
  x_stepCount :: int
  x_startedAt :: int
  x_completedAt :: int
  x_lastError :: string

definition zero_exec :: ExecutorEventState where
  "zero_exec =
     \<lparr>x_status = NoStatus, x_stepName = [], x_stepIndex = 0, x_stepCount = 0,
      x_startedAt = zero_time, x_completedAt = zero_time, x_lastError = []\<rparr>"

definition ExecRunning :: "int \<Rightarrow> int \<Rightarrow> ExecutorEventState" where
  "ExecRunning stepCount at =
     zero_exec\<lparr>x_status := StatusRunning, x_stepCount := (if stepCount < 0 then 0 else stepCount),
               x_startedAt := at\<rparr>"

definition WithStep :: "ExecutorEventState \<Rightarrow> string \<Rightarrow> int \<Rightarrow> ExecutorEventState" where
  "WithStep i name idx =
     (let idx = (if idx < 0 then 0 else idx);
          idx = (if x_stepCount i > 0 \<and> idx \<ge> x_stepCount i then x_stepCount i - 1 else idx)
      in i\<lparr>x_stepName := name, x_stepIndex := idx\<rparr>)"

definition WithStepError :: "ExecutorEventState \<Rightarrow> string \<Rightarrow> ExecutorEventState" where
  "WithStepError i detail = i\<lparr>x_lastError := detail\<rparr>"

definition floor_at :: "ExecutorEventState \<Rightarrow> int \<Rightarrow> int" where
  "floor_at i at = (if at < x_startedAt i then x_startedAt i else at)"

definition Complete :: "ExecutorEventState \<Rightarrow> int \<Rightarrow> ExecutorEventState" where
  "Complete i at =
     i\<lparr>x_status := StatusCompleted, x_completedAt := floor_at i at, x_lastError := []\<rparr>"

definition Fail :: "ExecutorEventState \<Rightarrow> int \<Rightarrow> string \<Rightarrow> ExecutorEventState" where
  "Fail i at detail =
     i\<lparr>x_status := StatusFailed, x_completedAt := floor_at i at, x_lastError := detail\<rparr>"

section \<open>The trust axis\<close>

record Trust =
  untrusted :: bool
  t_reason :: Reason

definition zero_trust :: Trust where
  "zero_trust = \<lparr>untrusted = False, t_reason = ReasonNone\<rparr>"

definition IsTrusted :: "Trust \<Rightarrow> bool" where
  "IsTrusted t \<longleftrightarrow> \<not> untrusted t"

definition Trust_Reason :: "Trust \<Rightarrow> Reason" where
  "Trust_Reason t = (if untrusted t then t_reason t else ReasonNone)"

definition Untrust :: "Reason \<Rightarrow> Trust" where
  "Untrust r = (if r = ReasonNone then zero_trust else \<lparr>untrusted = True, t_reason = r\<rparr>)"

section \<open>The store\<close>

record AgentEventState =
  s_ContainerID :: string
  s_AgentName :: string
  s_Project :: string
  s_Address :: string
  SessionStatus :: Status
  Registered :: bool
  s_Trust :: Trust
  s_Thumbprint :: thumbprint
  s_PeerAgentFullName :: string
  Attempts :: int
  LastError :: string
  UpdatedAt :: int
  Executor :: ExecutorEventState

definition zero_state :: AgentEventState where
  "zero_state =
     \<lparr>s_ContainerID = [], s_AgentName = [], s_Project = [], s_Address = [], SessionStatus = NoStatus,
      Registered = False, s_Trust = zero_trust, s_Thumbprint = zero_thumbprint,
      s_PeerAgentFullName = [], Attempts = 0, LastError = [], UpdatedAt = zero_time,
      Executor = zero_exec\<rparr>"

type_synonym AgentStore = "string \<rightharpoonup> AgentEventState"

definition projectSession :: "Message \<Rightarrow> AgentEventState \<Rightarrow> AgentEventState" where
  "projectSession m a =
     (let a = (if m_Address m \<noteq> [] then a\<lparr>s_Address := m_Address m\<rparr> else a);
          a = (if m_Attempts m \<noteq> 0 then a\<lparr>Attempts := m_Attempts m\<rparr> else a)
      in case m_Action m of
           ActionConnecting \<Rightarrow> a\<lparr>SessionStatus := StatusConnecting\<rparr>
         | ActionConnected \<Rightarrow>
             a\<lparr>SessionStatus := StatusConnected, s_PeerAgentFullName := m_PeerAgentFullName m,
               s_Thumbprint := m_PeerThumbprint m, LastError := []\<rparr>
         | ActionFailed \<Rightarrow> a\<lparr>SessionStatus := StatusFailed, LastError := m_Detail m\<rparr>
         | ActionBroken \<Rightarrow> a\<lparr>SessionStatus := StatusBroken, LastError := m_Detail m\<rparr>
         | _ \<Rightarrow> a)"

definition projectExec_state :: "Message \<Rightarrow> int \<Rightarrow> ExecutorEventState \<Rightarrow> ExecutorEventState" where
  "projectExec_state m at i =
     (case m_Action m of
        ActionExecStarted \<Rightarrow> ExecRunning (m_StepCount m) at
      | ActionExecStepStarted \<Rightarrow> WithStep i (m_StepName m) (m_StepIndex m)
      | ActionExecStepCompleted \<Rightarrow> WithStep i (m_StepName m) (m_StepIndex m)
      | ActionExecStepFailed \<Rightarrow>
          WithStepError (WithStep i (m_StepName m) (m_StepIndex m)) (m_Detail m)
      | ActionExecCompleted \<Rightarrow> Complete i at
      | ActionExecFailed \<Rightarrow> Fail i at (m_Detail m)
      | _ \<Rightarrow> i)"

definition projectExec :: "Message \<Rightarrow> int \<Rightarrow> AgentEventState \<Rightarrow> AgentEventState" where
  "projectExec m at a = a\<lparr>Executor := projectExec_state m at (Executor a)\<rparr>"

definition projectRegistry :: "Message \<Rightarrow> AgentEventState \<Rightarrow> AgentEventState" where
  "projectRegistry m a =
     (case m_Action m of
        ActionRegistered \<Rightarrow>
          if m_RegisterOk m then a\<lparr>Registered := True, s_Trust := zero_trust\<rparr> else a
      | ActionUntrusted \<Rightarrow>
          (let a = a\<lparr>s_Trust := Untrust (m_Reason m)\<rparr>
           in if m_Detail m \<noteq> [] then a\<lparr>LastError := m_Detail m\<rparr> else a)
      | ActionReap \<Rightarrow>
          (let a = a\<lparr>SessionStatus := StatusDegraded\<rparr>
           in if m_Detail m \<noteq> [] then a\<lparr>LastError := m_Detail m\<rparr> else a)
      | _ \<Rightarrow> a)"

definition project_state :: "AgentEvent \<Rightarrow> int \<Rightarrow> AgentEventState \<Rightarrow> AgentEventState" where
  "project_state ev ts cur =
     (let g = ev_Agent ev;
          cur = cur\<lparr>s_ContainerID := ag_ContainerID g\<rparr>;
          cur = (if ag_AgentName g \<noteq> [] then cur\<lparr>s_AgentName := ag_AgentName g\<rparr> else cur);
          cur = (if ag_Project g \<noteq> [] then cur\<lparr>s_Project := ag_Project g\<rparr> else cur);
          cur = cur\<lparr>UpdatedAt := ts\<rparr>;
          m = ev_Message ev
      in case m_Type m of
           DialerEventType \<Rightarrow> projectSession m cur
         | ExecutorEventType \<Rightarrow> projectExec m ts cur
         | RegistryEventType \<Rightarrow> projectRegistry m cur)"

definition lookup_state :: "AgentStore \<Rightarrow> string \<Rightarrow> AgentEventState" where
  "lookup_state s cid = (case s cid of None \<Rightarrow> zero_state | Some a \<Rightarrow> a)"

definition project :: "AgentEvent \<times> int \<Rightarrow> AgentStore \<Rightarrow> AgentStore" where
  "project evt s =
     (let (ev, ts) = evt; cid = ag_ContainerID (ev_Agent ev)
      in if cid = [] then s else s(cid \<mapsto> project_state ev ts (lookup_state s cid)))"

definition evict :: "string \<Rightarrow> AgentStore \<Rightarrow> AgentStore" where
  "evict cid s = s(cid := None)"

section \<open>Invariant of the execution axis\<close>

definition exec_ok :: "ExecutorEventState \<Rightarrow> bool" where
  "exec_ok i \<longleftrightarrow>
     x_status i \<in> {NoStatus, StatusRunning, StatusCompleted, StatusFailed} \<and>
     0 \<le> x_stepCount i \<and> 0 \<le> x_stepIndex i \<and>
     (x_stepCount i > 0 \<longrightarrow> x_stepIndex i < x_stepCount i) \<and>
     (x_status i \<in> {StatusCompleted, StatusFailed} \<longrightarrow> x_startedAt i \<le> x_completedAt i)"

definition trust_ok :: "Trust \<Rightarrow> bool" where
  "trust_ok t \<longleftrightarrow> (untrusted t \<longleftrightarrow> t_reason t \<noteq> ReasonNone)"

definition state_ok :: "AgentEventState \<Rightarrow> bool" where
  "state_ok a \<longleftrightarrow> exec_ok (Executor a) \<and> trust_ok (s_Trust a)"

definition store_ok :: "AgentStore \<Rightarrow> bool" where
  "store_ok s \<longleftrightarrow> (\<forall>c a. s c = Some a \<longrightarrow> c \<noteq> [] \<and> s_ContainerID a = c \<and> state_ok a)"

lemma exec_ok_step: "exec_ok i \<Longrightarrow> exec_ok (projectExec_state m at i)"
  by (auto simp: exec_ok_def projectExec_state_def ExecRunning_def zero_exec_def WithStep_def
      WithStepError_def Complete_def Fail_def floor_at_def Let_def split: Action.splits)

lemma exec_ok_zero [simp]: "exec_ok zero_exec"
  by (simp add: exec_ok_def zero_exec_def)

lemma trust_ok_simps [simp]: "trust_ok zero_trust" "trust_ok (Untrust r)"
  by (simp_all add: trust_ok_def zero_trust_def Untrust_def)

text \<open>The three projections touch one axis each.\<close>

lemma projectSession_axes [simp]:
  "Executor (projectSession m a) = Executor a" "s_Trust (projectSession m a) = s_Trust a"
  "Registered (projectSession m a) = Registered a"
  "s_ContainerID (projectSession m a) = s_ContainerID a"
  by (auto simp: projectSession_def Let_def split: Action.splits)

lemma projectRegistry_axes [simp]:
  "Executor (projectRegistry m a) = Executor a"
  "s_ContainerID (projectRegistry m a) = s_ContainerID a"
  "s_Thumbprint (projectRegistry m a) = s_Thumbprint a"
  by (auto simp: projectRegistry_def Let_def split: Action.splits)

lemma projectRegistry_trust:
  "s_Trust (projectRegistry m a) =
     (case m_Action m of
        ActionRegistered \<Rightarrow> if m_RegisterOk m then zero_trust else s_Trust a
      | ActionUntrusted \<Rightarrow> Untrust (m_Reason m)
      | _ \<Rightarrow> s_Trust a)"
  by (auto simp: projectRegistry_def Let_def split: Action.splits)

lemma project_state_axes:
  "s_ContainerID (project_state ev ts a) = ag_ContainerID (ev_Agent ev)"
  "Executor (project_state ev ts a) =
     (if m_Type (ev_Message ev) = ExecutorEventType
      then projectExec_state (ev_Message ev) ts (Executor a) else Executor a)"
  "s_Trust (project_state ev ts a) =
     (if m_Type (ev_Message ev) \<noteq> RegistryEventType then s_Trust a
      else case m_Action (ev_Message ev) of
        ActionRegistered \<Rightarrow> if m_RegisterOk (ev_Message ev) then zero_trust else s_Trust a
      | ActionUntrusted \<Rightarrow> Untrust (m_Reason (ev_Message ev))
      | _ \<Rightarrow> s_Trust a)"
  by (auto simp: project_state_def projectExec_def projectRegistry_trust Let_def
      split: EventType.splits Action.splits)

lemma project_state_ok: "state_ok a \<Longrightarrow> state_ok (project_state ev ts a)"
  by (auto simp: state_ok_def project_state_axes exec_ok_step split: Action.splits)

lemma zero_state_ok [simp]: "state_ok zero_state"
  by (simp add: state_ok_def zero_state_def)

lemma store_ok_project: "store_ok s \<Longrightarrow> store_ok (project evt s)"
  by (cases evt) (auto simp: store_ok_def project_def Let_def lookup_state_def project_state_axes
      project_state_ok split: option.splits)

lemma store_ok_evict: "store_ok s \<Longrightarrow> store_ok (evict c s)"
  by (simp add: store_ok_def evict_def)

section \<open>Properties\<close>

text \<open>What the store observes: an event of the agent topic, or the destruction of a container.\<close>

datatype observation = Observed AgentEvent int | Destroyed string

fun observe :: "observation \<Rightarrow> AgentStore \<Rightarrow> AgentStore" where
  "observe (Observed ev ts) s = project (ev, ts) s"
| "observe (Destroyed cid) s = evict cid s"

lemma observe_ok: "store_ok s \<Longrightarrow> store_ok (observe x s)"
  by (cases x) (simp_all add: store_ok_project store_ok_evict)

text \<open>
  Theorem: whatever events arrive in whatever order, the worldview stays well-formed: every entry is
  filed under its own non-empty container id, step indices lie within the step count, a finished plan
  ended no earlier than it began, and an agent is untrusted exactly when a reason is recorded.
\<close>

theorem worldview_invariant: "store_ok (fold observe xs Map.empty)"
proof -
  have "store_ok s \<Longrightarrow> store_ok (fold observe xs s)" for s
    by (induction xs arbitrary: s) (simp_all add: observe_ok)
  moreover have "store_ok Map.empty" by (simp add: store_ok_def)
  ultimately show ?thesis by blast
qed

text \<open>
  Theorem: the execution axis can hold a completed plan with an error: a step failure that is projected
  after the completion leaves the status and sets the error.
\<close>

theorem late_failure_marks_completed:
  "\<exists>evs. let x = Executor (lookup_state (fold project evs Map.empty) ''ab12'') in
     x_status x = StatusCompleted \<and> x_lastError x \<noteq> []"
proof -
  let ?g = "\<lparr>ag_ContainerID = ''ab12'', ag_AgentName = ''dev'', ag_Project = ''app''\<rparr>"
  let ?e = "\<lambda>m. (\<lparr>ev_Agent = ?g, ev_Message = m\<rparr>, 1)"
  show ?thesis
    by (intro exI [of _ "[?e (message ExecutorEventType ActionExecStarted),
          ?e (message ExecutorEventType ActionExecCompleted),
          ?e ((message ExecutorEventType ActionExecStepFailed)\<lparr>m_Detail := ''late''\<rparr>)]"])
      (simp add: Let_def project_def lookup_state_def project_state_axes projectExec_state_def
        message_def ExecRunning_def Complete_def WithStep_def WithStepError_def zero_exec_def)
qed

end
