(* ===== verification/Agent_Executor.thy ===== *)
theory Agent_Executor
  imports Agent_Worldview
begin

text \<open>
  The plan executor of \<open>controlplane/agent/exec.go\<close> with the plans of
  \<open>controlplane/agent/init_steps.go\<close> and \<open>controlplane/agent/boot_steps.go\<close>: the control plane sends
  the steps of a plan over the Session stream one after the other, waits for each step's
  terminal frame, and publishes what happened.

  A stream is the frames still to be received, what \<open>Recv\<close> returns once they are used up, the
  commands sent so far, and which \<open>Send\<close> fails. The context's end is a function of the number of frames
  still to come. A panic inside a step, the container's reaction to a fatal command and the
  Docker daemon's answer to the kill are arguments. Published events are collected in the order they
  are offered to the topic. The inline shell scripts are named, not interpreted.
\<close>

section \<open>The Session protocol\<close>

datatype script =
    ConfigSeedScript | GitconfigFilterScript | GitCredentialsScript | SshKnownHostsScript
  | PostInitScript | PreRunScript | DockerSocketScript

datatype exec_user = Root | ContainerUser

record ShellCommand =
  Stages :: "(script \<times> exec_user) list"
  InitialStdin :: bool
  TimeoutSeconds :: nat
  ExitOnNonZero :: bool
  PrintOutput :: bool

datatype cmd_payload =
    CmdHello | CmdRegisterRequired | CmdShell ShellCommand | CmdCloseStdin
  | CmdAgentReady string | CmdAgentInitialized

record Command =
  cmd_id :: string
  cmd_payload :: cmd_payload

datatype ErrorCode =
    ERROR_CODE_UNSPECIFIED | ERROR_CODE_UNKNOWN_COMMAND_ID | ERROR_CODE_INVALID_REQUEST
  | ERROR_CODE_SPAWN_FAILED | ERROR_CODE_TIMEOUT | ERROR_CODE_IO_ERROR | ERROR_CODE_NOT_FOUND

fun ErrorCode_String :: "ErrorCode \<Rightarrow> string" where
  "ErrorCode_String ERROR_CODE_UNSPECIFIED = ''ERROR_CODE_UNSPECIFIED''"
| "ErrorCode_String ERROR_CODE_UNKNOWN_COMMAND_ID = ''ERROR_CODE_UNKNOWN_COMMAND_ID''"
| "ErrorCode_String ERROR_CODE_INVALID_REQUEST = ''ERROR_CODE_INVALID_REQUEST''"
| "ErrorCode_String ERROR_CODE_SPAWN_FAILED = ''ERROR_CODE_SPAWN_FAILED''"
| "ErrorCode_String ERROR_CODE_TIMEOUT = ''ERROR_CODE_TIMEOUT''"
| "ErrorCode_String ERROR_CODE_IO_ERROR = ''ERROR_CODE_IO_ERROR''"
| "ErrorCode_String ERROR_CODE_NOT_FOUND = ''ERROR_CODE_NOT_FOUND''"

record HelloAck =
  Initialized :: bool
  CmdRunning :: bool

text \<open>The payloads; a nil submessage reads as its zero value.\<close>

datatype payload =
    RespHelloAck HelloAck | RespStarted | RespOutput string | RespStageExit nat int int | RespDone int
  | RespError ErrorCode string | RespRegisterDone bool string | RespNone

record Response =
  resp_id :: string
  resp_payload :: payload

datatype ctx_error = Canceled | DeadlineExceeded

fun ctx_String :: "ctx_error \<Rightarrow> string" where
  "ctx_String Canceled = ''context canceled''"
| "ctx_String DeadlineExceeded = ''context deadline exceeded''"

datatype recv_error = EOF | RecvErr string

record Stream =
  incoming :: "Response list"
  final :: recv_error
  outgoing :: "Command list"
  send_error :: "nat \<Rightarrow> string option"

definition Recv :: "Stream \<Rightarrow> (recv_error + Response) \<times> Stream" where
  "Recv s =
     (case incoming s of
        [] \<Rightarrow> (Inl (final s), s)
      | r # rs \<Rightarrow> (Inr r, s\<lparr>incoming := rs\<rparr>))"

definition Send :: "Stream \<Rightarrow> Command \<Rightarrow> string option \<times> Stream" where
  "Send s c =
     (case send_error s (length (outgoing s)) of
        Some e \<Rightarrow> (Some e, s)
      | None \<Rightarrow> (None, s\<lparr>outgoing := outgoing s @ [c]\<rparr>))"

section \<open>Steps and plans\<close>

datatype Step =
    ShellStep string ShellCommand
  | AgentReadyStep string string
  | AgentInitializedStep string

fun StepName :: "Step \<Rightarrow> string" where
  "StepName (ShellStep n _) = n"
| "StepName (AgentReadyStep n _) = n"
| "StepName (AgentInitializedStep n) = n"

fun Step_Command :: "Step \<Rightarrow> string \<Rightarrow> Command \<times> bool" where
  "Step_Command (ShellStep n sh) i = (\<lparr>cmd_id = i, cmd_payload = CmdShell sh\<rparr>, True)"
| "Step_Command (AgentReadyStep n d) i = (\<lparr>cmd_id = i, cmd_payload = CmdAgentReady d\<rparr>, False)"
| "Step_Command (AgentInitializedStep n) i = (\<lparr>cmd_id = i, cmd_payload = CmdAgentInitialized\<rparr>, False)"

definition execStepTimeoutDefault :: nat where
  "execStepTimeoutDefault = 30"

definition execStepTimeoutPostInit :: nat where
  "execStepTimeoutPostInit = 600"

definition shell :: "script \<Rightarrow> exec_user \<Rightarrow> nat \<Rightarrow> ShellCommand" where
  "shell sc u timeout =
     \<lparr>Stages = [(sc, u)], InitialStdin = False, TimeoutSeconds = timeout, ExitOnNonZero = True,
      PrintOutput = False\<rparr>"

definition dockerSocketStep :: Step where
  "dockerSocketStep = ShellStep ''docker-socket'' (shell DockerSocketScript Root execStepTimeoutDefault)"

definition configStep :: Step where
  "configStep = ShellStep ''config'' (shell ConfigSeedScript ContainerUser execStepTimeoutDefault)"

definition gitStep :: Step where
  "gitStep = ShellStep ''git'' (shell GitconfigFilterScript ContainerUser execStepTimeoutDefault)"

definition gitCredentialsStep :: Step where
  "gitCredentialsStep =
     ShellStep ''git-credentials'' (shell GitCredentialsScript ContainerUser execStepTimeoutDefault)"

definition sshStep :: Step where
  "sshStep =
     ShellStep ''ssh''
       ((shell SshKnownHostsScript ContainerUser execStepTimeoutDefault)\<lparr>InitialStdin := True\<rparr>)"

definition postInitStep :: Step where
  "postInitStep =
     ShellStep ''post-init''
       ((shell PostInitScript ContainerUser execStepTimeoutPostInit)\<lparr>PrintOutput := True\<rparr>)"

definition preRunStep :: Step where
  "preRunStep =
     ShellStep ''pre-run''
       ((shell PreRunScript ContainerUser execStepTimeoutPostInit)\<lparr>PrintOutput := True\<rparr>)"

definition InitPlan :: "Step list" where
  "InitPlan =
     [dockerSocketStep, configStep, gitStep, gitCredentialsStep, sshStep, postInitStep,
      AgentInitializedStep ''agent-initialized'']"

definition bootPlanPost :: "string \<Rightarrow> Step list" where
  "bootPlanPost defaultCmd = [preRunStep, AgentReadyStep ''agent-ready'' defaultCmd]"

definition BootPlan :: "string \<Rightarrow> Step list" where
  "BootPlan defaultCmd = dockerSocketStep # bootPlanPost defaultCmd"

section \<open>One step\<close>

record stepOutcome =
  o_ExitCode :: int
  o_Reason :: Reason
  o_Detail :: string

definition Failed :: "stepOutcome \<Rightarrow> bool" where
  "Failed out \<longleftrightarrow> o_Reason out \<noteq> ReasonNone"

definition stepSucceeded :: stepOutcome where
  "stepSucceeded = \<lparr>o_ExitCode = 0, o_Reason = ReasonNone, o_Detail = []\<rparr>"

definition stepFailedTransport :: "string \<Rightarrow> stepOutcome" where
  "stepFailedTransport d = \<lparr>o_ExitCode = -1, o_Reason = ReasonTransportError, o_Detail = d\<rparr>"

definition stepFailedExit :: "int \<Rightarrow> string \<Rightarrow> stepOutcome" where
  "stepFailedExit n d = \<lparr>o_ExitCode = n, o_Reason = ReasonExitCode, o_Detail = d\<rparr>"

definition stepFailedClassified :: "Reason \<Rightarrow> string \<Rightarrow> stepOutcome" where
  "stepFailedClassified r d = \<lparr>o_ExitCode = -1, o_Reason = r, o_Detail = d\<rparr>"

definition maxOutputCapture :: nat where
  "maxOutputCapture = 4096"

text \<open>The captured output and the number of bytes left out.\<close>

type_synonym capture = "string \<times> nat"

definition captureCapped :: "string \<Rightarrow> capture \<Rightarrow> capture" where
  "captureCapped data c =
     (let (buf, truncated) = c; remaining = maxOutputCapture - length buf in
      if remaining = 0 then (buf, truncated + length data)
      else if length data > remaining then
        (buf @ take remaining data, truncated + (length data - remaining))
      else (buf @ data, truncated))"

fun classifyErrorCode :: "ErrorCode \<Rightarrow> Reason" where
  "classifyErrorCode ERROR_CODE_TIMEOUT = ReasonTimeout"
| "classifyErrorCode ERROR_CODE_SPAWN_FAILED = ReasonSpawnFailed"
| "classifyErrorCode ERROR_CODE_IO_ERROR = ReasonIOError"
| "classifyErrorCode ERROR_CODE_NOT_FOUND = ReasonIOError"
| "classifyErrorCode ERROR_CODE_INVALID_REQUEST = ReasonProtocolError"
| "classifyErrorCode ERROR_CODE_UNKNOWN_COMMAND_ID = ReasonProtocolError"
| "classifyErrorCode ERROR_CODE_UNSPECIFIED = ReasonUnknown"

definition exit_detail :: "int \<Rightarrow> capture \<Rightarrow> string" where
  "exit_detail n c =
     (let (buf, truncated) = c; out = TrimSpace buf in
      ''exit_code='' @ Itoa n @
      (if out \<noteq> [] then
         ''; output: '' @ out @
         (if truncated > 0 then '' ... ['' @ Itoa (int truncated) @ '' bytes truncated]'' else [])
       else []))"

text \<open>A frame of the running command ends the step, or is folded into the captured output.\<close>

definition classifyStepResponse :: "payload \<Rightarrow> capture \<Rightarrow> stepOutcome + capture" where
  "classifyStepResponse p c =
     (case p of
        RespOutput d \<Rightarrow> Inr (captureCapped d c)
      | RespDone n \<Rightarrow> Inl (if n = 0 then stepSucceeded else stepFailedExit n (exit_detail n c))
      | RespError code msg \<Rightarrow>
          Inl (stepFailedClassified (classifyErrorCode code) (ErrorCode_String code @ '': '' @ msg))
      | _ \<Rightarrow> Inr c)"

definition buildCommandID :: "string \<Rightarrow> string \<Rightarrow> string \<Rightarrow> nat \<Rightarrow> string" where
  "buildCommandID label containerID stepName idx =
     label @ ''-'' @ take 12 containerID @ ''-'' @ stepName @ ''-'' @ Itoa (int idx)"

definition eof_detail :: string where
  "eof_detail = ''stream EOF before terminal response''"

text \<open>
  The wait for the terminal frame, over the frames to come. The result is the outcome, the
  transport error if the stream or the context ended, and the frames not yet received.
\<close>

fun await_frames ::
  "(nat \<Rightarrow> ctx_error option) \<Rightarrow> recv_error \<Rightarrow> string \<Rightarrow> string \<Rightarrow> capture \<Rightarrow> Response list \<Rightarrow>
     (stepOutcome \<times> string option) \<times> Response list" where
  "await_frames ctx_err fin cid name c [] =
     (case ctx_err 0 of
        Some e \<Rightarrow> ((stepFailedTransport (ctx_String e), Some (ctx_String e)), [])
      | None \<Rightarrow>
          (case fin of
             EOF \<Rightarrow> ((stepFailedTransport eof_detail, Some eof_detail), [])
           | RecvErr e \<Rightarrow>
               ((stepFailedTransport (''recv '' @ name @ '': '' @ e),
                 Some (''recv '' @ name @ '': '' @ e)), [])))"
| "await_frames ctx_err fin cid name c (r # rs) =
     (case ctx_err (Suc (length rs)) of
        Some e \<Rightarrow> ((stepFailedTransport (ctx_String e), Some (ctx_String e)), r # rs)
      | None \<Rightarrow>
          if resp_id r \<noteq> cid then await_frames ctx_err fin cid name c rs
          else
            (case classifyStepResponse (resp_payload r) c of
               Inl out \<Rightarrow> ((out, None), rs)
             | Inr c' \<Rightarrow> await_frames ctx_err fin cid name c' rs))"

definition awaitStepResult ::
  "(nat \<Rightarrow> ctx_error option) \<Rightarrow> Stream \<Rightarrow> string \<Rightarrow> string \<Rightarrow> (stepOutcome \<times> string option) \<times> Stream" where
  "awaitStepResult ctx_err s cid name =
     (let (res, rs) = await_frames ctx_err (final s) cid name ([], 0) (incoming s)
      in (res, s\<lparr>incoming := rs\<rparr>))"

definition sendStepCommand :: "Stream \<Rightarrow> string \<Rightarrow> Step \<Rightarrow> string option \<times> Stream" where
  "sendStepCommand s cid st =
     (let (cmd, follow) = Step_Command st cid in
      case Send s cmd of
        (Some e, s') \<Rightarrow> (Some (''send '' @ StepName st @ '': '' @ e), s')
      | (None, s') \<Rightarrow>
          if \<not> follow then (None, s')
          else
            (case Send s' \<lparr>cmd_id = cid, cmd_payload = CmdCloseStdin\<rparr> of
               (Some e, s'') \<Rightarrow> (Some (''send '' @ StepName st @ '' close_stdin: '' @ e), s'')
             | (None, s'') \<Rightarrow> (None, s'')))"

definition runStep ::
  "(nat \<Rightarrow> ctx_error option) \<Rightarrow> Stream \<Rightarrow> string \<Rightarrow> string \<Rightarrow> nat \<Rightarrow> Step \<Rightarrow>
     (stepOutcome \<times> string option) \<times> Stream" where
  "runStep ctx_err s containerID label idx st =
     (let cid = buildCommandID label containerID (StepName st) idx in
      case sendStepCommand s cid st of
        (Some e, s') \<Rightarrow> ((stepFailedTransport e, Some e), s')
      | (None, s') \<Rightarrow> awaitStepResult ctx_err s' cid (StepName st))"

section \<open>A plan\<close>

record ExecTarget =
  x_ContainerID :: string
  x_AgentName :: string
  x_Project :: string

definition target_agent :: "ExecTarget \<Rightarrow> Agent" where
  "target_agent t =
     \<lparr>ag_ContainerID = x_ContainerID t, ag_AgentName = x_AgentName t, ag_Project = x_Project t\<rparr>"

text \<open>
  What surrounds a run: the context, the panic a step's dispatch ends in, whether the container
  leaves by itself within the grace period, and the daemon's answer to a kill.
\<close>

record exec_env =
  ctx_err :: "nat \<Rightarrow> ctx_error option"
  step_panic :: "nat \<Rightarrow> string option"
  self_exit :: bool
  kill_err :: "string option"

record exec_state =
  stream :: Stream
  events :: "AgentEvent list"
  kills :: "string list"

definition publish :: "Agent \<Rightarrow> Message \<Rightarrow> exec_state \<Rightarrow> exec_state" where
  "publish g m s = s\<lparr>events := events s @ [\<lparr>ev_Agent = g, ev_Message = m\<rparr>]\<rparr>"

definition exec_message :: "Action \<Rightarrow> Message" where
  "exec_message a = message ExecutorEventType a"

definition announceStepStarted :: "ExecTarget \<Rightarrow> nat \<Rightarrow> nat \<Rightarrow> Step \<Rightarrow> exec_state \<Rightarrow> exec_state" where
  "announceStepStarted t i stepCount st =
     publish (target_agent t)
       ((exec_message ActionExecStepStarted)
          \<lparr>m_StepName := StepName st, m_StepIndex := int i, m_StepCount := int stepCount\<rparr>)"

definition announceStepCompleted :: "ExecTarget \<Rightarrow> nat \<Rightarrow> Step \<Rightarrow> stepOutcome \<Rightarrow> exec_state \<Rightarrow> exec_state" where
  "announceStepCompleted t i st out =
     publish (target_agent t)
       ((exec_message ActionExecStepCompleted)
          \<lparr>m_StepName := StepName st, m_StepIndex := int i, m_ExitCode := o_ExitCode out\<rparr>)"

definition handleRunPanic :: "string \<Rightarrow> ExecTarget \<Rightarrow> (nat \<times> string) option \<Rightarrow> exec_state \<Rightarrow> string \<times> exec_state" where
  "handleRunPanic p t current s =
     (let detail = ''Executor.Run panicked: '' @ p;
          s = (case current of
                 None \<Rightarrow> s
               | Some (i, name) \<Rightarrow>
                   publish (target_agent t)
                     ((exec_message ActionExecStepFailed)
                        \<lparr>m_StepName := name, m_StepIndex := int i, m_ExitCode := -1,
                         m_Reason := ReasonUnknown, m_Detail := detail\<rparr>) s);
          s = publish (target_agent t)
                ((exec_message ActionExecFailed)
                   \<lparr>m_StepName := (case current of None \<Rightarrow> [] | Some (_, name) \<Rightarrow> name),
                    m_Reason := ReasonUnknown, m_Detail := detail\<rparr>) s
      in (detail, s))"

definition KillAfterGrace :: "exec_env \<Rightarrow> string \<Rightarrow> exec_state \<Rightarrow> string option \<times> exec_state" where
  "KillAfterGrace env containerID s =
     (if self_exit env then (None, s)
      else
        (case kill_err env of
           Some e \<Rightarrow> (Some (''agent: SIGKILL after fatal command failed: '' @ e), s)
         | None \<Rightarrow> (None, s\<lparr>kills := kills s @ [containerID]\<rparr>)))"

definition reportStepFailure ::
  "exec_env \<Rightarrow> ExecTarget \<Rightarrow> string \<Rightarrow> nat \<Rightarrow> Step \<Rightarrow> stepOutcome \<Rightarrow> string option \<Rightarrow> exec_state \<Rightarrow>
     string \<times> exec_state" where
  "reportStepFailure env t label i st out err s =
     (let s = publish (target_agent t)
                ((exec_message ActionExecStepFailed)
                   \<lparr>m_StepName := StepName st, m_StepIndex := int i, m_ExitCode := o_ExitCode out,
                    m_Reason := o_Reason out, m_Detail := o_Detail out\<rparr>) s;
          s = publish (target_agent t)
                ((exec_message ActionExecFailed)
                   \<lparr>m_StepName := StepName st, m_Reason := o_Reason out, m_Detail := o_Detail out\<rparr>) s;
          msg = ''agent.'' @ label @ '': step '' @ [CHR 0x22] @ StepName st @ [CHR 0x22] @ '' failed: '' @ o_Detail out
      in case err of
           Some e \<Rightarrow> (e, s)
         | None \<Rightarrow>
             (case KillAfterGrace env (x_ContainerID t) s of
                (Some k, s') \<Rightarrow>
                  (msg @ ''; additionally, failed to kill container: '' @ k, s')
              | (None, s') \<Rightarrow> (msg, s')))"

text \<open>The loop over the plan, from step \<open>i\<close> of \<open>n\<close>.\<close>

fun run_steps ::
  "exec_env \<Rightarrow> ExecTarget \<Rightarrow> string \<Rightarrow> nat \<Rightarrow> nat \<Rightarrow> Step list \<Rightarrow> exec_state \<Rightarrow> string option \<times> exec_state" where
  "run_steps env t label n i [] s = (None, publish (target_agent t) (exec_message ActionExecCompleted) s)"
| "run_steps env t label n i (st # sts) s =
     (let s = announceStepStarted t i n st s in
      case step_panic env i of
        Some p \<Rightarrow> (case handleRunPanic p t (Some (i, StepName st)) s of (e, s) \<Rightarrow> (Some e, s))
      | None \<Rightarrow>
          (case runStep (ctx_err env) (stream s) (x_ContainerID t) label i st of
             ((out, err), str) \<Rightarrow>
               (let s = s\<lparr>stream := str\<rparr> in
                if Failed out then
                  (case reportStepFailure env t label i st out err s of (e, s) \<Rightarrow> (Some e, s))
                else run_steps env t label n (Suc i) sts (announceStepCompleted t i st out s))))"

definition Run ::
  "exec_env \<Rightarrow> ExecTarget \<Rightarrow> Step list \<Rightarrow> string \<Rightarrow> exec_state \<Rightarrow> string option \<times> exec_state" where
  "Run env t plan label s =
     run_steps env t label (length plan) 0 plan
       (publish (target_agent t)
          ((exec_message ActionExecStarted)\<lparr>m_StepCount := int (length plan)\<rparr>) s)"

end
