(* ===== verification/Agent_Plan_Runs.thy ===== *)
theory Agent_Plan_Runs
  imports Agent_Executor
begin

text \<open>
  What running a plan guarantees: the captured output is bounded and accounted for, a step is decided
  by frames of its own command id only, steps are strictly serialised, and every run ends in a
  terminal state of the worldview.
\<close>

section \<open>Captured output\<close>

lemma captureCapped_bounds:
  assumes "length (fst c) \<le> maxOutputCapture"
  shows "length (fst (captureCapped d c)) \<le> maxOutputCapture \<and>
    length (fst (captureCapped d c)) + snd (captureCapped d c) = length (fst c) + snd c + length d"
  using assms by (cases c) (auto simp: captureCapped_def Let_def)

lemma captureCapped_prefix:
  "fst (captureCapped d c) = fst c @ take (maxOutputCapture - length (fst c)) d"
  by (cases c) (auto simp: captureCapped_def Let_def)

section \<open>Command ids\<close>

lemma buildCommandID_idx:
  assumes "buildCommandID l c n i = buildCommandID l c m j"
  shows "i = j"
proof -
  have no: "CHR ''-'' \<notin> set (Itoa (int k))" for k
    using Itoa_digits [of "int k" "CHR ''-''"] by (auto simp: is_digit_def byte_of_def)
  from assms have "(n @ [CHR ''-'']) @ Itoa (int i) = (m @ [CHR ''-'']) @ Itoa (int j)"
    by (simp add: buildCommandID_def)
  then have "n @ CHR ''-'' # Itoa (int i) = m @ CHR ''-'' # Itoa (int j)" by simp
  from last_sep_eq [OF this] no have "Itoa (int i) = Itoa (int j)" by blast
  then show ?thesis by (simp add: Itoa_inj)
qed

section \<open>Waiting for a step\<close>

lemma classifyErrorCode_classified [simp]: "classifyErrorCode c \<noteq> ReasonNone"
  by (cases c) simp_all

text \<open>Frames of other commands do not influence a step.\<close>

lemma await_frames_filter:
  "fst (await_frames (\<lambda>_. None) fin cid name c rs) =
   fst (await_frames (\<lambda>_. None) fin cid name c (filter (\<lambda>r. resp_id r = cid) rs))"
  by (induction rs arbitrary: c) (auto split: sum.splits)

lemma await_frames_suffix: "\<exists>used. rs = used @ snd (await_frames ctx fin cid name c rs)"
proof (induction rs arbitrary: c)
  case (Cons r rs)
  have skip: "\<exists>used. r # rs = used @ snd (await_frames ctx fin cid name c' rs)" for c'
  proof -
    obtain used where "rs = used @ snd (await_frames ctx fin cid name c' rs)" using Cons by blast
    then show ?thesis by (intro exI [of _ "r # used"]) simp
  qed
  have "\<exists>used. r # rs = used @ r # rs" "\<exists>used. r # rs = used @ rs"
    by (intro exI [of _ "[]"], simp) (intro exI [of _ "[r]"], simp)
  then show ?case using skip by (auto split: option.splits sum.splits)
qed (auto split: option.splits recv_error.splits)

lemma await_frames_success:
  assumes "await_frames ctx fin cid name c rs = ((out, err), rest)" "\<not> Failed out"
  shows "\<exists>used. rs = used @ rest \<and> (\<exists>r \<in> set used. resp_id r = cid \<and> resp_payload r = RespDone 0)"
  using assms
proof (induction rs arbitrary: c)
  case Nil
  then show ?case
    by (auto simp: Failed_def stepFailedTransport_def split: option.splits recv_error.splits)
next
  case (Cons r rs)
  have go: ?case if run: "await_frames ctx fin cid name c' rs = ((out, err), rest)" for c'
  proof -
    obtain used where "rs = used @ rest" "\<exists>r \<in> set used. resp_id r = cid \<and> resp_payload r = RespDone 0"
      using Cons.IH [OF run Cons.prems(2)] by blast
    then show ?thesis by (intro exI [of _ "r # used"]) auto
  qed
  show ?case
  proof (cases "ctx (Suc (length rs))")
    case None
    show ?thesis
    proof (cases "resp_id r = cid")
      case True
      show ?thesis
      proof (cases "classifyStepResponse (resp_payload r) c")
        case (Inl o')
        with None True Cons.prems have "out = o'" "rest = rs" by auto
        with Inl Cons.prems(2) have "resp_payload r = RespDone 0"
          by (cases "resp_payload r") (auto simp: classifyStepResponse_def Failed_def
              stepFailedExit_def stepFailedClassified_def split: if_splits ErrorCode.splits)
        with True \<open>rest = rs\<close> show ?thesis by (intro exI [of _ "[r]"]) simp
      next
        case (Inr c')
        with None True Cons.prems show ?thesis using go by auto
      qed
    next
      case False
      with None Cons.prems show ?thesis using go by auto
    qed
  next
    case (Some e)
    with Cons.prems show ?thesis by (auto simp: Failed_def stepFailedTransport_def)
  qed
qed

lemma ctx_String_not_Nil [simp]: "ctx_String e \<noteq> []"
  by (cases e) simp_all

lemma classify_detail:
  "classifyStepResponse p c = Inl out \<Longrightarrow> Failed out \<Longrightarrow> o_Detail out \<noteq> []"
  by (cases p) (auto simp: classifyStepResponse_def Failed_def stepSucceeded_def stepFailedExit_def
      stepFailedClassified_def exit_detail_def Let_def split: if_splits prod.splits)

lemma await_frames_detail:
  "await_frames ctx fin cid name c rs = ((out, err), rest) \<Longrightarrow> Failed out \<Longrightarrow> o_Detail out \<noteq> []"
  by (induction rs arbitrary: c)
    (auto simp: stepFailedTransport_def eof_detail_def classify_detail
      split: option.splits recv_error.splits if_splits sum.splits)

lemma runStep_detail:
  "runStep ctx s cid label i st = ((out, err), s') \<Longrightarrow> Failed out \<Longrightarrow> o_Detail out \<noteq> []"
  by (auto simp: runStep_def Let_def sendStepCommand_def awaitStepResult_def stepFailedTransport_def
      split: prod.splits option.splits if_splits dest: await_frames_detail)

lemma Send_cases:
  "Send s c = (e, s') \<Longrightarrow> s' = s\<lparr>outgoing := outgoing s @ (if e = None then [c] else [])\<rparr>"
  by (auto simp: Send_def split: option.splits)

text \<open>A command of a step: the step's own, or the end of its standard input.\<close>

definition step_cmd :: "Step \<Rightarrow> string \<Rightarrow> Command \<Rightarrow> bool" where
  "step_cmd st cid c \<longleftrightarrow> c = fst (Step_Command st cid) \<or> c = \<lparr>cmd_id = cid, cmd_payload = CmdCloseStdin\<rparr>"

lemma sendStepCommand_effect:
  assumes "sendStepCommand s cid st = (e, s')"
  shows "incoming s' = incoming s \<and> final s' = final s \<and>
    (\<exists>sent. outgoing s' = outgoing s @ sent \<and> (\<forall>c \<in> set sent. step_cmd st cid c))"
proof -
  obtain cmd b where c: "Step_Command st cid = (cmd, b)" by fastforce
  obtain e1 s1 where s1: "Send s cmd = (e1, s1)" by fastforce
  obtain e2 s2 where s2: "Send s1 \<lparr>cmd_id = cid, cmd_payload = CmdCloseStdin\<rparr> = (e2, s2)" by fastforce
  have "s' = s1 \<or> s' = s2"
    using assms c s1 s2 by (auto simp: sendStepCommand_def split: option.splits if_splits)
  then show ?thesis
    using Send_cases [OF s1] Send_cases [OF s2] c by (auto simp: step_cmd_def split: if_splits)
qed

lemma runStep_effect:
  assumes "runStep ctx s containerID label i st = ((out, err), s')"
  shows "\<exists>used sent. incoming s = used @ incoming s' \<and> outgoing s' = outgoing s @ sent \<and>
    (\<forall>c \<in> set sent. step_cmd st (buildCommandID label containerID (StepName st) i) c) \<and>
    (\<not> Failed out \<longrightarrow>
       (\<exists>r \<in> set used. resp_id r = buildCommandID label containerID (StepName st) i \<and>
          resp_payload r = RespDone 0))"
proof -
  let ?id = "buildCommandID label containerID (StepName st) i"
  obtain e s1 where s1: "sendStepCommand s ?id st = (e, s1)" by fastforce
  from sendStepCommand_effect [OF s1] obtain sent where sent: "incoming s1 = incoming s"
    "outgoing s1 = outgoing s @ sent" "\<forall>c \<in> set sent. step_cmd st ?id c" by blast
  show ?thesis
  proof (cases e)
    case (Some m)
    with assms s1 have "s' = s1" "Failed out"
      by (auto simp: runStep_def Failed_def stepFailedTransport_def)
    with sent show ?thesis by (intro exI [of _ "[]"] exI [of _ sent]) simp
  next
    case None
    with assms s1 obtain rest where
      run: "await_frames ctx (final s1) ?id (StepName st) ([], 0) (incoming s1) = ((out, err), rest)"
      "s' = s1\<lparr>incoming := rest\<rparr>"
      by (auto simp: runStep_def awaitStepResult_def Let_def split: prod.splits)
    have "\<exists>used. incoming s1 = used @ rest \<and>
      (\<not> Failed out \<longrightarrow> (\<exists>r \<in> set used. resp_id r = ?id \<and> resp_payload r = RespDone 0))"
      using await_frames_success [OF run(1)]
        await_frames_suffix [of "incoming s1" ctx "final s1" ?id "StepName st" "([], 0)"] run(1)
      by (cases "Failed out") auto
    with run(2) sent show ?thesis by auto
  qed
qed

section \<open>Running a plan\<close>

lemma publish_simps [simp]:
  "stream (publish g m s) = stream s" "kills (publish g m s) = kills s"
  "events (publish g m s) = events s @ [\<lparr>ev_Agent = g, ev_Message = m\<rparr>]"
  by (simp_all add: publish_def)

lemma KillAfterGrace_simps:
  "KillAfterGrace env c s = (k, s') \<Longrightarrow> stream s' = stream s \<and> events s' = events s"
  by (auto simp: KillAfterGrace_def split: if_splits option.splits)

lemma reportStepFailure_simps:
  assumes "reportStepFailure env t label i st out err s = (e, s')"
  shows "stream s' = stream s"
    "\<exists>evs m. events s' = events s @ evs @ [\<lparr>ev_Agent = target_agent t, ev_Message = m\<rparr>] \<and>
       m_Type m = ExecutorEventType \<and> m_Action m = ActionExecFailed \<and> m_Detail m = o_Detail out"
  using assms
  by (auto simp: reportStepFailure_def Let_def exec_message_def message_def
      dest!: KillAfterGrace_simps split: option.splits prod.splits)

text \<open>
  A run's last event is the completion or the failure of the plan, and the failure carries a
  detail.
\<close>

definition ends_with :: "ExecTarget \<Rightarrow> string option \<Rightarrow> AgentEvent \<Rightarrow> bool" where
  "ends_with t err e \<longleftrightarrow>
     ev_Agent e = target_agent t \<and> m_Type (ev_Message e) = ExecutorEventType \<and>
     (if err = None then m_Action (ev_Message e) = ActionExecCompleted
      else m_Action (ev_Message e) = ActionExecFailed \<and> m_Detail (ev_Message e) \<noteq> [])"

lemma run_steps_last_event:
  assumes "run_steps env t label n i sts s = (err, s')"
  shows "\<exists>evs e. events s' = events s @ evs @ [e] \<and> ends_with t err e"
  using assms
proof (induction sts arbitrary: i s)
  case Nil
  then show ?case
    by (intro exI [of _ "[]"]) (auto simp: ends_with_def exec_message_def message_def)
next
  case (Cons st sts)
  let ?s = "announceStepStarted t i n st s"
  have started: "\<exists>e. events ?s = events s @ [e]" by (auto simp: announceStepStarted_def)
  show ?case
  proof (cases "step_panic env i")
    case (Some p)
    then show ?thesis using Cons.prems
      by (auto simp: handleRunPanic_def Let_def announceStepStarted_def ends_with_def exec_message_def
          message_def)
  next
    case None
    obtain out e str where run: "runStep (ctx_err env) (stream ?s) (x_ContainerID t) label i st = ((out, e), str)"
      by (metis prod.collapse)
    show ?thesis
    proof (cases "Failed out")
      case True
      obtain m s2 where rep: "reportStepFailure env t label i st out e (?s\<lparr>stream := str\<rparr>) = (m, s2)"
        by fastforce
      with None run True Cons.prems have "err = Some m" "s' = s2" by (auto simp: Let_def)
      with reportStepFailure_simps(2) [OF rep] runStep_detail [OF run True] started show ?thesis
        by (auto simp: ends_with_def)
    next
      case False
      with None run Cons.prems have
        "run_steps env t label n (Suc i) sts (announceStepCompleted t i st out (?s\<lparr>stream := str\<rparr>)) = (err, s')"
        by (simp add: Let_def)
      from Cons.IH [OF this] started show ?thesis by (auto simp: announceStepCompleted_def)
    qed
  qed
qed

lemma run_steps_order:
  assumes "run_steps env t label n i sts s = (err, s')"
  shows "\<exists>used sent. incoming (stream s) = used @ incoming (stream s') \<and>
    outgoing (stream s') = outgoing (stream s) @ sent \<and>
    (\<forall>c \<in> set sent. \<exists>k < length sts.
       step_cmd (sts ! k) (buildCommandID label (x_ContainerID t) (StepName (sts ! k)) (i + k)) c \<and>
       (\<forall>j < k. \<exists>r \<in> set used.
          resp_id r = buildCommandID label (x_ContainerID t) (StepName (sts ! j)) (i + j) \<and>
          resp_payload r = RespDone 0))"
  using assms
proof (induction sts arbitrary: i s)
  case Nil
  then show ?case by (auto simp: publish_def)
next
  case (Cons st sts)
  let ?id = "\<lambda>k. buildCommandID label (x_ContainerID t) (StepName ((st # sts) ! k)) (i + k)"
  let ?s = "announceStepStarted t i n st s"
  have [simp]: "stream ?s = stream s" by (simp add: announceStepStarted_def)
  show ?case
  proof (cases "step_panic env i")
    case (Some p)
    with Cons.prems have "stream s' = stream s" by (auto simp: handleRunPanic_def Let_def)
    then show ?thesis by auto
  next
    case None
    obtain out e str where run: "runStep (ctx_err env) (stream s) (x_ContainerID t) label i st = ((out, e), str)"
      by (metis prod.collapse)
    from runStep_effect [OF run] obtain used sent where step:
      "incoming (stream s) = used @ incoming str" "outgoing str = outgoing (stream s) @ sent"
      "\<forall>c \<in> set sent. step_cmd st (?id 0) c"
      "\<not> Failed out \<longrightarrow> (\<exists>r \<in> set used. resp_id r = ?id 0 \<and> resp_payload r = RespDone 0)" by auto
    show ?thesis
    proof (cases "Failed out")
      case True
      obtain m s2 where rep: "reportStepFailure env t label i st out e (?s\<lparr>stream := str\<rparr>) = (m, s2)"
        by fastforce
      with None run True Cons.prems have "stream s' = str"
        using reportStepFailure_simps(1) [OF rep] by (auto simp: Let_def)
      with step(1-3) show ?thesis by (intro exI [of _ used] exI [of _ sent]) auto
    next
      case False
      with None run Cons.prems have
        "run_steps env t label n (Suc i) sts (announceStepCompleted t i st out (?s\<lparr>stream := str\<rparr>)) = (err, s')"
        by (simp add: Let_def)
      from Cons.IH [OF this] obtain used' sent' where rest:
        "incoming str = used' @ incoming (stream s')" "outgoing (stream s') = outgoing str @ sent'"
        "\<forall>c \<in> set sent'. \<exists>k < length sts. step_cmd (sts ! k) (?id (Suc k)) c \<and>
           (\<forall>j < k. \<exists>r \<in> set used'. resp_id r = ?id (Suc j) \<and> resp_payload r = RespDone 0)"
        by (auto simp: announceStepCompleted_def)
      show ?thesis
      proof (intro exI [of _ "used @ used'"] exI [of _ "sent @ sent'"] conjI ballI)
        show "incoming (stream s) = (used @ used') @ incoming (stream s')" using step rest by simp
        show "outgoing (stream s') = outgoing (stream s) @ sent @ sent'" using step rest by simp
        fix c assume "c \<in> set (sent @ sent')"
        then show "\<exists>k < length (st # sts). step_cmd ((st # sts) ! k) (?id k) c \<and>
            (\<forall>j < k. \<exists>r \<in> set (used @ used'). resp_id r = ?id j \<and> resp_payload r = RespDone 0)"
        proof (cases "c \<in> set sent")
          case True
          then show ?thesis using step(3) by (intro exI [of _ 0]) simp
        next
          case False
          with \<open>c \<in> set (sent @ sent')\<close> have "c \<in> set sent'" by simp
          then obtain k where k: "k < length sts" "step_cmd (sts ! k) (?id (Suc k)) c"
            "\<forall>j < k. \<exists>r \<in> set used'. resp_id r = ?id (Suc j) \<and> resp_payload r = RespDone 0"
            using rest(3) by blast
          have "\<exists>r \<in> set (used @ used'). resp_id r = ?id j \<and> resp_payload r = RespDone 0" if "j < Suc k" for j
            using k(3) step(4) \<open>\<not> Failed out\<close> that by (cases j) auto
          then show ?thesis using k(1,2) by (intro exI [of _ "Suc k"]) simp
        qed
      qed
    qed
  qed
qed

section \<open>Properties\<close>

lemma fold_project_last:
  assumes "length ts = length (evs @ [e])"
  shows "\<exists>w' t. fold project (zip (evs @ [e]) ts) w = project (e, t) w'"
proof -
  obtain ts' t where "ts = ts' @ [t]" "length ts' = length evs"
    using assms by (cases ts rule: rev_cases) auto
  then have "zip (evs @ [e]) ts = zip evs ts' @ [(e, t)]" by simp
  then show ?thesis by (intro exI [of _ "fold project (zip evs ts') w"] exI [of _ t]) simp
qed

lemma project_terminal:
  assumes "ends_with tgt err e" "x_ContainerID tgt \<noteq> []"
  shows "case err of
      None \<Rightarrow> x_status (Executor (lookup_state (project (e, t) w) (x_ContainerID tgt))) = StatusCompleted \<and>
        x_lastError (Executor (lookup_state (project (e, t) w) (x_ContainerID tgt))) = []
    | Some _ \<Rightarrow> x_status (Executor (lookup_state (project (e, t) w) (x_ContainerID tgt))) = StatusFailed \<and>
        x_lastError (Executor (lookup_state (project (e, t) w) (x_ContainerID tgt))) \<noteq> []"
  using assms
  by (cases err) (auto simp: ends_with_def project_def lookup_state_def target_agent_def
      project_state_axes projectExec_state_def Complete_def Fail_def Let_def)

text \<open>
  C10: a plan is never left hanging in the worldview. Whatever the stream, the context, a panic
  or the Docker daemon do during a run, once the events it published are projected, in whatever
  state the store was and at whatever times, the agent's execution status is completed without an
  error exactly when the run returned without an error, and otherwise failed with a reason.
\<close>

theorem run_never_strands:
  assumes "Run env t plan label s = (err, s')" and "x_ContainerID t \<noteq> []"
    and "length ts = length (events s') - length (events s)"
  shows "let x = Executor (lookup_state (fold project (zip (drop (length (events s)) (events s')) ts) w)
           (x_ContainerID t)) in
    (case err of
       None \<Rightarrow> x_status x = StatusCompleted \<and> x_lastError x = []
     | Some _ \<Rightarrow> x_status x = StatusFailed \<and> x_lastError x \<noteq> [])"
proof -
  obtain evs0 evs e where evs: "events s' = (events s @ [evs0]) @ evs @ [e]" "ends_with t err e"
    using run_steps_last_event [OF assms(1) [unfolded Run_def]] by auto
  then have "drop (length (events s)) (events s') = (evs0 # evs) @ [e]" by simp
  moreover have "length ts = length ((evs0 # evs) @ [e])" using assms(3) evs(1) by simp
  ultimately obtain w' u where
    "fold project (zip (drop (length (events s)) (events s')) ts) w = project (e, u) w'"
    using fold_project_last by metis
  then show ?thesis using project_terminal [OF evs(2) assms(2), of u w'] by (simp add: Let_def)
qed

text \<open>
  Theorem: steps are strictly serialised. Every command a run sends belongs to a step of the plan, and
  each earlier step of the plan had been answered, under its own command id, with a successful
  completion among the frames the run received. In particular the boot plan releases the user's
  program only after the last hook before it succeeded.
\<close>

theorem plan_step_order:
  assumes "Run env t plan label s = (err, s')"
    and "c \<in> set (drop (length (outgoing (stream s))) (outgoing (stream s')))"
  shows "\<exists>k < length plan.
    step_cmd (plan ! k) (buildCommandID label (x_ContainerID t) (StepName (plan ! k)) k) c \<and>
    (\<forall>j < k. \<exists>r \<in> set (take (length (incoming (stream s)) - length (incoming (stream s')))
                       (incoming (stream s))).
       resp_id r = buildCommandID label (x_ContainerID t) (StepName (plan ! j)) j \<and>
       resp_payload r = RespDone 0)"
proof -
  obtain used sent where order: "incoming (stream s) = used @ incoming (stream s')"
    "outgoing (stream s') = outgoing (stream s) @ sent"
    "\<forall>c \<in> set sent. \<exists>k < length plan.
       step_cmd (plan ! k) (buildCommandID label (x_ContainerID t) (StepName (plan ! k)) k) c \<and>
       (\<forall>j < k. \<exists>r \<in> set used.
          resp_id r = buildCommandID label (x_ContainerID t) (StepName (plan ! j)) j \<and>
          resp_payload r = RespDone 0)"
    using run_steps_order [OF assms(1) [unfolded Run_def]] by auto
  from order(1) have used: "take (length (incoming (stream s)) - length (incoming (stream s')))
      (incoming (stream s)) = used" by simp
  from order(2) assms(2) have "c \<in> set sent" by simp
  with order(3) used show ?thesis by simp
qed

text \<open>
  Theorem: the output kept for a failing step is bounded, and nothing is dropped silently: over any
  sequence of chunks the kept text has at most 4096 bytes and its length and the reported count of
  truncated bytes add up to all the bytes received.
\<close>

theorem captured_output_accounted:
  "length (fst (fold captureCapped chunks ([], 0))) \<le> maxOutputCapture \<and>
   length (fst (fold captureCapped chunks ([], 0))) + snd (fold captureCapped chunks ([], 0)) =
     length (concat chunks)"
proof (induction chunks rule: rev_induct)
  case (snoc d ds)
  then show ?case using captureCapped_bounds [of "fold captureCapped ds ([], 0)" d] by simp
qed (simp add: maxOutputCapture_def)

section \<open>Witnesses\<close>

definition sample_target :: ExecTarget where
  "sample_target = \<lparr>x_ContainerID = ''ab12'', x_AgentName = ''dev'', x_Project = ''app''\<rparr>"

definition plan_env :: exec_env where
  "plan_env = \<lparr>ctx_err = (\<lambda>_. None), step_panic = (\<lambda>_. None), self_exit = False, kill_err = None\<rparr>"

definition done_frame :: "string \<Rightarrow> int \<Rightarrow> Response" where
  "done_frame i n = \<lparr>resp_id = i, resp_payload = RespDone n\<rparr>"

text \<open>A session that answers the first two boot steps and then ends.\<close>

definition sample_state :: exec_state where
  "sample_state =
     \<lparr>stream = \<lparr>incoming = [done_frame ''boot-ab12-docker-socket-0'' 0, done_frame ''stale'' 1,
                            done_frame ''boot-ab12-pre-run-1'' 0],
               final = EOF, outgoing = [], send_error = (\<lambda>_. None)\<rparr>,
      events = [], kills = []\<rparr>"

definition sample_result :: "string option \<times> exec_state" where
  "sample_result = Run plan_env sample_target (BootPlan ''claude'') ''boot'' sample_state"

lemma sample_result_facts:
  "fst sample_result = Some eof_detail" "length (events (snd sample_result)) = 8"
  "length (incoming (stream (snd sample_result))) = 0"
  "\<lparr>cmd_id = ''boot-ab12-agent-ready-2'', cmd_payload = CmdAgentReady ''claude''\<rparr> \<in>
     set (outgoing (stream (snd sample_result)))"
  by code_simp+

text \<open>Theorem: the sample run's worldview ends in failure, with a reason.\<close>

theorem run_never_strands_witness:
  "let x = Executor (lookup_state (fold project (zip (events (snd sample_result)) (replicate 8 0))
     Map.empty) ''ab12'') in x_status x = StatusFailed \<and> x_lastError x \<noteq> []"
  using run_never_strands [OF prod.collapse [symmetric], of sample_target "replicate 8 0" plan_env
      "BootPlan ''claude''" "''boot''" sample_state Map.empty]
    sample_result_facts(1,2) [unfolded sample_result_def]
  by (simp add: sample_target_def sample_state_def sample_result_def)

text \<open>Theorem: in the sample run the program is released after both earlier steps succeeded.\<close>

theorem plan_step_order_witness:
  "\<exists>k < length (BootPlan ''claude'').
    step_cmd (BootPlan ''claude'' ! k) (buildCommandID ''boot'' ''ab12'' (StepName (BootPlan ''claude'' ! k)) k)
      \<lparr>cmd_id = ''boot-ab12-agent-ready-2'', cmd_payload = CmdAgentReady ''claude''\<rparr> \<and>
    (\<forall>j < k. \<exists>r \<in> set (incoming (stream sample_state)).
       resp_id r = buildCommandID ''boot'' ''ab12'' (StepName (BootPlan ''claude'' ! j)) j \<and>
       resp_payload r = RespDone 0)"
  using plan_step_order [OF prod.collapse [symmetric], of _ sample_state plan_env sample_target
      "BootPlan ''claude''" "''boot''"]
    sample_result_facts(3,4) [unfolded sample_result_def]
  by (simp add: sample_target_def sample_state_def)

end
