(* ===== verification/Agent_Dialer.thy ===== *)
theory Agent_Dialer
  imports Agent_Identity Agent_Plan_Runs
begin

text \<open>
  The control plane's outbound side, \<open>controlplane/agent/dialer.go\<close> with
  \<open>controlplane/agent/utils.go\<close>: the table of running dials, establishing a Session with retries, the
  classification of the peer's certificate against the registry, the register handshake, and the
  cycle that runs the init and boot plans and reconnects.

  The environment of each attempt and of each cycle is an argument: what Docker and the TLS dial
  answered, which contexts had ended, what the clock said. The registry is read at two moments,
  before and after the agent's own Register call, so its two states are arguments. A jittered
  sleep is an argument below its bound.
\<close>

section \<open>Decisions on the Hello answer\<close>

definition shouldAgentInit :: "HelloAck option \<Rightarrow> string + bool" where
  "shouldAgentInit ack =
     (case ack of
        None \<Rightarrow> Inl ''missing HelloAck in establishResult''
      | Some a \<Rightarrow> Inr (if CmdRunning a then False else \<not> Initialized a))"

definition agentInitBypassed :: "HelloAck option \<Rightarrow> bool" where
  "agentInitBypassed ack \<longleftrightarrow> (case ack of None \<Rightarrow> False | Some a \<Rightarrow> CmdRunning a \<and> \<not> Initialized a)"

definition shouldAgentBoot :: "HelloAck option \<Rightarrow> string + bool" where
  "shouldAgentBoot ack =
     (case ack of
        None \<Rightarrow> Inl ''missing HelloAck in establishResult''
      | Some a \<Rightarrow> Inr (\<not> CmdRunning a))"

section \<open>Establishing a session\<close>

definition connectInitialBackoff :: int where
  "connectInitialBackoff = 500000000"

definition connectMaxBackoff :: int where
  "connectMaxBackoff = 10 * second"

text \<open>The sleep is drawn below the backoff; \<open>draw\<close> is the random number.\<close>

definition backoffSleep :: "int \<Rightarrow> int \<Rightarrow> int" where
  "backoffSleep draw backoff = (if backoff \<le> 0 then 0 else draw mod backoff)"

definition nextBackoff :: "int \<Rightarrow> int" where
  "nextBackoff backoff =
     (let b = backoff * 2 in if b > connectMaxBackoff then connectMaxBackoff else b)"

datatype resolve_error = NotFound | ContainerStopped | InspectErr string

definition resolveAgent :: "(resolve_error + InspectResponse) \<Rightarrow> resolve_error + InspectResponse" where
  "resolveAgent res =
     (case res of
        Inl e \<Rightarrow> Inl e
      | Inr c \<Rightarrow> if Running c = Some True then Inr c else Inl ContainerStopped)"

definition JoinHostPort :: "string \<Rightarrow> string \<Rightarrow> string" where
  "JoinHostPort host port =
     (if CHR '':'' \<in> set host \<or> CHR ''%'' \<in> set host then ''['' @ host @ '']:'' @ port
      else host @ '':'' @ port)"

definition DefaultClawkerdPort :: int where
  "DefaultClawkerdPort = 7700"

definition clawkerNetAddr :: "InspectResponse \<Rightarrow> string option" where
  "clawkerNetAddr c =
     (case endpoint_addr c of
        None \<Rightarrow> None
      | Some (a, z) \<Rightarrow>
          if z \<noteq> [] then None
          else Some (JoinHostPort (IP_String (addr_bytes (fst (Unmap (a, z))))) (Itoa DefaultClawkerdPort)))"

definition agentLabels :: "InspectResponse \<Rightarrow> string \<times> string" where
  "agentLabels c = (label c LabelAgent, label c LabelProject)"

datatype EstablishOutcome =
  OutcomeSuccess | outcomeContainerGone | outcomeAddrInvalid | outcomeRetryExhausted | outcomeCtxDone

record PeerInfo =
  PeerAgentFullName :: string
  PeerThumbprint :: thumbprint
  ChainVerified :: bool
  CaptureReason :: string

record EstablishResult =
  er_HelloAck :: "HelloAck option"
  er_Agent :: string
  er_Project :: string
  er_Addr :: string
  er_Attempt :: nat
  er_Outcome :: EstablishOutcome
  er_PeerInfo :: "PeerInfo option"

definition establish_result :: "nat \<Rightarrow> EstablishOutcome \<Rightarrow> EstablishResult" where
  "establish_result attempt out =
     \<lparr>er_HelloAck = None, er_Agent = [], er_Project = [], er_Addr = [], er_Attempt = attempt,
      er_Outcome = out, er_PeerInfo = None\<rparr>"

text \<open>What one attempt meets.\<close>

record attempt_env =
  ctx_done_before :: bool
  at_inspect :: "resolve_error + InspectResponse"
  at_dial :: "string + (HelloAck \<times> PeerInfo)"
  past_deadline :: bool
  ctx_done_sleeping :: bool

text \<open>The common end of both failures: give up after the deadline or when the context ends, else retry.\<close>

definition retry_or_stop :: "attempt_env \<Rightarrow> EstablishResult \<Rightarrow> EstablishResult option" where
  "retry_or_stop env base =
     (if past_deadline env then Some (base\<lparr>er_Outcome := outcomeRetryExhausted\<rparr>)
      else if ctx_done_sleeping env then Some (base\<lparr>er_Outcome := outcomeCtxDone\<rparr>)
      else None)"

definition handleResolveError :: "attempt_env \<Rightarrow> nat \<Rightarrow> resolve_error \<Rightarrow> EstablishResult option" where
  "handleResolveError env attempt e =
     (case e of
        InspectErr _ \<Rightarrow> retry_or_stop env (establish_result attempt outcomeRetryExhausted)
      | _ \<Rightarrow> Some (establish_result attempt outcomeContainerGone))"

definition handleDialError ::
  "attempt_env \<Rightarrow> string \<Rightarrow> string \<Rightarrow> string \<Rightarrow> nat \<Rightarrow> EstablishResult option" where
  "handleDialError env agent prj addr attempt =
     retry_or_stop env
       ((establish_result attempt outcomeRetryExhausted)
          \<lparr>er_Agent := agent, er_Project := prj, er_Addr := addr\<rparr>)"

text \<open>
  One attempt: a final result, or nothing to retry; and the dial it announces, by agent, project and
  address, once it knows the address.
\<close>

type_synonym announcement = "string \<times> string \<times> string"

definition attemptEstablish :: "attempt_env \<Rightarrow> nat \<Rightarrow> EstablishResult option \<times> announcement option" where
  "attemptEstablish env attempt =
     (case resolveAgent (at_inspect env) of
        Inl e \<Rightarrow> (handleResolveError env attempt e, None)
      | Inr c \<Rightarrow>
          (let (agent, prj) = agentLabels c in
           case clawkerNetAddr c of
             None \<Rightarrow>
               (Some ((establish_result attempt outcomeAddrInvalid)
                        \<lparr>er_Agent := agent, er_Project := prj\<rparr>), None)
           | Some addr \<Rightarrow>
               (case at_dial env of
                  Inr (ack, pinfo) \<Rightarrow>
                    (Some \<lparr>er_HelloAck = Some ack, er_Agent = agent, er_Project = prj,
                           er_Addr = addr, er_Attempt = attempt, er_Outcome = OutcomeSuccess,
                           er_PeerInfo = Some pinfo\<rparr>, Some (agent, prj, addr))
                | Inl _ \<Rightarrow> (handleDialError env agent prj addr attempt, Some (agent, prj, addr)))))"

text \<open>
  The retry loop over the attempts' environments: the final result, what was announced (at most once,
  by the first attempt that could) and the backoff reached, or nothing while it still retries.
\<close>

fun establish_attempts ::
  "attempt_env list \<Rightarrow> nat \<Rightarrow> int \<Rightarrow> announcement option \<Rightarrow>
     (EstablishResult \<times> announcement option \<times> int) option" where
  "establish_attempts [] attempt backoff announced = None"
| "establish_attempts (env # envs) attempt backoff announced =
     (if ctx_done_before env then Some (establish_result attempt outcomeCtxDone, announced, backoff)
      else
        (case attemptEstablish env attempt of
           (res, ann) \<Rightarrow>
             (let announced = (if announced = None then ann else announced) in
              case res of
                Some r \<Rightarrow> Some (r, announced, backoff)
              | None \<Rightarrow> establish_attempts envs (Suc attempt) (nextBackoff backoff) announced)))"

definition establishWithRetry ::
  "attempt_env list \<Rightarrow> (EstablishResult \<times> announcement option \<times> int) option" where
  "establishWithRetry envs = establish_attempts envs 1 connectInitialBackoff None"

section \<open>The peer's certificate and the registry\<close>

text \<open>
  The handshake hook: parsing and chain verification are arguments. A peer with no certificate or one
  that does not parse keeps the zero fields.
\<close>

definition zero_peer :: PeerInfo where
  "zero_peer =
     \<lparr>PeerAgentFullName = [], PeerThumbprint = zero_thumbprint, ChainVerified = False, CaptureReason = []\<rparr>"

definition CapturePeer ::
  "(string \<Rightarrow> string + Certificate) \<Rightarrow> (Certificate list \<Rightarrow> string option) \<Rightarrow> (string \<Rightarrow> thumbprint) \<Rightarrow>
     string list \<Rightarrow> PeerInfo \<Rightarrow> PeerInfo" where
  "CapturePeer parse verify sum256 rawCerts pinfo =
     (let blame = (\<lambda>p reason. if CaptureReason p = [] then p\<lparr>CaptureReason := reason\<rparr> else p) in
      if rawCerts = [] then blame pinfo ''peer presented no certs''
      else
        (case find (\<lambda>c. isl (parse c)) rawCerts of
           Some c \<Rightarrow>
             (case parse c of
                Inl e \<Rightarrow> blame pinfo (''leaf parse failed: '' @ e)
              | Inr _ \<Rightarrow> pinfo)
         | None \<Rightarrow>
             (let certs = map (projr \<circ> parse) rawCerts; leaf = hd certs;
                  pinfo = pinfo\<lparr>PeerAgentFullName :=
                               (case AgentFullNameFromCert (Some leaf) of Inl _ \<Rightarrow> [] | Inr n \<Rightarrow> n),
                             PeerThumbprint := sum256 (hd rawCerts)\<rparr>
              in case verify certs of
                   None \<Rightarrow> pinfo\<lparr>ChainVerified := True\<rparr>
                 | Some e \<Rightarrow> blame pinfo (''chain verify: '' @ e))))"

datatype RegistryOutcome =
    OutcomeRegistryNotQueried | OutcomeRegistryMatch | OutcomeRegistryMiss
  | OutcomeRegistryThumbprintMismatch

definition ClassifyRegistry ::
  "'r Registry \<Rightarrow> db_fault \<Rightarrow> 'r \<Rightarrow> thumbprint \<Rightarrow> string \<Rightarrow> RegistryOutcome \<times> string" where
  "ClassifyRegistry R f r tp cid =
     (case LookupByContainerID R f r cid of
        Inr e \<Rightarrow>
          (if Thumbprint e \<noteq> tp then OutcomeRegistryThumbprintMismatch else OutcomeRegistryMatch, [])
      | Inl ErrUnknownAgent \<Rightarrow> (OutcomeRegistryMiss, [])
      | Inl (ErrMalformedEntry _) \<Rightarrow> (OutcomeRegistryMiss, [])
      | Inl (ErrInvalidEntry m) \<Rightarrow> (OutcomeRegistryNotQueried, ''registry lookup error: '' @ m)
      | Inl (ErrPersistence m) \<Rightarrow> (OutcomeRegistryNotQueried, ''registry lookup error: '' @ m))"

section \<open>The register handshake\<close>

definition dialAgent :: "string \<Rightarrow> EstablishResult \<Rightarrow> Agent" where
  "dialAgent cid res =
     \<lparr>ag_ContainerID = cid, ag_AgentName = er_Agent res, ag_Project = er_Project res\<rparr>"

definition registry_message :: "Action \<Rightarrow> Message" where
  "registry_message a = message RegistryEventType a"

definition publishRegisterFailure ::
  "string \<Rightarrow> EstablishResult \<Rightarrow> string \<Rightarrow> exec_state \<Rightarrow> exec_state" where
  "publishRegisterFailure cid res reason s =
     publish (dialAgent cid res)
       ((registry_message ActionUntrusted)\<lparr>m_Reason := ReasonRegisterFailed, m_Detail := reason\<rparr>)
       (publish (dialAgent cid res)
          ((registry_message ActionRegistered)\<lparr>m_RegisterOk := False, m_Detail := reason\<rparr>) s)"

text \<open>The loop of the receiving goroutine, up to the frame that answers the register command.\<close>

fun recv_register :: "recv_error \<Rightarrow> string \<Rightarrow> Response list \<Rightarrow> (string + payload) \<times> Response list" where
  "recv_register fin cmd [] =
     (Inl (case fin of EOF \<Rightarrow> ''EOF'' | RecvErr e \<Rightarrow> e), [])"
| "recv_register fin cmd (r # rs) =
     (if resp_id r = cmd then
        (case resp_payload r of
           RespRegisterDone ok e \<Rightarrow> (Inr (RespRegisterDone ok e), rs)
         | RespError code msg \<Rightarrow>
             (Inl (''clawkerd rejected RegisterRequired: '' @ ErrorCode_String code @ '': '' @ msg), rs)
         | _ \<Rightarrow> recv_register fin cmd rs)
      else recv_register fin cmd rs)"

definition handleRegisterResult :: "string + payload \<Rightarrow> string option" where
  "handleRegisterResult got =
     (case got of
        Inl e \<Rightarrow> Some (''Recv RegisterDone: '' @ e)
      | Inr (RespRegisterDone ok e) \<Rightarrow>
          if ok then None else Some (if e \<noteq> [] then e else ''clawkerd reported failure'')
      | Inr _ \<Rightarrow> Some ''clawkerd reported failure'')"

text \<open>
  The wait for \<open>RegisterDone\<close>. When it times out the stream is cancelled, so that nothing more is received
  from it.
\<close>

definition awaitRegisterDone :: "bool \<Rightarrow> string \<Rightarrow> Stream \<Rightarrow> string option \<times> Stream" where
  "awaitRegisterDone timed_out cmd s =
     (if timed_out then
        (Some (''RegisterDone timeout: '' @ ctx_String DeadlineExceeded),
         s\<lparr>incoming := [], final := RecvErr (ctx_String Canceled)\<rparr>)
      else
        (case recv_register (final s) cmd (incoming s) of
           (got, rs) \<Rightarrow> (handleRegisterResult got, s\<lparr>incoming := rs\<rparr>)))"

definition confirmRegisterRow ::
  "'r Registry \<Rightarrow> db_fault \<Rightarrow> 'r \<Rightarrow> string \<Rightarrow> EstablishResult \<Rightarrow> exec_state \<Rightarrow> exec_state" where
  "confirmRegisterRow R f r cid res s =
     (case LookupByContainerID R f r cid of
        Inr _ \<Rightarrow>
          publish (dialAgent cid res) ((registry_message ActionRegistered)\<lparr>m_RegisterOk := True\<rparr>) s
      | Inl ErrUnknownAgent \<Rightarrow>
          publishRegisterFailure cid res ''registry row missing after RegisterDone'' s
      | Inl _ \<Rightarrow>
          publishRegisterFailure cid res ''registry lookup error after RegisterDone'' s)"

definition DriveRegister ::
  "'r Registry \<Rightarrow> db_fault \<Rightarrow> 'r \<Rightarrow> bool \<Rightarrow> string \<Rightarrow> EstablishResult \<Rightarrow> exec_state \<Rightarrow> exec_state" where
  "DriveRegister R f r timed_out cid res s =
     (let cmd = ''register-'' @ cid in
      case Send (stream s) \<lparr>cmd_id = cmd, cmd_payload = CmdRegisterRequired\<rparr> of
        (Some e, str) \<Rightarrow>
          publishRegisterFailure cid res (''send RegisterRequired: '' @ e) (s\<lparr>stream := str\<rparr>)
      | (None, str) \<Rightarrow>
          (case awaitRegisterDone timed_out cmd str of
             (Some reason, str) \<Rightarrow> publishRegisterFailure cid res reason (s\<lparr>stream := str\<rparr>)
           | (None, str) \<Rightarrow> confirmRegisterRow R f r cid res (s\<lparr>stream := str\<rparr>)))"

definition peer_thumbprint :: "EstablishResult \<Rightarrow> thumbprint" where
  "peer_thumbprint res =
     (case er_PeerInfo res of None \<Rightarrow> zero_thumbprint | Some p \<Rightarrow> PeerThumbprint p)"

text \<open>What one session meets, apart from its stream.\<close>

record 'r cycle_env =
  reg_before :: 'r
  reg_after :: 'r
  classify_fault :: db_fault
  confirm_fault :: db_fault
  register_timeout :: bool
  announced :: "announcement option"
  connect_ctx_done :: bool
  has_executor :: bool
  init_env :: exec_env
  boot_env :: exec_env
  default_cmd :: string
  drain_ctx_done :: bool
  close_error :: bool

definition DispatchAgentEvents ::
  "'r Registry \<Rightarrow> 'r cycle_env \<Rightarrow> string \<Rightarrow> EstablishResult \<Rightarrow> exec_state \<Rightarrow> exec_state" where
  "DispatchAgentEvents R env cid res s =
     (case ClassifyRegistry R (classify_fault env) (reg_before env) (peer_thumbprint res) cid of
        (OutcomeRegistryMatch, _) \<Rightarrow> s
      | (OutcomeRegistryMiss, _) \<Rightarrow>
          DriveRegister R (confirm_fault env) (reg_after env) (register_timeout env) cid res s
      | (OutcomeRegistryThumbprintMismatch, _) \<Rightarrow>
          publish (dialAgent cid res)
            ((registry_message ActionUntrusted)\<lparr>m_Reason := ReasonThumbprintMismatch\<rparr>) s
      | (OutcomeRegistryNotQueried, detail) \<Rightarrow>
          publish (dialAgent cid res)
            ((registry_message ActionUntrusted)\<lparr>m_Reason := ReasonCertInvalid, m_Detail := detail\<rparr>) s)"

section \<open>A session\<close>

definition session_message :: "Action \<Rightarrow> Message" where
  "session_message a = message DialerEventType a"

definition publishConnecting :: "bool \<Rightarrow> string \<Rightarrow> announcement option \<Rightarrow> exec_state \<Rightarrow> exec_state" where
  "publishConnecting ctx_done cid ann s =
     (case ann of
        None \<Rightarrow> s
      | Some (agent, prj, addr) \<Rightarrow>
          if ctx_done then s
          else
            publish \<lparr>ag_ContainerID = cid, ag_AgentName = agent, ag_Project = prj\<rparr>
              ((session_message ActionConnecting)\<lparr>m_Address := addr\<rparr>) s)"

definition PublishConnected :: "bool \<Rightarrow> string \<Rightarrow> EstablishResult \<Rightarrow> exec_state \<Rightarrow> exec_state" where
  "PublishConnected ctx_done cid res s =
     (if ctx_done then s
      else
        publish (dialAgent cid res)
          ((session_message ActionConnected)
             \<lparr>m_Address := er_Addr res, m_Attempts := int (er_Attempt res), m_PeerThumbprint := peer_thumbprint res,
              m_PeerAgentFullName :=
                (case er_PeerInfo res of None \<Rightarrow> [] | Some p \<Rightarrow> PeerAgentFullName p)\<rparr>) s)"

definition publishFailed :: "bool \<Rightarrow> string \<Rightarrow> EstablishResult \<Rightarrow> string \<Rightarrow> exec_state \<Rightarrow> exec_state" where
  "publishFailed ctx_done cid res reason s =
     (if ctx_done then s
      else
        publish (dialAgent cid res)
          ((session_message ActionFailed)
             \<lparr>m_Address := er_Addr res, m_Attempts := int (er_Attempt res), m_Reason := ReasonFailed, m_Detail := reason\<rparr>) s)"

definition publishBroken :: "bool \<Rightarrow> string \<Rightarrow> EstablishResult \<Rightarrow> string \<Rightarrow> exec_state \<Rightarrow> exec_state" where
  "publishBroken ctx_done cid res reason s =
     (if ctx_done then s
      else publish (dialAgent cid res) ((session_message ActionBroken)\<lparr>m_Address := er_Addr res, m_Detail := reason\<rparr>) s)"

definition runPlan ::
  "bool \<Rightarrow> exec_env \<Rightarrow> string \<Rightarrow> EstablishResult \<Rightarrow> Step list \<Rightarrow> string \<Rightarrow> exec_state \<Rightarrow> exec_state" where
  "runPlan executor env cid res plan name s =
     (if \<not> executor then s
      else
        snd (Run env \<lparr>x_ContainerID = cid, x_AgentName = er_Agent res, x_Project = er_Project res\<rparr>
               plan name s))"

definition imageDefaultCmd :: "string + string \<Rightarrow> (string \<Rightarrow> string + string list option) \<Rightarrow> string" where
  "imageDefaultCmd container_image image_cmd =
     (case container_image of
        Inl _ \<Rightarrow> []
      | Inr img \<Rightarrow>
          (case image_cmd img of
             Inr (Some (c # _)) \<Rightarrow> c
           | _ \<Rightarrow> []))"

text \<open>The body of a cycle after establishing, up to the drain.\<close>

definition session_body ::
  "'r Registry \<Rightarrow> 'r cycle_env \<Rightarrow> string \<Rightarrow> EstablishResult \<Rightarrow> exec_state \<Rightarrow> exec_state" where
  "session_body R env cid res s =
     (let s = PublishConnected (connect_ctx_done env) cid res s;
          s = DispatchAgentEvents R env cid res s;
          s = (if shouldAgentInit (er_HelloAck res) = Inr True
               then runPlan (has_executor env) (init_env env) cid res InitPlan ''init'' s else s);
          s = (if shouldAgentBoot (er_HelloAck res) = Inr True
               then runPlan (has_executor env) (boot_env env) cid res (BootPlan (default_cmd env)) ''boot'' s
               else s)
      in if agentInitBypassed (er_HelloAck res)
         then publish (dialAgent cid res)
                ((registry_message ActionUntrusted)
                   \<lparr>m_Reason := ReasonInitBypassed, m_Detail := ''cmd_running without initialized''\<rparr>) s
         else s)"

datatype drainOutcome = DrainGracefulEOF | DrainCtxCanceled | DrainStreamErr

definition drainStream :: "bool \<Rightarrow> Stream \<Rightarrow> drainOutcome \<times> string" where
  "drainStream ctx_done s =
     (case final s of
        EOF \<Rightarrow> (DrainGracefulEOF, ''eof'')
      | RecvErr e \<Rightarrow> if ctx_done then (DrainCtxCanceled, ''ctx_done'') else (DrainStreamErr, e))"

definition ShouldReconnect :: "bool \<Rightarrow> drainOutcome \<Rightarrow> bool" where
  "ShouldReconnect ctx_done d \<longleftrightarrow> \<not> ctx_done \<and> d \<noteq> DrainCtxCanceled"

definition CloseErrCeiling :: nat where
  "CloseErrCeiling = 5"

definition CloseAndCheckLeak :: "bool \<Rightarrow> nat \<Rightarrow> bool \<times> nat" where
  "CloseAndCheckLeak close_err count =
     (if close_err then (Suc count \<ge> CloseErrCeiling, Suc count) else (False, 0))"

text \<open>
  The dial loop over its cycles. A cycle is what establishing returned, the environment of the session
  and the stream it opened; the list ends where the dial's context ends at the head of the loop. The
  result is the state and the number of consecutive close failures.
\<close>

fun run_cycles ::
  "'r Registry \<Rightarrow> string \<Rightarrow> (EstablishResult \<times> 'r cycle_env \<times> Stream) list \<Rightarrow> nat \<Rightarrow> exec_state \<Rightarrow>
     exec_state \<times> nat" where
  "run_cycles R cid [] count s = (s, count)"
| "run_cycles R cid ((res, env, str) # cs) count s =
     (let s = publishConnecting (connect_ctx_done env) cid (announced env) s in
      case er_Outcome res of
        outcomeCtxDone \<Rightarrow> (s, count)
      | outcomeContainerGone \<Rightarrow>
          (publishFailed (connect_ctx_done env) cid res ''container_not_running'' s, count)
      | outcomeAddrInvalid \<Rightarrow>
          (publishFailed (connect_ctx_done env) cid res ''clawker_net_endpoint_missing'' s, count)
      | outcomeRetryExhausted \<Rightarrow>
          (publishFailed (connect_ctx_done env) cid res ''connect_total_timeout'' s, count)
      | OutcomeSuccess \<Rightarrow>
          (let s = session_body R env cid res (s\<lparr>stream := str\<rparr>);
               (d, reason) = drainStream (drain_ctx_done env) (stream s);
               (leak, count) = CloseAndCheckLeak (close_error env) count
           in if leak then
                (publishFailed (drain_ctx_done env) cid res
                   (''fd-leak-ceiling: '' @ Itoa (int count) @ '' consecutive close failures'') s, count)
              else if \<not> ShouldReconnect (drain_ctx_done env) d then (s, count)
              else run_cycles R cid cs count (publishBroken (drain_ctx_done env) cid res reason s)))"

definition runDial ::
  "'r Registry \<Rightarrow> string \<Rightarrow> (EstablishResult \<times> 'r cycle_env \<times> Stream) list \<Rightarrow> exec_state \<Rightarrow> exec_state" where
  "runDial R cid cs s = fst (run_cycles R cid cs 0 s)"

section \<open>The table of running dials\<close>

text \<open>
  \<open>Dialing\<close> maps a container id to the goroutine that dials it, \<open>goroutines\<close> holds the running ones with
  their container and whether their context was cancelled, \<open>next_id\<close> numbers them. Every critical
  section is one step; a goroutine ends with its deferred removal from the table.
\<close>

record dial_table =
  Dialing :: "string \<rightharpoonup> nat"
  goroutines :: "nat \<rightharpoonup> string \<times> bool"
  next_id :: nat

definition no_dials :: dial_table where
  "no_dials = \<lparr>Dialing = Map.empty, goroutines = Map.empty, next_id = 0\<rparr>"

definition DialAgent :: "string \<Rightarrow> dial_table \<Rightarrow> dial_table" where
  "DialAgent cid d =
     (if Dialing d cid \<noteq> None then d
      else d\<lparr>Dialing := (Dialing d)(cid \<mapsto> next_id d),
             goroutines := (goroutines d)(next_id d \<mapsto> (cid, False)), next_id := Suc (next_id d)\<rparr>)"

definition CancelDial :: "string \<Rightarrow> dial_table \<Rightarrow> dial_table" where
  "CancelDial cid d =
     (case Dialing d cid of
        None \<Rightarrow> d
      | Some g \<Rightarrow> d\<lparr>goroutines := (goroutines d)(g \<mapsto> (cid, True))\<rparr>)"

definition dial_exit :: "nat \<Rightarrow> dial_table \<Rightarrow> dial_table" where
  "dial_exit g d =
     (case goroutines d g of
        None \<Rightarrow> d
      | Some (cid, _) \<Rightarrow>
          d\<lparr>Dialing := (Dialing d)(cid := None), goroutines := (goroutines d)(g := None)\<rparr>)"

inductive dial_reach :: "dial_table \<Rightarrow> bool" where
  init: "dial_reach no_dials"
| dial: "dial_reach d \<Longrightarrow> dial_reach (DialAgent cid d)"
| cancel: "dial_reach d \<Longrightarrow> dial_reach (CancelDial cid d)"
| finish: "dial_reach d \<Longrightarrow> dial_reach (dial_exit g d)"

end
