(* ===== verification/Agent_Trust.thy ===== *)
theory Agent_Trust
  imports Agent_Register Agent_Dialer
begin

text \<open>
  How registration, sessions and the worldview fit together: what restores an agent's trust, how
  the dialer classifies what the agent listener registered, the table of running dials, the bounds of
  the retry and reconnect loops, and what a failed initialisation does not prevent.
\<close>

section \<open>The trust axis\<close>

text \<open>The events that make an agent trusted again.\<close>

definition restores_trust :: "AgentEvent \<Rightarrow> bool" where
  "restores_trust e \<longleftrightarrow>
     m_Type (ev_Message e) = RegistryEventType \<and>
     (m_Action (ev_Message e) = ActionRegistered \<and> m_RegisterOk (ev_Message e) \<or>
      m_Action (ev_Message e) = ActionUntrusted \<and> m_Reason (ev_Message e) = ReasonNone)"

lemma project_untrusted:
  assumes "untrusted (s_Trust (lookup_state w c))" "\<not> restores_trust (fst evt)"
  shows "untrusted (s_Trust (lookup_state (project evt w) c))"
proof (cases "ag_ContainerID (ev_Agent (fst evt)) = c \<and> c \<noteq> []")
  case True
  with assms show ?thesis
    by (cases evt) (auto simp: project_def Let_def lookup_state_def project_state_axes
        restores_trust_def Untrust_def split: option.splits Action.splits)
next
  case False
  with assms(1) show ?thesis by (cases evt) (auto simp: project_def Let_def lookup_state_def)
qed

lemma fold_project_untrusted:
  assumes "untrusted (s_Trust (lookup_state w c))" "\<forall>evt \<in> set evts. \<not> restores_trust (fst evt)"
  shows "untrusted (s_Trust (lookup_state (fold project evts w) c))"
  using assms by (induction evts arbitrary: w) (auto simp: project_untrusted)

section \<open>What a session publishes\<close>

text \<open>The events a function adds, all satisfying a predicate.\<close>

definition adds :: "(AgentEvent \<Rightarrow> bool) \<Rightarrow> exec_state \<Rightarrow> exec_state \<Rightarrow> bool" where
  "adds P s s' \<longleftrightarrow> (\<exists>new. events s' = events s @ new \<and> list_all P new)"

lemma adds_refl [simp]: "adds P s s"
  by (simp add: adds_def)

lemma adds_trans: "adds P s s1 \<Longrightarrow> adds P s1 s2 \<Longrightarrow> adds P s s2"
  by (auto simp: adds_def)

lemma adds_publish: "adds P s (publish g m s) \<longleftrightarrow> P \<lparr>ev_Agent = g, ev_Message = m\<rparr>"
  by (auto simp: adds_def)

lemma adds_mono: "adds P s s' \<Longrightarrow> (\<And>e. P e \<Longrightarrow> Q e) \<Longrightarrow> adds Q s s'"
  by (auto simp: adds_def list_all_iff)

abbreviation exec_event :: "AgentEvent \<Rightarrow> bool" where
  "exec_event e \<equiv> m_Type (ev_Message e) = ExecutorEventType"

lemma adds_exec_publish:
  "m_Type m = ExecutorEventType \<Longrightarrow> events s' = events s @ [\<lparr>ev_Agent = g, ev_Message = m\<rparr>] \<Longrightarrow>
     adds exec_event s s'"
  by (auto simp: adds_def)

lemma reportStepFailure_adds:
  assumes "reportStepFailure env t nm i st out err s = (e, s')"
  shows "adds exec_event s s'"
  using assms
  by (auto simp: reportStepFailure_def Let_def exec_message_def message_def adds_def
      dest!: KillAfterGrace_simps split: option.splits prod.splits)

lemma run_steps_adds:
  assumes "run_steps env t nm n i sts s = (err, s')"
  shows "adds exec_event s s'"
  using assms
proof (induction sts arbitrary: i s)
  case Nil
  then show ?case by (auto simp: adds_def exec_message_def message_def)
next
  case (Cons st sts)
  let ?s = "announceStepStarted t i n st s"
  have started: "adds exec_event s ?s"
    by (simp add: announceStepStarted_def adds_publish exec_message_def message_def)
  show ?case
  proof (cases "step_panic env i")
    case (Some p)
    then show ?thesis using Cons.prems started
      by (auto simp: handleRunPanic_def Let_def exec_message_def message_def adds_def)
  next
    case None
    obtain out e str where run:
      "runStep (ctx_err env) (stream ?s) (x_ContainerID t) nm i st = ((out, e), str)"
      by (metis prod.collapse)
    have str: "adds exec_event s (?s\<lparr>stream := str\<rparr>)" using started by (simp add: adds_def)
    show ?thesis
    proof (cases "Failed out")
      case True
      obtain m s2 where rep: "reportStepFailure env t nm i st out e (?s\<lparr>stream := str\<rparr>) = (m, s2)"
        by fastforce
      with None run True Cons.prems have "s' = s2" by (auto simp: Let_def)
      with adds_trans [OF str reportStepFailure_adds [OF rep]] show ?thesis by simp
    next
      case False
      let ?s1 = "announceStepCompleted t i st out (?s\<lparr>stream := str\<rparr>)"
      from False None run Cons.prems have "run_steps env t nm n (Suc i) sts ?s1 = (err, s')"
        by (simp add: Let_def)
      from Cons.IH [OF this] have "adds exec_event ?s1 s'" .
      moreover have "adds exec_event (?s\<lparr>stream := str\<rparr>) ?s1"
        by (simp add: announceStepCompleted_def adds_publish exec_message_def message_def)
      ultimately show ?thesis using str adds_trans by blast
    qed
  qed
qed

lemma runPlan_adds: "adds exec_event s (runPlan executor env cid res plan name s)"
proof (cases executor)
  case True
  let ?t = "\<lparr>x_ContainerID = cid, x_AgentName = er_Agent res, x_Project = er_Project res\<rparr>"
  let ?s = "publish (target_agent ?t) ((exec_message ActionExecStarted)\<lparr>m_StepCount := int (length plan)\<rparr>) s"
  have "adds exec_event s ?s" by (simp add: adds_publish exec_message_def message_def)
  moreover have "adds exec_event ?s (snd (Run env ?t plan name s))"
    unfolding Run_def by (rule run_steps_adds [OF prod.collapse [symmetric]])
  ultimately show ?thesis using True adds_trans by (auto simp: runPlan_def)
qed (simp add: runPlan_def)

lemma exec_event_keeps: "exec_event e \<Longrightarrow> \<not> restores_trust e"
  by (simp add: restores_trust_def)

text \<open>Only the confirmation of a registration can restore trust.\<close>

definition confirmed :: "'r Registry \<Rightarrow> 'r cycle_env \<Rightarrow> string \<Rightarrow> EstablishResult \<Rightarrow> bool" where
  "confirmed R env cid res \<longleftrightarrow>
     fst (ClassifyRegistry R (classify_fault env) (reg_before env) (peer_thumbprint res) cid) =
       OutcomeRegistryMiss \<and>
     \<not> isl (LookupByContainerID R (confirm_fault env) (reg_after env) cid)"

lemma publishRegisterFailure_adds [simp]:
  "adds (\<lambda>e. \<not> restores_trust e) s (publishRegisterFailure cid res reason s)"
  "adds (\<lambda>e. \<not> restores_trust e) s (publishRegisterFailure cid res reason (s\<lparr>stream := str\<rparr>))"
  by (auto simp: adds_def publishRegisterFailure_def restores_trust_def registry_message_def message_def)

lemma DriveRegister_adds:
  assumes "isl (LookupByContainerID R f r cid)"
  shows "adds (\<lambda>e. \<not> restores_trust e) s (DriveRegister R f r timed_out cid res s)"
proof -
  have "adds (\<lambda>e. \<not> restores_trust e) s (confirmRegisterRow R f r cid res (s\<lparr>stream := str\<rparr>))" for str
    using assms by (auto simp: confirmRegisterRow_def split: sum.splits reg_error.splits)
  then show ?thesis
    by (simp add: DriveRegister_def Let_def split: prod.splits option.splits)
qed

lemma DispatchAgentEvents_adds:
  assumes "\<not> confirmed R env cid res"
  shows "adds (\<lambda>e. \<not> restores_trust e) s (DispatchAgentEvents R env cid res s)"
  using assms DriveRegister_adds
  by (auto simp: DispatchAgentEvents_def confirmed_def adds_publish restores_trust_def
      registry_message_def message_def split: prod.splits RegistryOutcome.splits)

lemma session_body_adds:
  assumes "\<not> confirmed R env cid res"
  shows "adds (\<lambda>e. \<not> restores_trust e) s (session_body R env cid res s)"
proof -
  let ?P = "\<lambda>e. \<not> restores_trust e"
  define s1 where "s1 = PublishConnected (connect_ctx_done env) cid res s"
  define s2 where "s2 = DispatchAgentEvents R env cid res s1"
  define s3 where "s3 = (if shouldAgentInit (er_HelloAck res) = Inr True
    then runPlan (has_executor env) (init_env env) cid res InitPlan ''init'' s2 else s2)"
  define s4 where "s4 = (if shouldAgentBoot (er_HelloAck res) = Inr True
    then runPlan (has_executor env) (boot_env env) cid res (BootPlan (default_cmd env)) ''boot'' s3 else s3)"
  note plan = adds_mono [OF runPlan_adds exec_event_keeps]
  have "adds ?P s s1"
    by (simp add: s1_def PublishConnected_def adds_publish restores_trust_def session_message_def message_def)
  moreover have "adds ?P s1 s2" using DispatchAgentEvents_adds [OF assms] by (simp add: s2_def)
  moreover have "adds ?P s2 s3" "adds ?P s3 s4" by (auto simp: s3_def s4_def intro: plan)
  moreover have "adds ?P s4 (session_body R env cid res s)"
    unfolding session_body_def Let_def s1_def [symmetric] s2_def [symmetric] s3_def [symmetric]
      s4_def [symmetric]
    by (simp add: adds_publish restores_trust_def registry_message_def message_def)
  ultimately show ?thesis using adds_trans by meson
qed

lemma session_untrusted:
  assumes "\<not> confirmed R env cid res" "untrusted (s_Trust (lookup_state w cid))"
  shows "untrusted (s_Trust (lookup_state
    (fold project (zip (drop (length (events s)) (events (session_body R env cid res s))) ts) w) cid))"
proof -
  obtain new where new: "events (session_body R env cid res s) = events s @ new"
    "list_all (\<lambda>e. \<not> restores_trust e) new"
    using session_body_adds [OF assms(1), of s] by (auto simp: adds_def)
  then have "\<forall>evt \<in> set (zip new ts). \<not> restores_trust (fst evt)"
    by (auto simp: list_all_iff dest: set_zip_leftD)
  then show ?thesis using fold_project_untrusted [OF assms(2)] new(1) by simp
qed

section \<open>Properties\<close>

text \<open>
  C9: an agent that was found untrusted becomes trusted again in a session only through the
  registry: the registry had no usable row for the container when the session began, and after
  the handshake it has a row. No certificate, Hello answer, plan result or failure restores trust.
\<close>

theorem trust_only_by_registration:
  assumes "sql_ok (reg_after env)" and "untrusted (s_Trust (lookup_state w cid))"
    and "IsTrusted (s_Trust (lookup_state (fold project
           (zip (drop (length (events s)) (events (session_body sqliteRegistry env cid res s))) ts) w) cid))"
  shows "fst (ClassifyRegistry sqliteRegistry (classify_fault env) (reg_before env) (peer_thumbprint res) cid) =
      OutcomeRegistryMiss \<and> sql_rows (reg_after env) cid \<noteq> None"
proof -
  have "confirmed sqliteRegistry env cid res"
    using session_untrusted [OF _ assms(2)] assms(3) unfolding IsTrusted_def by blast
  then show ?thesis
    using sql.lookup_sound [OF assms(1)] by (auto simp: confirmed_def isl_def) (metis sum.exhaust option.distinct(1))
qed

text \<open>
  Theorem: a session whose certificate matches the registered one leaves an untrusted agent
  untrusted, although its connection is announced.
\<close>

theorem match_keeps_untrusted:
  assumes "ClassifyRegistry R (classify_fault env) (reg_before env) (peer_thumbprint res) cid =
      (OutcomeRegistryMatch, detail)"
    and "untrusted (s_Trust (lookup_state w cid))"
  shows "untrusted (s_Trust (lookup_state (fold project
    (zip (drop (length (events s)) (events (session_body R env cid res s))) ts) w) cid))"
  by (rule session_untrusted [OF _ assms(2)]) (simp add: confirmed_def assms(1))

text \<open>
  Theorem: what the agent listener registered is what the dialer recognises. After a successful
  Register call, a session that presents the registered certificate is classified as a match,
  and one that presents a certificate with another digest as a mismatch.
\<close>

theorem registered_cert_classified:
  assumes "sql_ok t" and "\<And>x. length (sum256 x) = sha256_Size" and "resolved ctx = None"
    and "agent_rpc introspect peerLookup sum256 sqliteRegistry fs now ctx req t = (Inr Welcome, t')"
    and "peerLeafFromContext ctx = Inr leaf" and "ContainerIDFromCert (Some leaf) = Inr cid"
  shows "ClassifyRegistry sqliteRegistry DbOk t' tp cid =
    (if tp = sum256 (Raw leaf) then OutcomeRegistryMatch else OutcomeRegistryThumbprintMismatch, [])"
  using assms(3)
proof (cases rule: agent_rpc_cases [of ctx introspect peerLookup sum256 sqliteRegistry fs now req t])
  case (refused st)
  with assms(4) show ?thesis by simp
next
  case (row q tok res leaf' addr rc)
  then have "leaf' = leaf" "rc_ContainerID rc = cid" using assms(5,6) by auto
  with row(16) assms(4)
  have run: "register_row sqliteRegistry fs now rc (sum256 (Raw leaf)) t = (Inr Welcome, t')" by simp
  from sql.register_row_effect [OF assms(1) run assms(2)] obtain e where
    "sql_ok t'" "Thumbprint e = sum256 (Raw leaf)" "sql_rows t' cid = Some e"
    using \<open>rc_ContainerID rc = cid\<close> by auto
  with sql.lookup_total(1) show ?thesis by (auto simp: ClassifyRegistry_def)
qed
section \<open>The table of running dials\<close>

definition dials_ok :: "dial_table \<Rightarrow> bool" where
  "dials_ok d \<longleftrightarrow>
     (\<forall>c g. Dialing d c = Some g \<longleftrightarrow> (\<exists>b. goroutines d g = Some (c, b))) \<and>
     (\<forall>g. goroutines d g \<noteq> None \<longrightarrow> g < next_id d)"

lemma dials_ok_DialAgent: "dials_ok d \<Longrightarrow> dials_ok (DialAgent c d)"
  by (auto simp: dials_ok_def DialAgent_def) (metis less_irrefl option.distinct(1) less_SucI)+

lemma dials_ok_CancelDial: "dials_ok d \<Longrightarrow> dials_ok (CancelDial c d)"
  by (auto simp: dials_ok_def CancelDial_def split: option.splits)

lemma dials_ok_exit: "dials_ok d \<Longrightarrow> dials_ok (dial_exit g d)"
  by (auto simp: dials_ok_def dial_exit_def split: option.splits) (metis option.inject prod.inject)+

lemma dial_reach_ok: "dial_reach d \<Longrightarrow> dials_ok d"
  by (induction rule: dial_reach.induct)
    (simp_all add: dials_ok_DialAgent dials_ok_CancelDial dials_ok_exit, simp add: dials_ok_def no_dials_def)

text \<open>
  C32: two dials of the same container never run at the same time, in whatever order the boot
  poll, Docker events, cancellations and the ends of dials interleave; and the table lists
  exactly the containers that are being dialed.
\<close>

theorem one_dial_per_container:
  assumes "dial_reach d"
  shows "(goroutines d g = Some (c, b) \<and> goroutines d h = Some (c, b') \<longrightarrow> g = h) \<and>
    (Dialing d c \<noteq> None \<longleftrightarrow> (\<exists>g b. goroutines d g = Some (c, b)))"
  using dial_reach_ok [OF assms] unfolding dials_ok_def by (metis option.exhaust option.inject option.simps(3))

text \<open>
  Theorem: a restart can leave an agent without a dial. If a container is being dialed, its stop
  cancels that dial, and its start arrives before the cancelled dial has left the table, then the
  start is dropped as a duplicate: once the old dial ends, nothing dials the container.
\<close>

theorem restart_loses_dial:
  assumes "dial_reach d" and "Dialing d c = Some g"
  shows "let d' = dial_exit g (DialAgent c (CancelDial c d)) in
    Dialing d' c = None \<and> (\<forall>h b. goroutines d' h \<noteq> Some (c, b))"
proof -
  note ok = dial_reach_ok [OF assms(1)]
  have cancel: "Dialing (CancelDial c d) c = Some g" "goroutines (CancelDial c d) g = Some (c, True)"
    using assms(2) by (simp_all add: CancelDial_def)
  then have "DialAgent c (CancelDial c d) = CancelDial c d" by (simp add: DialAgent_def)
  moreover have "dials_ok (dial_exit g (CancelDial c d))"
    using ok by (simp add: dials_ok_CancelDial dials_ok_exit)
  moreover have "Dialing (dial_exit g (CancelDial c d)) c = None" using cancel by (simp add: dial_exit_def)
  ultimately show ?thesis by (simp add: Let_def dials_ok_def) (metis option.distinct(1))
qed

section \<open>Establishing and closing\<close>

lemma nextBackoff_bounds:
  "0 < b \<Longrightarrow> b \<le> connectMaxBackoff \<Longrightarrow> b \<le> nextBackoff b \<and> nextBackoff b \<le> connectMaxBackoff"
  by (simp add: nextBackoff_def Let_def connectMaxBackoff_def second_def)

lemma attempt_past_deadline:
  "past_deadline env \<Longrightarrow> fst (attemptEstablish env attempt) \<noteq> None"
  by (auto simp: attemptEstablish_def handleResolveError_def handleDialError_def retry_or_stop_def Let_def
      split: sum.splits option.splits prod.splits resolve_error.splits)

lemma establish_ends:
  assumes "list_ex past_deadline envs"
  shows "establish_attempts envs attempt backoff ann \<noteq> None"
  using assms
proof (induction envs arbitrary: attempt backoff ann)
  case (Cons env envs)
  then show ?case using attempt_past_deadline [of env attempt]
    by (auto simp: Let_def split: prod.splits option.splits)
qed simp

lemma establish_backoff:
  assumes "establish_attempts envs attempt backoff ann = Some (res, ann', b)"
    and "0 < backoff" "backoff \<le> connectMaxBackoff"
  shows "backoff \<le> b \<and> b \<le> connectMaxBackoff"
  using assms
proof (induction envs arbitrary: attempt backoff ann)
  case (Cons env envs)
  then show ?case using nextBackoff_bounds [of backoff]
    by (fastforce simp: Let_def split: if_splits prod.splits option.splits)
qed simp

text \<open>
  Theorem: connection attempts end. As soon as one attempt runs past the deadline the loop returns,
  whatever the daemon and the peer do, and the backoff it waited with stayed between half a second
  and ten seconds.
\<close>

theorem establish_bounded:
  assumes "list_ex past_deadline envs"
  shows "\<exists>res ann b. establishWithRetry envs = Some (res, ann, b) \<and> 500000000 \<le> b \<and> b \<le> 10 * second"
proof -
  obtain res ann b where run: "establishWithRetry envs = Some (res, ann, b)"
    using establish_ends [OF assms] unfolding establishWithRetry_def by fastforce
  with establish_backoff [of envs 1 connectInitialBackoff None res ann b] show ?thesis
    by (auto simp: establishWithRetry_def connectInitialBackoff_def connectMaxBackoff_def second_def)
qed

lemma run_cycles_leak:
  assumes "count < CloseErrCeiling"
  shows "snd (run_cycles R cid cs count s) \<le> CloseErrCeiling"
  using assms
proof (induction cs arbitrary: count s)
  case (Cons c cs)
  obtain res env str where c: "c = (res, env, str)" by (cases c)
  show ?case
    using Cons by (auto simp: c Let_def CloseAndCheckLeak_def CloseErrCeiling_def
        split: EstablishOutcome.splits prod.splits if_splits)
qed simp

text \<open>
  Theorem: over any number of reconnect cycles a dial gives up before more than five connections in a
  row could not be closed.
\<close>

theorem leaked_connections_bounded: "snd (run_cycles R cid cs 0 s) \<le> 5"
  using run_cycles_leak [of 0 R cid cs s] by (simp add: CloseErrCeiling_def)

section \<open>A failed initialisation\<close>

definition fresh_ack :: HelloAck where
  "fresh_ack = \<lparr>Initialized = False, CmdRunning = False\<rparr>"

definition sample_peer :: PeerInfo where
  "sample_peer =
     \<lparr>PeerAgentFullName = ''clawker.app.dev'', PeerThumbprint = pad_digest (Raw sample_cert),
      ChainVerified = True, CaptureReason = []\<rparr>"

definition sample_res :: EstablishResult where
  "sample_res =
     \<lparr>er_HelloAck = Some fresh_ack, er_Agent = ''dev'', er_Project = ''app'',
      er_Addr = ''172.18.0.5:7700'', er_Attempt = 1, er_Outcome = OutcomeSuccess,
      er_PeerInfo = Some sample_peer\<rparr>"

text \<open>A session with a registered agent, where the daemon refuses to kill the container.\<close>

definition wedged_env :: exec_env where
  "wedged_env =
     \<lparr>ctx_err = (\<lambda>_. None), step_panic = (\<lambda>_. None), self_exit = False,
      kill_err = Some ''daemon unreachable''\<rparr>"

definition sample_cycle :: "agents_table cycle_env" where
  "sample_cycle =
     \<lparr>reg_before = sample_table, reg_after = sample_table, classify_fault = DbOk, confirm_fault = DbOk,
      register_timeout = False, announced = None, connect_ctx_done = False, has_executor = True,
      init_env = wedged_env, boot_env = wedged_env, default_cmd = ''claude'', drain_ctx_done = False,
      close_error = False\<rparr>"









section \<open>Witnesses\<close>

definition running_ack :: HelloAck where
  "running_ack = \<lparr>Initialized = True, CmdRunning = True\<rparr>"

definition running_res :: EstablishResult where
  "running_res = sample_res\<lparr>er_HelloAck := Some running_ack\<rparr>"

definition distrusted :: AgentStore where
  "distrusted = [''ab12'' \<mapsto> zero_state\<lparr>s_ContainerID := ''ab12'', s_Trust := Untrust ReasonCertInvalid\<rparr>]"

definition register_stream :: exec_state where
  "register_stream =
     \<lparr>stream = \<lparr>incoming = [\<lparr>resp_id = ''register-ab12'', resp_payload = RespRegisterDone True []\<rparr>],
               final = EOF, outgoing = [], send_error = (\<lambda>_. None)\<rparr>,
      events = [], kills = []\<rparr>"

definition miss_cycle :: "agents_table cycle_env" where
  "miss_cycle = sample_cycle\<lparr>reg_before := []\<rparr>"

lemma distrusted_untrusted: "untrusted (s_Trust (lookup_state distrusted ''ab12''))"
  by code_simp

lemma registering_session:
  "IsTrusted (s_Trust (lookup_state (fold project
     (zip (drop (length (events register_stream))
        (events (session_body sqliteRegistry miss_cycle ''ab12'' running_res register_stream))) [1, 2])
     distrusted) ''ab12''))"
  by code_simp

text \<open>Theorem: a distrusted agent that registers again had no row and now has one.\<close>

theorem trust_only_by_registration_witness:
  "fst (ClassifyRegistry sqliteRegistry DbOk [] (peer_thumbprint running_res) ''ab12'') =
     OutcomeRegistryMiss \<and> sql_rows sample_table ''ab12'' \<noteq> None"
  using trust_only_by_registration [OF _ distrusted_untrusted registering_session] sample_table_ok(1)
  by (simp add: miss_cycle_def sample_cycle_def)

lemma sample_match:
  "ClassifyRegistry sqliteRegistry (classify_fault sample_cycle) (reg_before sample_cycle)
     (peer_thumbprint running_res) ''ab12'' = (OutcomeRegistryMatch, [])"
  by code_simp

text \<open>Theorem: the sample session matches the registry and leaves the agent distrusted.\<close>

theorem match_keeps_untrusted_witness:
  "untrusted (s_Trust (lookup_state (fold project
    (zip (drop (length (events register_stream))
       (events (session_body sqliteRegistry sample_cycle ''ab12'' running_res register_stream))) [1])
    distrusted) ''ab12''))"
  by (rule match_keeps_untrusted [OF sample_match distrusted_untrusted])

lemma sample_leaf:
  "peerLeafFromContext sample_ctx = Inr sample_cert" "ContainerIDFromCert (Some sample_cert) = Inr ''ab12''"
  by (simp add: peerLeafFromContext_def sample_ctx_def, code_simp)

text \<open>Theorem: the sample certificate is recognised after its registration, another digest is not.\<close>

theorem registered_cert_classified_witness:
  "ClassifyRegistry sqliteRegistry DbOk sample_table zero_thumbprint ''ab12'' =
     (OutcomeRegistryThumbprintMismatch, [])"
  using registered_cert_classified [OF _ pad_digest_length _ register_sample_run sample_leaf, of zero_thumbprint]
    sample_digest
  by (simp add: sql_ok_def sample_ctx_def)

text \<open>Theorem: one dial of the sample container runs.\<close>

theorem one_dial_per_container_witness:
  "Dialing (DialAgent ''ab12'' no_dials) ''ab12'' \<noteq> None \<longleftrightarrow>
     (\<exists>g b. goroutines (DialAgent ''ab12'' no_dials) g = Some (''ab12'', b))"
  using one_dial_per_container [OF dial_reach.dial [OF dial_reach.init], where c = "''ab12''"] by blast

text \<open>Theorem: stopping and starting the sample container loses its dial.\<close>

theorem restart_loses_dial_witness:
  "let d' = dial_exit 0 (DialAgent ''ab12'' (CancelDial ''ab12'' (DialAgent ''ab12'' no_dials))) in
    Dialing d' ''ab12'' = None \<and> (\<forall>h b. goroutines d' h \<noteq> Some (''ab12'', b))"
  by (rule restart_loses_dial [OF dial_reach.dial [OF dial_reach.init]]) (simp add: DialAgent_def no_dials_def)

text \<open>Theorem: two failed inspections, the second past the deadline, end the attempts.\<close>

theorem establish_bounded_witness:
  "\<exists>res ann b. establishWithRetry
     [\<lparr>ctx_done_before = False, at_inspect = Inl (InspectErr ''eof''), at_dial = Inl [], past_deadline = False,
       ctx_done_sleeping = False\<rparr>,
      \<lparr>ctx_done_before = False, at_inspect = Inl (InspectErr ''eof''), at_dial = Inl [], past_deadline = True,
       ctx_done_sleeping = False\<rparr>] = Some (res, ann, b) \<and> 500000000 \<le> b \<and> b \<le> 10 * second"
  by (rule establish_bounded) simp

end
