(* ===== verification/Labelled_Runs.thy ===== *)
theory Labelled_Runs
  imports Main
begin

text \<open>
  Runs of a program whose goroutines interleave, given by a step function on labels: a label names the
  goroutine that moves and what its environment answers, and a step that cannot happen has no result. A run
  takes the labels of a list one after the other. The second locale is for steps that also emit messages.
\<close>

locale labelled_runs =
  fixes step :: "'e \<Rightarrow> 's \<Rightarrow> 's option" and run :: "'e list \<Rightarrow> 's \<Rightarrow> 's option"
  assumes run_Nil: "run [] s = Some s"
    and run_Cons: "run (e # es) s = (case step e s of None \<Rightarrow> None | Some t \<Rightarrow> run es t)"
begin

lemma run_append: "run (es @ fs) s = (case run es s of None \<Rightarrow> None | Some t \<Rightarrow> run fs t)"
  by (induction es arbitrary: s) (auto simp: run_Nil run_Cons split: option.splits)

text \<open>What every step keeps holds along every run.\<close>

lemma run_invariant:
  assumes "run es s = Some t" and "P s" and "\<And>e s t. e \<in> set es \<Longrightarrow> P s \<Longrightarrow> step e s = Some t \<Longrightarrow> P t"
  shows "P t"
  using assms
proof (induction es arbitrary: s)
  case (Cons e es)
  then obtain u where u: "step e s = Some u" "run es u = Some t" by (auto simp: run_Cons split: option.splits)
  have "P u" by (rule Cons.prems(3) [OF list.set_intros(1) Cons.prems(2) u(1)])
  then show ?case by (rule Cons.IH [OF u(2)]) (rule Cons.prems(3) [OF list.set_intros(2)])
qed (simp add: run_Nil)

end

locale emitting_runs =
  fixes step :: "'e \<Rightarrow> 's \<Rightarrow> ('s \<times> 'm list) option" and run :: "'e list \<Rightarrow> 's \<Rightarrow> ('s \<times> 'm list) option"
  assumes run_Nil: "run [] s = Some (s, [])"
    and run_Cons: "run (e # es) s =
      (case step e s of None \<Rightarrow> None | Some (t, out) \<Rightarrow> map_option (\<lambda>(u, outs). (u, out @ outs)) (run es t))"
begin

lemma run_ConsE:
  assumes "run (e # es) s = Some (t, outs)"
  obtains u out rest where "step e s = Some (u, out)" "run es u = Some (t, rest)" "outs = out @ rest"
  using assms by (auto simp: run_Cons split: option.splits)

text \<open>An invariant of the state and of what was emitted so far.\<close>

lemma run_invariant:
  assumes "run es s = Some (t, outs)" and "P s fs"
    and "\<And>e s fs t out. e \<in> set es \<Longrightarrow> P s fs \<Longrightarrow> step e s = Some (t, out) \<Longrightarrow> P t (fs @ out)"
  shows "P t (fs @ outs)"
  using assms
proof (induction es arbitrary: s fs outs)
  case (Cons e es)
  obtain u out rest where u: "step e s = Some (u, out)" "run es u = Some (t, rest)" "outs = out @ rest"
    using Cons.prems(1) by (rule run_ConsE)
  have "P u (fs @ out)" by (rule Cons.prems(3) [OF list.set_intros(1) Cons.prems(2) u(1)])
  then have "P t ((fs @ out) @ rest)" by (rule Cons.IH [OF u(2)]) (rule Cons.prems(3) [OF list.set_intros(2)])
  then show ?case using u(3) by simp
qed (simp add: run_Nil)

lemma run_snoc:
  "run es s = Some (t, outs) \<Longrightarrow> step e t = Some (u, out) \<Longrightarrow> run (es @ [e]) s = Some (u, outs @ out)"
proof (induction es arbitrary: s outs)
  case Nil
  then show ?case by (simp add: run_Nil run_Cons)
next
  case (Cons a es)
  obtain x o1 o2 where "step a s = Some (x, o1)" "run es x = Some (t, o2)" "outs = o1 @ o2"
    using Cons.prems(1) by (rule run_ConsE)
  then show ?case using Cons.IH Cons.prems(2) by (simp add: run_Cons)
qed

end

end
