(* ===== verification/Clawkerd_Spawn.thy ===== *)
theory Clawkerd_Spawn
  imports Go_Prelude Labelled_Runs "HOL-Library.Word"
begin

unbundle bit_operations_syntax

text \<open>
  The supervisor of the container daemon: \<open>clawkerd/spawn.go\<close>, \<open>clawkerd/spawn_unix.go\<close> and the main
  loop of \<open>internal/clawkerd/cmd.go\<close>. The daemon is PID 1 of the agent container. It starts the user's
  command once, forwards signals to it, reaps it, drains the orphans it leaves behind and ends with
  the command's exit code.

  The goroutines (main loop, reaper, stop watchdog, signal forwarder, the \<open>AgentReady\<close> handlers) interleave:
  a labelled step function says what each does next and what the kernel answered. A closed channel is a
  flag. What the kernel and the file system answer (\<open>LookPath\<close>, \<open>Start\<close>, \<open>Getpgid\<close>, \<open>wait4\<close>, timers) is part of
  the label. Logging and the health marker file are left out. The signals sent are recorded.
\<close>

section \<open>Wait status\<close>

text \<open>\<open>syscall.WaitStatus\<close> on Linux: the low seven bits hold the terminating signal, the second byte the
  exit status.\<close>

type_synonym WaitStatus = "32 word"

definition ws_Exited :: "WaitStatus \<Rightarrow> bool" where
  "ws_Exited w \<longleftrightarrow> w AND 0x7F = 0"

definition ws_Signaled :: "WaitStatus \<Rightarrow> bool" where
  "ws_Signaled w \<longleftrightarrow> w AND 0x7F \<noteq> 0x7F \<and> w AND 0x7F \<noteq> 0"

definition ws_ExitStatus :: "WaitStatus \<Rightarrow> int" where
  "ws_ExitStatus w = (if ws_Exited w then uint (drop_bit 8 w AND 0xFF) else -1)"

definition ws_Signal :: "WaitStatus \<Rightarrow> int" where
  "ws_Signal w = (if ws_Signaled w then uint (w AND 0x7F) else -1)"

text \<open>A process state is a wait status, or a foreign system type with an exit code.\<close>

datatype ProcessState = Unix WaitStatus | ForeignSys int

fun ps_ExitCode :: "ProcessState \<Rightarrow> int" where
  "ps_ExitCode (Unix w) = ws_ExitStatus w"
| "ps_ExitCode (ForeignSys n) = n"

definition mapWaitStatus :: "WaitStatus \<Rightarrow> int" where
  "mapWaitStatus w =
     (if ws_Signaled w then 128 + ws_Signal w
      else if ws_Exited w then ws_ExitStatus w
      else 1)"

definition mapExitCode :: "ProcessState option \<Rightarrow> int" where
  "mapExitCode st =
     (case st of
        None \<Rightarrow> 1
      | Some ps \<Rightarrow>
          (let code = ps_ExitCode ps; rest = (if code \<ge> 0 then code else 1) in
           case ps of
             Unix w \<Rightarrow>
               if ws_Signaled w then 128 + ws_Signal w
               else if ws_Exited w then ws_ExitStatus w
               else rest
           | ForeignSys _ \<Rightarrow> rest))"

section \<open>The command to start\<close>

record ExecUser =
  eu_Name :: string
  eu_UID :: "32 word"
  eu_GID :: "32 word"
  eu_Groups :: "32 word list"
  eu_Home :: string

text \<open>The overrides are a Go map; its three possible keys differ, so the order of the loop over it only
  permutes the entries at the end.\<close>

definition user_overrides :: "ExecUser \<Rightarrow> (string \<times> string) list" where
  "user_overrides u =
     (if eu_Home u \<noteq> [] then [(''HOME'', eu_Home u)] else []) @
     (if eu_Name u \<noteq> [] then [(''USER'', eu_Name u), (''LOGNAME'', eu_Name u)] else [])"

definition env_kept :: "(string \<times> string) list \<Rightarrow> string \<Rightarrow> bool" where
  "env_kept ov e =
     (case cut_byte (CHR ''='') e of
        None \<Rightarrow> True
      | Some (key, _) \<Rightarrow> map_of ov key = None)"

definition envForUser :: "string list \<Rightarrow> ExecUser option \<Rightarrow> string list" where
  "envForUser env user =
     (case user of
        None \<Rightarrow> env
      | Some u \<Rightarrow>
          (let ov = user_overrides u in
           if ov = [] then env
           else filter (env_kept ov) env @ map (\<lambda>(k, v). k @ ''='' @ v) ov))"

text \<open>The arguments, the resolved path (empty when it was not looked up) and the cause of a rewrite.\<close>

definition routeArgs ::
  "string list \<Rightarrow> (string \<Rightarrow> string + string) \<Rightarrow> string \<Rightarrow> string list \<times> string \<times> string option" where
  "routeArgs argv lookPath defaultCmd =
     (case argv of
        [] \<Rightarrow> (argv, [], None)
      | first # _ \<Rightarrow>
          if defaultCmd = [] then (argv, [], None)
          else if HasPrefix first ''-'' then (defaultCmd # argv, [], None)
          else
            (case lookPath first of
               Inl e \<Rightarrow> (defaultCmd # argv, [], Some e)
             | Inr p \<Rightarrow> (argv, p, None)))"

record Credential =
  cr_Uid :: "32 word"
  cr_Gid :: "32 word"
  cr_Groups :: "32 word list"

record SysProcAttr =
  Setpgid :: bool
  Foreground :: bool
  Ctty :: int
  Cred :: "Credential option"

definition buildSysProcAttr :: "ExecUser option \<Rightarrow> int \<Rightarrow> SysProcAttr" where
  "buildSysProcAttr user cttyFd =
     \<lparr>Setpgid = True, Foreground = (cttyFd \<ge> 0), Ctty = (if cttyFd \<ge> 0 then cttyFd else 0),
      Cred = map_option (\<lambda>u. \<lparr>cr_Uid = eu_UID u, cr_Gid = eu_GID u, cr_Groups = eu_Groups u\<rparr>) user\<rparr>"

definition stdinCttyFd :: "bool \<Rightarrow> int" where
  "stdinCttyFd terminal = (if terminal then 0 else -1)"

record Cmd =
  cmd_Path :: string
  cmd_Args :: "string list"
  cmd_Env :: "string list"
  cmd_Attr :: SysProcAttr

record spawnConfig =
  sc_log :: bool
  sc_argv :: "string list"
  sc_env :: "string list"
  sc_user :: "ExecUser option"
  sc_terminal :: bool
  sc_defaultCmd :: string

definition DefaultEntry :: "string list \<Rightarrow> string list \<Rightarrow> bool \<Rightarrow> ExecUser option \<Rightarrow> string \<Rightarrow> spawnConfig" where
  "DefaultEntry args environ terminal user defaultCmd =
     \<lparr>sc_log = True, sc_argv = args, sc_env = environ, sc_user = user, sc_terminal = terminal,
      sc_defaultCmd = defaultCmd\<rparr>"

text \<open>What the kernel and the file system answer to one spawn attempt, and a panic before the start.\<close>

record spawn_env =
  se_lookPath :: "string \<Rightarrow> string + string"
  se_start :: "string + nat"
  se_getpgid :: "string + nat"
  se_panic :: "string option"

datatype spawn_error =
    errAlreadySpawned | errEmptyArgv | errNoLogger
  | errLookup string string | errStart string string | errGetpgid nat string

datatype reaper_error =
    errReaperPanic | errNoMainPid | errMainReaped nat | errWaitBudget nat string
  | errDrainBudget string | errUnreaped | errWatchdogPanic

text \<open>The command a configuration resolves to, or why there is none.\<close>

definition resolve_cmd :: "spawnConfig \<Rightarrow> (string \<Rightarrow> string + string) \<Rightarrow> spawn_error + Cmd" where
  "resolve_cmd cfg lookPath =
     (if \<not> sc_log cfg then Inl errNoLogger
      else if sc_argv cfg = [] then Inl errEmptyArgv
      else
        (let (routed, resolved, _) = routeArgs (sc_argv cfg) lookPath (sc_defaultCmd cfg);
             cmd = (\<lambda>p. \<lparr>cmd_Path = p, cmd_Args = routed, cmd_Env = envForUser (sc_env cfg) (sc_user cfg),
                         cmd_Attr = buildSysProcAttr (sc_user cfg) (stdinCttyFd (sc_terminal cfg))\<rparr>)
         in if resolved \<noteq> [] then Inr (cmd resolved)
            else if CHR ''/'' \<in> set (hd routed) then Inr (cmd (hd routed))
            else
              (case lookPath (hd routed) of
                 Inl e \<Rightarrow> Inl (errLookup (hd routed) e)
               | Inr p \<Rightarrow> Inr (cmd p))))"

section \<open>State of the supervisor\<close>

definition reaperRetryBudget :: nat where
  "reaperRetryBudget = 32"

definition orphanDrainRetryBudget :: nat where
  "orphanDrainRetryBudget = 32"

definition SIGTERM :: int where "SIGTERM = 15"

definition SIGKILL :: int where "SIGKILL = 9"

text \<open>The reaper: waiting for the main child (with the failures in a row), held at the gate, draining
  (with the failures in a row and the signals sent), or returned.\<close>

datatype reaper = RNone | RMain nat | RGate | RDrain nat bool bool | RExited

text \<open>Why the main loop left its select, and where it is.\<close>

datatype cause = Shutdown | ChildExited | ListenerFatal string | CommandExit int

datatype main_phase = MIdle | MAwait cause | MStopListener cause | MWait cause | MReturned cause int

record spawnState =
  runEntered :: bool
  spawnErr :: "spawn_error option"
  reaperErr :: "reaper_error option"
  proc :: "nat option"
  pgid :: nat
  finalWS :: "WaitStatus option"
  doneCh :: bool
  mainExitedCh :: bool
  orphanDrainCh :: bool
  stopOnce :: bool
  reaper :: reaper
  watchdog :: bool
  main :: main_phase
  launched :: "Cmd list"
  signals :: "(int \<times> int) list"

definition NewSpawnState :: spawnState where
  "NewSpawnState =
     \<lparr>runEntered = False, spawnErr = None, reaperErr = None, proc = None, pgid = 0, finalWS = None,
      doneCh = False, mainExitedCh = False, orphanDrainCh = False, stopOnce = False, reaper = RNone,
      watchdog = False, main = MIdle, launched = [], signals = []\<rparr>"

definition Spawned :: "spawnState \<Rightarrow> bool" where
  "Spawned s \<longleftrightarrow> proc s \<noteq> None"

definition BeginOrphanDrain :: "spawnState \<Rightarrow> spawnState" where
  "BeginOrphanDrain s = s\<lparr>orphanDrainCh := True\<rparr>"

definition closeAllGates :: "spawnState \<Rightarrow> spawnState" where
  "closeAllGates s = (BeginOrphanDrain (s\<lparr>mainExitedCh := True\<rparr>))\<lparr>doneCh := True\<rparr>"

definition setReaperErr :: "reaper_error \<Rightarrow> spawnState \<Rightarrow> spawnState" where
  "setReaperErr e s = (if reaperErr s = None then s\<lparr>reaperErr := Some e\<rparr> else s)"

definition SpawnErr :: "spawnState \<Rightarrow> (spawn_error + reaper_error) option" where
  "SpawnErr s =
     (case spawnErr s of
        Some e \<Rightarrow> Some (Inl e)
      | None \<Rightarrow> map_option Inr (reaperErr s))"

definition kill :: "int \<Rightarrow> int \<Rightarrow> spawnState \<Rightarrow> spawnState" where
  "kill target sig s = s\<lparr>signals := signals s @ [(target, sig)]\<rparr>"

section \<open>Starting the user's command\<close>

text \<open>A child whose process group cannot be read was started and killed again.\<close>

definition runOnce :: "spawnConfig \<Rightarrow> spawn_env \<Rightarrow> spawnState \<Rightarrow> spawn_error option \<times> spawnState" where
  "runOnce cfg env s =
     (case resolve_cmd cfg (se_lookPath env) of
        Inl e \<Rightarrow> (Some e, s)
      | Inr cmd \<Rightarrow>
          (case se_start env of
             Inl e \<Rightarrow> (Some (errStart (cmd_Path cmd) e), s)
           | Inr pid \<Rightarrow>
               (let s = s\<lparr>launched := launched s @ [cmd]\<rparr> in
                case se_getpgid env of
                  Inl e \<Rightarrow> (Some (errGetpgid pid e), kill (int pid) SIGKILL s)
                | Inr g \<Rightarrow> (None, s\<lparr>proc := Some pid, pgid := g, reaper := RMain 0\<rparr>))))"

datatype run_result = RunOk | RunErr spawn_error | RunPanic string

text \<open>Calls that lose the race for \<open>runEntered\<close> wait for the winner, so calls take effect one after the
  other. A panic leaves through the deferred close of \<open>runDoneCh\<close>, before the error is recorded.\<close>

definition Run_spawn :: "spawnConfig \<Rightarrow> spawn_env \<Rightarrow> spawnState \<Rightarrow> run_result \<times> spawnState" where
  "Run_spawn cfg env s =
     (if runEntered s then
        (RunErr (case spawnErr s of Some e \<Rightarrow> e | None \<Rightarrow> errAlreadySpawned), s)
      else
        (let s = s\<lparr>runEntered := True\<rparr> in
         case se_panic env of
           Some p \<Rightarrow> (RunPanic p, s)
         | None \<Rightarrow>
             (case runOnce cfg env s of
                (Some e, s) \<Rightarrow> (RunErr e, closeAllGates (s\<lparr>spawnErr := Some e\<rparr>))
              | (None, s) \<Rightarrow> (RunOk, s))))"

text \<open>\<open>Wait\<close>: no value while it blocks.\<close>

definition Wait :: "spawnState \<Rightarrow> int option" where
  "Wait s =
     (if \<not> Spawned s then Some 1
      else if \<not> doneCh s then None
      else Some (case finalWS s of None \<Rightarrow> 1 | Some ws \<Rightarrow> mapWaitStatus ws))"

section \<open>Stop, watchdog and signals\<close>

definition Stop_spawn :: "spawnState \<Rightarrow> spawnState" where
  "Stop_spawn s =
     (if proc s = None \<or> stopOnce s then s
      else (kill (- int (pgid s)) SIGTERM s)\<lparr>stopOnce := True, watchdog := True\<rparr>)"

definition runStopWatchdog :: "spawnState \<Rightarrow> spawnState" where
  "runStopWatchdog s =
     (if doneCh s then s\<lparr>watchdog := False\<rparr>
      else (kill (- int (pgid s)) SIGKILL s)\<lparr>watchdog := False\<rparr>)"

definition watchdog_panic :: "spawnState \<Rightarrow> spawnState" where
  "watchdog_panic s =
     closeAllGates (kill (- int (pgid s)) SIGKILL ((setReaperErr errWatchdogPanic s)\<lparr>watchdog := False\<rparr>))"

definition forwardableSignals :: "int list" where
  "forwardableSignals = [1, 2, 3, 15, 10, 12, 13, 14, 20, 18, 28]"

definition forward_signal :: "int \<Rightarrow> spawnState \<Rightarrow> spawnState" where
  "forward_signal sig s =
     (if sig \<notin> set forwardableSignals \<or> pgid s = 0 then s else kill (- int (pgid s)) sig s)"

section \<open>The reaper\<close>

datatype main_wait = MEintr | MEchild | MErr string | MAlive | MReaped WaitStatus

definition bail :: "reaper_error \<Rightarrow> spawnState \<Rightarrow> spawnState" where
  "bail e s = (closeAllGates (setReaperErr e s))\<lparr>reaper := RExited\<rparr>"

text \<open>One answer of \<open>wait4(mainPID)\<close> after \<open>n\<close> failures in a row.\<close>

fun reap_main :: "nat \<Rightarrow> main_wait \<Rightarrow> spawnState \<Rightarrow> spawnState" where
  "reap_main n MEintr s = s"
| "reap_main n MEchild s = bail (errMainReaped (the (proc s))) s"
| "reap_main n (MErr e) s =
     (if Suc n \<ge> reaperRetryBudget then bail (errWaitBudget (the (proc s)) e) s
      else s\<lparr>reaper := RMain (Suc n)\<rparr>)"
| "reap_main n MAlive s = s\<lparr>reaper := RMain 0\<rparr>"
| "reap_main n (MReaped ws) s = s\<lparr>finalWS := Some ws, mainExitedCh := True, reaper := RGate\<rparr>"

datatype orphan_wait = OEintr | OEchild | OErr string | ONone | OReaped

text \<open>The answers of \<open>wait4(-1)\<close> in one call; no value when they do not end it.\<close>

fun drainOrphans :: "orphan_wait list \<Rightarrow> (bool \<times> string option) option" where
  "drainOrphans [] = None"
| "drainOrphans (OEintr # ws) = drainOrphans ws"
| "drainOrphans (OReaped # ws) = drainOrphans ws"
| "drainOrphans (OEchild # ws) = Some (True, None)"
| "drainOrphans (OErr e # ws) = Some (False, Some e)"
| "drainOrphans (ONone # ws) = Some (False, None)"

text \<open>One round of the drain loop: the call's result, then the select, in which the escalation timer
  fired or not.\<close>

definition drain_round :: "nat \<Rightarrow> bool \<Rightarrow> bool \<Rightarrow> bool \<times> string option \<Rightarrow> bool \<Rightarrow> spawnState \<Rightarrow> spawnState" where
  "drain_round errs termSent killSent res timer s =
     (case res of (drained, err) \<Rightarrow>
        let errs = (if err = None then 0 else Suc errs) in
        if err \<noteq> None \<and> errs \<ge> orphanDrainRetryBudget then bail (errDrainBudget (the err)) s
        else if drained then s\<lparr>doneCh := True, reaper := RExited\<rparr>
        else if \<not> timer then s\<lparr>reaper := RDrain errs termSent killSent\<rparr>
        else if \<not> termSent then (kill (-1) SIGTERM s)\<lparr>reaper := RDrain errs True killSent\<rparr>
        else if \<not> killSent then (kill (-1) SIGKILL s)\<lparr>reaper := RDrain errs termSent True\<rparr>
        else bail errUnreaped s)"

section \<open>The daemon's steps\<close>

datatype event =
    AgentReadyRun spawnConfig spawn_env
  | WaitMain main_wait
  | PassGate
  | DrainRound "orphan_wait list" bool
  | ReaperPanic
  | WatchdogTimer
  | WatchdogPanic
  | Signal_received int
  | Select cause
  | SeeMainExited
  | ListenerStopped
  | WaitReturns

text \<open>The exit code the main loop ends with: the command's own, or the one a fatal command asked for.
  \<open>Main\<close> turns a zero into one when an error is reported with it.\<close>

definition exit_code :: "cause \<Rightarrow> int \<Rightarrow> spawnState \<Rightarrow> int" where
  "exit_code c code s =
     (let code = (case c of CommandExit n \<Rightarrow> n | _ \<Rightarrow> code);
          failed = (SpawnErr s \<noteq> None \<or> (case c of ListenerFatal _ \<Rightarrow> True | _ \<Rightarrow> False))
      in if failed \<and> code = 0 then 1 else code)"

text \<open>The select of the main loop: on a shutdown signal, a dead listener or a command's exit request, a
  running child is stopped and awaited.\<close>

definition main_select :: "cause \<Rightarrow> spawnState \<Rightarrow> spawnState option" where
  "main_select c s =
     (if c = ChildExited then
        (if mainExitedCh s then Some (s\<lparr>main := MStopListener c\<rparr>) else None)
      else if Spawned s then Some ((Stop_spawn s)\<lparr>main := MAwait c\<rparr>)
      else Some (s\<lparr>main := MStopListener c\<rparr>))"

fun dstep :: "event \<Rightarrow> spawnState \<Rightarrow> spawnState option" where
  "dstep (AgentReadyRun cfg env) s = Some (snd (Run_spawn cfg env s))"
| "dstep (WaitMain w) s = (case reaper s of RMain n \<Rightarrow> Some (reap_main n w s) | _ \<Rightarrow> None)"
| "dstep PassGate s =
     (if reaper s = RGate \<and> orphanDrainCh s then Some (s\<lparr>reaper := RDrain 0 False False\<rparr>) else None)"
| "dstep (DrainRound ws timer) s =
     (case reaper s of
        RDrain errs t k \<Rightarrow> map_option (\<lambda>res. drain_round errs t k res timer s) (drainOrphans ws)
      | _ \<Rightarrow> None)"
| "dstep ReaperPanic s = (if reaper s \<in> {RNone, RExited} then None else Some (bail errReaperPanic s))"
| "dstep WatchdogTimer s = (if watchdog s then Some (runStopWatchdog s) else None)"
| "dstep WatchdogPanic s = (if watchdog s then Some (watchdog_panic s) else None)"
| "dstep (Signal_received sig) s = (if Spawned s \<and> \<not> doneCh s then Some (forward_signal sig s) else None)"
| "dstep (Select c) s = (if main s = MIdle then main_select c s else None)"
| "dstep SeeMainExited s =
     (case main s of
        MAwait c \<Rightarrow> if mainExitedCh s then Some (s\<lparr>main := MStopListener c\<rparr>) else None
      | _ \<Rightarrow> None)"
| "dstep ListenerStopped s =
     (case main s of
        MStopListener c \<Rightarrow> Some ((BeginOrphanDrain s)\<lparr>main := MWait c\<rparr>)
      | _ \<Rightarrow> None)"
| "dstep WaitReturns s =
     (case main s of
        MWait c \<Rightarrow> map_option (\<lambda>code. s\<lparr>main := MReturned c (exit_code c code s)\<rparr>) (Wait s)
      | _ \<Rightarrow> None)"

fun dsteps :: "event list \<Rightarrow> spawnState \<Rightarrow> spawnState option" where
  "dsteps [] s = Some s"
| "dsteps (e # es) s = (case dstep e s of None \<Rightarrow> None | Some s' \<Rightarrow> dsteps es s')"


section \<open>Exit statuses\<close>





lemma mapExitCode_Unix: "ws_Exited w \<or> ws_Signaled w \<Longrightarrow> mapExitCode (Some (Unix w)) = mapWaitStatus w"
  by (auto simp: mapExitCode_def mapWaitStatus_def)

section \<open>The environment and the arguments of the command\<close>

definition has_key :: "string \<Rightarrow> string \<Rightarrow> bool" where
  "has_key k e \<longleftrightarrow> (\<exists>v. e = k @ CHR ''='' # v) \<and> CHR ''='' \<notin> set k"

lemma has_key_cut: "has_key k e \<Longrightarrow> \<exists>v. cut_byte (CHR ''='') e = Some (k, v)"
  by (auto simp: has_key_def cut_byte_append)

lemma has_key_unique: "has_key k e \<Longrightarrow> has_key k' e \<Longrightarrow> k = k'"
  using has_key_cut [of k e] has_key_cut [of k' e] by auto

lemma kept_drops_overridden: "has_key k e \<Longrightarrow> map_of ov k = Some v \<Longrightarrow> \<not> env_kept ov e"
  using has_key_cut [of k e] by (auto simp: env_kept_def)

lemma override_entries:
  assumes "distinct (map fst ov)" and "\<forall>kv \<in> set ov. CHR ''='' \<notin> set (fst kv)" and "map_of ov k = Some v"
  shows "filter (has_key k) (map (\<lambda>(k, v). k @ ''='' @ v) ov) = [k @ ''='' @ v]"
  using assms
proof (induction ov)
  case (Cons p ov)
  obtain a b where p: "p = (a, b)" by force
  have a: "has_key a (a @ CHR ''='' # b)" using Cons.prems p by (simp add: has_key_def)
  show ?case
  proof (cases "a = k")
    case True
    have "has_key k e \<Longrightarrow> e \<notin> set (map (\<lambda>(k, v). k @ ''='' @ v) ov)" for e
    proof
      assume h: "has_key k e" and m: "e \<in> set (map (\<lambda>(k, v). k @ ''='' @ v) ov)"
      obtain k' v' where q: "(k', v') \<in> set ov" "e = k' @ CHR ''='' # v'" using m by auto
      have "has_key k' e" using q Cons.prems(2) p by (auto simp: has_key_def)
      then have "k' = a" using h True has_key_unique by blast
      then show False using q(1) Cons.prems(1) p by force
    qed
    then have "filter (has_key k) (map (\<lambda>(k, v). k @ ''='' @ v) ov) = []" unfolding filter_empty_conv by blast
    then show ?thesis using Cons.prems(3) p True a by simp
  next
    case False
    have "\<not> has_key k (a @ CHR ''='' # b)" using a False has_key_unique by blast
    then show ?thesis using Cons p False by simp
  qed
qed simp

lemma user_overrides_wf:
  "distinct (map fst (user_overrides u))" "\<forall>kv \<in> set (user_overrides u). CHR ''='' \<notin> set (fst kv)"
  by (auto simp: user_overrides_def)

lemma envForUser_overridden:
  assumes "map_of (user_overrides u) k = Some v"
  shows "filter (has_key k) (envForUser env (Some u)) = [k @ ''='' @ v]"
proof -
  have ne: "user_overrides u \<noteq> []" using assms by auto
  have "filter (has_key k) (filter (env_kept (user_overrides u)) env) = []"
    using kept_drops_overridden [OF _ assms] by (auto simp: filter_empty_conv)
  then show ?thesis
    using override_entries [OF user_overrides_wf assms] ne by (simp add: envForUser_def Let_def)
qed

lemma routeArgs_runs:
  "routeArgs argv look d = (routed, p, err) \<Longrightarrow> routed = argv \<or> (routed = d # argv \<and> d \<noteq> [] \<and> p = [])"
  by (auto simp: routeArgs_def split: list.splits if_splits sum.splits)

section \<open>Invariants of the supervisor\<close>

interpretation supervisor: labelled_runs dstep dsteps
  by unfold_locales (simp_all split: option.split)

definition sane_event :: "event \<Rightarrow> bool" where
  "sane_event e = (case e of AgentReadyRun cfg env \<Rightarrow> (case se_getpgid env of Inr g \<Rightarrow> g > 1 | Inl _ \<Rightarrow> True) | _ \<Rightarrow> True)"

text \<open>The invariant, a group of fields at a time.\<close>

definition started_ok ::
  "bool \<Rightarrow> nat option \<Rightarrow> Cmd list \<Rightarrow> spawn_error option \<Rightarrow> nat \<Rightarrow> bool \<Rightarrow> bool" where
  "started_ok entered pr cmds err g dn \<longleftrightarrow>
     (\<not> entered \<longrightarrow> pr = None \<and> cmds = [] \<and> err = None \<and> \<not> dn) \<and> length cmds \<le> 1 \<and>
     (pr \<noteq> None \<longrightarrow> err = None \<and> g > 1)"

definition idle_ok ::
  "nat option \<Rightarrow> reaper \<Rightarrow> WaitStatus option \<Rightarrow> bool \<Rightarrow> bool \<Rightarrow> reaper_error option \<Rightarrow> bool" where
  "idle_ok pr r fin stop dog err \<longleftrightarrow>
     (r = RNone \<longleftrightarrow> pr = None) \<and> (pr = None \<longrightarrow> fin = None \<and> \<not> stop \<and> \<not> dog \<and> err = None)"

definition reap_ok :: "reaper \<Rightarrow> WaitStatus option \<Rightarrow> bool \<Rightarrow> bool \<Rightarrow> bool" where
  "reap_ok r fin gate dn =
     (case r of
        RMain _ \<Rightarrow> fin = None
      | RGate \<Rightarrow> fin \<noteq> None
      | RDrain _ _ _ \<Rightarrow> fin \<noteq> None \<and> gate
      | RExited \<Rightarrow> dn
      | RNone \<Rightarrow> True)"

definition gates_ok :: "nat option \<Rightarrow> reaper_error option \<Rightarrow> WaitStatus option \<Rightarrow> bool \<Rightarrow> bool \<Rightarrow> bool \<Rightarrow> bool" where
  "gates_ok pr err fin dn exited gate \<longleftrightarrow>
     (fin \<noteq> None \<longrightarrow> exited) \<and> (dn \<longrightarrow> exited \<and> gate) \<and> (dn \<and> pr \<noteq> None \<and> err = None \<longrightarrow> fin \<noteq> None)"

definition signals_ok :: "(int \<times> int) list \<Rightarrow> WaitStatus option \<Rightarrow> bool \<Rightarrow> bool" where
  "signals_ok sigs fin gate \<longleftrightarrow> -1 \<in> fst ` set sigs \<longrightarrow> fin \<noteq> None \<and> gate"

definition supervised :: "spawnState \<Rightarrow> bool" where
  "supervised s \<longleftrightarrow>
     started_ok (runEntered s) (proc s) (launched s) (spawnErr s) (pgid s) (doneCh s) \<and>
     idle_ok (proc s) (reaper s) (finalWS s) (stopOnce s) (watchdog s) (reaperErr s) \<and>
     reap_ok (reaper s) (finalWS s) (orphanDrainCh s) (doneCh s) \<and>
     gates_ok (proc s) (reaperErr s) (finalWS s) (doneCh s) (mainExitedCh s) (orphanDrainCh s) \<and>
     signals_ok (signals s) (finalWS s) (orphanDrainCh s)"

lemmas supervised_parts = started_ok_def idle_ok_def reap_ok_def gates_ok_def signals_ok_def

lemma supervised_start: "supervised NewSpawnState"
  by (simp add: supervised_def supervised_parts NewSpawnState_def)

lemma Run_spawn_cases:
  assumes "Run_spawn cfg env s = (r, t)"
  obtains (again) "runEntered s" "t = s" "r = RunErr (case spawnErr s of Some e \<Rightarrow> e | None \<Rightarrow> errAlreadySpawned)"
  | (panic) p where "\<not> runEntered s" "se_panic env = Some p" "t = s\<lparr>runEntered := True\<rparr>" "r = RunPanic p"
  | (unstarted) e where "\<not> runEntered s" "se_panic env = None" "r = RunErr e"
      "t = closeAllGates (s\<lparr>runEntered := True, spawnErr := Some e\<rparr>)"
  | (killed) e pid cmd where "\<not> runEntered s" "se_panic env = None" "r = RunErr e"
      "resolve_cmd cfg (se_lookPath env) = Inr cmd"
      "t = closeAllGates ((kill (int pid) SIGKILL (s\<lparr>runEntered := True, launched := launched s @ [cmd]\<rparr>))\<lparr>spawnErr := Some e\<rparr>)"
  | (ok) pid g cmd where "\<not> runEntered s" "se_panic env = None" "r = RunOk" "se_getpgid env = Inr g"
      "resolve_cmd cfg (se_lookPath env) = Inr cmd"
      "t = s\<lparr>runEntered := True, launched := launched s @ [cmd], proc := Some pid, pgid := g, reaper := RMain 0\<rparr>"
proof (cases "runEntered s")
  case True
  have "t = s" "r = RunErr (case spawnErr s of Some e \<Rightarrow> e | None \<Rightarrow> errAlreadySpawned)"
    using assms True by (auto simp: Run_spawn_def)
  then show thesis using True by (intro again)
next
  case new: False
  show thesis
  proof (cases "se_panic env")
    case (Some p)
    have "t = s\<lparr>runEntered := True\<rparr>" "r = RunPanic p" using assms new Some by (simp_all add: Run_spawn_def Let_def)
    then show thesis using new Some by (intro panic)
  next
    case np: None
    note run = assms [unfolded Run_spawn_def] new np
    show thesis
    proof (cases "resolve_cmd cfg (se_lookPath env)")
      case (Inl e)
      have "t = closeAllGates (s\<lparr>runEntered := True, spawnErr := Some e\<rparr>)" "r = RunErr e"
        using run Inl by (auto simp: runOnce_def Let_def)
      then show thesis using new np by (intro unstarted)
    next
      case cmd: (Inr cmd)
      show thesis
      proof (cases "se_start env")
        case (Inl e)
        have "t = closeAllGates (s\<lparr>runEntered := True, spawnErr := Some (errStart (cmd_Path cmd) e)\<rparr>)"
          "r = RunErr (errStart (cmd_Path cmd) e)"
          using run cmd Inl by (auto simp: runOnce_def Let_def)
        then show thesis using new np by (intro unstarted)
      next
        case start: (Inr pid)
        show thesis
        proof (cases "se_getpgid env")
          case (Inl e)
          have "t = closeAllGates ((kill (int pid) SIGKILL (s\<lparr>runEntered := True, launched := launched s @ [cmd]\<rparr>))\<lparr>spawnErr := Some (errGetpgid pid e)\<rparr>)"
            "r = RunErr (errGetpgid pid e)"
            using run cmd start Inl by (auto simp: runOnce_def Let_def)
          then show thesis using new np cmd by (intro killed)
        next
          case (Inr g)
          have "t = s\<lparr>runEntered := True, launched := launched s @ [cmd], proc := Some pid, pgid := g, reaper := RMain 0\<rparr>"
            "r = RunOk"
            using run cmd start Inr by (auto simp: runOnce_def Let_def)
          then show thesis using new np cmd Inr by (intro ok)
        qed
      qed
    qed
  qed
qed

lemma supervised_Run:
  assumes "supervised s" and "sane_event (AgentReadyRun cfg env)" and "Run_spawn cfg env s = (r, t)"
  shows "supervised t"
  using assms(3)
proof (cases rule: Run_spawn_cases)
  case again
  then show ?thesis using assms(1) by simp
next
  case (panic p)
  then show ?thesis using assms(1) by (auto simp: supervised_def started_ok_def)
next
  case (unstarted e)
  then show ?thesis using assms(1)
    by (simp add: supervised_def closeAllGates_def BeginOrphanDrain_def) (auto simp: supervised_parts)
next
  case (killed e pid cmd)
  then show ?thesis using assms(1)
    by (simp add: supervised_def closeAllGates_def BeginOrphanDrain_def kill_def) (auto simp: supervised_parts)
next
  case (ok pid g cmd)
  have "g > 1" using ok(4) assms(2) by (simp add: sane_event_def)
  then show ?thesis using assms(1) ok(1,6) by (simp add: supervised_def) (auto simp: supervised_parts)
qed

lemma supervised_bail: "supervised s \<Longrightarrow> reaper s \<noteq> RNone \<Longrightarrow> supervised (bail e s)"
  by (simp add: supervised_def bail_def setReaperErr_def closeAllGates_def BeginOrphanDrain_def)
    (auto simp: supervised_parts)

lemma supervised_reap: "supervised s \<Longrightarrow> reaper s = RMain n \<Longrightarrow> supervised (reap_main n w s)"
  by (cases w) (simp_all add: supervised_bail, simp_all add: supervised_def, auto simp: supervised_parts)

lemma supervised_drain:
  assumes "supervised s" and "reaper s = RDrain errs t k"
  shows "supervised (drain_round errs t k res timer s)"
proof -
  have d: "supervised (s\<lparr>doneCh := True, reaper := RExited\<rparr>)" "supervised (s\<lparr>reaper := RDrain e t' k'\<rparr>)"
    "supervised ((kill (-1) sig s)\<lparr>reaper := RDrain e t' k'\<rparr>)" for e t' k' sig
    using assms by (simp_all add: supervised_def kill_def) (auto simp: supervised_parts)
  show ?thesis using assms by (cases res) (simp add: drain_round_def Let_def d supervised_bail)
qed

lemma supervised_kill_group: "supervised s \<Longrightarrow> proc s \<noteq> None \<Longrightarrow> supervised (kill (- int (pgid s)) sig s)"
  by (simp add: supervised_def kill_def) (auto simp: supervised_parts)

lemma supervised_watchdog_flag: "supervised s \<Longrightarrow> supervised (s\<lparr>watchdog := False\<rparr>)"
  by (simp add: supervised_def idle_ok_def)

lemma supervised_Stop: "supervised s \<Longrightarrow> supervised (Stop_spawn s)"
  using supervised_kill_group [of s SIGTERM]
  by (auto simp: Stop_spawn_def) (simp add: supervised_def kill_def idle_ok_def)

lemma supervised_main: "supervised (s\<lparr>main := m\<rparr>) \<longleftrightarrow> supervised s"
  by (simp add: supervised_def)

lemma supervised_gate: "supervised s \<Longrightarrow> supervised (BeginOrphanDrain s)"
  by (simp add: supervised_def BeginOrphanDrain_def) (auto simp: supervised_parts split: reaper.splits)

lemma supervised_proc: "supervised s \<Longrightarrow> watchdog s \<Longrightarrow> proc s \<noteq> None"
  by (auto simp: supervised_def idle_ok_def)

lemma supervised_watchdog: "supervised s \<Longrightarrow> watchdog s \<Longrightarrow> supervised (runStopWatchdog s)"
  using supervised_kill_group [OF _ supervised_proc]
  by (simp add: runStopWatchdog_def supervised_watchdog_flag)

lemma supervised_closed:
  assumes "supervised s" and "proc s \<noteq> None"
  shows "supervised (closeAllGates (s\<lparr>reaperErr := Some e\<rparr>))"
proof -
  have "idle_ok (proc s) (reaper s) (finalWS s) (stopOnce s) (watchdog s) (Some e)"
    using assms by (auto simp: supervised_def idle_ok_def)
  moreover have "reap_ok (reaper s) (finalWS s) True True"
    using assms by (auto simp: supervised_def reap_ok_def split: reaper.splits)
  moreover have "started_ok (runEntered s) (proc s) (launched s) (spawnErr s) (pgid s) True"
    using assms by (auto simp: supervised_def started_ok_def)
  moreover have "gates_ok (proc s) (Some e) (finalWS s) True True True" by (simp add: gates_ok_def)
  moreover have "signals_ok (signals s) (finalWS s) True"
    using assms by (auto simp: supervised_def signals_ok_def)
  ultimately show ?thesis using assms(1)
    by (simp add: supervised_def closeAllGates_def BeginOrphanDrain_def)
qed

lemma setReaperErr_some: "\<exists>e'. setReaperErr e s = s\<lparr>reaperErr := Some e'\<rparr>"
  by (cases s) (auto simp: setReaperErr_def)

lemma supervised_watchdog_panic:
  assumes "supervised s" and "watchdog s"
  shows "supervised (watchdog_panic s)"
proof -
  let ?k = "(kill (- int (pgid s)) SIGKILL s)\<lparr>watchdog := False\<rparr>"
  have comm: "r\<lparr>reaperErr := x, watchdog := y, signals := z\<rparr> = r\<lparr>signals := z, watchdog := y, reaperErr := x\<rparr>"
    for r :: spawnState and x y z by simp
  obtain e where e: "setReaperErr errWatchdogPanic s = s\<lparr>reaperErr := Some e\<rparr>" using setReaperErr_some by blast
  have p: "proc s \<noteq> None" using assms by (rule supervised_proc)
  then have "supervised ?k" using assms by (intro supervised_watchdog_flag supervised_kill_group)
  then have "supervised (closeAllGates (?k\<lparr>reaperErr := Some e\<rparr>))"
    using p by (intro supervised_closed) (simp_all add: kill_def)
  then show ?thesis using e by (simp add: watchdog_panic_def kill_def comm)
qed

lemma supervised_signal: "supervised s \<Longrightarrow> Spawned s \<Longrightarrow> supervised (forward_signal sig s)"
  by (simp add: forward_signal_def supervised_kill_group Spawned_def)

lemma supervised_step:
  assumes "supervised s" and "sane_event e" and "dstep e s = Some t"
  shows "supervised t"
proof (cases e)
  case (AgentReadyRun cfg env)
  then show ?thesis using assms supervised_Run [of s cfg env] by (cases "Run_spawn cfg env s") auto
next
  case (WaitMain w)
  then show ?thesis using assms supervised_reap by (auto split: reaper.splits)
next
  case PassGate
  then show ?thesis using assms
    by (simp add: supervised_def split: if_splits) (auto simp: supervised_parts)
next
  case (DrainRound ws timer)
  then show ?thesis using assms supervised_drain by (auto split: reaper.splits)
next
  case (Select c)
  then show ?thesis using assms
    by (auto simp: main_select_def supervised_main supervised_Stop split: if_splits)
next
  case (Signal_received sig)
  then show ?thesis using assms by (auto simp: supervised_signal split: if_splits)
next
  case ReaperPanic
  then show ?thesis using assms by (auto simp: supervised_bail split: if_splits)
qed (use assms in \<open>auto simp: supervised_main supervised_gate supervised_watchdog supervised_watchdog_panic split: if_splits main_phase.splits\<close>)

lemma supervised_reachable:
  "dsteps es NewSpawnState = Some s \<Longrightarrow> \<forall>e \<in> set es. sane_event e \<Longrightarrow> supervised s"
  by (rule supervisor.run_invariant [where P = supervised]) (auto intro: supervised_start supervised_step)

section \<open>The user's command is started once, as the user\<close>

definition run_by :: "ExecUser \<Rightarrow> Cmd \<Rightarrow> bool" where
  "run_by u cmd \<longleftrightarrow>
     Cred (cmd_Attr cmd) = Some \<lparr>cr_Uid = eu_UID u, cr_Gid = eu_GID u, cr_Groups = eu_Groups u\<rparr> \<and>
     Setpgid (cmd_Attr cmd) \<and>
     (eu_Home u \<noteq> [] \<longrightarrow> filter (has_key ''HOME'') (cmd_Env cmd) = [''HOME='' @ eu_Home u]) \<and>
     (eu_Name u \<noteq> [] \<longrightarrow> filter (has_key ''USER'') (cmd_Env cmd) = [''USER='' @ eu_Name u] \<and>
        filter (has_key ''LOGNAME'') (cmd_Env cmd) = [''LOGNAME='' @ eu_Name u])"

lemma resolve_cmd_fields:
  "resolve_cmd cfg look = Inr cmd \<Longrightarrow>
     cmd_Attr cmd = buildSysProcAttr (sc_user cfg) (stdinCttyFd (sc_terminal cfg)) \<and>
     cmd_Env cmd = envForUser (sc_env cfg) (sc_user cfg) \<and>
     cmd_Args cmd = fst (routeArgs (sc_argv cfg) look (sc_defaultCmd cfg))"
  by (auto simp: resolve_cmd_def Let_def split: if_splits sum.splits prod.splits)

lemma resolve_cmd_run_by: "resolve_cmd cfg look = Inr cmd \<Longrightarrow> sc_user cfg = Some u \<Longrightarrow> run_by u cmd"
  using resolve_cmd_fields [of cfg look cmd]
    envForUser_overridden [of u "''HOME''" "eu_Home u" "sc_env cfg"]
    envForUser_overridden [of u "''USER''" "eu_Name u" "sc_env cfg"]
    envForUser_overridden [of u "''LOGNAME''" "eu_Name u" "sc_env cfg"]
  by (simp add: run_by_def buildSysProcAttr_def user_overrides_def)

fun event_user :: "ExecUser \<Rightarrow> event \<Rightarrow> bool" where
  "event_user u (AgentReadyRun cfg _) \<longleftrightarrow> sc_user cfg = Some u"
| "event_user u _ \<longleftrightarrow> True"

lemma Run_launched:
  assumes "Run_spawn cfg env s = (r, t)"
  shows "launched t = launched s \<or>
    (\<exists>cmd. launched t = launched s @ [cmd] \<and> resolve_cmd cfg (se_lookPath env) = Inr cmd \<and> \<not> runEntered s)"
  using assms by (cases rule: Run_spawn_cases) (auto simp: closeAllGates_def BeginOrphanDrain_def kill_def)

lemmas spawn_ops =
  BeginOrphanDrain_def closeAllGates_def setReaperErr_def kill_def bail_def Stop_spawn_def
  runStopWatchdog_def watchdog_panic_def forward_signal_def drain_round_def main_select_def

text \<open>Only \<open>AgentReady\<close> touches what the spawn entry recorded.\<close>

definition entry :: "spawnState \<Rightarrow> bool \<times> spawn_error option \<times> nat option \<times> Cmd list" where
  "entry s = (runEntered s, spawnErr s, proc s, launched s)"

lemma entry_updates [simp]:
  "entry (s\<lparr>reaperErr := e\<rparr>) = entry s" "entry (s\<lparr>finalWS := w\<rparr>) = entry s" "entry (s\<lparr>doneCh := b\<rparr>) = entry s"
  "entry (s\<lparr>mainExitedCh := b\<rparr>) = entry s" "entry (s\<lparr>orphanDrainCh := b\<rparr>) = entry s"
  "entry (s\<lparr>stopOnce := b\<rparr>) = entry s" "entry (s\<lparr>reaper := r\<rparr>) = entry s" "entry (s\<lparr>watchdog := b\<rparr>) = entry s"
  "entry (s\<lparr>main := m\<rparr>) = entry s" "entry (s\<lparr>signals := x\<rparr>) = entry s"
  by (simp_all add: entry_def)

lemma entry_ops [simp]:
  "entry (BeginOrphanDrain s) = entry s" "entry (closeAllGates s) = entry s" "entry (kill p g s) = entry s"
  "entry (setReaperErr e s) = entry s" "entry (bail e s) = entry s" "entry (Stop_spawn s) = entry s"
  "entry (runStopWatchdog s) = entry s" "entry (watchdog_panic s) = entry s" "entry (forward_signal g s) = entry s"
  by (simp_all add: spawn_ops)

lemma reap_main_entry [simp]: "entry (reap_main n w s) = entry s"
  by (cases w) simp_all

lemma drain_round_entry [simp]: "entry (drain_round errs t k res timer s) = entry s"
  by (cases res) (simp add: drain_round_def Let_def)

lemma dstep_entry:
  assumes "dstep e s = Some t" and "\<And>cfg env. e \<noteq> AgentReadyRun cfg env"
  shows "entry t = entry s"
  using assms
  by (cases e) (auto simp: main_select_def split: if_splits reaper.splits main_phase.splits)

lemma launched_step:
  assumes "dstep e s = Some t" and "event_user u e" and "\<forall>cmd \<in> set (launched s). run_by u cmd"
  shows "\<forall>cmd \<in> set (launched t). run_by u cmd"
proof (cases "\<exists>cfg env. e = AgentReadyRun cfg env")
  case True
  then obtain cfg env where e: "e = AgentReadyRun cfg env" by blast
  have r: "Run_spawn cfg env s = (fst (Run_spawn cfg env s), t)" using assms(1) e by (simp add: prod_eq_iff)
  have u: "run_by u cmd" if "resolve_cmd cfg (se_lookPath env) = Inr cmd" for cmd
    using resolve_cmd_run_by [OF that] assms(2) e by simp
  show ?thesis using Run_launched [OF r] u assms(3) by auto
next
  case False
  then show ?thesis using dstep_entry [OF assms(1)] assms(3) by (auto simp: entry_def)
qed

text \<open>C25: the user's command is started at most once, and only as the user. Whatever the daemon's
  goroutines, the kernel and the control plane do, and however often \<open>AgentReady\<close> is dispatched, at most one
  process is launched; it carries the credential of the resolved user, its own process group, and an environment
  in which HOME, USER and LOGNAME are the user's and nothing inherited from root shadows them.\<close>

theorem user_command_once:
  assumes "dsteps es NewSpawnState = Some s" and "\<forall>e \<in> set es. sane_event e \<and> event_user u e"
  shows "length (launched s) \<le> 1 \<and> (\<forall>cmd \<in> set (launched s). run_by u cmd)"
proof
  show "length (launched s) \<le> 1"
    using supervised_reachable [OF assms(1)] assms(2) by (simp add: supervised_def started_ok_def)
  show "\<forall>cmd \<in> set (launched s). run_by u cmd"
  proof (rule supervisor.run_invariant [where P = "\<lambda>s. \<forall>cmd \<in> set (launched s). run_by u cmd", OF assms(1)])
    show "\<forall>cmd \<in> set (launched NewSpawnState). run_by u cmd" by (simp add: NewSpawnState_def)
  qed (use assms(2) launched_step in blast)
qed

definition sample_user :: ExecUser where
  "sample_user = \<lparr>eu_Name = ''dev'', eu_UID = 1000, eu_GID = 1000, eu_Groups = [], eu_Home = ''/home/dev''\<rparr>"

definition spawn_sample_cfg :: spawnConfig where
  "spawn_sample_cfg =
     DefaultEntry [''--help''] [''HOME=/root'', ''PATH=/bin''] True (Some sample_user) ''claude''"

definition spawn_sample_env :: spawn_env where
  "spawn_sample_env =
     \<lparr>se_lookPath = (\<lambda>x. Inr (''/bin/'' @ x)), se_start = Inr 7, se_getpgid = Inr 7, se_panic = None\<rparr>"

text \<open>A run in which the command is killed by the stop's signal and one orphan has to be killed as well.\<close>

definition sample_run :: "event list" where
  "sample_run =
     [AgentReadyRun spawn_sample_cfg spawn_sample_env, AgentReadyRun spawn_sample_cfg spawn_sample_env, WaitMain MAlive, Select Shutdown,
      WaitMain (MReaped 15), SeeMainExited, ListenerStopped, PassGate, DrainRound [ONone] True,
      DrainRound [OErr ''EINVAL''] True, DrainRound [OReaped, OEchild] False]"

lemma sample_run_sane: "\<forall>e \<in> set sample_run. sane_event e \<and> event_user sample_user e"
  by (simp add: sample_run_def sane_event_def spawn_sample_env_def spawn_sample_cfg_def DefaultEntry_def)

lemma sample_run_ends:
  "map_option (\<lambda>s. (map cmd_Args (launched s), signals s, finalWS s, doneCh s)) (dsteps sample_run NewSpawnState) =
     Some ([[''claude'', ''--help'']], [(-7, 15), (-1, 15), (-1, 9)], Some 15, True)"
  by code_simp

theorem user_command_once_witness:
  "\<exists>s. dsteps sample_run NewSpawnState = Some s \<and> length (launched s) \<le> 1 \<and> run_by sample_user (launched s ! 0)"
proof -
  obtain s where s: "dsteps sample_run NewSpawnState = Some s" "map cmd_Args (launched s) = [[''claude'', ''--help'']]"
    using sample_run_ends by auto
  then have "launched s ! 0 \<in> set (launched s)" by (cases "launched s") auto
  then show ?thesis using user_command_once [OF s(1) sample_run_sane] s(1) by auto
qed

section \<open>Killing what is left only after the command and the listener are gone\<close>

definition past_listener :: "main_phase \<Rightarrow> bool" where
  "past_listener m = (case m of MWait _ \<Rightarrow> True | MReturned _ _ \<Rightarrow> True | _ \<Rightarrow> False)"

text \<open>Without a panic of the watchdog, a reaper that is still at work finds its gate open only once the main
  loop has torn the listener down.\<close>

definition gate_by_main :: "spawnState \<Rightarrow> bool" where
  "gate_by_main s \<longleftrightarrow>
     (orphanDrainCh s \<longrightarrow> past_listener (main s) \<or> reaper s = RExited \<or> spawnErr s \<noteq> None) \<and>
     (-1 \<in> fst ` set (signals s) \<longrightarrow> past_listener (main s))"

lemma gate_by_main_step:
  assumes "supervised s" and "gate_by_main s" and "dstep e s = Some t" and "e \<noteq> WatchdogPanic" and "sane_event e"
  shows "gate_by_main t"
proof (cases e)
  case (AgentReadyRun cfg env)
  then have "Run_spawn cfg env s = (fst (Run_spawn cfg env s), t)" using assms(3) by (simp add: prod_eq_iff)
  then show ?thesis using assms(1,2)
    by (cases rule: Run_spawn_cases)
      (auto simp: gate_by_main_def closeAllGates_def BeginOrphanDrain_def kill_def supervised_def started_ok_def idle_ok_def)
next
  case (WaitMain w)
  then show ?thesis using assms(2,3)
    by (cases w) (auto simp: gate_by_main_def bail_def closeAllGates_def BeginOrphanDrain_def setReaperErr_def
        split: reaper.splits if_splits)
next
  case (DrainRound ws timer)
  then obtain errs t1 k1 res where d: "reaper s = RDrain errs t1 k1" "t = drain_round errs t1 k1 res timer s"
    using assms(3) by (auto split: reaper.splits)
  have "past_listener (main s)"
    using assms(1,2) d(1) by (auto simp: supervised_def reap_ok_def gate_by_main_def idle_ok_def started_ok_def)
  moreover have "main t = main s"
    unfolding d(2) by (cases res) (auto simp: drain_round_def Let_def bail_def closeAllGates_def BeginOrphanDrain_def setReaperErr_def kill_def)
  ultimately show ?thesis by (simp add: gate_by_main_def)
next
  case (Select c)
  then show ?thesis using assms(1,2,3)
    by (auto simp: gate_by_main_def main_select_def Stop_spawn_def kill_def past_listener_def Spawned_def
        supervised_def started_ok_def split: if_splits)
next
  case (Signal_received sig)
  then show ?thesis using assms(1,2,3)
    by (auto simp: gate_by_main_def forward_signal_def kill_def Spawned_def supervised_def started_ok_def split: if_splits)
next
  case WatchdogTimer
  then show ?thesis using assms(1,2,3) supervised_proc [OF assms(1)]
    by (auto simp: gate_by_main_def runStopWatchdog_def kill_def supervised_def started_ok_def split: if_splits)
next
  case ReaperPanic
  then show ?thesis using assms(2,3)
    by (auto simp: gate_by_main_def bail_def closeAllGates_def BeginOrphanDrain_def setReaperErr_def split: if_splits)
qed (use assms in \<open>auto simp: gate_by_main_def past_listener_def BeginOrphanDrain_def split: if_splits main_phase.splits\<close>)

text \<open>C26: the daemon never signals every process of the container while anything it answers for is alive.
  If \<open>kill(-1, sig)\<close> was ever sent, then the user's command has been reaped, and, unless the watchdog goroutine
  panicked, the main loop had already torn down the listener, so no command of the control plane is running.\<close>

theorem kill_all_comes_last:
  assumes "dsteps es NewSpawnState = Some s" and "\<forall>e \<in> set es. sane_event e" and "(-1, sig) \<in> set (signals s)"
  shows "finalWS s \<noteq> None \<and> (WatchdogPanic \<notin> set es \<longrightarrow> past_listener (main s))"
proof
  have k: "-1 \<in> fst ` set (signals s)" using assms(3) by force
  show "finalWS s \<noteq> None"
    using supervised_reachable [OF assms(1,2)] k by (simp add: supervised_def signals_ok_def)
  show "WatchdogPanic \<notin> set es \<longrightarrow> past_listener (main s)"
  proof
    assume w: "WatchdogPanic \<notin> set es"
    have "supervised s \<and> gate_by_main s"
    proof (rule supervisor.run_invariant [where P = "\<lambda>s. supervised s \<and> gate_by_main s", OF assms(1)])
      show "supervised NewSpawnState \<and> gate_by_main NewSpawnState"
        by (simp add: supervised_start) (simp add: gate_by_main_def NewSpawnState_def)
    next
      fix e s t assume "e \<in> set es" "supervised s \<and> gate_by_main s" "dstep e s = Some t"
      then show "supervised t \<and> gate_by_main t"
        using assms(2) w supervised_step gate_by_main_step by metis
    qed
    then show "past_listener (main s)" using k by (simp add: gate_by_main_def)
  qed
qed

theorem kill_all_comes_last_witness:
  "\<exists>s. dsteps sample_run NewSpawnState = Some s \<and> (-1, SIGKILL) \<in> set (signals s) \<and> finalWS s \<noteq> None \<and>
     past_listener (main s)"
proof -
  obtain s where s: "dsteps sample_run NewSpawnState = Some s" "signals s = [(-7, 15), (-1, 15), (-1, 9)]"
    using sample_run_ends by auto
  have "WatchdogPanic \<notin> set sample_run" by (simp add: sample_run_def)
  moreover have "(-1, SIGKILL) \<in> set (signals s)" using s(2) by (simp add: SIGKILL_def)
  ultimately show ?thesis using kill_all_comes_last [OF s(1)] sample_run_sane s(1) by blast
qed

section \<open>The daemon ends, with the command's exit code\<close>













section \<open>What a repeated \<open>AgentReady\<close> is told\<close>

lemma entry_stable:
  assumes "dsteps es s = Some t" and "runEntered s"
  shows "runEntered t \<and> spawnErr t = spawnErr s \<and> proc t = proc s \<and> launched t = launched s"
proof -
  have "runEntered t \<and> entry t = entry s"
  proof (rule supervisor.run_invariant [where P = "\<lambda>t. runEntered t \<and> entry t = entry s", OF assms(1)])
    fix e u v assume P: "runEntered u \<and> entry u = entry s" and d: "dstep e u = Some v"
    show "runEntered v \<and> entry v = entry s"
    proof (cases "\<exists>cfg env. e = AgentReadyRun cfg env")
      case True
      then have "v = u" using d P by (auto simp: Run_spawn_def)
      then show ?thesis using P by simp
    next
      case False
      then have "entry v = entry u" using dstep_entry [OF d] by blast
      then show ?thesis using P by (auto simp: entry_def)
    qed
  qed (simp add: assms(2))
  then show ?thesis by (simp add: entry_def)
qed

text \<open>Theorem: every later \<open>AgentReady\<close> learns what the first one did. If the first call started the command,
  all later ones answer that it already runs; if it failed, they repeat that error, so a session that
  reconnects cannot take a command that never started for a running one.\<close>

theorem respawn_replays_outcome:
  assumes "Run_spawn cfg env NewSpawnState = (r, s)" and "se_panic env = None" and "dsteps es s = Some t"
  shows "(r = RunOk \<longrightarrow> Run_spawn cfg' env' t = (RunErr errAlreadySpawned, t) \<and> Spawned t) \<and>
         (\<forall>e. r = RunErr e \<longrightarrow> Run_spawn cfg' env' t = (RunErr e, t) \<and> \<not> Spawned t)"
proof -
  have f: "runEntered s \<and> (r = RunOk \<longrightarrow> spawnErr s = None \<and> proc s \<noteq> None) \<and>
      (\<forall>e. r = RunErr e \<longrightarrow> spawnErr s = Some e \<and> proc s = None)"
    using assms(1)
    by (cases rule: Run_spawn_cases)
      (use assms(2) in \<open>auto simp: NewSpawnState_def closeAllGates_def BeginOrphanDrain_def kill_def\<close>)
  then show ?thesis using entry_stable [OF assms(3)] by (simp add: Run_spawn_def Spawned_def)
qed

theorem respawn_replays_outcome_witness:
  "\<exists>s t. Run_spawn spawn_sample_cfg spawn_sample_env NewSpawnState = (RunOk, s) \<and> dsteps [WaitMain MAlive] s = Some t \<and>
     Run_spawn spawn_sample_cfg spawn_sample_env t = (RunErr errAlreadySpawned, t) \<and> Spawned t"
proof -
  have r: "fst (Run_spawn spawn_sample_cfg spawn_sample_env NewSpawnState) = RunOk"
    "reaper (snd (Run_spawn spawn_sample_cfg spawn_sample_env NewSpawnState)) = RMain 0" by code_simp+
  obtain s where s: "Run_spawn spawn_sample_cfg spawn_sample_env NewSpawnState = (RunOk, s)" "reaper s = RMain 0"
    using r by (cases "Run_spawn spawn_sample_cfg spawn_sample_env NewSpawnState") auto
  have d: "dsteps [WaitMain MAlive] s = Some (s\<lparr>reaper := RMain 0\<rparr>)" using s(2) by simp
  have "se_panic spawn_sample_env = None" by (simp add: spawn_sample_env_def)
  then show ?thesis using respawn_replays_outcome [OF s(1) _ d] s(1) d by blast
qed

text \<open>A panic inside the spawn path is the exception: the error is not recorded, so the next \<open>AgentReady\<close> is told
  that the command already runs, and the gates stay closed.\<close>

lemma panic_masks_unspawned:
  assumes "se_panic env = Some p" and "dsteps es (snd (Run_spawn cfg env NewSpawnState)) = Some t"
  shows "fst (Run_spawn cfg env NewSpawnState) = RunPanic p \<and>
    Run_spawn cfg' env' t = (RunErr errAlreadySpawned, t) \<and> \<not> Spawned t \<and> launched t = []"
  using entry_stable [OF assms(2)] assms(1) by (simp add: Run_spawn_def NewSpawnState_def Spawned_def)

text \<open>A shutdown signal that finds no command, followed by an \<open>AgentReady\<close> before the listener is down, leaves the
  main loop waiting for a command that was never signalled.\<close>

lemma shutdown_misses_late_spawn:
  "map_option (\<lambda>s. (main s, Spawned s, signals s, Wait s))
     (dsteps [Select Shutdown, AgentReadyRun spawn_sample_cfg spawn_sample_env, ListenerStopped] NewSpawnState) =
   Some (MWait Shutdown, True, [], None)"
  by code_simp

end
