(* ===== verification/Clawkerd_Worker.thy ===== *)
theory Clawkerd_Worker
  imports Agent_Plan_Runs Clawkerd_Spawn
begin

text \<open>
  The worker that runs one shell pipeline of the control plane: \<open>runShellCommand\<close> of \<open>clawkerd/session.go\<close>
  with its reapers, its output drainer, the initial-stdin writer, the timeout and the helpers for exit codes.

  The goroutines of a worker interleave; a labelled step function says what one of them does
  next and what the kernel answered. A step returns the frames it hands to \<open>send\<close>, each with a flag: was the
  command's context already done at that moment, so that \<open>send\<close> may drop the frame. A blocked \<open>send\<close> is a step
  that has not happened yet. Panics are left out, except that a reaper's panic reports like a failed
  \<open>Wait\<close>. Audit logging and the closing of pipes that only logs are left out.
\<close>

section \<open>Requests\<close>

record PipeStage =
  st_Argv :: "string list"
  st_Uid :: "32 word"
  st_Gid :: "32 word"
  st_Cwd :: string
  st_Env :: "(string \<times> string) list"

record ShellRequest =
  rq_Stages :: "PipeStage list"
  rq_TimeoutSeconds :: nat
  rq_InitialStdin :: string
  rq_PrintOutput :: bool
  rq_ExitOnNonZero :: bool

text \<open>The environment of a stage: none inherits the daemon's.\<close>

definition buildEnv :: "string list \<Rightarrow> (string \<times> string) list \<Rightarrow> string list option" where
  "buildEnv environ m =
     (if m = [] then None else Some (environ @ map (\<lambda>(k, v). k @ ''='' @ v) m))"

text \<open>What one stage is started with.\<close>

record StageCmd =
  sg_Argv :: "string list"
  sg_Dir :: string
  sg_Env :: "string list option"
  sg_Cred :: "(32 word \<times> 32 word) option"

definition stage_cmd :: "string list \<Rightarrow> PipeStage \<Rightarrow> StageCmd" where
  "stage_cmd environ st =
     \<lparr>sg_Argv = st_Argv st, sg_Dir = st_Cwd st, sg_Env = buildEnv environ (st_Env st),
      sg_Cred = (if st_Uid st \<noteq> 0 \<or> st_Gid st \<noteq> 0 then Some (st_Uid st, st_Gid st) else None)\<rparr>"

section \<open>Exit codes\<close>

definition stageExitResponse :: "nat \<Rightarrow> ProcessState option \<Rightarrow> bool \<Rightarrow> payload" where
  "stageExitResponse stageIndex ps waitErr =
     (case ps of
        Some (Unix w) \<Rightarrow>
          if ws_Signaled w then RespStageExit stageIndex (-1) (ws_Signal w)
          else if ws_Exited w then RespStageExit stageIndex (ws_ExitStatus w) 0
          else RespStageExit stageIndex (ps_ExitCode (Unix w)) 0
      | Some (ForeignSys n) \<Rightarrow> RespStageExit stageIndex (ps_ExitCode (ForeignSys n)) 0
      | None \<Rightarrow> RespStageExit stageIndex (if waitErr then -1 else 0) 0)"

definition exitCodeOf :: "ProcessState option \<Rightarrow> bool \<Rightarrow> int" where
  "exitCodeOf ps waitErr =
     (case ps of
        None \<Rightarrow> if waitErr then -1 else 0
      | Some (Unix w) \<Rightarrow> if ws_Signaled w then -1 else ws_ExitStatus w
      | Some (ForeignSys n) \<Rightarrow> n)"

definition mirrorExitCode :: "int \<Rightarrow> int" where
  "mirrorExitCode finalExit = (if finalExit < 0 \<or> finalExit > 255 then 1 else finalExit)"

section \<open>Pipe errors\<close>

datatype read_error = io_EOF | io_ErrClosedPipe | os_ErrClosed | ReadErr string

definition isExpectedDrainEnd :: "read_error \<Rightarrow> bool" where
  "isExpectedDrainEnd e \<longleftrightarrow> e = io_EOF \<or> e = io_ErrClosedPipe \<or> e = os_ErrClosed"

datatype write_error = wr_ErrClosedPipe | wr_EPIPE | WriteErr string

definition isStdinPeerClosed :: "write_error \<Rightarrow> bool" where
  "isStdinPeerClosed e \<longleftrightarrow> e = wr_ErrClosedPipe \<or> e = wr_EPIPE"

fun write_String :: "write_error \<Rightarrow> string" where
  "write_String wr_ErrClosedPipe = ''io: read/write on closed pipe''"
| "write_String wr_EPIPE = ''broken pipe''"
| "write_String (WriteErr e) = e"

fun read_String :: "read_error \<Rightarrow> string" where
  "read_String io_EOF = ''EOF''"
| "read_String io_ErrClosedPipe = ''io: read/write on closed pipe''"
| "read_String os_ErrClosed = ''file already closed''"
| "read_String (ReadErr e) = e"

definition chunkBufSize :: nat where
  "chunkBufSize = 32 * 1024"

section \<open>State of a worker\<close>

text \<open>A stage: not started, running, reaped with the frame still to send, or done.\<close>

datatype stage = Pending | Live | Waited "ProcessState option" bool | Gone "ProcessState option" bool

text \<open>Where the worker is: building the pipeline, pipeline running, every stage reaped and stdin closed,
  terminal frame decided, daemon exit still to request, returned.\<close>

datatype wphase = WStart | WLive | WReaped | WTerminal payload | WFatal int | WEnded

record worker =
  w_req :: ShellRequest
  w_phase :: wphase
  w_stages :: "stage list"
  w_stdinClosed :: bool
  w_pipeClosed :: bool
  w_stdinReady :: bool
  w_copying :: bool
  w_written :: bool
  w_initial :: bool
  w_initialErr :: "string option"
  w_cancelled :: bool
  w_timer :: bool
  w_timedOut :: bool
  w_draining :: bool

definition new_worker :: "ShellRequest \<Rightarrow> worker" where
  "new_worker rq =
     \<lparr>w_req = rq, w_phase = WStart, w_stages = map (\<lambda>_. Pending) (rq_Stages rq), w_stdinClosed = False,
      w_pipeClosed = False, w_stdinReady = False, w_copying = True, w_written = False, w_initial = False, w_initialErr = None,
      w_cancelled = False, w_timer = False, w_timedOut = False, w_draining = True\<rparr>"

text \<open>The flag \<open>w_stdinClosed\<close> is the daemon's record, \<open>w_pipeClosed\<close> says that the pipe was closed.

  The events: the pipes could not be made, a stage could not be started, all started; the timeout
  fired or the session cancelled the command; a stdin frame was written, its write failed, stdin is
  closed; the initial stdin was written, its failure is sent; the
  copy from the stdin pipe into the first stage ended; a stage's \<open>Wait\<close> returned, its frame is sent; the output
  pipe was read; all stages are reaped; everything is drained; the terminal frame is sent.\<close>

datatype wevent =
    PipeFail string string
  | StartFail nat string
  | StartAll
  | Timeout
  | Cancel
  | StdinWrite
  | StdinBroken
  | StdinClose
  | InitialWrite "write_error option"
  | InitialSend
  | CopyEnds
  | StageWait nat "ProcessState option" bool
  | StageSend nat
  | Read string "read_error option"
  | AllReaped
  | Settle
  | SendTerminal

text \<open>The pipes a pipeline needs, in the order they are made.\<close>

definition pipe_labels :: "nat \<Rightarrow> string list" where
  "pipe_labels n = map (\<lambda>i. ''stage['' @ Itoa (int i) @ ''] stdout'') [0..<n - 1] @ [''combined output'']"

definition final_status :: "worker \<Rightarrow> int" where
  "final_status w =
     (case last (w_stages w) of
        Waited ps err \<Rightarrow> exitCodeOf ps err
      | Gone ps err \<Rightarrow> exitCodeOf ps err
      | _ \<Rightarrow> 0)"

definition terminal_payload :: "worker \<Rightarrow> payload" where
  "terminal_payload w =
     (if w_timedOut w then
        RespError ERROR_CODE_TIMEOUT
          (''pipeline killed after '' @ Itoa (int (rq_TimeoutSeconds (w_req w))) @ ''s timeout'')
      else RespDone (final_status w))"

text \<open>After the terminal frame: the daemon's exit is requested when the command was declared fatal.\<close>

definition after_terminal :: "ShellRequest \<Rightarrow> payload \<Rightarrow> wphase" where
  "after_terminal rq p =
     (case p of
        RespDone n \<Rightarrow> if rq_ExitOnNonZero rq \<and> n \<noteq> 0 then WFatal (mirrorExitCode n) else WEnded
      | _ \<Rightarrow> WEnded)"

text \<open>The deferred calls of a returning worker.\<close>

definition finish :: "wphase \<Rightarrow> worker \<Rightarrow> worker" where
  "finish ph w =
     (if ph = WEnded
      then w\<lparr>w_phase := WEnded, w_cancelled := True, w_stdinReady := True, w_timer := False\<rparr>
      else w\<lparr>w_phase := ph\<rparr>)"

definition markStdinClosed :: "worker \<Rightarrow> worker" where
  "markStdinClosed w = w\<lparr>w_stdinClosed := True\<rparr>"

definition closeStdinOnce :: "worker \<Rightarrow> worker" where
  "closeStdinOnce w = (if w_stdinClosed w then w else w\<lparr>w_stdinClosed := True, w_pipeClosed := True\<rparr>)"

definition gone :: "stage \<Rightarrow> bool" where
  "gone st = (case st of Gone _ _ \<Rightarrow> True | _ \<Rightarrow> False)"

text \<open>\<open>Wait\<close> of the first stage returns only once the goroutine that copies the stdin pipe has ended, and
  that goroutine ends when the pipe is closed or when what it read cannot be written to the child.\<close>

fun wstep :: "wevent \<Rightarrow> worker \<Rightarrow> (worker \<times> (payload \<times> bool) list) option" where
  "wstep (PipeFail label msg) w =
     (if w_phase w = WStart \<and> label \<in> set (pipe_labels (length (rq_Stages (w_req w)))) then
        Some (finish WEnded (w\<lparr>w_pipeClosed := True\<rparr>),
              [(RespError ERROR_CODE_SPAWN_FAILED (label @ '' pipe: '' @ msg), w_cancelled w)])
      else None)"
| "wstep (StartFail i msg) w =
     (if w_phase w = WStart \<and> i < length (w_stages w) then
        Some (finish WEnded
                (w\<lparr>w_pipeClosed := True, w_stages := map (\<lambda>j. if j < i then Live else Pending) [0..<length (w_stages w)]\<rparr>),
              [(RespError ERROR_CODE_SPAWN_FAILED (''stage['' @ Itoa (int i) @ ''] start: '' @ msg), w_cancelled w)])
      else None)"
| "wstep StartAll w =
     (if w_phase w = WStart then
        Some (w\<lparr>w_phase := WLive, w_stages := map (\<lambda>_. Live) (w_stages w),
                w_timer := (rq_TimeoutSeconds (w_req w) > 0),
                w_initial := (rq_InitialStdin (w_req w) \<noteq> []),
                w_stdinReady := (rq_InitialStdin (w_req w) = [])\<rparr>,
              [(RespStarted, w_cancelled w)])
      else None)"
| "wstep Timeout w =
     (if w_timer w then Some (w\<lparr>w_timer := False, w_timedOut := True, w_cancelled := True\<rparr>, []) else None)"
| "wstep Cancel w = Some (w\<lparr>w_cancelled := True\<rparr>, [])"
| "wstep StdinWrite w =
     (if w_phase w \<noteq> WEnded \<and> w_stdinReady w \<and> \<not> w_stdinClosed w \<and> w_copying w
      then Some (w\<lparr>w_written := True\<rparr>, []) else None)"
| "wstep StdinBroken w =
     (if w_phase w \<noteq> WEnded \<and> w_stdinReady w \<and> \<not> w_stdinClosed w then Some (markStdinClosed w, []) else None)"
| "wstep StdinClose w =
     (if w_phase w \<noteq> WEnded \<and> w_stdinReady w then Some (closeStdinOnce w, []) else None)"
| "wstep (InitialWrite res) w =
     (if \<not> w_initial w then None
      else if w_stdinClosed w then Some (w\<lparr>w_initial := False, w_stdinReady := True\<rparr>, [])
      else
        (case res of
           None \<Rightarrow>
             if w_copying w then Some (w\<lparr>w_initial := False, w_stdinReady := True, w_written := True\<rparr>, []) else None
         | Some e \<Rightarrow>
             if isStdinPeerClosed e
             then Some (w\<lparr>w_initial := False, w_stdinReady := True, w_written := True\<rparr>, [])
             else Some (w\<lparr>w_initial := False, w_written := True, w_initialErr := Some (write_String e)\<rparr>, [])))"
| "wstep InitialSend w =
     (case w_initialErr w of
        None \<Rightarrow> None
      | Some e \<Rightarrow>
          Some (w\<lparr>w_initialErr := None, w_stdinReady := True\<rparr>,
                [(RespError ERROR_CODE_IO_ERROR (''initial_stdin write failed: '' @ e), w_cancelled w)]))"
| "wstep CopyEnds w =
     (if w_copying w \<and> (w_pipeClosed w \<or> w_written w) then Some (w\<lparr>w_copying := False\<rparr>, []) else None)"
| "wstep (StageWait i ps err) w =
     (if w_phase w = WLive \<and> i < length (w_stages w) \<and> w_stages w ! i = Live \<and>
         (i = 0 \<longrightarrow> \<not> w_copying w) \<and> (ps = None \<longrightarrow> err)
      then Some (w\<lparr>w_stages := (w_stages w)[i := Waited ps err]\<rparr>, []) else None)"
| "wstep (StageSend i) w =
     (if w_phase w = WLive \<and> i < length (w_stages w) then
        (case w_stages w ! i of
           Waited ps err \<Rightarrow>
             Some (w\<lparr>w_stages := (w_stages w)[i := Gone ps err]\<rparr>, [(stageExitResponse i ps err, w_cancelled w)])
         | _ \<Rightarrow> None)
      else None)"
| "wstep (Read dat res) w =
     (if w_phase w \<in> {WLive, WReaped} \<and> w_draining w \<and> length dat \<le> chunkBufSize then
        (let out = (if dat = [] then [] else [(RespOutput dat, w_cancelled w)]) in
         case res of
           None \<Rightarrow> Some (w, out)
         | Some e \<Rightarrow>
             Some (w\<lparr>w_draining := False\<rparr>,
                   out @ (if isExpectedDrainEnd e then []
                          else [(RespError ERROR_CODE_IO_ERROR (''output drain: '' @ read_String e), w_cancelled w)])))
      else None)"
| "wstep AllReaped w =
     (if w_phase w = WLive \<and> list_all gone (w_stages w)
      then Some ((closeStdinOnce w)\<lparr>w_phase := WReaped\<rparr>, []) else None)"
| "wstep Settle w =
     (if w_phase w = WReaped \<and> \<not> w_draining w
      then Some (w\<lparr>w_phase := WTerminal (terminal_payload w)\<rparr>, []) else None)"
| "wstep SendTerminal w =
     (case w_phase w of
        WTerminal p \<Rightarrow> Some (finish (after_terminal (w_req w) p) w, [(p, w_cancelled w)])
      | _ \<Rightarrow> None)"

fun wrun :: "wevent list \<Rightarrow> worker \<Rightarrow> (worker \<times> (payload \<times> bool) list) option" where
  "wrun [] w = Some (w, [])"
| "wrun (e # es) w =
     (case wstep e w of
        None \<Rightarrow> None
      | Some (w', out) \<Rightarrow> map_option (\<lambda>(w'', outs). (w'', out @ outs)) (wrun es w'))"


section \<open>The frames of a worker\<close>

interpretation pipeline: emitting_runs wstep wrun
  by unfold_locales (simp_all split: option.split)

definition exit_of :: "nat \<Rightarrow> payload \<Rightarrow> bool" where
  "exit_of i p = (case p of RespStageExit j _ _ \<Rightarrow> i = j | _ \<Rightarrow> False)"

definition mid :: "payload \<Rightarrow> bool" where
  "mid p =
     (case p of
        RespOutput _ \<Rightarrow> True
      | RespStageExit _ _ _ \<Rightarrow> True
      | RespError c _ \<Rightarrow> c = ERROR_CODE_IO_ERROR
      | _ \<Rightarrow> False)"

definition ending :: "payload \<Rightarrow> bool" where
  "ending p = (case p of RespDone _ \<Rightarrow> True | RespError c _ \<Rightarrow> c = ERROR_CODE_TIMEOUT | _ \<Rightarrow> False)"

definition initial_failure :: "payload \<Rightarrow> bool" where
  "initial_failure p \<longleftrightarrow> (\<exists>e. p = RespError ERROR_CODE_IO_ERROR (''initial_stdin write failed: '' @ e))"

definition quiet_worker :: "worker \<Rightarrow> bool" where
  "quiet_worker w \<longleftrightarrow> \<not> w_initial w \<and> w_initialErr w = None \<and> \<not> w_timer w"

definition decided :: "worker \<Rightarrow> payload \<Rightarrow> bool" where
  "decided w p \<longleftrightarrow> ending p \<and> list_all gone (w_stages w) \<and> (\<forall>n. p = RespDone n \<longrightarrow> n = final_status w)"

definition spawn_failed :: "payload list \<Rightarrow> bool" where
  "spawn_failed fs \<longleftrightarrow> (\<exists>m. fs = [RespError ERROR_CODE_SPAWN_FAILED m])"

definition complete :: "worker \<Rightarrow> payload list \<Rightarrow> bool" where
  "complete w fs \<longleftrightarrow>
     (\<exists>ms p post. fs = RespStarted # ms @ p # post \<and> list_all mid ms \<and> decided w p \<and> list_all initial_failure post)"

definition streaming :: "payload list \<Rightarrow> bool" where
  "streaming fs \<longleftrightarrow> (\<exists>ms. fs = RespStarted # ms \<and> list_all mid ms)"

definition shape :: "worker \<Rightarrow> payload list \<Rightarrow> bool" where
  "shape w fs =
     (case w_phase w of
        WStart \<Rightarrow> fs = [] \<and> quiet_worker w
      | WLive \<Rightarrow> streaming fs
      | WReaped \<Rightarrow> streaming fs \<and> list_all gone (w_stages w)
      | WTerminal p \<Rightarrow> streaming fs \<and> decided w p
      | WFatal _ \<Rightarrow> complete w fs
      | WEnded \<Rightarrow> (spawn_failed fs \<and> quiet_worker w) \<or> complete w fs)"

definition exits_match :: "worker \<Rightarrow> payload list \<Rightarrow> bool" where
  "exits_match w fs \<longleftrightarrow>
     (\<forall>i. length (filter (exit_of i) fs) = of_bool (i < length (w_stages w) \<and> gone (w_stages w ! i))) \<and>
     (\<forall>i < length (w_stages w). \<forall>ps err. w_stages w ! i = Gone ps err \<longrightarrow> stageExitResponse i ps err \<in> set fs)"

lemma streaming_snoc: "streaming fs \<Longrightarrow> list_all mid ms \<Longrightarrow> streaming (fs @ ms)"
  by (auto simp: streaming_def)

lemma complete_snoc: "complete w fs \<Longrightarrow> list_all initial_failure post \<Longrightarrow> complete w (fs @ post)"
  unfolding complete_def by (metis append.assoc append_Cons list_all_append)

lemma complete_stages: "w_stages w = w_stages u \<Longrightarrow> complete w fs = complete u fs"
  by (simp add: complete_def decided_def final_status_def)

lemma complete_sent: "streaming fs \<Longrightarrow> decided w p \<Longrightarrow> complete w (fs @ [p])"
  unfolding streaming_def complete_def by (metis append_Cons list.pred_inject(1))

lemma mid_simps [simp]:
  "mid (RespOutput d)" "mid (RespStageExit i a b)" "mid (RespError ERROR_CODE_IO_ERROR m)"
  "\<not> mid RespStarted" "\<not> mid (RespDone n)" "\<not> mid (RespError ERROR_CODE_SPAWN_FAILED m)"
  "\<not> mid (RespError ERROR_CODE_TIMEOUT m)"
  by (simp_all add: mid_def)

lemma exit_of_simps [simp]:
  "exit_of i (RespStageExit j a b) \<longleftrightarrow> i = j" "\<not> exit_of i RespStarted" "\<not> exit_of i (RespOutput d)"
  "\<not> exit_of i (RespError c m)" "\<not> exit_of i (RespDone n)"
  by (simp_all add: exit_of_def)

lemma stageExitResponse_form: "\<exists>a b. stageExitResponse i ps err = RespStageExit i a b"
  by (auto simp: stageExitResponse_def split: option.splits ProcessState.splits)

lemma mid_stageExit [simp]: "mid (stageExitResponse i ps err)"
  using stageExitResponse_form [of i ps err] by auto

lemma exit_of_stageExit [simp]: "exit_of j (stageExitResponse i ps err) \<longleftrightarrow> j = i"
  using stageExitResponse_form [of i ps err] by auto

lemma stageExit_not_error [simp]: "RespError c m \<noteq> stageExitResponse i ps err"
  using stageExitResponse_form [of i ps err] by auto

lemma gone_simps [simp]: "gone (Gone ps err)" "\<not> gone Live" "\<not> gone Pending" "\<not> gone (Waited ps err)"
  by (simp_all add: gone_def)

lemma shape_silent:
  assumes "shape w fs" and "w_phase w' = w_phase w" and "w_stages w' = w_stages w" and "quiet_worker w \<longrightarrow> quiet_worker w'"
  shows "shape w' fs"
proof -
  have "complete w' = complete w" "decided w' = decided w"
    using assms(3) by (auto simp: complete_def decided_def final_status_def fun_eq_iff)
  then show ?thesis using assms by (auto simp: shape_def split: wphase.splits)
qed

text \<open>Steps that send nothing and leave the stages alone.\<close>

definition silent :: "wevent \<Rightarrow> bool" where
  "silent e =
     (case e of
        Timeout \<Rightarrow> True | Cancel \<Rightarrow> True | StdinWrite \<Rightarrow> True | StdinBroken \<Rightarrow> True | StdinClose \<Rightarrow> True
      | InitialWrite _ \<Rightarrow> True | CopyEnds \<Rightarrow> True | _ \<Rightarrow> False)"

lemma silent_step:
  assumes "silent e" and "wstep e w = Some (w', out)"
  shows "out = [] \<and> w_phase w' = w_phase w \<and> w_stages w' = w_stages w \<and> w_req w' = w_req w \<and> (quiet_worker w \<longrightarrow> quiet_worker w')"
  using assms
  by (cases e) (auto simp: silent_def quiet_worker_def markStdinClosed_def closeStdinOnce_def split: if_splits option.splits)

lemma shape_start: "shape (new_worker rq) []"
  by (simp add: shape_def new_worker_def quiet_worker_def)

lemma shape_step:
  assumes "shape w fs" and "wstep e w = Some (w', out)"
  shows "shape w' (fs @ map fst out)"
proof (cases e)
  case (PipeFail label msg)
  then show ?thesis using assms
    by (auto simp: shape_def finish_def spawn_failed_def quiet_worker_def split: if_splits)
next
  case (StartFail i msg)
  then show ?thesis using assms
    by (auto simp: shape_def finish_def spawn_failed_def quiet_worker_def split: if_splits)
next
  case StartAll
  then show ?thesis using assms by (auto simp: shape_def streaming_def split: if_splits)
next
  case (StageWait i ps err)
  then show ?thesis using assms by (auto simp: shape_def split: if_splits)
next
  case (StageSend i)
  then show ?thesis using assms by (auto simp: shape_def streaming_snoc split: if_splits stage.splits)
next
  case (Read d res)
  then show ?thesis using assms
    by (auto simp: shape_def Let_def streaming_snoc split: if_splits option.splits)
next
  case InitialSend
  then obtain m where m: "w' = w\<lparr>w_initialErr := None, w_stdinReady := True\<rparr>" "w_initialErr w \<noteq> None"
      "map fst out = [RespError ERROR_CODE_IO_ERROR (''initial_stdin write failed: '' @ m)]"
    using assms(2) by (auto split: option.splits)
  have c: "complete w' = complete w" "decided w' = decided w" using m(1)
    by (auto simp: complete_def decided_def final_status_def fun_eq_iff)
  show ?thesis using assms(1) m(2) c
    by (auto simp: shape_def m(1,3) quiet_worker_def streaming_snoc initial_failure_def intro!: complete_snoc split: wphase.splits)
next
  case AllReaped
  then show ?thesis using assms by (auto simp: shape_def closeStdinOnce_def split: if_splits)
next
  case Settle
  then show ?thesis using assms
    by (auto simp: shape_def decided_def terminal_payload_def ending_def final_status_def split: if_splits)
next
  case SendTerminal
  then obtain p where p: "w_phase w = WTerminal p" "map fst out = [p]" "w' = finish (after_terminal (w_req w) p) w"
    using assms(2) by (auto split: wphase.splits)
  have "complete w (fs @ [p])" using assms(1) p(1) by (simp add: shape_def complete_sent)
  then have "complete w' (fs @ [p])" using p(3) by (subst complete_stages [of _ w]) (simp_all add: finish_def)
  moreover have "(\<exists>n. w_phase w' = WFatal n) \<or> w_phase w' = WEnded"
    using p(3) by (auto simp: finish_def after_terminal_def split: payload.splits)
  ultimately show ?thesis using p(2) by (auto simp: shape_def)
qed (use assms silent_step [OF _ assms(2)] shape_silent [OF assms(1)] in \<open>simp_all add: silent_def\<close>)

lemma exits_start: "exits_match (new_worker rq) []"
  by (auto simp: exits_match_def new_worker_def)

lemma exits_update:
  assumes "exits_match w fs" and "i < length (w_stages w)" and "\<not> gone (w_stages w ! i)"
  shows "exits_match (w\<lparr>w_stages := (w_stages w)[i := Gone ps err]\<rparr>) (fs @ [stageExitResponse i ps err])"
    and "exits_match (w\<lparr>w_stages := (w_stages w)[i := Waited ps err]\<rparr>) fs"
  using assms by (auto simp: exits_match_def nth_list_update)

lemma exits_silent:
  assumes "exits_match w fs" and "w_stages w' = w_stages w" and "\<forall>p \<in> set out. \<forall>i. \<not> exit_of i p"
  shows "exits_match w' (fs @ out)"
proof -
  have "filter (exit_of i) out = []" for i using assms(3) by (simp add: filter_empty_conv)
  then show ?thesis using assms(1,2) by (auto simp: exits_match_def)
qed

lemma exits_fresh:
  assumes "exits_match w fs" and "\<forall>st \<in> set (w_stages w). \<not> gone st" and "\<forall>st \<in> set (w_stages w'). \<not> gone st"
    and "\<forall>p \<in> set out. \<forall>i. \<not> exit_of i p"
  shows "exits_match w' (fs @ out)"
proof -
  have f: "filter (exit_of i) out = []" for i using assms(4) by (simp add: filter_empty_conv)
  have "w_stages w' ! i \<noteq> Gone ps err" if "i < length (w_stages w')" for i ps err
    using assms(3) that by (metis gone_simps(1) nth_mem)
  moreover have "of_bool (i < length (w_stages u) \<and> gone (w_stages u ! i)) = (0::nat)"
    if "\<forall>st \<in> set (w_stages u). \<not> gone st" for u i using that by (auto dest: nth_mem)
  ultimately show ?thesis using assms f by (auto simp: exits_match_def)
qed

definition unstarted :: "worker \<Rightarrow> bool" where
  "unstarted w \<longleftrightarrow> (w_phase w = WStart \<longrightarrow> (\<forall>st \<in> set (w_stages w). \<not> gone st))"

lemma unstarted_step:
  assumes "unstarted w" and "wstep e w = Some (w', out)"
  shows "unstarted w'"
proof (cases "silent e")
  case True
  then show ?thesis using silent_step [OF _ assms(2)] assms(1) by (simp add: unstarted_def)
next
  case False
  then show ?thesis using assms
  by (cases e) (auto simp: unstarted_def silent_def finish_def closeStdinOnce_def Let_def after_terminal_def
      split: if_splits option.splits stage.splits wphase.splits payload.splits)
qed

lemma exits_step:
  assumes "exits_match w fs" and "unstarted w" and "wstep e w = Some (w', out)"
    and "\<And>p. w_phase w = WTerminal p \<Longrightarrow> ending p"
  shows "exits_match w' (fs @ map fst out)"
proof (cases e)
  case (PipeFail label msg)
  then show ?thesis using assms by (intro exits_silent [OF assms(1)]) (auto simp: finish_def split: if_splits)
next
  case (StartFail i msg)
  then show ?thesis using assms by (intro exits_fresh [OF assms(1)]) (auto simp: finish_def unstarted_def split: if_splits)
next
  case StartAll
  then show ?thesis using assms by (intro exits_fresh [OF assms(1)]) (auto simp: unstarted_def split: if_splits)
next
  case (StageWait i ps err)
  then show ?thesis using assms exits_update(2) by (auto split: if_splits)
next
  case (StageSend i)
  then show ?thesis using assms exits_update(1) by (auto split: if_splits stage.splits)
next
  case (Read d res)
  then show ?thesis using assms by (intro exits_silent [OF assms(1)]) (auto simp: Let_def split: if_splits option.splits)
next
  case InitialSend
  then show ?thesis using assms by (intro exits_silent [OF assms(1)]) (auto split: option.splits)
next
  case AllReaped
  then show ?thesis using assms by (intro exits_silent [OF assms(1)]) (auto simp: closeStdinOnce_def split: if_splits)
next
  case Settle
  then show ?thesis using assms by (intro exits_silent [OF assms(1)]) (auto split: if_splits)
next
  case SendTerminal
  then show ?thesis using assms by (intro exits_silent [OF assms(1)]) (auto simp: finish_def ending_def exit_of_def split: wphase.splits payload.splits)
qed (use assms silent_step [OF _ assms(3)] exits_silent [OF assms(1), of w' "[]"] in \<open>simp_all add: silent_def\<close>)

definition worker_ok :: "worker \<Rightarrow> (payload \<times> bool) list \<Rightarrow> bool" where
  "worker_ok w outs \<longleftrightarrow> shape w (map fst outs) \<and> unstarted w \<and> exits_match w (map fst outs)"

lemma worker_ok_run:
  assumes "wrun es (new_worker rq) = Some (w, outs)"
  shows "worker_ok w outs"
proof -
  have "worker_ok w ([] @ outs)"
  proof (rule pipeline.run_invariant [OF assms, of worker_ok])
    show "worker_ok (new_worker rq) []"
      by (simp add: worker_ok_def shape_start exits_start) (simp add: unstarted_def new_worker_def)
  next
    fix e w fs w' out assume ok: "worker_ok w fs" and s: "wstep e w = Some (w', out)"
    have "ending p" if "w_phase w = WTerminal p" for p
      using ok that by (simp add: worker_ok_def shape_def decided_def)
    then show "worker_ok w' (fs @ out)"
      using ok s shape_step [OF _ s] unstarted_step [OF _ s] exits_step [OF _ _ s] by (simp add: worker_ok_def)
  qed
  then show ?thesis by simp
qed

lemma stages_length:
  assumes "wrun es (new_worker rq) = Some (w, outs)"
  shows "length (w_stages w) = length (rq_Stages rq) \<and> w_req w = rq"
proof -
  have "length (w_stages w) = length (rq_Stages rq) \<and> w_req w = rq"
  proof (rule pipeline.run_invariant [OF assms, of "\<lambda>w _. length (w_stages w) = length (rq_Stages rq) \<and> w_req w = rq" "[]"])
    fix e u fs v out assume l: "length (w_stages u) = length (rq_Stages rq) \<and> w_req u = rq" and s: "wstep e u = Some (v, out)"
    show "length (w_stages v) = length (rq_Stages rq) \<and> w_req v = rq"
    proof (cases "silent e")
      case True
      then show ?thesis using silent_step [OF _ s] l by simp
    next
      case False
      then show ?thesis using l s
        by (cases e) (auto simp: silent_def finish_def closeStdinOnce_def Let_def
            split: if_splits option.splits stage.splits wphase.splits)
    qed
  qed (simp add: new_worker_def)
  then show ?thesis .
qed

text \<open>C12: a pipeline is answered once, after everything it did. In every interleaving of a worker's
  goroutines, a \<open>Done\<close> frame comes after \<open>Started\<close>, after exactly one \<open>StageExit\<close> for each stage, and carries the
  exit code of the last stage; no other \<open>Done\<close> or timeout is sent, and only the report of a failed
  initial-stdin write can follow it.\<close>

theorem shell_frames_once:
  assumes "wrun es (new_worker rq) = Some (w, outs)" and "rq_Stages rq \<noteq> []"
    and "map fst outs = pre @ RespDone n # post"
  shows "hd pre = RespStarted \<and> (\<forall>i < length (rq_Stages rq). length (filter (exit_of i) pre) = 1) \<and>
    (\<exists>ps err. n = exitCodeOf ps err \<and> stageExitResponse (length (rq_Stages rq) - 1) ps err \<in> set pre) \<and>
    list_all (\<lambda>p. \<not> ending p) pre \<and> list_all initial_failure post"
proof -
  let ?fs = "map fst outs"
  have ok: "shape w ?fs" "exits_match w ?fs" using worker_ok_run [OF assms(1)] by (auto simp: worker_ok_def)
  have len: "length (w_stages w) = length (rq_Stages rq)" using stages_length [OF assms(1)] by simp
  have notin: "RespDone n \<notin> set ms" if "list_all mid ms \<or> list_all initial_failure ms" for ms
    using that by (auto simp: list_all_iff initial_failure_def)
  have d: "RespDone n \<in> set ?fs" using assms(3) by simp
  have "\<not> streaming ?fs" "\<not> spawn_failed ?fs" "?fs \<noteq> []"
    using d notin by (auto simp: streaming_def spawn_failed_def simp del: set_map)
  then have "complete w ?fs" using ok(1) by (auto simp: shape_def split: wphase.splits)
  then obtain ms p tl' where f: "?fs = (RespStarted # ms) @ p # tl'" "list_all mid ms" "decided w p" "list_all initial_failure tl'"
    by (auto simp: complete_def)
  have "p = RespDone n" using d f notin by (auto simp: f(1))
  then have e: "pre = RespStarted # ms" "post = tl'"
    using append_Cons_eq_iff [of "RespDone n" "RespStarted # ms" tl' pre post] f notin assms(3) by auto
  have g: "list_all gone (w_stages w)" "n = final_status w" using f(3) \<open>p = RespDone n\<close> by (auto simp: decided_def)
  have "filter (exit_of i) tl' = []" for i
    using f(4) by (auto simp: filter_empty_conv list_all_iff initial_failure_def)
  then have cnt: "filter (exit_of i) ?fs = filter (exit_of i) pre" for i using f(1) \<open>p = RespDone n\<close> e(1) by simp
  have ex: "length (filter (exit_of i) pre) = 1" if "i < length (rq_Stages rq)" for i
    using ok(2) g(1) that len cnt by (simp add: exits_match_def list_all_length)
  let ?l = "length (rq_Stages rq) - 1"
  have ne: "w_stages w \<noteq> []" using len assms(2) by auto
  have l: "?l < length (w_stages w)" "last (w_stages w) = w_stages w ! ?l"
    using len assms(2) last_conv_nth [OF ne] by auto
  obtain ps err where ps: "w_stages w ! ?l = Gone ps err"
    using g(1) l(1) by (cases "w_stages w ! ?l") (auto simp: list_all_length)
  have "stageExitResponse ?l ps err \<in> set ?fs" using ok(2) l(1) ps by (simp add: exits_match_def)
  then have "stageExitResponse ?l ps err \<in> set pre"
    using cnt [of ?l] by (metis (mono_tags) exit_of_stageExit filter_set mem_Collect_eq set_filter)
  moreover have "n = exitCodeOf ps err" using g(2) l(2) ps by (simp add: final_status_def)
  moreover have "list_all (\<lambda>p. \<not> ending p) pre"
    using f(2) e(1) by (auto simp: list_all_iff ending_def mid_def split: payload.splits)
  ultimately show ?thesis using e f(4) ex by auto
qed

section \<open>Which frames can be lost\<close>

lemma kept_step:
  assumes "w_cancelled w \<longrightarrow> w_phase w = WEnded" and "wstep e w = Some (w', out)" and "e \<noteq> Timeout" and "e \<noteq> Cancel"
    and "w_phase w = WEnded \<longrightarrow> silent e \<or> e = InitialSend"
  shows "(w_cancelled w' \<longrightarrow> w_phase w' = WEnded) \<and> (\<forall>(p, b) \<in> set out. b \<longrightarrow> initial_failure p)"
  using assms
  by (cases e) (auto simp: silent_def finish_def closeStdinOnce_def markStdinClosed_def Let_def initial_failure_def
      split: if_splits option.splits stage.splits wphase.splits)

lemma ended_steps: "wstep e w = Some (w', out) \<Longrightarrow> w_phase w = WEnded \<Longrightarrow> silent e \<or> e = InitialSend"
  by (cases e) (auto simp: silent_def split: if_splits)

text \<open>Without a timeout or a cancelled session every frame of a pipeline reaches the send queue.
  Only the report of a failed initial-stdin write that comes after the worker has returned can be dropped.\<close>

lemma uncancelled_frames_kept:
  assumes "wrun es (new_worker rq) = Some (w, outs)" and "Timeout \<notin> set es" and "Cancel \<notin> set es" and "(p, True) \<in> set outs"
  shows "initial_failure p"
proof -
  let ?P = "\<lambda>w outs. (w_cancelled w \<longrightarrow> w_phase w = WEnded) \<and> (\<forall>(p, b) \<in> set outs. b \<longrightarrow> initial_failure p)"
  have "?P w ([] @ outs)"
  proof (rule pipeline.run_invariant [OF assms(1), of ?P])
    fix e w fs w' out assume "e \<in> set es" "?P w fs" and s: "wstep e w = Some (w', out)"
    then show "?P w' (fs @ out)" using kept_step [OF _ s] ended_steps [OF s] assms(2,3) by auto
  qed (simp add: new_worker_def)
  then show ?thesis using assms(4) by auto
qed

lemma timeout_flag_step:
  assumes "w_timedOut w \<longrightarrow> w_cancelled w" and "\<forall>m. w_phase w = WTerminal (RespError ERROR_CODE_TIMEOUT m) \<longrightarrow> w_timedOut w"
    and "wstep e w = Some (w', out)"
  shows "(w_timedOut w' \<longrightarrow> w_cancelled w') \<and>
    (\<forall>m. w_phase w' = WTerminal (RespError ERROR_CODE_TIMEOUT m) \<longrightarrow> w_timedOut w') \<and>
    (\<forall>m b. (RespError ERROR_CODE_TIMEOUT m, b) \<in> set out \<longrightarrow> b)"
  using assms
  by (cases e) (auto simp: finish_def closeStdinOnce_def markStdinClosed_def Let_def terminal_payload_def after_terminal_def
      split: if_splits option.splits stage.splits wphase.splits payload.splits)

text \<open>Theorem: a timeout is always reported on a context that is already done. The timer cancels the
  command's context to kill its stages, and the frame that reports the timeout is sent on that same context, so
  \<open>send\<close> may drop it although the session is healthy; the control plane then waits for an answer that
  does not come.\<close>

theorem timeout_frame_droppable:
  assumes "wrun es (new_worker rq) = Some (w, outs)" and "(RespError ERROR_CODE_TIMEOUT m, b) \<in> set outs"
  shows "b"
proof -
  let ?P = "\<lambda>w outs. (w_timedOut w \<longrightarrow> w_cancelled w) \<and>
    (\<forall>m. w_phase w = WTerminal (RespError ERROR_CODE_TIMEOUT m) \<longrightarrow> w_timedOut w) \<and>
    (\<forall>m b. (RespError ERROR_CODE_TIMEOUT m, b) \<in> set outs \<longrightarrow> b)"
  have "?P w ([] @ outs)"
  proof (rule pipeline.run_invariant [OF assms(1), of ?P])
    fix e w fs w' out assume P: "?P w fs" and s: "wstep e w = Some (w', out)"
    show "?P w' (fs @ out)" using timeout_flag_step [OF _ _ s] P by auto
  qed (simp add: new_worker_def)
  then show ?thesis using assms(2) by auto
qed

section \<open>A pipeline whose stdin is closed comes to its end\<close>



















definition shell_sample :: "nat \<Rightarrow> ShellRequest" where
  "shell_sample timeout =
     \<lparr>rq_Stages = [\<lparr>st_Argv = [''sh'', ''-c'', ''cat''], st_Uid = 1000, st_Gid = 1000, st_Cwd = [], st_Env = []\<rparr>,
                   \<lparr>st_Argv = [''grep'', ''x''], st_Uid = 0, st_Gid = 0, st_Cwd = [], st_Env = []\<rparr>],
      rq_TimeoutSeconds = timeout, rq_InitialStdin = [], rq_PrintOutput = False, rq_ExitOnNonZero = True\<rparr>"

definition sample_pipeline :: "wevent list" where
  "sample_pipeline =
     [StartAll, StdinWrite, StdinClose, CopyEnds, Read ''x'' None, StageWait 0 (Some (Unix 0)) False,
      StageWait 1 (Some (Unix 512)) True, StageSend 1, StageSend 0, AllReaped, Read [] (Some io_EOF), Settle, SendTerminal]"

lemma sample_pipeline_frames:
  "map_option (\<lambda>(w, outs). (w_phase w, outs)) (wrun sample_pipeline (new_worker (shell_sample 0))) =
     Some (WFatal 2,
       [(RespStarted, False), (RespOutput ''x'', False), (RespStageExit 1 2 0, False), (RespStageExit 0 0 0, False),
        (RespDone 2, False)])"
  by code_simp

lemma sample_pipeline_run:
  obtains w where "wrun sample_pipeline (new_worker (shell_sample 0)) =
    Some (w, [(RespStarted, False), (RespOutput ''x'', False), (RespStageExit 1 2 0, False),
      (RespStageExit 0 0 0, False), (RespDone 2, False)])"
  using sample_pipeline_frames by auto

lemma sample_request_stages: "rq_Stages (shell_sample t) \<noteq> []"
  by (simp add: shell_sample_def)

theorem shell_frames_once_witness:
  "\<exists>w outs pre. wrun sample_pipeline (new_worker (shell_sample 0)) = Some (w, outs) \<and>
     map fst outs = pre @ RespDone 2 # [] \<and> hd pre = RespStarted \<and>
     length (filter (exit_of 0) pre) = 1 \<and> length (filter (exit_of 1) pre) = 1"
proof -
  let ?pre = "[RespStarted, RespOutput ''x'', RespStageExit 1 2 0, RespStageExit 0 0 0]"
  obtain w where w: "wrun sample_pipeline (new_worker (shell_sample 0)) =
      Some (w, [(RespStarted, False), (RespOutput ''x'', False), (RespStageExit 1 2 0, False),
        (RespStageExit 0 0 0, False), (RespDone 2, False)])"
    by (rule sample_pipeline_run)
  have "\<forall>i < length (rq_Stages (shell_sample 0)). length (filter (exit_of i) ?pre) = 1" "hd ?pre = RespStarted"
    using shell_frames_once [OF w sample_request_stages, of ?pre 2 "[]"] by simp_all
  then have "length (filter (exit_of 0) ?pre) = 1" "length (filter (exit_of 1) ?pre) = 1"
    by (auto simp: shell_sample_def)
  then show ?thesis using w by (intro exI conjI) (assumption, auto)
qed


theorem timeout_frame_droppable_witness:
  "\<exists>w outs m b. wrun [StartAll, StdinClose, CopyEnds, Timeout, StageWait 0 (Some (Unix 9)) True, StageSend 0,
      StageWait 1 (Some (Unix 9)) True, StageSend 1, AllReaped, Read [] (Some io_EOF), Settle, SendTerminal]
     (new_worker (shell_sample 5)) = Some (w, outs) \<and> (RespError ERROR_CODE_TIMEOUT m, b) \<in> set outs \<and> b"
proof -
  let ?es = "[StartAll, StdinClose, CopyEnds, Timeout, StageWait 0 (Some (Unix 9)) True, StageSend 0,
      StageWait 1 (Some (Unix 9)) True, StageSend 1, AllReaped, Read [] (Some io_EOF), Settle, SendTerminal]"
  have "map_option (\<lambda>(w, outs). fst (last outs)) (wrun ?es (new_worker (shell_sample 5))) =
      Some (RespError ERROR_CODE_TIMEOUT ''pipeline killed after 5s timeout'')"
    "map_option (\<lambda>(w, outs). outs = []) (wrun ?es (new_worker (shell_sample 5))) = Some False"
    by code_simp+
  then obtain w outs where w: "wrun ?es (new_worker (shell_sample 5)) = Some (w, outs)" "outs \<noteq> []"
      "fst (last outs) = RespError ERROR_CODE_TIMEOUT ''pipeline killed after 5s timeout''"
    by auto
  then have "(RespError ERROR_CODE_TIMEOUT ''pipeline killed after 5s timeout'', snd (last outs)) \<in> set outs"
    by (metis last_in_set prod.collapse)
  then show ?thesis using timeout_frame_droppable [OF w(1)] w(1) by blast
qed

section \<open>A pipeline whose stdin is left open\<close>

definition fed_from_outside :: "wevent \<Rightarrow> bool" where
  "fed_from_outside e \<longleftrightarrow> e = StdinWrite \<or> e = StdinClose"

definition held :: "worker \<Rightarrow> bool" where
  "held w \<longleftrightarrow>
     w_stages w \<noteq> [] \<and> w_copying w \<and> \<not> w_written w \<and> \<not> w_pipeClosed w \<and> rq_InitialStdin (w_req w) = [] \<and>
     \<not> w_initial w \<and> w_initialErr w = None \<and>
     (w_phase w = WStart \<or> w_phase w = WLive \<and> w_stages w ! 0 = Live)"

lemma held_step:
  assumes "held w \<or> spawn_failed fs \<and> w_phase w = WEnded \<and> quiet_worker w"
    and "list_all (\<lambda>p. \<not> ending p) fs" and "wstep e w = Some (w', out)" and "\<not> fed_from_outside e"
    and "held w \<longrightarrow> (w_phase w = WStart \<longrightarrow> fs = [])"
  shows "(held w' \<or> spawn_failed (fs @ map fst out) \<and> w_phase w' = WEnded \<and> quiet_worker w') \<and>
    list_all (\<lambda>p. \<not> ending p) (fs @ map fst out) \<and> (held w' \<longrightarrow> (w_phase w' = WStart \<longrightarrow> fs @ map fst out = []))"
proof -
  have ne: "\<not> ending (stageExitResponse i ps err)" for i ps err
    using stageExitResponse_form [of i ps err] by (auto simp: ending_def)
  have g: "\<not> list_all gone (w_stages w)" if "w_stages w \<noteq> []" "w_stages w ! 0 = Live"
    using that by (auto simp: list_all_length)
  show ?thesis
  proof (cases "held w")
    case True
    then show ?thesis
    proof (cases e)
      case (Read d res)
      then have "w_phase w \<noteq> WStart" "w' = w \<or> w' = w\<lparr>w_draining := False\<rparr>" "list_all (\<lambda>p. \<not> ending p) (map fst out)"
        using assms(3) by (auto simp: ending_def Let_def split: if_split_asm option.split_asm)
      then show ?thesis using True assms(2) by (auto simp: held_def)
    next
      case (StageWait i ps err)
      then have "w_phase w = WLive" "i \<noteq> 0" "w' = w\<lparr>w_stages := (w_stages w)[i := Waited ps err]\<rparr>" "out = []"
        using True assms(3) by (auto simp: held_def split: if_splits)
      then show ?thesis using True assms(2) by (auto simp: held_def)
    next
      case (StageSend i)
      then obtain ps err where "w_phase w = WLive" "w_stages w ! i = Waited ps err" "fst ` set out = {stageExitResponse i ps err}"
          "w' = w\<lparr>w_stages := (w_stages w)[i := Gone ps err]\<rparr>"
        using assms(3) by (auto split: if_splits stage.splits)
      then show ?thesis using True assms(2) ne
        by (cases "i = 0") (auto simp: held_def list_all_iff image_iff)
    next
      case AllReaped
      then show ?thesis using True g assms(3) by (auto simp: held_def split: if_splits)
    next
      case (PipeFail label msg)
      then show ?thesis using True assms(3,5) by (auto simp: held_def ending_def spawn_failed_def finish_def quiet_worker_def split: if_splits)
    next
      case (StartFail i msg)
      then show ?thesis using True assms(3,5) by (auto simp: held_def ending_def spawn_failed_def finish_def quiet_worker_def split: if_splits)
    next
      case StartAll
      then show ?thesis using True assms(2,3) by (auto simp: held_def ending_def split: if_splits)
    qed (use True assms(2,3,4,5) in \<open>auto simp: held_def fed_from_outside_def markStdinClosed_def split: if_splits\<close>)
  next
    case False
    then have q: "w_phase w = WEnded" "quiet_worker w" "spawn_failed fs" using assms(1) by auto
    have "silent e" using ended_steps [OF assms(3) q(1)] q(2) assms(3) by (auto simp: quiet_worker_def)
    then have s: "out = []" "w_phase w' = WEnded" "quiet_worker w'" using silent_step [OF _ assms(3)] q by auto
    then show ?thesis using q(3) assms(2) by (auto simp: held_def)
  qed
qed

text \<open>Theorem: no timeout ends a pipeline whose stdin is still open. If the control plane neither writes to
  nor closes the stdin of a command, then no \<open>Done\<close> and no timeout frame is ever sent for it, even when the timer
  has fired and every process is dead: \<open>Wait\<close> of the first stage also waits for the goroutine that copies stdin, and
  the daemon closes that pipe only after all stages were reaped.\<close>

theorem open_stdin_outlives_timeout:
  assumes "wrun es (new_worker rq) = Some (w, outs)" and "rq_Stages rq \<noteq> []" and "rq_InitialStdin rq = []"
    and "\<forall>e \<in> set es. \<not> fed_from_outside e" and "(p, b) \<in> set outs"
  shows "\<not> ending p"
proof -
  let ?P = "\<lambda>w (outs :: (payload \<times> bool) list). (held w \<or> spawn_failed (map fst outs) \<and> w_phase w = WEnded \<and> quiet_worker w) \<and>
    list_all (\<lambda>p. \<not> ending p) (map fst outs) \<and> (held w \<longrightarrow> (w_phase w = WStart \<longrightarrow> map fst outs = []))"
  have "?P w ([] @ outs)"
  proof (rule pipeline.run_invariant [OF assms(1), of ?P])
    show "?P (new_worker rq) []" using assms(2,3) by (simp add: held_def new_worker_def)
  next
    fix e w fs w' out assume "e \<in> set es" and P: "?P w fs" and s: "wstep e w = Some (w', out)"
    then show "?P w' (fs @ out)" using held_step [OF _ _ s, of "map fst fs"] assms(4) by simp
  qed
  then show ?thesis using assms(5) by (auto simp: list_all_iff)
qed

theorem open_stdin_outlives_timeout_witness:
  "\<exists>w outs. wrun [StartAll, Timeout, StageWait 1 (Some (Unix 9)) True, StageSend 1, Read [] (Some io_EOF)]
     (new_worker (shell_sample 5)) = Some (w, outs) \<and> w_timedOut w \<and> \<not> ending (fst (outs ! 1))"
proof -
  let ?es = "[StartAll, Timeout, StageWait 1 (Some (Unix 9)) True, StageSend 1, Read [] (Some io_EOF)]"
  have "map_option (\<lambda>(w, outs). (w_timedOut w, length outs)) (wrun ?es (new_worker (shell_sample 5))) = Some (True, 2)"
    by code_simp
  then obtain w outs where w: "wrun ?es (new_worker (shell_sample 5)) = Some (w, outs)" "w_timedOut w" "length outs = 2"
    by auto
  have "(fst (outs ! 1), snd (outs ! 1)) \<in> set outs" using w(3) by simp
  moreover have "\<forall>e \<in> set ?es. \<not> fed_from_outside e" by (simp add: fed_from_outside_def)
  moreover have "rq_InitialStdin (shell_sample 5) = []" by (simp add: shell_sample_def)
  ultimately show ?thesis using open_stdin_outlives_timeout [OF w(1) sample_request_stages] w(1,2) by blast
qed

section \<open>What the plan executor makes of the frames\<close>

definition final_frame :: "payload \<Rightarrow> bool" where
  "final_frame p = (case p of RespDone _ \<Rightarrow> True | RespError _ _ \<Rightarrow> True | _ \<Rightarrow> False)"

definition resp_for :: "string \<Rightarrow> payload \<Rightarrow> Response" where
  "resp_for cid p = \<lparr>resp_id = cid, resp_payload = p\<rparr>"

lemma await_first_final:
  "list_all (\<lambda>q. \<not> final_frame q) a \<Longrightarrow> final_frame p \<Longrightarrow>
   \<exists>c' out. fst (await_frames (\<lambda>_. None) fin cid name c (map (resp_for cid) (a @ p # b))) = (out, None) \<and>
     classifyStepResponse p c' = Inl out"
proof (induction a arbitrary: c)
  case Nil
  obtain out where "classifyStepResponse p c = Inl out"
    using Nil by (cases p) (auto simp: final_frame_def classifyStepResponse_def)
  then show ?case by (intro exI [of _ c] exI [of _ out]) (simp add: resp_for_def)
next
  case (Cons q a)
  obtain c' where "classifyStepResponse q c = Inr c'"
    using Cons.prems(1) by (cases q) (auto simp: final_frame_def classifyStepResponse_def)
  then show ?case using Cons by (simp add: resp_for_def)
qed

lemma first_final: "\<exists>q \<in> set fs. final_frame q \<Longrightarrow>
    \<exists>a p b. fs = a @ p # b \<and> list_all (\<lambda>q. \<not> final_frame q) a \<and> final_frame p"
  using split_list_first_prop [of fs final_frame] by (auto simp: list_all_iff)

lemma ending_final: "ending p \<Longrightarrow> final_frame p"
  by (cases p) (auto simp: ending_def final_frame_def)

lemma complete_has_final: "complete w fs \<or> spawn_failed fs \<Longrightarrow> \<exists>q \<in> set fs. final_frame q"
  using ending_final by (auto simp: complete_def spawn_failed_def decided_def final_frame_def)

lemma classified_fails: "classifyErrorCode c \<noteq> ReasonNone"
  by (cases c) simp_all

text \<open>Without I/O faults the first final frame of a finished command is its terminal frame.\<close>

lemma verdict_unique:
  assumes "complete w fs \<or> spawn_failed fs" and "\<forall>m. RespError ERROR_CODE_IO_ERROR m \<notin> set fs"
    and "fs = a @ p # b" and "list_all (\<lambda>q. \<not> final_frame q) a" and "final_frame p" and "RespDone n \<in> set fs"
  shows "p = RespDone n"
proof -
  have "\<not> spawn_failed fs" using assms(6) by (auto simp: spawn_failed_def)
  then obtain ms t post where f: "fs = RespStarted # ms @ t # post" "list_all mid ms" "decided w t" "list_all initial_failure post"
    using assms(1) by (auto simp: complete_def)
  have post: "post = []" using f(1,4) assms(2) by (cases post) (auto simp: initial_failure_def)
  have ms: "\<not> final_frame q" if "q \<in> set ms" for q
    using f(1,2) assms(2) that by (cases q) (auto simp: final_frame_def mid_def list_all_iff)
  have "RespDone n = t" using assms(6) f(1,2) post by (auto simp: list_all_iff)
  moreover have "p = t"
  proof (rule ccontr)
    assume "p \<noteq> t"
    then have "p \<in> set (RespStarted # ms)" using f(1) assms(3) post by (metis Un_iff append_Cons in_set_conv_decomp set_ConsD set_append empty_iff empty_set)
    then show False using assms(5) ms by (auto simp: final_frame_def)
  qed
  ultimately show ?thesis by simp
qed

lemma verdict_with_suffix:
  assumes "wrun es (new_worker rq) = Some (w, outs)" and "w_phase w = WEnded \<or> (\<exists>n. w_phase w = WFatal n)"
    and "filter (\<lambda>r. resp_id r = cid) (incoming s) = map (resp_for cid) (map fst outs @ extra)"
    and "\<forall>m. RespError ERROR_CODE_IO_ERROR m \<notin> set (map fst outs)"
  shows "\<exists>out. fst (awaitStepResult (\<lambda>_. None) s cid name) = (out, None) \<and>
    (\<forall>n. RespDone n \<in> set (map fst outs) \<longrightarrow> o_ExitCode out = n \<and> (Failed out \<longleftrightarrow> n \<noteq> 0)) \<and>
    ((\<forall>n. RespDone n \<notin> set (map fst outs)) \<longrightarrow> Failed out)"
proof -
  let ?fs = "map fst outs"
  have sh: "complete w ?fs \<or> spawn_failed ?fs"
    using worker_ok_run [OF assms(1)] assms(2) by (auto simp: worker_ok_def shape_def)
  then obtain a p b where f: "?fs = a @ p # b" "list_all (\<lambda>q. \<not> final_frame q) a" "final_frame p"
    using first_final [OF complete_has_final] by blast
  obtain c' out where o: "fst (await_frames (\<lambda>_. None) (final s) cid name ([], 0) (map (resp_for cid) (?fs @ extra))) = (out, None)"
      "classifyStepResponse p c' = Inl out"
    using await_first_final [OF f(2,3), of "final s" cid name "([], 0)" "b @ extra"] f(1) by auto
  have "fst (awaitStepResult (\<lambda>_. None) s cid name) = (out, None)"
    using o(1) await_frames_filter [of "final s" cid name "([], 0)" "incoming s"] assms(3)
    by (simp add: awaitStepResult_def split_beta)
  moreover have "p = RespDone n" if "RespDone n \<in> set ?fs" for n
    using verdict_unique [OF sh assms(4) f(1,2,3) that] .
  moreover have "Failed out" if nd: "\<forall>n. p \<noteq> RespDone n"
  proof -
    obtain c m where "p = RespError c m" using f(3) nd by (cases p) (simp_all add: final_frame_def)
    then show ?thesis using o(2) classified_fails [of c]
      by (auto simp: classifyStepResponse_def Failed_def stepFailedClassified_def)
  qed
  moreover have "o_ExitCode out = n \<and> (Failed out \<longleftrightarrow> n \<noteq> 0)" if "p = RespDone n" for n
    using o(2) that by (auto simp: classifyStepResponse_def Failed_def stepSucceeded_def stepFailedExit_def split: if_splits)
  moreover have "p \<in> set ?fs" using f(1) by simp
  ultimately show ?thesis by (intro exI [of _ out]) blast
qed

text \<open>Theorem: the control plane's verdict on a step is the pipeline's own. When all frames of a finished command
  arrive, among those of other commands and in the order sent, and none reports an I/O fault, the executor's wait
  returns without a transport error; with a \<open>Done\<close> frame the outcome is the exit code of the last
  stage, a success exactly when it is zero, and without one the step has failed.\<close>

theorem step_verdict_is_exit_code:
  assumes "wrun es (new_worker rq) = Some (w, outs)" and "w_phase w = WEnded \<or> (\<exists>n. w_phase w = WFatal n)"
    and "filter (\<lambda>r. resp_id r = cid) (incoming s) = map (resp_for cid) (map fst outs)"
    and "\<forall>m. RespError ERROR_CODE_IO_ERROR m \<notin> set (map fst outs)"
  shows "\<exists>out. fst (awaitStepResult (\<lambda>_. None) s cid name) = (out, None) \<and>
    (\<forall>n. RespDone n \<in> set (map fst outs) \<longrightarrow> o_ExitCode out = n \<and> (Failed out \<longleftrightarrow> n \<noteq> 0)) \<and>
    ((\<forall>n. RespDone n \<notin> set (map fst outs)) \<longrightarrow> Failed out)"
  using verdict_with_suffix [OF assms(1,2), of cid s "[]"] assms(3,4) by simp

definition sample_wire :: Stream where
  "sample_wire =
     \<lparr>incoming =
        [resp_for ''c1'' RespStarted, resp_for ''c2'' (RespDone 0), resp_for ''c1'' (RespOutput ''x''), resp_for ''c1'' (RespStageExit 1 2 0),
         resp_for ''c3'' RespStarted, resp_for ''c1'' (RespStageExit 0 0 0), resp_for ''c1'' (RespDone 2)],
      final = EOF, outgoing = [], send_error = (\<lambda>_. None)\<rparr>"

theorem step_verdict_is_exit_code_witness:
  "\<exists>out. fst (awaitStepResult (\<lambda>_. None) sample_wire ''c1'' ''step'') = (out, None) \<and> o_ExitCode out = 2 \<and> Failed out"
proof -
  obtain w where w: "wrun sample_pipeline (new_worker (shell_sample 0)) =
      Some (w, [(RespStarted, False), (RespOutput ''x'', False), (RespStageExit 1 2 0, False),
        (RespStageExit 0 0 0, False), (RespDone 2, False)])"
    by (rule sample_pipeline_run)
  have "w_phase w = WFatal 2" using sample_pipeline_frames w by simp
  moreover have "filter (\<lambda>r. resp_id r = ''c1'') (incoming sample_wire) = map (resp_for ''c1'') (map fst
      [(RespStarted, False), (RespOutput ''x'', False), (RespStageExit 1 2 0, False), (RespStageExit 0 0 0, False), (RespDone 2, False)])"
    by (simp add: sample_wire_def resp_for_def)
  ultimately show ?thesis using step_verdict_is_exit_code [OF w, of "''c1''" sample_wire "''step''"] by auto
qed

end
