(* ===== verification/Clawkerd_Session.thy ===== *)
theory Clawkerd_Session
  imports Agent_Dialer Clawkerd_Worker "HOL-Library.Sublist"
begin

text \<open>
  One Session of the container daemon: the dispatch of the control plane's commands, the routing of stdin
  and signals, the sender with its queue and the teardown of \<open>clawkerd/session.go\<close>, with what all Sessions of a
  daemon share: the spawn state, the init marker, the register coordinator of \<open>clawkerd/register.go\<close> and the
  progress lines of \<open>clawkerd/progress.go\<close>.

  The receiver, the sender, the workers, the register goroutines and \<open>Stop\<close> interleave; a labelled step
  function says which of them moves and what its environment answers. A frame that is sent on a context already
  done may be dropped: the label says whether it is. A send on a full queue is a step that has not happened
  yet. Logging is left out, and the optional dependencies that only tests leave nil are taken to be there.
\<close>

section \<open>The register handshake\<close>

text \<open>What the token endpoint answers: the request could not be built or got no response, the body could
  not be read, or a status with the body and its decoding (access token and token type).\<close>

datatype token_reply =
    NoRequest string
  | NoResponse string
  | BodyError string
  | TokenReply nat string "string + string \<times> string"

text \<open>The token, whether the assertion was consumed, and the error.\<close>

definition exchangeAssertion :: "string \<Rightarrow> token_reply \<Rightarrow> string \<times> bool \<times> string option" where
  "exchangeAssertion tokenURL r =
     (case r of
        NoRequest e \<Rightarrow> ([], False, Some e)
      | NoResponse e \<Rightarrow> ([], False, Some (''post to '' @ tokenURL @ '': '' @ e))
      | BodyError e \<Rightarrow> ([], True, Some (''read response: '' @ e))
      | TokenReply status body decoded \<Rightarrow>
          if status \<noteq> 200 then ([], True, Some (''hydra returned '' @ Itoa (int status) @ '': '' @ body))
          else
            (case decoded of
               Inl e \<Rightarrow> ([], True, Some (''decode response: '' @ e))
             | Inr (token, ty) \<Rightarrow>
                 if token = [] then ([], True, Some ''hydra returned empty access_token'')
                 else if ty \<noteq> [] \<and> \<not> EqualFold ty ''Bearer'' then
                   ([], True, Some (''hydra returned unexpected token_type '' @ [CHR 0x22] @ ty @ [CHR 0x22] @ '' (expected Bearer)''))
                 else (token, True, None)))"

record registerCoordinator =
  rc_consumed :: bool
  rc_doneOK :: bool
  rc_doneErr :: string
  rc_hydraURL :: string
  rc_agentAddr :: string

definition NewRegisterCoordinator :: "string \<Rightarrow> string \<Rightarrow> registerCoordinator" where
  "NewRegisterCoordinator hydraURL agentAddr =
     \<lparr>rc_consumed = False, rc_doneOK = False, rc_doneErr = [], rc_hydraURL = hydraURL, rc_agentAddr = agentAddr\<rparr>"

text \<open>One attempt: whether the token TLS configuration can be built, the endpoint's answer, and the outcome of
  the dial and the Register call for a token.\<close>

record reg_env =
  re_tlsErr :: "string option"
  re_reply :: token_reply
  re_register :: "string \<Rightarrow> bool \<times> string"
  re_panic :: "string option"

definition TrimRight_slash :: "string \<Rightarrow> string" where
  "TrimRight_slash s = rev (dropWhile (\<lambda>c. c = CHR ''/'') (rev s))"

definition runOnce_register :: "registerCoordinator \<Rightarrow> reg_env \<Rightarrow> bool \<times> string \<times> bool" where
  "runOnce_register rc env =
     (if rc_hydraURL rc = [] then (False, ''CLAWKER_CP_HYDRA_URL unset; cannot exchange assertion'', False)
      else if rc_agentAddr rc = [] then (False, ''CLAWKER_CP_AGENT_ADDR unset; cannot dial AgentService'', False)
      else
        (case re_tlsErr env of
           Some e \<Rightarrow> (False, ''token TLS config: '' @ e, False)
         | None \<Rightarrow>
             (case exchangeAssertion (TrimRight_slash (rc_hydraURL rc) @ ''/oauth2/token'') (re_reply env) of
                (_, consumed, Some e) \<Rightarrow> (False, ''hydra token exchange: '' @ e, consumed)
              | (token, _, None) \<Rightarrow> (case re_register env token of (ok, msg) \<Rightarrow> (ok, msg, True)))))"

definition Run_register :: "registerCoordinator \<Rightarrow> reg_env \<Rightarrow> (bool \<times> string) \<times> registerCoordinator" where
  "Run_register rc env =
     (if rc_consumed rc then ((rc_doneOK rc, rc_doneErr rc), rc)
      else
        (case runOnce_register rc env of
           (ok, msg, consumed) \<Rightarrow>
             ((ok, msg),
              if consumed then rc\<lparr>rc_consumed := True, rc_doneOK := ok, rc_doneErr := msg\<rparr> else rc)))"

text \<open>Did this call put the assertion before the token endpoint, so that it is spent?\<close>

definition spends :: "registerCoordinator \<Rightarrow> reg_env \<Rightarrow> bool" where
  "spends rc env \<longleftrightarrow> \<not> rc_consumed rc \<and> snd (snd (runOnce_register rc env))"

section \<open>Progress lines\<close>

record progressReporter =
  pr_out :: "string list"
  pr_isTTY :: bool
  pr_stopped :: bool

record initStepLabel =
  lb_Active :: string
  lb_Done :: string

definition esc :: "string \<Rightarrow> string" where
  "esc code = CHR 0x1B # ''['' @ code @ ''m''"

definition check_mark :: string where
  "check_mark = bytes [0xE2, 0x9C, 0x93]"

definition cross_mark :: string where
  "cross_mark = bytes [0xE2, 0x9C, 0x97]"

definition info :: "progressReporter \<Rightarrow> string" where
  "info p = (if pr_isTTY p then esc ''36'' @ bytes [0xE2, 0x84, 0xB9] @ esc ''0'' else ''[info]'')"

definition green :: "progressReporter \<Rightarrow> string \<Rightarrow> string" where
  "green p s = (if pr_isTTY p then esc ''32'' @ s @ esc ''0'' else s)"

definition red :: "progressReporter \<Rightarrow> string \<Rightarrow> string" where
  "red p s = (if pr_isTTY p then esc ''31'' @ s @ esc ''0'' else s)"

definition put :: "string \<Rightarrow> progressReporter \<Rightarrow> progressReporter" where
  "put line p = (if pr_stopped p then p else p\<lparr>pr_out := pr_out p @ [line]\<rparr>)"

definition newline :: string where
  "newline = [CHR 0x0A]"

definition Banner :: "string \<Rightarrow> progressReporter \<Rightarrow> progressReporter" where
  "Banner lbl p = put (info p @ '' '' @ lbl @ newline) p"

definition StartStep :: "initStepLabel \<Rightarrow> progressReporter \<Rightarrow> progressReporter" where
  "StartStep lbl p = put (''  '' @ lb_Active lbl @ newline) p"

definition EndStep :: "initStepLabel \<Rightarrow> bool \<Rightarrow> progressReporter \<Rightarrow> progressReporter" where
  "EndStep lbl ok p =
     put (if ok then ''  '' @ green p check_mark @ '' '' @ lb_Done lbl @ newline
          else ''  '' @ red p cross_mark @ '' '' @ lb_Active lbl @ '' (failed)'' @ newline) p"

definition WriteOutput :: "string \<Rightarrow> progressReporter \<Rightarrow> progressReporter" where
  "WriteOutput b p = (if b = [] then p else put b p)"

definition Final :: "progressReporter \<Rightarrow> progressReporter" where
  "Final p = (put (info p @ '' Running agent command...'' @ newline) p)\<lparr>pr_stopped := True\<rparr>"

definition Stop_progress :: "progressReporter \<Rightarrow> progressReporter" where
  "Stop_progress p = p\<lparr>pr_stopped := True\<rparr>"

definition initStepLabels :: "(string \<times> initStepLabel) list" where
  "initStepLabels =
     [(''docker-socket'', \<lparr>lb_Active = ''Configuring Docker socket...'', lb_Done = ''Docker socket configured''\<rparr>),
      (''config'', \<lparr>lb_Active = ''Seeding agent config...'', lb_Done = ''Agent config seeded''\<rparr>),
      (''git'', \<lparr>lb_Active = ''Configuring git...'', lb_Done = ''Git configured''\<rparr>),
      (''git-credentials'', \<lparr>lb_Active = ''Configuring git credentials...'', lb_Done = ''Git credentials configured''\<rparr>),
      (''ssh'', \<lparr>lb_Active = ''Configuring SSH known_hosts...'', lb_Done = ''SSH known_hosts configured''\<rparr>),
      (''post-init'', \<lparr>lb_Active = ''Running post-init...'', lb_Done = ''Post-init complete''\<rparr>),
      (''pre-run'', \<lparr>lb_Active = ''Running pre-run hook...'', lb_Done = ''Pre-run complete''\<rparr>),
      (''agent-ready'', \<lparr>lb_Active = ''Running agent command...'', lb_Done = ''Agent command running''\<rparr>)]"

text \<open>What stands before the last hyphen, if there is one: \<open>strings.LastIndex\<close>.\<close>

definition before_last_hyphen :: "string \<Rightarrow> string option" where
  "before_last_hyphen s =
     (if CHR ''-'' \<in> set s then Some (rev (tl (dropWhile (\<lambda>c. c \<noteq> CHR ''-'') (rev s)))) else None)"

definition step_label :: "string \<Rightarrow> initStepLabel" where
  "step_label step =
     (case map_of initStepLabels step of
        Some l \<Rightarrow> l
      | None \<Rightarrow> \<lparr>lb_Active = step @ ''...'', lb_Done = step\<rparr>)"

definition parseInitStep :: "string \<Rightarrow> initStepLabel option" where
  "parseInitStep commandID =
     (if \<not> HasPrefix commandID ''init-'' then None
      else
        (let rest = drop 5 commandID in
         if length rest < 14 then None
         else
           (case before_last_hyphen (drop 13 rest) of
              None \<Rightarrow> None
            | Some step \<Rightarrow> if step = [] then None else Some (step_label step))))"

section \<open>State of the daemon and of a Session\<close>

definition sendQueueDepth :: nat where
  "sendQueueDepth = 64"

text \<open>What all Sessions share: the supervisor, whether the init marker file is there, the register
  coordinator, the reporter, and the exit code waiting in the main loop's channel.\<close>

record daemon =
  d_spawn :: spawnState
  d_marker :: bool
  d_register :: registerCoordinator
  d_progress :: progressReporter
  d_exit :: "int option"

datatype sender = SRun | SDrain | SDone

text \<open>\<open>Stop\<close> not called, waiting for the sender, returned.\<close>

datatype stop = NotStopped | Stopping | Stopped

record session =
  ss_cmds :: "string \<rightharpoonup> worker"
  ss_returned :: "(string \<times> worker) list"
  ss_sendCh :: "Response list"
  ss_queued :: "Response list"
  ss_wire :: "Response list"
  ss_lost :: "Response list"
  ss_registering :: "string list"
  ss_signalled :: "(string \<times> nat \<times> int) list"
  ss_cancelled :: bool
  ss_receiving :: bool
  ss_sender :: sender
  ss_stop :: stop

definition new_session :: session where
  "new_session =
     \<lparr>ss_cmds = Map.empty, ss_returned = [], ss_sendCh = [], ss_queued = [], ss_wire = [], ss_lost = [],
      ss_registering = [], ss_signalled = [], ss_cancelled = False, ss_receiving = True, ss_sender = SRun,
      ss_stop = NotStopped\<rparr>"

text \<open>The session's context ends, and with it the contexts of its commands.\<close>

definition cancel_workers :: "session \<Rightarrow> session" where
  "cancel_workers ss = ss\<lparr>ss_cmds := (\<lambda>i. map_option (w_cancelled_update (\<lambda>_. True)) (ss_cmds ss i))\<rparr>"

definition cancel_session :: "session \<Rightarrow> session" where
  "cancel_session ss = (cancel_workers ss)\<lparr>ss_cancelled := True\<rparr>"

definition errResponse :: "string \<Rightarrow> ErrorCode \<Rightarrow> string \<Rightarrow> Response" where
  "errResponse i code msg = resp_for i (RespError code msg)"

text \<open>\<open>send\<close> on a context that is done or not; a dropped frame is recorded.\<close>

definition session_send :: "bool \<Rightarrow> bool \<Rightarrow> Response \<Rightarrow> session \<Rightarrow> session option" where
  "session_send ctxDone dropped r ss =
     (if dropped then (if ctxDone then Some (ss\<lparr>ss_lost := ss_lost ss @ [r]\<rparr>) else None)
      else if length (ss_sendCh ss) < sendQueueDepth
      then Some (ss\<lparr>ss_sendCh := ss_sendCh ss @ [r], ss_queued := ss_queued ss @ [r]\<rparr>)
      else None)"

datatype payloadClass = payloadClassUnknown | payloadClassChunk | payloadClassTerminal

definition classifyDropPayload :: "payload \<Rightarrow> payloadClass" where
  "classifyDropPayload p =
     (case p of
        RespDone _ \<Rightarrow> payloadClassTerminal
      | RespError _ _ \<Rightarrow> payloadClassTerminal
      | RespRegisterDone _ _ \<Rightarrow> payloadClassTerminal
      | RespStarted \<Rightarrow> payloadClassChunk
      | RespOutput _ \<Rightarrow> payloadClassChunk
      | RespStageExit _ _ _ \<Rightarrow> payloadClassChunk
      | _ \<Rightarrow> payloadClassUnknown)"

section \<open>Dispatch\<close>

datatype req_payload =
    ReqHello
  | ReqShell ShellRequest
  | ReqStdin string
  | ReqCloseStdin
  | ReqSignal "int option"
  | ReqRegisterRequired
  | ReqAgentReady string
  | ReqAgentInitialized
  | ReqOther string

record Request =
  rq_id :: string
  rq_payload :: req_payload

text \<open>What the environment of one dispatch answers: is the reply dropped, the write of a stdin frame, the spawn
  attempt with the daemon's own arguments, and the write of the init marker.\<close>

record dispatch_env =
  dv_drop :: bool
  dv_write :: "write_error option"
  dv_config :: "string \<Rightarrow> spawnConfig"
  dv_spawn :: spawn_env
  dv_marker :: bool

definition reply :: "dispatch_env \<Rightarrow> Response \<Rightarrow> daemon \<Rightarrow> session \<Rightarrow> (daemon \<times> session) option" where
  "reply env r d ss = map_option (Pair d) (session_send (ss_cancelled ss) (dv_drop env) r ss)"

definition go_quoted :: "string \<Rightarrow> string" where
  "go_quoted s = [CHR 0x22] @ s @ [CHR 0x22]"

fun spawn_String :: "spawn_error \<Rightarrow> string" where
  "spawn_String errAlreadySpawned = ''clawkerd: user CMD already spawned''"
| "spawn_String errEmptyArgv = ''clawkerd: empty argv; container CMD is required''"
| "spawn_String errNoLogger = ''clawkerd: spawn config missing logger''"
| "spawn_String (errLookup p e) = ''clawkerd: lookup '' @ go_quoted p @ '': '' @ e"
| "spawn_String (errStart p e) = ''clawkerd: spawn '' @ go_quoted p @ '': '' @ e"
| "spawn_String (errGetpgid pid e) = ''clawkerd: getpgid pid='' @ Itoa (int pid) @ '': '' @ e"

fun empty_argv :: "nat \<Rightarrow> PipeStage list \<Rightarrow> nat option" where
  "empty_argv i [] = None"
| "empty_argv i (st # sts) = (if st_Argv st = [] then Some i else empty_argv (Suc i) sts)"

definition startShellCommand ::
  "dispatch_env \<Rightarrow> string \<Rightarrow> ShellRequest \<Rightarrow> daemon \<Rightarrow> session \<Rightarrow> (daemon \<times> session) option" where
  "startShellCommand env i rq d ss =
     (if rq_Stages rq = [] then reply env (errResponse i ERROR_CODE_INVALID_REQUEST ''shell: stages must not be empty'') d ss
      else
        (case empty_argv 0 (rq_Stages rq) of
           Some k \<Rightarrow>
             reply env (errResponse i ERROR_CODE_INVALID_REQUEST
               (''shell: stage['' @ Itoa (int k) @ ''] argv must not be empty'')) d ss
         | None \<Rightarrow>
             if ss_cmds ss i \<noteq> None
             then reply env (errResponse i ERROR_CODE_INVALID_REQUEST ''shell: command_id already in use'') d ss
             else Some (d, ss\<lparr>ss_cmds := (ss_cmds ss)(i \<mapsto> (new_worker rq)\<lparr>w_cancelled := ss_cancelled ss\<rparr>)\<rparr>)))"

text \<open>A step of the worker with this id that sends nothing.\<close>

definition drive :: "string \<Rightarrow> wevent \<Rightarrow> daemon \<Rightarrow> session \<Rightarrow> (daemon \<times> session) option" where
  "drive i e d ss =
     (case ss_cmds ss i of
        None \<Rightarrow> None
      | Some w \<Rightarrow>
          (case wstep e w of
             Some (w', []) \<Rightarrow> Some (d, ss\<lparr>ss_cmds := (ss_cmds ss)(i \<mapsto> w')\<rparr>)
           | _ \<Rightarrow> None))"

text \<open>\<open>waitStdinReady\<close> blocks until the gate opens or the session ends.\<close>

definition routeStdin :: "dispatch_env \<Rightarrow> string \<Rightarrow> daemon \<Rightarrow> session \<Rightarrow> (daemon \<times> session) option" where
  "routeStdin env i d ss =
     (case ss_cmds ss i of
        None \<Rightarrow>
          reply env (errResponse i ERROR_CODE_UNKNOWN_COMMAND_ID ''stdin: no running command with that id'') d ss
      | Some w \<Rightarrow>
          if \<not> w_stdinReady w then (if ss_cancelled ss then Some (d, ss) else None)
          else if w_stdinClosed w then reply env (errResponse i ERROR_CODE_INVALID_REQUEST ''stdin: already closed'') d ss
          else
            (case dv_write env of
               None \<Rightarrow> drive i StdinWrite d ss
             | Some wr_ErrClosedPipe \<Rightarrow> Some (d, ss)
             | Some e \<Rightarrow>
                 Option.bind (drive i StdinBroken d ss)
                   (\<lambda>(d, ss). reply env (errResponse i ERROR_CODE_IO_ERROR (''stdin write: '' @ write_String e)) d ss)))"

definition routeCloseStdin :: "dispatch_env \<Rightarrow> string \<Rightarrow> daemon \<Rightarrow> session \<Rightarrow> (daemon \<times> session) option" where
  "routeCloseStdin env i d ss =
     (case ss_cmds ss i of
        None \<Rightarrow>
          reply env (errResponse i ERROR_CODE_UNKNOWN_COMMAND_ID ''close_stdin: no running command with that id'') d ss
      | Some w \<Rightarrow>
          if \<not> w_stdinReady w then (if ss_cancelled ss then Some (d, ss) else None)
          else drive i StdinClose d ss)"

definition live_stages :: "worker \<Rightarrow> nat list" where
  "live_stages w = filter (\<lambda>k. w_stages w ! k = Live) [0..<length (w_stages w)]"

definition routeSignal :: "dispatch_env \<Rightarrow> string \<Rightarrow> int option \<Rightarrow> daemon \<Rightarrow> session \<Rightarrow> (daemon \<times> session) option" where
  "routeSignal env i sig d ss =
     (case sig of
        None \<Rightarrow> reply env (errResponse i ERROR_CODE_INVALID_REQUEST ''signal: signo must be a positive integer'') d ss
      | Some n \<Rightarrow>
          if n \<le> 0 then reply env (errResponse i ERROR_CODE_INVALID_REQUEST ''signal: signo must be a positive integer'') d ss
          else
            (case ss_cmds ss i of
               None \<Rightarrow>
                 reply env (errResponse i ERROR_CODE_UNKNOWN_COMMAND_ID ''signal: no running command with that id'') d ss
             | Some w \<Rightarrow>
                 Some (d, ss\<lparr>ss_signalled := ss_signalled ss @ map (\<lambda>k. (i, k, n)) (live_stages w)\<rparr>)))"

definition handleAgentReady :: "dispatch_env \<Rightarrow> string \<Rightarrow> string \<Rightarrow> daemon \<Rightarrow> session \<Rightarrow> (daemon \<times> session) option" where
  "handleAgentReady env i defaultCmd d ss =
     (case Run_spawn (dv_config env defaultCmd) (dv_spawn env) (d_spawn d) of
        (r, sp) \<Rightarrow>
          reply env
            (case r of
               RunOk \<Rightarrow> resp_for i (RespDone 0)
             | RunErr errAlreadySpawned \<Rightarrow> resp_for i (RespDone 0)
             | RunErr e \<Rightarrow> errResponse i ERROR_CODE_IO_ERROR (''agent_ready: spawn: '' @ spawn_String e)
             | RunPanic p \<Rightarrow> errResponse i ERROR_CODE_IO_ERROR (''agent_ready: panic: '' @ p))
            (d\<lparr>d_spawn := sp, d_progress := Final (d_progress d)\<rparr>) ss)"

definition handleAgentInitialized :: "dispatch_env \<Rightarrow> string \<Rightarrow> daemon \<Rightarrow> session \<Rightarrow> (daemon \<times> session) option" where
  "handleAgentInitialized env i d ss =
     reply env (resp_for i (RespDone 0)) (d\<lparr>d_marker := d_marker d \<or> dv_marker env\<rparr>) ss"

definition begin_step :: "string \<Rightarrow> daemon \<Rightarrow> daemon" where
  "begin_step i d =
     (case parseInitStep i of
        None \<Rightarrow> d
      | Some l \<Rightarrow> d\<lparr>d_progress := StartStep l (d_progress d)\<rparr>)"

definition session_dispatch :: "dispatch_env \<Rightarrow> Request \<Rightarrow> daemon \<Rightarrow> session \<Rightarrow> (daemon \<times> session) option" where
  "session_dispatch env cmd d ss =
     (let i = rq_id cmd in
      case rq_payload cmd of
        ReqHello \<Rightarrow>
          reply env (resp_for i (RespHelloAck \<lparr>Initialized = d_marker d, CmdRunning = Spawned (d_spawn d)\<rparr>)) d ss
      | ReqOther ty \<Rightarrow> reply env (errResponse i ERROR_CODE_INVALID_REQUEST (''unknown payload type '' @ ty)) d ss
      | p \<Rightarrow>
          if i = [] then reply env (errResponse [] ERROR_CODE_INVALID_REQUEST ''command_id required'') d ss
          else
            (case p of
               ReqShell rq \<Rightarrow> startShellCommand env i rq (begin_step i d) ss
             | ReqStdin _ \<Rightarrow> routeStdin env i d ss
             | ReqCloseStdin \<Rightarrow> routeCloseStdin env i d ss
             | ReqSignal sig \<Rightarrow> routeSignal env i sig d ss
             | ReqRegisterRequired \<Rightarrow> Some (d, ss\<lparr>ss_registering := ss_registering ss @ [i]\<rparr>)
             | ReqAgentReady c \<Rightarrow> handleAgentReady env i c d ss
             | _ \<Rightarrow> handleAgentInitialized env i d ss))"

section \<open>The steps of a Session\<close>

text \<open>A terminal frame that went out settles its init step's line.\<close>

definition settleInitStep :: "Response \<Rightarrow> progressReporter \<Rightarrow> progressReporter" where
  "settleInitStep r p =
     (case parseInitStep (resp_id r) of
        None \<Rightarrow> p
      | Some l \<Rightarrow>
          (case resp_payload r of
             RespDone n \<Rightarrow> EndStep l (n = 0) p
           | RespError _ _ \<Rightarrow> EndStep l False p
           | _ \<Rightarrow> p))"

fun send_all :: "string \<Rightarrow> (payload \<times> bool) list \<Rightarrow> bool list \<Rightarrow> session \<Rightarrow> session option" where
  "send_all i [] [] ss = Some ss"
| "send_all i ((p, ctxDone) # outs) (b # bs) ss = Option.bind (session_send ctxDone b (resp_for i p) ss) (send_all i outs bs)"
| "send_all i _ _ ss = None"

text \<open>The events the worker's own goroutines take, as opposed to those the Session drives.\<close>

definition own_event :: "wevent \<Rightarrow> bool" where
  "own_event e =
     (case e of Cancel \<Rightarrow> False | StdinWrite \<Rightarrow> False | StdinBroken \<Rightarrow> False | StdinClose \<Rightarrow> False | _ \<Rightarrow> True)"

definition store_worker :: "string \<Rightarrow> worker \<Rightarrow> session \<Rightarrow> session" where
  "store_worker i w ss =
     (if w_phase w = WEnded
      then ss\<lparr>ss_cmds := (ss_cmds ss)(i := None), ss_returned := ss_returned ss @ [(i, w)]\<rparr>
      else ss\<lparr>ss_cmds := (ss_cmds ss)(i \<mapsto> w)\<rparr>)"

definition echo :: "worker \<Rightarrow> wevent \<Rightarrow> daemon \<Rightarrow> daemon" where
  "echo w e d =
     (case e of
        Read dat _ \<Rightarrow> if rq_PrintOutput (w_req w) then d\<lparr>d_progress := WriteOutput dat (d_progress d)\<rparr> else d
      | _ \<Rightarrow> d)"

definition drive_worker :: "string \<Rightarrow> wevent \<Rightarrow> bool list \<Rightarrow> daemon \<Rightarrow> session \<Rightarrow> (daemon \<times> session) option" where
  "drive_worker i e bs d ss =
     (case ss_cmds ss i of
        None \<Rightarrow> None
      | Some w \<Rightarrow>
          if \<not> own_event e then None
          else
            (case wstep e w of
               None \<Rightarrow> None
             | Some (w', outs) \<Rightarrow> map_option (Pair (echo w e d)) (send_all i outs bs (store_worker i w' ss))))"

text \<open>A goroutine of a worker that has returned: the writer of the initial stdin.\<close>

definition tail_work :: "nat \<Rightarrow> wevent \<Rightarrow> bool list \<Rightarrow> session \<Rightarrow> session option" where
  "tail_work k e bs ss =
     (if k < length (ss_returned ss) \<and> own_event e then
        (case ss_returned ss ! k of (i, w) \<Rightarrow>
           (case wstep e w of
              None \<Rightarrow> None
            | Some (w', outs) \<Rightarrow> send_all i outs bs (ss\<lparr>ss_returned := (ss_returned ss)[k := (i, w')]\<rparr>)))
      else None)"

definition register_reply :: "string \<Rightarrow> reg_env \<Rightarrow> bool \<Rightarrow> daemon \<Rightarrow> session \<Rightarrow> (daemon \<times> session) option" where
  "register_reply i env dropped d ss =
     (if i \<notin> set (ss_registering ss) then None
      else
        (case (case re_panic env of
                 Some p \<Rightarrow> ((False, ''register panic: '' @ p), d_register d)
               | None \<Rightarrow> Run_register (d_register d) env) of
           ((ok, msg), rc) \<Rightarrow>
             map_option (Pair (d\<lparr>d_register := rc\<rparr>))
               (session_send (ss_cancelled ss) dropped (resp_for i (RespRegisterDone ok msg))
                  (ss\<lparr>ss_registering := remove1 i (ss_registering ss)\<rparr>))))"

definition send_frame :: "bool \<Rightarrow> daemon \<Rightarrow> session \<Rightarrow> (daemon \<times> session) option" where
  "send_frame ok d ss =
     (case ss_sendCh ss of
        [] \<Rightarrow> None
      | r # rest \<Rightarrow>
          if ss_sender ss = SDone then None
          else if ok then
            Some (d\<lparr>d_progress := settleInitStep r (d_progress d)\<rparr>, ss\<lparr>ss_sendCh := rest, ss_wire := ss_wire ss @ [r]\<rparr>)
          else Some (d, (cancel_session ss)\<lparr>ss_sendCh := rest, ss_lost := ss_lost ss @ [r], ss_sender := SDone\<rparr>))"

datatype sevent =
    Deliver Request dispatch_env
  | Work string wevent "bool list"
  | TailWork nat wevent "bool list"
  | RegisterReply string reg_env bool
  | SendFrame bool
  | SeeDrain
  | DrainEnd
  | Sweep
  | ContextDone
  | ReceiverEnd
  | StopBegin "string option"
  | StopEnd bool
  | RequestExit string

definition fatal :: "string \<Rightarrow> session \<Rightarrow> int option" where
  "fatal i ss =
     (case ss_cmds ss i of
        Some w \<Rightarrow> (case w_phase w of WFatal n \<Rightarrow> Some n | _ \<Rightarrow> None)
      | None \<Rightarrow> None)"

fun sstep :: "sevent \<Rightarrow> daemon \<times> session \<Rightarrow> (daemon \<times> session) option" where
  "sstep (Deliver cmd env) (d, ss) = (if ss_receiving ss then session_dispatch env cmd d ss else None)"
| "sstep (Work i e bs) (d, ss) = drive_worker i e bs d ss"
| "sstep (TailWork k e bs) (d, ss) = map_option (Pair d) (tail_work k e bs ss)"
| "sstep (RegisterReply i env b) (d, ss) = register_reply i env b d ss"
| "sstep (SendFrame ok) (d, ss) = send_frame ok d ss"
| "sstep SeeDrain (d, ss) =
     (if ss_sender ss = SRun \<and> ss_stop ss \<noteq> NotStopped then Some (d, ss\<lparr>ss_sender := SDrain\<rparr>) else None)"
| "sstep DrainEnd (d, ss) =
     (if ss_sender ss = SDrain \<and> ss_sendCh ss = [] then Some (d, ss\<lparr>ss_sender := SDone\<rparr>) else None)"
| "sstep Sweep (d, ss) =
     (if ss_sender ss = SRun \<and> ss_cancelled ss
      then Some (d, ss\<lparr>ss_lost := ss_lost ss @ ss_sendCh ss, ss_sendCh := [], ss_sender := SDone\<rparr>) else None)"
| "sstep ContextDone (d, ss) = Some (d, cancel_session ss)"
| "sstep ReceiverEnd (d, ss) = (if ss_receiving ss then Some (d, ss\<lparr>ss_receiving := False\<rparr>) else None)"
| "sstep (StopBegin who) (d, ss) =
     (if ss_stop ss = NotStopped \<and> (case who of None \<Rightarrow> \<not> ss_receiving ss | Some i \<Rightarrow> fatal i ss \<noteq> None)
      then Some (d, (cancel_workers ss)\<lparr>ss_stop := Stopping\<rparr>) else None)"
| "sstep (StopEnd grace) (d, ss) =
     (if ss_stop ss = Stopping \<and> (ss_sender ss = SDone \<or> grace)
      then Some (d, (cancel_session ss)\<lparr>ss_stop := Stopped\<rparr>) else None)"
| "sstep (RequestExit i) (d, ss) =
     (case fatal i ss of
        Some n \<Rightarrow>
          if ss_stop ss = Stopped
          then Some (d\<lparr>d_exit := (case d_exit d of None \<Rightarrow> Some n | Some m \<Rightarrow> Some m)\<rparr>,
                     store_worker i (finish WEnded (the (ss_cmds ss i))) ss)
          else None
      | None \<Rightarrow> None)"

fun ssteps :: "sevent list \<Rightarrow> daemon \<times> session \<Rightarrow> (daemon \<times> session) option" where
  "ssteps [] st = Some st"
| "ssteps (e # es) st = (case sstep e st of None \<Rightarrow> None | Some st' \<Rightarrow> ssteps es st')"

text \<open>The tail of \<open>runSession\<close>: the reporter is muted.\<close>

definition end_session :: "daemon \<Rightarrow> daemon" where
  "end_session d = d\<lparr>d_progress := Stop_progress (d_progress d)\<rparr>"

section \<open>Frames leave in the order they were queued\<close>

interpretation runs: labelled_runs sstep ssteps
  by unfold_locales (simp_all split: option.split)

lemma session_invariant:
  assumes "ssteps es (d, ss) = Some (d', ss')" and "P ss"
    and "\<And>e d ss d' ss'. e \<in> set es \<Longrightarrow> P ss \<Longrightarrow> sstep e (d, ss) = Some (d', ss') \<Longrightarrow> P ss'"
  shows "P ss'"
proof -
  have "P (snd (d', ss'))"
    by (rule runs.run_invariant [OF assms(1), of "\<lambda>st. P (snd st)"]) (use assms(2,3) in \<open>auto simp: split_paired_all\<close>)
  then show ?thesis by simp
qed

text \<open>What a send changes.\<close>

definition sent :: "session \<Rightarrow> Response list \<Rightarrow> Response list \<Rightarrow> session \<Rightarrow> bool" where
  "sent ss rs drops ss' \<longleftrightarrow>
     ss' = ss\<lparr>ss_sendCh := ss_sendCh ss @ rs, ss_queued := ss_queued ss @ rs, ss_lost := ss_lost ss @ drops\<rparr>"

lemma sent_fields:
  assumes "sent ss rs drops ss'"
  shows "ss_cmds ss' = ss_cmds ss" "ss_returned ss' = ss_returned ss" "ss_sendCh ss' = ss_sendCh ss @ rs"
    "ss_queued ss' = ss_queued ss @ rs" "ss_wire ss' = ss_wire ss" "ss_lost ss' = ss_lost ss @ drops"
    "ss_registering ss' = ss_registering ss" "ss_cancelled ss' = ss_cancelled ss" "ss_receiving ss' = ss_receiving ss"
    "ss_sender ss' = ss_sender ss" "ss_stop ss' = ss_stop ss"
  using assms by (simp_all add: sent_def)

lemma sent_refl: "sent ss [] [] ss"
  by (simp add: sent_def)

lemma sent_trans: "sent ss rs ds ss' \<Longrightarrow> sent ss' rs' ds' ss'' \<Longrightarrow> sent ss (rs @ rs') (ds @ ds') ss''"
  by (simp add: sent_def)

lemma send_sent:
  "session_send c b r ss = Some ss' \<Longrightarrow> sent ss (if b then [] else [r]) (if b then [r] else []) ss'"
  by (auto simp: session_send_def sent_def split: if_splits)

lemma reply_sent:
  "reply env r d ss = Some (d', ss') \<Longrightarrow>
     d' = d \<and> sent ss (if dv_drop env then [] else [r]) (if dv_drop env then [r] else []) ss'"
  using send_sent [of "ss_cancelled ss" "dv_drop env" r ss ss'] by (auto simp: reply_def)

text \<open>The frames of one step of a worker: those kept and those dropped.\<close>

definition kept_frames :: "string \<Rightarrow> (payload \<times> bool) list \<Rightarrow> bool list \<Rightarrow> Response list" where
  "kept_frames i outs bs = map (\<lambda>(po, b). resp_for i (fst po)) (filter (\<lambda>(po, b). \<not> b) (zip outs bs))"

definition dropped_frames :: "string \<Rightarrow> (payload \<times> bool) list \<Rightarrow> bool list \<Rightarrow> Response list" where
  "dropped_frames i outs bs = map (\<lambda>(po, b). resp_for i (fst po)) (filter (\<lambda>(po, b). b) (zip outs bs))"

lemma send_all_sent:
  "send_all i outs bs ss = Some ss' \<Longrightarrow>
     length bs = length outs \<and> sent ss (kept_frames i outs bs) (dropped_frames i outs bs) ss'"
proof (induction i outs bs ss arbitrary: ss' rule: send_all.induct)
  case (2 i p c outs b bs ss)
  obtain u where u: "session_send c b (resp_for i p) ss = Some u" "send_all i outs bs u = Some ss'"
    using 2(2) by (auto simp: bind_eq_Some_conv)
  have "length bs = length outs \<and> sent u (kept_frames i outs bs) (dropped_frames i outs bs) ss'"
    by (rule 2(1) [OF u(1) u(2)])
  then show ?case using sent_trans [OF send_sent [OF u(1)]] by (auto simp: kept_frames_def dropped_frames_def)
qed (auto simp: sent_refl kept_frames_def dropped_frames_def)

lemma all_kept: "length bs = length outs \<Longrightarrow> dropped_frames i outs bs = [] \<Longrightarrow> kept_frames i outs bs = map (resp_for i) (map fst outs)"
proof (induction outs arbitrary: bs)
  case (Cons po outs)
  then show ?case by (cases bs) (auto simp: kept_frames_def dropped_frames_def split: if_splits)
qed (simp add: kept_frames_def)

lemma frames_id: "r \<in> set (kept_frames i outs bs) \<union> set (dropped_frames i outs bs) \<Longrightarrow> resp_id r = i"
  by (auto simp: kept_frames_def dropped_frames_def resp_for_def)

text \<open>The queue's bookkeeping.\<close>

definition ordered :: "session \<Rightarrow> bool" where
  "ordered ss \<longleftrightarrow>
     prefix (ss_wire ss) (ss_queued ss) \<and>
     (ss_sender ss \<noteq> SDone \<or> \<not> ss_cancelled ss \<longrightarrow> ss_queued ss = ss_wire ss @ ss_sendCh ss)"

text \<open>Apart from the sender and the teardown, a step only adds frames to the queue.\<close>

definition same_channel :: "session \<Rightarrow> session \<Rightarrow> bool" where
  "same_channel ss ss' \<longleftrightarrow>
     (\<exists>rs drops. ss_sendCh ss' = ss_sendCh ss @ rs \<and> ss_queued ss' = ss_queued ss @ rs \<and> ss_lost ss' = ss_lost ss @ drops \<and>
        ss_wire ss' = ss_wire ss \<and> ss_sender ss' = ss_sender ss \<and> ss_cancelled ss' = ss_cancelled ss \<and> ss_stop ss' = ss_stop ss)"

lemma same_channel_sent: "sent u rs drops ss' \<Longrightarrow> same_channel ss u \<Longrightarrow> same_channel ss ss'"
  unfolding same_channel_def by (auto simp: sent_fields [of u rs drops ss'])

lemma same_channel_refl [simp]: "same_channel ss ss"
  by (simp add: same_channel_def)

lemma drive_keeps:
  assumes "drive i e d ss = Some (d', ss')"
  shows "d' = d \<and> (\<exists>w w'. ss_cmds ss i = Some w \<and> wstep e w = Some (w', []) \<and> ss' = ss\<lparr>ss_cmds := (ss_cmds ss)(i \<mapsto> w')\<rparr>)"
  using assms by (auto simp: drive_def split: option.splits prod.splits list.splits)

lemma reply_same_channel: "reply env r d u = Some (d', ss') \<Longrightarrow> same_channel ss u \<Longrightarrow> same_channel ss ss'"
  using reply_sent [of env r d u d' ss'] same_channel_sent by blast

lemma drive_same_channel: "drive i e d ss = Some (d', ss') \<Longrightarrow> same_channel ss ss'"
  using drive_keeps [of i e d ss d' ss'] by (auto simp: same_channel_def)

lemmas dispatch_ops =
  startShellCommand_def routeStdin_def routeCloseStdin_def routeSignal_def handleAgentReady_def handleAgentInitialized_def

lemma dispatch_same_channel:
  assumes "session_dispatch env cmd d ss = Some (d', ss')"
  shows "same_channel ss ss'"
proof -
  have r: "reply env r d1 ss = Some (d', ss') \<Longrightarrow> same_channel ss ss'" for r d1
    by (erule reply_same_channel) simp
  have b: "Option.bind (drive i e d1 ss) (\<lambda>(d, ss). reply env r d ss) = Some (d', ss') \<Longrightarrow> same_channel ss ss'" for i e d1 r
    using reply_same_channel drive_same_channel by (fastforce simp: bind_eq_Some_conv)
  have c: "same_channel ss (ss\<lparr>ss_cmds := x\<rparr>)" "same_channel ss (ss\<lparr>ss_signalled := y\<rparr>)"
    "same_channel ss (ss\<lparr>ss_registering := z\<rparr>)" for x y z by (simp_all add: same_channel_def)
  show ?thesis using assms r b c drive_same_channel
    by (auto simp: session_dispatch_def Let_def dispatch_ops split: req_payload.splits if_split_asm option.split_asm prod.split_asm
        write_error.split_asm)
qed

lemma work_same_channel:
  assumes "drive_worker i e bs d ss = Some (d', ss')"
  shows "same_channel ss ss'"
proof -
  obtain w w' outs where s: "send_all i outs bs (store_worker i w' ss) = Some ss'"
    using assms by (auto simp: drive_worker_def split: option.splits if_splits)
  have "same_channel ss (store_worker i w' ss)" by (simp add: store_worker_def same_channel_def)
  then show ?thesis using send_all_sent [OF s] same_channel_sent by blast
qed

lemma tail_same_channel:
  assumes "tail_work k e bs ss = Some ss'"
  shows "same_channel ss ss'"
proof -
  obtain i w w' outs where s: "send_all i outs bs (ss\<lparr>ss_returned := (ss_returned ss)[k := (i, w')]\<rparr>) = Some ss'"
    using assms by (auto simp: tail_work_def split: option.splits if_splits prod.splits)
  have "same_channel ss (ss\<lparr>ss_returned := (ss_returned ss)[k := (i, w')]\<rparr>)" by (simp add: same_channel_def)
  then show ?thesis using send_all_sent [OF s] same_channel_sent by blast
qed

lemma register_same_channel:
  assumes "register_reply i env b d ss = Some (d', ss')"
  shows "same_channel ss ss'"
proof -
  obtain r where s: "session_send (ss_cancelled ss) b r (ss\<lparr>ss_registering := remove1 i (ss_registering ss)\<rparr>) = Some ss'"
    using assms by (auto simp: register_reply_def split: if_splits prod.splits)
  have "same_channel ss (ss\<lparr>ss_registering := remove1 i (ss_registering ss)\<rparr>)" by (simp add: same_channel_def)
  then show ?thesis using send_sent [OF s] same_channel_sent by blast
qed

lemma ordered_same_channel: "ordered ss \<Longrightarrow> same_channel ss ss' \<Longrightarrow> ordered ss'"
  by (auto simp: ordered_def same_channel_def)

lemma ordered_step:
  assumes "ordered ss" and "sstep e (d, ss) = Some (d', ss')"
  shows "ordered ss'"
proof (cases e)
  case (Deliver cmd env)
  then show ?thesis using assms dispatch_same_channel ordered_same_channel by (auto split: if_splits)
next
  case (Work i we bs)
  then show ?thesis using assms work_same_channel ordered_same_channel by auto
next
  case (TailWork k we bs)
  then show ?thesis using assms tail_same_channel ordered_same_channel by auto
next
  case (RegisterReply i env b)
  then show ?thesis using assms register_same_channel ordered_same_channel by auto
next
  case (SendFrame ok)
  then obtain r rest where q: "ss_sendCh ss = r # rest" "ss_sender ss \<noteq> SDone"
    using assms(2) by (auto simp: send_frame_def split: list.splits if_splits)
  have "ss_queued ss = ss_wire ss @ r # rest" using assms(1) q by (simp add: ordered_def)
  then show ?thesis using SendFrame assms(2) q
    by (cases ok) (auto simp: send_frame_def ordered_def cancel_session_def cancel_workers_def)
next
  case (RequestExit i)
  then show ?thesis using assms
    by (auto simp: ordered_def store_worker_def split: option.splits if_splits)
qed (use assms in \<open>auto simp: ordered_def cancel_session_def cancel_workers_def split: if_splits\<close>)

lemma responses_ordered:
  assumes "ssteps es (d, new_session) = Some (d', ss)"
  shows "prefix (ss_wire ss) (ss_queued ss) \<and> (\<not> ss_cancelled ss \<longrightarrow> ss_queued ss = ss_wire ss @ ss_sendCh ss)"
proof -
  have "ordered ss"
    by (rule session_invariant [where P = ordered, OF assms _ ordered_step]) (simp add: ordered_def new_session_def)
  then show ?thesis by (simp add: ordered_def)
qed

text \<open>Theorem: responses reach the control plane in the order they were queued, none twice and none skipped. In
  every interleaving of a Session, what was written to the stream is a prefix of what was queued, and as long as
  the Session has not been cancelled the rest is still waiting in the queue.\<close>

theorem responses_in_order:
  assumes "ssteps es (d, new_session) = Some (d', ss)"
  shows "prefix (ss_wire ss) (ss_queued ss) \<and> (\<not> ss_cancelled ss \<longrightarrow> ss_queued ss = ss_wire ss @ ss_sendCh ss)"
  using responses_ordered [OF assms] .

section \<open>A fatal command's answer goes out before the daemon exits\<close>









end
