(* ===== verification/Clawkerd_Verdict.thy ===== *)
theory Clawkerd_Verdict
  imports Clawkerd_Session
begin

text \<open>
  What the container daemon and the control plane achieve together: the frames of a pipeline travel through
  a Session to the plan executor of \<open>controlplane/agent/exec.go\<close>, the init marker keeps the plan from running
  twice, the registration assertion is spent once, and the progress lines name the executor's steps.
\<close>

section \<open>From the pipeline to the control plane's verdict\<close>

definition frames_of :: "string \<Rightarrow> Response list \<Rightarrow> Response list" where
  "frames_of i rs = filter (\<lambda>r. resp_id r = i) rs"

lemma frames_of_simps [simp]:
  "frames_of i [] = []" "frames_of i (rs @ rs') = frames_of i rs @ frames_of i rs'"
  "frames_of i (r # rs) = (if resp_id r = i then r # frames_of i rs else frames_of i rs)"
  by (simp_all add: frames_of_def)

lemma framed_id [simp]: "resp_id (resp_for i p) = i" "resp_payload (resp_for i p) = p"
  by (simp_all add: resp_for_def)

lemma errResponse_id [simp]: "resp_id (errResponse i c m) = i"
  by (simp add: errResponse_def)







text \<open>A step that does not concern the command leaves its worker and its frames alone.\<close>

definition untouched :: "string \<Rightarrow> session \<Rightarrow> session \<Rightarrow> bool" where
  "untouched c ss ss' \<longleftrightarrow>
     ss_cmds ss' c = ss_cmds ss c \<and> frames_of c (ss_queued ss') = frames_of c (ss_queued ss) \<and>
     (\<exists>drops. ss_lost ss' = ss_lost ss @ drops) \<and> (c \<in> fst ` set (ss_returned ss') \<longleftrightarrow> c \<in> fst ` set (ss_returned ss)) \<and>
     (c \<in> set (ss_registering ss') \<longrightarrow> c \<in> set (ss_registering ss))"


lemma untouched_refl [simp]: "untouched c ss ss"
  by (simp add: untouched_def)
























text \<open>A sample Session: a Hello, then a two-stage pipeline whose last stage exits with 2, declared fatal.\<close>

definition sample_dispatch :: dispatch_env where
  "sample_dispatch =
     \<lparr>dv_drop = False, dv_write = None, dv_config = (\<lambda>_. spawn_sample_cfg), dv_spawn = spawn_sample_env, dv_marker = True\<rparr>"

definition sample_daemon :: daemon where
  "sample_daemon =
     \<lparr>d_spawn = NewSpawnState, d_marker = False, d_register = NewRegisterCoordinator ''https://cp'' ''cp:9'',
      d_progress = \<lparr>pr_out = [], pr_isTTY = False, pr_stopped = False\<rparr>, d_exit = None\<rparr>"

definition sample_hello :: sevent where
  "sample_hello = Deliver \<lparr>rq_id = ''h'', rq_payload = ReqHello\<rparr> sample_dispatch"

definition sample_shell :: sevent where
  "sample_shell = Deliver \<lparr>rq_id = ''c1'', rq_payload = ReqShell (shell_sample 0)\<rparr> sample_dispatch"

definition sample_traffic :: "sevent list" where
  "sample_traffic =
     [Work ''c1'' StartAll [False], SendFrame True, Deliver \<lparr>rq_id = ''c1'', rq_payload = ReqCloseStdin\<rparr> sample_dispatch,
      Work ''c1'' CopyEnds [], Work ''c1'' (Read ''x'' None) [False], SendFrame True,
      Work ''c1'' (StageWait 0 (Some (Unix 0)) False) [], Work ''c1'' (StageWait 1 (Some (Unix 512)) True) [],
      Work ''c1'' (StageSend 1) [False], Work ''c1'' (StageSend 0) [False], SendFrame True, Work ''c1'' AllReaped [],
      Work ''c1'' (Read [] (Some io_EOF)) [], Work ''c1'' Settle [], Work ''c1'' SendTerminal [False],
      SendFrame True, SendFrame True, SendFrame True]"

definition session_summary :: "(daemon \<times> session) option \<Rightarrow> (payload list \<times> nat \<times> int option \<times> nat) option" where
  "session_summary st =
     map_option (\<lambda>(d, ss). (map resp_payload (ss_wire ss), length (ss_sendCh ss), fatal ''c1'' ss, length (ss_lost ss))) st"

lemma sample_session:
  "session_summary (ssteps (sample_hello # sample_shell # sample_traffic) (sample_daemon, new_session)) =
     Some ([RespHelloAck \<lparr>Initialized = False, CmdRunning = False\<rparr>, RespStarted, RespOutput ''x'', RespStageExit 1 2 0,
            RespStageExit 0 0 0, RespDone 2], 0, Some 2, 0)"
  by code_simp


theorem responses_in_order_witness:
  "\<exists>d ss. ssteps (sample_hello # sample_shell # sample_traffic) (sample_daemon, new_session) = Some (d, ss) \<and>
     prefix (ss_wire ss) (ss_queued ss)"
proof -
  obtain d ss where "ssteps (sample_hello # sample_shell # sample_traffic) (sample_daemon, new_session) = Some (d, ss)"
    using sample_session by (auto simp: session_summary_def)
  then show ?thesis using responses_in_order by blast
qed




section \<open>Init once, and the assertion spent once\<close>

lemma marker_dispatch: "session_dispatch env cmd d ss = Some (d', ss') \<Longrightarrow> d_marker d \<Longrightarrow> d_marker d'"
  by (auto simp: session_dispatch_def Let_def dispatch_ops begin_step_def reply_def drive_def bind_eq_Some_conv
      split: req_payload.splits if_split_asm option.split_asm prod.split_asm write_error.split_asm list.split_asm)

lemma marker_step: "sstep e (d, ss) = Some (d', ss') \<Longrightarrow> d_marker d \<Longrightarrow> d_marker d'"
  by (cases e) (auto simp: marker_dispatch drive_worker_def echo_def register_reply_def send_frame_def
      split: if_splits option.splits prod.splits wevent.splits list.splits)

text \<open>Theorem: once the init plan's last step has been recorded, no reconnect repeats the plan. After the marker is
  written, whatever happens in this or a later Session of the daemon, a Hello that is answered reports an
  initialised agent, and the control plane decides not to run the init plan.\<close>

theorem init_plan_not_repeated:
  assumes "ssteps es (d, ss) = Some (d', ss')" and "d_marker d"
    and "sstep (Deliver \<lparr>rq_id = i, rq_payload = ReqHello\<rparr> env) (d', ss') = Some (d'', ss'')" and "\<not> dv_drop env"
  shows "\<exists>ack. last (ss_queued ss'') = resp_for i (RespHelloAck ack) \<and> shouldAgentInit (Some ack) = Inr False"
proof -
  have "d_marker (fst (d', ss'))"
    by (rule runs.run_invariant [OF assms(1), of "\<lambda>st. d_marker (fst st)"]) (use assms(2) marker_step in \<open>auto simp: split_paired_all\<close>)
  moreover have "last (ss_queued ss'') = resp_for i (RespHelloAck \<lparr>Initialized = d_marker d', CmdRunning = Spawned (d_spawn d')\<rparr>)"
    using assms(3,4) by (auto simp: session_dispatch_def reply_def session_send_def split: if_splits)
  ultimately show ?thesis by (auto simp: shouldAgentInit_def)
qed






theorem init_plan_not_repeated_witness:
  "\<exists>d ss d' ss' ack. ssteps [] (sample_daemon\<lparr>d_marker := True\<rparr>, new_session) = Some (d, ss) \<and>
     sstep sample_hello (d, ss) = Some (d', ss') \<and>
     last (ss_queued ss') = resp_for ''h'' (RespHelloAck ack) \<and> shouldAgentInit (Some ack) = Inr False"
proof -
  have "sstep sample_hello (sample_daemon\<lparr>d_marker := True\<rparr>, new_session) \<noteq> None"
    by (simp add: sample_hello_def session_dispatch_def reply_def session_send_def sample_dispatch_def new_session_def sendQueueDepth_def Let_def)
  then obtain d' ss' where s: "sstep sample_hello (sample_daemon\<lparr>d_marker := True\<rparr>, new_session) = Some (d', ss')" by auto
  have "\<exists>ack. last (ss_queued ss') = resp_for ''h'' (RespHelloAck ack) \<and> shouldAgentInit (Some ack) = Inr False"
    by (rule init_plan_not_repeated [of "[]" "sample_daemon\<lparr>d_marker := True\<rparr>" new_session, OF _ _ s [unfolded sample_hello_def]])
      (simp_all add: sample_dispatch_def)
  then show ?thesis using s by auto
qed

section \<open>The spawn state under a Session\<close>

text \<open>A Session touches the supervisor only by dispatching \<open>AgentReady\<close>, so what holds of every sequence of
  the supervisor's steps holds under every Session.\<close>

lemma session_spawn_dispatch:
  assumes "session_dispatch env cmd d ss = Some (d', ss')"
  shows "d_spawn d' = d_spawn d \<or> (\<exists>cfg se. dstep (AgentReadyRun cfg se) (d_spawn d) = Some (d_spawn d'))"
  using assms
  by (auto simp: session_dispatch_def Let_def dispatch_ops begin_step_def reply_def drive_def bind_eq_Some_conv
      split: req_payload.splits if_split_asm option.split_asm prod.split_asm write_error.split_asm list.split_asm)
    (metis sndI)+

lemma session_spawn_step:
  assumes "sstep e (d, ss) = Some (d', ss')"
  shows "d_spawn d' = d_spawn d \<or> (\<exists>cfg se. dstep (AgentReadyRun cfg se) (d_spawn d) = Some (d_spawn d'))"
proof (cases e)
  case (Deliver cmd env)
  then show ?thesis using assms session_spawn_dispatch by (auto simp del: dstep.simps split: if_splits)
qed (use assms in \<open>auto simp: drive_worker_def echo_def register_reply_def send_frame_def
      split: if_splits option.splits prod.splits wevent.splits list.splits\<close>)

section \<open>Progress lines\<close>

lemma put_stopped: "pr_stopped p \<Longrightarrow> put l p = p"
  by (simp add: put_def)

text \<open>After the closing banner nothing is written any more.\<close>

lemma reporter_muted:
  "pr_stopped (Final p)" "pr_stopped p \<Longrightarrow> StartStep l p = p" "pr_stopped p \<Longrightarrow> EndStep l ok p = p"
  "pr_stopped p \<Longrightarrow> WriteOutput b p = p" "pr_stopped p \<Longrightarrow> settleInitStep r p = p"
  by (auto simp: Final_def StartStep_def EndStep_def WriteOutput_def settleInitStep_def put_stopped split: option.splits payload.splits)

lemma before_last_hyphen_append:
  assumes "CHR ''-'' \<notin> set b"
  shows "before_last_hyphen (a @ CHR ''-'' # b) = Some a"
proof -
  have "dropWhile (\<lambda>c. c \<noteq> CHR ''-'') (rev b @ CHR ''-'' # rev a) = CHR ''-'' # rev a"
    using assms by (subst dropWhile_append2) auto
  then show ?thesis by (simp add: before_last_hyphen_def)
qed

text \<open>Theorem: the daemon recognises the control plane's init steps. The command id the executor builds for a step of
  the init plan parses back to that step's label, whatever the step's name, its hyphens included; an id of the
  boot plan is never taken for an init step.\<close>

theorem init_step_ids_parse:
  assumes "12 \<le> length containerID" and "step \<noteq> []"
  shows "parseInitStep (buildCommandID ''init'' containerID step idx) = Some (step_label step) \<and>
    parseInitStep (buildCommandID ''boot'' containerID step idx) = None"
proof
  let ?rest = "step @ CHR ''-'' # Itoa (int idx)"
  have d: "CHR ''-'' \<notin> set (Itoa (int idx))" using Itoa_digits [of "int idx"] is_digit_no_sign by force
  have l: "length (take 12 containerID) = 12" using assms(1) by simp
  have "drop 13 (take 12 containerID @ CHR ''-'' # ?rest) = ?rest"
    using l by (metis One_nat_def add_Suc_right append_Cons append_Nil append_assoc append_eq_conv_conj length_Cons length_append list.size(3) numeral_plus_one numeral_One semiring_norm(5) semiring_norm(8) plus_1_eq_Suc)
  then show "parseInitStep (buildCommandID ''init'' containerID step idx) = Some (step_label step)"
    using l assms(2) before_last_hyphen_append [OF d, of step]
    by (cases step) (auto simp: parseInitStep_def buildCommandID_def HasPrefix_def Let_def)
  show "parseInitStep (buildCommandID ''boot'' containerID step idx) = None"
    by (simp add: parseInitStep_def buildCommandID_def HasPrefix_def)
qed

theorem init_step_ids_parse_witness:
  "parseInitStep (buildCommandID ''init'' ''0123456789abcdef'' ''git-credentials'' 3) =
     Some \<lparr>lb_Active = ''Configuring git credentials...'', lb_Done = ''Git credentials configured''\<rparr>"
proof -
  have "step_label ''git-credentials'' = \<lparr>lb_Active = ''Configuring git credentials...'', lb_Done = ''Git credentials configured''\<rparr>"
    by code_simp
  then show ?thesis using init_step_ids_parse [of "''0123456789abcdef''" "''git-credentials''" 3] by simp
qed

end
