(* ===== verification/Clawkerd_Boot.thy ===== *)
theory Clawkerd_Boot
  imports Agent_Identity Clawkerd_Spawn
begin

text \<open>
  How the container daemon comes up: the bootstrap files of \<open>clawkerd/bootstrap.go\<close>, the user the command runs
  as (\<open>clawkerd/user.go\<close>), the certificate pin of the listener (\<open>clawkerd/listener.go\<close>) and the checks of the main
  function of \<open>internal/clawkerd/cmd.go\<close> before its idle loop. The files, the passwd and group parser of the
  moby library, the TLS material and the bind are arguments; the error texts leave out the quoted paths and the
  user specification they embed.
\<close>

section \<open>Bootstrap files\<close>

record bootstrap =
  CertPEM :: string
  KeyPEM :: string
  CACertPEM :: string
  Assertion :: string

definition read_bootstrap_file :: "(string \<Rightarrow> string + string) \<Rightarrow> string \<Rightarrow> string + string" where
  "read_bootstrap_file readFile name =
     (case readFile name of
        Inl e \<Rightarrow> Inl (''read '' @ name @ '': '' @ e)
      | Inr data \<Rightarrow> if data = [] then Inl (name @ '' is empty'') else Inr data)"

definition ReadBootstrap :: "(string \<Rightarrow> string + string) \<Rightarrow> string + bootstrap" where
  "ReadBootstrap readFile =
     (case read_bootstrap_file readFile ''cert.pem'' of
        Inl e \<Rightarrow> Inl e
      | Inr cert \<Rightarrow>
          (case read_bootstrap_file readFile ''key.pem'' of
             Inl e \<Rightarrow> Inl e
           | Inr key \<Rightarrow>
               (case read_bootstrap_file readFile ''ca.pem'' of
                  Inl e \<Rightarrow> Inl e
                | Inr ca \<Rightarrow>
                    (case read_bootstrap_file readFile ''assertion.jwt'' of
                       Inl e \<Rightarrow> Inl e
                     | Inr assertion \<Rightarrow>
                         Inr \<lparr>CertPEM = cert, KeyPEM = key, CACertPEM = ca, Assertion = TrimSpace assertion\<rparr>))))"

section \<open>The user of the command\<close>

text \<open>What the moby library resolves a specification to, and its view of the passwd rows.\<close>

record moby_user =
  mu_Uid :: int
  mu_Gid :: int
  mu_Sgids :: "int list"
  mu_Home :: string

record user_db =
  db_passwd :: "string + string"
  db_group :: "string + string"
  db_GetExecUser :: "string \<Rightarrow> string \<Rightarrow> string \<Rightarrow> string + moby_user"
  db_ParsePasswd :: "string \<Rightarrow> string + (string \<times> int) list"

definition lookupUsernameByUID :: "user_db \<Rightarrow> string \<Rightarrow> int \<Rightarrow> string + string" where
  "lookupUsernameByUID db passwd uid =
     (case db_ParsePasswd db passwd of
        Inl e \<Rightarrow> Inl e
      | Inr rows \<Rightarrow>
          (case filter (\<lambda>(_, u). u = uid) rows of
             [] \<Rightarrow> Inl (''uid='' @ Itoa uid @ '' not found in passwd'')
           | (name, _) # _ \<Rightarrow> Inr name))"

definition ResolveUser :: "user_db \<Rightarrow> string \<Rightarrow> string + ExecUser" where
  "ResolveUser db spec =
     (if spec = [] then Inl ''clawkerd: empty user spec''
      else
        (case db_passwd db of
           Inl e \<Rightarrow> Inl (''clawkerd: read passwd: '' @ e)
         | Inr passwd \<Rightarrow>
             (case db_group db of
                Inl e \<Rightarrow> Inl (''clawkerd: open group: '' @ e)
              | Inr grp \<Rightarrow>
                  (case db_GetExecUser db spec passwd grp of
                     Inl e \<Rightarrow> Inl (''clawkerd: resolve user: '' @ e)
                   | Inr u \<Rightarrow>
                       (case lookupUsernameByUID db passwd (mu_Uid u) of
                          Inl e \<Rightarrow> Inl (''clawkerd: lookup username: '' @ e)
                        | Inr name \<Rightarrow>
                            Inr \<lparr>eu_Name = name, eu_UID = word_of_int (mu_Uid u), eu_GID = word_of_int (mu_Gid u),
                                 eu_Groups = map word_of_int (mu_Sgids u), eu_Home = mu_Home u\<rparr>)))))"

section \<open>Who may open a Session\<close>

definition ContainerCP :: string where
  "ContainerCP = ''clawker-controlplane''"

datatype ext_key_usage = ClientAuth | ServerAuth | OtherUsage

record peer_leaf =
  pl_Cert :: Certificate
  pl_ExtKeyUsage :: "ext_key_usage list"

text \<open>The verified chains the TLS stack hands over, each with its leaf first; nothing when the peer is
  accepted.\<close>

definition pinPeerCNToCP :: "peer_leaf list list \<Rightarrow> string option" where
  "pinPeerCNToCP verifiedChains =
     (case verifiedChains of
        (leaf # _) # _ \<Rightarrow>
          if CommonName (pl_Cert leaf) \<noteq> ContainerCP then Some ''clawkerd listener: peer CN not authorized''
          else if ClientAuth \<notin> set (pl_ExtKeyUsage leaf) then Some ''clawkerd listener: peer cert missing ClientAuth EKU''
          else None
      | _ \<Rightarrow> Some ''clawkerd listener: no verified peer chain'')"

section \<open>Before the idle loop\<close>

definition exitCodeConfig :: int where
  "exitCodeConfig = 2"

text \<open>The environment of the process: the agent's name, the user variable, the files, the databases, an error of the
  listener's TLS material and one of its bind.\<close>

record boot_env =
  be_agent :: string
  be_user :: string
  be_files :: "string \<Rightarrow> string + string"
  be_db :: user_db
  be_tlsErr :: "string option"
  be_bindErr :: "string option"

definition ContainerUser_name :: string where
  "ContainerUser_name = ''clawker''"

datatype listen_error = ErrListenerConfig string | ListenErr string

definition StartClawkerdListener :: "boot_env \<Rightarrow> bootstrap \<Rightarrow> listen_error option" where
  "StartClawkerdListener env boot =
     (case be_tlsErr env of
        Some e \<Rightarrow> Some (ErrListenerConfig (''TLS config: '' @ e))
      | None \<Rightarrow> map_option (\<lambda>e. ListenErr (''listen: '' @ e)) (be_bindErr env))"

text \<open>Either the exit code and the error, or what the daemon runs with.\<close>

definition boot :: "boot_env \<Rightarrow> int \<times> string + ExecUser \<times> bootstrap" where
  "boot env =
     (if be_agent env = [] then Inl (exitCodeConfig, ''required env not set'')
      else
        (case ResolveUser (be_db env) (if be_user env = [] then ContainerUser_name else be_user env) of
           Inl e \<Rightarrow> Inl (exitCodeConfig, ''resolve user: '' @ e)
         | Inr u \<Rightarrow>
             (case ReadBootstrap (be_files env) of
                Inl e \<Rightarrow> Inl (exitCodeConfig, ''read bootstrap: '' @ e)
              | Inr b \<Rightarrow>
                  (case StartClawkerdListener env b of
                     Some (ErrListenerConfig e) \<Rightarrow> Inl (exitCodeConfig, ''start clawkerd listener: '' @ e)
                   | Some (ListenErr e) \<Rightarrow> Inl (1, ''start clawkerd listener: '' @ e)
                   | None \<Rightarrow> Inr (u, b)))))"

section \<open>Properties\<close>

lemma pin_accepts_iff:
  "pinPeerCNToCP vchains = None \<longleftrightarrow>
     (\<exists>leaf rest others. vchains = (leaf # rest) # others \<and> CommonName (pl_Cert leaf) = ContainerCP \<and>
        ClientAuth \<in> set (pl_ExtKeyUsage leaf))"
  by (auto simp: pinPeerCNToCP_def split: list.splits)

lemma minted_common_name: "MintAgentCert ca key sign p a cid = Inr cert \<Longrightarrow> CommonName cert = ContainerClawkerd"
  by (auto simp: MintAgentCert_def split: if_splits option.splits sum.splits)

text \<open>Theorem: no agent can command another. A certificate that the command line mints for an agent, whatever the
  agent's project, name and container, however its usages are set and however its chain verifies, is refused by
  every daemon's listener: only a leaf with the control plane's own name opens a Session.\<close>

theorem agent_leaf_opens_no_session:
  assumes "MintAgentCert ca key sign p a cid = Inr cert" and "vchains = (\<lparr>pl_Cert = cert, pl_ExtKeyUsage = usages\<rparr> # rest) # others"
  shows "pinPeerCNToCP vchains = Some ''clawkerd listener: peer CN not authorized''"
  using minted_common_name [OF assms(1)] assms(2)
  by (simp add: pinPeerCNToCP_def ContainerCP_def ContainerClawkerd_def)

theorem agent_leaf_opens_no_session_witness:
  "\<exists>cert. MintAgentCert None None (\<lambda>_ _. Inr ''der'') (MkProjectSlug ''p'') (MkAgentName ''a'') ''ab12'' = Inr cert \<and>
     pinPeerCNToCP [[\<lparr>pl_Cert = cert, pl_ExtKeyUsage = [ClientAuth, ServerAuth]\<rparr>]] =
       Some ''clawkerd listener: peer CN not authorized''"
proof -
  have "(case MintAgentCert None None (\<lambda>_ _. Inr ''der'') (MkProjectSlug ''p'') (MkAgentName ''a'') ''ab12'' of Inl _ \<Rightarrow> False | Inr _ \<Rightarrow> True)"
    by code_simp
  then obtain cert where "MintAgentCert None None (\<lambda>_ _. Inr ''der'') (MkProjectSlug ''p'') (MkAgentName ''a'') ''ab12'' = Inr cert"
    by (auto split: sum.splits)
  then show ?thesis using agent_leaf_opens_no_session by blast
qed

text \<open>A daemon that came up has all its material and runs its command as the resolved user.\<close>

lemma boot_complete:
  assumes "boot env = Inr (u, b)"
  shows "CertPEM b \<noteq> [] \<and> KeyPEM b \<noteq> [] \<and> CACertPEM b \<noteq> [] \<and>
    sc_user (DefaultEntry args environ terminal (Some u) c) = Some u"
proof -
  have "ReadBootstrap (be_files env) = Inr b"
    using assms by (auto simp: boot_def split: if_splits sum.splits option.splits listen_error.splits)
  then show ?thesis
    by (auto simp: ReadBootstrap_def read_bootstrap_file_def DefaultEntry_def split: sum.splits if_splits)
qed

lemma boot_exit_codes: "boot env = Inl (code, e) \<Longrightarrow> code = exitCodeConfig \<or> code = 1 \<and> be_bindErr env \<noteq> None"
  by (auto simp: boot_def StartClawkerdListener_def split: if_splits sum.splits option.splits listen_error.splits)

end
