(* ===== verification/Spec2Isabelle.thy ===== *)
theory Spec2Isabelle
  imports Rule_Handler CoreDNS Enforcement Envoy_Aliases Path_Lockstep Event_Pipeline Agent_Trust Clawkerd_Verdict Clawkerd_Boot
begin

text \<open>
  Clawker runs coding agents in containers and confines what they can reach and who may command them. This
  library models the parts of the program that carry those promises, from the sources under \<open>src/\<close>, and proves
  what makes them correct. Each theory opens with the files it models; the definitions keep the names of the Go
  declarations they translate.

  \<^bold>\<open>The program and its parts.\<close> The control plane is a daemon on the host. Its \<^emph>\<open>firewall\<close> keeps the egress
  rules of the agents and projects them into four enforcement points: the Envoy configuration (who is proxied
  where, and which paths of a host), the Corefile of the resolver (which names exist), the route table and the
  bypass flags of the eBPF programs (which packets leave the container, and to which listener), and the rules file
  that the \<^emph>\<open>host proxy\<close> evaluates before it opens a URL in the host's browser. Its \<^emph>\<open>agent\<close> side
  authenticates the containers, records their certificates, dials a Session to the daemon in each container and runs
  the init and boot plans over it. The \<^emph>\<open>event bus\<close> and the \<^emph>\<open>feeder\<close> carry Docker's events to both. The
  \<^emph>\<open>container daemon\<close> (clawkerd, PID 1 of an agent container) serves the Session, runs the shell pipelines of the plans, spawns
  the user's command and supervises it.

  \<^bold>\<open>Shared ground.\<close>
  \<^item> \<open>Go_Prelude\<close>: strings, decimal conversion, sorting, keyed upserts (locale \<open>keyed_upsert\<close>) and deduplication as
    the Go code uses them; the \<open>named_theorems\<close> collections.
  \<^item> \<open>Go_Net\<close>: \<open>ParseIP\<close>, \<open>ParseCIDR\<close>, \<open>To4\<close> and \<open>netip.ParseAddr\<close> on byte lists.
  \<^item> \<open>Labelled_Runs\<close>: runs of a step function over labels (locales \<open>labelled_runs\<close> and \<open>emitting_runs\<close>), interpreted
    on the supervisor, the pipeline worker and the Session.

  \<^bold>\<open>Rules.\<close>
  \<^item> \<open>Egress_Config\<close> (\<open>internal/config\<close>, \<open>api/admin/v1/conversion.go\<close>): the rule records, the port
    specification and the wire conversion, with the locale \<open>codec\<close> for every round trip.
  \<^item> \<open>Port_Spans\<close>, \<open>Firewall_Domain\<close>, \<open>Rules_Store\<close>, \<open>Opaque_Conflicts\<close> (\<open>controlplane/firewall/rules_store.go\<close>,
    \<open>coredns_config.go\<close>): span arithmetic against sets of ports, destination validation against a grammar, merge and normal
    form, and the canonical rule set in which a deny always wins over an overlapping allow.
  \<^item> \<open>Action_Queue\<close>, \<open>Rule_Handler\<close> (\<open>queue.go\<close>, \<open>handler.go\<close>): the serialising queue as a transition
    system in which every submission gets one reply, and the rule RPCs over the store with their failures.

  \<^bold>\<open>Projections.\<close>
  \<^item> \<open>Envoy_Layout\<close>, \<open>Envoy_Config\<close>, \<open>Envoy_Layers\<close>, \<open>Envoy_Generate\<close> (\<open>envoy_*.go\<close>): the port layout with its
    checks, the accumulator, the building blocks and the generator as a whole. \<open>Envoy_Soundness\<close> analyses the forward pass once, in the locale
    \<open>forward_pass\<close>, and interprets it for references, for origins and, in \<open>Envoy_Hosts\<close>, for virtual hosts;
    \<open>Envoy_Guarantees\<close> reads off what a finished configuration promises. \<open>Envoy_Sample\<close> is a generation that meets the
    hypotheses of those theorems, \<open>Envoy_Aliases\<close> one whose result Envoy refuses.
  \<^item> \<open>Routes\<close>, \<open>Ebpf_Manager\<close>, \<open>Enforcement\<close> (\<open>rules_store.go\<close>, \<open>ebpf/\<close>, \<open>handler.go\<close>, \<open>drift.go\<close>): the
    route table at its machine widths, the kernel maps and their synchronisation and garbage collection, and enrolment,
    bypass and the dead-man timers.
  \<^item> \<open>CoreDNS\<close> (\<open>coredns_config.go\<close>): the zones and the decision a query gets from them.
  \<^item> \<open>Host_Egress\<close>, \<open>Path_Lockstep\<close> (\<open>internal/hostproxy/egress_check.go\<close>): the browser check and how far it agrees with the routes Envoy gets.

  \<^bold>\<open>Agents.\<close>
  \<^item> \<open>Agent_Registry\<close>, \<open>Agent_Identity\<close>, \<open>Agent_Register\<close> (\<open>controlplane/agent\<close>, \<open>controlplane/auth\<close>,
    \<open>internal/auth\<close>): the two registries behind one interface (locales \<open>agent_registry\<close> and \<open>unique_registry\<close>), the
    bearer gate, the certificate names, the peer lookup and the Register handler, proved over the interface.
  \<^item> \<open>Agent_Worldview\<close>, \<open>Agent_Executor\<close>, \<open>Agent_Plan_Runs\<close>, \<open>Agent_Dialer\<close>, \<open>Agent_Trust\<close>: the projection of events into
    the worldview, the plan executor over the frames of a stream, the dialer, and how trust follows from registration only.
  \<^item> \<open>Event_Bus\<close>, \<open>Docker_Feeder\<close>, \<open>Agent_Lifecycle\<close>, \<open>Event_Pipeline\<close> (\<open>controlplane/pubsub\<close>,
    \<open>controlplane/dockerevents\<close>, \<open>start.go\<close>, \<open>watcher.go\<close>): topics that shed their oldest event, the feeder, reaping and
    eviction, and the three composed.

  \<^bold>\<open>Container daemon.\<close>
  \<^item> \<open>Clawkerd_Spawn\<close> (\<open>clawkerd/spawn.go\<close>, \<open>spawn_unix.go\<close>, \<open>internal/clawkerd/cmd.go\<close>): the supervisor and
    the main loop as one step function \<open>dstep\<close> over an invariant \<open>supervised\<close>.
  \<^item> \<open>Clawkerd_Worker\<close>, \<open>Clawkerd_Session\<close> (\<open>session.go\<close>, \<open>register.go\<close>, \<open>progress.go\<close>): the goroutines of one
    pipeline (\<open>wstep\<close>) inside the goroutines of one Session (\<open>sstep\<close>).
  \<^item> \<open>Clawkerd_Verdict\<close>: daemon and executor composed, so that the verdict of a plan step is the exit code of the pipeline that ran.
  \<^item> \<open>Clawkerd_Boot\<close> (\<open>bootstrap.go\<close>, \<open>user.go\<close>, \<open>listener.go\<close>): start-up and who may open a Session.

  \<^bold>\<open>How code becomes definitions.\<close> Structs are records, errors are values of a sum or option type, maps are
  partial functions, or association lists where iteration order shows. Machine integers keep their width (\<open>32 word\<close>,
  \<open>16 word\<close>) wherever the code packs, hashes or truncates. Concurrent code is a step function on labels; a
  label names the goroutine that moves and what the kernel, Docker or the peer answers, and a theorem ranges over
  every list of labels. Time is the label that a timer fired. A loop over a stream, a ticker or a retry takes
  the list of its inputs; every other recursion has a termination proof, and nothing is bounded by fuel.
  What a panic does is a label or an argument.

  \<^bold>\<open>Arguments that stand for other code.\<close> The YAML marshaller of the Envoy configuration (assumed injective
  enough to tell the merged documents apart, \<open>marshal_faithful\<close>, which \<open>Envoy_Sample\<close> proves of a concrete one), the
  regular-expression engine and the URL parser of the host proxy, the zone matching of CoreDNS, the signing of
  certificates, the bearer introspection, SQLite faults, cgroup and map system calls, Docker's answers, the passwd
  parser, the token endpoint, and \<open>os/exec\<close>, of which the model uses that \<open>Wait\<close> returns after the
  process exited and its input was copied.

  \<^bold>\<open>Not modelled.\<close> The BPF programs are C. Creating and probing the stack's containers and generating X.509 material
  (\<open>controlplane/firewall/stack.go\<close>, \<open>certs.go\<close>) are calls into Docker and the crypto library. The command line, the terminal
  user interface, image building and the Docker client are rendering, prompting and SDK calls. The layered storage
  and configuration loader merges YAML trees by reflection over Go types; the firewall uses it through
  read, stage and write, which \<open>Rule_Handler\<close> models with their failures. The wiring of the control-plane process and the
  logging of every component are left out.
\<close>

section \<open>Two evaluators of one rules file\<close>

text \<open>Theorem: the network path and the browser path differ below a denied exact domain. With
  \<open>.example.com\<close> allowed and \<open>ads.example.com\<close> denied, the deny zone answers NXDOMAIN for every name
  below \<open>ads.example.com\<close>, so a container cannot resolve \<open>x.ads.example.com\<close>; the host proxy takes the
  deny as an exact match only and opens the same host in the host's browser.\<close>

theorem host_proxy_opens_dns_denied:
  "dns_decision pick_zone answer_zone sample_dns_rules ''x.ads.example.com'' = NXDOMAIN \<and>
   matchRules compile (map host_view (map NormalizeRule sample_dns_rules)) ''x.ads.example.com'' ''https'' 443 u = None"
proof
  show "dns_decision pick_zone answer_zone sample_dns_rules ''x.ads.example.com'' = NXDOMAIN"
    by (simp add: dns_decision_def sample_dns_zones covers_def zone_length_def HasSuffix_def HasPrefix_def)
  have l: "ToLower ''https'' = ''https''" "ToLower ''.example.com'' = ''.example.com''"
    "ToLower ''ads.example.com'' = ''ads.example.com''" "ToLower ''api.example.com'' = ''api.example.com''"
    "ToLower ''x.ads.example.com'' = ''x.ads.example.com''" by code_simp+
  have n: "NormalizeRule (domain_rule a d) = (domain_rule a d)\<lparr>Port := ''443''\<rparr>" if "a \<noteq> []" for a d
    using that by (simp add: NormalizeRule_def domain_rule_def default_port_def l)
  have p: "portSpecMatches ''443'' 443" by (simp add: portSpecMatches_def parsePortSpec_eq)
  have a: "netip_ParseAddr ''.example.com'' = None" "netip_ParseAddr ''ads.example.com'' = None"
    "netip_ParseAddr ''api.example.com'' = None" by code_simp+
  have d: "dstMatchType ''.example.com'' ''x.ads.example.com'' = matchWildcard"
    "dstMatchType ''ads.example.com'' ''x.ads.example.com'' = matchNone"
    "dstMatchType ''api.example.com'' ''x.ads.example.com'' = matchNone"
    unfolding dstMatchType_def a
    by (simp_all add: domainMatchType_def Let_def TrimSuffix_def HasSuffix_def HasPrefix_def l)
  have e: "EqualFold ''https'' ''tls'' = False" "EqualFold ''https'' ''https''" "EqualFold ''allow'' ''allow''" by code_simp+
  define hr where "hr a d = \<lparr>LDst = d, LProto = ''https'', LPort = ''443'', LAction = a, LPathRules = [], LPathDefault = []\<rparr>" for a d
  have v: "map host_view (map NormalizeRule sample_dns_rules) =
      [hr ''allow'' ''.example.com'', hr ''deny'' ''ads.example.com'', hr ''allow'' ''api.example.com'']"
    by (simp add: sample_dns_rules_def n) (simp add: domain_rule_def host_view_def hr_def)
  have nh: "normalizeEgressRule (hr a d) = hr a d" if "a \<noteq> []" for a d
    using that e by (simp add: normalizeEgressRule_def Let_def hr_def)
  have f: "LProto (hr a d) = ''https''" "LPort (hr a d) = ''443''" "LDst (hr a d) = d" "LAction (hr a d) = a"
    "LPathRules (hr a d) = []" for a d by (simp_all add: hr_def)
  show "matchRules compile (map host_view (map NormalizeRule sample_dns_rules)) ''x.ads.example.com'' ''https'' 443 u = None"
    unfolding v matchRules_def by (simp add: tier_step_def nh f p d e evaluateRule_def keep_first_def)
qed

end
